(* ===== verification/Prelude.thy ===== *)
theory Prelude
  imports Complex_Main "HOL-Library.AList" "HOL-Library.Monad_Syntax"
begin

text \<open>
  The vocabulary every component of the nTrade model shares.

  \<^item> Python's \<open>float\<close> is modelled by \<open>real\<close>: arithmetic is exact, so the theorems are about
    the formulas of the code and not about the last bits of IEEE rounding.  The rounding the
    code itself performs, \<open>round(x, n)\<close>, is modelled as Python defines it (to the nearest
    multiple of \<open>10 ^ -n\<close>, ties to the even neighbour) by \<open>py_round\<close>.
  \<^item> Python's \<open>int\<close> is \<open>int\<close>; \<open>int(x)\<close> of a float truncates towards zero (\<open>py_int\<close>).
  \<^item> A \<open>dict\<close> is an association list in insertion order; \<open>d[k] = v\<close> is \<open>AList.update\<close>
    (in place when the key exists, at the end otherwise) and \<open>d.pop(k)\<close> is \<open>AList.delete\<close>.
  \<^item> A \<open>datetime\<close> is its wall clock in microseconds and its UTC offset, if it is aware.
  \<^item> An exception is a value of \<open>py_error\<close>, carried on the left of a sum.
\<close>

named_theorems round_facts
named_theorems dict_facts
named_theorems step_defs

section \<open>Errors\<close>

datatype py_error =
    ValueError string
  | RuntimeError string
  | KeyErr string
  | TypeErr string
  | IndexErr string
  | RateLimitedErr
  | OtherError string

text \<open>\<open>str(exc)\<close>.\<close>

fun error_text :: "py_error \<Rightarrow> string" where
  "error_text (ValueError s) = s"
| "error_text (RuntimeError s) = s"
| "error_text (KeyErr s) = s"
| "error_text (TypeErr s) = s"
| "error_text (IndexErr s) = s"
| "error_text RateLimitedErr = ''rate limited''"
| "error_text (OtherError s) = s"

section \<open>Numbers\<close>

definition round_half_even :: "real \<Rightarrow> int" where
  "round_half_even y =
     (let f = \<lfloor>y\<rfloor>; d = y - of_int f
      in if d < 1 / 2 then f else if d > 1 / 2 then f + 1 else if even f then f else f + 1)"

definition py_round :: "nat \<Rightarrow> real \<Rightarrow> real" where
  "py_round n x = of_int (round_half_even (x * 10 ^ n)) / 10 ^ n"

definition py_int :: "real \<Rightarrow> int" where
  "py_int x = (if 0 \<le> x then \<lfloor>x\<rfloor> else \<lceil>x\<rceil>)"

lemma round_half_even_error: "\<bar>of_int (round_half_even y) - y\<bar> \<le> 1 / 2"
  unfolding round_half_even_def Let_def by (auto split: if_splits; linarith)

lemma round_half_even_of_int [simp]: "round_half_even (of_int k) = k"
  by (simp add: round_half_even_def)

lemma round_half_even_0 [simp]: "round_half_even 0 = 0"
  using round_half_even_of_int [of 0] by simp

lemma round_half_even_mono: "x \<le> y \<Longrightarrow> round_half_even x \<le> round_half_even y"
proof -
  assume le: "x \<le> y"
  then have fl: "\<lfloor>x\<rfloor> \<le> \<lfloor>y\<rfloor>" by (rule floor_mono)
  show ?thesis
  proof (cases "\<lfloor>x\<rfloor> = \<lfloor>y\<rfloor>")
    case True
    with le show ?thesis unfolding round_half_even_def Let_def by auto
  next
    case False
    with fl have "\<lfloor>x\<rfloor> + 1 \<le> \<lfloor>y\<rfloor>" by simp
    then show ?thesis unfolding round_half_even_def Let_def by auto
  qed
qed

lemma round_half_even_nonneg: "0 \<le> y \<Longrightarrow> 0 \<le> round_half_even y"
  using round_half_even_mono [of 0 y] by simp

lemma py_round_error [round_facts]: "\<bar>py_round n x - x\<bar> \<le> 1 / (2 * 10 ^ n)"
proof -
  have "py_round n x - x = (of_int (round_half_even (x * 10 ^ n)) - x * 10 ^ n) / 10 ^ n"
    by (simp add: py_round_def field_simps)
  then have "\<bar>py_round n x - x\<bar> = \<bar>of_int (round_half_even (x * 10 ^ n)) - x * 10 ^ n\<bar> / 10 ^ n"
    by simp
  also have "\<dots> \<le> (1 / 2) / 10 ^ n"
    by (rule divide_right_mono [OF round_half_even_error]) simp
  finally show ?thesis by simp
qed

lemma py_round4_bounds [round_facts]:
  "x - 1 / 20000 \<le> py_round 4 x" "py_round 4 x \<le> x + 1 / 20000"
  using py_round_error [of 4 x] by (auto simp: abs_if split: if_splits)

lemma py_round_mono [round_facts]: "x \<le> y \<Longrightarrow> py_round n x \<le> py_round n y"
  unfolding py_round_def
  by (intro divide_right_mono) (simp_all add: round_half_even_mono mult_right_mono)

lemma py_round_0 [simp]: "py_round n 0 = 0"
  by (simp add: py_round_def)

lemma py_round_nonneg [round_facts]: "0 \<le> x \<Longrightarrow> 0 \<le> py_round n x"
  using py_round_mono [of 0 x n] by simp

lemma py_round_of_int [simp]: "py_round n (of_int k) = of_int k"
proof -
  have "(of_int k :: real) * 10 ^ n = of_int (k * 10 ^ n)" by simp
  then have "round_half_even ((of_int k :: real) * 10 ^ n) = k * 10 ^ n"
    by (simp only: round_half_even_of_int)
  then show ?thesis by (simp add: py_round_def)
qed

lemma py_round_idem [simp]: "py_round n (py_round n x) = py_round n x"
proof -
  have "py_round n x * 10 ^ n = of_int (round_half_even (x * 10 ^ n))"
    by (simp add: py_round_def)
  then have "round_half_even (py_round n x * 10 ^ n) = round_half_even (x * 10 ^ n)"
    by simp
  then show ?thesis by (simp only: py_round_def)
qed

lemma py_int_of_int [simp]: "py_int (of_int k) = k"
  by (simp add: py_int_def)

lemma py_int_0 [simp]: "py_int 0 = 0"
  by (simp add: py_int_def)

lemma py_int_bounds: "0 \<le> x \<Longrightarrow> 0 \<le> py_int x \<and> of_int (py_int x) \<le> x"
  by (simp add: py_int_def)

lemma py_int_abs: "\<bar>of_int (py_int x)\<bar> \<le> \<bar>x\<bar>"
  unfolding py_int_def by (auto split: if_splits; linarith)

text \<open>Python's \<open>a or b\<close> on numbers: \<open>b\<close> when \<open>a\<close> is zero.\<close>

definition num_or :: "'a::zero \<Rightarrow> 'a \<Rightarrow> 'a" where
  "num_or a b = (if a = 0 then b else a)"

section \<open>Strings\<close>

definition upper_char :: "char \<Rightarrow> char" where
  "upper_char c =
     (let k = (of_char c :: nat) in if 97 \<le> k \<and> k \<le> 122 then char_of (k - 32) else c)"

definition lower_char :: "char \<Rightarrow> char" where
  "lower_char c =
     (let k = (of_char c :: nat) in if 65 \<le> k \<and> k \<le> 90 then char_of (k + 32) else c)"

definition upper :: "string \<Rightarrow> string" where
  "upper s = map upper_char s"

definition lower :: "string \<Rightarrow> string" where
  "lower s = map lower_char s"

text \<open>\<open>str.strip()\<close> on ASCII text.\<close>

definition is_space :: "char \<Rightarrow> bool" where
  "is_space c \<longleftrightarrow> (of_char c :: nat) \<in> {9, 10, 11, 12, 13, 28, 29, 30, 31, 32}"

definition py_strip :: "string \<Rightarrow> string" where
  "py_strip s = rev (dropWhile is_space (rev (dropWhile is_space s)))"

lemma upper_char_facts: "upper_char (upper_char c) = upper_char c" "is_space (upper_char c) = is_space c"
  by (auto simp: upper_char_def is_space_def Let_def)

lemma upper_upper [simp]: "upper (upper s) = upper s"
  by (simp add: upper_def upper_char_facts)

lemma py_strip_upper: "py_strip (upper s) = upper (py_strip s)"
  by (simp add: py_strip_def upper_def dropWhile_map rev_map comp_def upper_char_facts)

lemma py_strip_idem [simp]: "py_strip (py_strip s) = py_strip s"
proof -
  define t r where "t = dropWhile is_space s" and "r = rev (dropWhile is_space (rev t))"
  have "t = r @ rev (takeWhile is_space (rev t))"
    unfolding r_def by (metis rev_append rev_rev_ident takeWhile_dropWhile_id)
  then have "r \<noteq> [] \<Longrightarrow> \<not> is_space (hd r)" unfolding t_def by (metis hd_append2 hd_dropWhile append_is_Nil_conv)
  then have "dropWhile is_space r = r" by (cases r) auto
  moreover have "dropWhile is_space (rev r) = rev r" by (simp add: r_def dropWhile_idem)
  ultimately have "py_strip r = r" by (simp add: py_strip_def)
  moreover have "py_strip s = r" by (simp add: py_strip_def r_def t_def)
  ultimately show ?thesis by simp
qed

abbreviation BUY :: string where "BUY \<equiv> ''BUY''"
abbreviation SELL :: string where "SELL \<equiv> ''SELL''"
abbreviation MARKET :: string where "MARKET \<equiv> ''MARKET''"

section \<open>Text\<close>

text \<open>
  The renderings the code puts into messages and identifiers: \<open>str(n)\<close> of an int,
  \<open>f"{n:06d}"\<close>, \<open>f"{x:.2f}"\<close>, \<open>repr\<close> of a string without quotes in it, and \<open>repr\<close> of a float
  of ordinary magnitude (the fewest decimals, at least one, that give the number back).
\<close>

fun digits_aux :: "nat \<Rightarrow> nat \<Rightarrow> string" where
  "digits_aux 0 n = []"
| "digits_aux (Suc k) n =
     (if n < 10 then [char_of (48 + n)] else digits_aux k (n div 10) @ [char_of (48 + n mod 10)])"

definition str_nat :: "nat \<Rightarrow> string" where
  "str_nat n = digits_aux (Suc n) n"

definition str_int :: "int \<Rightarrow> string" where
  "str_int k = (if k < 0 then ''-'' @ str_nat (nat (- k)) else str_nat (nat k))"

definition pad_nat :: "nat \<Rightarrow> nat \<Rightarrow> string" where
  "pad_nat w n = (let d = str_nat n in replicate (w - length d) (CHR ''0'') @ d)"

definition fmt_fixed :: "nat \<Rightarrow> real \<Rightarrow> string" where
  "fmt_fixed n x =
     (let k = round_half_even (x * 10 ^ n); a = nat \<bar>k\<bar>
      in (if x < 0 then ''-'' else []) @ str_nat (a div 10 ^ n) @
         (if n = 0 then [] else ''.'' @ pad_nat n (a mod 10 ^ n)))"

fun repr_decimals :: "nat \<Rightarrow> nat \<Rightarrow> real \<Rightarrow> nat" where
  "repr_decimals 0 n x = n"
| "repr_decimals (Suc k) n x = (if py_round n x = x then n else repr_decimals k (Suc n) x)"

definition repr_float :: "real \<Rightarrow> string" where
  "repr_float x = fmt_fixed (repr_decimals 16 1 x) x"

definition repr_str :: "string \<Rightarrow> string" where
  "repr_str s = [char_of (39::nat)] @ s @ [char_of (39::nat)]"

text \<open>Reading decimal digits back; identifiers made by these renderings are therefore distinct.\<close>

definition digits_val :: "string \<Rightarrow> nat" where
  "digits_val s = foldl (\<lambda>a c. 10 * a + (of_char c - 48)) 0 s"

lemma digits_val_snoc: "digits_val (s @ [c]) = 10 * digits_val s + (of_char c - 48)"
  by (simp add: digits_val_def)

lemma digits_val_Nil [simp]: "digits_val [] = 0"
  by (simp add: digits_val_def)

lemma digits_aux_val: "n < k \<Longrightarrow> digits_val (digits_aux k n) = n"
proof (induction k arbitrary: n)
  case 0
  then show ?case by simp
next
  case (Suc k)
  show ?case
  proof (cases "n < 10")
    case True
    then show ?thesis using digits_val_snoc [of "[]"] by (simp add: of_char_of)
  next
    case False
    then have "n div 10 < k" using Suc.prems by linarith
    with False Suc.IH show ?thesis by (simp add: digits_val_snoc of_char_of)
  qed
qed

lemma str_nat_val [simp]: "digits_val (str_nat n) = n"
  unfolding str_nat_def by (rule digits_aux_val) simp

lemma str_nat_inj [simp]: "str_nat m = str_nat n \<longleftrightarrow> m = n"
  by (metis str_nat_val)

lemma digits_val_zeros: "digits_val (replicate k (CHR ''0'') @ s) = digits_val s"
  by (induction k) (simp_all add: digits_val_def)

lemma pad_nat_inj [simp]: "pad_nat w m = pad_nat w n \<longleftrightarrow> m = n"
  by (metis digits_val_zeros pad_nat_def str_nat_val)

section \<open>Dictionaries\<close>

type_synonym ('k, 'v) dict = "('k \<times> 'v) list"

abbreviation keys :: "('k, 'v) dict \<Rightarrow> 'k list" where
  "keys d \<equiv> map fst d"

abbreviation vals :: "('k, 'v) dict \<Rightarrow> 'v list" where
  "vals d \<equiv> map snd d"

definition get_default :: "('k, 'v) dict \<Rightarrow> 'k \<Rightarrow> 'v \<Rightarrow> 'v" where
  "get_default d k v = (case map_of d k of None \<Rightarrow> v | Some w \<Rightarrow> w)"

lemma dict_get_set [simp, dict_facts]:
  "map_of (AList.update k v d) k' = (if k' = k then Some v else map_of d k')"
  by (simp add: update_conv)

lemma dict_get_pop [simp, dict_facts]:
  "map_of (AList.delete k d) k' = (if k' = k then None else map_of d k')"
  by (simp add: delete_conv)

lemma dict_keys_set [simp, dict_facts]:
  "set (keys (AList.update k v d)) = insert k (set (keys d))"
  by (auto simp: update_keys)

lemma dict_keys_pop [simp, dict_facts]:
  "set (keys (AList.delete k d)) = set (keys d) - {k}"
  by (auto simp: delete_keys)

lemmas dict_image_facts [simp, dict_facts] =
  dict_keys_set [unfolded set_map] dict_keys_pop [unfolded set_map]

lemma dict_distinct_set [simp, dict_facts]:
  "distinct (keys d) \<Longrightarrow> distinct (keys (AList.update k v d))"
  by (rule distinct_update)

lemma dict_distinct_pop [simp, dict_facts]:
  "distinct (keys d) \<Longrightarrow> distinct (keys (AList.delete k d))"
  by (rule distinct_delete)

lemma dict_length_set:
  "length (AList.update k v d) = (if k \<in> set (keys d) then length d else Suc (length d))"
  by (induction d) auto

lemma dict_length_pop: "length (AList.delete k d) \<le> length d"
  by (rule length_delete_le)

section \<open>Bounded deques\<close>

text \<open>\<open>deque(maxlen=n)\<close> and \<open>del buf[:len(buf) - n]\<close>: keep the last \<open>n\<close> elements.\<close>

definition last_n :: "nat \<Rightarrow> 'a list \<Rightarrow> 'a list" where
  "last_n n xs = drop (length xs - n) xs"

lemma length_last_n [simp]: "length (last_n n xs) = min n (length xs)"
  by (simp add: last_n_def)

lemma last_n_id [simp]: "length xs \<le> n \<Longrightarrow> last_n n xs = xs"
  by (simp add: last_n_def)

lemma set_last_n: "set (last_n n xs) \<subseteq> set xs"
  by (simp add: last_n_def set_drop_subset)

lemma last_n_snoc: "0 < n \<Longrightarrow> last_n n (xs @ [x]) = last_n (n - 1) xs @ [x]"
  by (simp add: last_n_def)

section \<open>Time\<close>

text \<open>
  \<open>dt_wall\<close> counts microseconds of the wall clock since 1970-01-01T00:00:00; \<open>dt_tz\<close> is the
  UTC offset in seconds of an aware value and \<open>None\<close> for a naive one.  \<open>Asia/Kolkata\<close> has
  had the constant offset \<open>+05:30\<close> since 1945, so the zone is that offset.
\<close>

record datetime =
  dt_wall :: int
  dt_tz :: "int option"

abbreviation US :: int where "US \<equiv> 1000000"

definition IST :: int where "IST = 19800"

definition naive :: "int \<Rightarrow> datetime" where
  "naive s = \<lparr>dt_wall = s * US, dt_tz = None\<rparr>"

definition aware :: "int \<Rightarrow> int \<Rightarrow> datetime" where
  "aware s off = \<lparr>dt_wall = s * US, dt_tz = Some off\<rparr>"

text \<open>Absolute microseconds of an aware value (a naive one read at the given offset).\<close>

definition dt_abs :: "int \<Rightarrow> datetime \<Rightarrow> int" where
  "dt_abs off t = dt_wall t - (case dt_tz t of None \<Rightarrow> off | Some z \<Rightarrow> z) * US"

definition date_of :: "datetime \<Rightarrow> int" where
  "date_of t = dt_wall t div (86400 * US)"

definition weekday :: "datetime \<Rightarrow> int" where
  "weekday t = (date_of t + 3) mod 7"

definition time_of_day :: "datetime \<Rightarrow> int" where
  "time_of_day t = dt_wall t mod (86400 * US)"

text \<open>\<open>t.astimezone(zone)\<close> for an aware \<open>t\<close>.\<close>

definition astimezone :: "int \<Rightarrow> datetime \<Rightarrow> datetime" where
  "astimezone off t = \<lparr>dt_wall = dt_abs 0 t + off * US, dt_tz = Some off\<rparr>"

section \<open>Sums\<close>

lemma sum_list_nonneg_real: "(\<And>x. x \<in> set xs \<Longrightarrow> 0 \<le> x) \<Longrightarrow> 0 \<le> sum_list (xs :: real list)"
  by (rule sum_list_nonneg)

end
