(* ===== verification/Events.thy ===== *)
theory Events
  imports Prelude
begin

text \<open>
  The canonical event model (\<open>ntrade/events/*.py\<close>): one record per event class with the
  class's own fields, all extending \<open>event_base\<close> (the kernel timestamp), and the sum \<open>msg\<close>
  of all of them.  The trace ids that \<open>events/base.py\<close> gives every event (\<open>event_id\<close>,
  \<open>correlation_id\<close>, \<open>causation_id\<close>) are the fields of \<open>event\<close>, which wraps a message; they
  are what the bus stamps.
\<close>

section \<open>Values carried by free-form dictionaries\<close>

datatype pyval = PNone | PBool bool | PInt int | PFloat real | PStr string

type_synonym metadata = "(string, pyval) dict"

section \<open>Market events\<close>

record event_base =
  ts :: datetime

record tick_event = event_base +
  tk_symbol :: string
  tk_exchange :: string
  tk_price :: real
  tk_quantity :: int
  tk_side :: string
  tk_kind :: string

record quote_event = event_base +
  qe_symbol :: string
  qe_exchange :: string
  qe_ltp :: real
  qe_bid :: real
  qe_ask :: real
  qe_open :: real
  qe_high :: real
  qe_low :: real
  qe_prev_close :: real
  qe_volume :: int
  qe_oi :: int

record depth_event = event_base +
  de_symbol :: string
  de_exchange :: string
  de_bids :: "(real \<times> int \<times> int) list"
  de_asks :: "(real \<times> int \<times> int) list"

record candle_closed = event_base +
  cc_symbol :: string
  cc_exchange :: string
  cc_timeframe :: string
  cc_open :: real
  cc_high :: real
  cc_low :: real
  cc_close :: real
  cc_volume :: int

record quote_updated = event_base +
  qu_symbol :: string
  qu_exchange :: string
  qu_ltp :: real
  qu_bid :: real
  qu_ask :: real

record indicator_updated = event_base +
  iu_symbol :: string
  iu_exchange :: string
  iu_timeframe :: string
  iu_indicators :: metadata

section \<open>Order events\<close>

record order_intent = event_base +
  oi_symbol :: string
  oi_exchange :: string
  oi_side :: string
  oi_quantity :: int
  oi_order_type :: string
  oi_price :: real
  oi_reference_price :: real
  oi_strategy :: string

record order_accepted = event_base +
  oa_order_id :: string
  oa_symbol :: string
  oa_exchange :: string
  oa_side :: string
  oa_quantity :: int
  oa_strategy :: string

record order_rejected = event_base +
  or_order_id :: string
  or_symbol :: string
  or_exchange :: string
  or_side :: string
  or_quantity :: int
  or_reason :: string
  or_strategy :: string

record order_filled = event_base +
  of_order_id :: string
  of_symbol :: string
  of_exchange :: string
  of_side :: string
  of_quantity :: int
  of_fill_price :: real
  of_commission :: real
  of_statutory :: real
  of_strategy :: string

record order_updated = event_base +
  ou_order_id :: string
  ou_symbol :: string
  ou_exchange :: string
  ou_side :: string
  ou_status :: string
  ou_filled_qty :: int
  ou_avg_price :: real
  ou_strategy :: string

record order_timeout = event_base +
  ot_order_id :: string
  ot_symbol :: string
  ot_exchange :: string
  ot_side :: string
  ot_quantity :: int
  ot_age_seconds :: real
  ot_strategy :: string

section \<open>Signal, risk and portfolio events\<close>

record signal_generated = event_base +
  sg_symbol :: string
  sg_exchange :: string
  sg_side :: string
  sg_quantity :: int
  sg_price :: real
  sg_order_type :: string
  sg_strategy :: string
  sg_metadata :: metadata

record signal_approved = event_base +
  sa_signal :: signal_generated

record signal_rejected = event_base +
  sr_signal :: signal_generated
  sr_reason :: string

record risk_halted = event_base +
  rh_reason :: string
  rh_equity :: real

record position_updated = event_base +
  pu_symbol :: string
  pu_exchange :: string
  pu_quantity :: int
  pu_avg_price :: real
  pu_ltp :: real

record balance_changed = event_base +
  bc_balance :: real

section \<open>The sum of all event classes\<close>

datatype msg =
    TickEvent tick_event
  | QuoteEvent quote_event
  | DepthEvent depth_event
  | CandleClosedEvent candle_closed
  | QuoteUpdatedEvent quote_updated
  | IndicatorUpdatedEvent indicator_updated
  | WatchlistReady datetime "string list" string
  | OrderIntentEvent order_intent
  | OrderAcceptedEvent order_accepted
  | OrderRejectedEvent order_rejected
  | OrderFilledEvent order_filled
  | OrderUpdatedEvent order_updated
  | OrderTimeoutEvent order_timeout
  | SignalGeneratedEvent signal_generated
  | SignalApprovedEvent signal_approved
  | SignalRejectedEvent signal_rejected
  | RiskHaltedEvent risk_halted
  | RiskResumedEvent datetime string
  | PositionUpdatedEvent position_updated
  | BalanceChangedEvent balance_changed
  | KernelStartedEvent datetime string
  | SessionStartedEvent datetime string
  | SessionStoppedEvent datetime string string
  | RunnerStartedEvent datetime
  | RunnerStoppedEvent datetime string
  | HeartbeatEvent datetime int int
  | FeedDisconnectedEvent datetime string

text \<open>The class of an event, and Python's \<open>__mro__\<close> of that class.\<close>

datatype etype =
    TTick | TQuote | TDepth | TCandleClosed | TQuoteUpdated | TIndicatorUpdated | TWatchlist
  | TIntent | TAccepted | TRejected | TFilled | TUpdated | TTimeout
  | TSignal | TApproved | TSigRejected | THalted | TResumed
  | TPosition | TBalance
  | TKernelStarted | TSessionStarted | TSessionStopped | TRunnerStarted | TRunnerStopped
  | THeartbeat | TFeedDisconnected
  | TEvent | TObject

fun msg_type :: "msg \<Rightarrow> etype" where
  "msg_type (TickEvent _) = TTick"
| "msg_type (QuoteEvent _) = TQuote"
| "msg_type (DepthEvent _) = TDepth"
| "msg_type (CandleClosedEvent _) = TCandleClosed"
| "msg_type (QuoteUpdatedEvent _) = TQuoteUpdated"
| "msg_type (IndicatorUpdatedEvent _) = TIndicatorUpdated"
| "msg_type (WatchlistReady _ _ _) = TWatchlist"
| "msg_type (OrderIntentEvent _) = TIntent"
| "msg_type (OrderAcceptedEvent _) = TAccepted"
| "msg_type (OrderRejectedEvent _) = TRejected"
| "msg_type (OrderFilledEvent _) = TFilled"
| "msg_type (OrderUpdatedEvent _) = TUpdated"
| "msg_type (OrderTimeoutEvent _) = TTimeout"
| "msg_type (SignalGeneratedEvent _) = TSignal"
| "msg_type (SignalApprovedEvent _) = TApproved"
| "msg_type (SignalRejectedEvent _) = TSigRejected"
| "msg_type (RiskHaltedEvent _) = THalted"
| "msg_type (RiskResumedEvent _ _) = TResumed"
| "msg_type (PositionUpdatedEvent _) = TPosition"
| "msg_type (BalanceChangedEvent _) = TBalance"
| "msg_type (KernelStartedEvent _ _) = TKernelStarted"
| "msg_type (SessionStartedEvent _ _) = TSessionStarted"
| "msg_type (SessionStoppedEvent _ _ _) = TSessionStopped"
| "msg_type (RunnerStartedEvent _) = TRunnerStarted"
| "msg_type (RunnerStoppedEvent _ _) = TRunnerStopped"
| "msg_type (HeartbeatEvent _ _ _) = THeartbeat"
| "msg_type (FeedDisconnectedEvent _ _) = TFeedDisconnected"

definition mro :: "msg \<Rightarrow> etype list" where
  "mro m = [msg_type m, TEvent, TObject]"

fun msg_ts :: "msg \<Rightarrow> datetime" where
  "msg_ts (TickEvent e) = ts e"
| "msg_ts (QuoteEvent e) = ts e"
| "msg_ts (DepthEvent e) = ts e"
| "msg_ts (CandleClosedEvent e) = ts e"
| "msg_ts (QuoteUpdatedEvent e) = ts e"
| "msg_ts (IndicatorUpdatedEvent e) = ts e"
| "msg_ts (WatchlistReady t _ _) = t"
| "msg_ts (OrderIntentEvent e) = ts e"
| "msg_ts (OrderAcceptedEvent e) = ts e"
| "msg_ts (OrderRejectedEvent e) = ts e"
| "msg_ts (OrderFilledEvent e) = ts e"
| "msg_ts (OrderUpdatedEvent e) = ts e"
| "msg_ts (OrderTimeoutEvent e) = ts e"
| "msg_ts (SignalGeneratedEvent e) = ts e"
| "msg_ts (SignalApprovedEvent e) = ts e"
| "msg_ts (SignalRejectedEvent e) = ts e"
| "msg_ts (RiskHaltedEvent e) = ts e"
| "msg_ts (RiskResumedEvent t _) = t"
| "msg_ts (PositionUpdatedEvent e) = ts e"
| "msg_ts (BalanceChangedEvent e) = ts e"
| "msg_ts (KernelStartedEvent t _) = t"
| "msg_ts (SessionStartedEvent t _) = t"
| "msg_ts (SessionStoppedEvent t _ _) = t"
| "msg_ts (RunnerStartedEvent t) = t"
| "msg_ts (RunnerStoppedEvent t _) = t"
| "msg_ts (HeartbeatEvent t _ _) = t"
| "msg_ts (FeedDisconnectedEvent t _) = t"

text \<open>
  \<open>events/base.py\<close>: a published event.  \<open>event_id\<close> is the \<open>uuid4\<close> drawn when the event is
  made; the other two ids are \<open>None\<close> until the bus stamps them.
\<close>

record event =
  payload :: msg
  event_id :: string
  correlation_id :: "string option"
  causation_id :: "string option"

lemma mro_distinct: "distinct (mro m)"
  by (cases m) (simp_all add: mro_def)

lemma msg_type_not_base [simp]: "msg_type m \<noteq> TEvent" "msg_type m \<noteq> TObject"
  by (cases m; simp)+

section \<open>Runs\<close>

text \<open>Running steps one after the other, collecting what they publish.\<close>

primrec run_steps :: "('s \<Rightarrow> 's \<times> msg list) list \<Rightarrow> 's \<Rightarrow> 's \<times> msg list" where
  "run_steps [] s = (s, [])"
| "run_steps (f # fs) s =
     (case f s of (s', ms) \<Rightarrow> (case run_steps fs s' of (s'', ms') \<Rightarrow> (s'', ms @ ms')))"

lemma run_steps_Cons_fst: "fst (run_steps (f # fs) s) = fst (run_steps fs (fst (f s)))"
  by (simp split: prod.splits)

lemma run_steps_append:
  "run_steps (fs @ gs) s =
     (case run_steps fs s of (s', ms) \<Rightarrow> (case run_steps gs s' of (s'', ms') \<Rightarrow> (s'', ms @ ms')))"
  by (induction fs arbitrary: s) (auto split: prod.splits)

end
