(* ===== verification/Timeframes.thy ===== *)
theory Timeframes
  imports Prelude
begin

text \<open>
  Time conventions: interval tables (\<open>ntrade/domain/timeframes.py\<close>), session hours
  (\<open>ntrade/domain/market_hours.py\<close>), the naive-IST / naive-UTC conversions
  (\<open>ntrade/domain/types.py\<close>), the session state of an instrument
  (\<open>ntrade/domain/session.py\<close>) and the replay clock (\<open>ntrade/kernel/clock.py\<close>).
\<close>

section \<open>Intervals\<close>

definition TIMEFRAME_SECONDS :: "(string, int) dict" where
  "TIMEFRAME_SECONDS =
     [(''1s'', 1), (''5s'', 5), (''1m'', 60), (''5m'', 300), (''15m'', 900), (''1h'', 3600),
      (''1d'', 86400), (''1D'', 86400)]"

definition WIRE_INTERVALS :: "string list" where
  "WIRE_INTERVALS = [''1m'', ''5m'', ''15m'', ''1h'', ''1D'']"

definition BAR_MINUTES :: "(string, int) dict" where
  "BAR_MINUTES = [(''1m'', 1), (''5m'', 5), (''15m'', 15), (''1h'', 60), (''1D'', 375)]"

definition SPAN_MINUTES :: "(string, int) dict" where
  "SPAN_MINUTES = [(''1m'', 1), (''5m'', 5), (''15m'', 15), (''1h'', 60), (''1D'', 1440)]"

definition normalize_interval :: "string \<Rightarrow> py_error + string" where
  "normalize_interval s =
     (if lower s = ''1d'' then Inr ''1D''
      else if s \<in> set (keys BAR_MINUTES) \<and> s \<noteq> ''1D'' then Inr s
      else if lower s \<in> set [''1m'', ''5m'', ''15m'', ''1h''] then Inr (lower s)
      else Inl (ValueError (''Unsupported interval '' @ s)))"

definition timeframe_seconds :: "string \<Rightarrow> py_error + int" where
  "timeframe_seconds s =
     (case map_of TIMEFRAME_SECONDS s of
        Some n \<Rightarrow> Inr n
      | None \<Rightarrow> (case map_of TIMEFRAME_SECONDS (lower s) of
                   Some n \<Rightarrow> Inr n
                 | None \<Rightarrow> Inl (ValueError (''Unsupported timeframe '' @ s))))"

text \<open>A dictionary read \<open>d[key]\<close>.\<close>

definition getitem :: "(string, 'v) dict \<Rightarrow> string \<Rightarrow> py_error + 'v" where
  "getitem d k = (case map_of d k of None \<Rightarrow> Inl (KeyErr k) | Some v \<Rightarrow> Inr v)"

definition interval_bar_minutes :: "string \<Rightarrow> py_error + int" where
  "interval_bar_minutes s =
     (case normalize_interval s of Inl e \<Rightarrow> Inl e | Inr key \<Rightarrow> getitem BAR_MINUTES key)"

definition interval_span_minutes :: "string \<Rightarrow> py_error + int" where
  "interval_span_minutes s =
     (case normalize_interval s of Inl e \<Rightarrow> Inl e | Inr key \<Rightarrow> getitem SPAN_MINUTES key)"

definition interval_span_seconds :: "string \<Rightarrow> py_error + int" where
  "interval_span_seconds s =
     (case interval_span_minutes s of Inl e \<Rightarrow> Inl e | Inr m \<Rightarrow> Inr (m * 60))"

section \<open>Session hours\<close>

abbreviation hm :: "int \<Rightarrow> int \<Rightarrow> int" where
  "hm h m \<equiv> (h * 3600 + m * 60) * US"

definition session_open :: "string \<Rightarrow> int" where
  "session_open exchange = (if upper exchange = ''MCX'' then hm 9 0 else hm 9 15)"

definition session_close :: "string \<Rightarrow> int" where
  "session_close exchange = (if upper exchange = ''MCX'' then hm 23 30 else hm 15 30)"

text \<open>\<open>is_market_open(exchange, now)\<close> with the time given.\<close>

definition is_market_open :: "string \<Rightarrow> datetime \<Rightarrow> bool" where
  "is_market_open exchange now =
     (let now = (case dt_tz now of None \<Rightarrow> now\<lparr>dt_tz := Some IST\<rparr> | Some _ \<Rightarrow> astimezone IST now)
      in if weekday now \<ge> 5 then False
         else (let t = time_of_day now in session_open exchange \<le> t \<and> t < session_close exchange))"

section \<open>Naive timestamps\<close>

definition is_naive :: "datetime \<Rightarrow> bool" where
  "is_naive t = (dt_tz t = None)"

definition assert_naive_ist :: "datetime \<Rightarrow> py_error + unit" where
  "assert_naive_ist t =
     (if dt_tz t \<noteq> None then Inl (ValueError ''expected naive IST datetime'') else Inr ())"

definition assert_naive_utc :: "datetime \<Rightarrow> py_error + unit" where
  "assert_naive_utc t =
     (if dt_tz t \<noteq> None then Inl (ValueError ''expected naive UTC datetime'') else Inr ())"

definition to_naive_ist :: "datetime \<Rightarrow> datetime" where
  "to_naive_ist t = (if dt_tz t \<noteq> None then t\<lparr>dt_tz := None\<rparr> else t)"

definition to_utc :: "datetime \<Rightarrow> datetime" where
  "to_utc t = (astimezone 0 (t\<lparr>dt_tz := Some IST\<rparr>))\<lparr>dt_tz := None\<rparr>"

definition to_ist :: "datetime \<Rightarrow> datetime" where
  "to_ist t =
     (if dt_tz t \<noteq> None then (astimezone IST t)\<lparr>dt_tz := None\<rparr>
      else (astimezone IST (t\<lparr>dt_tz := Some 0\<rparr>))\<lparr>dt_tz := None\<rparr>)"

section \<open>Session state\<close>

datatype market_state =
  PRE_OPEN | AUCTION | OPEN | HALTED | CIRCUIT | CLOSED | DISCONNECTED | LIVE | REPLAY

record session_state =
  ss_exchange :: string
  ss_state :: market_state
  ss_last_change :: "datetime option"

definition session_enter :: "market_state \<Rightarrow> datetime \<Rightarrow> session_state \<Rightarrow> session_state" where
  "session_enter st now s = s\<lparr>ss_state := st, ss_last_change := Some now\<rparr>"

definition session_is_open :: "session_state \<Rightarrow> bool" where
  "session_is_open s = (ss_state s \<in> {OPEN, LIVE, AUCTION})"

section \<open>The replay clock\<close>

record replay_clock =
  rc_now :: datetime

definition replay_clock_init :: "datetime option \<Rightarrow> replay_clock" where
  "replay_clock_init start =
     \<lparr>rc_now = (case start of None \<Rightarrow> \<lparr>dt_wall = 0, dt_tz = Some IST\<rparr> | Some t \<Rightarrow> t)\<rparr>"

definition clock_set :: "datetime \<Rightarrow> replay_clock \<Rightarrow> replay_clock" where
  "clock_set t c = c\<lparr>rc_now := t\<rparr>"

definition clock_advance :: "int \<Rightarrow> replay_clock \<Rightarrow> replay_clock" where
  "clock_advance us c = c\<lparr>rc_now := (rc_now c)\<lparr>dt_wall := dt_wall (rc_now c) + us\<rparr>\<rparr>"

section \<open>Lemmas\<close>

lemmas interval_tables = TIMEFRAME_SECONDS_def WIRE_INTERVALS_def BAR_MINUTES_def SPAN_MINUTES_def

lemma normalize_interval_wire:
  "normalize_interval s = Inr k \<Longrightarrow> k \<in> set WIRE_INTERVALS"
  by (auto simp: normalize_interval_def interval_tables split: if_splits)

lemma lower_wire [simp]:
  "lower ''1m'' = ''1m''" "lower ''5m'' = ''5m''" "lower ''15m'' = ''15m''" "lower ''1h'' = ''1h''"
  "lower ''1D'' = ''1d''" "lower ''1d'' = ''1d''"
  by code_simp+

text \<open>interval normalisation is total on its range and idempotent, and the two minute tables
  cover exactly it: a normalised interval is one of the five wire intervals, normalises to
  itself, has a bar width and a span, and the span in seconds is sixty times the span in
  minutes and at least the bar width.\<close>

theorem normalize_interval_canonical:
  assumes "normalize_interval s = Inr k"
  shows "k \<in> set WIRE_INTERVALS \<and> normalize_interval k = Inr k \<and>
    (\<exists>b sp. interval_bar_minutes s = Inr b \<and> interval_span_minutes s = Inr sp \<and>
       interval_span_seconds s = Inr (60 * sp) \<and> 0 < b \<and> b \<le> sp)"
proof -
  have "k \<in> set WIRE_INTERVALS" using assms by (rule normalize_interval_wire)
  then show ?thesis
    using assms
    by (auto simp: interval_bar_minutes_def interval_span_minutes_def interval_span_seconds_def
        getitem_def normalize_interval_def [of k] interval_tables)
qed

theorem normalize_interval_canonical_witness:
  "normalize_interval ''1D'' = Inr ''1D'' \<and> interval_bar_minutes ''1D'' = Inr 375"
proof -
  have h: "normalize_interval ''1D'' = Inr ''1D''"
    by (simp add: normalize_interval_def)
  show ?thesis
    using h normalize_interval_canonical [OF h]
    by (simp add: interval_bar_minutes_def getitem_def interval_tables)
qed

text \<open>the naive-timestamp conversions are inverse to each other.  A naive IST wall time
  sent to naive UTC and back is unchanged, and so is a naive UTC one sent to IST and back.\<close>

theorem naive_conversion_roundtrip:
  assumes "is_naive t"
  shows "to_ist (to_utc t) = t \<and> to_utc (to_ist t) = t"
  using assms
  by (cases t) (simp add: is_naive_def to_ist_def to_utc_def astimezone_def dt_abs_def)

theorem naive_conversion_roundtrip_witness:
  "is_naive (naive 1000) \<and> to_ist (to_utc (naive 1000)) = naive 1000"
  using naive_conversion_roundtrip [of "naive 1000"] by (simp add: is_naive_def naive_def)

lemma astimezone_astimezone:
  "dt_tz t \<noteq> None \<Longrightarrow> astimezone a (astimezone b t) = astimezone a t"
  by (auto simp: astimezone_def dt_abs_def)

text \<open>whether a market is open does not depend on the zone the instant is written in, and a
  naive time is read as IST: an aware time re-expressed at any other offset, or as the naive IST
  wall clock of the same instant, gives the same answer.\<close>

theorem market_open_zone_independent:
  assumes "dt_tz t = Some z"
  shows "is_market_open x (astimezone off t) = is_market_open x t \<and>
    is_market_open x ((astimezone IST t)\<lparr>dt_tz := None\<rparr>) = is_market_open x t"
  using assms
  by (simp add: is_market_open_def Let_def astimezone_astimezone astimezone_def dt_abs_def)

theorem market_open_zone_independent_witness:
  "dt_tz (aware 36000 IST) = Some IST \<and>
   is_market_open ''NSE'' (astimezone 0 (aware 36000 IST)) = is_market_open ''NSE'' (aware 36000 IST)"
  using market_open_zone_independent [of "aware 36000 IST" IST "''NSE''" 0]
  by (simp add: aware_def)

end
