(* ===== verification/Market.thy ===== *)
theory Market
  imports Events Timeframes
begin

text \<open>
  Market value objects and the instrument read model: \<open>ntrade/domain/market/quote.py\<close>,
  \<open>depth.py\<close>, \<open>stream.py\<close>, the parts of \<open>ntrade/domain/instruments/base.py\<close> the engines read
  and write, and \<open>ntrade/engines/market_engine.py\<close>, which projects market events into
  instruments.
\<close>

section \<open>Quotes and depth\<close>

record quote =
  q_ltp :: real
  q_bid :: real
  q_ask :: real
  q_open :: real
  q_high :: real
  q_low :: real
  q_prev_close :: real
  q_volume :: int
  q_oi :: int
  q_circuit_low :: real
  q_circuit_high :: real
  q_timestamp :: "datetime option"

definition quote_empty :: quote where
  "quote_empty =
     \<lparr>q_ltp = 0, q_bid = 0, q_ask = 0, q_open = 0, q_high = 0, q_low = 0, q_prev_close = 0,
      q_volume = 0, q_oi = 0, q_circuit_low = 0, q_circuit_high = 0, q_timestamp = None\<rparr>"

definition quote_spread :: "quote \<Rightarrow> real" where
  "quote_spread q = (if q_bid q \<noteq> 0 \<and> q_ask q \<noteq> 0 then py_round 4 (q_ask q - q_bid q) else 0)"

definition mid_price :: "quote \<Rightarrow> real" where
  "mid_price q =
     (if q_bid q \<noteq> 0 \<and> q_ask q \<noteq> 0 then py_round 4 ((q_bid q + q_ask q) / 2) else q_ltp q)"

definition change :: "quote \<Rightarrow> real" where
  "change q = (if q_prev_close q \<noteq> 0 then py_round 4 (q_ltp q - q_prev_close q) else 0)"

definition change_pct :: "quote \<Rightarrow> real" where
  "change_pct q =
     (if q_prev_close q \<noteq> 0
      then py_round 4 ((q_ltp q - q_prev_close q) / q_prev_close q * 100) else 0)"

text \<open>\<open>is_stale(max_age, now=now)\<close>: naive times are IST wall times.\<close>

definition is_stale :: "real \<Rightarrow> datetime \<Rightarrow> quote \<Rightarrow> bool" where
  "is_stale max_age now q =
     (case q_timestamp q of
        None \<Rightarrow> True
      | Some t \<Rightarrow> of_int (dt_abs IST now - dt_abs IST t) / of_int US > max_age)"

record depth_level =
  dl_price :: real
  dl_quantity :: int
  dl_orders :: int

record market_depth =
  md_symbol :: string
  md_bids :: "depth_level list"
  md_asks :: "depth_level list"
  md_timestamp :: "datetime option"

definition depth_empty :: "string \<Rightarrow> market_depth" where
  "depth_empty sy = \<lparr>md_symbol = sy, md_bids = [], md_asks = [], md_timestamp = None\<rparr>"

definition best_bid :: "market_depth \<Rightarrow> depth_level option" where
  "best_bid d = (case md_bids d of [] \<Rightarrow> None | l # _ \<Rightarrow> Some l)"

definition best_ask :: "market_depth \<Rightarrow> depth_level option" where
  "best_ask d = (case md_asks d of [] \<Rightarrow> None | l # _ \<Rightarrow> Some l)"

definition depth_spread :: "market_depth \<Rightarrow> real" where
  "depth_spread d =
     (case (best_bid d, best_ask d) of
        (Some bb, Some ba) \<Rightarrow> py_round 4 (dl_price ba - dl_price bb)
      | _ \<Rightarrow> 0)"

definition bid_ask_imbalance :: "market_depth \<Rightarrow> real" where
  "bid_ask_imbalance d =
     (let bid_qty = (\<Sum>l\<leftarrow>md_bids d. dl_quantity l); ask_qty = (\<Sum>l\<leftarrow>md_asks d. dl_quantity l)
      in if bid_qty + ask_qty = 0 then 0
         else py_round 4 (of_int (bid_qty - ask_qty) / of_int (bid_qty + ask_qty)))"

section \<open>Instruments\<close>

record tick =
  t_symbol :: string
  t_price :: real
  t_quantity :: int
  t_side :: string
  t_timestamp :: datetime
  t_kind :: string

datatype stream_state = NOT_SUBSCRIBED | SUBSCRIBED | STREAMING

record live_stream =
  st_state :: stream_state
  st_last_tick :: "tick option"
  st_ticks :: "tick list"

text \<open>
  The state of an instrument the engines use.  \<open>i_kind\<close> is the class's \<open>KIND\<close>, \<open>i_expiry\<close> the
  expiry date (a day number) of a future, and \<open>i_broker\<close> says whether a broker adapter is wired.
\<close>

record instrument =
  i_symbol :: string
  i_exchange :: string
  i_kind :: string
  i_tick_size :: "real option"
  i_lot_size :: "int option"
  i_freeze_qty :: "int option"
  i_quote :: quote
  i_depth :: market_depth
  i_stream :: live_stream
  i_indicators :: metadata
  i_hydrated :: bool
  i_last_refresh :: "datetime option"
  i_expiry :: "int option"
  i_broker :: bool

definition new_instrument :: "string \<Rightarrow> string \<Rightarrow> string \<Rightarrow> bool \<Rightarrow> instrument" where
  "new_instrument kind sy exchange broker =
     \<lparr>i_symbol = sy, i_exchange = exchange, i_kind = kind, i_tick_size = None, i_lot_size = None,
      i_freeze_qty = None, i_quote = quote_empty, i_depth = depth_empty sy,
      i_stream = \<lparr>st_state = NOT_SUBSCRIBED, st_last_tick = None, st_ticks = []\<rparr>,
      i_indicators = [], i_hydrated = False, i_last_refresh = None, i_expiry = None,
      i_broker = broker\<rparr>"

definition apply_quote :: "quote \<Rightarrow> instrument \<Rightarrow> instrument" where
  "apply_quote q i = i\<lparr>i_quote := q\<rparr>"

definition apply_depth :: "market_depth \<Rightarrow> instrument \<Rightarrow> instrument" where
  "apply_depth d i = i\<lparr>i_depth := d\<rparr>"

text \<open>\<open>get_instrument_metadata\<close> of the broker: the optional fields \<open>hydrate\<close> reads.\<close>

record instrument_metadata =
  im_tick_size :: "real option"
  im_lot_size :: "int option"
  im_freeze_qty :: "int option"
  im_circuit_low :: "real option"
  im_circuit_high :: "real option"

definition hydrate :: "instrument_metadata \<Rightarrow> instrument \<Rightarrow> instrument" where
  "hydrate m i =
     (if i_hydrated i then i
      else if \<not> i_broker i then i\<lparr>i_hydrated := True\<rparr>
      else (let q = i_quote i;
                q = (case im_circuit_low m of None \<Rightarrow> q | Some v \<Rightarrow> q\<lparr>q_circuit_low := v\<rparr>);
                q = (case im_circuit_high m of None \<Rightarrow> q | Some v \<Rightarrow> q\<lparr>q_circuit_high := v\<rparr>)
            in i\<lparr>i_tick_size := (case im_tick_size m of None \<Rightarrow> i_tick_size i | Some v \<Rightarrow> Some v),
                 i_lot_size := (case im_lot_size m of None \<Rightarrow> i_lot_size i | Some v \<Rightarrow> Some v),
                 i_freeze_qty := (case im_freeze_qty m of None \<Rightarrow> i_freeze_qty i | Some v \<Rightarrow> Some v),
                 i_quote := q, i_hydrated := True\<rparr>))"

text \<open>\<open>refresh(now=now)\<close> with the broker's two answers (\<open>Inl\<close>: the call raised).\<close>

definition refresh ::
  "instrument_metadata \<Rightarrow> py_error + quote \<Rightarrow> py_error + market_depth option \<Rightarrow> datetime \<Rightarrow>
   instrument \<Rightarrow> instrument" where
  "refresh m quote_ans depth_ans now i =
     (if \<not> i_broker i then i
      else (let i = (if i_hydrated i then i else hydrate m i);
                i = (case quote_ans of Inl _ \<Rightarrow> i
                     | Inr q \<Rightarrow> i\<lparr>i_quote := q, i_last_refresh := Some now\<rparr>)
            in (case depth_ans of Inr (Some d) \<Rightarrow> i\<lparr>i_depth := d\<rparr> | _ \<Rightarrow> i)))"

text \<open>
  \<open>LiveStream.ingest_tick\<close>.  The channel callbacks it then runs are user code whose errors are
  swallowed; they are outside the model.
\<close>

definition ingest_tick :: "tick \<Rightarrow> instrument \<Rightarrow> instrument" where
  "ingest_tick tk i =
     (let i = i\<lparr>i_stream := (i_stream i)\<lparr>st_last_tick := Some tk,
                  st_ticks := last_n 10000 (st_ticks (i_stream i) @ [tk])\<rparr>\<rparr>
      in if t_kind tk = ''quote''
         then i\<lparr>i_quote := (i_quote i)\<lparr>q_ltp := t_price tk, q_bid := t_price tk, q_ask := t_price tk,
                               q_timestamp := Some (t_timestamp tk)\<rparr>\<rparr>
         else if t_kind tk = ''trade''
         then i\<lparr>i_quote := (i_quote i)\<lparr>q_ltp := t_price tk, q_timestamp := Some (t_timestamp tk)\<rparr>\<rparr>
         else i)"

definition tick_count :: "instrument \<Rightarrow> nat" where
  "tick_count i = length (st_ticks (i_stream i))"

definition stream_subscribe :: "live_stream \<Rightarrow> live_stream" where
  "stream_subscribe s = (if st_state s = NOT_SUBSCRIBED then s\<lparr>st_state := SUBSCRIBED\<rparr> else s)"

definition stream_unsubscribe :: "live_stream \<Rightarrow> live_stream" where
  "stream_unsubscribe s = (if st_state s \<noteq> NOT_SUBSCRIBED then s\<lparr>st_state := NOT_SUBSCRIBED\<rparr> else s)"

definition notify_disconnect :: "live_stream \<Rightarrow> live_stream" where
  "notify_disconnect s = s\<lparr>st_state := NOT_SUBSCRIBED\<rparr>"

definition notify_reconnect :: "live_stream \<Rightarrow> live_stream" where
  "notify_reconnect s = s\<lparr>st_state := SUBSCRIBED\<rparr>"

section \<open>The market engine\<close>

type_synonym instruments = "(string, instrument) dict"

definition market_on_tick :: "tick_event \<Rightarrow> instruments \<Rightarrow> instruments \<times> msg list" where
  "market_on_tick e is =
     (case map_of is (tk_symbol e) of
        None \<Rightarrow> (is, [])
      | Some i \<Rightarrow>
          (let i' = ingest_tick \<lparr>t_symbol = tk_symbol e, t_price = tk_price e,
                      t_quantity = tk_quantity e, t_side = tk_side e, t_timestamp = ts e,
                      t_kind = tk_kind e\<rparr> i
           in (AList.update (tk_symbol e) i' is,
               [QuoteUpdatedEvent \<lparr>ts = ts e, qu_symbol = tk_symbol e, qu_exchange = tk_exchange e,
                  qu_ltp = tk_price e, qu_bid = q_bid (i_quote i'), qu_ask = q_ask (i_quote i')\<rparr>])))"

definition market_on_quote :: "quote_event \<Rightarrow> instruments \<Rightarrow> instruments \<times> msg list" where
  "market_on_quote e is =
     (case map_of is (qe_symbol e) of
        None \<Rightarrow> (is, [])
      | Some i \<Rightarrow>
          (let q = \<lparr>q_ltp = qe_ltp e, q_bid = qe_bid e, q_ask = qe_ask e, q_open = qe_open e,
                     q_high = qe_high e, q_low = qe_low e, q_prev_close = qe_prev_close e,
                     q_volume = qe_volume e, q_oi = qe_oi e, q_circuit_low = 0, q_circuit_high = 0,
                     q_timestamp = Some (ts e)\<rparr>
           in (AList.update (qe_symbol e) (apply_quote q i) is,
               [QuoteUpdatedEvent \<lparr>ts = ts e, qu_symbol = qe_symbol e, qu_exchange = qe_exchange e,
                  qu_ltp = qe_ltp e, qu_bid = qe_bid e, qu_ask = qe_ask e\<rparr>])))"

definition wire_level :: "real \<times> int \<times> int \<Rightarrow> depth_level" where
  "wire_level r = (case r of (p, q, n) \<Rightarrow> \<lparr>dl_price = p, dl_quantity = q, dl_orders = n\<rparr>)"

definition market_on_depth :: "depth_event \<Rightarrow> instruments \<Rightarrow> instruments" where
  "market_on_depth e is =
     (case map_of is (de_symbol e) of
        None \<Rightarrow> is
      | Some i \<Rightarrow>
          AList.update (de_symbol e)
            (apply_depth \<lparr>md_symbol = de_symbol e, md_bids = map wire_level (de_bids e),
               md_asks = map wire_level (de_asks e), md_timestamp = Some (ts e)\<rparr> i) is)"

section \<open>Properties\<close>

lemma ratio_bounds:
  fixes a b :: int
  assumes "0 \<le> a" "0 \<le> b" "a + b \<noteq> 0"
  shows "- 1 \<le> (of_int (a - b) / of_int (a + b) :: real) \<and> (of_int (a - b) / of_int (a + b) :: real) \<le> 1"
proof -
  have "0 < a + b" using assms by linarith
  then have "(0::real) < of_int (a + b)" by (simp only: of_int_0_less_iff)
  moreover have "- (of_int (a + b) :: real) \<le> of_int (a - b)" "(of_int (a - b) :: real) \<le> of_int (a + b)"
    using assms by simp_all
  ultimately show ?thesis by (simp add: le_divide_eq divide_le_eq)
qed

lemma py_round_in_unit:
  assumes "- 1 \<le> x" "x \<le> 1"
  shows "- 1 \<le> py_round n x \<and> py_round n x \<le> 1"
  using py_round_mono [OF assms(1), of n] py_round_mono [OF assms(2), of n]
    py_round_of_int [of n 1] py_round_of_int [of n "- 1"] by simp

text \<open>the book imbalance of a depth snapshot with non-negative quantities always lies
  between -1 and 1, is exactly 1 when only bids are quoted, exactly -1 when only asks are, and 0
  for an empty book.\<close>

theorem imbalance_bounds:
  assumes "list_all (\<lambda>l. 0 \<le> dl_quantity l) (md_bids d)"
    and "list_all (\<lambda>l. 0 \<le> dl_quantity l) (md_asks d)"
  shows "- 1 \<le> bid_ask_imbalance d \<and> bid_ask_imbalance d \<le> 1 \<and>
    (md_asks d = [] \<and> 0 < (\<Sum>l\<leftarrow>md_bids d. dl_quantity l) \<longrightarrow> bid_ask_imbalance d = 1) \<and>
    (md_bids d = [] \<and> 0 < (\<Sum>l\<leftarrow>md_asks d. dl_quantity l) \<longrightarrow> bid_ask_imbalance d = - 1) \<and>
    (md_bids d = [] \<and> md_asks d = [] \<longrightarrow> bid_ask_imbalance d = 0)"
proof -
  let ?a = "\<Sum>l\<leftarrow>md_bids d. dl_quantity l" and ?b = "\<Sum>l\<leftarrow>md_asks d. dl_quantity l"
  have "0 \<le> ?a" "0 \<le> ?b"
    using assms by (auto intro!: sum_list_nonneg simp: list_all_iff)
  then have "- 1 \<le> bid_ask_imbalance d \<and> bid_ask_imbalance d \<le> 1"
    using py_round_in_unit ratio_bounds unfolding bid_ask_imbalance_def Let_def by simp
  moreover have "py_round 4 1 = 1" "py_round 4 (- 1) = - 1"
    using py_round_of_int [of 4 1] py_round_of_int [of 4 "- 1"] by simp_all
  ultimately show ?thesis
    by (auto simp: bid_ask_imbalance_def Let_def divide_minus_left)
qed

theorem imbalance_bounds_witness:
  "bid_ask_imbalance \<lparr>md_symbol = '''', md_bids = [\<lparr>dl_price = 99, dl_quantity = 30, dl_orders = 1\<rparr>],
     md_asks = [], md_timestamp = None\<rparr> = 1"
  using imbalance_bounds [of "\<lparr>md_symbol = '''',
     md_bids = [\<lparr>dl_price = 99, dl_quantity = 30, dl_orders = 1\<rparr>],
     md_asks = [], md_timestamp = None\<rparr>"]
  by simp

text \<open>projection of a tick.  For a registered symbol the engine publishes exactly one quote
  update carrying the tick's price, afterwards the instrument's last price is the tick's price
  for a trade or quote tick and unchanged for a depth tick, the tick count grows by one up to the
  buffer bound of 10000, and no other instrument changes; for an unknown symbol nothing happens
  and nothing is published.\<close>

theorem market_tick_projection:
  assumes "(is', ms) = market_on_tick e is"
  shows "case map_of is (tk_symbol e) of
      None \<Rightarrow> is' = is \<and> ms = []
    | Some i \<Rightarrow> (\<exists>i' qu. map_of is' (tk_symbol e) = Some i' \<and> ms = [QuoteUpdatedEvent qu] \<and>
          qu_ltp qu = tk_price e \<and> qu_bid qu = q_bid (i_quote i') \<and>
          q_ltp (i_quote i') = (if tk_kind e \<in> {''trade'', ''quote''} then tk_price e else q_ltp (i_quote i)) \<and>
          tick_count i' = min 10000 (tick_count i + 1)) \<and>
        (\<forall>s. s \<noteq> tk_symbol e \<longrightarrow> map_of is' s = map_of is s)"
  using assms
  by (auto simp: market_on_tick_def ingest_tick_def tick_count_def Let_def split: option.splits)

theorem market_tick_projection_witness:
  "map_of (fst (market_on_tick \<lparr>ts = naive 0, tk_symbol = ''TCS'', tk_exchange = ''NSE'',
      tk_price = 50, tk_quantity = 1, tk_side = '''', tk_kind = ''trade''\<rparr>
    [(''TCS'', new_instrument ''equity'' ''TCS'' ''NSE'' False)])) ''TCS'' \<noteq> None"
  using market_tick_projection [of _ _ "\<lparr>ts = naive 0, tk_symbol = ''TCS'', tk_exchange = ''NSE'',
      tk_price = 50, tk_quantity = 1, tk_side = '''', tk_kind = ''trade''\<rparr>"
    "[(''TCS'', new_instrument ''equity'' ''TCS'' ''NSE'' False)]", OF prod.collapse]
  by auto

text \<open>a failed refresh stays visible.  When the broker raises on the quote, \<open>refresh\<close> keeps
  the previous last price and does not move the refresh timestamp, so a dead quote can never be
  reported as freshly pulled; when it answers, the quote is the broker's and the timestamp is
  the given time.\<close>

theorem refresh_failure_keeps_quote:
  assumes "i_broker i"
  shows "q_ltp (i_quote (refresh m (Inl err) da now i)) = q_ltp (i_quote i) \<and>
    i_last_refresh (refresh m (Inl err) da now i) = i_last_refresh i \<and>
    i_quote (refresh m (Inr q) da now i) = q \<and>
    i_last_refresh (refresh m (Inr q) da now i) = Some now"
  using assms
  by (auto simp: refresh_def hydrate_def Let_def split: option.splits sum.splits)

theorem refresh_failure_keeps_quote_witness:
  "i_broker (new_instrument ''equity'' ''TCS'' ''NSE'' True) \<and>
   i_last_refresh (refresh \<lparr>im_tick_size = None, im_lot_size = None, im_freeze_qty = None,
     im_circuit_low = None, im_circuit_high = None\<rparr> (Inl RateLimitedErr) (Inr None) (naive 5)
     (new_instrument ''equity'' ''TCS'' ''NSE'' True)) = None"
  using refresh_failure_keeps_quote [of "new_instrument ''equity'' ''TCS'' ''NSE'' True"]
  by (simp add: new_instrument_def)

end
