(* ===== verification/Orders.thy ===== *)
theory Orders
  imports Market
begin

text \<open>
  \<open>ntrade/domain/orders/order.py\<close> (the order model and the order-entry facade),
  \<open>ntrade/domain/orders/book.py\<close> (order and trade books) and
  \<open>ntrade/execution/order_types.py\<close> (the routing table per order type).
\<close>

section \<open>Enumerations\<close>

datatype order_side = Side_BUY | Side_SELL

datatype order_type = LIMIT | OT_MARKET | STOP_LIMIT | STOP_MARKET | COVER | BRACKET

datatype trade_type = MIS | CNC | MARGIN | MTF

datatype order_status = PENDING | COMPLETED | REJECTED | CANCELLED | PARTIALLY_FILLED

fun side_value :: "order_side \<Rightarrow> string" where
  "side_value Side_BUY = ''BUY''"
| "side_value Side_SELL = ''SELL''"

fun order_type_value :: "order_type \<Rightarrow> string" where
  "order_type_value LIMIT = ''LIMIT''"
| "order_type_value OT_MARKET = ''MARKET''"
| "order_type_value STOP_LIMIT = ''STOP_LIMIT''"
| "order_type_value STOP_MARKET = ''STOP_MARKET''"
| "order_type_value COVER = ''COVER''"
| "order_type_value BRACKET = ''BRACKET''"

fun trade_type_value :: "trade_type \<Rightarrow> string" where
  "trade_type_value MIS = ''MIS''"
| "trade_type_value CNC = ''CNC''"
| "trade_type_value MARGIN = ''MARGIN''"
| "trade_type_value MTF = ''MTF''"

fun status_value :: "order_status \<Rightarrow> string" where
  "status_value PENDING = ''PENDING''"
| "status_value COMPLETED = ''COMPLETED''"
| "status_value REJECTED = ''REJECTED''"
| "status_value CANCELLED = ''CANCELLED''"
| "status_value PARTIALLY_FILLED = ''PARTIALLY_FILLED''"

text \<open>Calling an enum class on a value: the member with that value, or \<open>ValueError\<close>.\<close>

definition parse_enum :: "string \<Rightarrow> ('a \<Rightarrow> string) \<Rightarrow> 'a list \<Rightarrow> string \<Rightarrow> py_error + 'a" where
  "parse_enum cls value members s =
     (case find (\<lambda>m. value m = s) members of
        None \<Rightarrow> Inl (ValueError (repr_str s @ '' is not a valid '' @ cls))
      | Some m \<Rightarrow> Inr m)"

definition parse_side :: "string \<Rightarrow> py_error + order_side" where
  "parse_side = parse_enum ''OrderSide'' side_value [Side_BUY, Side_SELL]"

definition parse_order_type :: "string \<Rightarrow> py_error + order_type" where
  "parse_order_type = parse_enum ''OrderType'' order_type_value
     [LIMIT, OT_MARKET, STOP_LIMIT, STOP_MARKET, COVER, BRACKET]"

definition parse_trade_type :: "string \<Rightarrow> py_error + trade_type" where
  "parse_trade_type = parse_enum ''TradeType'' trade_type_value [MIS, CNC, MARGIN, MTF]"

definition TERMINAL :: "string list" where
  "TERMINAL = [status_value COMPLETED, status_value REJECTED, status_value CANCELLED]"

definition is_terminal :: "string \<Rightarrow> bool" where
  "is_terminal status \<longleftrightarrow> status \<in> set TERMINAL"

section \<open>Orders\<close>

text \<open>\<open>od_symbol\<close> and \<open>od_kind\<close> are the symbol and class kind of the order's instrument.\<close>

record order =
  od_symbol :: string
  od_kind :: string
  od_side :: order_side
  od_quantity :: int
  od_order_type :: order_type
  od_trade_type :: trade_type
  od_price :: real
  od_reference_price :: real
  od_trigger_price :: real
  od_target_price :: real
  od_stop_loss_price :: real
  od_order_id :: "string option"
  od_status :: order_status
  od_filled_qty :: int
  od_avg_price :: real

definition is_open :: "order \<Rightarrow> bool" where
  "is_open ord = (od_status ord = PENDING \<or> od_status ord = PARTIALLY_FILLED)"

definition is_filled :: "order \<Rightarrow> bool" where
  "is_filled ord = (od_status ord = COMPLETED)"

definition default_trade_type :: "string \<Rightarrow> trade_type" where
  "default_trade_type kind = (if kind \<in> {''equity'', ''etf'', ''spot''} then CNC else MIS)"

text \<open>
  \<open>OrderFacade.place\<close> up to the broker call: the order it builds.  The enum classes extend
  \<open>str\<close>, so a member and its value take the same path.
\<close>

definition build_order ::
  "instrument \<Rightarrow> string \<Rightarrow> int \<Rightarrow> string \<Rightarrow> string option \<Rightarrow> real \<Rightarrow> real \<Rightarrow> real \<Rightarrow> real \<Rightarrow>
   py_error + order" where
  "build_order ins side quantity otype ttype price trigger target stop =
     (case parse_side (upper side) of Inl e \<Rightarrow> Inl e | Inr sd \<Rightarrow>
     (case parse_order_type (upper otype) of Inl e \<Rightarrow> Inl e | Inr ot \<Rightarrow>
     (case (case ttype of None \<Rightarrow> Inr (default_trade_type (i_kind ins))
            | Some t \<Rightarrow> parse_trade_type (upper t)) of Inl e \<Rightarrow> Inl e | Inr tt \<Rightarrow>
      Inr \<lparr>od_symbol = i_symbol ins, od_kind = i_kind ins, od_side = sd, od_quantity = quantity,
           od_order_type = ot, od_trade_type = tt, od_price = price, od_reference_price = 0,
           od_trigger_price = trigger, od_target_price = target, od_stop_loss_price = stop,
           od_order_id = None, od_status = PENDING, od_filled_qty = 0, od_avg_price = 0\<rparr>)))"

text \<open>\<open>place\<close>: \<open>broker\<close> is the adapter's \<open>place_order\<close> on its state, when one is wired.\<close>

definition place ::
  "(order \<Rightarrow> 'b \<Rightarrow> (py_error + 'o) \<times> 'b) option \<Rightarrow> instrument \<Rightarrow> string \<Rightarrow> int \<Rightarrow> string \<Rightarrow>
   string option \<Rightarrow> real \<Rightarrow> real \<Rightarrow> real \<Rightarrow> real \<Rightarrow> 'b \<Rightarrow> (py_error + 'o) \<times> 'b" where
  "place broker ins side quantity otype ttype price trigger target stop b =
     (case build_order ins side quantity otype ttype price trigger target stop of
        Inl e \<Rightarrow> (Inl e, b)
      | Inr ord \<Rightarrow>
          (case broker of
             None \<Rightarrow> (Inl (RuntimeError (i_symbol ins @ '' has no broker adapter to place orders'')), b)
           | Some place_order \<Rightarrow> place_order ord b))"

definition facade_buy where
  "facade_buy broker ins quantity price otype ttype trigger b =
     place broker ins BUY quantity otype ttype price trigger 0 0 b"

definition facade_sell where
  "facade_sell broker ins quantity price otype ttype trigger b =
     place broker ins SELL quantity otype ttype price trigger 0 0 b"

definition facade_limit where
  "facade_limit broker ins side quantity price ttype trigger b =
     place broker ins side quantity ''LIMIT'' ttype price trigger 0 0 b"

definition facade_market where
  "facade_market broker ins side quantity ttype b =
     place broker ins side quantity ''MARKET'' ttype 0 0 0 0 b"

definition facade_stop where
  "facade_stop broker ins side quantity price trigger ttype b =
     place broker ins side quantity ''STOP_LIMIT'' ttype price trigger 0 0 b"

definition facade_cover where
  "facade_cover broker ins side quantity price trigger ttype b =
     place broker ins side quantity ''COVER'' ttype price trigger 0 0 b"

definition facade_bracket where
  "facade_bracket broker ins side quantity price target stop ttype trigger b =
     place broker ins side quantity ''BRACKET'' ttype price trigger target stop b"

section \<open>The order-type table\<close>

record type_strategy =
  ty_route :: string
  ty_requires_price :: bool
  ty_requires_trigger :: bool
  ty_legs :: "nat option"

definition ROUTE_MAP :: "(order_type, string) dict" where
  "ROUTE_MAP = [(OT_MARKET, ''order_placement''), (LIMIT, ''order_placement''),
     (STOP_LIMIT, ''order_placement''), (STOP_MARKET, ''order_placement''),
     (COVER, ''order_placement''), (BRACKET, ''super_order'')]"

definition STRATEGIES :: "(order_type, type_strategy) dict" where
  "STRATEGIES =
    [(OT_MARKET, \<lparr>ty_route = ''order_placement'', ty_requires_price = False, ty_requires_trigger = False, ty_legs = None\<rparr>),
     (LIMIT, \<lparr>ty_route = ''order_placement'', ty_requires_price = True, ty_requires_trigger = False, ty_legs = None\<rparr>),
     (STOP_LIMIT, \<lparr>ty_route = ''order_placement'', ty_requires_price = True, ty_requires_trigger = True, ty_legs = None\<rparr>),
     (STOP_MARKET, \<lparr>ty_route = ''order_placement'', ty_requires_price = False, ty_requires_trigger = True, ty_legs = None\<rparr>),
     (COVER, \<lparr>ty_route = ''order_placement'', ty_requires_price = False, ty_requires_trigger = True, ty_legs = Some 2\<rparr>),
     (BRACKET, \<lparr>ty_route = ''super_order'', ty_requires_price = True, ty_requires_trigger = False, ty_legs = Some 3\<rparr>)]"

definition coerce_type :: "string \<Rightarrow> py_error + order_type" where
  "coerce_type s = parse_order_type (upper s)"

definition table_get :: "('k, 'v) dict \<Rightarrow> 'k \<Rightarrow> py_error + 'v" where
  "table_get d k =
     (case map_of d k of None \<Rightarrow> Inl (KeyErr ''unknown OrderType'') | Some v \<Rightarrow> Inr v)"

definition strategy_for :: "string \<Rightarrow> py_error + type_strategy" where
  "strategy_for s = (case coerce_type s of Inl e \<Rightarrow> Inl e | Inr ot \<Rightarrow> table_get STRATEGIES ot)"

definition route_for_broker :: "string \<Rightarrow> py_error + string" where
  "route_for_broker s = (case coerce_type s of Inl e \<Rightarrow> Inl e | Inr ot \<Rightarrow> table_get ROUTE_MAP ot)"

section \<open>Order and trade books\<close>

record order_book_entry =
  ob_symbol :: string
  ob_order_id :: string
  ob_side :: string
  ob_quantity :: int
  ob_price :: real
  ob_status :: string
  ob_exchange :: string

record trade_book_entry =
  tb_symbol :: string
  tb_trade_id :: string
  tb_order_id :: string
  tb_side :: string
  tb_quantity :: int
  tb_price :: real

definition orders_for_symbol :: "order_book_entry list \<Rightarrow> string \<Rightarrow> order_book_entry list" where
  "orders_for_symbol es sy = [e \<leftarrow> es. ob_symbol e = sy]"

definition trades_for_symbol :: "trade_book_entry list \<Rightarrow> string \<Rightarrow> trade_book_entry list" where
  "trades_for_symbol es sy = [e \<leftarrow> es. tb_symbol e = sy]"

section \<open>Properties\<close>

lemma upper_values [simp]:
  "upper (side_value sd) = side_value sd"
  "upper (order_type_value ot) = order_type_value ot"
  "upper (trade_type_value tt) = trade_type_value tt"
  subgoal by (cases sd) (simp_all add: upper_def upper_char_def)
  subgoal by (cases ot) (simp_all add: upper_def upper_char_def)
  subgoal by (cases tt) (simp_all add: upper_def upper_char_def)
  done

lemma parse_values [simp]:
  "parse_side (side_value sd) = Inr sd"
  "parse_order_type (order_type_value ot) = Inr ot"
  "parse_trade_type (trade_type_value tt) = Inr tt"
  subgoal by (cases sd) (simp_all add: parse_side_def parse_enum_def)
  subgoal by (cases ot) (simp_all add: parse_order_type_def parse_enum_def)
  subgoal by (cases tt) (simp_all add: parse_trade_type_def parse_enum_def)
  done

lemma parse_side_SomeD: "parse_side s = Inr sd \<Longrightarrow> s = side_value sd"
  by (auto simp: parse_side_def parse_enum_def split: option.splits if_splits)

lemma parse_order_type_SomeD: "parse_order_type s = Inr ot \<Longrightarrow> s = order_type_value ot"
  by (auto simp: parse_order_type_def parse_enum_def split: option.splits if_splits)

lemma parse_enum_cases:
  "(\<exists>m. parse_enum cls value members s = Inr m) \<or> (\<exists>m. parse_enum cls value members s = Inl (ValueError m))"
  by (auto simp: parse_enum_def split: option.splits)

lemmas parse_order_type_cases =
  parse_enum_cases [of "''OrderType''" order_type_value
    "[LIMIT, OT_MARKET, STOP_LIMIT, STOP_MARKET, COVER, BRACKET]", folded parse_order_type_def]

text \<open>the routing table is total and consistent.  Every order type, given by its value in any
  capitalisation that upper-cases to it, has a route and a strategy entry, the route of the
  strategy entry is the route of the routing map, and only bracket orders go to the super-order
  endpoint; a string that is no order type is a \<open>ValueError\<close> in both lookups.\<close>

theorem order_type_table_total:
  "(\<forall>s ot. upper s = order_type_value ot \<longrightarrow>
      (\<exists>st. strategy_for s = Inr st \<and> route_for_broker s = Inr (ty_route st) \<and>
        (ty_route st = ''super_order'') = (ot = BRACKET))) \<and>
   (\<forall>s. upper s \<notin> range order_type_value \<longrightarrow>
      (\<exists>m. strategy_for s = Inl (ValueError m) \<and> route_for_broker s = Inl (ValueError m)))"
proof (intro conjI allI impI)
  fix s ot assume "upper s = order_type_value ot"
  then have "coerce_type s = Inr ot" by (simp add: coerce_type_def)
  then show "\<exists>st. strategy_for s = Inr st \<and> route_for_broker s = Inr (ty_route st) \<and>
      (ty_route st = ''super_order'') = (ot = BRACKET)"
    unfolding strategy_for_def route_for_broker_def
    by (cases ot) (simp_all add: table_get_def STRATEGIES_def ROUTE_MAP_def)
next
  fix s assume a: "upper s \<notin> range order_type_value"
  then have "\<exists>m. parse_order_type (upper s) = Inl (ValueError m)"
    using parse_order_type_SomeD [of "upper s"] parse_order_type_cases [of "upper s"]
    by (metis rangeI)
  then show "\<exists>m. strategy_for s = Inl (ValueError m) \<and> route_for_broker s = Inl (ValueError m)"
    by (auto simp: strategy_for_def route_for_broker_def coerce_type_def)
qed

theorem order_type_table_total_witness:
  "\<exists>st. strategy_for ''bracket'' = Inr st \<and> ty_route st = ''super_order''"
proof -
  have "upper ''bracket'' = order_type_value BRACKET" by code_simp
  then show ?thesis using order_type_table_total by blast
qed

text \<open>what order entry builds.  \<open>place\<close> never reaches the broker with an order whose side or
  type is not the one asked for: when the order is built, its side and type are the upper-cased
  arguments, it is pending and unfilled, and an omitted product type is delivery for cash
  instruments and intraday otherwise; without a broker the call raises and the state is
  unchanged.\<close>

theorem place_builds_order:
  assumes "build_order ins side q otype ttype price trigger target stop = Inr ord"
  shows "side_value (od_side ord) = upper side \<and> order_type_value (od_order_type ord) = upper otype \<and>
    od_symbol ord = i_symbol ins \<and> od_quantity ord = q \<and> od_price ord = price \<and>
    is_open ord \<and> od_filled_qty ord = 0 \<and> od_order_id ord = None \<and>
    (ttype = None \<longrightarrow> od_trade_type ord = (if i_kind ins \<in> {''equity'', ''etf'', ''spot''} then CNC else MIS)) \<and>
    place (Some broker) ins side q otype ttype price trigger target stop b = broker ord b \<and>
    (\<exists>m. place (None :: (order \<Rightarrow> 'b \<Rightarrow> (py_error + 'o) \<times> 'b) option) ins side q otype ttype price trigger target stop b = (Inl (RuntimeError m), b))"
proof -
  have p: "place (Some broker) ins side q otype ttype price trigger target stop b = broker ord b"
    and n: "\<exists>m. place (None :: (order \<Rightarrow> 'b \<Rightarrow> (py_error + 'o) \<times> 'b) option) ins side q otype ttype price trigger target stop b = (Inl (RuntimeError m), b)"
    using assms by (simp_all add: place_def)
  show ?thesis
    using assms p n
    by (auto simp: build_order_def is_open_def default_trade_type_def
        dest!: parse_side_SomeD parse_order_type_SomeD split: sum.splits option.splits)
qed

theorem place_builds_order_witness:
  "\<exists>ord. build_order (new_instrument ''equity'' ''TCS'' ''NSE'' True) ''buy'' 10 ''limit'' None 100 0 0 0 = Inr ord
     \<and> is_open ord \<and> od_trade_type ord = CNC"
proof -
  have u: "upper ''buy'' = side_value Side_BUY" "upper ''limit'' = order_type_value LIMIT"
    by code_simp+
  obtain ord where ord: "build_order (new_instrument ''equity'' ''TCS'' ''NSE'' True) ''buy'' 10 ''limit'' None 100 0 0 0 = Inr ord"
    by (simp add: build_order_def u del: side_value.simps order_type_value.simps)
  show ?thesis
    using ord place_builds_order [OF ord, of "\<lambda>ord b. (Inr ord, b)" "()"] by (auto simp: new_instrument_def)
qed

end
