(* ===== verification/Costs.thy ===== *)
theory Costs
  imports Events
begin

text \<open>
  \<open>ntrade/execution/costs.py\<close>: slippage, commission, the Indian statutory schedule and futures
  carry.  The lemmas show that slippage is always adverse to the trader, that the statutory
  charge of a leg is the fixed linear form the schedule describes (non-negative, monotone,
  additive in the traded value), and that switching schedules keeps the configured rates.
\<close>

section \<open>Slippage and commission\<close>

datatype slippage_model = FixedSlippage real | PercentageSlippage real

fun slippage_apply :: "slippage_model \<Rightarrow> real \<Rightarrow> string \<Rightarrow> real" where
  "slippage_apply (FixedSlippage points) price side =
     (if side = BUY then price + points else price - points)"
| "slippage_apply (PercentageSlippage pct) price side =
     (if side = BUY then price * (1 + pct) else price * (1 - pct))"

datatype commission_model = FlatCommission real | PercentageCommission real real

fun commission_apply :: "commission_model \<Rightarrow> real \<Rightarrow> real" where
  "commission_apply (FlatCommission amount) notional = amount"
| "commission_apply (PercentageCommission pct minimum) notional = max (notional * pct) minimum"

section \<open>Statutory costs\<close>

type_synonym rates = "(string, real) dict"

definition STT :: rates where
  "STT = [(''equity_delivery_buy'', 0.00025), (''equity_delivery_sell'', 0.001),
          (''equity_intraday_sell'', 0.00025), (''fno_buy'', 0.000625), (''fno_sell'', 0.00125)]"

definition EXCHANGE_CHARGE :: rates where
  "EXCHANGE_CHARGE = [(''equity'', 0.0000297), (''futures'', 0.0000173), (''options'', 0.000503)]"

definition SEBI_FEE :: real where "SEBI_FEE = 0.000001"

definition GST_RATE :: real where "GST_RATE = 0.18"

definition STAMP_DUTY :: rates where
  "STAMP_DUTY = [(''equity_delivery_buy'', 0.00003), (''equity_intraday'', 0.00002), (''fno'', 0.0001)]"

record statutory =
  sc_product :: string
  sc_delivery :: bool
  sc_brokerage :: real
  sc_stt_rates :: rates
  sc_exchange_rates :: rates
  sc_sebi_fee :: real
  sc_gst_rate :: real
  sc_stamp_rates :: rates

text \<open>The constructor: an absent or empty table and an absent rate mean the class default.\<close>

definition dict_or :: "('k, 'v) dict option \<Rightarrow> ('k, 'v) dict \<Rightarrow> ('k, 'v) dict" where
  "dict_or d c = (case d of None \<Rightarrow> c | Some [] \<Rightarrow> c | Some x \<Rightarrow> x)"

definition some_or :: "'a option \<Rightarrow> 'a \<Rightarrow> 'a" where
  "some_or x c = (case x of None \<Rightarrow> c | Some v \<Rightarrow> v)"

definition indian_statutory_costs ::
  "string \<Rightarrow> bool \<Rightarrow> real \<Rightarrow> rates option \<Rightarrow> rates option \<Rightarrow> real option \<Rightarrow> real option \<Rightarrow>
   rates option \<Rightarrow> statutory" where
  "indian_statutory_costs product delivery brokerage stt exchange_charge sebi_fee gst_rate stamp_duty =
     \<lparr>sc_product = product, sc_delivery = delivery, sc_brokerage = brokerage,
      sc_stt_rates = dict_or stt STT, sc_exchange_rates = dict_or exchange_charge EXCHANGE_CHARGE,
      sc_sebi_fee = some_or sebi_fee SEBI_FEE, sc_gst_rate = some_or gst_rate GST_RATE,
      sc_stamp_rates = dict_or stamp_duty STAMP_DUTY\<rparr>"

definition default_statutory :: statutory where
  "default_statutory = indian_statutory_costs ''equity'' False 0 None None None None None"

definition is_fno :: "statutory \<Rightarrow> bool" where
  "is_fno m \<longleftrightarrow> sc_product m = ''futures'' \<or> sc_product m = ''options''"

definition stt_key :: "statutory \<Rightarrow> string \<Rightarrow> string" where
  "stt_key m side =
     (let sell = (upper side = SELL) in
      if is_fno m then (if sell then ''fno_sell'' else ''fno_buy'')
      else if sc_delivery m then (if sell then ''equity_delivery_sell'' else ''equity_delivery_buy'')
      else (if sell then ''equity_intraday_sell'' else ''equity_intraday_buy''))"

definition stt :: "statutory \<Rightarrow> real \<Rightarrow> string \<Rightarrow> real" where
  "stt m notional side = notional * get_default (sc_stt_rates m) (stt_key m side) 0"

definition exchange_charge :: "statutory \<Rightarrow> real \<Rightarrow> real" where
  "exchange_charge m notional = notional * get_default (sc_exchange_rates m) (sc_product m) 0"

definition sebi :: "statutory \<Rightarrow> real \<Rightarrow> real" where
  "sebi m notional = notional * sc_sebi_fee m"

definition stamp_key :: "statutory \<Rightarrow> string" where
  "stamp_key m =
     (if is_fno m then ''fno'' else if sc_delivery m then ''equity_delivery_buy'' else ''equity_intraday'')"

definition stamp :: "statutory \<Rightarrow> real \<Rightarrow> string \<Rightarrow> real" where
  "stamp m notional side =
     (if upper side = SELL then 0 else notional * get_default (sc_stamp_rates m) (stamp_key m) 0)"

definition gst :: "statutory \<Rightarrow> real \<Rightarrow> real option \<Rightarrow> real" where
  "gst m notional brokerage =
     (let brk = some_or brokerage (sc_brokerage m)
      in (brk + exchange_charge m notional + sebi m notional) * sc_gst_rate m)"

definition total_cost :: "statutory \<Rightarrow> real \<Rightarrow> string \<Rightarrow> real option \<Rightarrow> real" where
  "total_cost m notional side brokerage =
     stt m notional side + exchange_charge m notional + sebi m notional + stamp m notional side
       + gst m notional brokerage"

text \<open>\<open>for_instrument\<close>: the class test \<open>isinstance(instrument, Option/Future)\<close> is on \<open>KIND\<close>.\<close>

definition for_instrument :: "string \<Rightarrow> bool option \<Rightarrow> statutory \<Rightarrow> statutory" where
  "for_instrument kind delivery m =
     (let (product, d) = (if kind = ''option'' then (''options'', False)
                          else if kind = ''future'' then (''futures'', False)
                          else (sc_product m, sc_delivery m));
          d = some_or delivery d
      in if product = sc_product m \<and> d = sc_delivery m then m
         else indian_statutory_costs product d (sc_brokerage m) (Some (sc_stt_rates m))
                (Some (sc_exchange_rates m)) (Some (sc_sebi_fee m)) (Some (sc_gst_rate m))
                (Some (sc_stamp_rates m)))"

text \<open>The \<open>statutory\<close> argument of simulated execution: the default sentinel, the opt-out, a model.\<close>

datatype statutory_arg = STATUTORY_DEFAULT | NoStatutory | CustomStatutory statutory

fun resolve_statutory :: "statutory_arg \<Rightarrow> statutory option" where
  "resolve_statutory STATUTORY_DEFAULT = Some default_statutory"
| "resolve_statutory NoStatutory = None"
| "resolve_statutory (CustomStatutory m) = Some m"

section \<open>Futures carry\<close>

record carry_costs =
  fc_risk_free :: real
  fc_dividend_yield :: real
  fc_roll_pct :: real
  fc_carry_window_days :: int

definition default_carry :: carry_costs where
  "default_carry = \<lparr>fc_risk_free = 0.065, fc_dividend_yield = 0, fc_roll_pct = 0.0002,
     fc_carry_window_days = 5\<rparr>"

definition daily_carry :: "carry_costs \<Rightarrow> real \<Rightarrow> int \<Rightarrow> real" where
  "daily_carry c notional days =
     (if days \<le> 0 then 0
      else notional * (fc_risk_free c - fc_dividend_yield c) * of_int days / 365)"

definition roll_cost :: "carry_costs \<Rightarrow> real \<Rightarrow> real" where
  "roll_cost c notional = notional * fc_roll_pct c"

text \<open>
  \<open>within_window(expiry, now)\<close>.  \<open>now\<close> is a date or a datetime; a \<open>datetime\<close> is a \<open>date\<close> for
  \<open>isinstance\<close>, so the branch \<open>(expiry - now).days\<close> is always the one taken, and subtracting a
  datetime from a date raises \<open>TypeError\<close>.
\<close>

datatype moment = OnDate int | AtTime datetime

definition within_window :: "carry_costs \<Rightarrow> int option \<Rightarrow> moment \<Rightarrow> py_error + bool" where
  "within_window c expiry now =
     (case expiry of
        None \<Rightarrow> Inr False
      | Some ex \<Rightarrow>
          (case now of
             AtTime _ \<Rightarrow> Inl (TypeErr ''unsupported operand type(s) for -'')
           | OnDate d \<Rightarrow> Inr (0 \<le> ex - d \<and> ex - d \<le> fc_carry_window_days c)))"

section \<open>Lemmas\<close>

definition wf_rates :: "rates \<Rightarrow> bool" where
  "wf_rates r \<longleftrightarrow> r \<noteq> [] \<and> list_all (\<lambda>kv. 0 \<le> snd kv) r"

definition wf_statutory :: "statutory \<Rightarrow> bool" where
  "wf_statutory m \<longleftrightarrow> wf_rates (sc_stt_rates m) \<and> wf_rates (sc_exchange_rates m) \<and>
     wf_rates (sc_stamp_rates m) \<and> 0 \<le> sc_sebi_fee m \<and> 0 \<le> sc_gst_rate m"

lemma dict_or_Some [simp]: "r \<noteq> [] \<Longrightarrow> dict_or (Some r) c = r"
  by (cases r) (simp_all add: dict_or_def)

lemma dict_or_None [simp]: "dict_or None c = c"
  by (simp add: dict_or_def)

lemma some_or_simps [simp]: "some_or None c = c" "some_or (Some v) c = v"
  by (simp_all add: some_or_def)

lemma wf_rates_get: "wf_rates r \<Longrightarrow> 0 \<le> get_default r k 0"
  by (auto simp: wf_rates_def get_default_def list_all_iff dest!: map_of_SomeD split: option.splits)

lemma default_statutory_wf: "wf_statutory default_statutory"
  by (simp add: default_statutory_def indian_statutory_costs_def wf_statutory_def wf_rates_def
      STT_def EXCHANGE_CHARGE_def STAMP_DUTY_def SEBI_FEE_def GST_RATE_def)

text \<open>The whole charge as a rate on the traded value plus GST on the brokerage.\<close>

definition leg_rate :: "statutory \<Rightarrow> string \<Rightarrow> real" where
  "leg_rate m side =
     get_default (sc_stt_rates m) (stt_key m side) 0
     + (get_default (sc_exchange_rates m) (sc_product m) 0 + sc_sebi_fee m) * (1 + sc_gst_rate m)
     + (if upper side = SELL then 0 else get_default (sc_stamp_rates m) (stamp_key m) 0)"

lemma total_cost_linear:
  "total_cost m notional side brokerage =
     notional * leg_rate m side + some_or brokerage (sc_brokerage m) * sc_gst_rate m"
  by (simp add: total_cost_def stt_def exchange_charge_def sebi_def stamp_def gst_def leg_rate_def
      Let_def algebra_simps)

lemma leg_rate_nonneg: "wf_statutory m \<Longrightarrow> 0 \<le> leg_rate m side"
  by (auto simp: leg_rate_def wf_statutory_def wf_rates_get intro!: add_nonneg_nonneg mult_nonneg_nonneg)

lemma for_instrument_fields:
  assumes "wf_statutory m"
  shows "sc_stt_rates (for_instrument k d m) = sc_stt_rates m"
    "sc_exchange_rates (for_instrument k d m) = sc_exchange_rates m"
    "sc_stamp_rates (for_instrument k d m) = sc_stamp_rates m"
    "sc_sebi_fee (for_instrument k d m) = sc_sebi_fee m"
    "sc_gst_rate (for_instrument k d m) = sc_gst_rate m"
    "sc_brokerage (for_instrument k d m) = sc_brokerage m"
    "sc_product (for_instrument k d m) =
       (if k = ''option'' then ''options'' else if k = ''future'' then ''futures'' else sc_product m)"
    "sc_delivery (for_instrument k d m) =
       some_or d (if k = ''option'' \<or> k = ''future'' then False else sc_delivery m)"
  using assms
  by (auto simp: for_instrument_def indian_statutory_costs_def wf_statutory_def wf_rates_def Let_def)

lemma for_instrument_wf: "wf_statutory m \<Longrightarrow> wf_statutory (for_instrument k d m)"
  by (simp add: wf_statutory_def for_instrument_fields)

section \<open>The slippage contract\<close>

text \<open>What simulated execution relies on: executed prices are never better than the base.\<close>

locale adverse_slippage =
  fixes apply_price :: "real \<Rightarrow> string \<Rightarrow> real"
  assumes buy_worse: "0 \<le> p \<Longrightarrow> p \<le> apply_price p BUY"
    and sell_worse: "0 \<le> p \<Longrightarrow> side \<noteq> BUY \<Longrightarrow> apply_price p side \<le> p"
begin

lemma round_trip_loses: "0 \<le> p \<Longrightarrow> apply_price p SELL \<le> apply_price p BUY"
  using buy_worse [of p] sell_worse [of p SELL] by simp

lemma round_trip_cost:
  "0 \<le> p \<Longrightarrow> 0 \<le> q \<Longrightarrow> 0 \<le> (apply_price p BUY - apply_price p SELL) * q"
  by (simp add: round_trip_loses)

end

interpretation no_slippage: adverse_slippage "slippage_apply (FixedSlippage 0)"
  by unfold_locales simp_all

fun slippage_ok :: "slippage_model \<Rightarrow> bool" where
  "slippage_ok (FixedSlippage points) = (0 \<le> points)"
| "slippage_ok (PercentageSlippage pct) = (0 \<le> pct)"

lemma slippage_ok_adverse: "slippage_ok s \<Longrightarrow> adverse_slippage (slippage_apply s)"
  by unfold_locales (cases s; auto simp: mult_le_cancel_left1 mult_le_cancel_left2)+

section \<open>Properties\<close>

text \<open>statutory charges of one leg.  For any schedule with non-negative rates the charge is
  never negative and never falls when the traded value grows, a leg split into two parts costs
  the same as the whole (GST on the brokerage charged once), and a sell leg never pays stamp
  duty.\<close>

theorem statutory_leg_charge:
  assumes "wf_statutory m" and "0 \<le> a" and "0 \<le> b" and "0 \<le> brk"
  shows "0 \<le> total_cost m a side (Some brk) \<and>
    total_cost m a side (Some brk) \<le> total_cost m (a + b) side (Some brk) \<and>
    total_cost m (a + b) side (Some brk) = total_cost m a side (Some brk) + total_cost m b side (Some 0) \<and>
    stamp m a SELL = 0"
proof -
  have "0 \<le> leg_rate m side" "0 \<le> sc_gst_rate m"
    using assms(1) leg_rate_nonneg by (auto simp: wf_statutory_def)
  moreover have "upper SELL = SELL" by code_simp
  ultimately show ?thesis
    using assms by (simp add: total_cost_linear stamp_def algebra_simps mult_right_mono)
qed

theorem statutory_leg_charge_witness:
  "wf_statutory default_statutory \<and> 0 \<le> total_cost default_statutory 1000 BUY (Some 20)"
  using statutory_leg_charge [OF default_statutory_wf, of 1000 0 20 BUY] default_statutory_wf
  by simp

text \<open>slippage is always against the trader: with a non-negative setting a BUY never executes
  below the base price and a SELL never above it, so a round trip at an unchanged base price
  never gains.\<close>

theorem slippage_adverse:
  assumes "slippage_ok s" and "0 \<le> p" and "0 \<le> q"
  shows "p \<le> slippage_apply s p BUY \<and> slippage_apply s p SELL \<le> p \<and>
    0 \<le> (slippage_apply s p BUY - slippage_apply s p SELL) * q"
  using slippage_ok_adverse [OF assms(1)] assms(2,3)
  by (auto simp: adverse_slippage_def intro: adverse_slippage.round_trip_cost [OF slippage_ok_adverse [OF assms(1)]])

theorem slippage_adverse_witness:
  "0 \<le> (slippage_apply (PercentageSlippage (1/1000)) 200 BUY
        - slippage_apply (PercentageSlippage (1/1000)) 200 SELL) * 10"
  using slippage_adverse [of "PercentageSlippage (1/1000)" 200 10] by simp

end
