(* ===== verification/SimExec.thy ===== *)
theory SimExec
  imports Market Costs
begin

text \<open>
  Order routing and simulated execution: \<open>ntrade/execution/simulator.py\<close>
  (\<open>SimulatedExecution.submit\<close>), \<open>ntrade/backtest/fills.py\<close> (\<open>FillPolicy\<close>,
  \<open>BarAwareExecution\<close>), \<open>ntrade/execution/router.py\<close> and \<open>ntrade/engines/order_engine.py\<close>.

  The contract of an execution target that fills at once is the locale \<open>instant_target\<close>; the
  router and the order engine are proved correct inside it, and both simulated targets are
  interpretations of it.
\<close>

section \<open>Simulated execution\<close>

record sim_exec =
  se_slippage :: slippage_model
  se_commission :: commission_model
  se_statutory :: "statutory option"
  se_delivery_detection :: bool
  se_entry_date :: "(string, int) dict"
  se_entry_notional :: "(string, real) dict"
  se_seq :: nat
  se_fills :: "order_filled list"

definition new_sim_exec ::
  "slippage_model option \<Rightarrow> commission_model option \<Rightarrow> statutory_arg \<Rightarrow> bool \<Rightarrow> sim_exec" where
  "new_sim_exec slippage commission statutory delivery_detection =
     \<lparr>se_slippage = some_or slippage (FixedSlippage 0),
      se_commission = some_or commission (FlatCommission 0),
      se_statutory = resolve_statutory statutory, se_delivery_detection = delivery_detection,
      se_entry_date = [], se_entry_notional = [], se_seq = 0, se_fills = []\<rparr>"

definition reject_intent :: "string \<Rightarrow> order_intent \<Rightarrow> order_rejected" where
  "reject_intent reason it =
     \<lparr>ts = ts it, or_order_id = [], or_symbol = oi_symbol it, or_exchange = oi_exchange it,
      or_side = oi_side it, or_quantity = oi_quantity it, or_reason = reason,
      or_strategy = oi_strategy it\<rparr>"

text \<open>The price checks of \<open>submit\<close>: a rejection reason, or the fill price.\<close>

definition sim_fill_price :: "instruments \<Rightarrow> sim_exec \<Rightarrow> order_intent \<Rightarrow> string + real" where
  "sim_fill_price is s it =
     (case map_of is (oi_symbol it) of
        None \<Rightarrow> Inl (''unknown instrument '' @ repr_str (oi_symbol it))
      | Some ins \<Rightarrow>
          (let base = num_or (oi_reference_price it) (num_or (q_ltp (i_quote ins)) 0) in
           if oi_order_type it = MARKET \<and> base \<le> 0 then Inl ''no market price available''
           else (let price = (if oi_order_type it = MARKET
                              then slippage_apply (se_slippage s) base (oi_side it)
                              else num_or (oi_price it) 0)
                 in if price \<le> 0 then Inl ''invalid fill price'' else Inr price)))"

text \<open>Was the position being sold entered on an earlier session date?\<close>

definition held_overnight :: "sim_exec \<Rightarrow> order_intent \<Rightarrow> bool" where
  "held_overnight s it \<longleftrightarrow>
     oi_side it \<noteq> BUY \<and> se_delivery_detection s \<and> se_statutory s \<noteq> None \<and>
     (case map_of (se_entry_date s) (oi_symbol it) of
        None \<Rightarrow> False | Some entry \<Rightarrow> entry < date_of (ts it))"

text \<open>The uplift of the entry leg from the intraday to the delivery schedule.\<close>

definition delivery_adjustment :: "string \<Rightarrow> statutory \<Rightarrow> real \<Rightarrow> real" where
  "delivery_adjustment kind m entry_notional =
     (let intraday = for_instrument kind None m; delivery = for_instrument kind (Some True) m
      in py_round 4 (stt delivery entry_notional BUY + stamp delivery entry_notional BUY
                     - stt intraday entry_notional BUY - stamp intraday entry_notional BUY))"

definition sim_statutory :: "string \<Rightarrow> sim_exec \<Rightarrow> order_intent \<Rightarrow> real \<Rightarrow> real \<Rightarrow> real" where
  "sim_statutory kind s it notional commission =
     (case se_statutory s of
        None \<Rightarrow> 0
      | Some m \<Rightarrow>
          (let held = held_overnight s it;
               adj = (if held then delivery_adjustment kind m
                        (get_default (se_entry_notional s) (oi_symbol it) 0) else 0);
               model = for_instrument kind (Some held) m
           in py_round 4 (total_cost model notional (oi_side it) (Some commission) + adj)))"

text \<open>The bookkeeping of the entry leg on a BUY.\<close>

definition note_entry :: "order_intent \<Rightarrow> real \<Rightarrow> sim_exec \<Rightarrow> sim_exec" where
  "note_entry it notional s =
     (if oi_side it = BUY \<and> se_delivery_detection s
      then s\<lparr>se_entry_date := AList.update (oi_symbol it) (date_of (ts it)) (se_entry_date s),
             se_entry_notional := AList.update (oi_symbol it) notional (se_entry_notional s)\<rparr>
      else s)"

definition sim_order_id :: "nat \<Rightarrow> string" where
  "sim_order_id n = ''SIM-'' @ pad_nat 6 n"

definition accepted_of :: "string \<Rightarrow> order_intent \<Rightarrow> order_accepted" where
  "accepted_of oid it =
     \<lparr>ts = ts it, oa_order_id = oid, oa_symbol = oi_symbol it, oa_exchange = oi_exchange it,
      oa_side = oi_side it, oa_quantity = oi_quantity it, oa_strategy = oi_strategy it\<rparr>"

definition sim_fill :: "string \<Rightarrow> sim_exec \<Rightarrow> order_intent \<Rightarrow> string \<Rightarrow> real \<Rightarrow> order_filled" where
  "sim_fill kind s it oid price =
     (let notional = price * of_int (oi_quantity it);
          commission = py_round 4 (commission_apply (se_commission s) notional)
      in \<lparr>ts = ts it, of_order_id = oid, of_symbol = oi_symbol it, of_exchange = oi_exchange it,
          of_side = oi_side it, of_quantity = oi_quantity it, of_fill_price = py_round 4 price,
          of_commission = commission, of_statutory = sim_statutory kind s it notional commission,
          of_strategy = oi_strategy it\<rparr>)"

definition sim_submit ::
  "instruments \<Rightarrow> order_intent \<Rightarrow> sim_exec \<Rightarrow> order_rejected option \<times> sim_exec \<times> msg list" where
  "sim_submit is it s =
     (case sim_fill_price is s it of
        Inl reason \<Rightarrow> (Some (reject_intent reason it), s, [])
      | Inr price \<Rightarrow>
          (let kind = (case map_of is (oi_symbol it) of None \<Rightarrow> [] | Some ins \<Rightarrow> i_kind ins);
               n = Suc (se_seq s);
               filled = sim_fill kind s it (sim_order_id n) price;
               s' = note_entry it (price * of_int (oi_quantity it)) (s\<lparr>se_seq := n\<rparr>)
           in (None, s'\<lparr>se_fills := se_fills s' @ [filled]\<rparr>,
               [OrderAcceptedEvent (accepted_of (sim_order_id n) it), OrderFilledEvent filled])))"

section \<open>Bar-aware fills\<close>

record bar =
  b_open :: real
  b_high :: real
  b_low :: real
  b_close :: real

datatype market_on = OnOpen | OnClose

definition make_fill_policy :: "string \<Rightarrow> py_error + market_on" where
  "make_fill_policy s =
     (if s = ''open'' then Inr OnOpen else if s = ''close'' then Inr OnClose
      else Inl (ValueError ''market_on must be open or close''))"

fun market_price :: "market_on \<Rightarrow> bar \<Rightarrow> real" where
  "market_price OnOpen b = b_open b"
| "market_price OnClose b = b_close b"

definition limit_fill :: "order_intent \<Rightarrow> bar \<Rightarrow> real option" where
  "limit_fill it b =
     (let limit = oi_price it in
      if oi_side it = BUY
      then (if b_low b \<le> limit then Some (min limit (b_open b)) else None)
      else (if b_high b \<ge> limit then Some (max limit (b_open b)) else None))"

definition bar_submit ::
  "bar option \<Rightarrow> instruments \<Rightarrow> order_intent \<Rightarrow> sim_exec \<Rightarrow>
   order_rejected option \<times> sim_exec \<times> msg list" where
  "bar_submit cur is it s =
     (if oi_order_type it = MARKET then sim_submit is it s
      else (case cur of
              None \<Rightarrow> sim_submit is it s
            | Some b \<Rightarrow>
                (case limit_fill it b of
                   None \<Rightarrow> (Some (reject_intent ''limit not touched'' it), s, [])
                 | Some price \<Rightarrow> sim_submit is (it\<lparr>oi_price := price\<rparr>) s)))"

section \<open>Router and order engine\<close>

record 't router =
  rt_targets :: "(string, 't) dict"
  rt_default :: "string option"

definition router_add :: "string \<Rightarrow> 't \<Rightarrow> 't router \<Rightarrow> 't router" where
  "router_add name target r = r\<lparr>rt_targets := AList.update name target (rt_targets r)\<rparr>"

definition router_default :: "string \<Rightarrow> 't router \<Rightarrow> 't router" where
  "router_default name r = r\<lparr>rt_default := Some name\<rparr>"

definition router_pick :: "'t router \<Rightarrow> string \<Rightarrow> (string \<times> 't) option" where
  "router_pick r strategy =
     (case map_of (rt_targets r) strategy of
        Some t \<Rightarrow> Some (strategy, t)
      | None \<Rightarrow> (case rt_default r of
                   None \<Rightarrow> None
                 | Some d \<Rightarrow> map_option (\<lambda>t. (d, t)) (map_of (rt_targets r) d)))"

definition router_submit ::
  "(order_intent \<Rightarrow> 't \<Rightarrow> order_rejected option \<times> 't \<times> msg list) \<Rightarrow> order_intent \<Rightarrow> 't router \<Rightarrow>
   order_rejected option \<times> 't router \<times> msg list" where
  "router_submit submit it r =
     (case router_pick r (oi_strategy it) of
        None \<Rightarrow> (Some (reject_intent (''no execution target for strategy '' @ repr_str (oi_strategy it)) it), r, [])
      | Some (name, t) \<Rightarrow>
          (case submit it t of (out, t', ms) \<Rightarrow> (out, router_add name t' r, ms)))"

text \<open>\<open>signal.metadata.get("reference_price", 0.0)\<close>: strategies store a number there.\<close>

definition reference_price :: "metadata \<Rightarrow> real" where
  "reference_price md =
     (case map_of md ''reference_price'' of
        Some (PFloat x) \<Rightarrow> x | Some (PInt k) \<Rightarrow> of_int k | _ \<Rightarrow> 0)"

definition make_intent :: "signal_approved \<Rightarrow> order_intent" where
  "make_intent e =
     (let sg = sa_signal e in
      \<lparr>ts = ts e, oi_symbol = sg_symbol sg, oi_exchange = sg_exchange sg, oi_side = sg_side sg,
       oi_quantity = sg_quantity sg, oi_order_type = sg_order_type sg, oi_price = sg_price sg,
       oi_reference_price = reference_price (sg_metadata sg), oi_strategy = sg_strategy sg\<rparr>)"

record 't order_engine =
  oe_router :: "'t router"
  oe_intents :: nat

definition on_signal_approved ::
  "(order_intent \<Rightarrow> 't \<Rightarrow> order_rejected option \<times> 't \<times> msg list) \<Rightarrow> signal_approved \<Rightarrow>
   't order_engine \<Rightarrow> 't order_engine \<times> msg list" where
  "on_signal_approved submit e oe =
     (let it = make_intent e in
      case router_submit submit it (oe_router oe) of
        (out, r', ms) \<Rightarrow>
          (oe\<lparr>oe_router := r', oe_intents := Suc (oe_intents oe)\<rparr>,
           OrderIntentEvent it # ms @
             (case out of None \<Rightarrow> [] | Some rej \<Rightarrow> [OrderRejectedEvent rej])))"

section \<open>The contract of a target that fills at once\<close>

definition rejects :: "order_intent \<Rightarrow> order_rejected \<Rightarrow> bool" where
  "rejects it rej \<longleftrightarrow> (\<exists>reason. rej = reject_intent reason it)"

definition fills :: "order_intent \<Rightarrow> string \<Rightarrow> order_filled \<Rightarrow> bool" where
  "fills it oid f \<longleftrightarrow>
     of_order_id f = oid \<and> of_symbol f = oi_symbol it \<and> of_exchange f = oi_exchange it \<and>
     of_side f = oi_side it \<and> of_quantity f = oi_quantity it \<and> of_strategy f = oi_strategy it \<and>
     ts f = ts it"

definition answered :: "order_intent \<Rightarrow> order_rejected option \<Rightarrow> msg list \<Rightarrow> bool" where
  "answered it out ms \<longleftrightarrow>
     (\<exists>rej. out = Some rej \<and> rejects it rej \<and> ms = []) \<or>
     (out = None \<and> (\<exists>oid f. ms = [OrderAcceptedEvent (accepted_of oid it), OrderFilledEvent f] \<and> fills it oid f))"

locale instant_target =
  fixes submit :: "order_intent \<Rightarrow> 't \<Rightarrow> order_rejected option \<times> 't \<times> msg list"
  assumes submit_answers: "submit it t = (out, t', ms) \<Longrightarrow> answered it out ms"
    and reject_keeps: "submit it t = (Some rej, t', ms) \<Longrightarrow> t' = t"
begin

lemma router_answers: "router_submit submit it r = (out, r', ms) \<Longrightarrow> answered it out ms"
  by (auto simp: router_submit_def answered_def rejects_def split: option.splits prod.splits
      dest!: submit_answers [unfolded answered_def rejects_def])

lemma router_keeps_names:
  "router_submit submit it r = (out, r', ms) \<Longrightarrow>
   set (keys (rt_targets r')) = set (keys (rt_targets r)) \<and> rt_default r' = rt_default r"
proof -
  assume a: "router_submit submit it r = (out, r', ms)"
  have "router_pick r st = Some (nm, t) \<Longrightarrow> nm \<in> set (keys (rt_targets r))" for st nm t
    by (force simp: router_pick_def dest: map_of_SomeD split: option.splits)
  with a show ?thesis
    by (clarsimp simp: router_submit_def router_add_def insert_absorb split: option.splits prod.splits)
qed

lemma engine_answers:
  assumes "on_signal_approved submit e oe = (oe', ms)"
  shows "oe_intents oe' = Suc (oe_intents oe) \<and>
    ((\<exists>rej. rejects (make_intent e) rej \<and>
        ms = [OrderIntentEvent (make_intent e), OrderRejectedEvent rej]) \<or>
     (\<exists>oid f. fills (make_intent e) oid f \<and>
        ms = [OrderIntentEvent (make_intent e), OrderAcceptedEvent (accepted_of oid (make_intent e)),
              OrderFilledEvent f]))"
proof -
  obtain out r' ms' where r: "router_submit submit (make_intent e) (oe_router oe) = (out, r', ms')"
    by (metis prod_cases3)
  then have "answered (make_intent e) out ms'" by (rule router_answers)
  with r assms show ?thesis
    by (auto simp: on_signal_approved_def answered_def Let_def)
qed

end

lemma reject_intent_price [simp]: "reject_intent reason (it\<lparr>oi_price := p\<rparr>) = reject_intent reason it"
  by (simp add: reject_intent_def)

lemma accepted_of_price [simp]: "accepted_of oid (it\<lparr>oi_price := p\<rparr>) = accepted_of oid it"
  by (simp add: accepted_of_def)

lemma fills_price [simp]: "fills (it\<lparr>oi_price := p\<rparr>) oid f = fills it oid f"
  by (simp add: fills_def)

lemma answered_price [simp]: "answered (it\<lparr>oi_price := p\<rparr>) out ms = answered it out ms"
  by (simp add: answered_def rejects_def)

lemma sim_fill_fills: "fills it oid (sim_fill kind s it oid price)"
  by (simp add: fills_def sim_fill_def Let_def)

lemma note_entry_fields [simp]:
  "se_fills (note_entry it n s) = se_fills s" "se_seq (note_entry it n s) = se_seq s"
  "se_slippage (note_entry it n s) = se_slippage s" "se_commission (note_entry it n s) = se_commission s"
  "se_statutory (note_entry it n s) = se_statutory s"
  "se_delivery_detection (note_entry it n s) = se_delivery_detection s"
  by (simp_all add: note_entry_def)

lemma sim_submit_answers:
  assumes "sim_submit is it s = (out, s', ms)"
  shows "answered it out ms"
proof (cases "sim_fill_price is s it")
  case (Inl reason)
  then show ?thesis using assms by (auto simp: sim_submit_def answered_def rejects_def)
next
  case (Inr price)
  then show ?thesis
    using assms sim_fill_fills by (fastforce simp: sim_submit_def answered_def Let_def)
qed

lemma sim_submit_reject: "sim_submit is it s = (Some rej, s', ms) \<Longrightarrow> s' = s"
  by (auto simp: sim_submit_def Let_def split: sum.splits)

interpretation simulated: instant_target "sim_submit is"
  for "is" :: instruments
  by unfold_locales (auto intro: sim_submit_answers dest: sim_submit_reject)

lemma bar_submit_answers:
  assumes "bar_submit cur is it s = (out, s', ms)"
  shows "answered it out ms"
  using assms sim_submit_answers [of "is" it] sim_submit_answers [of "is" "it\<lparr>oi_price := p\<rparr>" for p]
  by (auto simp: bar_submit_def answered_def rejects_def split: if_splits option.splits)

lemma bar_submit_reject: "bar_submit cur is it s = (Some rej, s', ms) \<Longrightarrow> s' = s"
  by (auto simp: bar_submit_def dest: sim_submit_reject split: if_splits option.splits)

interpretation bar_aware: instant_target "bar_submit cur is"
  for cur :: "bar option" and "is" :: instruments
  by unfold_locales (auto intro: bar_submit_answers dest: bar_submit_reject)

section \<open>Properties of routing and simulated execution\<close>

lemma sim_submit_SomeD:
  assumes "sim_submit is it s = (None, s', ms)"
  obtains ins price where "map_of is (oi_symbol it) = Some ins" "sim_fill_price is s it = Inr price"
    "0 < price"
    "s' = (note_entry it (price * of_int (oi_quantity it)) (s\<lparr>se_seq := Suc (se_seq s)\<rparr>))
      \<lparr>se_fills := se_fills s @ [sim_fill (i_kind ins) s it (sim_order_id (Suc (se_seq s))) price]\<rparr>"
    "ms = [OrderAcceptedEvent (accepted_of (sim_order_id (Suc (se_seq s))) it),
      OrderFilledEvent (sim_fill (i_kind ins) s it (sim_order_id (Suc (se_seq s))) price)]"
proof -
  obtain price where p: "sim_fill_price is s it = Inr price"
    using assms by (auto simp: sim_submit_def split: sum.splits)
  then obtain ins where i: "map_of is (oi_symbol it) = Some ins" and "0 < price"
    by (auto simp: sim_fill_price_def Let_def split: option.splits if_splits)
  with p assms show ?thesis
    by (intro that [OF i p]) (simp_all add: sim_submit_def Let_def)
qed

text \<open>the order engine answers every approved signal exactly once.  Whatever targets the
  router holds (simulated executions, under any instrument state), approving a signal publishes
  the intent built from it, followed either by one rejection of that intent or by one acceptance
  and one fill of exactly its symbol, side, quantity and strategy under one order id.\<close>

theorem order_engine_answers:
  assumes "on_signal_approved (sim_submit is) e oe = (oe', ms)"
  shows "oe_intents oe' = Suc (oe_intents oe) \<and>
    ((\<exists>rej. rejects (make_intent e) rej \<and>
        ms = [OrderIntentEvent (make_intent e), OrderRejectedEvent rej]) \<or>
     (\<exists>oid f. fills (make_intent e) oid f \<and>
        ms = [OrderIntentEvent (make_intent e), OrderAcceptedEvent (accepted_of oid (make_intent e)),
              OrderFilledEvent f]))"
  using assms by (rule simulated.engine_answers)

definition sim_default :: sim_exec where
  "sim_default = new_sim_exec None None STATUTORY_DEFAULT True"

definition buy_signal :: signal_generated where
  "buy_signal = \<lparr>ts = naive 0, sg_symbol = ''TCS'', sg_exchange = ''NSE'', sg_side = BUY,
     sg_quantity = 10, sg_price = 100, sg_order_type = ''LIMIT'', sg_strategy = ''orb'', sg_metadata = []\<rparr>"

definition tcs_book :: instruments where
  "tcs_book = [(''TCS'', new_instrument ''equity'' ''TCS'' ''NSE'' False)]"

theorem order_engine_answers_witness:
  "oe_intents (fst (on_signal_approved (sim_submit tcs_book) \<lparr>ts = naive 0, sa_signal = buy_signal\<rparr>
     \<lparr>oe_router = \<lparr>rt_targets = [(''default'', sim_default)], rt_default = Some ''default''\<rparr>, oe_intents = 0\<rparr>)) = 1"
  using order_engine_answers [of tcs_book "\<lparr>ts = naive 0, sa_signal = buy_signal\<rparr>"
     "\<lparr>oe_router = \<lparr>rt_targets = [(''default'', sim_default)], rt_default = Some ''default''\<rparr>, oe_intents = 0\<rparr>",
     OF prod.collapse [symmetric]]
  by simp

text \<open>a limit order never fills outside its bar or worse than its limit.  For a bar whose
  open lies between its low and high, a bar-aware limit fill happens exactly when the bar trades
  through the limit, at a price within the bar and at least as good as the limit.\<close>

theorem limit_fill_sound:
  assumes "b_low b \<le> b_open b" and "b_open b \<le> b_high b"
  shows "(limit_fill it b \<noteq> None) =
      (if oi_side it = BUY then b_low b \<le> oi_price it else oi_price it \<le> b_high b) \<and>
    (\<forall>p. limit_fill it b = Some p \<longrightarrow> b_low b \<le> p \<and> p \<le> b_high b \<and>
      (if oi_side it = BUY then p \<le> oi_price it else oi_price it \<le> p))"
  using assms by (auto simp: limit_fill_def Let_def)

definition buy_intent :: order_intent where
  "buy_intent = make_intent \<lparr>ts = naive 0, sa_signal = buy_signal\<rparr>"

theorem limit_fill_sound_witness:
  "limit_fill buy_intent \<lparr>b_open = 101, b_high = 105, b_low = 99, b_close = 104\<rparr> \<noteq> None"
  using limit_fill_sound [of "\<lparr>b_open = 101, b_high = 105, b_low = 99, b_close = 104\<rparr>" buy_intent]
  by (simp add: buy_intent_def make_intent_def buy_signal_def)

text \<open>A run of submissions; the instruments may move between them.\<close>

definition run_submits :: "(instruments \<times> order_intent) list \<Rightarrow> sim_exec \<Rightarrow> sim_exec" where
  "run_submits js s = fold (\<lambda>(is, it) s. fst (snd (sim_submit is it s))) js s"

definition ids_below :: "sim_exec \<Rightarrow> bool" where
  "ids_below s \<longleftrightarrow>
     (\<exists>ks. map of_order_id (se_fills s) = map sim_order_id ks \<and> distinct ks \<and> list_all (\<lambda>k. k \<le> se_seq s) ks)"

lemma sim_order_id_inj [simp]: "sim_order_id m = sim_order_id n \<longleftrightarrow> m = n"
  by (simp add: sim_order_id_def)

lemma ids_below_submit:
  assumes "ids_below s"
  shows "ids_below (fst (snd (sim_submit is it s)))"
proof (cases "fst (sim_submit is it s)")
  case (Some rej)
  then have "fst (snd (sim_submit is it s)) = s"
    using sim_submit_reject [of "is" it s rej] by (metis prod.collapse)
  with assms show ?thesis by simp
next
  case None
  then obtain s' ms where e: "sim_submit is it s = (None, s', ms)" by (metis prod.collapse)
  from assms obtain ks where ks: "map of_order_id (se_fills s) = map sim_order_id ks"
      "distinct ks" "list_all (\<lambda>k. k \<le> se_seq s) ks"
    by (auto simp: ids_below_def)
  from e have "map of_order_id (se_fills s') = map sim_order_id (ks @ [Suc (se_seq s)])"
      and "se_seq s' = Suc (se_seq s)"
    by (auto elim!: sim_submit_SomeD simp: ks(1) sim_fill_def Let_def)
  then show ?thesis
    unfolding ids_below_def e using ks(2,3)
    by (intro exI [of _ "ks @ [Suc (se_seq s)]"]) (auto simp: list_all_iff)
qed

text \<open>simulated order ids are never reused: over any sequence of submissions to a fresh
  simulated execution, whatever the instruments do in between, the recorded fills carry pairwise
  distinct order ids.\<close>

theorem sim_order_ids_distinct:
  "distinct (map of_order_id (se_fills (run_submits js (new_sim_exec sl cm st dd))))"
proof -
  have "ids_below s \<Longrightarrow> ids_below (run_submits js s)" for s
    unfolding run_submits_def by (induction js arbitrary: s) (auto simp: ids_below_submit)
  moreover have "ids_below (new_sim_exec sl cm st dd)"
    by (simp add: ids_below_def new_sim_exec_def)
  ultimately have "ids_below (run_submits js (new_sim_exec sl cm st dd))" by blast
  then obtain ks where "map of_order_id (se_fills (run_submits js (new_sim_exec sl cm st dd)))
      = map sim_order_id ks" "distinct ks"
    by (auto simp: ids_below_def)
  moreover from this have "distinct (map sim_order_id ks)" by (simp add: distinct_map inj_on_def)
  ultimately show ?thesis by simp
qed

lemma upper_sides [simp]: "upper ''BUY'' = ''BUY''" "upper ''SELL'' = ''SELL''"
  by code_simp+

lemma delivery_uplift:
  assumes "wf_statutory m" and "kind \<noteq> ''option''" and "kind \<noteq> ''future''" and "\<not> sc_delivery m"
  shows "\<bar>total_cost (for_instrument kind (Some False) m) n BUY brk + delivery_adjustment kind m n
      - total_cost (for_instrument kind (Some True) m) n BUY brk\<bar> \<le> 1 / 20000"
proof -
  have same: "for_instrument kind None m = for_instrument kind (Some False) m"
    using assms by (simp add: for_instrument_def)
  have parts: "total_cost (for_instrument kind (Some d) m) n BUY brk =
      stt (for_instrument kind (Some d) m) n BUY + stamp (for_instrument kind (Some d) m) n BUY
      + (exchange_charge m n + sebi m n + gst m n brk)" for d
    using assms
    by (simp add: total_cost_def gst_def exchange_charge_def sebi_def for_instrument_fields)
  show ?thesis
    unfolding parts delivery_adjustment_def Let_def same
    using py_round4_bounds [of "stt (for_instrument kind (Some True) m) n BUY
        + stamp (for_instrument kind (Some True) m) n BUY
        - stt (for_instrument kind (Some False) m) n BUY
        - stamp (for_instrument kind (Some False) m) n BUY"]
    by (simp only: abs_le_iff) linarith
qed

text \<open>an overnight equity round trip is priced on the delivery schedule on both legs.  If a
  BUY fills and the next submission of the symbol is a SELL on a later date, then the statutory
  charges of the two fills add up to the delivery-schedule charges of the two legs, up to the
  three roundings to the fourth decimal the code makes.\<close>

theorem overnight_round_trip_is_delivery:
  assumes "se_statutory s = Some m" and "wf_statutory m" and "\<not> sc_delivery m"
    and "se_delivery_detection s"
    and "map_of is (oi_symbol b) = Some ins" and "i_kind ins \<notin> {''option'', ''future''}"
    and "map_of is2 (oi_symbol b) = Some ins2" and "i_kind ins2 = i_kind ins"
    and "oi_side b = BUY" and "oi_side x = SELL" and "oi_symbol x = oi_symbol b"
    and "date_of (ts b) < date_of (ts x)"
    and "sim_submit is b s = (None, s1, [OrderAcceptedEvent a1, OrderFilledEvent f1])"
    and "sim_submit is2 x s1 = (None, s2, [OrderAcceptedEvent a2, OrderFilledEvent f2])"
    and "sim_fill_price is s b = Inr p1" and "sim_fill_price is2 s1 x = Inr p2"
  shows "\<bar>of_statutory f1 + of_statutory f2
      - (total_cost (m\<lparr>sc_delivery := True\<rparr>) (p1 * of_int (oi_quantity b)) BUY (Some (of_commission f1))
         + total_cost (m\<lparr>sc_delivery := True\<rparr>) (p2 * of_int (oi_quantity x)) SELL (Some (of_commission f2)))\<bar>
    \<le> 3 / 20000"
proof -
  let ?k = "i_kind ins" and ?n = "p1 * of_int (oi_quantity b)" and ?n2 = "p2 * of_int (oi_quantity x)"
  let ?i = "for_instrument ?k (Some False) m" and ?d = "for_instrument ?k (Some True) m"
  have d: "?d = m\<lparr>sc_delivery := True\<rparr>"
    using assms(2,3,6) by (simp add: for_instrument_def indian_statutory_costs_def wf_statutory_def wf_rates_def)
  from assms(13,5,15) have f1: "f1 = sim_fill ?k s b (sim_order_id (Suc (se_seq s))) p1"
    and s1: "se_statutory s1 = Some m" "se_delivery_detection s1"
      "map_of (se_entry_date s1) (oi_symbol b) = Some (date_of (ts b))"
      "map_of (se_entry_notional s1) (oi_symbol b) = Some ?n"
    using assms(1,4,9) by (auto elim!: sim_submit_SomeD simp: note_entry_def)
  have e1: "of_statutory f1 = py_round 4 (total_cost ?i ?n BUY (Some (of_commission f1)))"
    using assms(1,9) by (simp add: f1 sim_fill_def sim_statutory_def held_overnight_def Let_def)
  have h: "held_overnight s1 x"
    using s1 assms(10-12) by (simp add: held_overnight_def)
  from assms(14,7,16) have f2: "f2 = sim_fill ?k s1 x (sim_order_id (Suc (se_seq s1))) p2"
    using assms(8,11) by (auto elim!: sim_submit_SomeD)
  have e2: "of_statutory f2 = py_round 4 (total_cost ?d ?n2 SELL (Some (of_commission f2)) + delivery_adjustment ?k m ?n)"
    using s1 h assms(10,11) by (simp add: f2 sim_fill_def sim_statutory_def Let_def get_default_def)
  have u: "\<bar>total_cost ?i ?n BUY (Some (of_commission f1)) + delivery_adjustment ?k m ?n
      - total_cost ?d ?n BUY (Some (of_commission f1))\<bar> \<le> 1 / 20000"
    using assms(2,3,6) by (intro delivery_uplift) auto
  show ?thesis
    unfolding d [symmetric]
    using u py_round4_bounds [of "total_cost ?i ?n BUY (Some (of_commission f1))"]
      py_round4_bounds [of "total_cost ?d ?n2 SELL (Some (of_commission f2)) + delivery_adjustment ?k m ?n"]
    unfolding e1 [symmetric] e2 [symmetric] by (simp only: abs_le_iff) linarith
qed

lemma sim_submit_accept:
  "sim_fill_price is s it = Inr price \<Longrightarrow>
   \<exists>s' a f. sim_submit is it s = (None, s', [OrderAcceptedEvent a, OrderFilledEvent f])"
  by (simp add: sim_submit_def Let_def)

lemma limit_fill_price:
  "map_of is (oi_symbol it) = Some ins \<Longrightarrow> oi_order_type it \<noteq> MARKET \<Longrightarrow> 0 < oi_price it \<Longrightarrow>
   sim_fill_price is s it = Inr (oi_price it)"
  by (simp add: sim_fill_price_def num_or_def)

definition sell_next_day :: order_intent where
  "sell_next_day = buy_intent\<lparr>ts := naive 86400, oi_side := SELL, oi_price := 110\<rparr>"

lemmas intent_examples =
  buy_intent_def sell_next_day_def make_intent_def buy_signal_def tcs_book_def

theorem overnight_round_trip_is_delivery_witness:
  "\<exists>s1 s2 a1 a2 f1 f2.
     sim_submit tcs_book buy_intent sim_default = (None, s1, [OrderAcceptedEvent a1, OrderFilledEvent f1]) \<and>
     sim_submit tcs_book sell_next_day s1 = (None, s2, [OrderAcceptedEvent a2, OrderFilledEvent f2]) \<and>
     \<bar>of_statutory f1 + of_statutory f2
      - (total_cost (default_statutory\<lparr>sc_delivery := True\<rparr>) 1000 BUY (Some (of_commission f1))
         + total_cost (default_statutory\<lparr>sc_delivery := True\<rparr>) 1100 SELL (Some (of_commission f2)))\<bar>
    \<le> 3 / 20000"
proof -
  have p1: "sim_fill_price tcs_book sim_default buy_intent = Inr 100"
    and p2: "\<And>s. sim_fill_price tcs_book s sell_next_day = Inr 110"
    by (subst limit_fill_price; simp add: intent_examples)+
  obtain s1 a1 f1 where e1: "sim_submit tcs_book buy_intent sim_default
      = (None, s1, [OrderAcceptedEvent a1, OrderFilledEvent f1])"
    using sim_submit_accept [OF p1] by blast
  obtain s2 a2 f2 where e2: "sim_submit tcs_book sell_next_day s1
      = (None, s2, [OrderAcceptedEvent a2, OrderFilledEvent f2])"
    using sim_submit_accept [OF p2] by blast
  have "\<bar>of_statutory f1 + of_statutory f2
      - (total_cost (default_statutory\<lparr>sc_delivery := True\<rparr>) (100 * of_int (oi_quantity buy_intent)) BUY (Some (of_commission f1))
         + total_cost (default_statutory\<lparr>sc_delivery := True\<rparr>) (110 * of_int (oi_quantity sell_next_day)) SELL (Some (of_commission f2)))\<bar>
    \<le> 3 / 20000"
    by (rule overnight_round_trip_is_delivery
        [of sim_default default_statutory tcs_book buy_intent "new_instrument ''equity'' ''TCS'' ''NSE'' False"
          tcs_book "new_instrument ''equity'' ''TCS'' ''NSE'' False", OF _ default_statutory_wf _ _ _ _ _ _ _ _ _ _ e1 e2 p1 p2])
      (simp_all add: intent_examples sim_default_def new_sim_exec_def default_statutory_def
        indian_statutory_costs_def new_instrument_def date_of_def naive_def)
  with e1 e2 show ?thesis by (force simp: intent_examples)
qed

lemma sim_fill_price_statutory [simp]:
  "sim_fill_price is (s\<lparr>se_statutory := x\<rparr>) it = sim_fill_price is s it"
  by (simp add: sim_fill_price_def Let_def split: option.splits)

text \<open>the delivery flag of a configured statutory model has no effect on a BUY: the charge is
  computed on \<open>for_instrument(..., delivery=held_overnight)\<close> with \<open>held_overnight\<close> false, which
  overrides it, so a model configured for delivery prices equity entries at intraday rates.\<close>

theorem configured_delivery_is_ignored:
  assumes "wf_statutory m" and "oi_side it = BUY"
  shows "snd (snd (sim_submit is it (s\<lparr>se_statutory := Some (m\<lparr>sc_delivery := True\<rparr>)\<rparr>))) =
         snd (snd (sim_submit is it (s\<lparr>se_statutory := Some (m\<lparr>sc_delivery := False\<rparr>)\<rparr>)))"
proof -
  have "for_instrument k (Some False) (m\<lparr>sc_delivery := True\<rparr>) = for_instrument k (Some False) (m\<lparr>sc_delivery := False\<rparr>)" for k
    using assms(1) by (auto simp: for_instrument_def indian_statutory_costs_def wf_statutory_def wf_rates_def Let_def)
  then show ?thesis
    using assms(2)
    by (cases "sim_fill_price is s it")
      (simp_all add: sim_submit_def sim_fill_def sim_statutory_def held_overnight_def Let_def)
qed

theorem configured_delivery_is_ignored_witness:
  "snd (snd (sim_submit tcs_book buy_intent (sim_default\<lparr>se_statutory := Some (default_statutory\<lparr>sc_delivery := True\<rparr>)\<rparr>))) =
   snd (snd (sim_submit tcs_book buy_intent (sim_default\<lparr>se_statutory := Some (default_statutory\<lparr>sc_delivery := False\<rparr>)\<rparr>)))"
  by (rule configured_delivery_is_ignored [OF default_statutory_wf]) (simp add: intent_examples)

text \<open>entries are never forgotten.  After a BUY and a SELL of the symbol (which may have
  closed the position), a further SELL on a later date than the BUY, a short sale, is still taken
  for the exit of a position held overnight and priced on the delivery schedule.\<close>

theorem closed_entry_still_delivery:
  assumes "se_statutory s \<noteq> None" and "se_delivery_detection s"
    and "oi_side b = BUY" and "oi_side x = SELL" and "oi_side y = SELL"
    and "oi_symbol x = oi_symbol b" and "oi_symbol y = oi_symbol b"
    and "date_of (ts b) < date_of (ts y)"
    and "sim_submit is b s = (None, s1, ms1)" and "sim_submit is2 x s1 = (None, s2, ms2)"
  shows "held_overnight s2 y"
proof -
  have "map_of (se_entry_date s1) (oi_symbol b) = Some (date_of (ts b))"
    and s1: "se_statutory s1 \<noteq> None" "se_delivery_detection s1"
    using assms(1-3) assms(9) by (auto elim!: sim_submit_SomeD simp: note_entry_def)
  then have "map_of (se_entry_date s2) (oi_symbol b) = Some (date_of (ts b))"
    using assms(4,10) by (auto elim!: sim_submit_SomeD simp: note_entry_def)
  moreover have "se_statutory s2 \<noteq> None" "se_delivery_detection s2"
    using s1 assms(10) by (auto elim!: sim_submit_SomeD)
  ultimately show ?thesis using assms(5,7,8) by (simp add: held_overnight_def)
qed

theorem closed_entry_still_delivery_witness:
  "\<exists>s1 s2 ms1 ms2. sim_submit tcs_book buy_intent sim_default = (None, s1, ms1) \<and>
     sim_submit tcs_book (sell_next_day\<lparr>ts := naive 60\<rparr>) s1 = (None, s2, ms2) \<and>
     held_overnight s2 sell_next_day"
proof -
  have p1: "sim_fill_price tcs_book sim_default buy_intent = Inr 100"
    and p2: "\<And>s. sim_fill_price tcs_book s (sell_next_day\<lparr>ts := naive 60\<rparr>) = Inr 110"
    by (subst limit_fill_price; simp add: intent_examples)+
  obtain s1 ms1 where e1: "sim_submit tcs_book buy_intent sim_default = (None, s1, ms1)"
    using sim_submit_accept [OF p1] by blast
  obtain s2 ms2 where e2: "sim_submit tcs_book (sell_next_day\<lparr>ts := naive 60\<rparr>) s1 = (None, s2, ms2)"
    using sim_submit_accept [OF p2] by blast
  have "held_overnight s2 sell_next_day"
    by (rule closed_entry_still_delivery [OF _ _ _ _ _ _ _ _ e1 e2])
      (simp_all add: intent_examples sim_default_def new_sim_exec_def date_of_def naive_def)
  with e1 e2 show ?thesis by blast
qed

end
