(* ===== verification/Guard.thy ===== *)
theory Guard
  imports Prelude
begin

text \<open>
  \<open>ntrade/execution/_guard.py\<close>: the idempotency guard for order submissions, the circuit breaker
  and the TOTP cooldown guard.  Every operation holds its object's lock from start to end, so
  calls of different threads are a sequence of these operations; the clock reading of an
  operation is an argument.
\<close>

section \<open>Idempotency guard\<close>

record ('k, 'v) guard =
  reserved :: "'k set"
  completed :: "('k, 'v) dict"
  insertion_order :: "'k list"
  max_entries :: nat

definition new_guard :: "nat \<Rightarrow> ('k, 'v) guard" where
  "new_guard n = \<lparr>reserved = {}, completed = [], insertion_order = [], max_entries = n\<rparr>"

datatype 'v reservation = Reserved | IdempotencyDuplicate 'v

definition check_and_reserve ::
  "'k \<Rightarrow> ('k, 'v) guard \<Rightarrow> (py_error + 'v reservation) \<times> ('k, 'v) guard" where
  "check_and_reserve k g =
     (case map_of (completed g) k of
        Some v \<Rightarrow> (Inr (IdempotencyDuplicate v), g)
      | None \<Rightarrow>
          if k \<in> reserved g then (Inl (RuntimeError ''idempotency key is already reserved''), g)
          else (Inr Reserved, g\<lparr>reserved := insert k (reserved g)\<rparr>))"

text \<open>The eviction loop: drop the oldest key while there are more than \<open>max_entries\<close>.\<close>

fun evict :: "nat \<Rightarrow> 'k list \<Rightarrow> ('k, 'v) dict \<Rightarrow> 'k list \<times> ('k, 'v) dict" where
  "evict n [] d = ([], d)"
| "evict n (k # ks) d = (if length (k # ks) > n then evict n ks (AList.delete k d) else (k # ks, d))"

definition evict_if_over_cap :: "('k, 'v) guard \<Rightarrow> ('k, 'v) guard" where
  "evict_if_over_cap g =
     (case evict (max_entries g) (insertion_order g) (completed g) of
        (ks, d) \<Rightarrow> g\<lparr>insertion_order := ks, completed := d\<rparr>)"

definition record_result :: "'k \<Rightarrow> 'v \<Rightarrow> ('k, 'v) guard \<Rightarrow> ('k, 'v) guard" where
  "record_result k v g =
     (let g = (if map_of (completed g) k = None
               then g\<lparr>completed := AList.update k v (completed g),
                      insertion_order := insertion_order g @ [k]\<rparr>
               else g)
      in evict_if_over_cap (g\<lparr>reserved := reserved g - {k}\<rparr>))"

definition release :: "'k \<Rightarrow> ('k, 'v) guard \<Rightarrow> ('k, 'v) guard" where
  "release k g = g\<lparr>reserved := reserved g - {k}\<rparr>"

section \<open>Circuit breaker\<close>

datatype circuit_state = Circuit_CLOSED | Circuit_OPEN | Circuit_HALF_OPEN

record breaker =
  failure_threshold :: nat
  cooldown_seconds :: real
  cb_state :: circuit_state
  failures :: nat
  opened_at :: real
  half_open_probes :: nat
  killed :: bool

definition new_breaker :: "nat \<Rightarrow> real \<Rightarrow> breaker" where
  "new_breaker threshold cooldown =
     \<lparr>failure_threshold = threshold, cooldown_seconds = cooldown, cb_state = Circuit_CLOSED, failures = 0,
      opened_at = 0, half_open_probes = 0, killed = False\<rparr>"

definition should_attempt_reset :: "real \<Rightarrow> breaker \<Rightarrow> bool" where
  "should_attempt_reset now b \<longleftrightarrow> now - opened_at b \<ge> cooldown_seconds b"

definition maybe_reset :: "real \<Rightarrow> breaker \<Rightarrow> bool \<times> breaker" where
  "maybe_reset now b =
     (if cb_state b = Circuit_OPEN \<and> should_attempt_reset now b
      then (True, b\<lparr>cb_state := Circuit_HALF_OPEN, half_open_probes := 0\<rparr>)
      else (False, b))"

definition on_success :: "breaker \<Rightarrow> breaker" where
  "on_success b =
     (if killed b then b
      else b\<lparr>cb_state := Circuit_CLOSED, failures := 0, half_open_probes := 0\<rparr>)"

definition on_failure :: "real \<Rightarrow> breaker \<Rightarrow> breaker" where
  "on_failure now b =
     (let b = b\<lparr>failures := Suc (failures b)\<rparr>
      in if failures b \<ge> failure_threshold b then b\<lparr>cb_state := Circuit_OPEN, opened_at := now\<rparr> else b)"

definition trip_kill :: "real \<Rightarrow> breaker \<Rightarrow> breaker" where
  "trip_kill now b =
     b\<lparr>killed := True, cb_state := Circuit_OPEN, opened_at := now, failures := failure_threshold b\<rparr>"

definition release_kill :: "breaker \<Rightarrow> breaker" where
  "release_kill b = b\<lparr>killed := False\<rparr>"

section \<open>TOTP cooldown\<close>

text \<open>
  The shared state is the JSON file: \<open>None\<close> when it is absent or unreadable, otherwise its two
  timestamps (already read through \<open>data.get\<close>, with \<open>rate_limited_at\<close> as the fallback of the
  first).  Values below \<open>10 ^ 9\<close> are not wall-clock times and read as absent.
\<close>

record totp_file =
  tf_last_attempt_at :: "real option"
  tf_last_success_at :: "real option"
  tf_rate_limited_at :: "real option"

record totp =
  tp_cooldown :: real
  tp_last_attempt_at :: "real option"
  tp_last_success_at :: "real option"

definition coerce_wall_clock :: "real option \<Rightarrow> real option" where
  "coerce_wall_clock v =
     (case v of None \<Rightarrow> None | Some t \<Rightarrow> if t < 1000000000 then None else Some t)"

definition load_state :: "totp_file option \<Rightarrow> totp \<Rightarrow> totp" where
  "load_state f t =
     (case f of
        None \<Rightarrow> t\<lparr>tp_last_attempt_at := None, tp_last_success_at := None\<rparr>
      | Some d \<Rightarrow>
          t\<lparr>tp_last_attempt_at :=
              (case coerce_wall_clock (tf_last_attempt_at d) of
                 None \<Rightarrow> coerce_wall_clock (tf_rate_limited_at d) | Some x \<Rightarrow> Some x),
            tp_last_success_at := coerce_wall_clock (tf_last_success_at d)\<rparr>)"

definition persist_state :: "totp \<Rightarrow> totp_file" where
  "persist_state t =
     \<lparr>tf_last_attempt_at = tp_last_attempt_at t, tf_last_success_at = tp_last_success_at t,
      tf_rate_limited_at = None\<rparr>"

definition totp_remaining :: "real \<Rightarrow> totp \<Rightarrow> real" where
  "totp_remaining now t =
     (case tp_last_attempt_at t of None \<Rightarrow> 0 | Some a \<Rightarrow> max 0 (tp_cooldown t - (now - a)))"

definition check_allowed :: "real \<Rightarrow> totp \<times> totp_file option \<Rightarrow> (real + unit) \<times> totp \<times> totp_file option" where
  "check_allowed now tf =
     (case tf of (t, f) \<Rightarrow>
        (let t = load_state f t; rem = totp_remaining now t
         in (if rem > 0 then Inl rem else Inr (), t, f)))"

text \<open>\<open>acquire_attempt\<close>: the remaining seconds of the raised error, or the reserved time.\<close>

definition acquire_attempt ::
  "real \<Rightarrow> totp \<times> totp_file option \<Rightarrow> (real + real) \<times> totp \<times> totp_file option" where
  "acquire_attempt now tf =
     (case tf of (t, f) \<Rightarrow>
        (let t = load_state f t; rem = totp_remaining now t
         in if rem > 0 then (Inl rem, t, f)
            else (let t = t\<lparr>tp_last_attempt_at := Some now\<rparr> in (Inr now, t, Some (persist_state t)))))"

definition record_success :: "real \<Rightarrow> totp \<times> totp_file option \<Rightarrow> totp \<times> totp_file option" where
  "record_success now tf =
     (case tf of (t, f) \<Rightarrow>
        (let t = (load_state f t)\<lparr>tp_last_attempt_at := Some now, tp_last_success_at := Some now\<rparr>
         in (t, Some (persist_state t))))"

section \<open>The idempotency contract\<close>

definition wf_guard :: "('k, 'v) guard \<Rightarrow> bool" where
  "wf_guard g \<longleftrightarrow> distinct (insertion_order g) \<and> set (insertion_order g) = set (keys (completed g)) \<and>
     distinct (keys (completed g)) \<and> length (insertion_order g) \<le> max_entries g \<and>
     reserved g \<inter> set (keys (completed g)) = {}"

lemma evict_spec:
  "evict n ks d = (ks', d') \<Longrightarrow>
   ks' = drop (length ks - n) ks \<and>
   (\<forall>k. map_of d' k = (if k \<in> set (take (length ks - n) ks) then None else map_of d k)) \<and>
   set (keys d') = set (keys d) - set (take (length ks - n) ks) \<and>
   (distinct (keys d) \<longrightarrow> distinct (keys d'))"
proof (induction n ks d arbitrary: ks' d' rule: evict.induct)
  case (1 n d)
  then show ?case by simp
next
  case (2 n k ks d)
  show ?case
  proof (cases "length (k # ks) > n")
    case True
    then have s: "length (k # ks) - n = Suc (length ks - n)" by auto
    from 2(1) [OF True, of ks' d'] 2(2) True show ?thesis
      unfolding s by auto
  next
    case False
    with 2(2) show ?thesis by auto
  qed
qed

lemma evict_if_over_cap_facts:
  assumes "distinct (insertion_order g)" "set (insertion_order g) = set (keys (completed g))"
    "distinct (keys (completed g))"
  shows "insertion_order (evict_if_over_cap g) = last_n (max_entries g) (insertion_order g)"
    "map_of (completed (evict_if_over_cap g)) k =
       (if k \<in> set (last_n (max_entries g) (insertion_order g)) then map_of (completed g) k else None)"
    "set (keys (completed (evict_if_over_cap g))) = set (last_n (max_entries g) (insertion_order g))"
    "distinct (keys (completed (evict_if_over_cap g)))"
    "reserved (evict_if_over_cap g) = reserved g" "max_entries (evict_if_over_cap g) = max_entries g"
proof -
  obtain ks d where e: "evict (max_entries g) (insertion_order g) (completed g) = (ks, d)" by fastforce
  note sp = evict_spec [OF e]
  let ?n = "length (insertion_order g) - max_entries g"
  have split: "set (insertion_order g) = set (take ?n (insertion_order g)) \<union> set (drop ?n (insertion_order g))"
    by (metis append_take_drop_id set_append)
  have disj: "set (take ?n (insertion_order g)) \<inter> set (drop ?n (insertion_order g)) = {}"
    using assms(1) by (metis append_take_drop_id distinct_append)
  show "insertion_order (evict_if_over_cap g) = last_n (max_entries g) (insertion_order g)"
    using sp by (simp add: evict_if_over_cap_def e last_n_def)
  show keys: "set (keys (completed (evict_if_over_cap g))) = set (last_n (max_entries g) (insertion_order g))"
    using sp split disj assms(2) by (auto simp: evict_if_over_cap_def e last_n_def)
  show "map_of (completed (evict_if_over_cap g)) k =
       (if k \<in> set (last_n (max_entries g) (insertion_order g)) then map_of (completed g) k else None)"
  proof (cases "k \<in> set (keys (completed g))")
    case True
    then show ?thesis
      using sp split disj assms(2) by (auto simp: evict_if_over_cap_def e last_n_def)
  next
    case False
    then have "map_of (completed g) k = None" by (simp add: map_of_eq_None_iff)
    then show ?thesis using sp by (simp add: evict_if_over_cap_def e)
  qed
  show "distinct (keys (completed (evict_if_over_cap g)))"
    using sp assms(3) by (simp add: evict_if_over_cap_def e)
  show "reserved (evict_if_over_cap g) = reserved g" "max_entries (evict_if_over_cap g) = max_entries g"
    by (simp_all add: evict_if_over_cap_def e)
qed

lemma evict_if_over_cap_wf:
  assumes "distinct (insertion_order g)" "set (insertion_order g) = set (keys (completed g))"
    "distinct (keys (completed g))" "reserved g \<inter> set (keys (completed g)) = {}"
  shows "wf_guard (evict_if_over_cap g)"
proof -
  have "set (last_n (max_entries g) (insertion_order g)) \<subseteq> set (keys (completed g))"
    using set_last_n [of "max_entries g" "insertion_order g"] assms(2) by simp
  moreover have "distinct (last_n (max_entries g) (insertion_order g))"
    unfolding last_n_def using assms(1) by (rule distinct_drop)
  ultimately show ?thesis
    unfolding wf_guard_def evict_if_over_cap_facts [OF assms(1-3)] using assms(4)
      evict_if_over_cap_facts(4) [OF assms(1-3)] by auto
qed

lemma record_result_facts:
  assumes "wf_guard g"
  shows "wf_guard (record_result k v g)"
    "reserved (record_result k v g) = reserved g - {k}"
    "max_entries (record_result k v g) = max_entries g"
    "0 < max_entries g \<Longrightarrow> map_of (completed g) k = None \<Longrightarrow> map_of (completed (record_result k v g)) k = Some v"
    "map_of (completed g) k \<noteq> None \<Longrightarrow> completed (record_result k v g) = completed g"
    "map_of (completed g) k = None \<Longrightarrow> k' \<noteq> k \<Longrightarrow> map_of (completed (record_result k v g)) k' \<noteq> None \<Longrightarrow>
       map_of (completed (record_result k v g)) k' = map_of (completed g) k'"
proof -
  let ?g1 = "if map_of (completed g) k = None
      then g\<lparr>completed := AList.update k v (completed g), insertion_order := insertion_order g @ [k]\<rparr> else g"
  let ?g2 = "?g1\<lparr>reserved := reserved ?g1 - {k}\<rparr>"
  have r: "record_result k v g = evict_if_over_cap ?g2" by (simp add: record_result_def Let_def)
  have pre: "distinct (insertion_order ?g2)" "set (insertion_order ?g2) = set (keys (completed ?g2))"
    "distinct (keys (completed ?g2))"
    using assms by (auto simp: wf_guard_def map_of_eq_None_iff)
  note ev = evict_if_over_cap_facts [OF pre]
  show "reserved (record_result k v g) = reserved g - {k}"
    "max_entries (record_result k v g) = max_entries g"
    unfolding r ev by simp_all
  have "reserved ?g2 \<inter> set (keys (completed ?g2)) = {}"
    using assms by (auto simp: wf_guard_def)
  then show "wf_guard (record_result k v g)"
    unfolding r by (rule evict_if_over_cap_wf [OF pre])
  show "map_of (completed (record_result k v g)) k = Some v"
    if "0 < max_entries g" "map_of (completed g) k = None"
    unfolding r ev using that by (simp add: last_n_snoc)
  show "completed (record_result k v g) = completed g" if "map_of (completed g) k \<noteq> None"
  proof -
    have "length (insertion_order g) \<le> max_entries g" using assms by (simp add: wf_guard_def)
    then have "evict (max_entries g) (insertion_order g) (completed g) = (insertion_order g, completed g)"
      by (cases "insertion_order g") auto
    then show ?thesis using that by (auto simp: r evict_if_over_cap_def)
  qed
  show "map_of (completed (record_result k v g)) k' = map_of (completed g) k'"
    if "map_of (completed g) k = None" "k' \<noteq> k" "map_of (completed (record_result k v g)) k' \<noteq> None"
    using that(3) unfolding r ev using that(1,2) by (auto split: if_splits)
qed

lemma check_and_reserve_wf: "wf_guard g \<Longrightarrow> wf_guard (snd (check_and_reserve k g))"
  by (auto simp: check_and_reserve_def wf_guard_def map_of_eq_None_iff split: option.splits)

lemma release_wf: "wf_guard g \<Longrightarrow> wf_guard (release k g)"
  by (auto simp: release_def wf_guard_def)

text \<open>The operations other callers may run while a key is held.\<close>

datatype ('k, 'v) guard_op = Op_check 'k | Op_record 'k 'v | Op_release 'k

fun guard_step :: "('k, 'v) guard_op \<Rightarrow> ('k, 'v) guard \<Rightarrow> ('k, 'v) guard" where
  "guard_step (Op_check k) g = snd (check_and_reserve k g)"
| "guard_step (Op_record k v) g = record_result k v g"
| "guard_step (Op_release k) g = release k g"

fun touches :: "'k \<Rightarrow> ('k, 'v) guard_op \<Rightarrow> bool" where
  "touches k (Op_check _) = False"
| "touches k (Op_record k' _) = (k' = k)"
| "touches k (Op_release k') = (k' = k)"

lemma guard_step_wf: "wf_guard g \<Longrightarrow> wf_guard (guard_step op g)"
  by (cases op) (auto simp: check_and_reserve_wf release_wf record_result_facts(1))

lemma guard_step_keeps_reserved:
  assumes "wf_guard g" "k \<in> reserved g" "\<not> touches k op"
  shows "k \<in> reserved (guard_step op g)"
proof (cases op)
  case (Op_check k')
  then show ?thesis using assms by (auto simp: check_and_reserve_def split: option.splits)
next
  case (Op_record k' v)
  then show ?thesis using assms record_result_facts(2) [OF assms(1), of k' v] by auto
next
  case (Op_release k')
  then show ?thesis using assms by (auto simp: release_def)
qed

lemma guard_run_keeps_reserved:
  "wf_guard g \<Longrightarrow> k \<in> reserved g \<Longrightarrow> list_all (\<lambda>op. \<not> touches k op) ops \<Longrightarrow>
   wf_guard (fold guard_step ops g) \<and> k \<in> reserved (fold guard_step ops g)"
  by (induction ops arbitrary: g) (auto simp: guard_step_wf guard_step_keeps_reserved)

section \<open>Properties of the guard\<close>

text \<open>a reservation is exclusive.  Once \<open>check_and_reserve\<close> has reserved a key, then whatever
  other callers do in the meantime, as long as nobody records a result for the key or releases
  it, every further attempt on the key raises.\<close>

theorem reservation_exclusive:
  assumes "wf_guard g" and "check_and_reserve k g = (Inr Reserved, g')"
    and "list_all (\<lambda>op. \<not> touches k op) ops"
  shows "\<exists>m. check_and_reserve k (fold guard_step ops g') = (Inl (RuntimeError m), fold guard_step ops g')"
proof -
  have r: "k \<in> reserved g'" and w: "wf_guard g'"
    using assms(2) check_and_reserve_wf [OF assms(1), of k]
    by (auto simp: check_and_reserve_def split: option.splits if_splits)
  have "k \<in> reserved (fold guard_step ops g')" "wf_guard (fold guard_step ops g')"
    using guard_run_keeps_reserved [OF w r assms(3)] by simp_all
  moreover from this have "map_of (completed (fold guard_step ops g')) k = None"
    by (auto simp: wf_guard_def map_of_eq_None_iff)
  ultimately show ?thesis by (simp add: check_and_reserve_def)
qed

text \<open>results are recorded once and remembered within a bounded memory.  With room for at
  least one entry, recording the first result of a key makes every later check of the key return
  that result as a duplicate without reserving it, a second recording does not change it, the
  number of remembered results never exceeds the bound, and a key that another recording does
  not evict keeps its result.\<close>

theorem result_recorded_once:
  assumes "wf_guard g" and "0 < max_entries g" and "map_of (completed g) k = None"
  shows "check_and_reserve k (record_result k v g) = (Inr (IdempotencyDuplicate v), record_result k v g) \<and>
    completed (record_result k v' (record_result k v g)) = completed (record_result k v g) \<and>
    length (completed (record_result k v g)) \<le> max_entries g \<and>
    (\<forall>k' w. map_of (completed (record_result k v g)) k' = Some w \<and> k' \<noteq> k \<longrightarrow> map_of (completed g) k' = Some w)"
proof -
  have c: "map_of (completed (record_result k v g)) k = Some v"
    by (rule record_result_facts(4) [OF assms])
  have wf: "wf_guard (record_result k v g)" by (rule record_result_facts(1) [OF assms(1)])
  have "length (completed (record_result k v g)) = card (set (keys (completed (record_result k v g))))"
    using wf by (metis distinct_card length_map wf_guard_def)
  also have "\<dots> = length (insertion_order (record_result k v g))"
    using wf by (metis distinct_card wf_guard_def)
  also have "\<dots> \<le> max_entries g"
    using wf record_result_facts(3) [OF assms(1), of k v] by (simp add: wf_guard_def)
  finally have l: "length (completed (record_result k v g)) \<le> max_entries g" .
  show ?thesis
    using c l record_result_facts(5) [OF wf, of k v'] record_result_facts(6) [OF assms(1,3), of _ v]
    by (auto simp: check_and_reserve_def)
qed

text \<open>A remembered key with at most \<open>n\<close> keys remembered after it.\<close>

definition recent :: "'k \<Rightarrow> nat \<Rightarrow> ('k, 'v) guard \<Rightarrow> bool" where
  "recent k n g \<longleftrightarrow> (\<exists>xs ys. insertion_order g = xs @ k # ys \<and> length ys \<le> n)"

lemma last_n_keeps: "length zs \<le> n \<Longrightarrow> last_n n (xs @ zs) = last_n (n - length zs) xs @ zs"
  by (simp add: last_n_def)

lemma recent_remembered: "wf_guard g \<Longrightarrow> recent k n g \<Longrightarrow> map_of (completed g) k \<noteq> None"
  by (auto simp: recent_def wf_guard_def map_of_eq_None_iff)

lemma recent_mono: "recent k n g \<Longrightarrow> n \<le> m \<Longrightarrow> recent k m g"
  by (fastforce simp: recent_def)

lemma record_result_order:
  assumes "wf_guard g"
  shows "insertion_order (record_result k v g) =
    (if map_of (completed g) k = None then last_n (max_entries g) (insertion_order g @ [k])
     else insertion_order g)"
proof -
  let ?g1 = "if map_of (completed g) k = None
      then g\<lparr>completed := AList.update k v (completed g), insertion_order := insertion_order g @ [k]\<rparr> else g"
  let ?g2 = "?g1\<lparr>reserved := reserved ?g1 - {k}\<rparr>"
  have pre: "distinct (insertion_order ?g2)" "set (insertion_order ?g2) = set (keys (completed ?g2))"
    "distinct (keys (completed ?g2))"
    using assms by (auto simp: wf_guard_def map_of_eq_None_iff)
  have "insertion_order (record_result k v g) = last_n (max_entries ?g2) (insertion_order ?g2)"
    using evict_if_over_cap_facts(1) [OF pre] by (simp add: record_result_def Let_def)
  then show ?thesis using assms by (auto simp: wf_guard_def last_n_def)
qed

lemma record_result_recent:
  assumes "wf_guard g" and "recent k n g" and "Suc n < max_entries g"
  shows "recent k (Suc n) (record_result k' v g)"
proof (cases "map_of (completed g) k' = None")
  case True
  obtain xs ys where xs: "insertion_order g = xs @ k # ys" "length ys \<le> n"
    using assms(2) by (auto simp: recent_def)
  have "insertion_order (record_result k' v g) = last_n (max_entries g) (xs @ k # (ys @ [k']))"
    using record_result_order [OF assms(1)] True xs by simp
  also have "\<dots> = last_n (max_entries g - length (k # (ys @ [k']))) xs @ k # (ys @ [k'])"
    by (rule last_n_keeps) (use xs(2) assms(3) in simp)
  finally show ?thesis using xs(2) unfolding recent_def by fastforce
next
  case False
  then have "insertion_order (record_result k' v g) = insertion_order g"
    using record_result_order [OF assms(1), of k' v] by (auto split: if_splits)
  with recent_mono [OF assms(2), of "Suc n"] show ?thesis by (simp add: recent_def)
qed

lemma record_result_newest:
  assumes "wf_guard g" and "0 < max_entries g" and "map_of (completed g) k = None"
  shows "recent k 0 (record_result k v g)"
  using record_result_order [OF assms(1), of k v] assms(2,3) by (simp add: recent_def last_n_snoc)

lemma check_and_reserve_recent: "recent k n g \<Longrightarrow> recent k n (snd (check_and_reserve k' g))"
  by (auto simp: check_and_reserve_def recent_def split: option.splits)

lemma release_recent: "recent k n g \<Longrightarrow> recent k n (release k' g)"
  by (simp add: release_def recent_def)

section \<open>Properties of the circuit breaker and the TOTP guard\<close>

datatype breaker_op = Op_success | Op_failure real | Op_reset real

fun breaker_step :: "breaker_op \<Rightarrow> breaker \<Rightarrow> breaker" where
  "breaker_step Op_success b = on_success b"
| "breaker_step (Op_failure t) b = on_failure t b"
| "breaker_step (Op_reset t) b = snd (maybe_reset t b)"

lemma killed_run:
  "killed b \<Longrightarrow> cb_state b \<noteq> Circuit_CLOSED \<Longrightarrow>
   killed (fold breaker_step ops b) \<and> cb_state (fold breaker_step ops b) \<noteq> Circuit_CLOSED"
proof (induction ops arbitrary: b)
  case Nil
  then show ?case by simp
next
  case (Cons op ops)
  have "killed (breaker_step op b) \<and> cb_state (breaker_step op b) \<noteq> Circuit_CLOSED"
    using Cons.prems
    by (cases op) (auto simp: on_success_def on_failure_def maybe_reset_def Let_def)
  with Cons.IH show ?case by simp
qed

text \<open>the kill latch holds.  After \<open>trip_kill\<close> no sequence of successes, failures and probe
  resets closes the circuit; after \<open>release_kill\<close> one success does.\<close>

theorem kill_latch_holds:
  "cb_state (fold breaker_step ops (trip_kill t b)) \<noteq> Circuit_CLOSED \<and>
   cb_state (on_success (release_kill (fold breaker_step ops (trip_kill t b)))) = Circuit_CLOSED"
  using killed_run [of "trip_kill t b" ops] by (simp add: trip_kill_def on_success_def release_kill_def)

lemma failures_run:
  "\<not> killed b \<Longrightarrow> failures b + length ts < failure_threshold b \<Longrightarrow> cb_state b = Circuit_CLOSED \<Longrightarrow>
   cb_state (fold on_failure ts b) = Circuit_CLOSED \<and> failures (fold on_failure ts b) = failures b + length ts \<and>
   failure_threshold (fold on_failure ts b) = failure_threshold b"
  by (induction ts arbitrary: b) (auto simp: on_failure_def Let_def)

text \<open>the breaker opens exactly at its threshold.  A closed breaker with no failures stays
  closed through any run of consecutive failures shorter than the threshold and opens with the
  failure that reaches it, at the time of that failure; while it is open a probe is refused until
  the cooldown has elapsed and granted from then on, and one success after the probe closes it.\<close>

theorem breaker_opens_at_threshold:
  assumes "cb_state b = Circuit_CLOSED" and "failures b = 0" and "\<not> killed b"
    and "length ts + 1 = failure_threshold b"
  shows "cb_state (fold on_failure ts b) = Circuit_CLOSED \<and>
    cb_state (fold on_failure (ts @ [t]) b) = Circuit_OPEN \<and>
    opened_at (fold on_failure (ts @ [t]) b) = t \<and>
    (fst (maybe_reset now (fold on_failure (ts @ [t]) b)) \<longleftrightarrow>
      t + cooldown_seconds (fold on_failure (ts @ [t]) b) \<le> now)"
proof -
  have "cb_state (fold on_failure ts b) = Circuit_CLOSED \<and> failures (fold on_failure ts b) = length ts \<and>
      failure_threshold (fold on_failure ts b) = failure_threshold b"
    using failures_run [of b ts] assms by simp
  then show ?thesis
    using assms(4) by (auto simp: on_failure_def maybe_reset_def should_attempt_reset_def Let_def)
qed

text \<open>TOTP attempts are spaced.  After an attempt was granted at a wall-clock time, any later
  attempt by any process sharing the state file is refused before the cooldown has passed, with
  the remaining time as the error's payload, and granted after it; a refused attempt leaves the
  file unchanged.\<close>

theorem totp_attempts_spaced:
  assumes "acquire_attempt t1 (g, f) = (Inr t1', g', f')" and "1000000000 \<le> t1" and "t1 \<le> t2"
    and "0 < tp_cooldown g2"
  shows "t1' = t1 \<and>
    (t2 < t1 + tp_cooldown g2 \<longrightarrow>
       fst (acquire_attempt t2 (g2, f')) = Inl (t1 + tp_cooldown g2 - t2) \<and>
       snd (snd (acquire_attempt t2 (g2, f'))) = f') \<and>
    (t1 + tp_cooldown g2 \<le> t2 \<longrightarrow> fst (acquire_attempt t2 (g2, f')) = Inr t2)"
proof -
  have f': "f' = Some \<lparr>tf_last_attempt_at = Some t1, tf_last_success_at = tp_last_success_at (load_state f g),
      tf_rate_limited_at = None\<rparr>" and "t1' = t1"
    using assms(1) by (auto simp: acquire_attempt_def persist_state_def Let_def split: if_splits)
  then show ?thesis
    using assms(2-4)
    by (auto simp: acquire_attempt_def load_state_def coerce_wall_clock_def totp_remaining_def Let_def)
qed

section \<open>Witnesses\<close>

definition guard_2 :: "(nat, string) guard" where
  "guard_2 = new_guard 2"

lemma guard_2_wf: "wf_guard guard_2"
  by (simp add: guard_2_def new_guard_def wf_guard_def)

theorem reservation_exclusive_witness:
  "\<exists>m. fst (check_and_reserve 1 (fold guard_step [Op_record 2 ''x'', Op_check 1]
     (guard_2\<lparr>reserved := {1}\<rparr>))) = Inl (RuntimeError m)"
proof -
  have "check_and_reserve 1 guard_2 = (Inr Reserved, guard_2\<lparr>reserved := {1}\<rparr>)"
    by (simp add: guard_2_def new_guard_def check_and_reserve_def)
  from reservation_exclusive [OF guard_2_wf this, of "[Op_record 2 ''x'', Op_check 1]"]
  show ?thesis by fastforce
qed

theorem result_recorded_once_witness:
  "fst (check_and_reserve 1 (record_result 1 ''ok'' guard_2)) = Inr (IdempotencyDuplicate ''ok'')"
  using result_recorded_once [OF guard_2_wf, of 1 "''ok''"] by (simp add: guard_2_def new_guard_def)

theorem breaker_opens_at_threshold_witness:
  "cb_state (fold on_failure ([1, 2] @ [3]) (new_breaker 3 30)) = Circuit_OPEN"
  using breaker_opens_at_threshold [of "new_breaker 3 30" "[1, 2]" 3] by (simp add: new_breaker_def)

theorem totp_attempts_spaced_witness:
  "\<exists>g' f'. acquire_attempt 1700000000 (\<lparr>tp_cooldown = 120, tp_last_attempt_at = None, tp_last_success_at = None\<rparr>, None)
      = (Inr 1700000000, g', f') \<and>
     fst (acquire_attempt 1700000100 (\<lparr>tp_cooldown = 120, tp_last_attempt_at = None, tp_last_success_at = None\<rparr>, f'))
      = Inl 20"
proof -
  let ?t = "\<lparr>tp_cooldown = 120, tp_last_attempt_at = None, tp_last_success_at = None\<rparr>"
  obtain g' f' where a: "acquire_attempt 1700000000 (?t, None) = (Inr 1700000000, g', f')"
    by (simp add: acquire_attempt_def load_state_def totp_remaining_def Let_def)
  show ?thesis using a totp_attempts_spaced [OF a, of 1700000100 ?t] by simp
qed

end
