(* ===== verification/BrokerExec.thy ===== *)
theory BrokerExec
  imports Orders SimExec Guard
begin

text \<open>
  \<open>ntrade/execution/broker_executor.py\<close>: \<open>BrokerExecution\<close>, which places orders through a broker
  adapter, tracks the open ones and turns what the broker reports into events.

  The adapter is a parameter (\<open>adapter\<close>): its operations on its own state \<open>'b\<close>, each returning the
  order as the call leaves it or the exception.  Orders are values; the tracker keeps the copy it
  was given.  \<open>bx_cancel_on_timeout\<close> says whether the live runner is subscribed to order timeouts
  (its handler, \<open>LiveRunner._on_order_timeout\<close>, cancels the order while the event is being
  dispatched).  The messages of an operation are listed in publish order.
\<close>

section \<open>State\<close>

record 'b adapter =
  ad_place :: "order \<Rightarrow> 'b \<Rightarrow> (py_error + order) \<times> 'b"
  ad_status :: "order \<Rightarrow> 'b \<Rightarrow> (py_error + order) \<times> 'b"
  ad_cancel :: "order \<Rightarrow> 'b \<Rightarrow> (py_error + order) \<times> 'b"
  ad_modify :: "real option \<Rightarrow> int option \<Rightarrow> string option \<Rightarrow> real option \<Rightarrow> order \<Rightarrow> 'b \<Rightarrow> (py_error + order) \<times> 'b"
  ad_orderbook :: "'b \<Rightarrow> (py_error + order_book_entry list) \<times> 'b"

record open_order =
  oo_intent :: order_intent
  oo_order :: order
  oo_filled :: int
  oo_status :: order_status
  oo_placed_at :: datetime
  oo_stale :: nat

record 'b broker_exec =
  bx_broker :: 'b
  bx_commission :: commission_model
  bx_statutory :: "statutory option"
  bx_seq :: nat
  bx_order_timeout_seconds :: real
  bx_open :: "(string, open_order) dict"
  bx_stale_limit :: nat
  bx_idem :: "(string, string) guard"
  bx_breaker :: breaker
  bx_cancel_on_timeout :: bool

text \<open>What the executor reads of its context: instruments, the kernel clock, the monotonic clock.\<close>

record exec_ctx =
  xc_instruments :: instruments
  xc_now :: datetime
  xc_mono :: real

definition new_broker_exec ::
  "'b \<Rightarrow> commission_model option \<Rightarrow> statutory_arg \<Rightarrow> nat \<Rightarrow> real \<Rightarrow> bool \<Rightarrow> 'b broker_exec" where
  "new_broker_exec b commission statutory stale_limit timeout cancel =
     \<lparr>bx_broker = b, bx_commission = some_or commission (FlatCommission 0),
      bx_statutory = resolve_statutory statutory, bx_seq = 0, bx_order_timeout_seconds = timeout,
      bx_open = [], bx_stale_limit = stale_limit, bx_idem = new_guard 50000,
      bx_breaker = new_breaker 15 30, bx_cancel_on_timeout = cancel\<rparr>"

definition update_open :: "string \<Rightarrow> (open_order \<Rightarrow> open_order) \<Rightarrow> 'b broker_exec \<Rightarrow> 'b broker_exec" where
  "update_open oid f s =
     (case map_of (bx_open s) oid of
        None \<Rightarrow> s
      | Some r \<Rightarrow> s\<lparr>bx_open := AList.update oid (f r) (bx_open s)\<rparr>)"

definition drop_open :: "string \<Rightarrow> 'b broker_exec \<Rightarrow> 'b broker_exec" where
  "drop_open oid s = s\<lparr>bx_open := AList.delete oid (bx_open s)\<rparr>"

section \<open>Fills\<close>

definition exec_statutory :: "exec_ctx \<Rightarrow> 'b broker_exec \<Rightarrow> order_intent \<Rightarrow> real \<Rightarrow> real \<Rightarrow> real" where
  "exec_statutory cx s it notional commission =
     (case bx_statutory s of
        None \<Rightarrow> 0
      | Some m \<Rightarrow>
          (let model = (case map_of (xc_instruments cx) (oi_symbol it) of
                          None \<Rightarrow> m | Some ins \<Rightarrow> for_instrument (i_kind ins) None m)
           in py_round 4 (total_cost model notional (oi_side it) (Some commission))))"

definition make_fill ::
  "exec_ctx \<Rightarrow> 'b broker_exec \<Rightarrow> string \<Rightarrow> order_intent \<Rightarrow> int \<Rightarrow> real \<Rightarrow> order_filled" where
  "make_fill cx s oid it qty price =
     (let notional = price * of_int qty;
          commission = py_round 4 (commission_apply (bx_commission s) notional)
      in \<lparr>ts = xc_now cx, of_order_id = oid, of_symbol = oi_symbol it, of_exchange = oi_exchange it,
          of_side = oi_side it, of_quantity = qty, of_fill_price = price, of_commission = commission,
          of_statutory = exec_statutory cx s it notional commission, of_strategy = oi_strategy it\<rparr>)"

definition emit_fill ::
  "exec_ctx \<Rightarrow> string \<Rightarrow> order_intent \<Rightarrow> order \<Rightarrow> 'b broker_exec \<Rightarrow> 'b broker_exec \<times> msg list" where
  "emit_fill cx oid it ord s =
     (let already = (case map_of (bx_open s) oid of None \<Rightarrow> 0 | Some r \<Rightarrow> oo_filled r);
          new_qty = od_filled_qty ord - already;
          price = num_or (od_avg_price ord) (num_or (oi_price it) 0)
      in if new_qty \<le> 0 then (s, [])
         else if price \<le> 0 then (s, [])
         else (update_open oid (\<lambda>r. r\<lparr>oo_filled := oo_filled r + new_qty\<rparr>) s,
               [OrderFilledEvent (make_fill cx s oid it new_qty price)]))"

section \<open>Submission\<close>

definition brk_id :: "nat \<Rightarrow> string" where
  "brk_id n = ''BRK-'' @ pad_nat 6 n"

text \<open>The search of \<open>_next_brk_id\<close>; at most as many candidates are taken as orders are open.\<close>

primrec next_seq :: "nat \<Rightarrow> nat \<Rightarrow> string list \<Rightarrow> nat" where
  "next_seq 0 n taken = Suc n"
| "next_seq (Suc k) n taken = (if brk_id (Suc n) \<notin> set taken then Suc n else next_seq k (Suc n) taken)"

definition next_brk_id :: "'b broker_exec \<Rightarrow> string \<times> 'b broker_exec" where
  "next_brk_id s =
     (let n = next_seq (length (bx_open s)) (bx_seq s) (keys (bx_open s))
      in (brk_id n, s\<lparr>bx_seq := n\<rparr>))"

text \<open>\<open>instrument.order.place(...)\<close> with the intent's fields; every exception is caught.\<close>

definition exec_place ::
  "'b adapter \<Rightarrow> instrument \<Rightarrow> order_intent \<Rightarrow> 'b \<Rightarrow> (py_error + order) \<times> 'b" where
  "exec_place ad ins it b =
     (case parse_order_type (upper (oi_order_type it)) of
        Inl e \<Rightarrow> (Inl e, b)
      | Inr ot \<Rightarrow>
          place (Some (\<lambda>o'. ad_place ad (o'\<lparr>od_reference_price := oi_reference_price it\<rparr>))) ins (oi_side it)
            (oi_quantity it) (order_type_value ot) None (oi_price it) 0 0 0 b)"

text \<open>What follows an acceptance: record the result, publish, and track the order unless filled.\<close>

definition usable_id :: "order \<Rightarrow> 'b broker_exec \<Rightarrow> string \<times> 'b broker_exec" where
  "usable_id o' s =
     (let given = some_or (od_order_id o') []
      in if given = [] \<or> given = ''None'' then next_brk_id s else (given, s))"

definition accept_order ::
  "exec_ctx \<Rightarrow> string \<Rightarrow> order_intent \<Rightarrow> order \<Rightarrow> 'b broker_exec \<Rightarrow> 'b broker_exec \<times> msg list" where
  "accept_order cx corr it o' s =
     (case usable_id o' s of (oid, s) \<Rightarrow>
        (let o' = o'\<lparr>od_order_id := Some oid\<rparr>;
             s = s\<lparr>bx_idem := record_result corr oid (bx_idem s)\<rparr>;
             acc = OrderAcceptedEvent (accepted_of oid it)
         in if is_filled o'
            then (case emit_fill cx oid it o' s of (s', ms) \<Rightarrow> (s', acc # ms))
            else (s\<lparr>bx_open := AList.update oid
                      \<lparr>oo_intent = it, oo_order = o', oo_filled = 0, oo_status = od_status o',
                       oo_placed_at = xc_now cx, oo_stale = 0\<rparr> (bx_open s)\<rparr>,
                  [acc])))"

datatype submit_result = Submitted | Rejected order_rejected | Duplicate | SubmitRaised py_error

definition submit ::
  "'b adapter \<Rightarrow> exec_ctx \<Rightarrow> string \<Rightarrow> order_intent \<Rightarrow> 'b broker_exec \<Rightarrow>
   submit_result \<times> 'b broker_exec \<times> msg list" where
  "submit ad cx corr it s =
     (case map_of (xc_instruments cx) (oi_symbol it) of
        None \<Rightarrow> (Rejected (reject_intent ''no broker-backed instrument'' it), s, [])
      | Some ins \<Rightarrow>
          if \<not> i_broker ins then (Rejected (reject_intent ''no broker-backed instrument'' it), s, [])
          else
            (case check_and_reserve corr (bx_idem s) of
               (Inl e, g) \<Rightarrow> (SubmitRaised e, s, [])
             | (Inr (IdempotencyDuplicate _), g) \<Rightarrow> (Duplicate, s, [])
             | (Inr Reserved, g) \<Rightarrow>
                 (case exec_place ad ins it (bx_broker s) of
                    (Inl e, b) \<Rightarrow>
                      (Rejected (reject_intent (error_text e) it),
                       s\<lparr>bx_broker := b, bx_idem := release corr g\<rparr>, [])
                  | (Inr o', b) \<Rightarrow>
                      (case accept_order cx corr it o' (s\<lparr>bx_broker := b, bx_idem := g\<rparr>) of
                         (s', ms) \<Rightarrow> (Submitted, s', ms)))))"

section \<open>Polling\<close>

text \<open>One more failed poll of an order; at the limit it is no longer tracked.\<close>

definition count_stale :: "string \<Rightarrow> 'b broker_exec \<Rightarrow> bool \<times> 'b broker_exec" where
  "count_stale oid s =
     (let s = update_open oid (\<lambda>r. r\<lparr>oo_stale := Suc (oo_stale r)\<rparr>) s
      in case map_of (bx_open s) oid of
           None \<Rightarrow> (False, s)
         | Some r \<Rightarrow> if oo_stale r \<ge> bx_stale_limit s then (True, drop_open oid s) else (False, s))"

definition age_seconds :: "exec_ctx \<Rightarrow> open_order \<Rightarrow> real" where
  "age_seconds cx r = of_int (dt_abs 0 (xc_now cx) - dt_abs 0 (oo_placed_at r)) / of_int US"

definition timeout_step ::
  "'b adapter \<Rightarrow> exec_ctx \<Rightarrow> string \<Rightarrow> 'b broker_exec \<Rightarrow> 'b broker_exec \<times> msg list" where
  "timeout_step ad cx oid s =
     (case map_of (bx_open s) oid of
        None \<Rightarrow> (s, [])
      | Some r \<Rightarrow>
          if od_status (oo_order r) = PENDING \<and> age_seconds cx r > bx_order_timeout_seconds s
          then (let it = oo_intent r;
                    m = OrderTimeoutEvent
                          \<lparr>ts = xc_now cx, ot_order_id = oid, ot_symbol = oi_symbol it,
                           ot_exchange = oi_exchange it, ot_side = oi_side it, ot_quantity = oi_quantity it,
                           ot_age_seconds = age_seconds cx r, ot_strategy = oi_strategy it\<rparr>
                in if bx_cancel_on_timeout s
                   then (case ad_cancel ad (oo_order r) (bx_broker s) of
                           (Inl e, b) \<Rightarrow> (s\<lparr>bx_broker := b\<rparr>, [m])
                         | (Inr o', b) \<Rightarrow> (update_open oid (\<lambda>r. r\<lparr>oo_order := o'\<rparr>) (s\<lparr>bx_broker := b\<rparr>), [m]))
                   else (s, [m]))
          else (s, []))"

definition update_step ::
  "exec_ctx \<Rightarrow> string \<Rightarrow> 'b broker_exec \<Rightarrow> 'b broker_exec \<times> msg list" where
  "update_step cx oid s =
     (case map_of (bx_open s) oid of
        None \<Rightarrow> (s, [])
      | Some r \<Rightarrow>
          (let o' = oo_order r; it = oo_intent r in
           if od_status o' \<noteq> oo_status r
           then (update_open oid (\<lambda>r. r\<lparr>oo_status := od_status o'\<rparr>) s,
                 [OrderUpdatedEvent
                    \<lparr>ts = xc_now cx, ou_order_id = oid, ou_symbol = oi_symbol it, ou_exchange = oi_exchange it,
                     ou_side = oi_side it, ou_status = status_value (od_status o'),
                     ou_filled_qty = od_filled_qty o', ou_avg_price = od_avg_price o',
                     ou_strategy = oi_strategy it\<rparr>])
           else (s, [])))"

definition fill_step :: "exec_ctx \<Rightarrow> string \<Rightarrow> 'b broker_exec \<Rightarrow> 'b broker_exec \<times> msg list" where
  "fill_step cx oid s =
     (case map_of (bx_open s) oid of
        None \<Rightarrow> (s, [])
      | Some r \<Rightarrow> emit_fill cx oid (oo_intent r) (oo_order r) s)"

definition finish_step :: "exec_ctx \<Rightarrow> string \<Rightarrow> 'b broker_exec \<Rightarrow> 'b broker_exec \<times> msg list" where
  "finish_step cx oid s =
     (case map_of (bx_open s) oid of
        None \<Rightarrow> (s, [])
      | Some r \<Rightarrow>
          (let st = od_status (oo_order r); it = oo_intent r; remaining = oi_quantity it - oo_filled r in
           if st = COMPLETED then (drop_open oid s, [])
           else if st = REJECTED \<or> st = CANCELLED
           then (drop_open oid s,
                 if remaining > 0
                 then [OrderRejectedEvent
                        \<lparr>ts = xc_now cx, or_order_id = oid, or_symbol = oi_symbol it,
                         or_exchange = oi_exchange it, or_side = oi_side it, or_quantity = remaining,
                         or_reason = ''order '' @ status_value st, or_strategy = oi_strategy it\<rparr>]
                 else [])
           else (s, [])))"

definition lifecycle ::
  "'b adapter \<Rightarrow> exec_ctx \<Rightarrow> string \<Rightarrow> 'b broker_exec \<Rightarrow> 'b broker_exec \<times> msg list" where
  "lifecycle ad cx oid =
     run_steps [timeout_step ad cx oid, update_step cx oid, fill_step cx oid, finish_step cx oid]"

text \<open>The broker call for one order, and what follows it.\<close>

definition refresh_order ::
  "'b adapter \<Rightarrow> exec_ctx \<Rightarrow> string \<Rightarrow> open_order \<Rightarrow> 'b broker_exec \<Rightarrow> 'b broker_exec \<times> msg list" where
  "refresh_order ad cx oid r s =
     (case ad_status ad (oo_order r) (bx_broker s) of
        (Inr o', b) \<Rightarrow>
          lifecycle ad cx oid
            (update_open oid (\<lambda>r. r\<lparr>oo_order := o', oo_stale := 0\<rparr>)
              (s\<lparr>bx_broker := b, bx_breaker := on_success (bx_breaker s)\<rparr>))
      | (Inl RateLimitedErr, b) \<Rightarrow> (s\<lparr>bx_broker := b\<rparr>, [])
      | (Inl e, b) \<Rightarrow>
          (snd (count_stale oid (s\<lparr>bx_broker := b, bx_breaker := on_failure (xc_mono cx) (bx_breaker s)\<rparr>)), []))"

definition poll_order ::
  "'b adapter \<Rightarrow> exec_ctx \<Rightarrow> string \<Rightarrow> 'b broker_exec \<Rightarrow> 'b broker_exec \<times> msg list" where
  "poll_order ad cx oid s =
     (case map_of (bx_open s) oid of
        None \<Rightarrow> (s, [])
      | Some r \<Rightarrow>
          if cb_state (bx_breaker s) = Circuit_OPEN
          then (case count_stale oid s of
                  (True, s') \<Rightarrow> (s', [])
                | (False, s') \<Rightarrow>
                    (case maybe_reset (xc_mono cx) (bx_breaker s') of
                       (True, br) \<Rightarrow> refresh_order ad cx oid r (s'\<lparr>bx_breaker := br\<rparr>)
                     | (False, _) \<Rightarrow> (s', [])))
          else refresh_order ad cx oid r s)"

definition poll :: "'b adapter \<Rightarrow> exec_ctx \<Rightarrow> 'b broker_exec \<Rightarrow> 'b broker_exec \<times> msg list" where
  "poll ad cx s = run_steps (map (poll_order ad cx) (keys (bx_open s))) s"

text \<open>What \<open>poll\<close> returns: the fills and rejections among what it published.\<close>

fun is_outcome :: "msg \<Rightarrow> bool" where
  "is_outcome (OrderFilledEvent _) = True"
| "is_outcome (OrderRejectedEvent _) = True"
| "is_outcome _ = False"

definition poll_result :: "'b adapter \<Rightarrow> exec_ctx \<Rightarrow> 'b broker_exec \<Rightarrow> msg list" where
  "poll_result ad cx s = filter is_outcome (snd (poll ad cx s))"

section \<open>Kill switch, adoption, recovery\<close>

definition exec_cancel :: "'b adapter \<Rightarrow> string \<Rightarrow> 'b broker_exec \<Rightarrow> (py_error + order) option \<times> 'b broker_exec" where
  "exec_cancel ad oid s =
     (case map_of (bx_open s) oid of
        None \<Rightarrow> (None, s)
      | Some r \<Rightarrow>
          (case ad_cancel ad (oo_order r) (bx_broker s) of
             (Inl e, b) \<Rightarrow> (Some (Inl e), s\<lparr>bx_broker := b\<rparr>)
           | (Inr o', b) \<Rightarrow>
               (Some (Inr o'), update_open oid (\<lambda>r. r\<lparr>oo_order := o'\<rparr>) (s\<lparr>bx_broker := b\<rparr>))))"

definition exec_modify ::
  "'b adapter \<Rightarrow> string \<Rightarrow> real option \<Rightarrow> int option \<Rightarrow> string option \<Rightarrow> real option \<Rightarrow> 'b broker_exec \<Rightarrow>
   (py_error + order) option \<times> 'b broker_exec" where
  "exec_modify ad oid price quantity otype trigger s =
     (case map_of (bx_open s) oid of
        None \<Rightarrow> (None, s)
      | Some r \<Rightarrow>
          (case ad_modify ad price quantity otype trigger (oo_order r) (bx_broker s) of
             (Inl e, b) \<Rightarrow> (Some (Inl e), s\<lparr>bx_broker := b\<rparr>)
           | (Inr o', b) \<Rightarrow>
               (Some (Inr o'), update_open oid (\<lambda>r. r\<lparr>oo_order := o'\<rparr>) (s\<lparr>bx_broker := b\<rparr>))))"

definition trip_kill_switch :: "'b adapter \<Rightarrow> exec_ctx \<Rightarrow> 'b broker_exec \<Rightarrow> 'b broker_exec" where
  "trip_kill_switch ad cx s =
     (let s = fold (\<lambda>oid s. snd (exec_cancel ad oid s)) (keys (bx_open s)) s
      in s\<lparr>bx_breaker := trip_kill (xc_mono cx) (bx_breaker s)\<rparr>)"

definition parse_status :: "string \<Rightarrow> py_error + order_status" where
  "parse_status = parse_enum ''OrderStatus'' status_value [PENDING, COMPLETED, REJECTED, CANCELLED, PARTIALLY_FILLED]"

definition tracked_order :: "instrument \<Rightarrow> order_side \<Rightarrow> int \<Rightarrow> string \<Rightarrow> order_status \<Rightarrow> int \<Rightarrow> order" where
  "tracked_order ins sd qty oid st filled =
     \<lparr>od_symbol = i_symbol ins, od_kind = i_kind ins, od_side = sd, od_quantity = qty,
      od_order_type = LIMIT, od_trade_type = MIS, od_price = 0, od_reference_price = 0,
      od_trigger_price = 0, od_target_price = 0, od_stop_loss_price = 0, od_order_id = Some oid,
      od_status = st, od_filled_qty = filled, od_avg_price = 0\<rparr>"

text \<open>One entry of the broker's order book: the record to adopt it with, if it is to be adopted.\<close>

definition adopt_entry ::
  "exec_ctx \<Rightarrow> string list \<Rightarrow> order_book_entry \<Rightarrow> open_order option" where
  "adopt_entry cx existing e =
     (if ob_order_id e = [] \<or> ob_order_id e \<in> set existing then None
      else if is_terminal (ob_status e) then None
      else (case map_of (xc_instruments cx) (ob_symbol e) of
              None \<Rightarrow> None
            | Some ins \<Rightarrow>
                if \<not> i_broker ins then None
                else (case (parse_side (upper (ob_side e)),
                            if ob_status e \<noteq> [] then parse_status (ob_status e) else Inr PENDING) of
                        (Inr sd, Inr st) \<Rightarrow>
                          Some \<lparr>oo_intent =
                                  \<lparr>ts = xc_now cx, oi_symbol = ob_symbol e,
                                   oi_exchange = (if ob_exchange e = [] then i_exchange ins else ob_exchange e),
                                   oi_side = ob_side e, oi_quantity = ob_quantity e, oi_order_type = ''LIMIT'',
                                   oi_price = ob_price e, oi_reference_price = 0, oi_strategy = []\<rparr>,
                                oo_order = tracked_order ins sd (ob_quantity e) (ob_order_id e) st 0,
                                oo_filled = 0, oo_status = st, oo_placed_at = xc_now cx, oo_stale = 0\<rparr>
                      | _ \<Rightarrow> None)))"

definition reconcile_open ::
  "'b adapter \<Rightarrow> exec_ctx \<Rightarrow> 'b broker_exec \<Rightarrow> (py_error + string list) \<times> 'b broker_exec" where
  "reconcile_open ad cx s =
     (case ad_orderbook ad (bx_broker s) of
        (Inl e, b) \<Rightarrow> (Inl e, s\<lparr>bx_broker := b\<rparr>)
      | (Inr book, b) \<Rightarrow>
          (let existing = keys (bx_open s);
               adopted = List.map_filter
                 (\<lambda>e. map_option (Pair (ob_order_id e)) (adopt_entry cx existing e)) book
           in (Inr (keys adopted),
               s\<lparr>bx_broker := b, bx_open := fold (\<lambda>(oid, r). AList.update oid r) adopted (bx_open s)\<rparr>)))"

text \<open>A recovered order of \<open>EventStore.open_order_deltas()\<close>.\<close>

record order_delta =
  dl_symbol :: string
  dl_exchange :: string
  dl_side :: string
  dl_strategy :: string
  dl_quantity :: int
  dl_filled :: int
  dl_status :: string
  dl_placed_at :: datetime

text \<open>The number after the last dash of an order id, if it is all digits.\<close>

definition is_digit :: "char \<Rightarrow> bool" where
  "is_digit c \<longleftrightarrow> 48 \<le> (of_char c :: nat) \<and> (of_char c :: nat) \<le> 57"

definition trailing_number :: "string \<Rightarrow> nat option" where
  "trailing_number oid =
     (let tok = rev (takeWhile (\<lambda>c. c \<noteq> CHR ''-'') (rev oid))
      in if tok \<noteq> [] \<and> list_all is_digit tok then Some (digits_val tok) else None)"

definition restored_record ::
  "instrument \<Rightarrow> order_side \<Rightarrow> order_status \<Rightarrow> string \<Rightarrow> order_delta \<Rightarrow> open_order" where
  "restored_record ins sd st oid d =
     \<lparr>oo_intent =
        \<lparr>ts = dl_placed_at d, oi_symbol = dl_symbol d, oi_exchange = dl_exchange d,
         oi_side = dl_side d, oi_quantity = dl_quantity d, oi_order_type = ''LIMIT'',
         oi_price = 0, oi_reference_price = 0, oi_strategy = dl_strategy d\<rparr>,
      oo_order = tracked_order ins sd (dl_quantity d) oid st (dl_filled d),
      oo_filled = dl_filled d, oo_status = st, oo_placed_at = dl_placed_at d, oo_stale = 0\<rparr>"

definition restore_one ::
  "exec_ctx \<Rightarrow> string \<Rightarrow> order_delta \<Rightarrow> 'b broker_exec \<Rightarrow> (py_error + bool) \<times> 'b broker_exec" where
  "restore_one cx oid d s =
     (if oid \<in> set (keys (bx_open s)) then (Inr False, s)
      else (case map_of (xc_instruments cx) (dl_symbol d) of
              None \<Rightarrow> (Inr False, s)
            | Some ins \<Rightarrow>
                (case parse_side (upper (dl_side d)) of
                   Inl e \<Rightarrow> (Inl e, s)
                 | Inr sd \<Rightarrow>
                     (case parse_status (dl_status d) of
                        Inl e \<Rightarrow> (Inl e, s)
                      | Inr st \<Rightarrow>
                          (Inr True,
                           s\<lparr>bx_open := AList.update oid (restored_record ins sd st oid d) (bx_open s),
                             bx_seq := (case trailing_number oid of
                                          None \<Rightarrow> bx_seq s | Some k \<Rightarrow> max (bx_seq s) k)\<rparr>)))))"

fun restore_open ::
  "exec_ctx \<Rightarrow> (string, order_delta) dict \<Rightarrow> nat \<Rightarrow> 'b broker_exec \<Rightarrow> (py_error + nat) \<times> 'b broker_exec" where
  "restore_open cx [] n s = (Inr n, s)"
| "restore_open cx ((oid, d) # ds) n s =
     (case restore_one cx oid d s of
        (Inl e, s') \<Rightarrow> (Inl e, s')
      | (Inr restored, s') \<Rightarrow> restore_open cx ds (if restored then Suc n else n) s')"

section \<open>Accounting of fills\<close>

fun fill_qty :: "string \<Rightarrow> msg \<Rightarrow> int" where
  "fill_qty oid (OrderFilledEvent f) = (if of_order_id f = oid then of_quantity f else 0)"
| "fill_qty oid _ = 0"

definition fill_total :: "string \<Rightarrow> msg list \<Rightarrow> int" where
  "fill_total oid ms = (\<Sum>m\<leftarrow>ms. fill_qty oid m)"

lemma fill_total_simps [simp]:
  "fill_total oid [] = 0" "fill_total oid (m # ms) = fill_qty oid m + fill_total oid ms"
  "fill_total oid (ms @ ms') = fill_total oid ms + fill_total oid ms'"
  by (simp_all add: fill_total_def)

lemma map_of_update_open [simp]:
  "map_of (bx_open (update_open oid f s)) oid' =
     (if oid' = oid then map_option f (map_of (bx_open s) oid) else map_of (bx_open s) oid')"
  by (simp add: update_open_def split: option.splits)

lemma map_of_drop_open [simp]:
  "map_of (bx_open (drop_open oid s)) oid' = (if oid' = oid then None else map_of (bx_open s) oid')"
  by (simp add: drop_open_def)

text \<open>
  \<open>accounts oid s ms s'\<close>: while the order is tracked, what was published as filled for it is
  exactly the growth of the tracker's filled quantity; an untracked order is not touched.
\<close>

definition accounts :: "string \<Rightarrow> 'b broker_exec \<Rightarrow> msg list \<Rightarrow> 'b broker_exec \<Rightarrow> bool" where
  "accounts oid s ms s' \<longleftrightarrow>
     (case map_of (bx_open s) oid of
        None \<Rightarrow> map_of (bx_open s') oid = None \<and> fill_total oid ms = 0
      | Some r \<Rightarrow>
          (case map_of (bx_open s') oid of
             None \<Rightarrow> True
           | Some r' \<Rightarrow> oo_filled r' = oo_filled r + fill_total oid ms \<and> oo_intent r' = oo_intent r))"

lemma accounts_refl [simp]: "accounts oid s [] s"
  by (simp add: accounts_def split: option.splits)

lemma accounts_trans: "accounts oid s ms s' \<Longrightarrow> accounts oid s' ms' s'' \<Longrightarrow> accounts oid s (ms @ ms') s''"
  by (cases "map_of (bx_open s) oid"; cases "map_of (bx_open s') oid"; cases "map_of (bx_open s'') oid")
    (simp_all add: accounts_def)

definition step_accounts :: "string \<Rightarrow> ('b broker_exec \<Rightarrow> 'b broker_exec \<times> msg list) \<Rightarrow> bool" where
  "step_accounts oid f \<longleftrightarrow> (\<forall>s s' ms. f s = (s', ms) \<longrightarrow> accounts oid s ms s')"

lemma run_steps_accounts:
  "list_all (step_accounts oid) fs \<Longrightarrow> step_accounts oid (run_steps fs)"
proof (induction fs)
  case Nil
  then show ?case by (simp add: step_accounts_def)
next
  case (Cons f fs)
  show ?case
    unfolding step_accounts_def
  proof (intro allI impI)
    fix s s' ms assume r: "run_steps (f # fs) s = (s', ms)"
    obtain s1 m1 m2 where f: "f s = (s1, m1)" and fs: "run_steps fs s1 = (s', m2)" and ms: "ms = m1 @ m2"
      using r by (auto split: prod.splits)
    show "accounts oid s ms s'"
      unfolding ms using Cons f fs by (intro accounts_trans) (auto simp: step_accounts_def)
  qed
qed

lemma make_fill_fields [simp]:
  "of_order_id (make_fill cx s oid it q p) = oid" "of_quantity (make_fill cx s oid it q p) = q"
  "of_fill_price (make_fill cx s oid it q p) = p" "of_symbol (make_fill cx s oid it q p) = oi_symbol it"
  "of_side (make_fill cx s oid it q p) = oi_side it"
  by (simp_all add: make_fill_def Let_def)

lemma timeout_step_accounts: "step_accounts oid (timeout_step ad cx oid0)"
  by (auto simp: step_accounts_def accounts_def timeout_step_def Let_def
      split: option.splits if_splits prod.splits sum.splits)

lemma update_step_accounts: "step_accounts oid (update_step cx oid0)"
  by (auto simp: step_accounts_def accounts_def update_step_def Let_def split: option.splits if_splits)

lemma fill_step_accounts: "step_accounts oid (fill_step cx oid0)"
  by (auto simp: step_accounts_def accounts_def fill_step_def emit_fill_def Let_def split: option.splits if_splits)

lemma finish_step_accounts: "step_accounts oid (finish_step cx oid0)"
  by (auto simp: step_accounts_def accounts_def finish_step_def Let_def split: option.splits if_splits)

lemma lifecycle_accounts: "step_accounts oid (lifecycle ad cx oid0)"
  unfolding lifecycle_def
  by (rule run_steps_accounts)
    (simp add: timeout_step_accounts update_step_accounts fill_step_accounts finish_step_accounts)

lemma accounts_state:
  assumes "accounts oid s0 ms s'"
    and "\<And>x. map_option oo_filled (map_of (bx_open s0) x) = map_option oo_filled (map_of (bx_open s) x)"
    and "\<And>x. map_option oo_intent (map_of (bx_open s0) x) = map_option oo_intent (map_of (bx_open s) x)"
  shows "accounts oid s ms s'"
  using assms(1) assms(2) [of oid] assms(3) [of oid]
  by (cases "map_of (bx_open s0) oid"; cases "map_of (bx_open s) oid"; cases "map_of (bx_open s') oid")
    (simp_all add: accounts_def)

lemma count_stale_accounts:
  "count_stale oid0 s = (e, s') \<Longrightarrow> accounts oid s [] s'"
  by (auto simp: count_stale_def accounts_def Let_def split: option.splits if_splits)

lemma refresh_order_accounts: "step_accounts oid (refresh_order ad cx oid0 r)"
  unfolding step_accounts_def
proof (intro allI impI)
  fix s s' ms assume e: "refresh_order ad cx oid0 r s = (s', ms)"
  obtain res b where st: "ad_status ad (oo_order r) (bx_broker s) = (res, b)" by fastforce
  show "accounts oid s ms s'"
  proof (cases res)
    case (Inr o')
    let ?s0 = "update_open oid0 (\<lambda>r. r\<lparr>oo_order := o', oo_stale := 0\<rparr>)
              (s\<lparr>bx_broker := b, bx_breaker := on_success (bx_breaker s)\<rparr>)"
    have "lifecycle ad cx oid0 ?s0 = (s', ms)" using e st Inr by (simp add: refresh_order_def)
    then have "accounts oid ?s0 ms s'" using lifecycle_accounts [of oid ad cx oid0] by (simp add: step_accounts_def)
    then show ?thesis by (rule accounts_state) (auto simp: option.map_comp comp_def)
  next
    case (Inl err)
    show ?thesis
    proof (cases "err = RateLimitedErr")
      case True
      then show ?thesis using e st Inl by (auto simp: refresh_order_def accounts_def split: option.splits)
    next
      case False
      let ?s0 = "s\<lparr>bx_broker := b, bx_breaker := on_failure (xc_mono cx) (bx_breaker s)\<rparr>"
      have "s' = snd (count_stale oid0 ?s0)" "ms = []"
        using e st Inl False by (auto simp: refresh_order_def split: py_error.splits)
      then have "accounts oid ?s0 ms s'" using count_stale_accounts [OF prod.collapse [symmetric]] by metis
      then show ?thesis by (rule accounts_state) simp_all
    qed
  qed
qed

lemma poll_order_accounts: "step_accounts oid (poll_order ad cx oid0)"
  unfolding step_accounts_def
proof (intro allI impI)
  fix s s' ms assume e: "poll_order ad cx oid0 s = (s', ms)"
  show "accounts oid s ms s'"
  proof (cases "map_of (bx_open s) oid0")
    case None
    with e show ?thesis by (simp add: poll_order_def)
  next
    case (Some r)
    obtain ev s1 where c: "count_stale oid0 s = (ev, s1)" by fastforce
    have a1: "accounts oid s [] s1" by (rule count_stale_accounts [OF c])
    have "accounts oid s1 ms s'" if "refresh_order ad cx oid0 r (s1\<lparr>bx_breaker := br\<rparr>) = (s', ms)" for br
      using refresh_order_accounts [of oid ad cx oid0 r] that unfolding step_accounts_def
      by (fastforce intro: accounts_state)
    with a1 have "accounts oid s ([] @ ms) s'" if "refresh_order ad cx oid0 r (s1\<lparr>bx_breaker := br\<rparr>) = (s', ms)" for br
      using that by (intro accounts_trans [OF a1])
    then show ?thesis
      using e Some c a1 refresh_order_accounts [of oid ad cx oid0 r]
      by (auto simp: poll_order_def step_accounts_def split: if_splits prod.splits bool.splits)
  qed
qed

lemma poll_accounts: "step_accounts oid (poll ad cx)"
proof -
  have "step_accounts oid (run_steps (map (poll_order ad cx) ids))" for ids
    by (rule run_steps_accounts) (simp add: list_all_iff poll_order_accounts)
  then show ?thesis unfolding step_accounts_def poll_def by blast
qed

text \<open>
  What is published never goes beyond what the broker reports.  \<open>published oid f s\<close>: if the order
  is tracked it is the broker's order \<open>oid\<close> and \<open>f\<close> has been published for it; \<open>report_within\<close>
  also bounds the quantity of the last report.
\<close>

definition published :: "string \<Rightarrow> int \<Rightarrow> 'b broker_exec \<Rightarrow> bool" where
  "published oid f s \<longleftrightarrow>
     (case map_of (bx_open s) oid of
        None \<Rightarrow> True | Some r \<Rightarrow> od_order_id (oo_order r) = Some oid \<and> oo_filled r = f)"

definition report_within :: "string \<Rightarrow> int \<Rightarrow> int \<Rightarrow> 'b broker_exec \<Rightarrow> bool" where
  "report_within oid B f s \<longleftrightarrow> published oid f s \<and>
     (case map_of (bx_open s) oid of None \<Rightarrow> True | Some r \<Rightarrow> od_filled_qty (oo_order r) \<le> B)"

text \<open>The adapter's answers about order \<open>oid\<close> keep its id and never report more than \<open>B\<close> filled.\<close>

definition answers_within :: "'b adapter \<Rightarrow> string \<Rightarrow> int \<Rightarrow> bool" where
  "answers_within ad oid B \<longleftrightarrow>
     (\<forall>ord b o' b'. od_order_id ord = Some oid \<longrightarrow>
        ad_status ad ord b = (Inr o', b') \<or> ad_cancel ad ord b = (Inr o', b') \<longrightarrow>
        od_order_id o' = Some oid \<and> od_filled_qty o' \<le> B)"

definition caps :: "string \<Rightarrow> int \<Rightarrow> (int \<Rightarrow> 'b broker_exec \<Rightarrow> bool) \<Rightarrow>
    ('b broker_exec \<Rightarrow> 'b broker_exec \<times> msg list) \<Rightarrow> bool" where
  "caps oid B I step \<longleftrightarrow>
     (\<forall>f s s' ms. I f s \<longrightarrow> step s = (s', ms) \<longrightarrow>
        I (f + fill_total oid ms) s' \<and> f + fill_total oid ms \<le> max f B)"

lemma capsD:
  "caps oid B I step \<Longrightarrow> I f s \<Longrightarrow> step s = (s', ms) \<Longrightarrow>
   I (f + fill_total oid ms) s' \<and> f + fill_total oid ms \<le> max f B"
  by (simp add: caps_def)

lemma run_steps_caps: "list_all (caps oid B I) fs \<Longrightarrow> caps oid B I (run_steps fs)"
proof (induction fs)
  case Nil
  then show ?case by (simp add: caps_def)
next
  case (Cons g fs)
  have g: "caps oid B I g" and fs: "caps oid B I (run_steps fs)" using Cons by simp_all
  show ?case
    unfolding caps_def
  proof (intro allI impI)
    fix f s s' ms assume i: "I f s" and r: "run_steps (g # fs) s = (s', ms)"
    obtain s1 m1 m2 where a: "g s = (s1, m1)" and b: "run_steps fs s1 = (s', m2)" and ms: "ms = m1 @ m2"
      using r by (auto split: prod.splits)
    note h1 = capsD [OF g i a]
    then have "I (f + fill_total oid m1) s1" by simp
    from capsD [OF fs this b] h1
    show "I (f + fill_total oid ms) s' \<and> f + fill_total oid ms \<le> max f B"
      by (simp add: ms add.assoc max_def split: if_splits)
  qed
qed

lemmas cap_defs = caps_def report_within_def published_def Let_def

lemma answers_cancel:
  "answers_within ad oid B \<Longrightarrow> od_order_id ord = Some oid \<Longrightarrow> ad_cancel ad ord b = (Inr o', b') \<Longrightarrow>
   od_order_id o' = Some oid \<and> od_filled_qty o' \<le> B"
  unfolding answers_within_def by blast

lemma timeout_step_effect:
  assumes "timeout_step ad cx oid0 s = (s', ms)"
  shows "bx_open s' = bx_open s \<or> (\<exists>r o' b b'. map_of (bx_open s) oid0 = Some r \<and>
      ad_cancel ad (oo_order r) b = (Inr o', b') \<and>
      s' = update_open oid0 (\<lambda>r. r\<lparr>oo_order := o'\<rparr>) (s\<lparr>bx_broker := b'\<rparr>))"
proof (cases "map_of (bx_open s) oid0")
  case None
  then show ?thesis using assms by (simp add: timeout_step_def)
next
  case (Some r)
  obtain res b where c: "ad_cancel ad (oo_order r) (bx_broker s) = (res, b)" by fastforce
  show ?thesis
  proof (cases res)
    case (Inl e)
    with assms Some c show ?thesis by (auto simp: timeout_step_def Let_def split: if_splits)
  next
    case (Inr o')
    with assms Some c have "s' = s \<or> s' = update_open oid0 (\<lambda>r. r\<lparr>oo_order := o'\<rparr>) (s\<lparr>bx_broker := b\<rparr>)"
      by (auto simp: timeout_step_def Let_def split: if_splits)
    with Some c Inr show ?thesis by blast
  qed
qed

lemma timeout_step_caps:
  assumes "answers_within ad oid B"
  shows "caps oid B (report_within oid B) (timeout_step ad cx oid0)"
  unfolding caps_def
proof (intro allI impI)
  fix f s s' ms assume i: "report_within oid B f s" and t: "timeout_step ad cx oid0 s = (s', ms)"
  have n: "fill_total oid ms = 0"
    using t by (auto simp: timeout_step_def Let_def split: option.splits if_splits prod.splits sum.splits)
  have "bx_open s' = bx_open s \<or> (\<exists>r o' b b'. map_of (bx_open s) oid0 = Some r \<and>
      ad_cancel ad (oo_order r) b = (Inr o', b') \<and>
      s' = update_open oid0 (\<lambda>r. r\<lparr>oo_order := o'\<rparr>) (s\<lparr>bx_broker := b'\<rparr>))"
    by (rule timeout_step_effect [OF t])
  then have "report_within oid B f s'"
  proof (elim disjE exE conjE)
    assume "bx_open s' = bx_open s"
    with i show ?thesis by (simp add: report_within_def published_def)
  next
    fix r o' b b' assume r: "map_of (bx_open s) oid0 = Some r" "ad_cancel ad (oo_order r) b = (Inr o', b')"
      and s': "s' = update_open oid0 (\<lambda>r. r\<lparr>oo_order := o'\<rparr>) (s\<lparr>bx_broker := b'\<rparr>)"
    show ?thesis
    proof (cases "oid0 = oid")
      case True
      with i r have "od_order_id (oo_order r) = Some oid" "oo_filled r = f"
        by (simp_all add: report_within_def published_def)
      with answers_cancel [OF assms this(1) r(2)] show ?thesis
        using True r(1) by (simp add: s' report_within_def published_def)
    next
      case False
      with i show ?thesis by (simp add: s' report_within_def published_def)
    qed
  qed
  with n show "report_within oid B (f + fill_total oid ms) s' \<and> f + fill_total oid ms \<le> max f B" by simp
qed

lemma update_step_caps: "caps oid B (report_within oid B) (update_step cx oid0)"
  by (auto simp: cap_defs update_step_def split: option.splits if_splits)

lemma fill_step_caps: "caps oid B (report_within oid B) (fill_step cx oid0)"
  by (auto simp: cap_defs fill_step_def emit_fill_def split: option.splits if_splits)

lemma finish_step_caps: "caps oid B (report_within oid B) (finish_step cx oid0)"
  by (auto simp: cap_defs finish_step_def split: option.splits if_splits)

lemma lifecycle_caps:
  "answers_within ad oid B \<Longrightarrow> caps oid B (report_within oid B) (lifecycle ad cx oid0)"
  unfolding lifecycle_def
  by (rule run_steps_caps)
    (simp add: timeout_step_caps update_step_caps fill_step_caps finish_step_caps)

lemma count_stale_published:
  "published oid f s \<Longrightarrow> count_stale oid0 s = (e, s') \<Longrightarrow> published oid f s'"
  by (auto simp: count_stale_def published_def Let_def split: option.splits if_splits)

lemma published_cong:
  "published oid f s \<Longrightarrow> bx_open s' = bx_open s \<Longrightarrow> published oid f s'"
  by (simp add: published_def)

definition untouched :: "string \<Rightarrow> ('b broker_exec \<Rightarrow> 'b broker_exec \<times> msg list) \<Rightarrow> bool" where
  "untouched oid step \<longleftrightarrow> (\<forall>s s' ms. step s = (s', ms) \<longrightarrow>
     map_of (bx_open s') oid = map_of (bx_open s) oid \<and> fill_total oid ms = 0)"

lemma run_steps_untouched: "list_all (untouched oid) fs \<Longrightarrow> untouched oid (run_steps fs)"
  by (induction fs) (fastforce simp: untouched_def split: prod.splits)+

lemma steps_untouched:
  assumes "oid0 \<noteq> oid"
  shows "untouched oid (timeout_step ad cx oid0)" "untouched oid (update_step cx oid0)"
    "untouched oid (fill_step cx oid0)" "untouched oid (finish_step cx oid0)"
  using assms
  by (auto simp: untouched_def timeout_step_def update_step_def fill_step_def emit_fill_def finish_step_def Let_def
      split: option.splits if_splits prod.splits sum.splits)

lemma lifecycle_other:
  assumes "oid0 \<noteq> oid" and "lifecycle ad cx oid0 s = (s', ms)"
  shows "map_of (bx_open s') oid = map_of (bx_open s) oid \<and> fill_total oid ms = 0"
proof -
  have "untouched oid (lifecycle ad cx oid0)"
    unfolding lifecycle_def by (rule run_steps_untouched) (simp add: steps_untouched [OF assms(1)])
  with assms(2) show ?thesis by (simp add: untouched_def)
qed

lemma refresh_order_caps:
  assumes "answers_within ad oid B" and "published oid f s" and "map_of (bx_open s0) oid0 = Some r"
    and "map_option oo_order (map_of (bx_open s) oid0) \<in> {None, Some (oo_order r)}"
    and "refresh_order ad cx oid0 r s = (s', ms)"
  shows "published oid (f + fill_total oid ms) s' \<and> f + fill_total oid ms \<le> max f B"
proof (cases "ad_status ad (oo_order r) (bx_broker s)")
  case (Pair res b)
  show ?thesis
  proof (cases res)
    case (Inr o')
    let ?s0 = "update_open oid0 (\<lambda>r. r\<lparr>oo_order := o', oo_stale := 0\<rparr>)
              (s\<lparr>bx_broker := b, bx_breaker := on_success (bx_breaker s)\<rparr>)"
    have l: "lifecycle ad cx oid0 ?s0 = (s', ms)" using assms(5) Pair Inr by (simp add: refresh_order_def)
    show ?thesis
    proof (cases "oid0 = oid")
      case True
      have "report_within oid B f ?s0"
      proof (cases "map_of (bx_open s) oid")
        case None
        then show ?thesis using True by (simp add: report_within_def published_def)
      next
        case (Some q)
        then have "oo_order q = oo_order r" using assms(4) True by auto
        moreover have "od_order_id (oo_order q) = Some oid" "oo_filled q = f"
          using assms(2) Some by (auto simp: published_def)
        ultimately have "od_order_id o' = Some oid" "od_filled_qty o' \<le> B"
          using assms(1) Pair Inr unfolding answers_within_def by metis+
        then show ?thesis using True Some \<open>oo_filled q = f\<close> by (simp add: report_within_def published_def)
      qed
      from capsD [OF lifecycle_caps [OF assms(1)] this l] show ?thesis by (simp add: report_within_def)
    next
      case False
      from lifecycle_other [OF False l] assms(2) False show ?thesis by (simp add: published_def)
    qed
  next
    case (Inl err)
    show ?thesis
    proof (cases "err = RateLimitedErr")
      case True
      then have "s' = s\<lparr>bx_broker := b\<rparr>" "ms = []" using assms(5) Pair Inl by (auto simp: refresh_order_def)
      then show ?thesis using published_cong [OF assms(2), of s'] by simp
    next
      case False
      let ?s0 = "s\<lparr>bx_broker := b, bx_breaker := on_failure (xc_mono cx) (bx_breaker s)\<rparr>"
      have e: "s' = snd (count_stale oid0 ?s0)" "ms = []"
        using assms(5) Pair Inl False by (auto simp: refresh_order_def split: py_error.splits)
      have "published oid f ?s0" by (rule published_cong [OF assms(2)]) simp
      then have "published oid f s'" unfolding e(1) by (rule count_stale_published) (rule prod.collapse [symmetric])
      then show ?thesis by (simp add: e(2))
    qed
  qed
qed

lemma count_stale_order:
  "map_of (bx_open s) oid = Some r \<Longrightarrow> count_stale oid s = (e, s') \<Longrightarrow>
   map_option oo_order (map_of (bx_open s') oid) \<in> {None, Some (oo_order r)}"
  by (auto simp: count_stale_def Let_def split: option.splits if_splits)

lemma poll_order_caps:
  assumes "answers_within ad oid B"
  shows "caps oid B (published oid) (poll_order ad cx oid0)"
  unfolding caps_def
proof (intro allI impI)
  fix f s s' ms assume p: "published oid f s" and e: "poll_order ad cx oid0 s = (s', ms)"
  show "published oid (f + fill_total oid ms) s' \<and> f + fill_total oid ms \<le> max f B"
  proof (cases "map_of (bx_open s) oid0")
    case None
    with e p show ?thesis by (simp add: poll_order_def)
  next
    case (Some r)
    note refresh = refresh_order_caps [OF assms _ Some]
    obtain ev s1 where c: "count_stale oid0 s = (ev, s1)" by fastforce
    have p1: "published oid f s1" by (rule count_stale_published [OF p c])
    have o1: "map_option oo_order (map_of (bx_open s1) oid0) \<in> {None, Some (oo_order r)}"
      by (rule count_stale_order [OF Some c])
    have "?thesis" if "refresh_order ad cx oid0 r (s1\<lparr>bx_breaker := br\<rparr>) = (s', ms)" for br
      using refresh [OF published_cong [OF p1] _ that] o1 by simp
    moreover have ?thesis if "refresh_order ad cx oid0 r s = (s', ms)"
      using refresh [OF p _ that] Some by simp
    ultimately show ?thesis
      using e Some c p1 by (auto simp: poll_order_def split: if_splits prod.splits bool.splits)
  qed
qed

lemma polls_caps:
  assumes "answers_within ad oid B"
  shows "caps oid B (published oid) (run_steps (map (poll ad) cxs))"
proof -
  have p: "caps oid B (published oid) (run_steps (map (poll_order ad cx) ids))" for cx ids
    by (rule run_steps_caps) (simp add: list_all_iff poll_order_caps [OF assms])
  have "caps oid B (published oid) (poll ad cx)" for cx
    using p unfolding caps_def poll_def by blast
  then show ?thesis by (intro run_steps_caps) (simp add: list_all_iff)
qed

text \<open>C2: fills are accounted for and none is published twice.  Over any number of polls, whatever
  the broker answers (including failures, throttling and an open circuit): nothing is published
  for an order that is not tracked; the quantities published as filled for an order that is
  tracked before and after add up to exactly the growth of the tracker's filled quantity; and if
  no answer about the order ever reports more than B filled, then what was published before
  together with everything the polls publish is at most B (or what it was already), whether or
  not the order is still tracked at the end.\<close>

theorem poll_fills_accounted:
  assumes "run_steps (map (poll ad) cxs) s = (s', ms)"
  shows "(map_of (bx_open s) oid = None \<longrightarrow> fill_total oid ms = 0 \<and> map_of (bx_open s') oid = None) \<and>
    (\<forall>r r'. map_of (bx_open s) oid = Some r \<and> map_of (bx_open s') oid = Some r' \<longrightarrow>
       oo_filled r' = oo_filled r + fill_total oid ms) \<and>
    (\<forall>r B. map_of (bx_open s) oid = Some r \<and> od_order_id (oo_order r) = Some oid \<and> answers_within ad oid B \<longrightarrow>
       oo_filled r + fill_total oid ms \<le> max (oo_filled r) B)"
proof -
  have "step_accounts oid (run_steps (map (poll ad) cxs))"
    by (rule run_steps_accounts) (simp add: list_all_iff poll_accounts)
  with assms have a: "accounts oid s ms s'" by (simp add: step_accounts_def)
  have b: "oo_filled r + fill_total oid ms \<le> max (oo_filled r) B"
    if "map_of (bx_open s) oid = Some r" "od_order_id (oo_order r) = Some oid" "answers_within ad oid B" for r B
    using capsD [OF polls_caps [OF that(3)] _ assms, of "oo_filled r"] that(1,2) by (simp add: published_def)
  show ?thesis using a b by (cases "map_of (bx_open s) oid") (auto simp: accounts_def)
qed

section \<open>Closing polls\<close>

fun reject_qty :: "string \<Rightarrow> msg \<Rightarrow> int" where
  "reject_qty oid (OrderRejectedEvent e) = (if or_order_id e = oid then or_quantity e else 0)"
| "reject_qty oid _ = 0"

definition reject_total :: "string \<Rightarrow> msg list \<Rightarrow> int" where
  "reject_total oid ms = (\<Sum>m\<leftarrow>ms. reject_qty oid m)"

lemma reject_total_simps [simp]:
  "reject_total oid [] = 0" "reject_total oid (m # ms) = reject_qty oid m + reject_total oid ms"
  "reject_total oid (ms @ ms') = reject_total oid ms + reject_total oid ms'"
  by (simp_all add: reject_total_def)

definition report_price :: "order \<Rightarrow> order_intent \<Rightarrow> real" where
  "report_price ord it = num_or (od_avg_price ord) (num_or (oi_price it) 0)"

definition closed_status :: "order_status \<Rightarrow> bool" where
  "closed_status st \<longleftrightarrow> st = COMPLETED \<or> st = REJECTED \<or> st = CANCELLED"

lemma status_cases_closed: "closed_status st \<Longrightarrow> st \<noteq> PENDING \<and> st \<noteq> PARTIALLY_FILLED"
  by (auto simp: closed_status_def)

text \<open>The bus traffic of the four steps after a status the order cannot leave.\<close>

lemma lifecycle_closed:
  assumes "map_of (bx_open s) oid = Some r" and "closed_status (od_status (oo_order r))"
    and "lifecycle ad cx oid s = (s', ms)"
  shows "map_of (bx_open s') oid = None \<and>
    fill_total oid ms = (if 0 < report_price (oo_order r) (oo_intent r)
      then max 0 (od_filled_qty (oo_order r) - oo_filled r) else 0) \<and>
    reject_total oid ms = (if od_status (oo_order r) = COMPLETED then 0
      else max 0 (oi_quantity (oo_intent r) - (oo_filled r + fill_total oid ms)))"
proof -
  have t: "timeout_step ad cx oid s = (s, [])"
    using assms(1,2) by (auto simp: timeout_step_def closed_status_def)
  obtain s1 m1 where u: "update_step cx oid s = (s1, m1)" by fastforce
  obtain r1 where r1: "map_of (bx_open s1) oid = Some r1" "oo_order r1 = oo_order r" "oo_intent r1 = oo_intent r"
      "oo_filled r1 = oo_filled r" and m1: "fill_total oid m1 = 0" "reject_total oid m1 = 0"
    using u assms(1) by (auto simp: update_step_def Let_def split: if_splits)
  obtain s2 m2 where f: "fill_step cx oid s1 = (s2, m2)" by fastforce
  let ?f = "if 0 < report_price (oo_order r) (oo_intent r) then max 0 (od_filled_qty (oo_order r) - oo_filled r) else 0"
  obtain r2 where r2: "map_of (bx_open s2) oid = Some r2" "oo_order r2 = oo_order r" "oo_intent r2 = oo_intent r"
      "oo_filled r2 = oo_filled r + ?f" and m2: "fill_total oid m2 = ?f" "reject_total oid m2 = 0"
    using f r1 by (auto simp: fill_step_def emit_fill_def report_price_def Let_def split: if_splits)
  obtain m3 where fin: "finish_step cx oid s2 = (drop_open oid s2, m3)" and m3: "fill_total oid m3 = 0"
      "reject_total oid m3 = (if od_status (oo_order r) = COMPLETED then 0
         else max 0 (oi_quantity (oo_intent r) - oo_filled r2))"
    using r2 assms(2) by (auto simp: finish_step_def closed_status_def Let_def)
  have "s' = drop_open oid s2" "ms = m1 @ m2 @ m3"
    using assms(3) t u f fin by (simp_all add: lifecycle_def)
  then show ?thesis using m1 m2 m3 r2(4) by simp
qed

lemma poll_order_success:
  assumes "map_of (bx_open s) oid = Some r" and "cb_state (bx_breaker s) \<noteq> Circuit_OPEN"
    and "ad_status ad (oo_order r) (bx_broker s) = (Inr o', b)"
  shows "poll_order ad cx oid s = lifecycle ad cx oid
      (update_open oid (\<lambda>r. r\<lparr>oo_order := o', oo_stale := 0\<rparr>)
        (s\<lparr>bx_broker := b, bx_breaker := on_success (bx_breaker s)\<rparr>))"
  using assms by (simp add: poll_order_def refresh_order_def)

text \<open>C19: an order that ends is settled in full.  When a poll finds an order completed, rejected
  or cancelled, with a known price and a reported quantity between what was already published
  and what was ordered, the order is no longer tracked afterwards, what has been published as
  filled in total is what the broker reports, and for a rejected or cancelled order the rest of
  the ordered quantity is published as rejected.\<close>

theorem closing_poll_settles:
  assumes "map_of (bx_open s) oid = Some r" and "cb_state (bx_breaker s) \<noteq> Circuit_OPEN"
    and "ad_status ad (oo_order r) (bx_broker s) = (Inr o', b)"
    and "od_status o' \<in> {COMPLETED, REJECTED, CANCELLED}"
    and "0 < report_price o' (oo_intent r)"
    and "oo_filled r \<le> od_filled_qty o'" and "od_filled_qty o' \<le> oi_quantity (oo_intent r)"
    and "poll_order ad cx oid s = (s', ms)"
  shows "map_of (bx_open s') oid = None \<and> oo_filled r + fill_total oid ms = od_filled_qty o' \<and>
    (od_status o' \<noteq> COMPLETED \<longrightarrow>
       oo_filled r + fill_total oid ms + reject_total oid ms = oi_quantity (oo_intent r))"
proof -
  let ?s = "update_open oid (\<lambda>r. r\<lparr>oo_order := o', oo_stale := 0\<rparr>)
        (s\<lparr>bx_broker := b, bx_breaker := on_success (bx_breaker s)\<rparr>)"
  have e: "lifecycle ad cx oid ?s = (s', ms)" using assms(8) poll_order_success [OF assms(1-3)] by simp
  have r: "map_of (bx_open ?s) oid = Some (r\<lparr>oo_order := o', oo_stale := 0\<rparr>)" using assms(1) by simp
  have "closed_status (od_status (oo_order (r\<lparr>oo_order := o', oo_stale := 0\<rparr>)))"
    using assms(4) by (auto simp: closed_status_def)
  from lifecycle_closed [OF r this e] assms(5-7) show ?thesis by simp
qed

text \<open>a completed order without a price is lost.  If the broker reports an order completed
  with no average price and the intent carried none (a MARKET order), the poll publishes no fill
  for it and stops tracking it, so no later poll will.\<close>

theorem priceless_completion_lost:
  assumes "map_of (bx_open s) oid = Some r" and "cb_state (bx_breaker s) \<noteq> Circuit_OPEN"
    and "ad_status ad (oo_order r) (bx_broker s) = (Inr o', b)" and "od_status o' = COMPLETED"
    and "od_avg_price o' = 0" and "oi_price (oo_intent r) = 0"
    and "run_steps (poll_order ad cx oid # map (poll ad) cxs) s = (s', ms)"
  shows "fill_total oid ms = 0 \<and> map_of (bx_open s') oid = None"
proof -
  let ?s = "update_open oid (\<lambda>r. r\<lparr>oo_order := o', oo_stale := 0\<rparr>)
        (s\<lparr>bx_broker := b, bx_breaker := on_success (bx_breaker s)\<rparr>)"
  obtain s1 m1 m2 where p: "poll_order ad cx oid s = (s1, m1)"
    and rest: "run_steps (map (poll ad) cxs) s1 = (s', m2)" and ms: "ms = m1 @ m2"
    using assms(7) by (auto split: prod.splits)
  have e: "lifecycle ad cx oid ?s = (s1, m1)" using p poll_order_success [OF assms(1-3)] by simp
  have r: "map_of (bx_open ?s) oid = Some (r\<lparr>oo_order := o', oo_stale := 0\<rparr>)" using assms(1) by simp
  have "closed_status (od_status (oo_order (r\<lparr>oo_order := o', oo_stale := 0\<rparr>)))"
    using assms(4) by (simp add: closed_status_def)
  from lifecycle_closed [OF r this e] have l: "map_of (bx_open s1) oid = None" "fill_total oid m1 = 0"
    using assms(5,6) by (auto simp: report_price_def num_or_def)
  have "step_accounts oid (run_steps (map (poll ad) cxs))"
    by (rule run_steps_accounts) (simp add: list_all_iff poll_accounts)
  with rest have "accounts oid s1 m2 s'" by (simp add: step_accounts_def)
  then show ?thesis using l ms by (simp add: accounts_def)
qed

section \<open>Submission\<close>

lemma next_seq_fresh:
  "length taken \<le> k \<Longrightarrow> distinct taken \<Longrightarrow> brk_id (next_seq k n taken) \<notin> set taken"
proof (induction k arbitrary: n taken)
  case 0
  then show ?case by simp
next
  case (Suc k)
  show ?case
  proof (cases "brk_id (Suc n) \<in> set taken")
    case False
    then show ?thesis by simp
  next
    case True
    have larger: "next_seq j m t = next_seq j m (remove1 (brk_id (Suc n)) t) \<and> m < next_seq j m t"
      if "Suc n \<le> m" for j m and t :: "string list"
      using that
    proof (induction j arbitrary: m)
      case 0
      then show ?case by simp
    next
      case (Suc j)
      have "brk_id (Suc m) \<noteq> brk_id (Suc n)" using Suc.prems by (simp add: brk_id_def)
      then have "brk_id (Suc m) \<in> set (remove1 (brk_id (Suc n)) t) \<longleftrightarrow> brk_id (Suc m) \<in> set t"
        using in_set_remove1 by metis
      then show ?case using Suc.IH [of "Suc m"] Suc.prems by auto
    qed
    let ?t = "remove1 (brk_id (Suc n)) taken"
    have "length ?t \<le> k" using True Suc.prems(1) by (simp add: length_remove1)
    moreover have "distinct ?t" using Suc.prems(2) by simp
    ultimately have "brk_id (next_seq k (Suc n) ?t) \<notin> set ?t" by (rule Suc.IH)
    moreover have "next_seq k (Suc n) taken = next_seq k (Suc n) ?t" "Suc n < next_seq k (Suc n) taken"
      using larger [of "Suc n" k taken] by auto
    moreover from this(2) have "brk_id (next_seq k (Suc n) taken) \<noteq> brk_id (Suc n)" by (simp add: brk_id_def)
    ultimately show ?thesis using True by (simp add: in_set_remove1)
  qed
qed

text \<open>fallback order ids are fresh.  When the broker returns no usable id, the generated
  \<open>BRK-\<close> id is not the id of any tracked order.\<close>

theorem fallback_id_fresh:
  assumes "distinct (keys (bx_open s))" and "next_brk_id s = (oid, s')"
  shows "oid \<notin> set (keys (bx_open s)) \<and> bx_open s' = bx_open s"
  using next_seq_fresh [of "keys (bx_open s)" "length (bx_open s)" "bx_seq s"] assms
  by (auto simp: next_brk_id_def Let_def)

text \<open>The guard after a submission that was accepted.\<close>

lemma accept_order_idem:
  "accept_order cx corr it o' s = (s', ms) \<Longrightarrow> \<exists>oid. bx_idem s' = record_result corr oid (bx_idem s)"
  by (auto simp: accept_order_def usable_id_def next_brk_id_def emit_fill_def update_open_def Let_def
      split: if_splits option.splits)

lemma exec_place_guard:
  assumes "submit ad cx corr it s = (res, s', ms)"
  shows "bx_idem s' = bx_idem s \<or>
    (\<exists>g. check_and_reserve corr (bx_idem s) = (Inr Reserved, g) \<and>
       (if res = Submitted then \<exists>oid. bx_idem s' = record_result corr oid g else bx_idem s' = release corr g))"
  using assms accept_order_idem [of cx corr it]
  by (fastforce simp: submit_def split: option.splits if_splits prod.splits sum.splits reservation.splits)

lemma submitted_guard:
  assumes "submit ad cx corr it s = (Submitted, s', ms)"
  shows "\<exists>g oid. check_and_reserve corr (bx_idem s) = (Inr Reserved, g) \<and> bx_idem s' = record_result corr oid g"
proof -
  obtain g where g: "check_and_reserve corr (bx_idem s) = (Inr Reserved, g)"
    using assms by (auto simp: submit_def split: option.splits if_splits prod.splits sum.splits reservation.splits)
  have "\<exists>oid. bx_idem s' = record_result corr oid g"
    using assms g accept_order_idem [of cx corr it]
    by (fastforce simp: submit_def split: option.splits if_splits prod.splits sum.splits)
  with g show ?thesis by blast
qed

lemma reserve_facts:
  assumes "wf_guard g" and "check_and_reserve k g = (Inr Reserved, g')"
  shows "wf_guard g'" "map_of (completed g') k = None" "max_entries g' = max_entries g"
  using check_and_reserve_wf [OF assms(1), of k] assms(2)
  by (auto simp: check_and_reserve_def split: option.splits if_splits)

text \<open>What a submission does to a remembered id: only an acceptance makes it older.\<close>

lemma submit_recent:
  assumes "submit ad cx corr' it s = (res, s', ms)" and "wf_guard (bx_idem s)"
    and "recent corr n (bx_idem s)" and "res = Submitted \<Longrightarrow> Suc n < max_entries (bx_idem s)"
  shows "wf_guard (bx_idem s') \<and> max_entries (bx_idem s') = max_entries (bx_idem s) \<and>
    recent corr (if res = Submitted then Suc n else n) (bx_idem s')"
proof (cases "res = Submitted")
  case True
  with submitted_guard assms(1) obtain g oid where
    g: "check_and_reserve corr' (bx_idem s) = (Inr Reserved, g)" "bx_idem s' = record_result corr' oid g" by metis
  note rf = reserve_facts [OF assms(2) g(1)]
  have "recent corr n g" using check_and_reserve_recent [OF assms(3), of corr'] g(1) by simp
  then show ?thesis
    using record_result_recent [OF rf(1), of corr n corr' oid] record_result_facts(1,3) [OF rf(1)] rf(3)
      assms(4) True g(2) by simp
next
  case False
  with exec_place_guard [OF assms(1)] consider "bx_idem s' = bx_idem s"
    | g where "check_and_reserve corr' (bx_idem s) = (Inr Reserved, g)" "bx_idem s' = release corr' g"
    by auto
  then show ?thesis
  proof cases
    case 1
    with False assms(2,3) show ?thesis by simp
  next
    case 2
    note rf = reserve_facts [OF assms(2) 2(1)]
    have "recent corr n g" using check_and_reserve_recent [OF assms(3), of corr'] 2(1) by simp
    then show ?thesis using release_wf [OF rf(1)] release_recent rf(3) False 2(2) by (simp add: release_def recent_def)
  qed
qed

text \<open>Any sequence of submissions and polls; the results of the submissions are collected.\<close>

datatype exec_call = Call_submit exec_ctx string order_intent | Call_poll exec_ctx

fun run_calls :: "'b adapter \<Rightarrow> exec_call list \<Rightarrow> 'b broker_exec \<Rightarrow> submit_result list \<times> 'b broker_exec" where
  "run_calls ad [] s = ([], s)"
| "run_calls ad (Call_submit cx corr it # cs) s =
     (case submit ad cx corr it s of (r, s', _) \<Rightarrow>
        (case run_calls ad cs s' of (rs, s'') \<Rightarrow> (r # rs, s'')))"
| "run_calls ad (Call_poll cx # cs) s = run_calls ad cs (fst (poll ad cx s))"

definition accepted_count :: "submit_result list \<Rightarrow> nat" where
  "accepted_count rs = length (filter (\<lambda>r. r = Submitted) rs)"

definition keeps_guard :: "('b broker_exec \<Rightarrow> 'b broker_exec \<times> msg list) \<Rightarrow> bool" where
  "keeps_guard step \<longleftrightarrow> (\<forall>s s' ms. step s = (s', ms) \<longrightarrow> bx_idem s' = bx_idem s)"

lemma run_steps_keeps_guard: "list_all keeps_guard fs \<Longrightarrow> keeps_guard (run_steps fs)"
  by (induction fs) (fastforce simp: keeps_guard_def split: prod.splits)+

lemma update_drop_idem [simp]:
  "bx_idem (update_open oid f s) = bx_idem s" "bx_idem (drop_open oid s) = bx_idem s"
  by (simp_all add: update_open_def drop_open_def split: option.splits)

lemma count_stale_idem: "count_stale oid s = (e, s') \<Longrightarrow> bx_idem s' = bx_idem s"
  by (auto simp: count_stale_def Let_def split: option.splits if_splits)

lemma timeout_step_keeps_guard: "keeps_guard (timeout_step ad cx oid)"
  by (auto simp: keeps_guard_def timeout_step_def Let_def split: option.splits if_splits prod.splits sum.splits)

lemma update_step_keeps_guard: "keeps_guard (update_step cx oid)"
  by (auto simp: keeps_guard_def update_step_def Let_def split: option.splits if_splits)

lemma fill_step_keeps_guard: "keeps_guard (fill_step cx oid)"
  by (auto simp: keeps_guard_def fill_step_def emit_fill_def Let_def split: option.splits if_splits)

lemma finish_step_keeps_guard: "keeps_guard (finish_step cx oid)"
  by (auto simp: keeps_guard_def finish_step_def Let_def split: option.splits if_splits)

lemma lifecycle_keeps_guard: "keeps_guard (lifecycle ad cx oid)"
  unfolding lifecycle_def
  by (rule run_steps_keeps_guard)
    (simp add: timeout_step_keeps_guard update_step_keeps_guard fill_step_keeps_guard finish_step_keeps_guard)

lemma refresh_order_keeps_guard: "keeps_guard (refresh_order ad cx oid r)"
proof -
  have l: "lifecycle ad cx oid s = (s', ms) \<Longrightarrow> bx_idem s' = bx_idem s" for s s' ms
    using lifecycle_keeps_guard [of ad cx oid] by (simp add: keeps_guard_def)
  have c: "bx_idem (snd (count_stale oid s)) = bx_idem s" for s
    using count_stale_idem [of oid s] by (metis prod.collapse)
  show ?thesis
    unfolding keeps_guard_def
  proof (intro allI impI)
    fix s s' ms assume e: "refresh_order ad cx oid r s = (s', ms)"
    obtain res b where st: "ad_status ad (oo_order r) (bx_broker s) = (res, b)" by fastforce
    show "bx_idem s' = bx_idem s"
    proof (cases res)
      case (Inr o')
      with e st show ?thesis by (auto simp: refresh_order_def dest: l)
    next
      case (Inl err)
      with e st show ?thesis by (auto simp: refresh_order_def c split: py_error.splits)
    qed
  qed
qed

lemma poll_order_keeps_guard: "keeps_guard (poll_order ad cx oid)"
proof -
  have r: "refresh_order ad cx oid r s = (s', ms) \<Longrightarrow> bx_idem s' = bx_idem s" for r s s' ms
    using refresh_order_keeps_guard [of ad cx oid r] by (simp add: keeps_guard_def)
  show ?thesis
    unfolding keeps_guard_def poll_order_def
    by (auto dest!: r count_stale_idem split: option.splits if_splits prod.splits bool.splits)
qed

lemma poll_idem [simp]: "bx_idem (fst (poll ad cx s)) = bx_idem s"
proof -
  have "keeps_guard (run_steps (map (poll_order ad cx) (keys (bx_open s))))"
    by (rule run_steps_keeps_guard) (simp add: list_all_iff poll_order_keeps_guard)
  then show ?thesis unfolding poll_def keeps_guard_def by (metis prod.collapse)
qed

lemma run_calls_recent:
  assumes "run_calls ad cs s = (rs, s')" and "wf_guard (bx_idem s)" and "recent corr n (bx_idem s)"
    and "n + accepted_count rs < max_entries (bx_idem s)"
  shows "wf_guard (bx_idem s') \<and> recent corr (n + accepted_count rs) (bx_idem s')"
  using assms
proof (induction ad cs s arbitrary: n rs s' rule: run_calls.induct)
  case (1 ad s)
  then show ?case by (auto simp: accepted_count_def)
next
  case (2 ad cx c it cs s)
  obtain r s1 ms where r: "submit ad cx c it s = (r, s1, ms)" by (cases "submit ad cx c it s")
  obtain rs' where rs: "run_calls ad cs s1 = (rs', s')" "rs = r # rs'"
    using 2(2) r by (auto split: prod.splits)
  let ?n = "if r = Submitted then Suc n else n"
  have n: "?n + accepted_count rs' = n + accepted_count rs" by (simp add: rs(2) accepted_count_def)
  have "Suc n < max_entries (bx_idem s)" if "r = Submitted"
    using that 2(5) by (simp add: rs(2) accepted_count_def)
  from submit_recent [OF r 2(3,4) this]
  have "wf_guard (bx_idem s1)" "max_entries (bx_idem s1) = max_entries (bx_idem s)" "recent corr ?n (bx_idem s1)"
    by simp_all
  with 2(1) [OF r [symmetric] refl rs(1), of ?n] 2(5) n show ?case by simp
next
  case (3 ad cx cs s)
  then show ?case by simp
qed

text \<open>C38: at most one order per correlation id.  Once a submission with a correlation id was
  accepted, then after any further submissions (of any ids and intents, accepted or not) and
  polls, as long as fewer of them were accepted than the guard remembers (50000 for the
  executor), a submission with that id for a broker-backed instrument neither calls the broker
  nor publishes anything nor changes the executor, whatever the intent; it is reported as already
  done.  (Every intent that descends from one root event carries the same correlation id, so a
  second, different intent raised by the same bar or tick is dropped in this way.)\<close>

theorem one_order_per_correlation:
  assumes "wf_guard (bx_idem s)" and "submit ad cx corr it s = (Submitted, s1, ms)"
    and "run_calls ad cs s1 = (rs, s2)" and "accepted_count rs < max_entries (bx_idem s)"
    and "map_of (xc_instruments cx2) (oi_symbol it2) = Some ins" and "i_broker ins"
  shows "submit ad cx2 corr it2 s2 = (Duplicate, s2, [])"
proof -
  obtain g oid where g: "check_and_reserve corr (bx_idem s) = (Inr Reserved, g)"
    "bx_idem s1 = record_result corr oid g"
    using submitted_guard [OF assms(2)] by blast
  note rf = reserve_facts [OF assms(1) g(1)]
  have m: "0 < max_entries g" using assms(4) rf(3) by simp
  have r0: "recent corr 0 (bx_idem s1)" unfolding g(2) by (rule record_result_newest [OF rf(1) m rf(2)])
  have w1: "wf_guard (bx_idem s1)" unfolding g(2) by (rule record_result_facts(1) [OF rf(1)])
  have "max_entries (bx_idem s1) = max_entries (bx_idem s)"
    unfolding g(2) record_result_facts(3) [OF rf(1)] by (rule rf(3))
  then have "0 + accepted_count rs < max_entries (bx_idem s1)" using assms(4) by simp
  note w2 = run_calls_recent [OF assms(3) w1 r0 this]
  then obtain v where "map_of (completed (bx_idem s2)) corr = Some v"
    using recent_remembered [OF conjunct1 [OF w2] conjunct2 [OF w2]] by (auto simp: not_None_eq)
  then show ?thesis using assms(5,6) by (simp add: submit_def check_and_reserve_def)
qed

text \<open>the kill switch does not gate submissions.  The circuit breaker's state has no influence
  on \<open>submit\<close>: after \<open>trip_kill_switch\<close> a new intent reaches the broker exactly as before.\<close>

theorem submit_ignores_breaker:
  "fst (submit ad cx corr it (s\<lparr>bx_breaker := br\<rparr>)) = fst (submit ad cx corr it s) \<and>
   snd (snd (submit ad cx corr it (s\<lparr>bx_breaker := br\<rparr>))) = snd (snd (submit ad cx corr it s)) \<and>
   bx_broker (fst (snd (submit ad cx corr it (s\<lparr>bx_breaker := br\<rparr>)))) = bx_broker (fst (snd (submit ad cx corr it s)))"
proof -
  have acc: "accept_order cx corr it o' (t\<lparr>bx_breaker := br\<rparr>) =
      ((fst (accept_order cx corr it o' t))\<lparr>bx_breaker := br\<rparr>, snd (accept_order cx corr it o' t))" for o' t
    by (simp add: accept_order_def usable_id_def next_brk_id_def emit_fill_def update_open_def make_fill_def
        exec_statutory_def Let_def split: option.splits)
  have acc2: "accept_order cx corr it o' (s\<lparr>bx_breaker := br, bx_broker := b, bx_idem := g\<rparr>) =
      ((fst (accept_order cx corr it o' (s\<lparr>bx_broker := b, bx_idem := g\<rparr>)))\<lparr>bx_breaker := br\<rparr>,
       snd (accept_order cx corr it o' (s\<lparr>bx_broker := b, bx_idem := g\<rparr>)))" for o' b g
  proof -
    have "s\<lparr>bx_breaker := br, bx_broker := b, bx_idem := g\<rparr> = (s\<lparr>bx_broker := b, bx_idem := g\<rparr>)\<lparr>bx_breaker := br\<rparr>"
      by (cases s) simp
    then show ?thesis by (simp only: acc)
  qed
  show ?thesis
    by (auto simp: submit_def acc2 case_prod_beta split: option.splits sum.splits reservation.splits)
qed

section \<open>Recovery and adoption\<close>

lemma lifecycle_fill:
  assumes "map_of (bx_open s) oid = Some r" and "od_status (oo_order r) \<noteq> PENDING"
    and "lifecycle ad cx oid s = (s', ms)"
  shows "fill_total oid ms = (if 0 < report_price (oo_order r) (oo_intent r)
      then max 0 (od_filled_qty (oo_order r) - oo_filled r) else 0)"
proof -
  have t: "timeout_step ad cx oid s = (s, [])" using assms(1,2) by (simp add: timeout_step_def)
  obtain s1 m1 where u: "update_step cx oid s = (s1, m1)" by fastforce
  obtain r1 where r1: "map_of (bx_open s1) oid = Some r1" "oo_order r1 = oo_order r" "oo_intent r1 = oo_intent r"
      "oo_filled r1 = oo_filled r" and m1: "fill_total oid m1 = 0"
    using u assms(1) by (auto simp: update_step_def Let_def split: if_splits)
  obtain s2 m2 s3 m3 where f: "fill_step cx oid s1 = (s2, m2)" and fin: "finish_step cx oid s2 = (s3, m3)" by fastforce
  have "fill_total oid m2 = (if 0 < report_price (oo_order r) (oo_intent r)
      then max 0 (od_filled_qty (oo_order r) - oo_filled r) else 0)"
    using f r1 by (auto simp: fill_step_def emit_fill_def report_price_def Let_def split: if_splits)
  moreover have "fill_total oid m3 = 0"
    using fin by (auto simp: finish_step_def Let_def split: option.splits if_splits)
  moreover have "ms = m1 @ m2 @ m3" using assms(3) t u f fin by (simp add: lifecycle_def)
  ultimately show ?thesis using m1 by simp
qed

lemma poll_order_fill:
  assumes "map_of (bx_open s) oid = Some r" and "cb_state (bx_breaker s) \<noteq> Circuit_OPEN"
    and "ad_status ad (oo_order r) (bx_broker s) = (Inr o', b)" and "od_status o' \<noteq> PENDING"
    and "0 < report_price o' (oo_intent r)" and "oo_filled r \<le> od_filled_qty o'"
    and "poll_order ad cx oid s = (s', ms)"
  shows "oo_filled r + fill_total oid ms = od_filled_qty o'"
proof -
  let ?s = "update_open oid (\<lambda>r. r\<lparr>oo_order := o', oo_stale := 0\<rparr>)
        (s\<lparr>bx_broker := b, bx_breaker := on_success (bx_breaker s)\<rparr>)"
  have e: "lifecycle ad cx oid ?s = (s', ms)" using assms(7) poll_order_success [OF assms(1-3)] by simp
  have r: "map_of (bx_open ?s) oid = Some (r\<lparr>oo_order := o', oo_stale := 0\<rparr>)" using assms(1) by simp
  from lifecycle_fill [OF r _ e] assms(4-6) show ?thesis by simp
qed

lemma restore_one_record:
  assumes "restore_one cx oid d s = (Inr True, s')"
  shows "\<exists>ins sd st. map_of (bx_open s') oid = Some (restored_record ins sd st oid d) \<and>
    bx_breaker s' = bx_breaker s \<and> bx_broker s' = bx_broker s"
  using assms by (auto simp: restore_one_def split: if_splits option.splits sum.splits; blast)

text \<open>recovery does not repeat fills.  After an order is restored from the event store with part
  of it already filled, the next poll that finds more filled publishes exactly the difference
  between what the broker reports and what had been recorded before the crash.\<close>

theorem restored_order_not_refilled:
  assumes "restore_one cx oid d s = (Inr True, s1)" and "cb_state (bx_breaker s) \<noteq> Circuit_OPEN"
    and "\<And>ord. ad_status ad ord (bx_broker s) = (Inr o', b)" and "od_status o' \<noteq> PENDING"
    and "0 < od_avg_price o'" and "dl_filled d \<le> od_filled_qty o'"
    and "poll_order ad cx' oid s1 = (s2, ms)"
  shows "dl_filled d + fill_total oid ms = od_filled_qty o'"
proof -
  obtain ins sd st where r: "map_of (bx_open s1) oid = Some (restored_record ins sd st oid d)"
    "bx_breaker s1 = bx_breaker s" "bx_broker s1 = bx_broker s"
    using restore_one_record [OF assms(1)] by blast
  have "oo_filled (restored_record ins sd st oid d) = dl_filled d" by (simp add: restored_record_def)
  moreover have "0 < report_price o' (oo_intent (restored_record ins sd st oid d))"
    using assms(5) by (simp add: report_price_def num_or_def)
  ultimately show ?thesis
    using poll_order_fill [OF r(1) _ _ assms(4) _ _ assms(7), of b] assms(2,3,6) r(2,3) by simp
qed

text \<open>an adopted order is counted from zero.  When an order the tracker has dropped (for
  instance after too many failed polls) is adopted again from the broker's order book, the next
  poll publishes its whole filled quantity, whatever had been published for it before.\<close>

theorem adopted_order_counted_from_zero:
  assumes "adopt_entry cx (keys (bx_open s)) e = Some r" and "cb_state (bx_breaker s) \<noteq> Circuit_OPEN"
    and "s1 = s\<lparr>bx_open := AList.update (ob_order_id e) r (bx_open s)\<rparr>"
    and "ad_status ad (oo_order r) (bx_broker s) = (Inr o', b)" and "od_status o' \<noteq> PENDING"
    and "0 < od_avg_price o'" and "0 \<le> od_filled_qty o'"
    and "poll_order ad cx' (ob_order_id e) s1 = (s2, ms)"
  shows "fill_total (ob_order_id e) ms = od_filled_qty o'"
proof -
  have f: "oo_filled r = 0" using assms(1)
    by (auto simp: adopt_entry_def split: if_splits option.splits sum.splits prod.splits)
  have m: "map_of (bx_open s1) (ob_order_id e) = Some r" by (simp add: assms(3))
  have "0 < report_price o' (oo_intent r)" using assms(6) by (simp add: report_price_def num_or_def)
  then show ?thesis
    using poll_order_fill [OF m _ _ assms(5) _ _ assms(8), of b] assms(2,3,4,7) f by simp
qed

section \<open>Examples\<close>

text \<open>A broker that accepts every order under the id \<open>D-1\<close> and then reports a fixed answer.\<close>

definition scripted :: "order \<Rightarrow> unit adapter" where
  "scripted answer =
     \<lparr>ad_place = (\<lambda>ord b. (Inr (ord\<lparr>od_order_id := Some ''D-1''\<rparr>), b)),
      ad_status = (\<lambda>ord b. (Inr answer, b)), ad_cancel = (\<lambda>ord b. (Inr answer, b)),
      ad_modify = (\<lambda>_ _ _ _ ord b. (Inr ord, b)), ad_orderbook = (\<lambda>b. (Inr [], b))\<rparr>"

definition ex_ctx :: exec_ctx where
  "ex_ctx = \<lparr>xc_instruments = [(''TCS'', new_instrument ''equity'' ''TCS'' ''NSE'' True)], xc_now = naive 0, xc_mono = 0\<rparr>"

definition ex_intent :: order_intent where
  "ex_intent = \<lparr>ts = naive 0, oi_symbol = ''TCS'', oi_exchange = ''NSE'', oi_side = BUY, oi_quantity = 10,
     oi_order_type = MARKET, oi_price = 0, oi_reference_price = 0, oi_strategy = []\<rparr>"

definition ex_order :: "order_status \<Rightarrow> int \<Rightarrow> real \<Rightarrow> order" where
  "ex_order st filled price =
     (tracked_order (new_instrument ''equity'' ''TCS'' ''NSE'' True) Side_BUY 10 ''D-1'' st filled)\<lparr>od_avg_price := price\<rparr>"

definition ex_record :: open_order where
  "ex_record = \<lparr>oo_intent = ex_intent, oo_order = ex_order PENDING 0 0, oo_filled = 0, oo_status = PENDING,
     oo_placed_at = naive 0, oo_stale = 0\<rparr>"

definition ex_new :: "unit broker_exec" where
  "ex_new = new_broker_exec () None NoStatutory 3 300 False"

definition ex_exec :: "unit broker_exec" where
  "ex_exec = ex_new\<lparr>bx_open := [(''D-1'', ex_record)]\<rparr>"

lemmas ex_defs = scripted_def ex_ctx_def ex_intent_def ex_order_def ex_record_def ex_exec_def ex_new_def
  new_broker_exec_def tracked_order_def new_breaker_def new_instrument_def

theorem poll_fills_accounted_witness:
  "\<exists>s' ms. run_steps (map (poll (scripted (ex_order PARTIALLY_FILLED 4 100))) [ex_ctx, ex_ctx]) ex_exec = (s', ms) \<and>
     (\<forall>r'. map_of (bx_open s') ''D-1'' = Some r' \<longrightarrow> oo_filled r' = fill_total ''D-1'' ms) \<and>
     fill_total ''D-1'' ms \<le> 4"
proof -
  obtain s' ms where
    r: "run_steps (map (poll (scripted (ex_order PARTIALLY_FILLED 4 100))) [ex_ctx, ex_ctx]) ex_exec = (s', ms)"
    by fastforce
  have m: "map_of (bx_open ex_exec) ''D-1'' = Some ex_record" and f: "oo_filled ex_record = 0"
    and i: "od_order_id (oo_order ex_record) = Some ''D-1''" by (simp_all add: ex_defs)
  have a: "answers_within (scripted (ex_order PARTIALLY_FILLED 4 100)) ''D-1'' 4"
    by (simp add: answers_within_def ex_defs)
  note c = poll_fills_accounted [OF r, of "''D-1''"]
  from c m i a f have "fill_total ''D-1'' ms \<le> 4" by (metis add_0 max_def zero_le_numeral)
  moreover from c m f have "\<forall>r'. map_of (bx_open s') ''D-1'' = Some r' \<longrightarrow> oo_filled r' = fill_total ''D-1'' ms" by simp
  ultimately show ?thesis using r by blast
qed

theorem closing_poll_settles_witness:
  "\<exists>s' ms. poll_order (scripted (ex_order CANCELLED 4 100)) ex_ctx ''D-1'' ex_exec = (s', ms) \<and>
     fill_total ''D-1'' ms = 4 \<and> fill_total ''D-1'' ms + reject_total ''D-1'' ms = 10"
proof -
  obtain s' ms where p: "poll_order (scripted (ex_order CANCELLED 4 100)) ex_ctx ''D-1'' ex_exec = (s', ms)" by fastforce
  have "map_of (bx_open ex_exec) ''D-1'' = Some ex_record" by (simp add: ex_defs)
  from closing_poll_settles [OF this _ _ _ _ _ _ p, of "ex_order CANCELLED 4 100" "()"]
  have "oo_filled ex_record + fill_total ''D-1'' ms = 4 \<and>
    oo_filled ex_record + fill_total ''D-1'' ms + reject_total ''D-1'' ms = 10"
    by (simp add: ex_defs report_price_def num_or_def)
  then show ?thesis using p by (simp add: ex_record_def)
qed

theorem priceless_completion_lost_witness:
  "\<exists>s' ms. run_steps (poll_order (scripted (ex_order COMPLETED 10 0)) ex_ctx ''D-1''
       # map (poll (scripted (ex_order COMPLETED 10 0))) [ex_ctx]) ex_exec = (s', ms) \<and>
     fill_total ''D-1'' ms = 0 \<and> map_of (bx_open s') ''D-1'' = None"
proof -
  obtain s' ms where p: "run_steps (poll_order (scripted (ex_order COMPLETED 10 0)) ex_ctx ''D-1''
       # map (poll (scripted (ex_order COMPLETED 10 0))) [ex_ctx]) ex_exec = (s', ms)" by fastforce
  have "map_of (bx_open ex_exec) ''D-1'' = Some ex_record" by (simp add: ex_defs)
  from priceless_completion_lost [OF this _ _ _ _ _ p, of "ex_order COMPLETED 10 0" "()"]
  have "fill_total ''D-1'' ms = 0 \<and> map_of (bx_open s') ''D-1'' = None" by (simp add: ex_defs)
  then show ?thesis using p by blast
qed

theorem fallback_id_fresh_witness:
  "\<exists>oid s'. next_brk_id ex_exec = (oid, s') \<and> oid \<noteq> ''D-1''"
proof -
  obtain oid s' where n: "next_brk_id ex_exec = (oid, s')" by fastforce
  from fallback_id_fresh [OF _ n] n show ?thesis by (auto simp: ex_defs)
qed

theorem one_order_per_correlation_witness:
  "\<exists>s1 rs s2 ms.
     submit (scripted (ex_order PENDING 0 0)) ex_ctx ''c1'' ex_intent ex_new = (Submitted, s1, ms) \<and>
     run_calls (scripted (ex_order PENDING 0 0)) [Call_submit ex_ctx ''c2'' ex_intent, Call_poll ex_ctx] s1 = (rs, s2) \<and>
     submit (scripted (ex_order PENDING 0 0)) ex_ctx ''c1'' (ex_intent\<lparr>oi_side := SELL\<rparr>) s2 = (Duplicate, s2, [])"
proof -
  let ?ad = "scripted (ex_order PENDING 0 0)"
  have "fst (submit ?ad ex_ctx ''c1'' ex_intent ex_new) = Submitted"
    by (simp add: submit_def exec_place_def place_def build_order_def parse_order_type_def parse_side_def parse_enum_def
        upper_def upper_char_def check_and_reserve_def new_guard_def ex_defs split: prod.splits)
  then obtain s1 ms where s: "submit ?ad ex_ctx ''c1'' ex_intent ex_new = (Submitted, s1, ms)"
    by (metis prod.collapse)
  obtain rs s2 where r: "run_calls ?ad [Call_submit ex_ctx ''c2'' ex_intent, Call_poll ex_ctx] s1 = (rs, s2)" by fastforce
  then have "length rs = 1" by (auto split: prod.splits)
  then have n: "accepted_count rs < max_entries (bx_idem ex_new)"
    using length_filter_le [of "\<lambda>r. r = Submitted" rs]
    by (simp add: accepted_count_def ex_new_def new_broker_exec_def new_guard_def)
  have "wf_guard (bx_idem ex_new)" by (simp add: ex_defs wf_guard_def new_guard_def)
  from one_order_per_correlation [OF this s r n, of ex_ctx "ex_intent\<lparr>oi_side := SELL\<rparr>"] s r show ?thesis
    by (auto simp: ex_ctx_def ex_intent_def new_instrument_def)
qed

definition ex_delta :: order_delta where
  "ex_delta = \<lparr>dl_symbol = ''TCS'', dl_exchange = ''NSE'', dl_side = BUY, dl_strategy = [], dl_quantity = 10,
     dl_filled = 4, dl_status = ''PARTIALLY_FILLED'', dl_placed_at = naive 0\<rparr>"

theorem restored_order_not_refilled_witness:
  "\<exists>s1 s2 ms. restore_one ex_ctx ''D-1'' ex_delta ex_new = (Inr True, s1) \<and>
     poll_order (scripted (ex_order COMPLETED 10 100)) ex_ctx ''D-1'' s1 = (s2, ms) \<and> fill_total ''D-1'' ms = 6"
proof -
  have "fst (restore_one ex_ctx ''D-1'' ex_delta ex_new) = Inr True"
    by (simp add: restore_one_def parse_side_def parse_status_def parse_enum_def upper_def upper_char_def ex_delta_def ex_defs)
  then obtain s1 where r: "restore_one ex_ctx ''D-1'' ex_delta ex_new = (Inr True, s1)" by (metis prod.collapse)
  obtain s2 ms where p: "poll_order (scripted (ex_order COMPLETED 10 100)) ex_ctx ''D-1'' s1 = (s2, ms)" by fastforce
  from restored_order_not_refilled [OF r _ _ _ _ _ p, of "ex_order COMPLETED 10 100" "()"]
  have "4 + fill_total ''D-1'' ms = 10" by (simp add: ex_delta_def ex_defs)
  then show ?thesis using r p by auto
qed

definition ex_entry :: order_book_entry where
  "ex_entry = \<lparr>ob_symbol = ''TCS'', ob_order_id = ''D-1'', ob_side = BUY, ob_quantity = 10, ob_price = 100,
     ob_status = ''PARTIALLY_FILLED'', ob_exchange = ''NSE''\<rparr>"

theorem adopted_order_counted_from_zero_witness:
  "\<exists>r s2 ms. adopt_entry ex_ctx [] ex_entry = Some r \<and>
     poll_order (scripted (ex_order PARTIALLY_FILLED 4 100)) ex_ctx ''D-1'' (ex_new\<lparr>bx_open := [(''D-1'', r)]\<rparr>) = (s2, ms) \<and>
     fill_total ''D-1'' ms = 4"
proof -
  have "adopt_entry ex_ctx [] ex_entry \<noteq> None"
    by (simp add: adopt_entry_def parse_side_def parse_status_def parse_enum_def upper_def upper_char_def
        is_terminal_def TERMINAL_def ex_entry_def ex_defs)
  then obtain r where r: "adopt_entry ex_ctx (keys (bx_open ex_new)) ex_entry = Some r"
    by (auto simp: ex_new_def new_broker_exec_def)
  let ?s = "ex_new\<lparr>bx_open := [(''D-1'', r)]\<rparr>"
  obtain s2 ms where p: "poll_order (scripted (ex_order PARTIALLY_FILLED 4 100)) ex_ctx ''D-1'' ?s = (s2, ms)" by fastforce
  have "ob_order_id ex_entry = ''D-1''" by (simp add: ex_entry_def)
  then have "fill_total ''D-1'' ms = 4"
    using adopted_order_counted_from_zero [OF r, of ?s "scripted (ex_order PARTIALLY_FILLED 4 100)" "ex_order PARTIALLY_FILLED 4 100" "()" ex_ctx s2 ms] p
    by (simp add: scripted_def ex_new_def new_broker_exec_def new_breaker_def) (simp add: ex_defs)
  then show ?thesis using r p by (auto simp: ex_new_def new_broker_exec_def)
qed

end
