(* ===== verification/Portfolio.thy ===== *)
theory Portfolio
  imports Events
begin

text \<open>
  The portfolio read model and the engine that maintains it from fills:
  \<open>ntrade/domain/portfolio.py\<close> (positions, holdings, portfolio, account) and
  \<open>ntrade/engines/portfolio_engine.py\<close> (\<open>PortfolioEngine.on_filled\<close>).

  A handler that publishes as its last act returns the new state and the messages it
  publishes, in order.  The lemmas show that the engine nets every fill into the signed
  inventory of its symbol, that it re-averages entry prices the way the code says, and that a
  fill is value-neutral at its own price apart from its charges.
\<close>

section \<open>Positions, holdings, portfolio, account\<close>

record position =
  ps_symbol :: string
  ps_quantity :: int
  ps_avg_price :: real
  ps_ltp :: real
  ps_product :: string
  ps_exchange :: string
  ps_metadata :: metadata

definition market_value :: "position \<Rightarrow> real" where
  "market_value p = py_round 2 (of_int (ps_quantity p) * ps_ltp p)"

definition pnl :: "position \<Rightarrow> real" where
  "pnl p = py_round 2 ((ps_ltp p - ps_avg_price p) * of_int (ps_quantity p))"

record holding =
  ho_symbol :: string
  ho_quantity :: int
  ho_avg_price :: real
  ho_ltp :: real

definition holding_pnl :: "holding \<Rightarrow> real" where
  "holding_pnl h = py_round 2 ((ho_ltp h - ho_avg_price h) * of_int (ho_quantity h))"

record portfolio =
  pf_positions :: "position list"
  pf_holdings :: "holding list"

text \<open>The answers of a broker's \<open>get_positions()\<close>, \<open>get_holdings()\<close>, \<open>get_balance()\<close>
  and \<open>get_live_pnl()\<close>; the adapter itself is behind this interface.\<close>

record broker_reads =
  br_positions :: "position list option"
  br_holdings :: "holding list option"
  br_balance :: real
  br_live_pnl :: "py_error + real option"

definition from_broker :: "broker_reads \<Rightarrow> portfolio" where
  "from_broker b =
     \<lparr>pf_positions = (case br_positions b of None \<Rightarrow> [] | Some ps \<Rightarrow> ps),
      pf_holdings = (case br_holdings b of None \<Rightarrow> [] | Some hs \<Rightarrow> hs)\<rparr>"

definition portfolio_pnl :: "portfolio \<Rightarrow> real" where
  "portfolio_pnl pf = py_round 2 (\<Sum>p\<leftarrow>pf_positions pf. pnl p)"

definition live_pnl :: "broker_reads option \<Rightarrow> portfolio \<Rightarrow> real" where
  "live_pnl broker pf =
     (case broker of
        Some b \<Rightarrow> (case br_live_pnl b of
                     Inl _ \<Rightarrow> 0
                   | Inr v \<Rightarrow> py_round 2 (case v of None \<Rightarrow> 0 | Some x \<Rightarrow> num_or x 0))
      | None \<Rightarrow> portfolio_pnl pf)"

definition portfolio_market_value :: "portfolio \<Rightarrow> real" where
  "portfolio_market_value pf = py_round 2 (\<Sum>p\<leftarrow>pf_positions pf. market_value p)"

definition find_position :: "position list \<Rightarrow> string \<Rightarrow> position option" where
  "find_position ps sy = find (\<lambda>p. ps_symbol p = sy) ps"

definition portfolio_refresh :: "broker_reads option \<Rightarrow> portfolio \<Rightarrow> portfolio" where
  "portfolio_refresh broker pf = (case broker of None \<Rightarrow> pf | Some b \<Rightarrow> from_broker b)"

definition portfolio_getitem :: "portfolio \<Rightarrow> string \<Rightarrow> py_error + position" where
  "portfolio_getitem pf sy =
     (case find_position (pf_positions pf) sy of
        None \<Rightarrow> Inl (KeyErr (''No position for '' @ sy))
      | Some p \<Rightarrow> Inr p)"

record account =
  ac_balance :: real
  ac_holdings :: "holding list"

definition account_from_broker :: "broker_reads \<Rightarrow> account" where
  "account_from_broker b =
     \<lparr>ac_balance = br_balance b,
      ac_holdings = (case br_holdings b of None \<Rightarrow> [] | Some hs \<Rightarrow> hs)\<rparr>"

definition find_holding :: "account \<Rightarrow> string \<Rightarrow> holding option" where
  "find_holding a sy = find (\<lambda>h. ho_symbol h = sy) (ac_holdings a)"

definition account_refresh :: "broker_reads option \<Rightarrow> account \<Rightarrow> account" where
  "account_refresh broker a = (case broker of None \<Rightarrow> a | Some b \<Rightarrow> account_from_broker b)"

section \<open>The portfolio engine\<close>

text \<open>The state \<open>on_filled\<close> writes: \<open>ctx.portfolio.positions\<close> and \<open>ctx.account.balance\<close>.\<close>

record ledger =
  positions :: "position list"
  balance :: real

text \<open>In-place mutation of the first position of a symbol.\<close>

fun update_position :: "string \<Rightarrow> (position \<Rightarrow> position) \<Rightarrow> position list \<Rightarrow> position list" where
  "update_position sy f [] = []"
| "update_position sy f (p # ps) =
     (if ps_symbol p = sy then f p # ps else p # update_position sy f ps)"

definition signed_qty :: "order_filled \<Rightarrow> int" where
  "signed_qty e = (if of_side e = BUY then of_quantity e else - of_quantity e)"

definition open_position :: "order_filled \<Rightarrow> position" where
  "open_position e =
     \<lparr>ps_symbol = of_symbol e, ps_quantity = signed_qty e, ps_avg_price = of_fill_price e,
      ps_ltp = of_fill_price e, ps_product = ''MIS'', ps_exchange = of_exchange e,
      ps_metadata = (if of_strategy e \<noteq> '''' then [(''strategy'', PStr (of_strategy e))] else [])\<rparr>"

text \<open>The entry price after netting \<open>qty\<close> at \<open>price\<close> into a position that stays open.\<close>

definition new_avg_price :: "position \<Rightarrow> int \<Rightarrow> real \<Rightarrow> real" where
  "new_avg_price p qty price =
     (let new_qty = ps_quantity p + qty in
      if (ps_quantity p > 0) = (qty > 0)
      then \<bar>(ps_avg_price p * of_int (ps_quantity p) + price * of_int qty) / of_int new_qty\<bar>
      else if ps_quantity p * new_qty < 0 then price
      else ps_avg_price p)"

definition net_fill :: "order_filled \<Rightarrow> position list \<Rightarrow> position list" where
  "net_fill e ps =
     (case find_position ps (of_symbol e) of
        None \<Rightarrow> ps @ [open_position e]
      | Some p \<Rightarrow>
          (let qty = signed_qty e; new_qty = ps_quantity p + qty in
           if new_qty = 0 then remove1 p ps
           else update_position (of_symbol e)
                  (\<lambda>p. p\<lparr>ps_avg_price := new_avg_price p qty (of_fill_price e),
                         ps_quantity := new_qty, ps_ltp := of_fill_price e\<rparr>) ps))"

definition charges :: "order_filled \<Rightarrow> real" where
  "charges e = of_commission e + of_statutory e"

definition settle_cash :: "order_filled \<Rightarrow> real \<Rightarrow> real" where
  "settle_cash e b =
     (let notional = of_fill_price e * of_int (of_quantity e) in
      if of_side e = BUY then py_round 4 (b - notional - charges e)
      else py_round 4 (b + notional - charges e))"

text \<open>The position the engine reports: \<open>None\<close> when the fill closed it.\<close>

definition remaining_position :: "order_filled \<Rightarrow> position list \<Rightarrow> position option" where
  "remaining_position e ps =
     (case find_position ps (of_symbol e) of
        Some p \<Rightarrow> if ps_quantity p + signed_qty e = 0 then None
                  else find_position (net_fill e ps) (of_symbol e)
      | None \<Rightarrow> find_position (net_fill e ps) (of_symbol e))"

definition on_filled :: "order_filled \<Rightarrow> ledger \<Rightarrow> ledger \<times> msg list" where
  "on_filled e l =
     (let ps' = net_fill e (positions l);
          b' = settle_cash e (balance l);
          remaining = remaining_position e (positions l)
      in (l\<lparr>positions := ps', balance := b'\<rparr>,
          [PositionUpdatedEvent
             \<lparr>ts = ts e, pu_symbol = of_symbol e, pu_exchange = of_exchange e,
              pu_quantity = (case remaining of None \<Rightarrow> 0 | Some p \<Rightarrow> ps_quantity p),
              pu_avg_price = (case remaining of None \<Rightarrow> 0 | Some p \<Rightarrow> ps_avg_price p),
              pu_ltp = of_fill_price e\<rparr>,
           BalanceChangedEvent \<lparr>ts = ts e, bc_balance = b'\<rparr>]))"

section \<open>The inventory abstraction\<close>

definition qty_of :: "position list \<Rightarrow> string \<Rightarrow> int" where
  "qty_of ps sy = (case find_position ps sy of None \<Rightarrow> 0 | Some p \<Rightarrow> ps_quantity p)"

text \<open>Well-formed books: one position per symbol, none of them flat.\<close>

definition wf_positions :: "position list \<Rightarrow> bool" where
  "wf_positions ps \<longleftrightarrow>
     distinct (map ps_symbol ps) \<and> list_all (\<lambda>p. ps_quantity p \<noteq> 0) ps"

definition wf_ledger :: "ledger \<Rightarrow> bool" where
  "wf_ledger l \<longleftrightarrow> wf_positions (positions l)"

text \<open>
  What a component that nets fills promises: the inventory moves by the signed quantity of the
  fill and every other symbol keeps its own.  Both the portfolio engine and the paper broker's
  own book implement it.
\<close>

locale netting =
  fixes step :: "'f \<Rightarrow> 's \<Rightarrow> 's"
    and inventory :: "'s \<Rightarrow> string \<Rightarrow> int"
    and invar :: "'s \<Rightarrow> bool"
    and valid :: "'f \<Rightarrow> bool"
    and sy :: "'f \<Rightarrow> string"
    and delta :: "'f \<Rightarrow> int"
  assumes step_invar: "invar s \<Longrightarrow> valid f \<Longrightarrow> invar (step f s)"
    and step_inventory: "invar s \<Longrightarrow> valid f \<Longrightarrow>
      inventory (step f s) x = (if x = sy f then inventory s x + delta f else inventory s x)"
begin

lemma run_invar: "invar s \<Longrightarrow> list_all valid fs \<Longrightarrow> invar (fold step fs s)"
  by (induction fs arbitrary: s) (auto intro: step_invar)

lemma run_inventory:
  "invar s \<Longrightarrow> list_all valid fs \<Longrightarrow>
   inventory (fold step fs s) x = inventory s x + (\<Sum>f\<leftarrow>filter (\<lambda>f. sy f = x) fs. delta f)"
  by (induction fs arbitrary: s) (auto simp: step_inventory step_invar)

lemma untouched_symbol:
  "invar s \<Longrightarrow> list_all valid fs \<Longrightarrow> x \<notin> sy ` set fs \<Longrightarrow>
   inventory (fold step fs s) x = inventory s x"
proof -
  assume a: "invar s" "list_all valid fs" "x \<notin> sy ` set fs"
  then have "filter (\<lambda>f. sy f = x) fs = []" by (auto simp: filter_empty_conv)
  with a show ?thesis by (simp add: run_inventory)
qed

end

section \<open>Lemmas on lookup and update\<close>

lemma find_position_Nil [simp]: "find_position [] s = None"
  by (simp add: find_position_def)

lemma find_position_Cons [simp]:
  "find_position (p # ps) s = (if ps_symbol p = s then Some p else find_position ps s)"
  by (simp add: find_position_def)

lemma open_position_simps [simp]:
  "ps_symbol (open_position e) = of_symbol e"
  "ps_quantity (open_position e) = signed_qty e"
  "ps_avg_price (open_position e) = of_fill_price e"
  "ps_ltp (open_position e) = of_fill_price e"
  by (simp_all add: open_position_def)

lemma find_position_append:
  "find_position (ps @ qs) s =
     (case find_position ps s of None \<Rightarrow> find_position qs s | Some p \<Rightarrow> Some p)"
  by (induction ps) auto

lemma find_position_None_iff: "find_position ps s = None \<longleftrightarrow> s \<notin> ps_symbol ` set ps"
  by (induction ps) auto

lemma find_position_SomeD:
  "find_position ps s = Some p \<Longrightarrow> p \<in> set ps \<and> ps_symbol p = s"
  by (induction ps) (auto split: if_splits)

lemma find_position_update:
  assumes "\<And>p. ps_symbol (f p) = ps_symbol p"
  shows "find_position (update_position s f ps) s' =
     (if s' = s then map_option f (find_position ps s) else find_position ps s')"
  by (induction ps) (auto simp: assms)

lemma symbols_update:
  assumes "\<And>p. ps_symbol (f p) = ps_symbol p"
  shows "map ps_symbol (update_position s f ps) = map ps_symbol ps"
  by (induction ps) (auto simp: assms)

lemma update_position_all:
  assumes "\<And>p. P p \<Longrightarrow> P (f p)"
  shows "list_all P ps \<Longrightarrow> list_all P (update_position s f ps)"
  by (induction ps) (auto simp: assms)

lemma find_position_remove1:
  "distinct (map ps_symbol ps) \<Longrightarrow> find_position ps s = Some p \<Longrightarrow>
   find_position (remove1 p ps) s' = (if s' = s then None else find_position ps s')"
proof (induction ps)
  case Nil
  then show ?case by simp
next
  case (Cons q ps)
  show ?case
  proof (cases "ps_symbol q = s")
    case True
    with Cons.prems have "p = q" and "find_position ps s = None"
      by (auto simp: find_position_None_iff)
    with True show ?thesis by auto
  next
    case False
    with Cons.prems have sp: "find_position ps s = Some p" and d: "distinct (map ps_symbol ps)"
      by auto
    moreover have "p \<noteq> q" using find_position_SomeD [OF sp] False by auto
    ultimately show ?thesis
      using Cons.IH [OF d sp] False by auto
  qed
qed

lemma wf_positions_remove1: "wf_positions ps \<Longrightarrow> wf_positions (remove1 p ps)"
  by (induction ps) (auto simp: wf_positions_def dest: notin_set_remove1 set_remove1_subset [THEN subsetD])

section \<open>Netting\<close>

lemma net_fill_inventory:
  assumes "wf_positions ps"
  shows "qty_of (net_fill e ps) s =
     (if s = of_symbol e then qty_of ps s + signed_qty e else qty_of ps s)"
proof (cases "find_position ps (of_symbol e)")
  case None
  then show ?thesis
    by (simp add: net_fill_def qty_of_def find_position_append split: option.splits)
next
  case (Some p)
  have "distinct (map ps_symbol ps)" using assms by (simp add: wf_positions_def)
  then show ?thesis
    using Some
    by (simp add: net_fill_def qty_of_def Let_def find_position_update find_position_remove1)
qed

lemma net_fill_wf:
  assumes wf: "wf_positions ps" and q: "of_quantity e \<noteq> 0"
  shows "wf_positions (net_fill e ps)"
proof (cases "find_position ps (of_symbol e)")
  case None
  then have "net_fill e ps = ps @ [open_position e]" by (simp add: net_fill_def)
  moreover have "of_symbol e \<notin> ps_symbol ` set ps" using None by (simp add: find_position_None_iff)
  ultimately show ?thesis
    using wf q by (simp add: wf_positions_def signed_qty_def)
next
  case (Some p)
  show ?thesis
  proof (cases "ps_quantity p + signed_qty e = 0")
    case True
    then show ?thesis using Some wf by (simp add: net_fill_def wf_positions_remove1)
  next
    case False
    then show ?thesis
      using Some wf
      by (simp add: net_fill_def wf_positions_def Let_def symbols_update update_position_all)
  qed
qed

lemmas net_fill_facts = net_fill_inventory net_fill_wf

interpretation portfolio_engine: netting net_fill qty_of wf_positions
  "\<lambda>e. of_quantity e \<noteq> 0" of_symbol signed_qty
  by unfold_locales (auto simp: net_fill_facts)

lemma on_filled_fst [simp]:
  "fst (on_filled e l) = l\<lparr>positions := net_fill e (positions l), balance := settle_cash e (balance l)\<rparr>"
  by (simp add: on_filled_def Let_def)

lemma settle_cash_signed:
  "settle_cash e b = py_round 4 (b - of_fill_price e * of_int (signed_qty e) - charges e)"
  by (simp add: settle_cash_def signed_qty_def Let_def)

lemma settle_cash_error:
  "\<bar>settle_cash e b - (b - of_fill_price e * of_int (signed_qty e) - charges e)\<bar> \<le> 1 / 20000"
  using py_round_error [of 4] by (simp add: settle_cash_signed)

lemma weighted_mean_between:
  fixes a b m n :: real
  assumes "0 < m" and "0 < n"
  shows "min a b \<le> (a * m + b * n) / (m + n) \<and> (a * m + b * n) / (m + n) \<le> max a b"
proof -
  have "min a b * (m + n) \<le> a * m + b * n" and "a * m + b * n \<le> max a b * (m + n)"
    using assms by (auto simp: distrib_left intro!: add_mono mult_right_mono)
  then show ?thesis using assms by (simp add: pos_le_divide_eq pos_divide_le_eq)
qed

lemma new_avg_price_mean:
  assumes "ps_quantity p \<noteq> 0" and "q \<noteq> 0" and "sgn (ps_quantity p) = sgn q"
    and "0 \<le> ps_avg_price p" and "0 \<le> price"
  shows "new_avg_price p q price =
    (ps_avg_price p * of_int \<bar>ps_quantity p\<bar> + price * of_int \<bar>q\<bar>) / of_int \<bar>ps_quantity p + q\<bar>"
proof -
  have same: "(ps_quantity p > 0) = (q > 0)"
    using assms(1-3) by (auto simp: sgn_if split: if_splits)
  have "\<bar>(ps_avg_price p * of_int (ps_quantity p) + price * of_int q)\<bar> =
      ps_avg_price p * of_int \<bar>ps_quantity p\<bar> + price * of_int \<bar>q\<bar>"
  proof (cases "q > 0")
    case True
    with same assms show ?thesis by simp
  next
    case False
    with same assms have neg: "ps_quantity p < 0" "q < 0" by auto
    with assms have "ps_avg_price p * of_int (ps_quantity p) + price * of_int q \<le> 0"
      by (simp add: add_nonpos_nonpos mult_nonneg_nonpos)
    with neg show ?thesis by simp
  qed
  then show ?thesis
    using same by (simp add: new_avg_price_def Let_def)
qed

section \<open>Properties of the portfolio engine\<close>

text \<open>Running the engine over a sequence of fills, in order.\<close>

definition run_fills :: "order_filled list \<Rightarrow> ledger \<Rightarrow> ledger" where
  "run_fills es l = fold (\<lambda>e l. fst (on_filled e l)) es l"

lemma run_fills_simps [simp]:
  "run_fills [] l = l"
  "run_fills (e # es) l = run_fills es (fst (on_filled e l))"
  by (simp_all add: run_fills_def)

lemma run_fills_positions: "positions (run_fills es l) = fold net_fill es (positions l)"
  by (induction es arbitrary: l) simp_all

lemma find_position_qty: "find_position ps s = Some p \<Longrightarrow> qty_of ps s = ps_quantity p"
  by (simp add: qty_of_def)

lemma remaining_position_net:
  assumes "wf_positions ps"
  shows "remaining_position e ps = find_position (net_fill e ps) (of_symbol e)"
  using assms
  by (auto simp: remaining_position_def net_fill_def find_position_remove1 wf_positions_def
      split: option.splits)

text \<open>the portfolio engine refines signed inventory.  Over any sequence of fills of
  non-zero quantity, from a book with one non-flat position per symbol, the book stays of that
  form and the quantity it holds of every symbol is the starting quantity plus the sum of the
  signed fill quantities (BUY positive, anything else negative) of that symbol.\<close>

theorem fills_net_inventory:
  assumes "wf_ledger l" and "list_all (\<lambda>e. of_quantity e \<noteq> 0) es"
  shows "wf_ledger (run_fills es l) \<and>
    qty_of (positions (run_fills es l)) s =
      qty_of (positions l) s + (\<Sum>e\<leftarrow>filter (\<lambda>e. of_symbol e = s) es. signed_qty e)"
  using portfolio_engine.run_inventory [OF assms [unfolded wf_ledger_def], of s]
    portfolio_engine.run_invar [OF assms [unfolded wf_ledger_def]]
  by (simp add: wf_ledger_def run_fills_positions)

text \<open>a fill is value-neutral at its own price.  Marked at the fill price, cash plus
  inventory changes by exactly the commission and statutory charges, up to the half unit of the
  fourth decimal that \<open>round(..., 4)\<close> may move the balance.\<close>

theorem fill_value_neutral:
  assumes "wf_ledger l" and "(l', ms) = on_filled e l"
  shows "\<bar>(balance l' + of_fill_price e * of_int (qty_of (positions l') (of_symbol e)))
      - (balance l + of_fill_price e * of_int (qty_of (positions l) (of_symbol e)) - charges e)\<bar>
    \<le> 1 / 20000"
proof -
  have l': "l' = fst (on_filled e l)" using assms(2) by (metis fst_conv)
  have "qty_of (positions l') (of_symbol e) = qty_of (positions l) (of_symbol e) + signed_qty e"
    using assms(1) by (simp add: l' wf_ledger_def net_fill_inventory)
  then show ?thesis
    using settle_cash_error [of e "balance l"] by (simp add: l' algebra_simps)
qed

text \<open>cash is conserved.  After any sequence of fills the balance is the opening balance
  less the signed notional and the charges of every fill; the rounding of the code accounts for
  at most half a unit of the fourth decimal per fill.\<close>

theorem cash_conservation:
  "\<bar>balance (run_fills es l) -
      (balance l - (\<Sum>e\<leftarrow>es. of_fill_price e * of_int (signed_qty e) + charges e))\<bar>
   \<le> real (length es) / 20000"
proof (induction es arbitrary: l)
  case Nil
  then show ?case by simp
next
  case (Cons e es)
  let ?l = "fst (on_filled e l)"
  have "\<bar>balance (run_fills es ?l) -
      (balance ?l - (\<Sum>e\<leftarrow>es. of_fill_price e * of_int (signed_qty e) + charges e))\<bar>
    \<le> real (length es) / 20000"
    by (rule Cons.IH)
  moreover have "\<bar>balance ?l - (balance l - of_fill_price e * of_int (signed_qty e) - charges e)\<bar> \<le> 1 / 20000"
    using settle_cash_error [of e "balance l"] by simp
  ultimately show ?case by (simp add: add_divide_distrib) argo
qed

text \<open>the messages \<open>on_filled\<close> publishes describe the state it leaves: one position update
  with the quantity and entry price the book now holds (0 and 0 when the fill closed the
  position), then one balance update with the new balance.\<close>

theorem on_filled_reports_book:
  assumes "wf_ledger l" and "(l', ms) = on_filled e l"
  shows "\<exists>pu bc. ms = [PositionUpdatedEvent pu, BalanceChangedEvent bc] \<and>
    pu_symbol pu = of_symbol e \<and>
    pu_quantity pu = qty_of (positions l') (of_symbol e) \<and>
    pu_avg_price pu = (case find_position (positions l') (of_symbol e) of
        None \<Rightarrow> 0 | Some p \<Rightarrow> ps_avg_price p) \<and>
    bc_balance bc = balance l'"
proof -
  have l': "l' = fst (on_filled e l)" and ms: "ms = snd (on_filled e l)"
    using assms(2) by (metis fst_conv) (metis assms(2) snd_conv)
  have "remaining_position e (positions l) = find_position (positions l') (of_symbol e)"
    using assms(1) by (simp add: l' wf_ledger_def remaining_position_net)
  then show ?thesis
    unfolding ms on_filled_def Let_def
    by (simp add: qty_of_def l')
qed

text \<open>how an open position is re-averaged.  Adding in the direction of the position gives
  the quantity-weighted mean of the entry price and the fill price (so total cost is preserved
  and the new price lies between the two); a partial exit keeps the entry price; an exit that
  reverses the position opens the residual at the fill price.\<close>

theorem entry_price_rules:
  assumes "ps_quantity p \<noteq> 0" and "q \<noteq> 0" and "ps_quantity p + q \<noteq> 0"
    and "0 \<le> ps_avg_price p" and "0 \<le> price"
  shows "(sgn (ps_quantity p) = sgn q \<longrightarrow>
      new_avg_price p q price * of_int \<bar>ps_quantity p + q\<bar> =
        ps_avg_price p * of_int \<bar>ps_quantity p\<bar> + price * of_int \<bar>q\<bar> \<and>
      min (ps_avg_price p) price \<le> new_avg_price p q price \<and>
      new_avg_price p q price \<le> max (ps_avg_price p) price) \<and>
    (sgn (ps_quantity p) \<noteq> sgn q \<longrightarrow> \<bar>q\<bar> < \<bar>ps_quantity p\<bar> \<longrightarrow> new_avg_price p q price = ps_avg_price p) \<and>
    (sgn (ps_quantity p) \<noteq> sgn q \<longrightarrow> \<bar>q\<bar> > \<bar>ps_quantity p\<bar> \<longrightarrow> new_avg_price p q price = price)"
proof (intro conjI impI)
  assume same: "sgn (ps_quantity p) = sgn q"
  note mean = new_avg_price_mean [OF assms(1,2) same assms(4,5)]
  have sum: "\<bar>ps_quantity p + q\<bar> = \<bar>ps_quantity p\<bar> + \<bar>q\<bar>"
    using same by (auto simp: sgn_if split: if_splits)
  show "new_avg_price p q price * of_int \<bar>ps_quantity p + q\<bar> =
      ps_avg_price p * of_int \<bar>ps_quantity p\<bar> + price * of_int \<bar>q\<bar>"
    using assms(3) by (simp add: mean)
  have bounds: "min (ps_avg_price p) price \<le> new_avg_price p q price \<and>
      new_avg_price p q price \<le> max (ps_avg_price p) price"
    unfolding mean sum of_int_add using assms(1,2) by (intro weighted_mean_between) auto
  then show "min (ps_avg_price p) price \<le> new_avg_price p q price"
    and "new_avg_price p q price \<le> max (ps_avg_price p) price" by blast+
next
  assume "sgn (ps_quantity p) \<noteq> sgn q" "\<bar>q\<bar> < \<bar>ps_quantity p\<bar>"
  then show "new_avg_price p q price = ps_avg_price p"
    using assms(1,2)
    by (auto simp: new_avg_price_def Let_def mult_less_0_iff sgn_if split: if_splits)
next
  assume "sgn (ps_quantity p) \<noteq> sgn q" "\<bar>q\<bar> > \<bar>ps_quantity p\<bar>"
  then show "new_avg_price p q price = price"
    using assms(1,2)
    by (auto simp: new_avg_price_def Let_def mult_less_0_iff sgn_if split: if_splits)
qed

section \<open>Witnesses\<close>

definition buy_10 :: order_filled where
  "buy_10 = \<lparr>ts = naive 0, of_order_id = ''SIM-000001'', of_symbol = ''TCS'', of_exchange = ''NSE'',
     of_side = BUY, of_quantity = 10, of_fill_price = 100, of_commission = 20, of_statutory = 1,
     of_strategy = ''s''\<rparr>"

definition sell_15 :: order_filled where
  "sell_15 = buy_10\<lparr>of_side := SELL, of_quantity := 15, of_fill_price := 110\<rparr>"

definition cash_100k :: ledger where
  "cash_100k = \<lparr>positions = [], balance = 100000\<rparr>"

lemmas fill_examples = buy_10_def sell_15_def cash_100k_def

theorem fills_net_inventory_witness:
  "wf_ledger cash_100k \<and> list_all (\<lambda>e. of_quantity e \<noteq> 0) [buy_10, sell_15] \<and>
   qty_of (positions (run_fills [buy_10, sell_15] cash_100k)) ''TCS'' = -5"
proof -
  have h: "wf_ledger cash_100k" "list_all (\<lambda>e. of_quantity e \<noteq> 0) [buy_10, sell_15]"
    by (simp_all add: fill_examples wf_ledger_def wf_positions_def)
  show ?thesis
    using h fills_net_inventory [OF h, of "''TCS''"]
    by (simp add: fill_examples signed_qty_def qty_of_def)
qed

theorem fill_value_neutral_witness:
  "wf_ledger cash_100k \<and>
   \<bar>(balance (fst (on_filled buy_10 cash_100k)) + 100 * 10) - (100000 + 100 * 0 - 21)\<bar> \<le> 1 / 20000"
proof -
  have h: "wf_ledger cash_100k"
    by (simp add: fill_examples wf_ledger_def wf_positions_def)
  show ?thesis
    using h fill_value_neutral [OF h, of _ _ buy_10, OF prod.collapse]
    by (simp add: fill_examples qty_of_def net_fill_def signed_qty_def charges_def)
qed

theorem on_filled_reports_book_witness:
  "wf_ledger cash_100k \<and> (\<exists>pu bc. snd (on_filled buy_10 cash_100k) =
     [PositionUpdatedEvent pu, BalanceChangedEvent bc] \<and> pu_quantity pu = 10)"
proof -
  have h: "wf_ledger cash_100k"
    by (simp add: fill_examples wf_ledger_def wf_positions_def)
  show ?thesis
    using h on_filled_reports_book [OF h, of _ _ buy_10, OF prod.collapse]
    by (auto simp: fill_examples qty_of_def net_fill_def signed_qty_def)
qed

theorem entry_price_rules_witness:
  "new_avg_price (open_position buy_10) 30 140 * 40 = 100 * 10 + 140 * 30 \<and>
   new_avg_price (open_position buy_10) (- 4) 140 = 100 \<and>
   new_avg_price (open_position buy_10) (- 15) 140 = 140"
  using entry_price_rules [of "open_position buy_10" 30 140]
    entry_price_rules [of "open_position buy_10" "- 4" 140]
    entry_price_rules [of "open_position buy_10" "- 15" 140]
  by (simp add: fill_examples signed_qty_def)

end
