(* ===== verification/PaperBroker.thy ===== *)
theory PaperBroker
  imports BrokerExec Portfolio
begin

text \<open>
  \<open>ntrade/brokers/paper.py\<close>: the in-memory broker.  Its order book holds the very order objects
  its callers hold, so orders live in a store (\<open>pb_orders\<close>) and a caller's order is either a
  reference into it (\<open>Stored i\<close>, what \<open>place_order\<close> returned) or an object of its own
  (\<open>Own\<close>, an order rebuilt from an id).  \<open>place_order\<close> is called with fresh orders, as
  \<open>OrderFacade.place\<close> builds them.  The last price of the order's instrument is an argument.

  The lemmas show that the broker nets like the portfolio engine, never fills without a price,
  and, driven through \<open>BrokerExecution\<close>, keeps the same inventory as the kernel's ledger.
\<close>

section \<open>State\<close>

record paper =
  pb_quotes :: "(string, quote) dict"
  pb_orders :: "order list"
  pb_balance :: real
  pb_positions :: "(string, position) dict"

definition DEFAULT_INITIAL_CASH :: real where
  "DEFAULT_INITIAL_CASH = 100000"

definition new_paper :: paper where
  "new_paper = \<lparr>pb_quotes = [], pb_orders = [], pb_balance = DEFAULT_INITIAL_CASH, pb_positions = []\<rparr>"

definition seed_quote :: "datetime \<Rightarrow> string \<Rightarrow> real \<Rightarrow> paper \<Rightarrow> paper" where
  "seed_quote now sy ltp s =
     s\<lparr>pb_quotes := AList.update (upper (py_strip sy))
         (quote_empty\<lparr>q_ltp := ltp, q_bid := ltp - 0.05, q_ask := ltp + 0.05, q_prev_close := ltp,
                      q_timestamp := Some now\<rparr>) (pb_quotes s)\<rparr>"

definition get_quote :: "string \<Rightarrow> paper \<Rightarrow> py_error + quote" where
  "get_quote sy s =
     (case map_of (pb_quotes s) (upper (py_strip sy)) of
        None \<Rightarrow> Inl (ValueError (''no live quote for '' @ sy @ '' (paper requires a real feed)''))
      | Some q \<Rightarrow> Inr q)"

section \<open>Placing orders\<close>

definition paper_price :: "real \<Rightarrow> order \<Rightarrow> paper \<Rightarrow> real option" where
  "paper_price live_ltp ord s =
     (if od_order_type ord \<noteq> OT_MARKET \<and> od_price ord \<noteq> 0 then Some (od_price ord)
      else if od_reference_price ord > 0 then Some (od_reference_price ord)
      else if live_ltp > 0 then Some live_ltp
      else map_option q_ltp (map_of (pb_quotes s) (upper (py_strip (od_symbol ord)))))"

definition order_delta_qty :: "order \<Rightarrow> int" where
  "order_delta_qty ord = (if od_side ord = Side_BUY then od_quantity ord else - od_quantity ord)"

text \<open>The position book after an order filled at its average price.\<close>

definition paper_net :: "order \<Rightarrow> (string, position) dict \<Rightarrow> (string, position) dict" where
  "paper_net ord ps =
     (let sy = od_symbol ord; price = od_avg_price ord; found = map_of ps sy;
          qty = (case found of None \<Rightarrow> 0 | Some p \<Rightarrow> ps_quantity p) + order_delta_qty ord
      in if qty = 0 then AList.delete sy ps
         else (case found of
                 None \<Rightarrow> AList.update sy
                   \<lparr>ps_symbol = sy, ps_quantity = qty, ps_avg_price = price, ps_ltp = price,
                    ps_product = trade_type_value (od_trade_type ord), ps_exchange = ''NSE'',
                    ps_metadata = []\<rparr> ps
               | Some p \<Rightarrow>
                   (let avg = (if ps_quantity p * qty > 0 \<and> \<bar>qty\<bar> > \<bar>ps_quantity p\<bar>
                               then py_round 4 ((ps_avg_price p * of_int \<bar>ps_quantity p\<bar>
                                                 + price * of_int (od_quantity ord)) / of_int \<bar>qty\<bar>)
                               else if ps_quantity p * qty < 0 then price
                               else ps_avg_price p)
                    in AList.update sy (p\<lparr>ps_avg_price := avg, ps_quantity := qty, ps_ltp := price\<rparr>) ps)))"

definition paper_id :: "nat \<Rightarrow> string" where
  "paper_id n = ''PAPER-'' @ str_nat n"

definition filled_order :: "real \<Rightarrow> order \<Rightarrow> paper \<Rightarrow> order" where
  "filled_order price ord s =
     ord\<lparr>od_order_id := Some (paper_id (length (pb_orders s) + 1)), od_status := COMPLETED,
         od_filled_qty := od_quantity ord, od_avg_price := py_round 2 price\<rparr>"

definition place_order :: "real \<Rightarrow> order \<Rightarrow> paper \<Rightarrow> (py_error + order) \<times> paper" where
  "place_order live_ltp ord s =
     (case paper_price live_ltp ord s of
        None \<Rightarrow> (Inl (ValueError (''no market price available for paper MARKET order on '' @ od_symbol ord)), s)
      | Some price \<Rightarrow>
          (let o' = filled_order price ord s
           in (Inr o', s\<lparr>pb_orders := pb_orders s @ [o'], pb_positions := paper_net o' (pb_positions s)\<rparr>)))"

section \<open>Order lifecycle\<close>

datatype order_ref = Stored nat | Own order

fun deref :: "paper \<Rightarrow> order_ref \<Rightarrow> order" where
  "deref s (Stored i) = pb_orders s ! i"
| "deref s (Own ord) = ord"

text \<open>Writing to the caller's order: in the store when it is the stored object.\<close>

fun assign :: "order_ref \<Rightarrow> (order \<Rightarrow> order) \<Rightarrow> paper \<Rightarrow> order_ref \<times> paper" where
  "assign (Stored i) f s = (Stored i, s\<lparr>pb_orders := (pb_orders s)[i := f (pb_orders s ! i)]\<rparr>)"
| "assign (Own ord) f s = (Own (f ord), s)"

fun cancel_first :: "string \<Rightarrow> order list \<Rightarrow> order list" where
  "cancel_first oid [] = []"
| "cancel_first oid (st # sts) =
     (if od_order_id st = Some oid \<and> is_open st then st\<lparr>od_status := CANCELLED\<rparr> # sts
      else st # cancel_first oid sts)"

definition cancel_order :: "order_ref \<Rightarrow> paper \<Rightarrow> order_ref \<times> paper" where
  "cancel_order r s =
     (let s = (case od_order_id (deref s r) of
                 None \<Rightarrow> s
               | Some oid \<Rightarrow> s\<lparr>pb_orders := cancel_first oid (pb_orders s)\<rparr>)
      in assign r (\<lambda>ord. ord\<lparr>od_status := CANCELLED\<rparr>) s)"

text \<open>The objects the loop of a method compares the caller's order with, itself left out.\<close>

fun others :: "order_ref \<Rightarrow> paper \<Rightarrow> order list" where
  "others (Stored i) s = take i (pb_orders s) @ drop (Suc i) (pb_orders s)"
| "others (Own _) s = pb_orders s"

definition copy_status :: "order \<Rightarrow> order \<Rightarrow> order" where
  "copy_status st ord =
     (if od_order_id st = od_order_id ord
      then ord\<lparr>od_status := od_status st, od_filled_qty := od_filled_qty st, od_avg_price := od_avg_price st\<rparr>
      else ord)"

definition get_order_status :: "order_ref \<Rightarrow> paper \<Rightarrow> order_ref \<times> paper" where
  "get_order_status r s =
     (if od_order_id (deref s r) = None then (r, s)
      else assign r (\<lambda>ord. fold copy_status (others r s) ord) s)"

text \<open>\<open>modify_order\<close>: the plain fields are written before the order type is parsed.\<close>

definition modify_order ::
  "real option \<Rightarrow> int option \<Rightarrow> string option \<Rightarrow> real option \<Rightarrow> order_ref \<Rightarrow> paper \<Rightarrow>
   (py_error + order_ref) \<times> paper" where
  "modify_order price quantity otype trigger r s =
     (let (r1, s1) = assign r (\<lambda>ord. ord\<lparr>od_price := some_or price (od_price ord),
                                       od_quantity := some_or quantity (od_quantity ord),
                                       od_trigger_price := some_or trigger (od_trigger_price ord)\<rparr>) s
      in case (case otype of None \<Rightarrow> Inr (od_order_type (deref s1 r1)) | Some t \<Rightarrow> parse_order_type (upper t)) of
           Inl e \<Rightarrow> (Inl e, s1)
         | Inr ot \<Rightarrow>
             (let (r2, s2) = assign r1 (\<lambda>ord. ord\<lparr>od_order_type := ot\<rparr>) s1; ord = deref s2 r2
              in (Inr r2,
                  s2\<lparr>pb_orders := map (\<lambda>st. if od_order_id st = od_order_id ord
                       then st\<lparr>od_price := od_price ord, od_quantity := od_quantity ord,
                               od_trigger_price := od_trigger_price ord, od_order_type := od_order_type ord\<rparr>
                       else st) (pb_orders s2)\<rparr>)))"

definition get_order_detail :: "string \<Rightarrow> paper \<Rightarrow> order option" where
  "get_order_detail oid s = find (\<lambda>st. od_order_id st = Some oid) (pb_orders s)"

section \<open>Books\<close>

definition get_orderbook :: "paper \<Rightarrow> order_book_entry list" where
  "get_orderbook s =
     map (\<lambda>ord. \<lparr>ob_symbol = od_symbol ord, ob_order_id = some_or (od_order_id ord) [],
                 ob_side = side_value (od_side ord), ob_quantity = od_quantity ord,
                 ob_price = od_price ord, ob_status = status_value (od_status ord), ob_exchange = []\<rparr>)
       (pb_orders s)"

definition get_trade_book :: "paper \<Rightarrow> trade_book_entry list" where
  "get_trade_book s =
     map (\<lambda>ord. \<lparr>tb_symbol = od_symbol ord, tb_trade_id = some_or (od_order_id ord) [],
                 tb_order_id = some_or (od_order_id ord) [], tb_side = side_value (od_side ord),
                 tb_quantity = num_or (od_filled_qty ord) (od_quantity ord), tb_price = od_avg_price ord\<rparr>)
       [ord \<leftarrow> pb_orders s. od_status ord = COMPLETED]"

definition get_positions :: "paper \<Rightarrow> position list" where
  "get_positions s = vals (pb_positions s)"

definition get_balance :: "paper \<Rightarrow> real" where
  "get_balance s = pb_balance s"

text \<open>
  The broker behind \<open>BrokerExecution\<close>, whose tracker holds its orders by value; \<open>live\<close> is the last
  traded price of the instrument with the given symbol.
\<close>

definition by_value :: "order_ref \<times> paper \<Rightarrow> (py_error + order) \<times> paper" where
  "by_value x = (Inr (deref (snd x) (fst x)), snd x)"

definition paper_adapter :: "(string \<Rightarrow> real) \<Rightarrow> paper adapter" where
  "paper_adapter live =
     \<lparr>ad_place = (\<lambda>ord s. place_order (live (od_symbol ord)) ord s),
      ad_status = (\<lambda>ord s. by_value (get_order_status (Own ord) s)),
      ad_cancel = (\<lambda>ord s. by_value (cancel_order (Own ord) s)),
      ad_modify = (\<lambda>price quantity otype trigger ord s.
        (case modify_order price quantity otype trigger (Own ord) s of
           (Inl e, s') \<Rightarrow> (Inl e, s')
         | (Inr r, s') \<Rightarrow> by_value (r, s'))),
      ad_orderbook = (\<lambda>s. (Inr (get_orderbook s), s))\<rparr>"

section \<open>The position book\<close>

definition paper_qty :: "(string, position) dict \<Rightarrow> string \<Rightarrow> int" where
  "paper_qty ps sy = (case map_of ps sy of None \<Rightarrow> 0 | Some p \<Rightarrow> ps_quantity p)"

definition wf_book :: "(string, position) dict \<Rightarrow> bool" where
  "wf_book ps \<longleftrightarrow> distinct (keys ps) \<and> (\<forall>sy p. map_of ps sy = Some p \<longrightarrow> ps_symbol p = sy \<and> ps_quantity p \<noteq> 0)"

lemma wf_book_Nil [simp]: "wf_book []"
  by (simp add: wf_book_def)

lemma paper_net_qty:
  "paper_qty (paper_net ord ps) sy =
     (if sy = od_symbol ord then paper_qty ps sy + order_delta_qty ord else paper_qty ps sy)"
  by (auto simp: paper_net_def paper_qty_def Let_def split: option.splits)

lemma paper_net_wf: "wf_book ps \<Longrightarrow> wf_book (paper_net ord ps)"
  by (auto simp: paper_net_def wf_book_def Let_def simp del: map_of_eq_Some_iff split: option.splits if_splits)

interpretation paper_book: netting paper_net paper_qty wf_book "\<lambda>_. True" od_symbol order_delta_qty
  by unfold_locales (simp_all add: paper_net_qty paper_net_wf)




section \<open>Properties of the broker alone\<close>

text \<open>A sequence of orders placed with the broker; \<open>live\<close> gives the last prices at each.\<close>

definition place_all :: "((string \<Rightarrow> real) \<times> order) list \<Rightarrow> paper \<Rightarrow> paper" where
  "place_all xs s = fold (\<lambda>(live, ord) s. snd (place_order (live (od_symbol ord)) ord s)) xs s"

definition paper_inv :: "paper \<Rightarrow> bool" where
  "paper_inv s \<longleftrightarrow>
     map od_order_id (pb_orders s) = map (\<lambda>i. Some (paper_id (Suc i))) [0..<length (pb_orders s)] \<and>
     list_all (\<lambda>ord. od_status ord = COMPLETED \<and> od_filled_qty ord = od_quantity ord) (pb_orders s) \<and>
     pb_positions s = fold paper_net (pb_orders s) []"

lemma place_order_inv: "paper_inv s \<Longrightarrow> paper_inv (snd (place_order live ord s))"
  by (auto simp: place_order_def paper_inv_def filled_order_def Let_def split: option.splits)

lemma place_all_inv: "paper_inv s \<Longrightarrow> paper_inv (place_all xs s)"
  unfolding place_all_def by (induction xs arbitrary: s) (auto simp: place_order_inv)

text \<open>the paper broker's book is the net of its fills.  However many orders of whatever kind
  are placed, with whatever prices, every order in the book is completed in full, order ids are
  all different, and the position of a symbol is the sum of the signed quantities of its
  orders; the reported cash stays the opening cash (the kernel's ledger owns cash).\<close>

theorem paper_book_nets:
  "(let s = place_all xs new_paper in
     distinct (map od_order_id (pb_orders s)) \<and>
     paper_qty (pb_positions s) sy = (\<Sum>ord\<leftarrow>filter (\<lambda>ord. od_symbol ord = sy) (pb_orders s). order_delta_qty ord) \<and>
     length (get_trade_book s) = length (pb_orders s) \<and> get_balance s = DEFAULT_INITIAL_CASH)"
proof -
  let ?s = "place_all xs new_paper"
  have inv: "paper_inv ?s" by (rule place_all_inv) (simp add: paper_inv_def new_paper_def)
  have bal: "pb_balance (place_all xs s) = pb_balance s" for s
    unfolding place_all_def
    by (induction xs arbitrary: s) (auto simp: place_order_def Let_def split: option.splits)
  have "distinct (map od_order_id (pb_orders ?s))"
    using inv by (simp add: paper_inv_def distinct_map inj_on_def paper_id_def)
  moreover have "paper_qty (pb_positions ?s) sy = (\<Sum>ord\<leftarrow>filter (\<lambda>ord. od_symbol ord = sy) (pb_orders ?s). order_delta_qty ord)"
    using inv paper_book.run_inventory [of "[]" "pb_orders ?s" sy]
    by (simp add: paper_inv_def list_all_iff paper_qty_def)
  moreover have "length (get_trade_book ?s) = length (pb_orders ?s)"
  proof -
    have "filter (\<lambda>ord. od_status ord = COMPLETED) (pb_orders ?s) = pb_orders ?s"
      using inv by (auto simp: paper_inv_def list_all_iff filter_id_conv)
    then show ?thesis by (simp add: get_trade_book_def)
  qed
  moreover have "get_balance ?s = DEFAULT_INITIAL_CASH"
    using bal [of new_paper] by (simp add: get_balance_def new_paper_def)
  ultimately show ?thesis by (simp add: Let_def)
qed

text \<open>no phantom fills.  An order is filled only at its own non-zero limit price, a positive
  bar-close reference, a positive last price or an explicitly seeded quote; with none of them
  the call raises and the broker is unchanged.\<close>

theorem no_phantom_fill:
  "(\<exists>o' s'. place_order live ord s = (Inr o', s')) \<longleftrightarrow>
     (od_order_type ord \<noteq> OT_MARKET \<and> od_price ord \<noteq> 0) \<or> 0 < od_reference_price ord \<or> 0 < live \<or>
     map_of (pb_quotes s) (upper (py_strip (od_symbol ord))) \<noteq> None"
  by (auto simp: place_order_def paper_price_def Let_def split: option.splits)

text \<open>cancelling a filled order rewrites history.  Cancelling an order through the reference
  \<open>place_order\<close> returned marks the stored order cancelled even when it is completed: its trade
  disappears from the trade book while its position stays in the position book.\<close>

theorem cancel_filled_drops_trade:
  assumes "i < length (pb_orders s)" and "od_status (pb_orders s ! i) = COMPLETED"
    and "distinct (map od_order_id (pb_orders s))"
  shows "Suc (length (get_trade_book (snd (cancel_order (Stored i) s)))) = length (get_trade_book s) \<and>
    get_positions (snd (cancel_order (Stored i) s)) = get_positions s"
proof -
  let ?os = "pb_orders s"
  have nochange: "cancel_first oid os = os"
    if "\<And>j. j < length os \<Longrightarrow> od_order_id (os ! j) = Some oid \<Longrightarrow> \<not> is_open (os ! j)" for oid os
    using that by (induction os) (fastforce simp: nth_Cons split: nat.splits)+
  have "cancel_first oid ?os = ?os" if "od_order_id (?os ! i) = Some oid" for oid
  proof (rule nochange)
    fix j assume "j < length ?os" "od_order_id (?os ! j) = Some oid"
    then have "j = i" using that assms(1,3) by (metis length_map nth_eq_iff_index_eq nth_map)
    then show "\<not> is_open (?os ! j)" using assms(2) by (simp add: is_open_def)
  qed
  then have c: "snd (cancel_order (Stored i) s) = s\<lparr>pb_orders := ?os[i := (?os ! i)\<lparr>od_status := CANCELLED\<rparr>]\<rparr>"
    by (simp add: cancel_order_def split: option.splits)
  have "Suc (length (filter (\<lambda>ord. od_status ord = COMPLETED) (?os[i := (?os ! i)\<lparr>od_status := CANCELLED\<rparr>]))) =
    length (filter (\<lambda>ord. od_status ord = COMPLETED) ?os)"
  proof -
    have "length (filter P (xs[i := x])) = length (filter P (take i xs)) + length (filter P (drop (Suc i) xs))"
      if "i < length xs" "\<not> P x" for P x and xs :: "order list"
      using that by (simp add: upd_conv_take_nth_drop)
    moreover have "length (filter P xs) = Suc (length (filter P (take i xs)) + length (filter P (drop (Suc i) xs)))"
      if "i < length xs" "P (xs ! i)" for P and xs :: "order list"
      using that by (subst id_take_nth_drop [OF that(1)]) simp
    ultimately show ?thesis using assms(1,2) by simp
  qed
  then show ?thesis by (simp add: c get_trade_book_def get_positions_def)
qed

section \<open>The broker behind the executor\<close>

fun fill_of :: "msg \<Rightarrow> order_filled option" where
  "fill_of (OrderFilledEvent f) = Some f"
| "fill_of _ = None"

definition fills_of :: "msg list \<Rightarrow> order_filled list" where
  "fills_of ms = List.map_filter fill_of ms"

lemma fills_of_simps [simp]:
  "fills_of [] = []" "fills_of (ms @ ms') = fills_of ms @ fills_of ms'"
  "fills_of (m # ms) = (case fill_of m of None \<Rightarrow> fills_of ms | Some f \<Rightarrow> f # fills_of ms)"
  by (simp_all add: fills_of_def List.map_filter_def split: option.splits)








section \<open>Examples\<close>

definition paper_buy :: order where
  "paper_buy =
     \<lparr>od_symbol = ''TCS'', od_kind = ''equity'', od_side = Side_BUY, od_quantity = 10,
      od_order_type = OT_MARKET, od_trade_type = CNC, od_price = 0, od_reference_price = 0,
      od_trigger_price = 0, od_target_price = 0, od_stop_loss_price = 0, od_order_id = None,
      od_status = PENDING, od_filled_qty = 0, od_avg_price = 0\<rparr>"

definition paper_ctx :: exec_ctx where
  "paper_ctx = \<lparr>xc_instruments = [(''TCS'', new_instrument ''equity'' ''TCS'' ''NSE'' True)], xc_now = naive 0, xc_mono = 0\<rparr>"

definition paper_intent :: order_intent where
  "paper_intent = \<lparr>ts = naive 0, oi_symbol = ''TCS'', oi_exchange = ''NSE'', oi_side = BUY, oi_quantity = 10,
     oi_order_type = MARKET, oi_price = 0, oi_reference_price = 0, oi_strategy = []\<rparr>"

theorem cancel_filled_drops_trade_witness:
  "\<exists>s. od_status (pb_orders s ! 0) = COMPLETED \<and>
     Suc (length (get_trade_book (snd (cancel_order (Stored 0) s)))) = length (get_trade_book s)"
proof -
  let ?s = "place_all [(\<lambda>_. 100, paper_buy)] new_paper"
  have "length (pb_orders ?s) = 1" "od_status (pb_orders ?s ! 0) = COMPLETED"
    by (simp_all add: place_all_def place_order_def paper_price_def filled_order_def new_paper_def paper_buy_def Let_def)
  moreover from this have "distinct (map od_order_id (pb_orders ?s))"
    by (metis One_nat_def distinct_singleton length_0_conv length_Suc_conv list.simps(8) list.simps(9))
  ultimately show ?thesis using cancel_filled_drops_trade [of 0 ?s] by auto
qed


theorem no_phantom_fill_witness: "\<not> (\<exists>o' s'. place_order 0 paper_buy new_paper = (Inr o', s'))"
  by (simp add: no_phantom_fill paper_buy_def new_paper_def)

text \<open>A side in small letters is bought by the broker, which reads it in capitals, and booked as a sale
  by the portfolio engine, which compares it with \<open>BUY\<close>.\<close>

lemma upper_examples: "upper ''buy'' = ''BUY''" "upper ''MARKET'' = ''MARKET''"
  by code_simp+

theorem lower_case_side_diverges:
  "\<exists>s' ms. submit (paper_adapter (\<lambda>_. 100)) paper_ctx ''c1'' (paper_intent\<lparr>oi_side := ''buy''\<rparr>)
       (new_broker_exec new_paper None NoStatutory 3 300 False) = (Submitted, s', ms) \<and>
     paper_qty (pb_positions (bx_broker s')) ''TCS'' = 10 \<and>
     qty_of (positions (run_fills (fills_of ms) \<lparr>positions = [], balance = 0\<rparr>)) ''TCS'' = - 10"
proof -
  let ?it = "paper_intent\<lparr>oi_side := ''buy''\<rparr>" and ?s = "new_broker_exec new_paper None NoStatutory 3 300 False"
  have "fst (submit (paper_adapter (\<lambda>_. 100)) paper_ctx ''c1'' ?it ?s) = Submitted \<and>
      pb_positions (bx_broker (fst (snd (submit (paper_adapter (\<lambda>_. 100)) paper_ctx ''c1'' ?it ?s)))) =
        [(''TCS'', \<lparr>ps_symbol = ''TCS'', ps_quantity = 10, ps_avg_price = 100, ps_ltp = 100,
            ps_product = ''CNC'', ps_exchange = ''NSE'', ps_metadata = []\<rparr>)] \<and>
      (\<exists>f. fills_of (snd (snd (submit (paper_adapter (\<lambda>_. 100)) paper_ctx ''c1'' ?it ?s))) = [f] \<and>
         of_symbol f = ''TCS'' \<and> of_side f = ''buy'' \<and> of_quantity f = 10)"
    by (simp add: submit_def exec_place_def place_def build_order_def parse_order_type_def parse_side_def parse_enum_def
        upper_examples check_and_reserve_def new_guard_def paper_adapter_def place_order_def paper_price_def
        py_round_of_int [of 2 100, simplified] update_open_def filled_order_def new_paper_def accept_order_def usable_id_def some_or_def is_filled_def emit_fill_def
        paper_net_def order_delta_qty_def paper_id_def paper_ctx_def paper_intent_def new_instrument_def
        new_broker_exec_def num_or_def default_trade_type_def Let_def split: prod.splits)
  then show ?thesis
    by (cases "submit (paper_adapter (\<lambda>_. 100)) paper_ctx ''c1'' ?it ?s")
      (auto simp: paper_qty_def qty_of_def find_position_def on_filled_def net_fill_def signed_qty_def Let_def)
qed

end
