(* ===== verification/Candles.thy ===== *)
theory Candles
  imports Market
begin

text \<open>
  \<open>ntrade/engines/candle_engine.py\<close>: ticks (and, in backtests, bar-shaped quotes) aggregated into
  candles per symbol.  The lemmas show that in live and replay mode the published series of a
  symbol, with its open candle at the end, is what grouping its in-order ticks by time bucket
  gives (open the first price, high the largest, low the smallest, close the last, volume the
  sum), that late ticks change nothing but a counter, and that a backtest bar is not counted twice.
\<close>

section \<open>State\<close>

record candle =
  cb_bucket :: int
  cb_exchange :: string
  cb_open :: real
  cb_high :: real
  cb_low :: real
  cb_close :: real
  cb_volume :: int

record candle_engine =
  ce_seconds :: int
  ce_timeframe :: string
  ce_open :: "(string, candle) dict"
  ce_closed :: "(string, candle_closed list) dict"
  ce_max_candles :: nat
  ce_bar_seeded :: "(string, int) dict"
  ce_mode :: string
  ce_late_ticks :: nat

definition unsupported_timeframe :: "string \<Rightarrow> string" where
  "unsupported_timeframe tf = ''Unsupported timeframe '' @ repr_str tf @ ''; expected one of [<Timeframe.T15: '' @
     repr_str ''15m'' @ ''>, '' @ repr_str ''1D'' @ '', <Timeframe.D1: '' @ repr_str ''1d'' @ ''>, <Timeframe.H1: '' @
     repr_str ''1h'' @ ''>, <Timeframe.MIN: '' @ repr_str ''1m'' @ ''>, <Timeframe.S1: '' @ repr_str ''1s'' @
     ''>, <Timeframe.T5: '' @ repr_str ''5m'' @ ''>, <Timeframe.S5: '' @ repr_str ''5s'' @ ''>]''"

definition new_candle_engine :: "string \<Rightarrow> nat \<Rightarrow> string \<Rightarrow> py_error + candle_engine" where
  "new_candle_engine tf max_candles mode =
     (case timeframe_seconds tf of
        Inl _ \<Rightarrow> Inl (ValueError (unsupported_timeframe tf))
      | Inr seconds \<Rightarrow>
          Inr \<lparr>ce_seconds = seconds, ce_timeframe = tf, ce_open = [], ce_closed = [],
               ce_max_candles = max_candles, ce_bar_seeded = [], ce_mode = mode, ce_late_ticks = 0\<rparr>)"

section \<open>Operations\<close>

text \<open>The bucket of a time: a naive value is IST wall time; \<open>int(ts.timestamp())\<close> truncates.\<close>

definition bucket_of :: "int \<Rightarrow> datetime \<Rightarrow> int" where
  "bucket_of seconds t =
     (let epoch = py_int (of_int (dt_abs IST t) / of_int US) in epoch - epoch mod seconds)"

definition close_candle :: "string \<Rightarrow> candle \<Rightarrow> candle_engine \<Rightarrow> candle_engine \<times> msg list" where
  "close_candle sy c s =
     (let closed = \<lparr>ts = naive (cb_bucket c + ce_seconds s), cc_symbol = sy, cc_exchange = cb_exchange c,
                    cc_timeframe = ce_timeframe s, cc_open = cb_open c, cc_high = cb_high c,
                    cc_low = cb_low c, cc_close = cb_close c, cc_volume = cb_volume c\<rparr>
      in (s\<lparr>ce_closed := AList.update sy
             (last_n (ce_max_candles s) (get_default (ce_closed s) sy [] @ [closed])) (ce_closed s)\<rparr>,
          [CandleClosedEvent closed]))"

text \<open>Closing the open candle of a symbol when its bucket is not the given one.\<close>

definition close_if_other :: "string \<Rightarrow> int \<Rightarrow> candle_engine \<Rightarrow> candle_engine \<times> msg list" where
  "close_if_other sy bucket s =
     (case map_of (ce_open s) sy of
        None \<Rightarrow> (s, [])
      | Some c \<Rightarrow> if cb_bucket c \<noteq> bucket then close_candle sy c s else (s, []))"

definition current_candle :: "string \<Rightarrow> candle \<Rightarrow> candle_engine \<Rightarrow> candle" where
  "current_candle sy fresh s =
     (case map_of (ce_open s) sy of
        Some c \<Rightarrow> if cb_bucket c = cb_bucket fresh then c else fresh
      | None \<Rightarrow> fresh)"

definition ingest ::
  "string \<Rightarrow> string \<Rightarrow> real \<Rightarrow> datetime \<Rightarrow> int \<Rightarrow> candle_engine \<Rightarrow> candle_engine \<times> msg list" where
  "ingest sy exchange price t volume s =
     (let bucket = bucket_of (ce_seconds s) t;
          late = (case map_of (ce_open s) sy of None \<Rightarrow> False | Some c \<Rightarrow> bucket < cb_bucket c)
      in if late then (s\<lparr>ce_late_ticks := Suc (ce_late_ticks s)\<rparr>, [])
         else
           (let c = current_candle sy
                      \<lparr>cb_bucket = bucket, cb_exchange = exchange, cb_open = price, cb_high = price,
                       cb_low = price, cb_close = price, cb_volume = 0\<rparr> s;
                c = c\<lparr>cb_high := max (cb_high c) price, cb_low := min (cb_low c) price,
                      cb_close := price, cb_volume := cb_volume c + volume\<rparr>
            in case close_if_other sy bucket s of
                 (s, ms) \<Rightarrow> (s\<lparr>ce_open := AList.update sy c (ce_open s)\<rparr>, ms)))"

definition ingest_bar ::
  "string \<Rightarrow> string \<Rightarrow> real \<Rightarrow> real \<Rightarrow> real \<Rightarrow> real \<Rightarrow> int \<Rightarrow> datetime \<Rightarrow> candle_engine \<Rightarrow>
   candle_engine \<times> msg list" where
  "ingest_bar sy exchange open' high low close volume t s =
     (let bucket = bucket_of (ce_seconds s) t;
          c = current_candle sy
                \<lparr>cb_bucket = bucket, cb_exchange = exchange, cb_open = open', cb_high = high,
                 cb_low = low, cb_close = close, cb_volume = 0\<rparr> s;
          c = c\<lparr>cb_open := open', cb_high := high, cb_low := low, cb_close := close, cb_volume := volume\<rparr>
      in case close_if_other sy bucket s of
           (s, ms) \<Rightarrow> (s\<lparr>ce_open := AList.update sy c (ce_open s),
                         ce_bar_seeded := AList.update sy bucket (ce_bar_seeded s)\<rparr>, ms))"

definition candle_on_tick :: "tick_event \<Rightarrow> candle_engine \<Rightarrow> candle_engine \<times> msg list" where
  "candle_on_tick e s =
     (if ce_mode s = ''backtest'' \<and>
         map_of (ce_bar_seeded s) (tk_symbol e) = Some (bucket_of (ce_seconds s) (ts e))
      then (s, [])
      else ingest (tk_symbol e) (tk_exchange e) (tk_price e) (ts e) (tk_quantity e) s)"

definition candle_on_quote :: "quote_event \<Rightarrow> candle_engine \<Rightarrow> candle_engine \<times> msg list" where
  "candle_on_quote e s =
     (if ce_mode s \<noteq> ''backtest'' then (s, [])
      else ingest_bar (qe_symbol e) (qe_exchange e) (qe_open e) (qe_high e) (qe_low e) (qe_ltp e)
             (qe_volume e) (ts e) s)"

definition candles :: "string \<Rightarrow> int option \<Rightarrow> candle_engine \<Rightarrow> candle_closed list" where
  "candles sy limit s =
     (let rows = get_default (ce_closed s) sy []
      in case limit of
           None \<Rightarrow> rows
         | Some n \<Rightarrow> if n = 0 then rows else if n > 0 then last_n (nat n) rows else drop (nat (- n)) rows)"

definition flush_one :: "string \<Rightarrow> candle_engine \<Rightarrow> candle_engine \<times> msg list" where
  "flush_one sy s =
     (case map_of (ce_open s) sy of
        None \<Rightarrow> (s, [])
      | Some c \<Rightarrow> close_candle sy c (s\<lparr>ce_open := AList.delete sy (ce_open s)\<rparr>))"

definition flush :: "string option \<Rightarrow> candle_engine \<Rightarrow> candle_engine \<times> msg list" where
  "flush sy s = run_steps (map flush_one (case sy of None \<Rightarrow> keys (ce_open s) | Some x \<Rightarrow> [x])) s"

section \<open>The reference: grouping ticks by bucket\<close>

text \<open>A tick counts when no earlier tick of its symbol lies in a later bucket.\<close>

definition in_order :: "('a \<Rightarrow> int) \<Rightarrow> 'a list \<Rightarrow> 'a list" where
  "in_order b xs = map (nth xs) (filter (\<lambda>i. list_all (\<lambda>j. b (xs ! j) \<le> b (xs ! i)) [0..<i]) [0..<length xs])"

text \<open>A candle's content: bucket, open, high, low, close, volume.\<close>

type_synonym ohlcv = "int \<times> real \<times> real \<times> real \<times> real \<times> int"

definition summarise :: "int \<Rightarrow> tick_event list \<Rightarrow> ohlcv" where
  "summarise b xs =
     (b, tk_price (hd xs), Max (set (map tk_price xs)), Min (set (map tk_price xs)),
      tk_price (last xs), \<Sum>x\<leftarrow>xs. tk_quantity x)"

definition bars_by :: "(tick_event \<Rightarrow> int) \<Rightarrow> tick_event list \<Rightarrow> ohlcv list" where
  "bars_by b xs =
     (let acc = in_order b xs in map (\<lambda>k. summarise k [e \<leftarrow> acc. b e = k]) (remdups_adj (map b acc)))"

definition bars_of :: "int \<Rightarrow> tick_event list \<Rightarrow> ohlcv list" where
  "bars_of seconds = bars_by (\<lambda>e. bucket_of seconds (ts e))"

definition candle_ohlcv :: "candle \<Rightarrow> ohlcv" where
  "candle_ohlcv c = (cb_bucket c, cb_open c, cb_high c, cb_low c, cb_close c, cb_volume c)"

definition closed_ohlcv :: "int \<Rightarrow> candle_closed \<Rightarrow> ohlcv" where
  "closed_ohlcv seconds c =
     (dt_wall (ts c) div US - seconds, cc_open c, cc_high c, cc_low c, cc_close c, cc_volume c)"

fun candle_of :: "msg \<Rightarrow> candle_closed option" where
  "candle_of (CandleClosedEvent c) = Some c"
| "candle_of _ = None"

definition candles_of :: "string \<Rightarrow> msg list \<Rightarrow> candle_closed list" where
  "candles_of sy ms = [c \<leftarrow> List.map_filter candle_of ms. cc_symbol c = sy]"

lemma candles_of_simps [simp]:
  "candles_of sy [] = []" "candles_of sy (ms @ ms') = candles_of sy ms @ candles_of sy ms'"
  "candles_of sy (m # ms) = (case candle_of m of
     Some c \<Rightarrow> if cc_symbol c = sy then c # candles_of sy ms else candles_of sy ms | None \<Rightarrow> candles_of sy ms)"
  by (simp_all add: candles_of_def List.map_filter_def split: option.splits)

lemma in_order_Nil [simp]: "in_order b [] = []"
  by (simp add: in_order_def)

lemma in_order_snoc:
  "in_order b (xs @ [x]) = in_order b xs @ (if list_all (\<lambda>y. b y \<le> b x) xs then [x] else [])"
proof -
  have "filter (\<lambda>i. list_all (\<lambda>j. b ((xs @ [x]) ! j) \<le> b ((xs @ [x]) ! i)) [0..<i]) [0..<length xs] =
    filter (\<lambda>i. list_all (\<lambda>j. b (xs ! j) \<le> b (xs ! i)) [0..<i]) [0..<length xs]"
    by (intro filter_cong) (auto simp: list_all_iff nth_append)
  moreover have "list_all (\<lambda>j. b ((xs @ [x]) ! j) \<le> b x) [0..<length xs] \<longleftrightarrow> list_all (\<lambda>y. b y \<le> b x) xs"
    by (simp add: list_all_length nth_append)
  moreover have "map (nth (xs @ [x])) (filter P [0..<length xs]) = map (nth xs) (filter P [0..<length xs])" for P
    by (auto simp: nth_append)
  ultimately show ?thesis by (simp add: in_order_def)
qed

text \<open>The last accepted tick has the largest bucket seen.\<close>

lemma in_order_last:
  "xs \<noteq> [] \<Longrightarrow> in_order b xs \<noteq> [] \<and> list_all (\<lambda>y. b y \<le> b (last (in_order b xs))) xs"
proof (induction xs rule: rev_induct)
  case Nil
  then show ?case by simp
next
  case (snoc x xs)
  show ?case
  proof (cases "xs = []")
    case True
    then show ?thesis using in_order_snoc [of b "[]" x] by simp
  next
    case False
    with snoc.IH show ?thesis by (auto simp: in_order_snoc list_all_iff intro: order.trans)
  qed
qed

lemma in_order_sorted: "sorted (map b (in_order b xs)) \<and> set (in_order b xs) \<subseteq> set xs"
proof (induction xs rule: rev_induct)
  case Nil
  then show ?case by simp
next
  case (snoc x xs)
  then show ?case by (auto simp: in_order_snoc sorted_append list_all_iff)
qed

lemma remdups_adj_snoc:
  assumes "L \<noteq> []"
  shows "remdups_adj (L @ [y]) = (if last L = y then remdups_adj L else remdups_adj L @ [y])"
proof -
  obtain K z where "L = K @ [z]" using assms by (metis append_butlast_last_id)
  then show ?thesis using remdups_adj_append_two [of K z y] by simp
qed

lemma sorted_le_last: "sorted (L :: int list) \<Longrightarrow> k \<in> set L \<Longrightarrow> k \<le> last L"
proof -
  assume s: "sorted L" and k: "k \<in> set L"
  then obtain K z where L: "L = K @ [z]" by (metis append_butlast_last_id empty_iff empty_set)
  then show ?thesis using s k by (auto simp: sorted_append)
qed

lemma remdups_adj_increasing: "sorted (L :: int list) \<Longrightarrow> sorted_wrt (<) (remdups_adj L)"
proof (induction L rule: rev_induct)
  case Nil
  then show ?case by simp
next
  case (snoc y L)
  show ?case
  proof (cases "L = []")
    case False
    have "sorted L" using snoc.prems by (simp add: sorted_append)
    moreover have "last L \<le> y" using snoc.prems False by (simp add: sorted_append)
    ultimately have "k < y" if "k \<in> set L" "last L \<noteq> y" for k
      using that sorted_le_last [of L k] by simp
    then show ?thesis using False snoc.IH \<open>sorted L\<close> by (simp add: remdups_adj_snoc sorted_wrt_append)
  qed simp
qed

lemma summarise_snoc:
  "g \<noteq> [] \<Longrightarrow> summarise k g = (k', o', h, l, c, v) \<Longrightarrow>
   summarise k (g @ [x]) = (k', o', max h (tk_price x), min l (tk_price x), tk_price x, v + tk_quantity x)"
  by (auto simp: summarise_def max.commute min.commute)

lemma summarise_single: "summarise k [x] = (k, tk_price x, tk_price x, tk_price x, tk_price x, tk_quantity x)"
  by (simp add: summarise_def)

text \<open>How one more tick changes the reference series.\<close>

lemma bars_by_Nil [simp]: "bars_by b [] = []"
  by (simp add: bars_by_def)

lemma bars_by_first:
  "bars_by b [x] =
     [(b x, tk_price x, tk_price x, tk_price x, tk_price x, tk_quantity x)]"
  using in_order_snoc [of b "[]" x]
  by (simp add: bars_by_def summarise_single)

lemma bars_by_snoc:
  fixes xs :: "tick_event list"
  assumes "xs \<noteq> []"
  shows "\<exists>bs k o' h l c v. bars_by b xs = bs @ [(k, o', h, l, c, v)] \<and>
    bars_by b (xs @ [x]) =
      (let p = tk_price x; q = tk_quantity x in
       if b x < k then bars_by b xs
       else if b x = k then bs @ [(k, o', max h p, min l p, p, v + q)]
       else bars_by b xs @ [(b x, p, p, p, p, q)])"
proof -
  let ?acc = "in_order b xs"
  let ?k = "b (last ?acc)" and ?L = "map b ?acc"
  have acc: "?acc \<noteq> []" "list_all (\<lambda>y. b y \<le> ?k) xs" using in_order_last [OF assms, of b] by auto
  have srt: "sorted ?L" and sub: "set ?acc \<subseteq> set xs" using in_order_sorted [of b xs] by auto
  have lastL: "last ?L = ?k" using acc(1) by (simp add: last_map)
  obtain ks where ks: "remdups_adj ?L = ks @ [?k]"
  proof
    have "remdups_adj ?L \<noteq> []" using acc(1) by simp
    then have "remdups_adj ?L = butlast (remdups_adj ?L) @ [last (remdups_adj ?L)]"
      by (rule append_butlast_last_id [symmetric])
    then show "remdups_adj ?L = butlast (remdups_adj ?L) @ [?k]" by (simp only: last_remdups_adj lastL)
  qed
  have below: "k' < ?k" if "k' \<in> set ks" for k'
    using remdups_adj_increasing [OF srt] that ks by (simp add: sorted_wrt_append)
  let ?g = "\<lambda>k'. [e \<leftarrow> ?acc. b e = k']"
  have g: "?g ?k \<noteq> []" using acc(1) by (metis (mono_tags, lifting) filter_empty_conv last_in_set)
  obtain o' h l c v where s: "summarise ?k (?g ?k) = (?k, o', h, l, c, v)" by (simp add: summarise_def)
  let ?bs = "map (\<lambda>k'. summarise k' (?g k')) ks"
  have old: "bars_by b xs = ?bs @ [(?k, o', h, l, c, v)]" using ks s by (simp add: bars_by_def Let_def)
  have late: "in_order b (xs @ [x]) = ?acc" if "b x < ?k"
  proof -
    have "last ?acc \<in> set xs" using acc(1) sub by (metis last_in_set subsetD)
    then have "\<not> list_all (\<lambda>y. b y \<le> b x) xs" using that unfolding list_all_iff by (metis not_le)
    then show ?thesis by (simp add: in_order_snoc)
  qed
  have app: "in_order b (xs @ [x]) = ?acc @ [x]" if "?k \<le> b x"
    using acc(2) that by (auto simp: in_order_snoc list_all_iff)
  have olds: "map (\<lambda>k'. summarise k' [e \<leftarrow> ?acc @ [x]. b e = k']) ks = ?bs" if "?k \<le> b x"
  proof (intro map_cong refl)
    fix k' assume "k' \<in> set ks"
    then have "b x \<noteq> k'" using below [of k'] that by simp
    then show "summarise k' [e \<leftarrow> ?acc @ [x]. b e = k'] = summarise k' (?g k')" by simp
  qed
  consider "b x < ?k" | "b x = ?k" | "?k < b x" by linarith
  then have "bars_by b (xs @ [x]) =
      (let p = tk_price x; q = tk_quantity x in
       if b x < ?k then bars_by b xs
       else if b x = ?k then ?bs @ [(?k, o', max h p, min l p, p, v + q)]
       else bars_by b xs @ [(b x, p, p, p, p, q)])"
  proof cases
    case 1
    then show ?thesis using late by (simp add: bars_by_def Let_def)
  next
    case 2
    have "remdups_adj (?L @ [b x]) = ks @ [?k]" using 2 lastL ks acc(1) by (simp add: remdups_adj_snoc)
    moreover have "summarise ?k (?g ?k @ [x]) = (?k, o', max h (tk_price x), min l (tk_price x), tk_price x, v + tk_quantity x)"
      by (rule summarise_snoc [OF g s])
    ultimately show ?thesis using 2 app olds by (simp add: bars_by_def Let_def)
  next
    case 3
    have "remdups_adj (?L @ [b x]) = ks @ [?k, b x]" using 3 lastL ks acc(1) by (simp add: remdups_adj_snoc)
    moreover have "?g (b x) = []"
      using acc(2) 3 sub unfolding filter_empty_conv list_all_iff by (metis leD subsetD)
    moreover have "[e \<leftarrow> ?acc @ [x]. b e = ?k] = ?g ?k" using 3 by simp
    ultimately show ?thesis using 3 app olds s old by (simp add: bars_by_def Let_def summarise_single)
  qed
  with old show ?thesis by blast
qed

lemmas bars_of_Nil [simp] = bars_by_Nil [of "\<lambda>e. bucket_of seconds (ts e)", folded bars_of_def] for seconds
lemmas bars_of_first = bars_by_first [of "\<lambda>e. bucket_of seconds (ts e)", folded bars_of_def] for seconds
lemmas bars_of_snoc = bars_by_snoc [of _ "\<lambda>e. bucket_of seconds (ts e)", folded bars_of_def] for seconds

section \<open>Refinement\<close>

definition series :: "string \<Rightarrow> candle_engine \<Rightarrow> msg list \<Rightarrow> ohlcv list" where
  "series sy s ms = map (closed_ohlcv (ce_seconds s)) (candles_of sy ms) @
     (case map_of (ce_open s) sy of None \<Rightarrow> [] | Some c \<Rightarrow> [candle_ohlcv c])"

definition run_ticks :: "tick_event list \<Rightarrow> candle_engine \<Rightarrow> candle_engine \<times> msg list" where
  "run_ticks xs s = run_steps (map candle_on_tick xs) s"

lemma run_ticks_snoc:
  "run_ticks (xs @ [x]) s = (case run_ticks xs s of (s', ms) \<Rightarrow>
     (case candle_on_tick x s' of (s'', ms') \<Rightarrow> (s'', ms @ ms')))"
  by (simp add: run_ticks_def run_steps_append split: prod.splits)

lemma closed_ohlcv_close:
  "close_candle sy c s = (s', ms) \<Longrightarrow>
     map (closed_ohlcv (ce_seconds s)) (candles_of sy' ms) = (if sy' = sy then [candle_ohlcv c] else []) \<and>
     ce_open s' = ce_open s \<and> ce_seconds s' = ce_seconds s \<and> ce_mode s' = ce_mode s"
  by (auto simp: close_candle_def closed_ohlcv_def candle_ohlcv_def naive_def Let_def)

lemma candle_on_tick_frame:
  "candle_on_tick x s = (s', ms) \<Longrightarrow> ce_seconds s' = ce_seconds s \<and> ce_mode s' = ce_mode s \<and>
     (sy \<noteq> tk_symbol x \<longrightarrow> map_of (ce_open s') sy = map_of (ce_open s) sy \<and> candles_of sy ms = [])"
  by (auto simp: candle_on_tick_def ingest_def close_if_other_def close_candle_def Let_def
      split: if_splits option.splits prod.splits)

text \<open>One tick, seen from its own symbol.\<close>

lemma candle_on_tick_own:
  assumes "ce_mode s \<noteq> ''backtest''" and "candle_on_tick x s = (s', ms)"
  shows "case map_of (ce_open s) (tk_symbol x) of
      None \<Rightarrow> candles_of (tk_symbol x) ms = [] \<and> (\<exists>c. map_of (ce_open s') (tk_symbol x) = Some c \<and>
        candle_ohlcv c = (bucket_of (ce_seconds s) (ts x), tk_price x, tk_price x, tk_price x, tk_price x, tk_quantity x))
    | Some c0 \<Rightarrow>
        (let b = bucket_of (ce_seconds s) (ts x); p = tk_price x; q = tk_quantity x in
         if b < cb_bucket c0 then map_of (ce_open s') (tk_symbol x) = Some c0 \<and> candles_of (tk_symbol x) ms = []
         else if b = cb_bucket c0 then candles_of (tk_symbol x) ms = [] \<and>
           (\<exists>c. map_of (ce_open s') (tk_symbol x) = Some c \<and>
             candle_ohlcv c = (b, cb_open c0, max (cb_high c0) p, min (cb_low c0) p, p, cb_volume c0 + q))
         else map (closed_ohlcv (ce_seconds s)) (candles_of (tk_symbol x) ms) = [candle_ohlcv c0] \<and>
           (\<exists>c. map_of (ce_open s') (tk_symbol x) = Some c \<and> candle_ohlcv c = (b, p, p, p, p, q)))"
  using assms
  by (auto simp: candle_on_tick_def ingest_def close_if_other_def current_candle_def candle_ohlcv_def Let_def
      dest!: closed_ohlcv_close [of _ _ _ _ _ "tk_symbol x"]
      split: option.splits if_splits prod.splits)

lemma series_refines:
  assumes "ce_mode s \<noteq> ''backtest''" and "ce_open s = []" and "run_ticks xs s = (s', ms)"
  shows "ce_mode s' = ce_mode s \<and> ce_seconds s' = ce_seconds s \<and>
    series sy s' ms = bars_of (ce_seconds s) [e \<leftarrow> xs. tk_symbol e = sy] \<and>
    (map_of (ce_open s') sy = None \<longleftrightarrow> [e \<leftarrow> xs. tk_symbol e = sy] = [])"
  using assms(3)
proof (induction xs arbitrary: s' ms rule: rev_induct)
  case Nil
  then show ?case using assms by (simp add: run_ticks_def series_def)
next
  case (snoc x xs)
  obtain s1 m1 m2 where r1: "run_ticks xs s = (s1, m1)" and st: "candle_on_tick x s1 = (s', m2)" and ms: "ms = m1 @ m2"
    using snoc.prems by (auto simp: run_ticks_snoc split: prod.splits)
  let ?xs = "[e \<leftarrow> xs. tk_symbol e = sy]"
  have IH: "ce_mode s1 = ce_mode s" "ce_seconds s1 = ce_seconds s" "series sy s1 m1 = bars_of (ce_seconds s) ?xs"
    "map_of (ce_open s1) sy = None \<longleftrightarrow> ?xs = []"
    using snoc.IH [OF r1] by auto
  note fr = candle_on_tick_frame [OF st, of sy]
  show ?case
  proof (cases "tk_symbol x = sy")
    case False
    then show ?thesis using fr IH ms by (auto simp: series_def)
  next
    case True
    have own: "ce_mode s1 \<noteq> ''backtest''" using IH(1) assms(1) by simp
    note step = candle_on_tick_own [OF own st, unfolded True IH(2)]
    show ?thesis
    proof (cases "map_of (ce_open s1) sy")
      case None
      then have e: "?xs = []" using IH(4) by simp
      have "series sy s1 m1 = []" using IH(3) e by simp
      then have "candles_of sy m1 = []" using None by (simp add: series_def)
      then show ?thesis using step None e True fr IH(1,2) ms bars_of_first [of "ce_seconds s" x]
        by (auto simp: series_def)
    next
      case (Some c0)
      then have ne: "?xs \<noteq> []" using IH(4) by auto
      obtain bs k o' h l c v where old: "bars_of (ce_seconds s) ?xs = bs @ [(k, o', h, l, c, v)]"
        and new: "bars_of (ce_seconds s) (?xs @ [x]) =
          (let p = tk_price x; q = tk_quantity x in
           if bucket_of (ce_seconds s) (ts x) < k then bars_of (ce_seconds s) ?xs
           else if bucket_of (ce_seconds s) (ts x) = k then bs @ [(k, o', max h p, min l p, p, v + q)]
           else bars_of (ce_seconds s) ?xs @ [(bucket_of (ce_seconds s) (ts x), p, p, p, p, q)])"
        using bars_of_snoc [OF ne] by blast
      have "candle_ohlcv c0 = (k, o', h, l, c, v)" "map (closed_ohlcv (ce_seconds s)) (candles_of sy m1) = bs"
        using IH(2,3) old Some by (auto simp: series_def)
      then show ?thesis using step Some True fr IH(1,2,3) ms old new
        by (auto simp: series_def candle_ohlcv_def Let_def split: if_splits)
    qed
  qed
qed

text \<open>C6: candles are exactly the ticks grouped by time.  From a fresh engine in live or replay
  mode, after any interleaving of ticks of any symbols, the candles published for a symbol,
  followed by its open candle, are the candles of its in-order ticks grouped by time bucket: the
  open is the first price of the bucket, the high the largest, the low the smallest, the close
  the last, the volume the sum, and the label of a published candle is the end of its bucket.
  A tick that lies in an earlier bucket than one already seen contributes nothing.\<close>

theorem candles_refine_ticks:
  assumes "new_candle_engine tf n mode = Inr s" and "mode \<noteq> ''backtest''" and "run_ticks xs s = (s', ms)"
  shows "series sy s' ms = bars_of (ce_seconds s) [e \<leftarrow> xs. tk_symbol e = sy]"
proof -
  have "ce_mode s \<noteq> ''backtest''" "ce_open s = []"
    using assms(1,2) by (auto simp: new_candle_engine_def split: sum.splits)
  from series_refines [OF this assms(3), of sy] show ?thesis by simp
qed

text \<open>a backtest bar is not counted twice.  In backtest mode, after a bar-shaped quote, ticks of
  its bucket are ignored: the open candle still holds the bar's open, high, low, close and
  volume, and nothing is published.\<close>

theorem backtest_bar_authoritative:
  assumes "ce_mode s = ''backtest''" and "candle_on_quote q s = (s1, ms)"
    and "list_all (\<lambda>e. tk_symbol e = qe_symbol q \<and> bucket_of (ce_seconds s) (ts e) = bucket_of (ce_seconds s) (ts q)) xs"
  shows "run_ticks xs s1 = (s1, []) \<and>
    map_option candle_ohlcv (map_of (ce_open s1) (qe_symbol q)) =
      Some (bucket_of (ce_seconds s) (ts q), qe_open q, qe_high q, qe_low q, qe_ltp q, qe_volume q)"
proof -
  have fr: "ce_mode s1 = ce_mode s \<and> ce_seconds s1 = ce_seconds s \<and>
      map_of (ce_bar_seeded s1) (qe_symbol q) = Some (bucket_of (ce_seconds s) (ts q))"
    using assms(1,2)
    by (auto simp: candle_on_quote_def ingest_bar_def close_if_other_def close_candle_def Let_def
        split: option.splits if_splits prod.splits)
  have "map_option candle_ohlcv (map_of (ce_open s1) (qe_symbol q)) =
      Some (bucket_of (ce_seconds s) (ts q), qe_open q, qe_high q, qe_low q, qe_ltp q, qe_volume q)"
    using assms(1,2)
    by (auto simp: candle_on_quote_def ingest_bar_def current_candle_def candle_ohlcv_def Let_def
        split: option.splits if_splits prod.splits)
  moreover have "run_ticks xs s1 = (s1, [])"
    using assms(3) unfolding run_ticks_def
    by (induction xs) (use fr assms(1) in \<open>auto simp: candle_on_tick_def\<close>)
  ultimately show ?thesis by simp
qed

definition buffers_bounded :: "candle_engine \<Rightarrow> bool" where
  "buffers_bounded s \<longleftrightarrow> (\<forall>sy. length (get_default (ce_closed s) sy []) \<le> ce_max_candles s)"

lemma close_candle_bounded:
  "close_candle sy c s = (s', ms) \<Longrightarrow> buffers_bounded s \<Longrightarrow> buffers_bounded s'"
  by (auto simp: close_candle_def buffers_bounded_def get_default_def Let_def split: option.splits if_splits)

lemma buffers_bounded_open [simp]:
  "buffers_bounded (s\<lparr>ce_open := x\<rparr>) = buffers_bounded s"
  "buffers_bounded (s\<lparr>ce_bar_seeded := y\<rparr>) = buffers_bounded s"
  "buffers_bounded (s\<lparr>ce_late_ticks := n\<rparr>) = buffers_bounded s"
  by (simp_all add: buffers_bounded_def)

lemma close_if_other_bounded:
  "close_if_other sy b s = (s', ms) \<Longrightarrow> buffers_bounded s \<Longrightarrow> buffers_bounded s'"
  by (auto simp: close_if_other_def close_candle_bounded split: option.splits if_splits)

lemma ingest_bounded: "ingest sy x p t v s = (s', ms) \<Longrightarrow> buffers_bounded s \<Longrightarrow> buffers_bounded s'"
  by (auto simp: ingest_def Let_def dest: close_if_other_bounded split: option.splits if_splits prod.splits)

lemma ingest_bar_bounded: "ingest_bar sy x a h l c v t s = (s', ms) \<Longrightarrow> buffers_bounded s \<Longrightarrow> buffers_bounded s'"
  by (auto simp: ingest_bar_def Let_def dest: close_if_other_bounded split: option.splits if_splits prod.splits)

lemma candle_handlers_bounded:
  "candle_on_tick e s = (s', ms) \<Longrightarrow> buffers_bounded s \<Longrightarrow> buffers_bounded s'"
  "candle_on_quote q s = (s', ms) \<Longrightarrow> buffers_bounded s \<Longrightarrow> buffers_bounded s'"
  by (auto simp: candle_on_tick_def candle_on_quote_def dest: ingest_bounded ingest_bar_bounded split: if_splits)

lemma flush_one_facts:
  assumes "flush_one sy s = (s', ms)"
  shows "ce_open s' = AList.delete sy (ce_open s) \<and>
     (buffers_bounded s \<longrightarrow> buffers_bounded s') \<and> length ms = (if map_of (ce_open s) sy = None then 0 else 1)"
proof (cases "map_of (ce_open s) sy")
  case None
  then have "AList.delete sy (ce_open s) = ce_open s" by (simp add: delete_idem map_of_eq_None_iff)
  then show ?thesis using assms None by (simp add: flush_one_def)
next
  case (Some c)
  let ?s = "s\<lparr>ce_open := AList.delete sy (ce_open s)\<rparr>"
  have c: "close_candle sy c ?s = (s', ms)" using assms Some by (simp add: flush_one_def)
  show ?thesis using closed_ohlcv_close [OF c] close_candle_bounded [OF c] Some c
    by (auto simp: close_candle_def Let_def)
qed

lemma flush_steps:
  "run_steps (map flush_one ks) s = (s', ms) \<Longrightarrow> distinct ks \<Longrightarrow> set ks \<subseteq> set (keys (ce_open s)) \<Longrightarrow>
     (buffers_bounded s \<longrightarrow> buffers_bounded s') \<and> length ms = length ks \<and>
     set (keys (ce_open s')) = set (keys (ce_open s)) - set ks"
proof (induction ks arbitrary: s s' ms)
  case Nil
  then show ?case by simp
next
  case (Cons k ks)
  obtain s1 m1 m2 where a: "flush_one k s = (s1, m1)" "run_steps (map flush_one ks) s1 = (s', m2)" "ms = m1 @ m2"
    using Cons.prems(1) by (auto split: prod.splits)
  note f = flush_one_facts [OF a(1)]
  have k1: "set (keys (ce_open s1)) = set (keys (ce_open s)) - {k}" using f by simp
  have "set ks \<subseteq> set (keys (ce_open s1))" using k1 Cons.prems by auto
  from Cons.IH [OF a(2) _ this] Cons.prems(2)
  have "(buffers_bounded s1 \<longrightarrow> buffers_bounded s') \<and> length m2 = length ks \<and>
     set (keys (ce_open s')) = set (keys (ce_open s1)) - set ks" by simp
  moreover have "map_of (ce_open s) k \<noteq> None" using Cons.prems(3) by (auto simp: map_of_eq_None_iff)
  ultimately show ?case using f k1 a(3) by auto
qed

text \<open>the candle buffer is bounded and nothing is left open after a flush.  With the
  kept candles of every symbol within the configured maximum, flushing all symbols publishes one
  candle per open one, leaves none open and keeps the bound.\<close>

theorem flush_closes_all:
  assumes "distinct (keys (ce_open s))" and "buffers_bounded s" and "flush None s = (s', ms)"
  shows "ce_open s' = [] \<and> length ms = length (ce_open s) \<and> buffers_bounded s'"
  using flush_steps [of "keys (ce_open s)" s s' ms] assms by (auto simp: flush_def)

section \<open>Examples\<close>

definition tick_at :: "int \<Rightarrow> real \<Rightarrow> tick_event" where
  "tick_at t p = \<lparr>ts = naive t, tk_symbol = ''TCS'', tk_exchange = ''NSE'', tk_price = p, tk_quantity = 5,
     tk_side = [], tk_kind = ''trade''\<rparr>"

definition one_minute :: "string \<Rightarrow> candle_engine" where
  "one_minute mode = \<lparr>ce_seconds = 60, ce_timeframe = ''1m'', ce_open = [], ce_closed = [], ce_max_candles = 100,
     ce_bar_seeded = [], ce_mode = mode, ce_late_ticks = 0\<rparr>"

lemma one_minute_new: "new_candle_engine ''1m'' 100 mode = Inr (one_minute mode)"
  by (simp add: new_candle_engine_def timeframe_seconds_def TIMEFRAME_SECONDS_def one_minute_def)

theorem candles_refine_ticks_witness:
  "\<exists>s' ms. run_ticks [tick_at 0 100, tick_at 30 105, tick_at 90 101] (one_minute ''live'') = (s', ms) \<and>
     series ''TCS'' s' ms = bars_of 60 [tick_at 0 100, tick_at 30 105, tick_at 90 101]"
proof -
  let ?xs = "[tick_at 0 100, tick_at 30 105, tick_at 90 101]"
  obtain s' ms where r: "run_ticks ?xs (one_minute ''live'') = (s', ms)" by fastforce
  have "filter (\<lambda>e. tk_symbol e = ''TCS'') ?xs = ?xs" by (simp add: tick_at_def)
  then show ?thesis using r candles_refine_ticks [OF one_minute_new _ r, of "''TCS''"] by (auto simp: one_minute_def)
qed

definition bar_at :: "int \<Rightarrow> quote_event" where
  "bar_at t = \<lparr>ts = naive t, qe_symbol = ''TCS'', qe_exchange = ''NSE'', qe_ltp = 102, qe_bid = 0, qe_ask = 0,
     qe_open = 100, qe_high = 103, qe_low = 99, qe_prev_close = 0, qe_volume = 1000, qe_oi = 0\<rparr>"

theorem backtest_bar_authoritative_witness:
  "run_ticks [(tick_at 60 102)] (fst (candle_on_quote (bar_at 60) (one_minute ''backtest''))) =
     (fst (candle_on_quote (bar_at 60) (one_minute ''backtest'')), [])"
proof -
  obtain s1 ms where q: "candle_on_quote (bar_at 60) (one_minute ''backtest'') = (s1, ms)" by fastforce
  from backtest_bar_authoritative [OF _ q, of "[tick_at 60 102]"] q show ?thesis
    by (simp add: one_minute_def tick_at_def bar_at_def)
qed

theorem flush_closes_all_witness:
  "\<exists>s' ms. flush None (fst (candle_on_quote (bar_at 60) (one_minute ''backtest''))) = (s', ms) \<and> ce_open s' = []"
proof -
  let ?s = "fst (candle_on_quote (bar_at 60) (one_minute ''backtest''))"
  obtain s' ms where f: "flush None ?s = (s', ms)" by fastforce
  have "distinct (keys (ce_open ?s))" "buffers_bounded ?s"
    by (simp_all add: candle_on_quote_def ingest_bar_def close_if_other_def one_minute_def bar_at_def
        buffers_bounded_def get_default_def Let_def)
  from flush_closes_all [OF this f] f show ?thesis by blast
qed

end
