(* ===== verification/RateGate.thy ===== *)
theory RateGate
  imports Prelude
begin

text \<open>
  \<open>ntrade/execution/rate_limit.py\<close> (\<open>BrokerRateGate\<close>, the sliding-window gate every broker call
  passes through) and \<open>ntrade/execution/retry.py\<close> (\<open>RetryPolicy\<close>, \<open>RateLimiter\<close>).

  The gate holds its lock while it reads the clock and decides, and sleeps outside it, so
  concurrent callers are a sequence of \<open>attempt\<close> and \<open>penalize\<close> operations with non-decreasing
  clock readings.  The main theorem is that no sliding window of any quota class ever holds more
  grants than its limit, for every interleaving of callers; a second one shows that a single
  caller is granted after at most two sleeps.
\<close>

section \<open>The gate\<close>

datatype quota = QUOTE | DATA | ORDER | NON_TRADING

type_synonym window = "real \<times> nat"

fun DEFAULT_WINDOWS :: "quota \<Rightarrow> window list" where
  "DEFAULT_WINDOWS QUOTE = [(1, 1)]"
| "DEFAULT_WINDOWS DATA = [(1, 5), (86400, 100000)]"
| "DEFAULT_WINDOWS ORDER = [(1, 10), (60, 250), (3600, 1000), (86400, 7000)]"
| "DEFAULT_WINDOWS NON_TRADING = [(1, 20)]"

definition BLOCKED_MIN_WINDOW_SPAN_S :: real where
  "BLOCKED_MIN_WINDOW_SPAN_S = 60"

record gate =
  gt_windows :: "quota \<Rightarrow> window list"
  gt_history :: "quota \<Rightarrow> real list list"
  gt_cooldown_until :: "quota \<Rightarrow> real"

definition new_gate :: "(quota \<Rightarrow> window list option) \<Rightarrow> gate" where
  "new_gate override =
     (let ws = (\<lambda>q. case override q of None \<Rightarrow> DEFAULT_WINDOWS q | Some w \<Rightarrow> w)
      in \<lparr>gt_windows = ws, gt_history = (\<lambda>q. map (\<lambda>_. []) (ws q)), gt_cooldown_until = (\<lambda>_. 0)\<rparr>)"

text \<open>The inner loop of \<open>_compute_wait\<close> on one deque: drop entries at or before \<open>now - span\<close>.\<close>

definition prune :: "real \<Rightarrow> real \<Rightarrow> real list \<Rightarrow> real list" where
  "prune now spn w = dropWhile (\<lambda>t. t \<le> now - spn) w"

text \<open>The loop over the class's windows; \<open>window[0]\<close> of an empty deque (limit 0) raises.\<close>

fun scan_windows ::
  "real \<Rightarrow> window list \<Rightarrow> real list list \<Rightarrow> real \<Rightarrow> (py_error + real) \<times> real list list" where
  "scan_windows now ((spn, limit) # ws) (h # hs) wait =
     (let h' = prune now spn h in
      if length h' \<ge> limit
      then (case h' of
              [] \<Rightarrow> (Inl (IndexErr ''deque index out of range''), h' # hs)
            | t # _ \<Rightarrow> (case scan_windows now ws hs (max wait (t + spn - now)) of
                         (r, hs') \<Rightarrow> (r, h' # hs')))
      else (case scan_windows now ws hs wait of (r, hs') \<Rightarrow> (r, h' # hs')))"
| "scan_windows now ws hs wait = (Inr wait, hs)"

definition compute_wait :: "real \<Rightarrow> quota \<Rightarrow> gate \<Rightarrow> (py_error + real) \<times> gate" where
  "compute_wait now q g =
     (let cooldown = gt_cooldown_until g q - now in
      if cooldown > 0 then (Inr cooldown, g)
      else (case scan_windows now (gt_windows g q) (gt_history g q) 0 of
              (r, hs) \<Rightarrow> (r, g\<lparr>gt_history := (gt_history g)(q := hs)\<rparr>)))"

text \<open>
  One pass of the loop in \<open>acquire\<close> under the lock, with its two clock readings: the seconds to
  sleep, or the grant.
\<close>

datatype pass = Granted | SleepFor real | Raised py_error

definition attempt :: "real \<Rightarrow> real \<Rightarrow> quota \<Rightarrow> gate \<Rightarrow> pass \<times> gate" where
  "attempt now now2 q g =
     (case compute_wait now q g of
        (Inl e, g') \<Rightarrow> (Raised e, g')
      | (Inr wait, g') \<Rightarrow>
          if wait \<le> 0
          then (Granted, g'\<lparr>gt_history := (gt_history g')(q := map (\<lambda>w. w @ [now2]) (gt_history g' q))\<rparr>)
          else (SleepFor wait, g'))"

text \<open>\<open>acquire\<close> by a lone caller: \<open>slp t w\<close> is the clock after sleeping \<open>w\<close> seconds from \<open>t\<close>;
  the fuel counts passes of the loop.\<close>

primrec acquire ::
  "(real \<Rightarrow> real \<Rightarrow> real) \<Rightarrow> nat \<Rightarrow> quota \<Rightarrow> real \<Rightarrow> gate \<Rightarrow> (py_error + real \<times> gate) option" where
  "acquire slp 0 q now g = None"
| "acquire slp (Suc n) q now g =
     (case attempt now now q g of
        (Granted, g') \<Rightarrow> Some (Inr (now, g'))
      | (SleepFor w, g') \<Rightarrow> acquire slp n q (slp now w) g'
      | (Raised e, g') \<Rightarrow> Some (Inl e))"

definition penalize :: "real \<Rightarrow> quota \<Rightarrow> real \<Rightarrow> gate \<Rightarrow> gate" where
  "penalize now q seconds g =
     g\<lparr>gt_cooldown_until := (gt_cooldown_until g)(q := max (gt_cooldown_until g q) (now + seconds))\<rparr>"

record quota_status =
  qs_windows :: "(real \<times> nat \<times> nat) list"
  qs_cooldown_remaining :: real
  qs_blocked :: bool

definition gate_status :: "real \<Rightarrow> gate \<Rightarrow> quota \<Rightarrow> quota_status" where
  "gate_status now g q =
     (let ws = map (\<lambda>((spn, limit), w). (spn, limit, length [t \<leftarrow> w. t > now - spn]))
                 (zip (gt_windows g q) (gt_history g q));
          cooldown = max 0 (gt_cooldown_until g q - now)
      in \<lparr>qs_windows = ws, qs_cooldown_remaining = py_round 3 cooldown,
          qs_blocked = (cooldown > 0 \<or>
            list_ex (\<lambda>(spn, limit, used). used \<ge> limit \<and> spn \<ge> BLOCKED_MIN_WINDOW_SPAN_S) ws)\<rparr>)"

section \<open>Retry and pacing\<close>

record retry_policy =
  max_retries :: nat
  base_delay :: real
  max_delay :: real
  multiplier :: real
  jitter :: real

text \<open>\<open>is_rate_limited\<close>: the exception class, or one of the markers in its text.\<close>

definition occurs_in :: "string \<Rightarrow> string \<Rightarrow> bool" where
  "occurs_in p s \<longleftrightarrow> list_ex (\<lambda>i. take (length p) (drop i s) = p) [0..<Suc (length s)]"

definition is_rate_limited :: "py_error \<Rightarrow> bool" where
  "is_rate_limited e \<longleftrightarrow>
     e = RateLimitedErr \<or>
     list_ex (\<lambda>p. occurs_in p (lower (error_text e)))
       [''dh-904'', ''rate_limit'', ''rate limit'', ''429'', ''too many requests'']"

text \<open>\<open>delays()\<close>: \<open>rnd i\<close> is the \<open>i\<close>-th draw of \<open>random.uniform\<close>.\<close>

definition delay :: "(nat \<Rightarrow> real) \<Rightarrow> retry_policy \<Rightarrow> nat \<Rightarrow> real" where
  "delay rnd p i = max 0 (min (base_delay p * multiplier p ^ i) (max_delay p) + rnd i)"

text \<open>
  \<open>execute\<close>: \<open>fn\<close> is the call on the outside world \<open>'w\<close>; \<open>no_retry\<close> is the predicate in force.
  The result, the world after, and the sleeps made in between.
\<close>

fun execute_from ::
  "nat \<Rightarrow> (nat \<Rightarrow> real) \<Rightarrow> retry_policy \<Rightarrow> (py_error \<Rightarrow> bool) \<Rightarrow> ('w \<Rightarrow> (py_error + 'r) \<times> 'w) \<Rightarrow>
   nat \<Rightarrow> 'w \<Rightarrow> (py_error + 'r) \<times> 'w \<times> real list" where
  "execute_from 0 rnd p no_retry fn attempt_no w =
     (Inl (TypeErr ''exceptions must derive from BaseException''), w, [])"
| "execute_from (Suc k) rnd p no_retry fn attempt_no w =
     (case fn w of
        (Inr r, w') \<Rightarrow> (Inr r, w', [])
      | (Inl e, w') \<Rightarrow>
          if no_retry e then (Inl e, w', [])
          else if k = 0 then (Inl e, w', [])
          else (case execute_from k rnd p no_retry fn (Suc attempt_no) w' of
                  (out, w'', sl) \<Rightarrow> (out, w'', delay rnd p attempt_no # sl)))"

definition execute ::
  "(nat \<Rightarrow> real) \<Rightarrow> retry_policy \<Rightarrow> (py_error \<Rightarrow> bool) option \<Rightarrow> ('w \<Rightarrow> (py_error + 'r) \<times> 'w) \<Rightarrow> 'w \<Rightarrow>
   (py_error + 'r) \<times> 'w \<times> real list" where
  "execute rnd p no_retry_on fn w =
     execute_from (max_retries p) rnd p
       (case no_retry_on of Some f \<Rightarrow> f | None \<Rightarrow> is_rate_limited) fn 0 w"

record rate_limiter =
  rl_interval :: real
  rl_last_time :: real

definition new_rate_limiter :: "real \<Rightarrow> rate_limiter" where
  "new_rate_limiter cps = \<lparr>rl_interval = (if cps > 0 then 1 / cps else 0), rl_last_time = 0\<rparr>"

text \<open>\<open>wait\<close> holds the lock while it sleeps; it returns at the clock reading it stores.\<close>

definition limiter_wait :: "(real \<Rightarrow> real \<Rightarrow> real) \<Rightarrow> real \<Rightarrow> rate_limiter \<Rightarrow> real \<times> rate_limiter" where
  "limiter_wait slp now r =
     (let elapsed = now - rl_last_time r;
          t = (if elapsed < rl_interval r then slp now (rl_interval r - elapsed) else now)
      in (t, r\<lparr>rl_last_time := t\<rparr>))"

section \<open>Sliding windows\<close>

text \<open>
  What the gate knows of one window: its deque is the end of the list of grants, everything it
  dropped is out of the window at the present time \<open>T\<close>, and it never holds more than the limit.
\<close>

definition tracks :: "real \<Rightarrow> real list \<Rightarrow> window \<Rightarrow> real list \<Rightarrow> bool" where
  "tracks T gs w h \<longleftrightarrow>
     (\<exists>old. gs = old @ h \<and> list_all (\<lambda>t. t \<le> T - fst w) old) \<and> length h \<le> snd w \<and> 0 < snd w"

definition in_window :: "real \<Rightarrow> real \<Rightarrow> real list \<Rightarrow> nat" where
  "in_window x spn gs = length [t \<leftarrow> gs. x - spn < t \<and> t \<le> x]"

lemma tracks_later: "tracks T gs w h \<Longrightarrow> T \<le> T' \<Longrightarrow> tracks T' gs w h"
  unfolding tracks_def list_all_iff by fastforce

lemma tracks_all_later:
  "list_all2 (tracks T gs) ws hs \<Longrightarrow> T \<le> T' \<Longrightarrow> list_all2 (tracks T' gs) ws hs"
  by (auto simp: list_all2_conv_all_nth intro: tracks_later)

lemma tracks_prune:
  assumes "tracks T gs w h" and "T \<le> now"
  shows "tracks now gs w (prune now (fst w) h)"
proof -
  from assms obtain old where l: "gs = old @ h" "list_all (\<lambda>t. t \<le> T - fst w) old" "length h \<le> snd w" "0 < snd w"
    by (auto simp: tracks_def)
  have "gs = (old @ takeWhile (\<lambda>t. t \<le> now - fst w) h) @ prune now (fst w) h"
    by (simp add: l(1) prune_def)
  moreover have "list_all (\<lambda>t. t \<le> now - fst w) (old @ takeWhile (\<lambda>t. t \<le> now - fst w) h)"
    using l(2) assms(2) by (auto simp: list_all_iff dest: set_takeWhileD)
  moreover have "length (prune now (fst w) h) \<le> snd w"
    using l(3) length_dropWhile_le [of "\<lambda>t. t \<le> now - fst w" h] by (simp add: prune_def)
  ultimately show ?thesis using l(4) unfolding tracks_def by blast
qed

lemma tracks_append:
  "tracks T gs w h \<Longrightarrow> length h < snd w \<Longrightarrow> tracks T (gs @ [t]) w (h @ [t])"
  unfolding tracks_def by auto

lemma prune_hd: "prune now spn h = t # ts \<Longrightarrow> now - spn < t"
  by (metis dropWhile_eq_Cons_conv not_le prune_def)

text \<open>The scan keeps every window tracked, and a non-positive wait means room in all of them.\<close>

lemma scan_windows_tracks:
  "list_all2 (tracks T gs) ws hs \<Longrightarrow> T \<le> now \<Longrightarrow> scan_windows now ws hs wait = (r, hs') \<Longrightarrow>
   list_all2 (tracks now gs) ws hs' \<and>
   (\<exists>v. r = Inr v \<and> wait \<le> v \<and> (v \<le> 0 \<longrightarrow> list_all2 (\<lambda>w h. length h < snd w) ws hs'))"
proof (induction now ws hs wait arbitrary: r hs' rule: scan_windows.induct)
  case (1 now spn limit ws h hs wait)
  let ?h = "prune now spn h"
  have t: "tracks now gs (spn, limit) ?h"
    using 1(3,4) tracks_prune [of T gs "(spn, limit)" h now] by simp
  have rest: "list_all2 (tracks T gs) ws hs" using 1(3) by simp
  show ?case
  proof (cases "length ?h \<ge> limit")
    case True
    with t obtain x xs where h: "?h = x # xs" by (cases ?h) (auto simp: tracks_def)
    have pos: "0 < x + spn - now" using prune_hd [OF h] by simp
    obtain r1 hs1 where s: "scan_windows now ws hs (max wait (x + spn - now)) = (r1, hs1)" by fastforce
    have res: "r = r1" "hs' = ?h # hs1" using 1(5) True h s by auto
    from 1(1) [OF _ _ h rest 1(4) s] True
    obtain v where "r1 = Inr v" "max wait (x + spn - now) \<le> v" "list_all2 (tracks now gs) ws hs1" by auto
    then show ?thesis using res t pos by auto
  next
    case False
    obtain r1 hs1 where s: "scan_windows now ws hs wait = (r1, hs1)" by fastforce
    have res: "r = r1" "hs' = ?h # hs1" using 1(5) False s by (auto simp: Let_def)
    from 1(2) [OF _ _ rest 1(4) s] False
    obtain v where "r1 = Inr v" "wait \<le> v" "list_all2 (tracks now gs) ws hs1"
      "v \<le> 0 \<longrightarrow> list_all2 (\<lambda>w h. length h < snd w) ws hs1" by auto
    then show ?thesis using res t False by auto
  qed
qed auto

lemma in_window_bound:
  assumes "tracks now gs w h" and "length h < snd w" and "now \<le> t"
    and "\<forall>x. in_window x (fst w) gs \<le> snd w"
  shows "in_window x (fst w) (gs @ [t]) \<le> snd w"
proof (cases "x < t")
  case True
  then show ?thesis using assms(4) by (simp add: in_window_def)
next
  case False
  from assms(1) obtain old where gs: "gs = old @ h" and old: "list_all (\<lambda>t. t \<le> now - fst w) old"
    by (auto simp: tracks_def)
  have "[t \<leftarrow> old. x - fst w < t \<and> t \<le> x] = []"
    using old False assms(3) by (auto simp: list_all_iff filter_empty_conv)
  then have "in_window x (fst w) gs \<le> length h"
    using length_filter_le [of "\<lambda>t. x - fst w < t \<and> t \<le> x" h] by (simp add: in_window_def gs)
  moreover have "in_window x (fst w) (gs @ [t]) \<le> in_window x (fst w) gs + 1"
    by (simp add: in_window_def)
  ultimately have "in_window x (fst w) (gs @ [t]) \<le> length h + 1" by simp
  with assms(2) show ?thesis by simp
qed

text \<open>
  The gate at time \<open>T\<close>, with the times of all grants made so far per class: the deques track
  them and no window of any class was ever over its limit.
\<close>

definition gate_ok :: "real \<Rightarrow> (quota \<Rightarrow> real list) \<Rightarrow> gate \<Rightarrow> bool" where
  "gate_ok T gs g \<longleftrightarrow>
     (\<forall>q. list_all2 (tracks T (gs q)) (gt_windows g q) (gt_history g q) \<and>
          (\<forall>w\<in>set (gt_windows g q). \<forall>x. in_window x (fst w) (gs q) \<le> snd w))"

lemma gate_ok_later: "gate_ok T gs g \<Longrightarrow> T \<le> T' \<Longrightarrow> gate_ok T' gs g"
  unfolding gate_ok_def by (meson tracks_all_later)

lemma new_gate_ok:
  assumes "\<forall>q. list_all (\<lambda>w. 0 < snd w) (gt_windows (new_gate ov) q)"
  shows "gate_ok T (\<lambda>_. []) (new_gate ov)"
  using assms
  by (auto simp: gate_ok_def new_gate_def Let_def tracks_def in_window_def list_all2_map2 list_all_iff
      intro!: list.rel_refl_strong)

lemma compute_wait_ok:
  assumes "gate_ok T gs g" and "T \<le> now" and "compute_wait now q g = (r, g')"
  shows "gate_ok now gs g' \<and> gt_windows g' = gt_windows g \<and>
    (\<exists>v. r = Inr v \<and> (v \<le> 0 \<longrightarrow>
       gt_cooldown_until g q \<le> now \<and> list_all2 (\<lambda>w h. length h < snd w) (gt_windows g q) (gt_history g' q)))"
proof (cases "gt_cooldown_until g q - now > 0")
  case True
  moreover have "list_all2 (tracks now (gs q)) ws hs" if "list_all2 (tracks T (gs q)) ws hs" for q ws hs
    using that tracks_later [OF _ assms(2)] by (auto elim: list.rel_mono_strong)
  ultimately show ?thesis
    using assms by (auto simp: compute_wait_def gate_ok_def)
next
  case False
  obtain r1 hs where s: "scan_windows now (gt_windows g q) (gt_history g q) 0 = (r1, hs)" by fastforce
  have e: "r = r1" "g' = g\<lparr>gt_history := (gt_history g)(q := hs)\<rparr>"
    using assms(3) False s by (auto simp: compute_wait_def)
  have "list_all2 (tracks T (gs q)) (gt_windows g q) (gt_history g q)" using assms(1) by (simp add: gate_ok_def)
  note sc = scan_windows_tracks [OF this assms(2) s]
  have "list_all2 (tracks now (gs q')) ws hs'" if "list_all2 (tracks T (gs q')) ws hs'" for q' ws hs'
    using that tracks_later [OF _ assms(2)] by (auto elim: list.rel_mono_strong)
  then show ?thesis
    using assms(1) sc False unfolding e gate_ok_def by auto
qed

lemma attempt_ok:
  assumes "gate_ok T gs g" and "T \<le> now" and "now \<le> now2" and "attempt now now2 q g = (out, g')"
  shows "gt_windows g' = gt_windows g \<and> gt_cooldown_until g' = gt_cooldown_until g \<and>
    (case out of
       Granted \<Rightarrow> gt_cooldown_until g q \<le> now \<and> gate_ok now2 (gs(q := gs q @ [now2])) g'
     | SleepFor w \<Rightarrow> 0 < w \<and> gate_ok now gs g'
     | Raised e \<Rightarrow> False)"
proof -
  obtain r g1 where c: "compute_wait now q g = (r, g1)" by fastforce
  note cw = compute_wait_ok [OF assms(1,2) c]
  have cd: "gt_cooldown_until g1 = gt_cooldown_until g"
    using c by (auto simp: compute_wait_def Let_def split: if_splits prod.splits)
  from cw obtain v where v: "r = Inr v" by blast
  show ?thesis
  proof (cases "v \<le> 0")
    case False
    then show ?thesis using assms(4) c cw v cd by (auto simp: attempt_def)
  next
    case True
    have g': "out = Granted" "g' = g1\<lparr>gt_history := (gt_history g1)(q := map (\<lambda>w. w @ [now2]) (gt_history g1 q))\<rparr>"
      using assms(4) c v True by (auto simp: attempt_def)
    from cw v True have room: "list_all2 (\<lambda>w h. length h < snd w) (gt_windows g q) (gt_history g1 q)"
      and ok: "gate_ok now gs g1" and ws: "gt_windows g1 = gt_windows g" and cool: "gt_cooldown_until g q \<le> now" by auto
    have tr: "list_all2 (tracks now (gs q')) (gt_windows g q') (gt_history g1 q')" for q'
      using ok ws by (simp add: gate_ok_def)
    have t1: "list_all2 (tracks now2 (gs q @ [now2])) (gt_windows g q) (map (\<lambda>w. w @ [now2]) (gt_history g1 q))"
      using tr [of q] room tracks_append tracks_later [OF _ assms(3)]
      by (auto simp: list_all2_conv_all_nth)
    have t2: "list_all2 (tracks now2 (gs q')) (gt_windows g q') (gt_history g1 q')" for q'
      by (rule tracks_all_later [OF tr assms(3)])
    have "in_window x (fst w) (gs q @ [now2]) \<le> snd w" if "w \<in> set (gt_windows g q)" for w x
    proof -
      from that obtain i where i: "i < length (gt_windows g q)" "gt_windows g q ! i = w" by (auto simp: in_set_conv_nth)
      have "tracks now (gs q) w (gt_history g1 q ! i)" "length (gt_history g1 q ! i) < snd w"
        using list_all2_nthD [OF tr i(1)] list_all2_nthD [OF room i(1)] i(2) by auto
      then show ?thesis
        using in_window_bound assms(3) ok ws that by (simp add: gate_ok_def)
    qed
    then show ?thesis
      using g' cool t1 t2 ws cd ok by (auto simp: gate_ok_def)
  qed
qed

section \<open>Runs of the gate\<close>

text \<open>Any interleaving of passes of \<open>acquire\<close> and of penalties, at non-decreasing clock
  readings; the third component collects the grant times per class.\<close>

inductive gate_run :: "gate \<Rightarrow> real \<Rightarrow> (quota \<Rightarrow> real list) \<Rightarrow> gate \<Rightarrow> bool" for g0 :: gate where
  start: "gate_run g0 T (\<lambda>_. []) g0"
| granted: "gate_run g0 T gs g \<Longrightarrow> T \<le> now \<Longrightarrow> now \<le> now2 \<Longrightarrow> attempt now now2 q g = (Granted, g') \<Longrightarrow>
    gate_run g0 now2 (gs(q := gs q @ [now2])) g'"
| waiting: "gate_run g0 T gs g \<Longrightarrow> T \<le> now \<Longrightarrow> attempt now now2 q g = (SleepFor w, g') \<Longrightarrow> gate_run g0 now gs g'"
| penalty: "gate_run g0 T gs g \<Longrightarrow> T \<le> now \<Longrightarrow> gate_run g0 now gs (penalize now q secs g)"

lemma attempt_sleep_snd: "attempt now now2 q g = (SleepFor w, g') \<Longrightarrow> attempt now now q g = (SleepFor w, g')"
  by (auto simp: attempt_def split: prod.splits sum.splits if_splits)

lemma gate_run_ok:
  assumes "gate_run g0 T gs g" and "\<And>T. gate_ok T (\<lambda>_. []) g0"
  shows "gate_ok T gs g \<and> gt_windows g = gt_windows g0"
  using assms(1)
proof (induction rule: gate_run.induct)
  case (start T)
  show ?case using assms(2) by simp
next
  case (granted T gs g now now2 q g')
  then show ?case using attempt_ok [of T gs g now now2 q Granted g'] by (simp add: fun_upd_def)
next
  case (waiting T gs g now now2 q w g')
  then show ?case using attempt_ok [of T gs g now now q "SleepFor w" g'] attempt_sleep_snd by fastforce
next
  case (penalty T gs g now q secs)
  then have "gate_ok now gs g" using gate_ok_later by blast
  with penalty show ?case by (simp add: gate_ok_def penalize_def)
qed

text \<open>C18: the rate limits hold in every sliding window.  For a gate whose limits are positive,
  however many callers interleave their attempts and penalties, and at every point in time \<open>x\<close>,
  the grants of a quota class in the last \<open>span\<close> seconds before \<open>x\<close> never exceed the limit of any
  of the class's windows.\<close>

theorem sliding_window_limit:
  assumes "\<forall>q. list_all (\<lambda>w. 0 < snd w) (gt_windows (new_gate ov) q)"
    and "gate_run (new_gate ov) T gs g"
    and "(spn, limit) \<in> set (gt_windows (new_gate ov) q)"
  shows "length [t \<leftarrow> gs q. x - spn < t \<and> t \<le> x] \<le> limit"
proof -
  have "gate_ok T gs g \<and> gt_windows g = gt_windows (new_gate ov)"
    by (rule gate_run_ok [OF assms(2) new_gate_ok [OF assms(1)]])
  with assms(3) show ?thesis by (fastforce simp: gate_ok_def in_window_def)
qed

text \<open>a penalty is served.  After \<open>penalize\<close>, no pass before the end of the penalty is granted
  and each such pass asks to sleep exactly until then; later penalties never shorten it.\<close>

theorem penalty_is_served:
  assumes "now < t + secs"
  shows "\<exists>w g'. attempt now now2 q (penalize t q secs g) = (SleepFor w, g') \<and> t + secs \<le> now + w \<and>
    gt_cooldown_until (penalize t' q secs' (penalize t q secs g)) q \<ge> t + secs"
proof -
  have "0 < gt_cooldown_until (penalize t q secs g) q - now" using assms by (simp add: penalize_def)
  then show ?thesis by (auto simp: attempt_def compute_wait_def penalize_def)
qed

section \<open>A lone caller is granted\<close>

text \<open>After sleeping the computed wait, every window that was full has room.\<close>

lemma scan_windows_wait:
  "list_all2 (tracks T gs) ws hs \<Longrightarrow> T \<le> now \<Longrightarrow> scan_windows now ws hs wait = (Inr v, hs') \<Longrightarrow>
   wait \<le> v \<and> (\<forall>now' wait'. now + v \<le> now' \<longrightarrow> (\<exists>hs''. scan_windows now' ws hs' wait' = (Inr wait', hs'')))"
proof (induction now ws hs wait arbitrary: v hs' rule: scan_windows.induct)
  case (1 now spn limit ws h hs wait)
  let ?h = "prune now spn h"
  have t: "tracks now gs (spn, limit) ?h"
    using 1(3,4) tracks_prune [of T gs "(spn, limit)" h now] by simp
  have rest: "list_all2 (tracks T gs) ws hs" using 1(3) by simp
  show ?case
  proof (cases "length ?h \<ge> limit")
    case True
    with t obtain x xs where h: "?h = x # xs" and l: "length xs < limit" by (cases ?h) (auto simp: tracks_def)
    obtain r1 hs1 where s: "scan_windows now ws hs (max wait (x + spn - now)) = (r1, hs1)" by fastforce
    have res: "r1 = Inr v" "hs' = ?h # hs1" using 1(5) True h s by auto
    note ih = 1(1) [OF _ _ h rest 1(4) s [unfolded res]]
    have short: "length (prune now' spn ?h) < limit" if "now + v \<le> now'" for now'
    proof -
      have "x \<le> now' - spn" using ih True that by simp
      then show ?thesis
        using l length_dropWhile_le [of "\<lambda>t. t \<le> now' - spn" xs]
        by (simp add: h) (simp add: prune_def)
    qed
    have step: "scan_windows now' ((spn, limit) # ws) hs' wait' =
        (case scan_windows now' ws hs1 wait' of (r, hs'') \<Rightarrow> (r, prune now' spn ?h # hs''))"
      if "now + v \<le> now'" for now' wait' using short [OF that] by (simp add: res(2) Let_def)
    have ih': "max wait (x + spn - now) \<le> v \<and> (\<forall>now' wait'. now + v \<le> now' \<longrightarrow>
        (\<exists>hs''. scan_windows now' ws hs1 wait' = (Inr wait', hs'')))" using ih True by blast
    show ?thesis
    proof (intro conjI allI impI)
      show "wait \<le> v" using ih' by simp
      fix now' wait' assume n: "now + v \<le> now'"
      with ih' obtain hs'' where "scan_windows now' ws hs1 wait' = (Inr wait', hs'')" by blast
      with step [OF n] show "\<exists>hs''. scan_windows now' ((spn, limit) # ws) hs' wait' = (Inr wait', hs'')" by auto
    qed
  next
    case False
    obtain r1 hs1 where s: "scan_windows now ws hs wait = (r1, hs1)" by fastforce
    have res: "r1 = Inr v" "hs' = ?h # hs1" using 1(5) False s by (auto simp: Let_def)
    note ih = 1(2) [OF _ _ rest 1(4) s [unfolded res]]
    have short: "length (prune now' spn ?h) < limit" for now'
      using False length_dropWhile_le [of "\<lambda>t. t \<le> now' - spn" ?h] unfolding prune_def [of now'] by simp
    have step: "scan_windows now' ((spn, limit) # ws) hs' wait' =
        (case scan_windows now' ws hs1 wait' of (r, hs'') \<Rightarrow> (r, prune now' spn ?h # hs''))" for now' wait'
      using short [of now'] by (simp add: res(2) Let_def)
    have ih': "wait \<le> v \<and> (\<forall>now' wait'. now + v \<le> now' \<longrightarrow>
        (\<exists>hs''. scan_windows now' ws hs1 wait' = (Inr wait', hs'')))" using ih False by blast
    show ?thesis
    proof (intro conjI allI impI)
      show "wait \<le> v" using ih' by simp
      fix now' wait' assume n: "now + v \<le> now'"
      with ih' obtain hs'' where "scan_windows now' ws hs1 wait' = (Inr wait', hs'')" by blast
      with step show "\<exists>hs''. scan_windows now' ((spn, limit) # ws) hs' wait' = (Inr wait', hs'')" by auto
    qed
  qed
qed auto

lemma attempt_after_wait:
  assumes "gate_ok T gs g" and "T \<le> now" and "gt_cooldown_until g q \<le> now"
    and "attempt now now q g = (SleepFor w, g')" and "now + w \<le> now'"
  shows "\<exists>g''. attempt now' now' q g' = (Granted, g'')"
proof -
  obtain v hs where s: "scan_windows now (gt_windows g q) (gt_history g q) 0 = (Inr v, hs)"
    and w: "w = v" and g': "g' = g\<lparr>gt_history := (gt_history g)(q := hs)\<rparr>" and v: "0 < v"
    using assms(3,4)
    by (auto simp: attempt_def compute_wait_def Let_def split: prod.splits sum.splits if_splits)
  have "list_all2 (tracks T (gs q)) (gt_windows g q) (gt_history g q)" using assms(1) by (simp add: gate_ok_def)
  from scan_windows_wait [OF this assms(2) s] assms(5) w
  obtain hs'' where "scan_windows now' (gt_windows g q) hs 0 = (Inr 0, hs'')" by blast
  moreover have "\<not> 0 < gt_cooldown_until g' q - now'" using assms(3,5) w v g' by simp
  ultimately show ?thesis by (simp add: attempt_def compute_wait_def g')
qed

lemma acquire_more: "acquire slp n q now g = Some y \<Longrightarrow> acquire slp (Suc n) q now g = Some y"
proof (induction n arbitrary: now g)
  case (Suc n)
  obtain out g1 where a: "attempt now now q g = (out, g1)" by fastforce
  have step: "acquire slp (Suc k) q now g = (case out of Granted \<Rightarrow> Some (Inr (now, g1))
      | SleepFor w \<Rightarrow> acquire slp k q (slp now w) g1 | Raised e \<Rightarrow> Some (Inl e))" for k
    using a by (simp split: pass.splits)
  show ?case using Suc.prems Suc.IH unfolding step by (cases out) simp_all
qed simp

text \<open>C39: a lone caller gets through.  If sleeping \<open>w\<close> seconds advances the clock by at least \<open>w\<close>,
  then from any reachable state \<open>acquire\<close> returns after at most three passes of its loop (one
  sleep for a penalty, one for full windows), never raises, and is granted at a time when the
  penalty of the class is over.\<close>

theorem acquire_returns:
  assumes "\<forall>q. list_all (\<lambda>w. 0 < snd w) (gt_windows (new_gate ov) q)"
    and "gate_run (new_gate ov) T gs g" and "T \<le> now" and "\<forall>t w. t + w \<le> slp t w"
  shows "\<exists>t g'. acquire slp 3 q now g = Some (Inr (t, g')) \<and> now \<le> t \<and> gt_cooldown_until g q \<le> t"
proof -
  have ok: "gate_ok T gs g" using gate_run_ok [OF assms(2) new_gate_ok [OF assms(1)]] by blast
  have after: "\<exists>t g'. acquire slp 2 q now' g = Some (Inr (t, g')) \<and> now' \<le> t"
    if n: "now \<le> now'" "gt_cooldown_until g q \<le> now'" for now'
  proof -
    have T': "T \<le> now'" using n(1) assms(3) by simp
    obtain out g1 where a: "attempt now' now' q g = (out, g1)" by fastforce
    show ?thesis
    proof (cases out)
      case (SleepFor w)
      then have "0 < w" using attempt_ok [OF ok T' _ a] by simp
      moreover have "\<exists>g''. attempt (slp now' w) (slp now' w) q g1 = (Granted, g'')"
        using attempt_after_wait [OF ok T' n(2)] a SleepFor assms(4) by blast
      moreover have "now' + w \<le> slp now' w" using assms(4) by blast
      ultimately show ?thesis using a SleepFor by (auto simp: numeral_2_eq_2)
    qed (use attempt_ok [OF ok T' _ a] a in \<open>auto simp: numeral_2_eq_2\<close>)
  qed
  show ?thesis
  proof (cases "gt_cooldown_until g q \<le> now")
    case True
    then obtain t g' where r: "acquire slp 2 q now g = Some (Inr (t, g'))" "now \<le> t" using after by blast
    then have "acquire slp 3 q now g = Some (Inr (t, g'))"
      using acquire_more [of slp 2 q now g] by (simp add: numeral_3_eq_3 numeral_2_eq_2)
    with r True show ?thesis by auto
  next
    case False
    let ?w = "gt_cooldown_until g q - now"
    have "attempt now now q g = (SleepFor ?w, g)" using False by (simp add: attempt_def compute_wait_def)
    then have s: "acquire slp 3 q now g = acquire slp 2 q (slp now ?w) g"
      by (simp add: numeral_3_eq_3 numeral_2_eq_2)
    have c: "gt_cooldown_until g q \<le> slp now ?w" using assms(4) [rule_format, of now ?w] by simp
    with after [of "slp now ?w"] False s show ?thesis by fastforce
  qed
qed

section \<open>Retry and pacing\<close>

text \<open>The number of calls \<open>execute\<close> makes, counted by a world that records them.\<close>

lemma execute_from_rate_limited:
  "0 < k \<Longrightarrow> fn w = (Inl e, w') \<Longrightarrow> no_retry e \<Longrightarrow> execute_from k rnd p no_retry fn i w = (Inl e, w', [])"
  by (cases k) simp_all

lemma execute_from_sleeps:
  "execute_from k rnd p no_retry fn i w = (out, w', sl) \<Longrightarrow>
   length sl < max 1 k \<and> (\<forall>j<length sl. sl ! j = delay rnd p (i + j))"
proof (induction k arbitrary: i w out w' sl)
  case 0
  then show ?case by simp
next
  case (Suc k)
  show ?case
  proof (cases "\<exists>e w1. fn w = (Inl e, w1) \<and> \<not> no_retry e \<and> k \<noteq> 0")
    case False
    then have "sl = []" using Suc.prems by (auto split: prod.splits sum.splits if_splits)
    then show ?thesis by simp
  next
    case True
    then obtain e w1 where f: "fn w = (Inl e, w1)" "\<not> no_retry e" "k \<noteq> 0" by blast
    obtain out1 w2 sl1 where r: "execute_from k rnd p no_retry fn (Suc i) w1 = (out1, w2, sl1)" by (metis prod_cases3)
    have sl: "sl = delay rnd p i # sl1" using Suc.prems f r by auto
    have ih: "length sl1 < max 1 k" "\<forall>j<length sl1. sl1 ! j = delay rnd p (Suc i + j)"
      using Suc.IH [OF r] by auto
    then show ?thesis using f(3) by (auto simp: sl nth_Cons split: nat.splits)
  qed
qed

lemma execute_from_success:
  "fn w = (Inr r, w') \<Longrightarrow> execute_from (Suc k) rnd p no_retry fn i w = (Inr r, w', [])"
  by simp

text \<open>a throttled call is never retried, and backoff is bounded.  With at least one attempt
  configured, a call that fails with a rate-limit error is made once and its error returned
  without sleeping; in every case fewer sleeps are made than attempts are allowed, and for a
  non-negative jitter bound each of them lasts at most the cap plus the jitter.\<close>

theorem retry_bounded:
  assumes "0 < max_retries p" and "execute rnd p None fn w = (out, w', sl)"
    and "\<forall>i. rnd i \<le> jitter p / 2" and "0 \<le> max_delay p + jitter p / 2"
  shows "length sl < max_retries p \<and> (\<forall>d\<in>set sl. 0 \<le> d \<and> d \<le> max_delay p + jitter p / 2) \<and>
    (\<forall>e w1. fn w = (Inl e, w1) \<and> is_rate_limited e \<longrightarrow> out = Inl e \<and> w' = w1 \<and> sl = [])"
proof -
  have ex: "execute_from (max_retries p) rnd p is_rate_limited fn 0 w = (out, w', sl)"
    using assms(2) by (simp add: execute_def)
  note sp = execute_from_sleeps [OF ex]
  have "0 \<le> delay rnd p i \<and> delay rnd p i \<le> max_delay p + jitter p / 2" for i
    using assms(3) [rule_format, of i] assms(4) by (auto simp: delay_def min_def)
  then have "\<forall>d\<in>set sl. 0 \<le> d \<and> d \<le> max_delay p + jitter p / 2"
    using sp by (auto simp: in_set_conv_nth)
  then show ?thesis
    using sp assms(1) ex execute_from_rate_limited [OF assms(1)] by fastforce
qed

text \<open>the pacing limiter spaces calls.  If sleeping advances the clock by at least the time
  asked for, two consecutive returns of \<open>wait\<close> are at least the configured interval apart.\<close>

theorem limiter_spaces_calls:
  assumes "limiter_wait slp now r = (t, r')" and "limiter_wait slp now' r' = (t', r'')"
    and "\<forall>t w. t + w \<le> slp t w"
  shows "t + rl_interval r \<le> t' \<and> rl_last_time r'' = t'"
proof -
  have r': "rl_interval r' = rl_interval r" "rl_last_time r' = t"
    using assms(1) by (auto simp: limiter_wait_def Let_def)
  have "now' + (rl_interval r - (now' - t)) \<le> slp now' (rl_interval r - (now' - t))"
    using assms(3) by blast
  then show ?thesis
    using assms(2) r' by (auto simp: limiter_wait_def Let_def split: if_splits)
qed

section \<open>Witnesses\<close>

lemma default_windows_positive: "\<forall>q. list_all (\<lambda>w. 0 < snd w) (gt_windows (new_gate (\<lambda>_. None)) q)"
proof
  fix q show "list_all (\<lambda>w. 0 < snd w) (gt_windows (new_gate (\<lambda>_. None)) q)"
    by (cases q) (simp_all add: new_gate_def)
qed

lemma first_grant:
  "attempt 0 0 QUOTE (new_gate (\<lambda>_. None)) =
     (Granted, (new_gate (\<lambda>_. None))\<lparr>gt_history := (gt_history (new_gate (\<lambda>_. None)))(QUOTE := [[0]])\<rparr>)"
  by (simp add: attempt_def compute_wait_def new_gate_def prune_def)

lemma first_run:
  "gate_run (new_gate (\<lambda>_. None)) 0 ((\<lambda>_. [])(QUOTE := [] @ [0]))
     ((new_gate (\<lambda>_. None))\<lparr>gt_history := (gt_history (new_gate (\<lambda>_. None)))(QUOTE := [[0]])\<rparr>)"
  by (rule gate_run.granted [OF gate_run.start _ _ first_grant, of 0]) simp_all

theorem sliding_window_limit_witness:
  "length [t \<leftarrow> [0 :: real]. 0 - 1 < t \<and> t \<le> 0] \<le> 1"
  using sliding_window_limit [OF default_windows_positive first_run, of 1 1 QUOTE 0]
  by (simp add: new_gate_def)

theorem penalty_is_served_witness:
  "\<exists>w g'. attempt 3 3 QUOTE (penalize 2 QUOTE 5 (new_gate (\<lambda>_. None))) = (SleepFor w, g') \<and> 7 \<le> 3 + w"
  using penalty_is_served [of 3 2 5 3 QUOTE "new_gate (\<lambda>_. None)" 0 0] by auto

theorem acquire_returns_witness:
  "\<exists>t g'. acquire (\<lambda>t w. t + w) 3 QUOTE 0
      ((new_gate (\<lambda>_. None))\<lparr>gt_history := (gt_history (new_gate (\<lambda>_. None)))(QUOTE := [[0]])\<rparr>)
     = Some (Inr (t, g'))"
  using acquire_returns [OF default_windows_positive first_run, of 0 "\<lambda>t w. t + w" QUOTE] by auto

theorem retry_bounded_witness:
  "\<exists>out w' sl. execute (\<lambda>_. 0) \<lparr>max_retries = 3, base_delay = 1/5, max_delay = 5, multiplier = 2, jitter = 0\<rparr> None
      (\<lambda>n. (Inl RateLimitedErr, Suc n)) 0 = (out, w', sl) \<and> w' = 1 \<and> (out :: py_error + unit) = Inl RateLimitedErr"
proof -
  let ?p = "\<lparr>max_retries = 3, base_delay = 1/5, max_delay = 5, multiplier = 2, jitter = 0\<rparr>"
  let ?fn = "\<lambda>n. (Inl RateLimitedErr :: py_error + unit, Suc n)"
  obtain out w' sl where e: "execute (\<lambda>_. 0) ?p None ?fn 0 = (out, w', sl)" by (metis prod_cases3)
  have "is_rate_limited RateLimitedErr" by (simp add: is_rate_limited_def)
  then have "out = Inl RateLimitedErr \<and> w' = 1"
    using retry_bounded [OF _ e] by simp
  with e show ?thesis by blast
qed

theorem limiter_spaces_calls_witness:
  "fst (limiter_wait (\<lambda>t w. t + w) 1 (snd (limiter_wait (\<lambda>t w. t + w) 1 (new_rate_limiter 10)))) \<ge> 1 + 1 / 10"
  using limiter_spaces_calls [of "\<lambda>t w. t + w" 1 "new_rate_limiter 10" _ _ 1, OF prod.collapse [symmetric] prod.collapse [symmetric]]
  by (simp add: new_rate_limiter_def limiter_wait_def)

end
