(* ===== verification/EventStore.thy ===== *)
theory EventStore
  imports BrokerExec Portfolio "HOL-Library.Multiset" "HOL-Library.Product_Lexorder"
begin

text \<open>
  \<open>ntrade/storage/event_store.py\<close>: the append-only record of events, its queries, and the two
  reconstructions crash recovery uses: the replayable causal events and the open orders with
  what has been filled of them.  The store is modelled by the events it holds in memory; the
  JSON text of the file is not.
\<close>

section \<open>The store\<close>

type_synonym event_store = "msg list"

definition store_append :: "msg \<Rightarrow> event_store \<Rightarrow> event_store" where
  "store_append e s = s @ [e]"

definition store_extend :: "msg list \<Rightarrow> event_store \<Rightarrow> event_store" where
  "store_extend es s = fold store_append es s"

definition store_clear :: "event_store \<Rightarrow> event_store" where
  "store_clear s = []"

text \<open>\<open>getattr(event, "symbol", None)\<close>.\<close>

fun msg_symbol :: "msg \<Rightarrow> string option" where
  "msg_symbol (TickEvent e) = Some (tk_symbol e)"
| "msg_symbol (QuoteEvent e) = Some (qe_symbol e)"
| "msg_symbol (DepthEvent e) = Some (de_symbol e)"
| "msg_symbol (CandleClosedEvent e) = Some (cc_symbol e)"
| "msg_symbol (QuoteUpdatedEvent e) = Some (qu_symbol e)"
| "msg_symbol (IndicatorUpdatedEvent e) = Some (iu_symbol e)"
| "msg_symbol (OrderIntentEvent e) = Some (oi_symbol e)"
| "msg_symbol (OrderAcceptedEvent e) = Some (oa_symbol e)"
| "msg_symbol (OrderRejectedEvent e) = Some (or_symbol e)"
| "msg_symbol (OrderFilledEvent e) = Some (of_symbol e)"
| "msg_symbol (OrderUpdatedEvent e) = Some (ou_symbol e)"
| "msg_symbol (OrderTimeoutEvent e) = Some (ot_symbol e)"
| "msg_symbol (SignalGeneratedEvent e) = Some (sg_symbol e)"
| "msg_symbol (PositionUpdatedEvent e) = Some (pu_symbol e)"
| "msg_symbol _ = None"

definition store_events :: "etype option \<Rightarrow> string option \<Rightarrow> event_store \<Rightarrow> msg list" where
  "store_events ty sy s =
     [e \<leftarrow> s. (case ty of None \<Rightarrow> True | Some t \<Rightarrow> t \<in> set (mro e)) \<and>
              (case sy of None \<Rightarrow> True | Some x \<Rightarrow> msg_symbol e = Some x)]"

definition is_market :: "msg \<Rightarrow> bool" where
  "is_market e \<longleftrightarrow> msg_type e \<in> {TTick, TQuote, TDepth}"

definition is_fill :: "msg \<Rightarrow> bool" where
  "is_fill e \<longleftrightarrow> msg_type e = TFilled"

definition market_events :: "event_store \<Rightarrow> msg list" where
  "market_events s = filter is_market s"

section \<open>Chronological orders\<close>

text \<open>
  Comparing a naive with an aware \<open>datetime\<close> raises \<open>TypeError\<close>, and sorting two or more events
  of both kinds compares some such pair.
\<close>

definition same_kind :: "msg list \<Rightarrow> bool" where
  "same_kind es \<longleftrightarrow> list_all (\<lambda>e. is_naive (msg_ts e)) es \<or> list_all (\<lambda>e. \<not> is_naive (msg_ts e)) es"

definition event_time :: "msg \<Rightarrow> int" where
  "event_time e = dt_abs 0 (msg_ts e)"

definition py_sorted :: "(nat \<times> msg \<Rightarrow> 'k::linorder) \<Rightarrow> msg list \<Rightarrow> (nat \<times> msg \<Rightarrow> bool) \<Rightarrow> py_error + msg list" where
  "py_sorted key s keep =
     (let ps = filter keep (enumerate 0 s)
      in if same_kind (map snd ps) then Inr (map snd (sort_key key ps))
         else Inl (TypeErr ''cannot compare offset-naive and offset-aware datetimes''))"

definition rank :: "nat \<times> msg \<Rightarrow> int \<times> nat \<times> nat" where
  "rank p = (event_time (snd p), (if is_market (snd p) then 0 else 1), fst p)"

definition recovery_events :: "event_store \<Rightarrow> py_error + msg list" where
  "recovery_events s = py_sorted rank s (\<lambda>p. is_market (snd p) \<or> is_fill (snd p))"

definition replay :: "event_store \<Rightarrow> py_error + msg list" where
  "replay s = py_sorted (\<lambda>p. event_time (snd p)) s (\<lambda>_. True)"

section \<open>Open orders\<close>

definition accepted_delta :: "order_accepted \<Rightarrow> order_delta" where
  "accepted_delta e =
     \<lparr>dl_symbol = oa_symbol e, dl_exchange = oa_exchange e, dl_side = oa_side e, dl_strategy = oa_strategy e,
      dl_quantity = oa_quantity e, dl_filled = 0, dl_status = ''PENDING'', dl_placed_at = ts e\<rparr>"

definition touch :: "string \<Rightarrow> (order_delta \<Rightarrow> order_delta) \<Rightarrow> (string, order_delta) dict \<Rightarrow> (string, order_delta) dict" where
  "touch oid f d = (case map_of d oid of None \<Rightarrow> d | Some r \<Rightarrow> AList.update oid (f r) d)"

fun delta_step :: "msg \<Rightarrow> (string, order_delta) dict \<Rightarrow> (string, order_delta) dict" where
  "delta_step (OrderAcceptedEvent e) d = AList.update (oa_order_id e) (accepted_delta e) d"
| "delta_step (OrderFilledEvent e) d = touch (of_order_id e) (\<lambda>r. r\<lparr>dl_filled := dl_filled r + of_quantity e\<rparr>) d"
| "delta_step (OrderUpdatedEvent e) d =
     touch (ou_order_id e)
       (\<lambda>r. r\<lparr>dl_status := ou_status e,
              dl_filled := (if ou_filled_qty e > dl_filled r then ou_filled_qty e else dl_filled r)\<rparr>) d"
| "delta_step (OrderRejectedEvent e) d = touch (or_order_id e) (\<lambda>r. r\<lparr>dl_status := ''REJECTED''\<rparr>) d"
| "delta_step _ d = d"

definition remaining_qty :: "order_delta \<Rightarrow> int" where
  "remaining_qty r = dl_quantity r - dl_filled r"

definition open_order_deltas :: "event_store \<Rightarrow> (string, order_delta) dict" where
  "open_order_deltas s =
     [p \<leftarrow> fold delta_step s []. \<not> is_terminal (dl_status (snd p)) \<and> remaining_qty (snd p) > 0]"

section \<open>Recovery order\<close>

lemma kept_events:
  "map snd (filter (\<lambda>p. is_market (snd p) \<or> is_fill (snd p)) (enumerate 0 s)) = [e \<leftarrow> s. is_market e \<or> is_fill e]"
  using filter_map [of "\<lambda>e. is_market e \<or> is_fill e" snd "enumerate 0 s"] by (simp add: comp_def)

lemma recovery_defined: "same_kind [e \<leftarrow> s. is_market e \<or> is_fill e] \<Longrightarrow> \<exists>es. recovery_events s = Inr es"
  by (simp add: recovery_events_def py_sorted_def kept_events Let_def)

lemma recovery_mset:
  assumes "recovery_events s = Inr es"
  shows "mset es = mset [e \<leftarrow> s. is_market e \<or> is_fill e]"
proof -
  let ?ps = "filter (\<lambda>p. is_market (snd p) \<or> is_fill (snd p)) (enumerate 0 s)"
  have "es = map snd (sort_key rank ?ps)"
    using assms by (auto simp: recovery_events_def py_sorted_def Let_def split: if_splits)
  then have "mset es = mset (map snd ?ps)" by (simp only: mset_map mset_sort)
  then show ?thesis by (simp only: kept_events)
qed

text \<open>recovery replays causes before effects.  When the store's timestamps are comparable,
  \<open>recovery_events\<close> returns exactly the recorded market data and fills, in chronological order,
  with market data ahead of fills at equal times, so a fill never precedes the tick that caused
  it; when naive and aware timestamps are mixed it raises.\<close>

theorem recovery_order:
  "(same_kind [e \<leftarrow> s. is_market e \<or> is_fill e] \<longrightarrow>
     (\<exists>es. recovery_events s = Inr es \<and> mset es = mset [e \<leftarrow> s. is_market e \<or> is_fill e] \<and>
        sorted_wrt (\<lambda>a b. event_time a < event_time b \<or> event_time a = event_time b \<and> (is_market a \<or> \<not> is_market b)) es)) \<and>
   (\<not> same_kind [e \<leftarrow> s. is_market e \<or> is_fill e] \<longrightarrow> (\<exists>m. recovery_events s = Inl (TypeErr m)))"
proof -
  let ?keep = "\<lambda>p::nat \<times> msg. is_market (snd p) \<or> is_fill (snd p)"
  let ?ps = "filter ?keep (enumerate 0 s)"
  let ?es = "sort_key rank ?ps"
  have "sorted_wrt (\<lambda>a b. rank a \<le> rank b) ?es"
    using sorted_sort_key [of rank ?ps] by (simp add: sorted_map)
  then have "sorted_wrt (\<lambda>a b. event_time (snd a) < event_time (snd b) \<or>
      event_time (snd a) = event_time (snd b) \<and> (is_market (snd a) \<or> \<not> is_market (snd b))) ?es"
    by (rule sorted_wrt_mono_rel [rotated]) (auto simp: rank_def less_eq_prod_def split: if_splits)
  then have "sorted_wrt (\<lambda>a b. event_time a < event_time b \<or> event_time a = event_time b \<and> (is_market a \<or> \<not> is_market b)) (map snd ?es)"
    by (simp add: sorted_wrt_map)
  moreover have "recovery_events s = Inr (map snd ?es)" if "same_kind [e \<leftarrow> s. is_market e \<or> is_fill e]"
    using that by (simp add: recovery_events_def py_sorted_def kept_events Let_def)
  moreover have "\<exists>m. recovery_events s = Inl (TypeErr m)" if "\<not> same_kind [e \<leftarrow> s. is_market e \<or> is_fill e]"
    using that by (simp add: recovery_events_def py_sorted_def kept_events Let_def)
  ultimately show ?thesis using recovery_mset by blast
qed

section \<open>Recovered inventory\<close>

fun filled_of :: "msg \<Rightarrow> order_filled option" where
  "filled_of (OrderFilledEvent f) = Some f"
| "filled_of _ = None"

definition fills_in :: "msg list \<Rightarrow> order_filled list" where
  "fills_in ms = List.map_filter filled_of ms"

lemma fills_in_mset: "mset (fills_in es) = image_mset (the \<circ> filled_of) (filter_mset (\<lambda>e. filled_of e \<noteq> None) (mset es))"
  by (simp add: fills_in_def List.map_filter_def flip: mset_filter)

lemma filled_of_kept: "filled_of e = Some f \<Longrightarrow> is_fill e"
  by (cases e) (simp_all add: is_fill_def)

lemma recovery_fills:
  assumes "recovery_events s = Inr es"
  shows "mset (fills_in es) = mset (fills_in s)"
proof -
  have m: "mset es = mset [e \<leftarrow> s. is_market e \<or> is_fill e]" by (rule recovery_mset [OF assms])
  show ?thesis unfolding fills_in_mset m
    by (auto intro!: arg_cong [where f = "image_mset (the \<circ> filled_of)"] filter_mset_cong dest: filled_of_kept
        simp: mset_filter filter_filter_mset)
qed

text \<open>C8: recovery restores the inventory.  Replaying the recovered fills into a fresh ledger gives,
  for every symbol, the quantity the original session had after applying its fills in the order
  they were recorded, although recovery may apply them in another order.\<close>

theorem recovery_restores_inventory:
  assumes "recovery_events s = Inr es" and "list_all (\<lambda>f. of_quantity f \<noteq> 0) (fills_in s)"
  shows "qty_of (positions (run_fills (fills_in es) \<lparr>positions = [], balance = b\<rparr>)) sy =
         qty_of (positions (run_fills (fills_in s) \<lparr>positions = [], balance = b'\<rparr>)) sy"
proof -
  have m: "mset (fills_in es) = mset (fills_in s)" by (rule recovery_fills [OF assms(1)])
  then have "list_all (\<lambda>f. of_quantity f \<noteq> 0) (fills_in es)"
    using assms(2) by (metis (no_types, lifting) list_all_iff set_mset_mset)
  moreover have "(\<Sum>f\<leftarrow>filter (\<lambda>f. of_symbol f = sy) (fills_in es). signed_qty f) =
      (\<Sum>f\<leftarrow>filter (\<lambda>f. of_symbol f = sy) (fills_in s). signed_qty f)"
    by (metis (no_types, lifting) m mset_filter mset_map sum_mset_sum_list)
  ultimately show ?thesis
    using portfolio_engine.run_inventory [of "[]" _ sy] assms(2)
    by (simp add: run_fills_positions wf_positions_def)
qed

section \<open>Open-order reconstruction\<close>

lemma map_of_touch [simp]:
  "map_of (touch oid f d) x = (if x = oid then map_option f (map_of d oid) else map_of d x)"
  by (simp add: touch_def split: option.splits)

lemma distinct_touch: "distinct (keys d) \<Longrightarrow> distinct (keys (touch oid f d))"
  by (simp add: touch_def split: option.splits)

lemma delta_step_distinct: "distinct (keys d) \<Longrightarrow> distinct (keys (delta_step e d))"
  by (cases e) (simp_all add: distinct_touch)

lemma deltas_distinct: "distinct (keys d) \<Longrightarrow> distinct (keys (fold delta_step s d))"
  by (induction s arbitrary: d) (simp_all add: delta_step_distinct)

lemma map_of_filter_distinct:
  "distinct (keys d) \<Longrightarrow> map_of (filter P d) k = (case map_of d k of None \<Rightarrow> None | Some v \<Rightarrow> if P (k, v) then Some v else None)"
  by (induction d) (auto simp: map_of_eq_None_iff split: option.splits)

lemma open_order_deltas_get:
  "map_of (open_order_deltas s) oid =
     (case map_of (fold delta_step s []) oid of
        None \<Rightarrow> None
      | Some r \<Rightarrow> if \<not> is_terminal (dl_status r) \<and> remaining_qty r > 0 then Some r else None)"
  unfolding open_order_deltas_def by (simp add: map_of_filter_distinct deltas_distinct split: option.splits)

text \<open>Events that say nothing about an order.\<close>

fun mentions :: "string \<Rightarrow> msg \<Rightarrow> bool" where
  "mentions oid (OrderAcceptedEvent e) = (oa_order_id e = oid)"
| "mentions oid (OrderFilledEvent e) = (of_order_id e = oid)"
| "mentions oid (OrderUpdatedEvent e) = (ou_order_id e = oid)"
| "mentions oid (OrderRejectedEvent e) = (or_order_id e = oid)"
| "mentions oid _ = False"

lemma delta_step_other: "\<not> mentions oid e \<Longrightarrow> map_of (delta_step e d) oid = map_of d oid"
  by (cases e) auto

lemma delta_step_cong:
  "map_of d oid = map_of d' oid \<Longrightarrow> map_of (delta_step e d) oid = map_of (delta_step e d') oid"
  by (cases e; cases "mentions oid e"; simp)

lemma deltas_cong:
  "map_of d oid = map_of d' oid \<Longrightarrow> map_of (fold delta_step s d) oid = map_of (fold delta_step s d') oid"
proof (induction s arbitrary: d d')
  case (Cons e s)
  from Cons.IH [OF delta_step_cong [OF Cons.prems, of e]] show ?case by simp
qed simp

lemma deltas_of_mentions: "map_of (fold delta_step s d) oid = map_of (fold delta_step (filter (mentions oid) s) d) oid"
proof (induction s arbitrary: d)
  case Nil
  then show ?case by simp
next
  case (Cons e s)
  then show ?case using deltas_cong [OF delta_step_other [of oid e d], of s] by (cases "mentions oid e") simp_all
qed

lemma all_mention: "list_all (mentions oid) (filter (mentions oid) s)"
  by (simp add: list_all_iff)

lemma fold_fills:
  "list_all is_fill es \<Longrightarrow> list_all (mentions oid) es \<Longrightarrow> map_of d oid = Some r \<Longrightarrow>
   map_of (fold delta_step es d) oid = Some (r\<lparr>dl_filled := dl_filled r + fill_total oid es\<rparr>)"
proof (induction es arbitrary: d r)
  case Nil
  then show ?case by simp
next
  case (Cons e es)
  then obtain f where e: "e = OrderFilledEvent f" "of_order_id f = oid"
    by (cases e) (auto simp: is_fill_def)
  have "map_of (delta_step e d) oid = Some (r\<lparr>dl_filled := dl_filled r + of_quantity f\<rparr>)"
    using Cons.prems(3) e by simp
  from Cons.IH [OF _ _ this] Cons.prems e show ?case by (simp add: add.assoc)
qed

text \<open>an order with only fills on record is recovered with exactly what was filled.  If the
  last acceptance of an order is followed, among the events about it, by fills only, the
  recovered state holds the sum of these fills, and the order is recovered exactly when part of
  it is still unfilled.\<close>

theorem deltas_sum_fills:
  assumes "filter (mentions oid) s = pre @ OrderAcceptedEvent a # es" and "list_all is_fill es"
  shows "map_of (open_order_deltas s) oid =
    (if fill_total oid es < oa_quantity a then Some ((accepted_delta a)\<lparr>dl_filled := fill_total oid es\<rparr>) else None)"
proof -
  have m: "list_all (mentions oid) es" "oa_order_id a = oid"
    using all_mention [of oid s] unfolding assms(1) by simp_all
  have "map_of (fold delta_step s []) oid =
      map_of (fold delta_step es (delta_step (OrderAcceptedEvent a) (fold delta_step pre []))) oid"
    by (subst deltas_of_mentions) (simp add: assms(1))
  also have "\<dots> = Some ((accepted_delta a)\<lparr>dl_filled := dl_filled (accepted_delta a) + fill_total oid es\<rparr>)"
    using m by (intro fold_fills assms(2)) simp_all
  finally have "map_of (fold delta_step s []) oid = Some ((accepted_delta a)\<lparr>dl_filled := fill_total oid es\<rparr>)"
    by (simp add: accepted_delta_def)
  then show ?thesis
    by (auto simp: open_order_deltas_get remaining_qty_def accepted_delta_def is_terminal_def TERMINAL_def)
qed

text \<open>a partial fill is counted twice on recovery.  The executor publishes the status change,
  which carries the filled quantity, before the fill itself; walking the two in that order,
  recovery adds the fill on top of the quantity the status change already set.  For an order of
  which \<open>k\<close> were filled it records \<open>2 k\<close>, and if that reaches the ordered quantity the
  open order is not recovered at all.\<close>

theorem partial_fill_counted_twice:
  assumes "filter (mentions oid) s = [OrderAcceptedEvent a, OrderUpdatedEvent u, OrderFilledEvent f]"
    and "ou_status u = ''PARTIALLY_FILLED''" and "ou_filled_qty u = k" and "of_quantity f = k" and "0 < k"
  shows "map_of (open_order_deltas s) oid =
    (if 2 * k < oa_quantity a
     then Some ((accepted_delta a)\<lparr>dl_status := ''PARTIALLY_FILLED'', dl_filled := 2 * k\<rparr>) else None)"
proof -
  have m: "oa_order_id a = oid" "ou_order_id u = oid" "of_order_id f = oid"
    using all_mention [of oid s] unfolding assms(1) by simp_all
  have "map_of (fold delta_step s []) oid =
      Some ((accepted_delta a)\<lparr>dl_status := ''PARTIALLY_FILLED'', dl_filled := 2 * k\<rparr>)"
    by (subst deltas_of_mentions) (simp add: assms m accepted_delta_def)
  then show ?thesis
    by (auto simp: open_order_deltas_get remaining_qty_def accepted_delta_def is_terminal_def TERMINAL_def)
qed

section \<open>Examples\<close>

text \<open>A session in which an order for 10 is accepted and a poll finds 4 of it filled.\<close>

definition partial_session :: "msg list" where
  "partial_session = snd (run_steps
     [\<lambda>s. snd (submit (scripted (ex_order PARTIALLY_FILLED 4 100)) ex_ctx ''c1'' ex_intent s),
      poll (scripted (ex_order PARTIALLY_FILLED 4 100)) ex_ctx] ex_new)"

definition ex_accepted :: order_accepted where
  "ex_accepted = accepted_of ''D-1'' ex_intent"

definition ex_updated :: order_updated where
  "ex_updated = \<lparr>ts = naive 0, ou_order_id = ''D-1'', ou_symbol = ''TCS'', ou_exchange = ''NSE'', ou_side = BUY,
     ou_status = ''PARTIALLY_FILLED'', ou_filled_qty = 4, ou_avg_price = 100, ou_strategy = []\<rparr>"

definition ex_filled :: order_filled where
  "ex_filled = make_fill ex_ctx ex_new ''D-1'' ex_intent 4 100"

lemma partial_session_events:
  "partial_session = [OrderAcceptedEvent ex_accepted, OrderUpdatedEvent ex_updated, OrderFilledEvent ex_filled]"
proof -
  let ?ad = "scripted (ex_order PARTIALLY_FILLED 4 100)"
  let ?s1 = "ex_new\<lparr>bx_open := [(''D-1'', ex_record\<lparr>oo_order := (oo_order ex_record)\<lparr>od_order_type := OT_MARKET, od_trade_type := CNC\<rparr>\<rparr>)],
     bx_idem := record_result ''c1'' ''D-1'' (snd (check_and_reserve ''c1'' (bx_idem ex_new)))\<rparr>"
  have sub: "submit ?ad ex_ctx ''c1'' ex_intent ex_new = (Submitted, ?s1, [OrderAcceptedEvent ex_accepted])"
    by (simp add: submit_def exec_place_def place_def build_order_def parse_order_type_def parse_side_def parse_enum_def
        upper_def upper_char_def check_and_reserve_def new_guard_def accept_order_def usable_id_def some_or_def
        is_filled_def default_trade_type_def ex_accepted_def ex_defs Let_def)
  have "snd (poll ?ad ex_ctx ?s1) = [OrderUpdatedEvent ex_updated, OrderFilledEvent ex_filled]"
    by (simp add: poll_def poll_order_def refresh_order_def lifecycle_def timeout_step_def update_step_def fill_step_def
        finish_step_def emit_fill_def update_open_def make_fill_def exec_statutory_def num_or_def age_seconds_def
        ex_updated_def ex_filled_def ex_defs Let_def)
  then show ?thesis by (simp add: partial_session_def sub case_prod_beta)
qed

theorem partial_fill_counted_twice_witness:
  "map_option dl_filled (map_of (open_order_deltas partial_session) ''D-1'') = Some 8"
proof -
  have "filter (mentions ''D-1'') partial_session =
      [OrderAcceptedEvent ex_accepted, OrderUpdatedEvent ex_updated, OrderFilledEvent ex_filled]"
    by (simp add: partial_session_events ex_accepted_def ex_updated_def ex_filled_def accepted_of_def)
  from partial_fill_counted_twice [OF this, of 4] show ?thesis
    by (simp add: ex_updated_def ex_filled_def ex_accepted_def accepted_of_def ex_intent_def)
qed

theorem deltas_sum_fills_witness:
  "map_option dl_filled (map_of (open_order_deltas [OrderAcceptedEvent ex_accepted, OrderFilledEvent ex_filled]) ''D-1'') = Some 4"
proof -
  have "filter (mentions ''D-1'') [OrderAcceptedEvent ex_accepted, OrderFilledEvent ex_filled] =
      [] @ OrderAcceptedEvent ex_accepted # [OrderFilledEvent ex_filled]"
    by (simp add: ex_accepted_def ex_filled_def accepted_of_def)
  from deltas_sum_fills [OF this] show ?thesis
    by (simp add: is_fill_def ex_filled_def ex_accepted_def accepted_of_def ex_intent_def)
qed

definition tick_msg :: "int \<Rightarrow> msg" where
  "tick_msg t = TickEvent \<lparr>ts = naive t, tk_symbol = ''TCS'', tk_exchange = ''NSE'', tk_price = 100,
     tk_quantity = 1, tk_side = [], tk_kind = ''trade''\<rparr>"

lemma example_kinds: "same_kind [e \<leftarrow> [OrderFilledEvent ex_filled, tick_msg 0]. is_market e \<or> is_fill e]"
  by (simp add: same_kind_def is_market_def is_fill_def tick_msg_def ex_filled_def make_fill_def ex_ctx_def
      naive_def is_naive_def Let_def)

theorem recovery_order_witness:
  "\<exists>es. recovery_events [OrderFilledEvent ex_filled, tick_msg 0] = Inr es \<and>
     mset es = {#OrderFilledEvent ex_filled, tick_msg 0#}"
proof -
  have "[e \<leftarrow> [OrderFilledEvent ex_filled, tick_msg 0]. is_market e \<or> is_fill e] = [OrderFilledEvent ex_filled, tick_msg 0]"
    by (simp add: is_market_def is_fill_def tick_msg_def)
  then show ?thesis using recovery_order [of "[OrderFilledEvent ex_filled, tick_msg 0]"] example_kinds by auto
qed

theorem recovery_restores_inventory_witness:
  "\<exists>es. recovery_events [OrderFilledEvent ex_filled, tick_msg 0] = Inr es \<and>
     qty_of (positions (run_fills (fills_in es) \<lparr>positions = [], balance = 0\<rparr>)) ''TCS'' =
     qty_of (positions (run_fills (fills_in [OrderFilledEvent ex_filled, tick_msg 0]) \<lparr>positions = [], balance = 0\<rparr>)) ''TCS''"
proof -
  obtain es where es: "recovery_events [OrderFilledEvent ex_filled, tick_msg 0] = Inr es"
    using recovery_defined [OF example_kinds] by blast
  have "list_all (\<lambda>f. of_quantity f \<noteq> 0) (fills_in [OrderFilledEvent ex_filled, tick_msg 0])"
    by (simp add: fills_in_def List.map_filter_def tick_msg_def ex_filled_def)
  from recovery_restores_inventory [OF es this] es show ?thesis by blast
qed

end
