(* ===== verification/EventBus.thy ===== *)
theory EventBus
  imports Events
begin

text \<open>
  \<open>ntrade/kernel/event_bus.py\<close>: the synchronous publish/subscribe bus.

  \<open>publish\<close> calls handlers which publish again before they return, so it is modelled with the
  recursion depth as fuel: \<open>None\<close> is "did not return within this depth".  A handler is a name of
  type \<open>'h\<close>; \<open>run h pub e b\<close> is its call on the event \<open>e\<close>, with the bus's own \<open>publish\<close> as
  \<open>pub\<close>, and returns whether it raised together with the bus it leaves.  \<open>app\<close> is the state of
  the engines behind the handlers.  The stack is kept with its top first.  Dispatch holds the
  bus's reentrant lock throughout, so publishes of different threads do not interleave.

  The locale \<open>bus_handlers\<close> is what the bus relies on (handlers touch the bus only by publishing
  and subscribing), and in it \<open>publish\<close> is proved to restore the stack, to bound the history, to
  stamp causality and to announce the handler-error limit once.  The locale \<open>engine_table\<close>
  describes handlers that publish only events of lower rank than the one they handle; there
  \<open>publish\<close> is proved to return.
\<close>

section \<open>The bus\<close>

record ('h, 's) bus =
  subscribers :: "(etype, 'h list) dict"
  history :: "event list"
  max_history :: nat
  stack :: "event list"
  handler_errors :: nat
  max_handler_errors :: "nat option"
  next_id :: nat
  app :: 's

definition new_bus :: "nat \<Rightarrow> nat option \<Rightarrow> 's \<Rightarrow> ('h, 's) bus" where
  "new_bus mh me s =
     \<lparr>subscribers = [], history = [], max_history = mh, stack = [], handler_errors = 0,
      max_handler_errors = me, next_id = 0, app = s\<rparr>"

definition handlers_of :: "('h, 's) bus \<Rightarrow> etype \<Rightarrow> 'h list" where
  "handlers_of b t = get_default (subscribers b) t []"

definition subscribe :: "etype \<Rightarrow> 'h \<Rightarrow> ('h, 's) bus \<Rightarrow> ('h, 's) bus" where
  "subscribe t h b = b\<lparr>subscribers := AList.update t (handlers_of b t @ [h]) (subscribers b)\<rparr>"

text \<open>\<open>list.remove\<close> drops the first occurrence; the \<open>defaultdict\<close> read leaves an empty entry.\<close>

definition unsubscribe :: "etype \<Rightarrow> 'h \<Rightarrow> ('h, 's) bus \<Rightarrow> ('h, 's) bus" where
  "unsubscribe t h b = b\<lparr>subscribers := AList.update t (remove1 h (handlers_of b t)) (subscribers b)\<rparr>"

definition clear :: "('h, 's) bus \<Rightarrow> ('h, 's) bus" where
  "clear b = b\<lparr>subscribers := [], history := [], stack := []\<rparr>"

definition stamp :: "event option \<Rightarrow> event \<Rightarrow> event" where
  "stamp parent e =
     (let e = (if correlation_id e = None
               then e\<lparr>correlation_id := (case parent of Some p \<Rightarrow> correlation_id p | None \<Rightarrow> Some (event_id e))\<rparr>
               else e)
      in (case parent of
            Some p \<Rightarrow> if causation_id e = None then e\<lparr>causation_id := Some (event_id p)\<rparr> else e
          | None \<Rightarrow> e))"

definition parent_of :: "('h, 's) bus \<Rightarrow> event option" where
  "parent_of b = (case stack b of [] \<Rightarrow> None | p # _ \<Rightarrow> Some p)"

definition push_event :: "event \<Rightarrow> ('h, 's) bus \<Rightarrow> ('h, 's) bus" where
  "push_event e b = b\<lparr>stack := e # stack b, history := last_n (max_history b) (history b @ [e])\<rparr>"

definition pop_event :: "('h, 's) bus \<Rightarrow> ('h, 's) bus" where
  "pop_event b = b\<lparr>stack := tl (stack b)\<rparr>"

definition halt_message :: "msg \<Rightarrow> nat \<Rightarrow> msg" where
  "halt_message m n =
     RiskHaltedEvent \<lparr>ts = msg_ts m,
       rh_reason = ''handler error limit reached ('' @ str_nat n @ '' errors)'', rh_equity = 0\<rparr>"

definition new_event :: "(nat \<Rightarrow> string) \<Rightarrow> nat \<Rightarrow> msg \<Rightarrow> event" where
  "new_event uuid k m = \<lparr>payload = m, event_id = uuid k, correlation_id = None, causation_id = None\<rparr>"

text \<open>The \<open>except\<close> branch: count the error and, at the limit, make the halt event (once).\<close>

definition note_error ::
  "(nat \<Rightarrow> string) \<Rightarrow> event \<Rightarrow> event option \<times> ('h, 's) bus \<Rightarrow> event option \<times> ('h, 's) bus" where
  "note_error uuid e hb =
     (case hb of (halt, b) \<Rightarrow>
        (let n = Suc (handler_errors b); b = b\<lparr>handler_errors := n\<rparr>
         in case max_handler_errors b of
              Some lm \<Rightarrow>
                if n \<ge> lm
                then (Some (new_event uuid (next_id b) (halt_message (payload e) n)),
                      b\<lparr>max_handler_errors := None, next_id := Suc (next_id b)\<rparr>)
                else (halt, b)
            | None \<Rightarrow> (halt, b)))"

type_synonym ('h, 's) publisher = "event \<Rightarrow> ('h, 's) bus \<Rightarrow> ('h, 's) bus option"

type_synonym ('h, 's) runner =
  "'h \<Rightarrow> ('h, 's) publisher \<Rightarrow> event \<Rightarrow> ('h, 's) bus \<Rightarrow> (bool \<times> ('h, 's) bus) option"

primrec run_handlers ::
  "('h, 's) runner \<Rightarrow> (nat \<Rightarrow> string) \<Rightarrow> ('h, 's) publisher \<Rightarrow> event \<Rightarrow> 'h list \<Rightarrow>
   event option \<times> ('h, 's) bus \<Rightarrow> (event option \<times> ('h, 's) bus) option" where
  "run_handlers run uuid pub e [] hb = Some hb"
| "run_handlers run uuid pub e (h # hs) hb =
     (case run h pub e (snd hb) of
        None \<Rightarrow> None
      | Some (raised, b') \<Rightarrow>
          run_handlers run uuid pub e hs
            (if raised then note_error uuid e (fst hb, b') else (fst hb, b')))"

primrec run_classes ::
  "('h, 's) runner \<Rightarrow> (nat \<Rightarrow> string) \<Rightarrow> ('h, 's) publisher \<Rightarrow> event \<Rightarrow> etype list \<Rightarrow>
   event option \<times> ('h, 's) bus \<Rightarrow> (event option \<times> ('h, 's) bus) option" where
  "run_classes run uuid pub e [] hb = Some hb"
| "run_classes run uuid pub e (c # cs) hb =
     (case run_handlers run uuid pub e (handlers_of (snd hb) c) hb of
        None \<Rightarrow> None
      | Some hb' \<Rightarrow> run_classes run uuid pub e cs hb')"

primrec publish ::
  "('h, 's) runner \<Rightarrow> (nat \<Rightarrow> string) \<Rightarrow> nat \<Rightarrow> ('h, 's) publisher" where
  "publish run uuid 0 e b = None"
| "publish run uuid (Suc n) e b =
     (let e = stamp (parent_of b) e in
      case run_classes run uuid (publish run uuid n) e (mro (payload e)) (None, push_event e b) of
        None \<Rightarrow> None
      | Some (halt, b') \<Rightarrow>
          (case halt of
             None \<Rightarrow> Some (pop_event b')
           | Some h \<Rightarrow> publish run uuid n h (pop_event b')))"

section \<open>What handlers promise\<close>

text \<open>
  \<open>frame c b b'\<close>: the bus went from \<open>b\<close> to \<open>b'\<close> inside the dispatch of an event with correlation
  id \<open>c\<close>.  The stack is as before, the history stays within its bound, errors only accumulate,
  the error limit is at most spent, and every event recorded meanwhile carries \<open>c\<close> and names its
  cause.
\<close>

definition frame :: "string \<Rightarrow> ('h, 's) bus \<Rightarrow> ('h, 's) bus \<Rightarrow> bool" where
  "frame c b b' \<longleftrightarrow>
     stack b' = stack b \<and> max_history b' = max_history b \<and>
     (length (history b) \<le> max_history b \<longrightarrow> length (history b') \<le> max_history b) \<and>
     handler_errors b \<le> handler_errors b' \<and>
     (max_handler_errors b' = max_handler_errors b \<or> max_handler_errors b' = None) \<and>
     (\<forall>x\<in>set (history b'). x \<in> set (history b) \<or> (correlation_id x = Some c \<and> causation_id x \<noteq> None))"

lemma frame_refl [simp, intro]: "frame c b b"
  by (simp add: frame_def)

lemma frame_trans [trans]: "frame c b b' \<Longrightarrow> frame c b' b'' \<Longrightarrow> frame c b b''"
  unfolding frame_def by (auto; metis)

definition fresh :: "event \<Rightarrow> bool" where
  "fresh e \<longleftrightarrow> correlation_id e = None \<and> causation_id e = None"

definition inside :: "string \<Rightarrow> ('h, 's) bus \<Rightarrow> bool" where
  "inside c b \<longleftrightarrow> (\<exists>p ps. stack b = p # ps \<and> correlation_id p = Some c)"

lemma inside_frame: "inside c b \<Longrightarrow> frame c b b' \<Longrightarrow> inside c b'"
  by (simp add: inside_def frame_def)

lemma new_event_fresh [simp]: "fresh (new_event uuid k m)"
  by (simp add: fresh_def new_event_def)

lemma note_error_frame: "frame c b (snd (note_error uuid e (halt, b)))"
  by (auto simp: note_error_def frame_def Let_def split: option.splits)

text \<open>The pending halt event of a dispatch: fresh, and made by spending the limit.\<close>

definition limit_halt :: "event \<Rightarrow> bool" where
  "limit_halt h \<longleftrightarrow> (\<exists>m k. payload h = halt_message m k)"

definition halt_ok :: "event option \<times> ('h, 's) bus \<Rightarrow> bool" where
  "halt_ok hb \<longleftrightarrow> (\<forall>x. fst hb = Some x \<longrightarrow> fresh x \<and> limit_halt x \<and> max_handler_errors (snd hb) = None)"

definition dispatched :: "string \<Rightarrow> event option \<times> ('h, 's) bus \<Rightarrow> event option \<times> ('h, 's) bus \<Rightarrow> bool" where
  "dispatched c hb hb' \<longleftrightarrow>
     frame c (snd hb) (snd hb') \<and> halt_ok hb' \<and>
     (fst hb = None \<and> fst hb' \<noteq> None \<longrightarrow> max_handler_errors (snd hb) \<noteq> None)"

lemma dispatched_refl: "halt_ok hb \<Longrightarrow> dispatched c hb hb"
  by (auto simp: dispatched_def)

lemma dispatched_trans: "dispatched c hb hb1 \<Longrightarrow> dispatched c hb1 hb2 \<Longrightarrow> dispatched c hb hb2"
  unfolding dispatched_def by (metis frame_def frame_trans)

lemma note_error_dispatched: "halt_ok (halt, b) \<Longrightarrow> dispatched c (halt, b) (note_error uuid e (halt, b))"
  using note_error_frame [of c b uuid e halt]
  by (auto simp: dispatched_def halt_ok_def limit_halt_def new_event_def fresh_def note_error_def Let_def
      split: option.splits if_splits)

lemma halt_ok_frame: "halt_ok (halt, b) \<Longrightarrow> frame c b b' \<Longrightarrow> dispatched c (halt, b) (halt, b')"
  by (auto simp: halt_ok_def dispatched_def frame_def)

definition good_pub :: "string \<Rightarrow> ('h, 's) publisher \<Rightarrow> bool" where
  "good_pub c pub \<longleftrightarrow>
     (\<forall>e b b'. fresh e \<longrightarrow> inside c b \<longrightarrow> pub e b = Some b' \<longrightarrow> frame c b b')"

text \<open>
  Publishing from outside any dispatch: the events of the chain that \<open>e\<close> starts carry its correlation
  id, which is its own id if it was given none, and all but \<open>e\<close> name their cause.
\<close>

definition root_id :: "event \<Rightarrow> string" where
  "root_id e = (case correlation_id e of None \<Rightarrow> event_id e | Some c \<Rightarrow> c)"

definition in_chain :: "event \<Rightarrow> event \<Rightarrow> bool" where
  "in_chain e x \<longleftrightarrow> correlation_id x = Some (root_id e) \<and>
     (causation_id x = None \<longrightarrow> payload x = payload e \<and> event_id x = event_id e)"

definition root_frame :: "event \<Rightarrow> ('h, 's) bus \<Rightarrow> ('h, 's) bus \<Rightarrow> bool" where
  "root_frame e b b' \<longleftrightarrow>
     stack b' = [] \<and> max_history b' = max_history b \<and>
     (length (history b) \<le> max_history b \<longrightarrow> length (history b') \<le> max_history b) \<and>
     handler_errors b \<le> handler_errors b' \<and>
     (max_handler_errors b' = max_handler_errors b \<or> max_handler_errors b' = None) \<and>
     ((\<forall>x\<in>set (history b') - set (history b). in_chain e x) \<or>
      max_handler_errors b \<noteq> None \<and> max_handler_errors b' = None \<and>
      (\<exists>h. limit_halt h \<and> fresh h \<and> (\<forall>x\<in>set (history b') - set (history b). in_chain e x \<or> in_chain h x)))"

locale bus_handlers =
  fixes run :: "('h, 's) runner" and uuid :: "nat \<Rightarrow> string"
  assumes run_frame: "good_pub c pub \<Longrightarrow> inside c b \<Longrightarrow> run h pub e b = Some (raised, b') \<Longrightarrow> frame c b b'"
    and run_mono: "(\<And>e b x. pub e b = Some x \<Longrightarrow> pub' e b = Some x) \<Longrightarrow>
      run h pub e b = Some y \<Longrightarrow> run h pub' e b = Some y"
begin

lemma run_handlers_frame:
  "good_pub c pub \<Longrightarrow> inside c (snd hb) \<Longrightarrow> halt_ok hb \<Longrightarrow>
   run_handlers run uuid pub e hs hb = Some hb' \<Longrightarrow> dispatched c hb hb'"
proof (induction hs arbitrary: hb)
  case Nil
  then show ?case by (simp add: dispatched_refl)
next
  case (Cons h hs)
  obtain raised b1 where r: "run h pub e (snd hb) = Some (raised, b1)"
    and rest: "run_handlers run uuid pub e hs (if raised then note_error uuid e (fst hb, b1) else (fst hb, b1)) = Some hb'"
    using Cons.prems(4) by (auto split: option.splits)
  have f1: "dispatched c hb (fst hb, b1)"
    using halt_ok_frame [of "fst hb" "snd hb"] run_frame [OF Cons.prems(1,2) r] Cons.prems(3) by simp
  then have ok: "halt_ok (fst hb, b1)" by (simp add: dispatched_def)
  let ?hb = "if raised then note_error uuid e (fst hb, b1) else (fst hb, b1)"
  have f2: "dispatched c hb ?hb"
    using f1 dispatched_trans [OF f1 note_error_dispatched [OF ok]] by auto
  then have i: "inside c (snd ?hb)" and ok2: "halt_ok ?hb"
    using inside_frame [OF Cons.prems(2)] by (auto simp: dispatched_def)
  show ?case
    using dispatched_trans [OF f2 Cons.IH [OF Cons.prems(1) i ok2 rest]] .
qed

lemma run_classes_frame:
  "good_pub c pub \<Longrightarrow> inside c (snd hb) \<Longrightarrow> halt_ok hb \<Longrightarrow>
   run_classes run uuid pub e cs hb = Some hb' \<Longrightarrow> dispatched c hb hb'"
proof (induction cs arbitrary: hb)
  case Nil
  then show ?case by (simp add: dispatched_refl)
next
  case (Cons k cs)
  obtain hb1 where h: "run_handlers run uuid pub e (handlers_of (snd hb) k) hb = Some hb1"
    and rest: "run_classes run uuid pub e cs hb1 = Some hb'"
    using Cons.prems(4) by (auto split: option.splits)
  have f1: "dispatched c hb hb1" by (rule run_handlers_frame [OF Cons.prems(1-3) h])
  then have i: "inside c (snd hb1)" and ok: "halt_ok hb1"
    using inside_frame [OF Cons.prems(2)] by (auto simp: dispatched_def)
  show ?case
    using dispatched_trans [OF f1 Cons.IH [OF Cons.prems(1) i ok rest]] .
qed

lemma stamp_inside:
  "fresh e \<Longrightarrow> inside c b \<Longrightarrow>
   correlation_id (stamp (parent_of b) e) = Some c \<and> causation_id (stamp (parent_of b) e) \<noteq> None"
  by (auto simp: fresh_def inside_def stamp_def parent_of_def)

lemma pop_frame:
  assumes "frame c (push_event e b) b2" and "correlation_id e = Some c" and "causation_id e \<noteq> None"
  shows "frame c b (pop_event b2)"
  using assms set_last_n [of "max_history b" "history b @ [e]"]
  by (auto simp: frame_def push_event_def pop_event_def)

lemma publish_frame: "good_pub c (publish run uuid n)"
proof (induction n)
  case 0
  then show ?case by (simp add: good_pub_def)
next
  case (Suc n)
  show ?case unfolding good_pub_def
  proof (intro allI impI)
    fix e and b b' :: "('h, 's) bus"
    assume fr: "fresh e" and i: "inside c b" and p: "publish run uuid (Suc n) e b = Some b'"
    let ?e = "stamp (parent_of b) e"
    have st: "correlation_id ?e = Some c" "causation_id ?e \<noteq> None" using stamp_inside [OF fr i] by auto
    obtain halt b2 where d: "run_classes run uuid (publish run uuid n) ?e (mro (payload ?e)) (None, push_event ?e b) = Some (halt, b2)"
      and res: "(case halt of None \<Rightarrow> Some (pop_event b2) | Some h \<Rightarrow> publish run uuid n h (pop_event b2)) = Some b'"
      using p by (auto simp: Let_def split: option.splits prod.splits)
    have "inside c (push_event ?e b)" using st(1) by (simp add: inside_def push_event_def)
    with run_classes_frame [OF Suc.IH _ _ d]
    have f: "frame c (push_event ?e b) b2" and h: "\<And>x. halt = Some x \<Longrightarrow> fresh x"
      by (auto simp: dispatched_def halt_ok_def)
    have f': "frame c b (pop_event b2)" by (rule pop_frame [OF f st])
    show "frame c b b'"
    proof (cases halt)
      case None
      with res f' show ?thesis by simp
    next
      case (Some x)
      then have "frame c (pop_event b2) b'"
        using Suc.IH res h [OF Some] inside_frame [OF i f'] by (auto simp: good_pub_def)
      with f' show ?thesis by (rule frame_trans)
    qed
  qed
qed

lemma publish_root:
  "stack b = [] \<Longrightarrow> publish run uuid n e b = Some b' \<Longrightarrow> root_frame e b b'"
proof (induction n arbitrary: e b)
  case 0
  then show ?case by simp
next
  case (Suc n)
  let ?e = "stamp (parent_of b) e"
  have e': "correlation_id ?e = Some (root_id e)" "causation_id ?e = causation_id e" "payload ?e = payload e"
    "event_id ?e = event_id e"
    using Suc.prems(1) by (simp_all add: stamp_def parent_of_def root_id_def Let_def split: option.splits)
  then have ch: "in_chain e ?e" by (simp add: in_chain_def)
  obtain halt b2 where d: "run_classes run uuid (publish run uuid n) ?e (mro (payload ?e)) (None, push_event ?e b) = Some (halt, b2)"
    and res: "(case halt of None \<Rightarrow> Some (pop_event b2) | Some h \<Rightarrow> publish run uuid n h (pop_event b2)) = Some b'"
    using Suc.prems(2) unfolding publish.simps Let_def by (auto split: option.splits prod.splits)
  have "inside (root_id e) (push_event ?e b)" using e'(1) by (simp add: inside_def push_event_def)
  with run_classes_frame [OF publish_frame _ _ d]
  have f: "frame (root_id e) (push_event ?e b) b2" and h: "\<And>x. halt = Some x \<Longrightarrow> fresh x \<and> limit_halt x"
    and sp: "halt \<noteq> None \<Longrightarrow> max_handler_errors b2 = None \<and> max_handler_errors b \<noteq> None"
    by (auto simp: dispatched_def halt_ok_def push_event_def)
  have hist: "x \<in> set (history b) \<or> in_chain e x" if "x \<in> set (history (pop_event b2))" for x
  proof -
    have "x \<in> set (history (push_event ?e b)) \<or> correlation_id x = Some (root_id e) \<and> causation_id x \<noteq> None"
      using f that by (simp add: frame_def pop_event_def)
    then show ?thesis
      using set_last_n [of "max_history b" "history b @ [?e]"] ch by (auto simp: push_event_def in_chain_def)
  qed
  have f': "root_frame e b (pop_event b2)"
    using f Suc.prems(1) hist unfolding root_frame_def
    by (intro conjI disjI1 [of "\<forall>x\<in>_. _ x"] ballI) (auto simp: frame_def push_event_def pop_event_def)
  show ?case
  proof (cases halt)
    case None
    with res f' show ?thesis by simp
  next
    case (Some x)
    have spent: "max_handler_errors (pop_event b2) = None" "max_handler_errors b \<noteq> None"
      using sp [unfolded Some] by (auto simp: pop_event_def)
    have "stack (pop_event b2) = []" using f' by (simp add: root_frame_def)
    moreover have "publish run uuid n x (pop_event b2) = Some b'" using res Some by simp
    ultimately have r: "root_frame x (pop_event b2) b'" by (rule Suc.IH)
    then have "max_handler_errors b' = None" "\<forall>y\<in>set (history b') - set (history (pop_event b2)). in_chain x y"
      using spent by (auto simp: root_frame_def)
    then have "max_handler_errors b \<noteq> None \<and> max_handler_errors b' = None \<and>
        (\<exists>h. limit_halt h \<and> fresh h \<and> (\<forall>y\<in>set (history b') - set (history b). in_chain e y \<or> in_chain h y))"
      using spent h [OF Some] hist by blast
    then show ?thesis using r f' unfolding root_frame_def by auto
  qed
qed

lemma run_handlers_mono:
  "(\<And>e b x. pub e b = Some x \<Longrightarrow> pub' e b = Some x) \<Longrightarrow>
   run_handlers run uuid pub e hs hb = Some y \<Longrightarrow> run_handlers run uuid pub' e hs hb = Some y"
proof (induction hs arbitrary: hb)
  case Nil
  then show ?case by simp
next
  case (Cons h hs)
  obtain raised b1 where r: "run h pub e (snd hb) = Some (raised, b1)"
    using Cons.prems(2) by (auto split: option.splits)
  with Cons show ?case using run_mono [OF Cons.prems(1) r] by (simp split: option.splits)
qed

lemma run_classes_mono:
  "(\<And>e b x. pub e b = Some x \<Longrightarrow> pub' e b = Some x) \<Longrightarrow>
   run_classes run uuid pub e cs hb = Some y \<Longrightarrow> run_classes run uuid pub' e cs hb = Some y"
proof (induction cs arbitrary: hb)
  case Nil
  then show ?case by simp
next
  case (Cons c cs)
  obtain hb1 where r: "run_handlers run uuid pub e (handlers_of (snd hb) c) hb = Some hb1"
    using Cons.prems(2) by (auto split: option.splits)
  with Cons show ?case using run_handlers_mono [OF Cons.prems(1) r] by (simp split: option.splits)
qed

lemma publish_more_fuel: "publish run uuid n e b = Some y \<Longrightarrow> publish run uuid (Suc n) e b = Some y"
proof (induction n arbitrary: e b y)
  case 0
  then show ?case by simp
next
  case (Suc n)
  let ?e = "stamp (parent_of b) e"
  obtain halt b2 where d: "run_classes run uuid (publish run uuid n) ?e (mro (payload ?e)) (None, push_event ?e b) = Some (halt, b2)"
    and res: "(case halt of None \<Rightarrow> Some (pop_event b2) | Some h \<Rightarrow> publish run uuid n h (pop_event b2)) = Some y"
    using Suc.prems unfolding publish.simps(2) Let_def by (auto split: option.splits prod.splits)
  note d' = run_classes_mono [OF Suc.IH d]
  have "publish run uuid (Suc (Suc n)) e b =
      (case halt of None \<Rightarrow> Some (pop_event b2) | Some h \<Rightarrow> publish run uuid (Suc n) h (pop_event b2))"
    by (subst publish.simps(2)) (simp only: Let_def d' option.case prod.case)
  then show ?case
    using res Suc.IH by (cases halt) (simp_all del: publish.simps)
qed

end

section \<open>Handlers that publish as their last act\<close>

text \<open>
  The engines change their state and then publish: \<open>op h m s\<close> gives whether the call raised, the
  new state and the messages in publish order.  \<open>emit_all\<close> makes the events and publishes them
  one after the other, each dispatched to the end before the next.
\<close>

primrec emit_all ::
  "(nat \<Rightarrow> string) \<Rightarrow> ('h, 's) publisher \<Rightarrow> msg list \<Rightarrow> ('h, 's) bus \<Rightarrow> ('h, 's) bus option" where
  "emit_all uuid pub [] b = Some b"
| "emit_all uuid pub (m # ms) b =
     (case pub (new_event uuid (next_id b) m) (b\<lparr>next_id := Suc (next_id b)\<rparr>) of
        None \<Rightarrow> None
      | Some b' \<Rightarrow> emit_all uuid pub ms b')"

definition engine_run ::
  "('h \<Rightarrow> msg \<Rightarrow> 's \<Rightarrow> bool \<times> 's \<times> msg list) \<Rightarrow> (nat \<Rightarrow> string) \<Rightarrow> ('h, 's) runner" where
  "engine_run op uuid h pub e b =
     (case op h (payload e) (app b) of (raised, s', ms) \<Rightarrow>
        map_option (Pair raised) (emit_all uuid pub ms (b\<lparr>app := s'\<rparr>)))"

lemma frame_app [simp]:
  "frame c b (b\<lparr>app := s\<rparr>)" "frame c b (b\<lparr>next_id := k\<rparr>)"
  by (simp_all add: frame_def)

lemma emit_all_frame:
  "good_pub c pub \<Longrightarrow> inside c b \<Longrightarrow> emit_all uuid pub ms b = Some b' \<Longrightarrow> frame c b b'"
proof (induction ms arbitrary: b)
  case Nil
  then show ?case by simp
next
  case (Cons m ms)
  let ?b = "b\<lparr>next_id := Suc (next_id b)\<rparr>"
  obtain b1 where p: "pub (new_event uuid (next_id b) m) ?b = Some b1" and rest: "emit_all uuid pub ms b1 = Some b'"
    using Cons.prems(3) by (auto split: option.splits)
  have "inside c ?b" using Cons.prems(2) by (simp add: inside_def)
  then have "frame c ?b b1" using Cons.prems(1) p new_event_fresh unfolding good_pub_def by blast
  then have f: "frame c b b1" using frame_trans frame_app(2) by blast
  show ?case using frame_trans [OF f Cons.IH [OF Cons.prems(1) inside_frame [OF Cons.prems(2) f] rest]] .
qed

lemma emit_all_mono:
  "(\<And>e b x. pub e b = Some x \<Longrightarrow> pub' e b = Some x) \<Longrightarrow>
   emit_all uuid pub ms b = Some y \<Longrightarrow> emit_all uuid pub' ms b = Some y"
  by (induction ms arbitrary: b) (auto split: option.splits)

interpretation engines: bus_handlers "engine_run op uuid" uuid
  for op :: "'h \<Rightarrow> msg \<Rightarrow> 's \<Rightarrow> bool \<times> 's \<times> msg list" and uuid :: "nat \<Rightarrow> string"
proof unfold_locales
  fix c h e raised and pub :: "('h, 's) publisher" and b b' :: "('h, 's) bus"
  assume g: "good_pub c pub" and i: "inside c b" and r: "engine_run op uuid h pub e b = Some (raised, b')"
  obtain s' ms where em: "emit_all uuid pub ms (b\<lparr>app := s'\<rparr>) = Some b'"
    using r by (auto simp: engine_run_def split: prod.splits)
  have "inside c (b\<lparr>app := s'\<rparr>)" using i by (simp add: inside_def)
  then show "frame c b b'"
    by (rule frame_trans [OF frame_app(1) emit_all_frame [OF g _ em]])
next
  fix h e y and pub pub' :: "('h, 's) publisher" and b :: "('h, 's) bus"
  assume p: "\<And>e b x. pub e b = Some x \<Longrightarrow> pub' e b = Some x" and "engine_run op uuid h pub e b = Some y"
  then show "engine_run op uuid h pub' e b = Some y"
    using emit_all_mono [where pub = pub and pub' = pub', OF p]
    by (auto simp: engine_run_def split: prod.splits)
qed

section \<open>Termination of dispatch\<close>

definition keeps_spent :: "('h, 's) bus \<Rightarrow> ('h, 's) bus \<Rightarrow> bool" where
  "keeps_spent b b' \<longleftrightarrow> (max_handler_errors b = None \<longrightarrow> max_handler_errors b' = None)"

text \<open>A publisher that returns on every event of rank below \<open>k\<close> (if \<open>spent\<close>, on buses whose
  error limit is spent).\<close>

definition total_below :: "(etype \<Rightarrow> nat) \<Rightarrow> nat \<Rightarrow> bool \<Rightarrow> ('h, 's) publisher \<Rightarrow> bool" where
  "total_below rank k spent pub \<longleftrightarrow>
     (\<forall>e b. rank (msg_type (payload e)) < k \<longrightarrow> (spent \<longrightarrow> max_handler_errors b = None) \<longrightarrow>
        (\<exists>b'. pub e b = Some b' \<and> keeps_spent b b'))"

definition pending_halt :: "event option \<times> ('h, 's) bus \<Rightarrow> bool" where
  "pending_halt hb \<longleftrightarrow>
     (\<forall>x. fst hb = Some x \<longrightarrow> msg_type (payload x) = THalted \<and> max_handler_errors (snd hb) = None)"

definition progress :: "event option \<times> ('h, 's) bus \<Rightarrow> event option \<times> ('h, 's) bus \<Rightarrow> bool" where
  "progress hb hb' \<longleftrightarrow>
     pending_halt hb' \<and> keeps_spent (snd hb) (snd hb') \<and>
     (max_handler_errors (snd hb) = None \<and> fst hb = None \<longrightarrow> fst hb' = None)"

lemma progress_refl: "pending_halt hb \<Longrightarrow> progress hb hb"
  by (simp add: progress_def keeps_spent_def)

lemma progress_trans: "progress hb hb1 \<Longrightarrow> progress hb1 hb2 \<Longrightarrow> progress hb hb2"
  by (auto simp: progress_def keeps_spent_def)

lemma note_error_progress:
  "pending_halt (h, b) \<Longrightarrow> progress (h, b) (note_error uuid e (h, b))"
  by (auto simp: progress_def pending_halt_def keeps_spent_def note_error_def new_event_def halt_message_def
      Let_def split: option.splits if_splits)

text \<open>Engines whose handlers publish only events of lower rank than the one they handle.\<close>

locale engine_table =
  fixes op :: "'h \<Rightarrow> msg \<Rightarrow> 's \<Rightarrow> bool \<times> 's \<times> msg list" and rank :: "etype \<Rightarrow> nat"
  assumes descending: "op h m s = (raised, s', ms) \<Longrightarrow> m' \<in> set ms \<Longrightarrow> rank (msg_type m') < rank (msg_type m)"
begin

lemma emit_all_total:
  "total_below rank k spent pub \<Longrightarrow> (\<And>m. m \<in> set ms \<Longrightarrow> rank (msg_type m) < k) \<Longrightarrow>
   (spent \<Longrightarrow> max_handler_errors b = None) \<Longrightarrow>
   \<exists>b'. emit_all uuid pub ms b = Some b' \<and> keeps_spent b b'"
proof (induction ms arbitrary: b)
  case Nil
  then show ?case by (simp add: keeps_spent_def)
next
  case (Cons m ms)
  let ?b = "b\<lparr>next_id := Suc (next_id b)\<rparr>"
  have "rank (msg_type (payload (new_event uuid (next_id b) m))) < k"
    using Cons.prems(2) by (simp add: new_event_def)
  moreover have "spent \<longrightarrow> max_handler_errors ?b = None" using Cons.prems(3) by simp
  ultimately obtain b1 where b1: "pub (new_event uuid (next_id b) m) ?b = Some b1" "keeps_spent ?b b1"
    using Cons.prems(1) unfolding total_below_def by blast
  then have ks: "keeps_spent b b1" by (simp add: keeps_spent_def)
  have "\<exists>b'. emit_all uuid pub ms b1 = Some b' \<and> keeps_spent b1 b'"
    using Cons.IH [OF Cons.prems(1)] Cons.prems(2,3) ks by (simp add: keeps_spent_def)
  with b1(1) ks show ?case by (auto simp: keeps_spent_def)
qed

lemma engine_run_total:
  assumes "total_below rank (rank (msg_type (payload e))) spent pub" and "spent \<Longrightarrow> max_handler_errors b = None"
  shows "\<exists>raised b'. engine_run op uuid h pub e b = Some (raised, b') \<and> keeps_spent b b'"
proof -
  obtain raised s' ms where o: "op h (payload e) (app b) = (raised, s', ms)" by (metis prod_cases3)
  have "\<exists>b'. emit_all uuid pub ms (b\<lparr>app := s'\<rparr>) = Some b' \<and> keeps_spent (b\<lparr>app := s'\<rparr>) b'"
    using emit_all_total [OF assms(1)] descending [OF o] assms(2) by simp
  then show ?thesis by (auto simp: engine_run_def o keeps_spent_def)
qed

lemma run_handlers_total:
  "total_below rank (rank (msg_type (payload e))) spent pub \<Longrightarrow> (spent \<Longrightarrow> max_handler_errors (snd hb) = None) \<Longrightarrow>
   pending_halt hb \<Longrightarrow> \<exists>hb'. run_handlers (engine_run op uuid) uuid pub e hs hb = Some hb' \<and> progress hb hb'"
proof (induction hs arbitrary: hb)
  case Nil
  then show ?case by (simp add: progress_refl)
next
  case (Cons h hs)
  obtain raised b1 where r: "engine_run op uuid h pub e (snd hb) = Some (raised, b1)" "keeps_spent (snd hb) b1"
    using engine_run_total [OF Cons.prems(1,2)] by blast
  let ?hb = "if raised then note_error uuid e (fst hb, b1) else (fst hb, b1)"
  have p1: "progress hb (fst hb, b1)"
    using r(2) Cons.prems(3) by (auto simp: progress_def pending_halt_def keeps_spent_def)
  then have "pending_halt (fst hb, b1)" by (simp add: progress_def)
  with p1 have p: "progress hb ?hb" by (auto intro: progress_trans [OF _ note_error_progress])
  then have "spent \<Longrightarrow> max_handler_errors (snd ?hb) = None" and "pending_halt ?hb"
    using Cons.prems(2) by (simp_all add: progress_def keeps_spent_def)
  from Cons.IH [OF Cons.prems(1) this] p r(1) show ?case by (auto intro: progress_trans)
qed

lemma run_classes_total:
  "total_below rank (rank (msg_type (payload e))) spent pub \<Longrightarrow> (spent \<Longrightarrow> max_handler_errors (snd hb) = None) \<Longrightarrow>
   pending_halt hb \<Longrightarrow> \<exists>hb'. run_classes (engine_run op uuid) uuid pub e cs hb = Some hb' \<and> progress hb hb'"
proof (induction cs arbitrary: hb)
  case Nil
  then show ?case by (simp add: progress_refl)
next
  case (Cons c cs)
  obtain hb1 where h: "run_handlers (engine_run op uuid) uuid pub e (handlers_of (snd hb) c) hb = Some hb1" "progress hb hb1"
    using run_handlers_total [OF Cons.prems] by blast
  then have "spent \<Longrightarrow> max_handler_errors (snd hb1) = None" and "pending_halt hb1"
    using Cons.prems(2) by (simp_all add: progress_def keeps_spent_def)
  from Cons.IH [OF Cons.prems(1) this] h show ?case by (auto intro: progress_trans)
qed

lemma publish_total:
  "rank (msg_type (payload e)) + (if spent then 0 else Suc (rank THalted)) < n \<Longrightarrow>
   (spent \<Longrightarrow> max_handler_errors b = None) \<Longrightarrow>
   \<exists>b'. publish (engine_run op uuid) uuid n e b = Some b' \<and> keeps_spent b b'"
proof (induction n arbitrary: e b spent)
  case 0
  then show ?case by simp
next
  case (Suc n)
  let ?pub = "publish (engine_run op uuid) uuid n" and ?e = "stamp (parent_of b) e"
  have pl: "payload ?e = payload e" by (simp add: stamp_def Let_def split: option.splits)
  have below: "total_below rank (rank (msg_type (payload ?e))) spent ?pub"
    unfolding total_below_def pl
  proof (intro allI impI)
    fix e' :: event and b' :: "('h, 's) bus"
    assume "rank (msg_type (payload e')) < rank (msg_type (payload e))" "spent \<longrightarrow> max_handler_errors b' = None"
    then show "\<exists>b''. ?pub e' b' = Some b'' \<and> keeps_spent b' b''"
      using Suc.IH [of e' spent b'] Suc.prems(1) by simp
  qed
  have "spent \<Longrightarrow> max_handler_errors (snd (None :: event option, push_event ?e b)) = None"
    and "pending_halt (None :: event option, push_event ?e b)"
    using Suc.prems(2) by (simp_all add: push_event_def pending_halt_def)
  from run_classes_total [OF below this, of uuid "mro (payload ?e)"]
  obtain halt b2 where d: "run_classes (engine_run op uuid) uuid ?pub ?e (mro (payload ?e)) (None, push_event ?e b) = Some (halt, b2)"
    and pr: "progress (None, push_event ?e b) (halt, b2)" by auto
  show ?case
  proof (cases halt)
    case None
    then show ?thesis using d pr by (simp add: Let_def pop_event_def push_event_def progress_def keeps_spent_def)
  next
    case (Some h)
    with pr have th: "msg_type (payload h) = THalted" and m2: "max_handler_errors (pop_event b2) = None"
      and nb: "max_handler_errors b \<noteq> None"
      by (auto simp: progress_def pending_halt_def pop_event_def push_event_def)
    have "\<not> spent" using nb Suc.prems(2) by auto
    with Suc.prems(1) th have "rank (msg_type (payload h)) + (if True then 0 else Suc (rank THalted)) < n" by simp
    from Suc.IH [OF this m2] show ?thesis
      using d Some nb by (auto simp: Let_def keeps_spent_def)
  qed
qed

end

section \<open>Safety of dispatch\<close>

text \<open>A publisher that, given an allowed event on a bus whose application state is fine, leaves it fine.\<close>

definition pub_keeps :: "('s \<Rightarrow> bool) \<Rightarrow> (msg \<Rightarrow> bool) \<Rightarrow> ('h, 's) publisher \<Rightarrow> bool" where
  "pub_keeps ok allowed pub \<longleftrightarrow>
     (\<forall>e b b'. allowed (payload e) \<longrightarrow> ok (app b) \<longrightarrow> pub e b = Some b' \<longrightarrow> ok (app b'))"

text \<open>
  What the engines promise together: on a fine state a handler of an allowed event leaves a fine
  state and publishes allowed events only.  Then whole dispatches keep the state fine.
\<close>

locale engine_safety =
  fixes op :: "'h \<Rightarrow> msg \<Rightarrow> 's \<Rightarrow> bool \<times> 's \<times> msg list" and ok :: "'s \<Rightarrow> bool" and allowed :: "msg \<Rightarrow> bool"
  assumes step_keeps: "ok s \<Longrightarrow> allowed m \<Longrightarrow> op h m s = (raised, s', ms) \<Longrightarrow> ok s' \<and> list_all allowed ms"
    and halt_allowed: "allowed (RiskHaltedEvent x)"
begin

lemma emit_all_keeps:
  "pub_keeps ok allowed pub \<Longrightarrow> list_all allowed ms \<Longrightarrow> ok (app b) \<Longrightarrow> emit_all uuid pub ms b = Some b' \<Longrightarrow> ok (app b')"
proof (induction ms arbitrary: b)
  case Nil
  then show ?case by simp
next
  case (Cons m ms)
  let ?b = "b\<lparr>next_id := Suc (next_id b)\<rparr>"
  obtain b1 where p: "pub (new_event uuid (next_id b) m) ?b = Some b1" and rest: "emit_all uuid pub ms b1 = Some b'"
    using Cons.prems(4) by (auto split: option.splits)
  have "allowed (payload (new_event uuid (next_id b) m))" using Cons.prems(2) by (simp add: new_event_def)
  moreover have "ok (app ?b)" using Cons.prems(3) by simp
  ultimately have "ok (app b1)" using Cons.prems(1) p unfolding pub_keeps_def by blast
  from Cons.IH [OF Cons.prems(1) _ this rest] Cons.prems(2) show ?case by simp
qed

lemma engine_run_keeps:
  assumes "pub_keeps ok allowed pub" and "allowed (payload e)" and "ok (app b)"
    and "engine_run op uuid h pub e b = Some (raised, b')"
  shows "ok (app b')"
proof -
  obtain r s' ms where s: "op h (payload e) (app b) = (r, s', ms)" by (metis prod_cases3)
  have em: "emit_all uuid pub ms (b\<lparr>app := s'\<rparr>) = Some b'" using assms(4) by (auto simp: engine_run_def s)
  from step_keeps [OF assms(3,2) s] show ?thesis using emit_all_keeps [OF assms(1) _ _ em] by simp
qed

lemma note_error_keeps:
  "app (snd (note_error uuid e hb)) = app (snd hb) \<and>
   (\<forall>x. fst (note_error uuid e hb) = Some x \<longrightarrow> fst hb = Some x \<or> allowed (payload x))"
  by (auto simp: note_error_def new_event_def halt_message_def halt_allowed Let_def split: prod.splits option.splits)

lemma run_handlers_keeps:
  "pub_keeps ok allowed pub \<Longrightarrow> allowed (payload e) \<Longrightarrow> ok (app (snd hb)) \<Longrightarrow>
   (\<And>x. fst hb = Some x \<Longrightarrow> allowed (payload x)) \<Longrightarrow>
   run_handlers (engine_run op uuid) uuid pub e hs hb = Some hb' \<Longrightarrow>
   ok (app (snd hb')) \<and> (\<forall>x. fst hb' = Some x \<longrightarrow> allowed (payload x))"
proof (induction hs arbitrary: hb)
  case Nil
  then show ?case by simp
next
  case (Cons h hs)
  obtain raised b1 where r: "engine_run op uuid h pub e (snd hb) = Some (raised, b1)"
    and rest: "run_handlers (engine_run op uuid) uuid pub e hs
      (if raised then note_error uuid e (fst hb, b1) else (fst hb, b1)) = Some hb'"
    using Cons.prems(5) by (auto split: option.splits prod.splits)
  let ?hb = "if raised then note_error uuid e (fst hb, b1) else (fst hb, b1)"
  have "ok (app b1)" by (rule engine_run_keeps [OF Cons.prems(1-3) r])
  then have "ok (app (snd ?hb))" using note_error_keeps [of uuid e "(fst hb, b1)"] by simp
  moreover have "allowed (payload x)" if "fst ?hb = Some x" for x
    using that Cons.prems(4) note_error_keeps [of uuid e "(fst hb, b1)"] by (auto split: if_splits)
  ultimately show ?case using Cons.IH [OF Cons.prems(1,2) _ _ rest] by blast
qed

lemma run_classes_keeps:
  "pub_keeps ok allowed pub \<Longrightarrow> allowed (payload e) \<Longrightarrow> ok (app (snd hb)) \<Longrightarrow>
   (\<And>x. fst hb = Some x \<Longrightarrow> allowed (payload x)) \<Longrightarrow>
   run_classes (engine_run op uuid) uuid pub e cs hb = Some hb' \<Longrightarrow>
   ok (app (snd hb')) \<and> (\<forall>x. fst hb' = Some x \<longrightarrow> allowed (payload x))"
proof (induction cs arbitrary: hb)
  case Nil
  then show ?case by simp
next
  case (Cons c cs)
  obtain hb1 where h: "run_handlers (engine_run op uuid) uuid pub e (handlers_of (snd hb) c) hb = Some hb1"
    and rest: "run_classes (engine_run op uuid) uuid pub e cs hb1 = Some hb'"
    using Cons.prems(5) by (auto split: option.splits)
  from run_handlers_keeps [OF Cons.prems(1-4) h] show ?case using Cons.IH [OF Cons.prems(1,2) _ _ rest] by blast
qed

lemma publish_keeps: "pub_keeps ok allowed (publish (engine_run op uuid) uuid n)"
proof (induction n)
  case 0
  then show ?case by (simp add: pub_keeps_def)
next
  case (Suc n)
  show ?case
    unfolding pub_keeps_def
  proof (intro allI impI)
    fix e and b b' :: "('h, 's) bus"
    assume a: "allowed (payload e)" "ok (app b)" "publish (engine_run op uuid) uuid (Suc n) e b = Some b'"
    let ?e = "stamp (parent_of b) e"
    have pl: "payload ?e = payload e" by (simp add: stamp_def Let_def split: option.splits)
    obtain halt b2 where d: "run_classes (engine_run op uuid) uuid (publish (engine_run op uuid) uuid n) ?e
        (mro (payload ?e)) (None, push_event ?e b) = Some (halt, b2)"
      and res: "(case halt of None \<Rightarrow> Some (pop_event b2) | Some h \<Rightarrow> publish (engine_run op uuid) uuid n h (pop_event b2)) = Some b'"
      using a(3) unfolding publish.simps(2) Let_def by (auto split: option.splits prod.splits)
    have k: "ok (app b2) \<and> (\<forall>x. halt = Some x \<longrightarrow> allowed (payload x))"
      using run_classes_keeps [OF Suc.IH _ _ _ d] a(1,2) by (simp add: pl push_event_def)
    then have "ok (app (pop_event b2))" by (simp add: pop_event_def)
    then show "ok (app b')" using res k Suc.IH unfolding pub_keeps_def by (cases halt) auto
  qed
qed

end

section \<open>Properties\<close>

text \<open>C17: publishing is a balanced, bounded and causally stamped operation, for any set of
  engines behind the handlers, which raise their events without ids of their own (as every engine
  of the repository does).  When an event is published outside any dispatch and \<open>publish\<close> returns,
  the dispatch stack is empty again, the history is within its bound, and the error count has not
  gone down.  Every event recorded since (and still held by the bounded history) carries the
  published event's correlation id, the one it was given or else its own id, and names the event
  that caused it, the published event itself excepted.  The one exception is the halt event the bus
  adds, once, when the handler-error limit is reached in the dispatch of the published event: it
  starts a chain of its own, and the events it leads to carry its id.\<close>

theorem publish_traces_causality:
  assumes "stack b = []" and "length (history b) \<le> max_history b"
    and "publish (engine_run op uuid) uuid n e b = Some b'"
  shows "stack b' = [] \<and> length (history b') \<le> max_history b' \<and> max_history b' = max_history b \<and>
    handler_errors b \<le> handler_errors b' \<and>
    ((\<forall>x\<in>set (history b') - set (history b). in_chain e x) \<or>
     max_handler_errors b \<noteq> None \<and> max_handler_errors b' = None \<and>
     (\<exists>h. limit_halt h \<and> fresh h \<and> (\<forall>x\<in>set (history b') - set (history b). in_chain e x \<or> in_chain h x)))"
proof -
  have "root_frame e b b'" using engines.publish_root [OF assms(1,3)] .
  with assms(2) show ?thesis by (simp add: root_frame_def)
qed

text \<open>a nested publish inherits the correlation id of the event being dispatched and leaves
  the stack as it found it, so dispatch of the outer event continues unchanged.\<close>

theorem nested_publish_inherits:
  assumes "correlation_id e = None" and "causation_id e = None"
    and "stack b = p # ps" and "correlation_id p = Some c"
    and "publish (engine_run op uuid) uuid n e b = Some b'"
  shows "stack b' = p # ps \<and>
    (\<forall>x\<in>set (history b') - set (history b). correlation_id x = Some c \<and> causation_id x \<noteq> None)"
proof -
  have "frame c b b'"
    using engines.publish_frame [of c op uuid n] assms by (auto simp: good_pub_def fresh_def inside_def)
  with assms(3) show ?thesis by (auto simp: frame_def)
qed

text \<open>Handlers that publish nothing, with the error limit off: a publication in closed form.\<close>

definition quiet :: "('h \<Rightarrow> msg \<Rightarrow> 's \<Rightarrow> bool \<times> 's) \<Rightarrow> 'h \<Rightarrow> msg \<Rightarrow> 's \<Rightarrow> bool \<times> 's \<times> msg list" where
  "quiet f h m s = (case f h m s of (raised, s') \<Rightarrow> (raised, s', []))"

primrec run_quiet :: "('h \<Rightarrow> msg \<Rightarrow> 's \<Rightarrow> bool \<times> 's) \<Rightarrow> msg \<Rightarrow> 'h list \<Rightarrow> nat \<times> 's \<Rightarrow> nat \<times> 's" where
  "run_quiet f m [] ns = ns"
| "run_quiet f m (h # hs) ns =
     (case f h m (snd ns) of (raised, s') \<Rightarrow>
        run_quiet f m hs (if raised then Suc (fst ns) else fst ns, s'))"

lemma run_quiet_append: "run_quiet f m (hs @ hs') ns = run_quiet f m hs' (run_quiet f m hs ns)"
  by (induction hs arbitrary: ns) (simp_all split: prod.splits)

lemma run_handlers_quiet:
  "max_handler_errors b = None \<Longrightarrow>
   run_handlers (engine_run (quiet f) uuid) uuid pub e hs (None, b) =
     Some (None, b\<lparr>handler_errors := fst (run_quiet f (payload e) hs (handler_errors b, app b)),
                   app := snd (run_quiet f (payload e) hs (handler_errors b, app b))\<rparr>)"
proof (induction hs arbitrary: b)
  case Nil
  then show ?case by simp
next
  case (Cons h hs)
  obtain raised s' where f: "f h (payload e) (app b) = (raised, s')" by fastforce
  show ?case
    using Cons.prems Cons.IH [of "b\<lparr>app := s'\<rparr>"] Cons.IH [of "b\<lparr>app := s', handler_errors := Suc (handler_errors b)\<rparr>"]
    by (simp add: engine_run_def quiet_def f note_error_def)
qed

lemma quiet_publish:
  assumes "max_handler_errors b = None" and "0 < n"
  shows "\<exists>b'. publish (engine_run (quiet f) uuid) uuid n e b = Some b' \<and>
    (handler_errors b', app b') =
      run_quiet f (payload e)
        (handlers_of b (msg_type (payload e)) @ handlers_of b TEvent @ handlers_of b TObject)
        (handler_errors b, app b)"
proof -
  obtain k where n: "n = Suc k" using assms(2) gr0_conv_Suc by blast
  have pl: "payload (stamp x e) = payload e" for x by (simp add: stamp_def Let_def split: option.splits)
  show ?thesis
    using assms(1)
    by (simp add: n Let_def mro_def pl push_event_def pop_event_def run_handlers_quiet run_quiet_append
        handlers_of_def)
qed

text \<open>Subscribing and unsubscribing.\<close>

lemma handlers_of_subscribe:
  "handlers_of (subscribe t h b) t' = handlers_of b t' @ (if t' = t then [h] else [])"
  by (simp add: handlers_of_def subscribe_def get_default_def split: option.splits)

lemma handlers_of_unsubscribe:
  "handlers_of (unsubscribe t h b) t' = (if t' = t then remove1 h (handlers_of b t) else handlers_of b t')"
  by (simp add: handlers_of_def unsubscribe_def get_default_def split: option.splits)

text \<open>unsubscribing undoes subscribing: a handler that was not subscribed to an event class
  and is subscribed and then unsubscribed leaves the handlers of every class, and their order,
  as they were; an unknown handler is ignored.\<close>

theorem subscribe_unsubscribe:
  assumes "h \<notin> set (handlers_of b t)"
  shows "handlers_of (unsubscribe t h (subscribe t h b)) t' = handlers_of b t' \<and>
    handlers_of (unsubscribe t h b) t' = handlers_of b t'"
  using assms by (simp add: handlers_of_subscribe handlers_of_unsubscribe remove1_append remove1_idem)

section \<open>Witnesses\<close>

definition tick_0 :: event where
  "tick_0 = new_event (\<lambda>k. str_nat k) 0 (HeartbeatEvent (naive 0) 0 0)"

definition log_bus :: "(nat, (nat \<times> msg) list) bus" where
  "log_bus = subscribe TEvent 2 (subscribe THeartbeat 1 (new_bus 100 None []))"

definition log_op :: "nat \<Rightarrow> msg \<Rightarrow> (nat \<times> msg) list \<Rightarrow> bool \<times> (nat \<times> msg) list" where
  "log_op h m s = (h = 1, s @ [(h, m)])"

lemmas bus_examples = tick_0_def log_bus_def log_op_def new_event_def new_bus_def subscribe_def
  handlers_of_def get_default_def

theorem publish_traces_causality_witness:
  "\<exists>b'. publish (engine_run (quiet log_op) str_nat) str_nat 1 tick_0 log_bus = Some b' \<and> stack b' = []"
proof -
  obtain b' where p: "publish (engine_run (quiet log_op) str_nat) str_nat 1 tick_0 log_bus = Some b'"
    using quiet_publish [of log_bus 1 log_op str_nat tick_0] by (auto simp: bus_examples)
  show ?thesis using p publish_traces_causality [OF _ _ p] by (simp add: bus_examples)
qed

theorem nested_publish_inherits_witness:
  "\<exists>b'. publish (engine_run (quiet log_op) str_nat) str_nat 1 tick_0
      (log_bus\<lparr>stack := [tick_0\<lparr>correlation_id := Some ''c''\<rparr>]\<rparr>) = Some b' \<and>
     stack b' = [tick_0\<lparr>correlation_id := Some ''c''\<rparr>]"
proof -
  let ?b = "log_bus\<lparr>stack := [tick_0\<lparr>correlation_id := Some ''c''\<rparr>]\<rparr>"
  obtain b' where p: "publish (engine_run (quiet log_op) str_nat) str_nat 1 tick_0 ?b = Some b'"
    using quiet_publish [of ?b 1 log_op str_nat tick_0] by (auto simp: bus_examples)
  show ?thesis using p nested_publish_inherits [OF _ _ _ _ p, of "tick_0\<lparr>correlation_id := Some ''c''\<rparr>" "[]" "''c''"]
    by (simp add: bus_examples)
qed

theorem subscribe_unsubscribe_witness:
  "handlers_of (unsubscribe THeartbeat 7 (subscribe THeartbeat 7 log_bus)) THeartbeat = [1]"
  using subscribe_unsubscribe [of 7 log_bus THeartbeat THeartbeat] by (simp add: bus_examples)

end
