(* ===== verification/Risk.thy ===== *)
theory Risk
  imports Portfolio Market
begin

text \<open>
  \<open>ntrade/engines/risk_engine.py\<close>: the screen between strategy signals and orders, with its
  static limits and its circuit breakers.  The engine reads the ledger (positions and cash), the
  registered instruments and the clock; those are the record \<open>risk_ctx\<close>.

  The lemmas show that an approval implies every configured limit, that a tripped breaker stays
  tripped and blocks every signal until \<open>resume\<close>, that halts and resumptions alternate on the
  bus, and what the daily-loss baseline is after a resumption.
\<close>

section \<open>State\<close>

record risk_ctx =
  rx_ledger :: ledger
  rx_instruments :: instruments
  rx_now :: datetime

record risk_engine =
  max_quantity :: "int option"
  max_notional :: "real option"
  max_positions :: "nat option"
  allowlist :: "string list option"
  strategy :: "string option"
  max_daily_loss :: "real option"
  max_drawdown_pct :: "real option"
  price_deviation_pct :: "real option"
  halted :: bool
  halt_reason :: string
  start_balance :: real
  rebased :: bool
  peak_equity :: "real option"
  approved :: nat
  rejected :: nat

definition new_risk_engine ::
  "risk_ctx \<Rightarrow> int option \<Rightarrow> real option \<Rightarrow> nat option \<Rightarrow> string list option \<Rightarrow> string option \<Rightarrow>
   real option \<Rightarrow> real option \<Rightarrow> real option \<Rightarrow> risk_engine" where
  "new_risk_engine cx mq mn mp allow strat loss ddn dev =
     \<lparr>max_quantity = mq, max_notional = mn, max_positions = mp,
      allowlist = (case allow of None \<Rightarrow> None | Some [] \<Rightarrow> None | Some xs \<Rightarrow> Some xs),
      strategy = strat, max_daily_loss = loss, max_drawdown_pct = ddn, price_deviation_pct = dev,
      halted = False, halt_reason = [], start_balance = balance (rx_ledger cx), rebased = False,
      peak_equity = None, approved = 0, rejected = 0\<rparr>"

section \<open>Equity and breakers\<close>

definition equity :: "risk_ctx \<Rightarrow> real" where
  "equity cx = balance (rx_ledger cx) + (\<Sum>p\<leftarrow>positions (rx_ledger cx). market_value p)"

definition halt :: "risk_ctx \<Rightarrow> string \<Rightarrow> risk_engine \<Rightarrow> risk_engine \<times> msg list" where
  "halt cx reason r =
     (if \<not> halted r
      then (r\<lparr>halted := True, halt_reason := reason\<rparr>,
            [RiskHaltedEvent \<lparr>ts = rx_now cx, rh_reason = reason, rh_equity = equity cx\<rparr>])
      else (r, []))"

definition resume :: "risk_ctx \<Rightarrow> risk_engine \<Rightarrow> risk_engine \<times> msg list" where
  "resume cx r =
     (if halted r
      then (r\<lparr>halted := False, halt_reason := [], peak_equity := None,
              start_balance := balance (rx_ledger cx)\<rparr>,
            [RiskResumedEvent (rx_now cx) []])
      else (r, []))"

definition rebase :: "real \<Rightarrow> risk_engine \<Rightarrow> risk_engine" where
  "rebase b r = (if \<not> rebased r then r\<lparr>start_balance := b, rebased := True\<rparr> else r)"

definition raise_peak :: "real \<Rightarrow> risk_engine \<Rightarrow> risk_engine" where
  "raise_peak eq r =
     (case peak_equity r of
        None \<Rightarrow> r\<lparr>peak_equity := Some eq\<rparr>
      | Some p \<Rightarrow> if eq > p then r\<lparr>peak_equity := Some eq\<rparr> else r)"

text \<open>The first reason of a sequence of checks, if any.\<close>

definition first_reason :: "string option list \<Rightarrow> string option" where
  "first_reason rs = (case dropWhile (\<lambda>x. x = None) rs of [] \<Rightarrow> None | x # _ \<Rightarrow> x)"

text \<open>The reason a breaker trips with, at the given equity and updated peak.\<close>

definition loss_reason :: "real \<Rightarrow> risk_engine \<Rightarrow> string option" where
  "loss_reason eq r =
     (let loss = start_balance r - eq in
      case max_daily_loss r of
        Some cap \<Rightarrow> if loss > cap
          then Some (''daily loss '' @ fmt_fixed 2 loss @ '' exceeds cap '' @ repr_float cap) else None
      | None \<Rightarrow> None)"

definition drawdown_reason :: "real \<Rightarrow> risk_engine \<Rightarrow> string option" where
  "drawdown_reason eq r =
     (case (max_drawdown_pct r, peak_equity r) of
        (Some cap, Some peak) \<Rightarrow>
          (let ddn = (peak - eq) / peak * 100
           in if peak \<noteq> 0 \<and> ddn > cap
              then Some (''drawdown '' @ fmt_fixed 1 ddn @ ''% exceeds '' @ repr_float cap @ ''%'') else None)
      | _ \<Rightarrow> None)"

definition breaker_reason :: "real \<Rightarrow> risk_engine \<Rightarrow> string option" where
  "breaker_reason eq r = first_reason [loss_reason eq r, drawdown_reason eq r]"

definition update_breakers :: "risk_ctx \<Rightarrow> risk_engine \<Rightarrow> risk_engine \<times> msg list" where
  "update_breakers cx r =
     (if halted r then (r, [])
      else (let eq = equity cx; r = raise_peak eq r
            in case breaker_reason eq r of None \<Rightarrow> (r, []) | Some reason \<Rightarrow> halt cx reason r))"

definition risk_check :: "risk_ctx \<Rightarrow> risk_engine \<Rightarrow> string option \<times> risk_engine \<times> msg list" where
  "risk_check cx r =
     (case update_breakers cx r of (r', ms) \<Rightarrow>
        (if halted r' then Some (halt_reason r') else None, r', ms))"

section \<open>Screening\<close>

definition risk_reference_price :: "risk_ctx \<Rightarrow> string \<Rightarrow> real" where
  "risk_reference_price cx sy =
     (case map_of (rx_instruments cx) sy of
        None \<Rightarrow> 0
      | Some ins \<Rightarrow> num_or (q_ltp (i_quote ins)) (num_or (q_prev_close (i_quote ins)) 0))"

definition position_count :: "risk_ctx \<Rightarrow> risk_engine \<Rightarrow> nat" where
  "position_count cx r =
     (case strategy r of
        None \<Rightarrow> length (positions (rx_ledger cx))
      | Some s \<Rightarrow> length [p \<leftarrow> positions (rx_ledger cx).
                          map_of (ps_metadata p) ''strategy'' = Some (PStr s)])"

definition signal_price :: "risk_ctx \<Rightarrow> signal_generated \<Rightarrow> real" where
  "signal_price cx e =
     (if num_or (sg_price e) 0 \<le> 0 then risk_reference_price cx (sg_symbol e) else sg_price e)"

definition deviation :: "risk_ctx \<Rightarrow> signal_generated \<Rightarrow> real" where
  "deviation cx e =
     (let ref = risk_reference_price cx (sg_symbol e) in \<bar>sg_price e - ref\<bar> / ref * 100)"

text \<open>The static checks of \<open>_check\<close>, in order; each returns its reason or passes.\<close>

definition check_allowlist :: "risk_engine \<Rightarrow> signal_generated \<Rightarrow> string option" where
  "check_allowlist r e =
     (case allowlist r of
        Some xs \<Rightarrow> if sg_symbol e \<notin> set xs
          then Some (''symbol '' @ repr_str (sg_symbol e) @ '' not in allowlist'') else None
      | None \<Rightarrow> None)"

definition check_quantity :: "risk_engine \<Rightarrow> signal_generated \<Rightarrow> string option" where
  "check_quantity r e =
     (case max_quantity r of
        Some mq \<Rightarrow> if sg_quantity e > mq
          then Some (''quantity '' @ str_int (sg_quantity e) @ '' exceeds max '' @ str_int mq) else None
      | None \<Rightarrow> None)"

definition check_notional :: "risk_ctx \<Rightarrow> risk_engine \<Rightarrow> signal_generated \<Rightarrow> string option" where
  "check_notional cx r e =
     (case max_notional r of
        Some mn \<Rightarrow>
          (let px = signal_price cx e; notional = px * of_int (sg_quantity e)
           in if px \<le> 0 then Some (''notional unverifiable: no market price for '' @ sg_symbol e)
              else if notional > mn
              then Some (''notional '' @ fmt_fixed 2 notional @ '' exceeds max '' @ repr_float mn)
              else None)
      | None \<Rightarrow> None)"

definition check_positions :: "risk_ctx \<Rightarrow> risk_engine \<Rightarrow> string option" where
  "check_positions cx r =
     (case max_positions r of
        Some mp \<Rightarrow> if position_count cx r \<ge> mp
          then Some (''max positions '' @ str_nat mp @ '' reached'') else None
      | None \<Rightarrow> None)"

definition check_deviation :: "risk_ctx \<Rightarrow> risk_engine \<Rightarrow> signal_generated \<Rightarrow> string option" where
  "check_deviation cx r e =
     (case price_deviation_pct r of
        Some pct \<Rightarrow>
          if sg_price e \<noteq> 0
          then (let ref = risk_reference_price cx (sg_symbol e)
                in if ref = 0
                   then Some (''price '' @ fmt_fixed 2 (sg_price e) @ '' unverifiable: no market price for '' @ sg_symbol e)
                   else if deviation cx e > pct
                   then Some (''price '' @ fmt_fixed 2 (sg_price e) @ '' deviates '' @ fmt_fixed 1 (deviation cx e)
                          @ ''% from ref '' @ fmt_fixed 2 ref @ '' (> '' @ repr_float pct @ ''%)'')
                   else None)
          else None
      | None \<Rightarrow> None)"

definition check_signal ::
  "risk_ctx \<Rightarrow> signal_generated \<Rightarrow> risk_engine \<Rightarrow> string option \<times> risk_engine \<times> msg list" where
  "check_signal cx e r =
     (case update_breakers cx r of (r', ms) \<Rightarrow>
        (if halted r' then Some (''risk halted: '' @ halt_reason r')
         else first_reason [check_allowlist r' e, check_quantity r' e, check_notional cx r' e,
                            check_positions cx r', check_deviation cx r' e],
         r', ms))"

definition on_signal ::
  "risk_ctx \<Rightarrow> signal_generated \<Rightarrow> risk_engine \<Rightarrow> risk_engine \<times> msg list" where
  "on_signal cx e r =
     (if (case strategy r of None \<Rightarrow> False | Some s \<Rightarrow> sg_strategy e \<noteq> s) then (r, [])
      else (case check_signal cx e r of
              (None, r', ms) \<Rightarrow>
                (r'\<lparr>approved := Suc (approved r')\<rparr>,
                 ms @ [SignalApprovedEvent \<lparr>ts = ts e, sa_signal = e\<rparr>])
            | (Some reason, r', ms) \<Rightarrow>
                (r'\<lparr>rejected := Suc (rejected r')\<rparr>,
                 ms @ [SignalRejectedEvent \<lparr>ts = ts e, sr_signal = e, sr_reason = reason\<rparr>])))"

section \<open>Lemmas\<close>

lemma first_reason_None: "first_reason rs = None \<longleftrightarrow> list_all (\<lambda>x. x = None) rs"
  by (induction rs) (auto simp: first_reason_def split: option.splits)

lemma raise_peak_fields [simp]:
  "halted (raise_peak eq r) = halted r" "halt_reason (raise_peak eq r) = halt_reason r"
  "start_balance (raise_peak eq r) = start_balance r" "max_daily_loss (raise_peak eq r) = max_daily_loss r"
  "max_drawdown_pct (raise_peak eq r) = max_drawdown_pct r" "max_quantity (raise_peak eq r) = max_quantity r"
  "max_notional (raise_peak eq r) = max_notional r" "max_positions (raise_peak eq r) = max_positions r"
  "allowlist (raise_peak eq r) = allowlist r" "strategy (raise_peak eq r) = strategy r"
  "price_deviation_pct (raise_peak eq r) = price_deviation_pct r"
  "rebased (raise_peak eq r) = rebased r" "approved (raise_peak eq r) = approved r"
  "rejected (raise_peak eq r) = rejected r"
  by (auto simp: raise_peak_def split: option.splits)

lemma raise_peak_peak:
  "peak_equity (raise_peak eq r) = Some (case peak_equity r of None \<Rightarrow> eq | Some p \<Rightarrow> max p eq)"
  by (auto simp: raise_peak_def split: option.splits)

definition same_limits :: "risk_engine \<Rightarrow> risk_engine \<Rightarrow> bool" where
  "same_limits r r' \<longleftrightarrow> max_quantity r' = max_quantity r \<and> max_notional r' = max_notional r \<and>
     max_positions r' = max_positions r \<and> allowlist r' = allowlist r \<and> strategy r' = strategy r \<and>
     max_daily_loss r' = max_daily_loss r \<and> max_drawdown_pct r' = max_drawdown_pct r \<and>
     price_deviation_pct r' = price_deviation_pct r"

lemma update_breakers_limits:
  "update_breakers cx r = (r', ms) \<Longrightarrow> same_limits r r' \<and> start_balance r' = start_balance r \<and>
     approved r' = approved r \<and> rejected r' = rejected r"
  by (auto simp: update_breakers_def halt_def same_limits_def Let_def split: if_splits option.splits)

lemma update_breakers_halted:
  "halted r \<Longrightarrow> update_breakers cx r = (r, [])"
  by (simp add: update_breakers_def)

lemma update_breakers_msgs:
  "update_breakers cx r = (r', ms) \<Longrightarrow>
   (ms = [] \<and> halted r' = halted r) \<or>
   (\<not> halted r \<and> halted r' \<and> (\<exists>h. ms = [RiskHaltedEvent h] \<and> rh_equity h = equity cx \<and> rh_reason h = halt_reason r'))"
  by (auto simp: update_breakers_def halt_def Let_def split: if_splits option.splits)

lemma update_breakers_safe:
  assumes "update_breakers cx r = (r', ms)" and "\<not> halted r'"
  shows "(case max_daily_loss r of None \<Rightarrow> True | Some cap \<Rightarrow> start_balance r - equity cx \<le> cap) \<and>
    (\<exists>p. peak_equity r' = Some p \<and> equity cx \<le> p \<and>
      (case peak_equity r of None \<Rightarrow> True | Some p0 \<Rightarrow> p0 \<le> p) \<and>
      (case max_drawdown_pct r of None \<Rightarrow> True
       | Some mdd \<Rightarrow> p \<noteq> 0 \<longrightarrow> (p - equity cx) / p * 100 \<le> mdd))"
proof -
  from assms have nh: "\<not> halted r" and r': "r' = raise_peak (equity cx) r"
    and b: "breaker_reason (equity cx) (raise_peak (equity cx) r) = None"
    by (auto simp: update_breakers_def halt_def Let_def split: if_splits option.splits)
  from b show ?thesis
    unfolding r' breaker_reason_def first_reason_None
    by (auto simp: loss_reason_def drawdown_reason_def raise_peak_peak Let_def split: option.splits if_splits)
qed

section \<open>Properties\<close>

text \<open>C14: an approval implies every limit.  If screening a signal publishes its approval, then
  the engine was not halted before or after, the breakers do not trip at the current equity, the
  symbol is on the allowlist if there is one, the quantity and the notional (at the signal's
  price, or the reference price for a MARKET signal) are within their maxima, fewer positions
  than the maximum are open, and a declared price deviates from a known reference price by at
  most the configured percentage.\<close>

theorem approval_implies_limits:
  assumes "on_signal cx e r = (r', ms)" and "SignalApprovedEvent a \<in> set ms"
  shows "sa_signal a = e \<and> \<not> halted r \<and> \<not> halted r' \<and>
    (\<forall>s. strategy r = Some s \<longrightarrow> sg_strategy e = s) \<and>
    (\<forall>cap. max_daily_loss r = Some cap \<longrightarrow> start_balance r - equity cx \<le> cap) \<and>
    (\<forall>xs. allowlist r = Some xs \<longrightarrow> sg_symbol e \<in> set xs) \<and>
    (\<forall>mq. max_quantity r = Some mq \<longrightarrow> sg_quantity e \<le> mq) \<and>
    (\<forall>mn. max_notional r = Some mn \<longrightarrow>
       0 < signal_price cx e \<and> signal_price cx e * of_int (sg_quantity e) \<le> mn) \<and>
    (\<forall>mp. max_positions r = Some mp \<longrightarrow> position_count cx r < mp) \<and>
    (\<forall>pct. price_deviation_pct r = Some pct \<and> sg_price e \<noteq> 0 \<longrightarrow>
       risk_reference_price cx (sg_symbol e) \<noteq> 0 \<and> deviation cx e \<le> pct)"
proof -
  obtain r1 ms1 where u: "update_breakers cx r = (r1, ms1)" by fastforce
  note lims = update_breakers_limits [OF u, unfolded same_limits_def]
  have no: "SignalApprovedEvent x \<notin> set ms1" for x using update_breakers_msgs [OF u] by auto
  have st: "\<forall>s. strategy r = Some s \<longrightarrow> sg_strategy e = s"
    using assms by (auto simp: on_signal_def split: if_splits option.splits)
  then have os: "on_signal cx e r = (case check_signal cx e r of
              (None, r', ms) \<Rightarrow> (r'\<lparr>approved := Suc (approved r')\<rparr>, ms @ [SignalApprovedEvent \<lparr>ts = ts e, sa_signal = e\<rparr>])
            | (Some reason, r', ms) \<Rightarrow> (r'\<lparr>rejected := Suc (rejected r')\<rparr>,
                 ms @ [SignalRejectedEvent \<lparr>ts = ts e, sr_signal = e, sr_reason = reason\<rparr>]))"
    by (auto simp: on_signal_def split: option.splits)
  with assms no u have nh: "\<not> halted r1" and r': "r' = r1\<lparr>approved := Suc (approved r1)\<rparr>" and a: "sa_signal a = e"
    and c: "first_reason [check_allowlist r1 e, check_quantity r1 e, check_notional cx r1 e,
        check_positions cx r1, check_deviation cx r1 e] = None"
    by (auto simp: check_signal_def split: option.splits if_splits)
  have "\<not> halted r" using u nh by (auto simp: update_breakers_halted)
  moreover have "position_count cx r1 = position_count cx r" using lims by (simp add: position_count_def)
  ultimately show ?thesis
    using c nh r' a st lims update_breakers_safe [OF u nh]
    unfolding first_reason_None
    by (auto simp: check_allowlist_def check_quantity_def check_notional_def check_positions_def
        check_deviation_def Let_def split: if_splits)
qed

text \<open>a halted engine approves nothing and stays halted: any signal of its strategy gets
  exactly one rejection carrying the halt reason, the state changes only in the rejection
  counter, and neither \<open>check\<close>, \<open>halt\<close> nor \<open>rebase\<close> clears the halt; only \<open>resume\<close> does.\<close>

theorem halt_blocks_until_resume:
  assumes "halted r"
  shows "(strategy r = None \<or> strategy r = Some (sg_strategy e) \<longrightarrow>
      on_signal cx e r = (r\<lparr>rejected := Suc (rejected r)\<rparr>,
        [SignalRejectedEvent \<lparr>ts = ts e, sr_signal = e, sr_reason = ''risk halted: '' @ halt_reason r\<rparr>])) \<and>
    risk_check cx r = (Some (halt_reason r), r, []) \<and> halt cx reason r = (r, []) \<and>
    halted (rebase b r) \<and> \<not> halted (fst (resume cx r))"
  using assms
  by (auto simp: on_signal_def check_signal_def update_breakers_halted risk_check_def halt_def
      rebase_def resume_def)

text \<open>the breakers are complete.  When \<open>check\<close> reports no halt, the loss against the baseline
  is within the daily cap, the recorded peak is at least both the previous peak and the current
  equity, and the drawdown from that peak is within its limit; when it trips it publishes exactly
  one halt event, with the current equity and the reason it then reports.\<close>

theorem breakers_complete:
  assumes "risk_check cx r = (out, r', ms)" and "\<not> halted r"
  shows "(out = None \<longrightarrow> ms = [] \<and>
      (\<forall>cap. max_daily_loss r = Some cap \<longrightarrow> start_balance r - equity cx \<le> cap) \<and>
      (\<exists>p. peak_equity r' = Some p \<and> equity cx \<le> p \<and> (\<forall>p0. peak_equity r = Some p0 \<longrightarrow> p0 \<le> p) \<and>
        (\<forall>cap. max_drawdown_pct r = Some cap \<and> p \<noteq> 0 \<longrightarrow> (p - equity cx) / p * 100 \<le> cap))) \<and>
    (\<forall>reason. out = Some reason \<longrightarrow> halted r' \<and>
      (\<exists>h. ms = [RiskHaltedEvent h] \<and> rh_equity h = equity cx \<and> rh_reason h = reason))"
proof -
  obtain r1 ms1 where u: "update_breakers cx r = (r1, ms1)" by fastforce
  show ?thesis
    using assms update_breakers_safe [OF u] update_breakers_msgs [OF u] u
    by (auto simp: risk_check_def split: option.splits if_splits)
qed

text \<open>The operations of the engine as a step relation, under any context at each step.\<close>

inductive risk_step :: "risk_engine \<Rightarrow> msg list \<Rightarrow> risk_engine \<Rightarrow> bool" where
  signal: "on_signal cx e r = (r', ms) \<Longrightarrow> risk_step r ms r'"
| check: "risk_check cx r = (out, r', ms) \<Longrightarrow> risk_step r ms r'"
| halt: "halt cx reason r = (r', ms) \<Longrightarrow> risk_step r ms r'"
| resume: "resume cx r = (r', ms) \<Longrightarrow> risk_step r ms r'"
| rebase: "risk_step r [] (rebase b r)"

inductive risk_run :: "risk_engine \<Rightarrow> msg list \<Rightarrow> risk_engine \<Rightarrow> bool" where
  start: "risk_run r [] r"
| step: "risk_run r ms r' \<Longrightarrow> risk_step r' ms' r'' \<Longrightarrow> risk_run r (ms @ ms') r''"

text \<open>Reading the halt state off the bus: \<open>None\<close> when a halt is announced twice without a
  resumption between, or a resumption without a halt.\<close>

fun halt_phase :: "bool \<Rightarrow> msg list \<Rightarrow> bool option" where
  "halt_phase h [] = Some h"
| "halt_phase h (RiskHaltedEvent _ # ms) = (if h then None else halt_phase True ms)"
| "halt_phase h (RiskResumedEvent _ _ # ms) = (if h then halt_phase False ms else None)"
| "halt_phase h (m # ms) = halt_phase h ms"

lemma halt_phase_append:
  "halt_phase h (ms @ ms') = (case halt_phase h ms of None \<Rightarrow> None | Some h' \<Rightarrow> halt_phase h' ms')"
  by (induction h ms rule: halt_phase.induct) auto

lemma update_breakers_phase:
  "update_breakers cx r = (r', ms) \<Longrightarrow> halt_phase (halted r) ms = Some (halted r')"
  using update_breakers_msgs [of cx r r' ms] by auto

lemma risk_step_phase: "risk_step r ms r' \<Longrightarrow> halt_phase (halted r) ms = Some (halted r')"
proof (induction rule: risk_step.induct)
  case (signal cx e r r' ms)
  obtain r1 ms1 where u: "update_breakers cx r = (r1, ms1)" by fastforce
  show ?case
    using signal update_breakers_phase [OF u] u
    by (auto simp: on_signal_def check_signal_def halt_phase_append split: if_splits option.splits)
next
  case (check cx r out r' ms)
  then show ?case
    using update_breakers_phase by (auto simp: risk_check_def split: prod.splits)
qed (auto simp: halt_def resume_def rebase_def split: if_splits)

text \<open>halts and resumptions alternate.  Over any run of the engine, under any sequence of
  contexts, the halt and resume events it publishes alternate, and the last of them tells
  whether the engine is halted.\<close>

theorem halts_alternate:
  assumes "risk_run r ms r'"
  shows "halt_phase (halted r) ms = Some (halted r')"
  using assms
  by (induction rule: risk_run.induct) (simp_all add: halt_phase_append risk_step_phase)

text \<open>the loss budget is re-armed once.  The first \<open>rebase\<close> adopts the synced balance, later
  ones change nothing.\<close>

theorem rebase_once:
  assumes "\<not> rebased r"
  shows "start_balance (rebase b r) = b \<and> rebase b' (rebase b r) = rebase b r"
  using assms by (simp add: rebase_def)

text \<open>after a resumption the loss baseline is the cash balance, while losses are measured on
  equity.  With the ledger unchanged the measured loss is minus the value of the open positions,
  so an engine resumed while short by more than its cap halts again at once, and one resumed
  while long has its cap widened by the value of the position.\<close>

theorem resume_baseline_is_cash:
  assumes "halted r" and "resume cx r = (r', ms)" and "max_daily_loss r = Some cap"
    and "0 \<le> cap"
  shows "start_balance r' - equity cx = - (\<Sum>p\<leftarrow>positions (rx_ledger cx). market_value p) \<and>
    ((\<Sum>p\<leftarrow>positions (rx_ledger cx). market_value p) < - cap \<longrightarrow>
      halted (fst (snd (risk_check cx r'))))"
proof -
  have r': "r' = r\<lparr>halted := False, halt_reason := [], peak_equity := None,
              start_balance := balance (rx_ledger cx)\<rparr>"
    using assms by (simp add: resume_def)
  have "loss_reason (equity cx) (raise_peak (equity cx) r') \<noteq> None"
    if "(\<Sum>p\<leftarrow>positions (rx_ledger cx). market_value p) < - cap"
    using that assms(3) by (simp add: loss_reason_def r' equity_def)
  then show ?thesis
    by (auto simp: r' equity_def risk_check_def update_breakers_def halt_def breaker_reason_def
        first_reason_def Let_def split: option.splits)
qed

section \<open>Witnesses\<close>

definition flat_ctx :: risk_ctx where
  "flat_ctx = \<lparr>rx_ledger = cash_100k, rx_instruments = [], rx_now = naive 0\<rparr>"

definition short_ctx :: risk_ctx where
  "short_ctx = flat_ctx\<lparr>rx_ledger := \<lparr>positions = [open_position sell_15], balance = 1650\<rparr>\<rparr>"

definition risk_500 :: risk_engine where
  "risk_500 = new_risk_engine flat_ctx (Some 100) (Some 50000) (Some 3) None None (Some 500) (Some 10) None"

definition buy_50 :: signal_generated where
  "buy_50 = \<lparr>ts = naive 0, sg_symbol = ''TCS'', sg_exchange = ''NSE'', sg_side = BUY, sg_quantity = 50,
     sg_price = 100, sg_order_type = ''LIMIT'', sg_strategy = ''orb'', sg_metadata = []\<rparr>"

lemmas risk_examples = flat_ctx_def short_ctx_def risk_500_def buy_50_def new_risk_engine_def cash_100k_def

lemma risk_500_approves:
  "\<exists>r'. on_signal flat_ctx buy_50 risk_500 = (r', [SignalApprovedEvent \<lparr>ts = ts buy_50, sa_signal = buy_50\<rparr>])"
  by (simp add: on_signal_def check_signal_def update_breakers_def raise_peak_def breaker_reason_def
      first_reason_def loss_reason_def drawdown_reason_def equity_def risk_examples
      check_allowlist_def check_quantity_def check_notional_def signal_price_def num_or_def
      check_positions_def position_count_def check_deviation_def)

theorem approval_implies_limits_witness:
  "\<exists>r' ms a. on_signal flat_ctx buy_50 risk_500 = (r', ms) \<and> SignalApprovedEvent a \<in> set ms \<and>
     sg_quantity buy_50 \<le> 100"
proof -
  obtain r' where e: "on_signal flat_ctx buy_50 risk_500 = (r', [SignalApprovedEvent \<lparr>ts = ts buy_50, sa_signal = buy_50\<rparr>])"
    using risk_500_approves by blast
  have "max_quantity risk_500 = Some 100" by (simp add: risk_examples)
  then have "sg_quantity buy_50 \<le> 100"
    using approval_implies_limits [OF e, of "\<lparr>ts = ts buy_50, sa_signal = buy_50\<rparr>"] by simp
  with e show ?thesis by auto
qed

theorem halt_blocks_until_resume_witness:
  "risk_check flat_ctx (risk_500\<lparr>halted := True, halt_reason := ''manual''\<rparr>)
     = (Some ''manual'', risk_500\<lparr>halted := True, halt_reason := ''manual''\<rparr>, [])"
  using halt_blocks_until_resume [of "risk_500\<lparr>halted := True, halt_reason := ''manual''\<rparr>"] by simp

theorem breakers_complete_witness:
  "\<not> halted risk_500 \<and> (\<exists>out r' ms. risk_check flat_ctx risk_500 = (out, r', ms) \<and>
     (out = None \<longrightarrow> start_balance risk_500 - equity flat_ctx \<le> 500))"
proof -
  obtain out r' ms where e: "risk_check flat_ctx risk_500 = (out, r', ms)" by (metis prod_cases3)
  have h: "\<not> halted risk_500" "max_daily_loss risk_500 = Some 500" by (simp_all add: risk_examples)
  have "out = None \<longrightarrow> start_balance risk_500 - equity flat_ctx \<le> 500"
    using breakers_complete [OF e h(1), THEN conjunct1] h(2) by simp
  with h(1) e show ?thesis by simp
qed

theorem halts_alternate_witness:
  "\<exists>ms r'. risk_run risk_500 ms r' \<and> halted r' \<and> halt_phase (halted risk_500) ms = Some True"
proof -
  have r: "risk_run risk_500 ([] @ snd (halt flat_ctx ''manual'' risk_500)) (fst (halt flat_ctx ''manual'' risk_500))"
    by (rule risk_run.step [OF risk_run.start risk_step.halt [OF prod.collapse [symmetric]]])
  have "halted (fst (halt flat_ctx ''manual'' risk_500))"
    by (simp add: halt_def)
  with r halts_alternate [OF r] show ?thesis by metis
qed

theorem rebase_once_witness: "start_balance (rebase 90000 risk_500) = 90000"
  using rebase_once [of risk_500 90000] by (simp add: risk_examples)

theorem resume_baseline_is_cash_witness:
  "halted (fst (snd (risk_check short_ctx (fst (resume short_ctx (risk_500\<lparr>halted := True\<rparr>))))))"
proof -
  have "market_value (open_position sell_15) = - 1650"
    using py_round_of_int [of 2 "- 1650"]
    by (simp add: market_value_def open_position_def signed_qty_def sell_15_def buy_10_def)
  then have "(\<Sum>p\<leftarrow>positions (rx_ledger short_ctx). market_value p) < - 500"
    by (simp add: short_ctx_def)
  moreover have "halted (risk_500\<lparr>halted := True\<rparr>)" "max_daily_loss (risk_500\<lparr>halted := True\<rparr>) = Some 500"
    by (simp_all add: risk_examples)
  ultimately show ?thesis
    using resume_baseline_is_cash [OF _ prod.collapse [symmetric]] by (metis zero_le_numeral)
qed

end
