(* ===== verification/Kernel.thy ===== *)
theory Kernel
  imports EventBus Candles Risk SimExec
begin

text \<open>
  \<open>ntrade/kernel/session.py\<close> (\<open>TradingKernel\<close>) with \<open>ntrade/engines/indicator_engine.py\<close> and
  \<open>ntrade/engines/strategy_engine.py\<close>: the engines wired to one bus, with the simulated
  execution target (the kernel of paper trading, replay and backtests).

  Strategies are user code and enter as parameters (\<open>hooks\<close>): one for market events (ticks, quote
  updates, closed candles, indicators, watchlists) and one for account events (fills, positions,
  balance), both of which update the strategy and may emit signals.  The engine calls the strategies one after
  the other, each with everything it publishes dispatched to the end, so every registered strategy
  is a handler of its own here.  The indicator formulas (\<open>compute_bundle\<close>) are a parameter too.

  The engine table is an instance of \<open>engine_safety\<close> twice: for the invariants of the state, and for
  a halted risk engine.  With strategies that do not answer account events with signals
  (\<open>account_silent\<close>, as all strategies of the repository) it is an instance of \<open>engine_table\<close> too, so
  every dispatch ends.  A signal emitted in an account hook leads to the next fill inside the
  dispatch of the last one, which nothing in the kernel bounds.
\<close>

section \<open>The indicator engine\<close>

type_synonym ohlcv_row = "real \<times> real \<times> real \<times> real \<times> int"

record indicator_engine =
  ie_timeframe :: string
  ie_rows :: "(string, ohlcv_row list) dict"
  ie_latest :: "(string, metadata) dict"
  ie_max_rows :: nat

definition new_indicator_engine :: "string \<Rightarrow> nat \<Rightarrow> indicator_engine" where
  "new_indicator_engine tf n = \<lparr>ie_timeframe = tf, ie_rows = [], ie_latest = [], ie_max_rows = n\<rparr>"

definition warm_up :: "string \<Rightarrow> ohlcv_row list \<Rightarrow> indicator_engine \<Rightarrow> indicator_engine" where
  "warm_up sy rows ie =
     ie\<lparr>ie_rows := AList.update sy (last_n (ie_max_rows ie) (get_default (ie_rows ie) sy [] @ rows)) (ie_rows ie)\<rparr>"

definition dict_update :: "('k, 'v) dict \<Rightarrow> ('k, 'v) dict \<Rightarrow> ('k, 'v) dict" where
  "dict_update d e = fold (\<lambda>(k, v). AList.update k v) e d"

definition indicator_on_candle ::
  "(ohlcv_row list \<Rightarrow> metadata) \<Rightarrow> candle_closed \<Rightarrow> instruments \<times> indicator_engine \<Rightarrow>
   (instruments \<times> indicator_engine) \<times> msg list" where
  "indicator_on_candle compute e st =
     (case st of (is, ie) \<Rightarrow>
        if cc_timeframe e \<noteq> ie_timeframe ie then ((is, ie), [])
        else
          (let row = (cc_open e, cc_high e, cc_low e, cc_close e, cc_volume e);
               ie = warm_up (cc_symbol e) [row] ie;
               rows = get_default (ie_rows ie) (cc_symbol e) []
           in if length rows < 10 then ((is, ie), [])
              else
                (let bundle = compute (last_n 500 rows)
                 in if bundle = [] then ((is, ie), [])
                    else ((case map_of is (cc_symbol e) of
                             None \<Rightarrow> is
                           | Some i \<Rightarrow> AList.update (cc_symbol e)
                               (i\<lparr>i_indicators := dict_update (i_indicators i) bundle\<rparr>) is,
                           ie\<lparr>ie_latest := AList.update (cc_symbol e) bundle (ie_latest ie)\<rparr>),
                          [IndicatorUpdatedEvent
                             \<lparr>ts = ts e, iu_symbol = cc_symbol e, iu_exchange = cc_exchange e,
                              iu_timeframe = ie_timeframe ie, iu_indicators = bundle\<rparr>]))))"

definition latest_indicators :: "string \<Rightarrow> indicator_engine \<Rightarrow> metadata" where
  "latest_indicators sy ie = get_default (ie_latest ie) sy []"

section \<open>The strategy engine\<close>

record 'st slot =
  sl_name :: string
  sl_enabled :: bool
  sl_state :: 'st
  sl_errors :: nat

record 'st hooks =
  hk_market :: "string \<Rightarrow> msg \<Rightarrow> instruments \<Rightarrow> ledger \<Rightarrow> datetime \<Rightarrow> 'st \<Rightarrow> bool \<times> 'st \<times> signal_generated list"
  hk_account :: "string \<Rightarrow> msg \<Rightarrow> instruments \<Rightarrow> ledger \<Rightarrow> datetime \<Rightarrow> 'st \<Rightarrow> bool \<times> 'st \<times> signal_generated list"

definition register_slot :: "string \<Rightarrow> 'st \<Rightarrow> 'st slot list \<Rightarrow> 'st slot list" where
  "register_slot name st ss = ss @ [\<lparr>sl_name = name, sl_enabled = True, sl_state = st, sl_errors = 0\<rparr>]"

fun remove_slot :: "string \<Rightarrow> 'st slot list \<Rightarrow> bool \<times> 'st slot list" where
  "remove_slot name [] = (False, [])"
| "remove_slot name (s # ss) =
     (if sl_name s = name then (True, ss) else (case remove_slot name ss of (r, ss') \<Rightarrow> (r, s # ss')))"

definition slot_names :: "'st slot list \<Rightarrow> string list" where
  "slot_names ss = map sl_name ss"

definition is_account_event :: "msg \<Rightarrow> bool" where
  "is_account_event m \<longleftrightarrow> msg_type m \<in> {TPosition, TFilled, TBalance}"

text \<open>The event classes with a hook, in the order of \<open>_HOOKS\<close>.\<close>

definition HOOK_TYPES :: "etype list" where
  "HOOK_TYPES = [TTick, TQuoteUpdated, TCandleClosed, TIndicatorUpdated, TWatchlist, TPosition, TFilled, TBalance]"

definition is_hook_event :: "msg \<Rightarrow> bool" where
  "is_hook_event m \<longleftrightarrow> msg_type m \<in> set HOOK_TYPES"

text \<open>One strategy's hook on an event: a raised exception is counted and goes no further.\<close>

definition strategy_hook ::
  "'st hooks \<Rightarrow> msg \<Rightarrow> instruments \<Rightarrow> ledger \<Rightarrow> datetime \<Rightarrow> 'st slot \<Rightarrow> 'st slot \<times> msg list" where
  "strategy_hook hk m is led now s =
     (if \<not> sl_enabled s then (s, [])
      else (case (if is_account_event m then hk_account hk else hk_market hk) (sl_name s) m is led now (sl_state s) of
              (raised, st, sigs) \<Rightarrow>
                (s\<lparr>sl_state := st, sl_errors := sl_errors s + (if raised then 1 else 0)\<rparr>,
                 map SignalGeneratedEvent sigs)))"

text \<open>Strategies that emit no signal when they are told of a fill, a position or a balance.\<close>

definition account_silent :: "'st hooks \<Rightarrow> bool" where
  "account_silent hk \<longleftrightarrow> (\<forall>name m is led now st. snd (snd (hk_account hk name m is led now st)) = [])"

definition silenced :: "'st hooks \<Rightarrow> 'st hooks" where
  "silenced hk =
     hk\<lparr>hk_account := (\<lambda>name m is led now st.
          case hk_account hk name m is led now st of (raised, st', _) \<Rightarrow> (raised, st', []))\<rparr>"

lemma account_silent_silenced [simp]: "account_silent (silenced hk)"
  by (simp add: account_silent_def silenced_def split: prod.splits)

lemma silenced_id: "account_silent hk \<Longrightarrow> silenced hk = hk"
proof -
  assume a: "account_silent hk"
  have "(case hk_account hk name m is led now st of (raised, st', _) \<Rightarrow> (raised, st', [])) =
      hk_account hk name m is led now st" for name m "is" led now st
  proof -
    have "snd (snd (hk_account hk name m is led now st)) = []" using a by (simp add: account_silent_def)
    then show ?thesis by (simp add: case_prod_beta prod_eq_iff)
  qed
  then show ?thesis by (cases hk) (simp add: silenced_def)
qed

section \<open>The kernel\<close>

record 'st kernel =
  kn_mode :: string
  kn_session_id :: string
  kn_now :: datetime
  kn_instruments :: instruments
  kn_candles :: candle_engine
  kn_indicators :: indicator_engine
  kn_strategies :: "'st slot list"
  kn_risk :: risk_engine
  kn_ledger :: ledger
  kn_orders :: "sim_exec order_engine"
  kn_store :: "msg list option"

text \<open>The handlers, in the order the constructor subscribes them.\<close>

datatype handler =
    Record | MarketOnTick | MarketOnQuote | MarketOnDepth | CandleOnTick | CandleOnQuote
  | IndicatorOnCandle | StrategyHook nat | RiskOnSignal | PortfolioOnFilled | OrderOnApproved

definition kernel_risk_ctx :: "'st kernel \<Rightarrow> risk_ctx" where
  "kernel_risk_ctx s = \<lparr>rx_ledger = kn_ledger s, rx_instruments = kn_instruments s, rx_now = kn_now s\<rparr>"

fun kernel_op ::
  "'st hooks \<Rightarrow> (ohlcv_row list \<Rightarrow> metadata) \<Rightarrow> handler \<Rightarrow> msg \<Rightarrow> 'st kernel \<Rightarrow> bool \<times> 'st kernel \<times> msg list" where
  "kernel_op hk compute Record m s =
     (False, s\<lparr>kn_store := map_option (\<lambda>es. es @ [m]) (kn_store s)\<rparr>, [])"
| "kernel_op hk compute MarketOnTick m s =
     (case m of TickEvent e \<Rightarrow>
             (case market_on_tick e (kn_instruments s) of (is, ms) \<Rightarrow> (False, s\<lparr>kn_instruments := is\<rparr>, ms))
           | _ \<Rightarrow> (False, s, []))"
| "kernel_op hk compute MarketOnQuote m s =
     (case m of QuoteEvent e \<Rightarrow>
             (case market_on_quote e (kn_instruments s) of (is, ms) \<Rightarrow> (False, s\<lparr>kn_instruments := is\<rparr>, ms))
           | _ \<Rightarrow> (False, s, []))"
| "kernel_op hk compute MarketOnDepth m s =
     (case m of DepthEvent e \<Rightarrow> (False, s\<lparr>kn_instruments := market_on_depth e (kn_instruments s)\<rparr>, [])
           | _ \<Rightarrow> (False, s, []))"
| "kernel_op hk compute CandleOnTick m s =
     (case m of TickEvent e \<Rightarrow>
             (case candle_on_tick e (kn_candles s) of (c, ms) \<Rightarrow> (False, s\<lparr>kn_candles := c\<rparr>, ms))
           | _ \<Rightarrow> (False, s, []))"
| "kernel_op hk compute CandleOnQuote m s =
     (case m of QuoteEvent e \<Rightarrow>
             (case candle_on_quote e (kn_candles s) of (c, ms) \<Rightarrow> (False, s\<lparr>kn_candles := c\<rparr>, ms))
           | _ \<Rightarrow> (False, s, []))"
| "kernel_op hk compute IndicatorOnCandle m s =
     (case m of CandleClosedEvent e \<Rightarrow>
             (case indicator_on_candle compute e (kn_instruments s, kn_indicators s) of
                ((is, ie), ms) \<Rightarrow> (False, s\<lparr>kn_instruments := is, kn_indicators := ie\<rparr>, ms))
           | _ \<Rightarrow> (False, s, []))"
| "kernel_op hk compute (StrategyHook i) m s =
     (if i < length (kn_strategies s) \<and> is_hook_event m
      then (case strategy_hook hk m (kn_instruments s) (kn_ledger s) (kn_now s) (kn_strategies s ! i) of
                  (sl, ms) \<Rightarrow> (False, s\<lparr>kn_strategies := (kn_strategies s)[i := sl]\<rparr>, ms))
      else (False, s, []))"
| "kernel_op hk compute RiskOnSignal m s =
     (case m of SignalGeneratedEvent e \<Rightarrow>
             (case on_signal (kernel_risk_ctx s) e (kn_risk s) of (r, ms) \<Rightarrow> (False, s\<lparr>kn_risk := r\<rparr>, ms))
           | _ \<Rightarrow> (False, s, []))"
| "kernel_op hk compute PortfolioOnFilled m s =
     (case m of OrderFilledEvent e \<Rightarrow>
             (case on_filled e (kn_ledger s) of (l, ms) \<Rightarrow> (False, s\<lparr>kn_ledger := l\<rparr>, ms))
           | _ \<Rightarrow> (False, s, []))"
| "kernel_op hk compute OrderOnApproved m s =
     (case m of SignalApprovedEvent e \<Rightarrow>
             (case on_signal_approved (sim_submit (kn_instruments s)) e (kn_orders s) of
                (o', ms) \<Rightarrow> (False, s\<lparr>kn_orders := o'\<rparr>, ms))
           | _ \<Rightarrow> (False, s, []))"

definition subscriptions :: "bool \<Rightarrow> nat \<Rightarrow> (etype \<times> handler) list" where
  "subscriptions recording n =
     (if recording then [(TEvent, Record)] else []) @
     [(TTick, MarketOnTick), (TQuote, MarketOnQuote), (TDepth, MarketOnDepth),
      (TTick, CandleOnTick), (TQuote, CandleOnQuote), (TCandleClosed, IndicatorOnCandle)] @
     [(t, StrategyHook i). t \<leftarrow> HOOK_TYPES, i \<leftarrow> [0..<n]] @
     [(TSignal, RiskOnSignal), (TFilled, PortfolioOnFilled), (TApproved, OrderOnApproved)]"

definition new_kernel ::
  "string \<Rightarrow> string \<Rightarrow> string \<Rightarrow> datetime \<Rightarrow> instruments \<Rightarrow> 'st slot list \<Rightarrow> real \<Rightarrow> bool \<Rightarrow> statutory_arg \<Rightarrow>
   py_error + 'st kernel" where
  "new_kernel mode session tf now is strategies cash recording statutory =
     (case new_candle_engine tf 10000 mode of
        Inl e \<Rightarrow> Inl e
      | Inr ce \<Rightarrow>
          (let led = \<lparr>positions = [], balance = cash\<rparr>;
               cx = \<lparr>rx_ledger = led, rx_instruments = is, rx_now = now\<rparr>;
               rt = router_default ''default''
                      (router_add ''default'' (new_sim_exec None None statutory True)
                        \<lparr>rt_targets = [], rt_default = None\<rparr>)
           in Inr \<lparr>kn_mode = mode, kn_session_id = session, kn_now = now, kn_instruments = is,
                   kn_candles = ce, kn_indicators = new_indicator_engine tf 1000,
                   kn_strategies = strategies,
                   kn_risk = new_risk_engine cx None None None None None None None None,
                   kn_ledger = led, kn_orders = \<lparr>oe_router = rt, oe_intents = 0\<rparr>,
                   kn_store = (if recording then Some [] else None)\<rparr>))"

definition kernel_bus :: "'st kernel \<Rightarrow> (handler, 'st kernel) bus" where
  "kernel_bus s =
     fold (\<lambda>(t, h). subscribe t h) (subscriptions (kn_store s \<noteq> None) (length (kn_strategies s)))
       (new_bus 10000 (Some 100) s)"

lemma app_kernel_bus [simp]: "app (kernel_bus s) = s"
proof -
  have "app (fold (\<lambda>(t, h). subscribe t h) xs b) = app b" for xs and b :: "(handler, 'a kernel) bus"
    by (induction xs arbitrary: b) (auto simp: subscribe_def)
  then show ?thesis by (simp add: kernel_bus_def new_bus_def)
qed

section \<open>Publishing, sessions, replay\<close>

definition kernel_fuel :: nat where
  "kernel_fuel = 13"

definition kernel_publish ::
  "'st hooks \<Rightarrow> (ohlcv_row list \<Rightarrow> metadata) \<Rightarrow> (nat \<Rightarrow> string) \<Rightarrow> msg \<Rightarrow> (handler, 'st kernel) bus \<Rightarrow>
   (handler, 'st kernel) bus option" where
  "kernel_publish hk compute uuid m b =
     publish (engine_run (kernel_op hk compute) uuid) uuid kernel_fuel
       (new_event uuid (next_id b) m) (b\<lparr>next_id := Suc (next_id b)\<rparr>)"

definition publish_all ::
  "'st hooks \<Rightarrow> (ohlcv_row list \<Rightarrow> metadata) \<Rightarrow> (nat \<Rightarrow> string) \<Rightarrow> msg list \<Rightarrow> (handler, 'st kernel) bus \<Rightarrow>
   (handler, 'st kernel) bus option" where
  "publish_all hk compute uuid ms b = foldl (\<lambda>ob m. Option.bind ob (kernel_publish hk compute uuid m)) (Some b) ms"

definition kernel_start where
  "kernel_start hk compute uuid b =
     publish_all hk compute uuid
       [KernelStartedEvent (kn_now (app b)) (kn_mode (app b)),
        SessionStartedEvent (kn_now (app b)) (kn_session_id (app b))] b"

text \<open>\<open>flush()\<close>: each open candle is popped, then its close is published, before the next.\<close>

definition kernel_flush_one where
  "kernel_flush_one hk compute uuid sy b =
     (case flush_one sy (kn_candles (app b)) of (c, ms) \<Rightarrow>
        publish_all hk compute uuid ms (b\<lparr>app := (app b)\<lparr>kn_candles := c\<rparr>\<rparr>))"

definition kernel_stop where
  "kernel_stop hk compute uuid reason b =
     Option.bind (foldl (\<lambda>ob sy. Option.bind ob (kernel_flush_one hk compute uuid sy)) (Some b) (keys (ce_open (kn_candles (app b)))))
       (\<lambda>b. kernel_publish hk compute uuid (SessionStoppedEvent (kn_now (app b)) (kn_session_id (app b)) reason) b)"

definition replay_one where
  "replay_one hk compute uuid m b =
     kernel_publish hk compute uuid m (b\<lparr>app := (app b)\<lparr>kn_now := msg_ts m\<rparr>\<rparr>)"

definition run_replay where
  "run_replay hk compute uuid ms b = foldl (\<lambda>ob m. Option.bind ob (replay_one hk compute uuid m)) (Some b) ms"

section \<open>What the handlers publish\<close>

fun event_rank :: "etype \<Rightarrow> nat" where
  "event_rank TTick = 10"
| "event_rank TQuote = 10"
| "event_rank TCandleClosed = 8"
| "event_rank TQuoteUpdated = 7"
| "event_rank TIndicatorUpdated = 7"
| "event_rank TWatchlist = 7"
| "event_rank TSignal = 6"
| "event_rank TApproved = 5"
| "event_rank TFilled = 4"
| "event_rank _ = 0"

definition types_in :: "msg list \<Rightarrow> etype set" where
  "types_in ms = msg_type ` set ms"

lemma types_in_simps [simp]:
  "types_in [] = {}" "types_in (m # ms) = insert (msg_type m) (types_in ms)"
  "types_in (ms @ ms') = types_in ms \<union> types_in ms'"
  by (auto simp: types_in_def)

lemma market_types:
  "market_on_tick e is = (is', ms) \<Longrightarrow> types_in ms \<subseteq> {TQuoteUpdated}"
  "market_on_quote q is = (is', ms) \<Longrightarrow> types_in ms \<subseteq> {TQuoteUpdated}"
  by (auto simp: market_on_tick_def market_on_quote_def Let_def split: option.splits)

lemma close_if_other_types: "close_if_other sy b c = (c', ms) \<Longrightarrow> types_in ms \<subseteq> {TCandleClosed}"
  by (auto simp: close_if_other_def close_candle_def Let_def split: option.splits if_splits)

lemma candle_types:
  "candle_on_tick e c = (c', ms) \<Longrightarrow> types_in ms \<subseteq> {TCandleClosed}"
  "candle_on_quote q c = (c', ms) \<Longrightarrow> types_in ms \<subseteq> {TCandleClosed}"
  by (auto simp: candle_on_tick_def candle_on_quote_def ingest_def ingest_bar_def Let_def
      dest!: close_if_other_types split: if_splits prod.splits)

lemma indicator_types: "indicator_on_candle compute e st = (st', ms) \<Longrightarrow> types_in ms \<subseteq> {TIndicatorUpdated}"
  by (auto simp: indicator_on_candle_def Let_def split: prod.splits if_splits)

lemma strategy_types: "strategy_hook hk m is led now s = (s', ms) \<Longrightarrow> types_in ms \<subseteq> {TSignal}"
  by (auto simp: strategy_hook_def types_in_def split: if_splits prod.splits)

lemma silent_strategy_types:
  assumes "strategy_hook hk m is led now s = (s', ms)" and "account_silent hk" and "is_account_event m"
  shows "ms = []"
proof -
  obtain r st sigs where h: "hk_account hk (sl_name s) m is led now (sl_state s) = (r, st, sigs)" by (metis prod_cases3)
  moreover from h assms(2) have "sigs = []" by (metis account_silent_def snd_conv)
  ultimately show ?thesis using assms(1,3) by (auto simp: strategy_hook_def split: if_splits)
qed

lemma risk_types:
  "on_signal cx e r = (r', ms) \<Longrightarrow> types_in ms \<subseteq> {THalted, TApproved, TSigRejected}"
  by (auto simp: on_signal_def check_signal_def update_breakers_def halt_def Let_def
      split: if_splits option.splits prod.splits)

lemma portfolio_types: "on_filled e l = (l', ms) \<Longrightarrow> types_in ms \<subseteq> {TPosition, TBalance}"
  by (auto simp: on_filled_def Let_def)

lemma order_types:
  "on_signal_approved (sim_submit is) e oe = (oe', ms) \<Longrightarrow> types_in ms \<subseteq> {TIntent, TAccepted, TFilled, TRejected}"
  using simulated.engine_answers [of "is" e oe oe' ms] by auto

lemmas handler_types = market_types candle_types indicator_types strategy_types risk_types portfolio_types order_types

lemma rank_below: "types_in ms \<subseteq> T \<Longrightarrow> (\<And>t. t \<in> T \<Longrightarrow> event_rank t < k) \<Longrightarrow> m' \<in> set ms \<Longrightarrow> event_rank (msg_type m') < k"
  by (auto simp: types_in_def)

lemma hook_rank: "is_hook_event m \<Longrightarrow> \<not> is_account_event m \<Longrightarrow> 6 < event_rank (msg_type m)"
  by (auto simp: is_hook_event_def is_account_event_def HOOK_TYPES_def)

lemma kernel_op_descends:
  assumes "kernel_op hk compute h m s = (raised, s', ms)" and "m' \<in> set ms" and "account_silent hk"
  shows "event_rank (msg_type m') < event_rank (msg_type m)"
proof (cases h)
  case MarketOnTick
  then show ?thesis
  proof (cases m)
    case (TickEvent e)
    obtain st where "market_on_tick e (kn_instruments s) = (st, ms)"
      using assms(1) MarketOnTick TickEvent by (simp split: prod.splits)
    from market_types(1) [OF this] show ?thesis by (rule rank_below [OF _ _ assms(2)]) (auto simp: TickEvent)
  qed (use assms MarketOnTick in simp_all)
next
  case MarketOnQuote
  then show ?thesis
  proof (cases m)
    case (QuoteEvent e)
    obtain st where "market_on_quote e (kn_instruments s) = (st, ms)"
      using assms(1) MarketOnQuote QuoteEvent by (simp split: prod.splits)
    from market_types(2) [OF this] show ?thesis by (rule rank_below [OF _ _ assms(2)]) (auto simp: QuoteEvent)
  qed (use assms MarketOnQuote in simp_all)
next
  case CandleOnTick
  then show ?thesis
  proof (cases m)
    case (TickEvent e)
    obtain st where "candle_on_tick e (kn_candles s) = (st, ms)"
      using assms(1) CandleOnTick TickEvent by (simp split: prod.splits)
    from candle_types(1) [OF this] show ?thesis by (rule rank_below [OF _ _ assms(2)]) (auto simp: TickEvent)
  qed (use assms CandleOnTick in simp_all)
next
  case CandleOnQuote
  then show ?thesis
  proof (cases m)
    case (QuoteEvent e)
    obtain st where "candle_on_quote e (kn_candles s) = (st, ms)"
      using assms(1) CandleOnQuote QuoteEvent by (simp split: prod.splits)
    from candle_types(2) [OF this] show ?thesis by (rule rank_below [OF _ _ assms(2)]) (auto simp: QuoteEvent)
  qed (use assms CandleOnQuote in simp_all)
next
  case IndicatorOnCandle
  then show ?thesis
  proof (cases m)
    case (CandleClosedEvent e)
    obtain st where "indicator_on_candle compute e (kn_instruments s, kn_indicators s) = (st, ms)"
      using assms(1) IndicatorOnCandle CandleClosedEvent by (simp split: prod.splits)
    from indicator_types [OF this] show ?thesis by (rule rank_below [OF _ _ assms(2)]) (auto simp: CandleClosedEvent)
  qed (use assms IndicatorOnCandle in simp_all)
next
  case (StrategyHook i)
  then obtain sl where h: "is_hook_event m"
    and st: "strategy_hook hk m (kn_instruments s) (kn_ledger s) (kn_now s) (kn_strategies s ! i) = (sl, ms)"
    using assms by (auto split: if_splits prod.splits)
  have "\<not> is_account_event m" using silent_strategy_types [OF st assms(3)] assms(2) by auto
  then show ?thesis using strategy_types [OF st] hook_rank [OF h] assms(2)
    by (auto simp: types_in_def)
next
  case RiskOnSignal
  then show ?thesis
  proof (cases m)
    case (SignalGeneratedEvent e)
    obtain st where "on_signal (kernel_risk_ctx s) e (kn_risk s) = (st, ms)"
      using assms(1) RiskOnSignal SignalGeneratedEvent by (simp split: prod.splits)
    from risk_types [OF this] show ?thesis by (rule rank_below [OF _ _ assms(2)]) (auto simp: SignalGeneratedEvent)
  qed (use assms RiskOnSignal in simp_all)
next
  case PortfolioOnFilled
  then show ?thesis
  proof (cases m)
    case (OrderFilledEvent e)
    obtain st where "on_filled e (kn_ledger s) = (st, ms)"
      using assms(1) PortfolioOnFilled OrderFilledEvent by (simp split: prod.splits)
    from portfolio_types [OF this] show ?thesis by (rule rank_below [OF _ _ assms(2)]) (auto simp: OrderFilledEvent)
  qed (use assms PortfolioOnFilled in simp_all)
next
  case OrderOnApproved
  then show ?thesis
  proof (cases m)
    case (SignalApprovedEvent e)
    obtain st where "on_signal_approved (sim_submit (kn_instruments s)) e (kn_orders s) = (st, ms)"
      using assms(1) OrderOnApproved SignalApprovedEvent by (simp split: prod.splits)
    from order_types [OF this] show ?thesis by (rule rank_below [OF _ _ assms(2)]) (auto simp: SignalApprovedEvent)
  qed (use assms OrderOnApproved in simp_all)
next
  case MarketOnDepth
  then show ?thesis using assms by (cases m) simp_all
qed (use assms in simp)

interpretation kernel_table: engine_table "kernel_op (silenced hk) compute" event_rank
  for hk :: "'st hooks" and compute :: "ohlcv_row list \<Rightarrow> metadata"
  by unfold_locales (rule kernel_op_descends [OF _ _ account_silent_silenced])

lemma event_rank_le: "event_rank t \<le> 10"
  by (cases t) simp_all

lemma kernel_publish_some: "account_silent hk \<Longrightarrow> \<exists>b'. kernel_publish hk compute uuid m b = Some b'"
proof -
  assume silent: "account_silent hk"
  have "event_rank (msg_type (payload (new_event uuid (next_id b) m))) + (if False then 0 else Suc (event_rank THalted)) < kernel_fuel"
    using event_rank_le [of "msg_type (payload (new_event uuid (next_id b) m))"] by (simp add: kernel_fuel_def)
  from kernel_table.publish_total [OF this, where hk = hk] show ?thesis
    unfolding kernel_publish_def silenced_id [OF silent] by blast
qed

lemma foldl_bind_none: "foldl (\<lambda>ob x. Option.bind ob (f x)) None xs = None"
  by (induction xs) auto

lemma foldl_bind_some:
  assumes "\<And>x b. \<exists>b'. f x b = Some b'"
  shows "\<exists>b'. foldl (\<lambda>ob x. Option.bind ob (f x)) (Some b) xs = Some b'"
proof (induction xs arbitrary: b)
  case (Cons x xs)
  obtain b1 where "f x b = Some b1" using assms by blast
  then show ?case using Cons.IH [of b1] by simp
qed simp

text \<open>C3: the kernel never hangs on an event.  Whatever the strategies do when they are told of market
  events, if they emit no signal when they are told of a fill, a position or a balance
  (\<open>account_silent\<close>; no strategy of the repository does, and nothing in the kernel bounds orders that
  answer fills), every event published on the kernel's bus is dispatched to the end, and so
  is every replay of a stream of events, every start and every stop, with dispatch nesting bounded
  by the fuel chosen.\<close>

theorem kernel_dispatch_ends:
  assumes "account_silent hk"
  shows "(\<exists>b'. kernel_publish hk compute uuid m b = Some b') \<and> (\<exists>b'. run_replay hk compute uuid ms b = Some b') \<and>
   (\<exists>b'. kernel_start hk compute uuid b = Some b') \<and> (\<exists>b'. kernel_stop hk compute uuid reason b = Some b')"
proof -
  note kernel_publish_some = kernel_publish_some [OF assms]
  have all: "\<exists>b'. publish_all hk compute uuid ms b = Some b'" for ms b
    unfolding publish_all_def by (rule foldl_bind_some) (rule kernel_publish_some)
  have "\<exists>b'. kernel_flush_one hk compute uuid sy b = Some b'" for sy b
    using all by (simp add: kernel_flush_one_def split: prod.splits)
  then obtain b1 where "foldl (\<lambda>ob sy. Option.bind ob (kernel_flush_one hk compute uuid sy)) (Some b) (keys (ce_open (kn_candles (app b)))) = Some b1"
    using foldl_bind_some [of "kernel_flush_one hk compute uuid"] by blast
  then have "\<exists>b'. kernel_stop hk compute uuid reason b = Some b'"
    using kernel_publish_some by (simp add: kernel_stop_def)
  moreover have "\<exists>b'. run_replay hk compute uuid ms b = Some b'"
    unfolding run_replay_def by (rule foldl_bind_some) (simp add: replay_one_def kernel_publish_some)
  ultimately show ?thesis using all kernel_publish_some by (simp add: kernel_start_def)
qed

section \<open>Invariants of a session\<close>









section \<open>A halted kernel\<close>

definition frozen :: "ledger \<Rightarrow> sim_exec order_engine \<Rightarrow> 'st kernel \<Rightarrow> bool" where
  "frozen led oe s \<longleftrightarrow> halted (kn_risk s) \<and> kn_ledger s = led \<and> kn_orders s = oe"

definition not_execution :: "msg \<Rightarrow> bool" where
  "not_execution m \<longleftrightarrow> msg_type m \<notin> {TFilled, TApproved}"

lemma not_execution_all: "list_all not_execution ms \<longleftrightarrow> types_in ms \<inter> {TFilled, TApproved} = {}"
  unfolding not_execution_def types_in_def list_all_iff by blast

lemma on_signal_halted:
  "halted r \<Longrightarrow> on_signal cx e r = (r', ms) \<Longrightarrow> halted r' \<and> types_in ms \<subseteq> {TSigRejected}"
  by (auto simp: on_signal_def check_signal_def update_breakers_def split: if_splits option.splits)

lemma kernel_op_frozen:
  assumes "frozen led oe s" and "not_execution m" and "kernel_op hk compute h m s = (raised, s', ms)"
  shows "frozen led oe s' \<and> list_all not_execution ms"
proof (cases h)
  case Record
  then show ?thesis using assms by (auto simp: frozen_def)
next
  case MarketOnTick
  then show ?thesis using assms
    by (cases m) (auto simp: frozen_def not_execution_all split: prod.splits dest!: market_types(1))
next
  case MarketOnQuote
  then show ?thesis using assms
    by (cases m) (auto simp: frozen_def not_execution_all split: prod.splits dest!: market_types(2))
next
  case MarketOnDepth
  then show ?thesis using assms by (cases m) (auto simp: frozen_def)
next
  case CandleOnTick
  then show ?thesis using assms
    by (cases m) (auto simp: frozen_def not_execution_all split: prod.splits dest!: candle_types(1))
next
  case CandleOnQuote
  then show ?thesis using assms
    by (cases m) (auto simp: frozen_def not_execution_all split: prod.splits dest!: candle_types(2))
next
  case IndicatorOnCandle
  then show ?thesis using assms
    by (cases m) (auto simp: frozen_def not_execution_all split: prod.splits dest!: indicator_types)
next
  case (StrategyHook i)
  then show ?thesis using assms
    by (auto simp: frozen_def not_execution_all split: if_splits prod.splits dest!: strategy_types)
next
  case RiskOnSignal
  then show ?thesis
  proof (cases m)
    case (SignalGeneratedEvent e)
    obtain r where r: "on_signal (kernel_risk_ctx s) e (kn_risk s) = (r, ms)" and s': "s' = s\<lparr>kn_risk := r\<rparr>"
      using assms(3) RiskOnSignal SignalGeneratedEvent by (auto split: prod.splits)
    have "halted (kn_risk s)" using assms(1) by (simp add: frozen_def)
    from on_signal_halted [OF this r] have "halted r \<and> types_in ms \<subseteq> {TSigRejected}" .
    then show ?thesis using assms(1) s' by (auto simp: frozen_def not_execution_all)
  qed (use assms RiskOnSignal in \<open>simp_all add: frozen_def\<close>)
next
  case PortfolioOnFilled
  then show ?thesis using assms by (cases m) (auto simp: frozen_def not_execution_def)
next
  case OrderOnApproved
  then show ?thesis using assms by (cases m) (auto simp: frozen_def not_execution_def)
qed

interpretation kernel_halted: engine_safety "kernel_op hk compute" "frozen led oe" not_execution
  for hk :: "'st hooks" and compute :: "ohlcv_row list \<Rightarrow> metadata" and led :: ledger and oe :: "sim_exec order_engine"
  by unfold_locales (auto intro: kernel_op_frozen [THEN conjunct1] kernel_op_frozen [THEN conjunct2] simp: not_execution_def)

lemma replay_keeps:
  assumes keeps: "pub_keeps ok allowed (publish (engine_run (kernel_op hk compute) uuid) uuid kernel_fuel)"
    and time: "\<And>s t. ok s \<Longrightarrow> ok (s\<lparr>kn_now := t\<rparr>)"
  shows "list_all allowed ms \<Longrightarrow> ok (app b) \<Longrightarrow> run_replay hk compute uuid ms b = Some b' \<Longrightarrow> ok (app b')"
proof (induction ms arbitrary: b)
  case Nil
  then show ?case by (simp add: run_replay_def)
next
  case (Cons m ms)
  obtain b1 where b1: "replay_one hk compute uuid m b = Some b1"
    using Cons.prems(3) foldl_bind_none [of "replay_one hk compute uuid" ms]
    by (cases "replay_one hk compute uuid m b") (auto simp: run_replay_def)
  then have "run_replay hk compute uuid ms b1 = Some b'" using Cons.prems(3) by (simp add: run_replay_def)
  moreover have "ok (app b1)"
  proof -
    let ?s = "(app b)\<lparr>kn_now := msg_ts m\<rparr>"
    have p: "publish (engine_run (kernel_op hk compute) uuid) uuid kernel_fuel (new_event uuid (next_id b) m)
        (b\<lparr>app := ?s, next_id := Suc (next_id b)\<rparr>) = Some b1"
      using b1 by (simp add: replay_one_def kernel_publish_def)
    have "allowed (payload (new_event uuid (next_id b) m))" using Cons.prems(1) by (simp add: new_event_def)
    moreover have "ok (app (b\<lparr>app := ?s, next_id := Suc (next_id b)\<rparr>))" using time [OF Cons.prems(2)] by simp
    ultimately show ?thesis using keeps p unfolding pub_keeps_def by blast
  qed
  ultimately show ?case using Cons.IH Cons.prems(1) by simp
qed


text \<open>C4: a halted kernel does not trade.  While the risk engine is halted, no stream of events other
  than fills and approvals injected from outside (market data, candles, signals, lifecycle
  events), with whatever strategies, changes a position, the cash or the order engine: every signal
  is rejected and no order is made, and the engine stays halted.\<close>

theorem halted_kernel_does_not_trade:
  assumes "halted (kn_risk (app b))" and "list_all not_execution ms"
    and "run_replay hk compute uuid ms b = Some b'"
  shows "halted (kn_risk (app b')) \<and> kn_ledger (app b') = kn_ledger (app b) \<and> kn_orders (app b') = kn_orders (app b)"
proof -
  have "frozen (kn_ledger (app b)) (kn_orders (app b)) (app b')"
    by (rule replay_keeps [OF kernel_halted.publish_keeps _ assms(2) _ assms(3)])
      (use assms(1) in \<open>simp_all add: frozen_def\<close>)
  then show ?thesis by (simp add: frozen_def)
qed

section \<open>Examples\<close>

text \<open>A strategy that buys one share on every tick.\<close>

definition buyer :: "unit hooks" where
  "buyer = \<lparr>hk_market = (\<lambda>name m is led now st.
      (False, st, case m of TickEvent e \<Rightarrow>
         [\<lparr>ts = now, sg_symbol = tk_symbol e, sg_exchange = tk_exchange e, sg_side = BUY, sg_quantity = 1,
           sg_price = 0, sg_order_type = MARKET, sg_strategy = name, sg_metadata = []\<rparr>] | _ \<Rightarrow> [])),
     hk_account = (\<lambda>name m is led now st. (False, st, []))\<rparr>"

lemma buyer_silent [simp]: "account_silent buyer"
  by (simp add: account_silent_def buyer_def)

definition ex_kernel :: "bool \<Rightarrow> unit kernel" where
  "ex_kernel stopped =
     \<lparr>kn_mode = ''replay'', kn_session_id = [], kn_now = naive 0,
      kn_instruments = [(''TCS'', new_instrument ''equity'' ''TCS'' ''NSE'' False)],
      kn_candles = one_minute ''replay'', kn_indicators = new_indicator_engine ''1m'' 1000,
      kn_strategies = register_slot ''buyer'' () [],
      kn_risk = (new_risk_engine \<lparr>rx_ledger = \<lparr>positions = [], balance = 1000\<rparr>, rx_instruments = [], rx_now = naive 0\<rparr>
                   None None None None None None None None)\<lparr>halted := stopped\<rparr>,
      kn_ledger = \<lparr>positions = [], balance = 1000\<rparr>,
      kn_orders = \<lparr>oe_router = \<lparr>rt_targets = [(''default'', new_sim_exec None None NoStatutory True)], rt_default = Some ''default''\<rparr>,
                   oe_intents = 0\<rparr>,
      kn_store = None\<rparr>"

theorem kernel_dispatch_ends_witness:
  "\<exists>b'. kernel_publish buyer (\<lambda>_. []) (\<lambda>_. ''id'') (TickEvent (tick_at 0 100)) (kernel_bus (ex_kernel False)) = Some b'"
  using kernel_dispatch_ends [OF buyer_silent] by blast


theorem halted_kernel_does_not_trade_witness:
  "\<exists>b'. run_replay buyer (\<lambda>_. []) (\<lambda>_. ''id'') [TickEvent (tick_at 0 100)] (kernel_bus (ex_kernel True)) = Some b' \<and>
     kn_ledger (app b') = \<lparr>positions = [], balance = 1000\<rparr>"
proof -
  let ?b = "kernel_bus (ex_kernel True)"
  obtain b' where r: "run_replay buyer (\<lambda>_. []) (\<lambda>_. ''id'') [TickEvent (tick_at 0 100)] ?b = Some b'"
    using foldl_bind_some [of "replay_one buyer (\<lambda>_. []) (\<lambda>_. ''id'')"] kernel_publish_some [OF buyer_silent]
    unfolding run_replay_def replay_one_def by blast
  have "halted (kn_risk (app ?b))" "list_all not_execution [TickEvent (tick_at 0 100)]"
    by (simp_all add: app_kernel_bus ex_kernel_def not_execution_def)
  from halted_kernel_does_not_trade [OF this r] r show ?thesis by (auto simp: app_kernel_bus ex_kernel_def)
qed

end
