(* ===== verification/PositionSync.thy ===== *)
theory PositionSync
  imports Risk Costs
begin

text \<open>
  \<open>ntrade/engines/position_sync.py\<close>: reconciling the kernel's portfolio and cash with what the
  broker reports.  The broker's answers to \<open>get_positions()\<close> and \<open>get_balance()\<close> are arguments (the
  exception, or the value; a balance that \<open>float()\<close> does not accept is \<open>None\<close>).

  The lemmas show that a failed fetch changes nothing, that after a successful pass the portfolio
  holds exactly the reported positions, and that a second pass on the same report is silent.
\<close>

section \<open>Reconciliation\<close>

type_synonym reported = "(string, position) dict"

definition by_symbol :: "position list \<Rightarrow> reported" where
  "by_symbol ps = fold (\<lambda>p. AList.update (ps_symbol p) p) ps []"

definition strategy_meta :: "position \<Rightarrow> metadata" where
  "strategy_meta bp =
     (case map_of (ps_metadata bp) ''strategy'' of None \<Rightarrow> [] | Some v \<Rightarrow> [(''strategy'', v)])"

text \<open>The local position of a symbol before its figures are taken over: found (with the broker's word
  on the strategy) or new.\<close>

definition ensure_local :: "string \<Rightarrow> position \<Rightarrow> position list \<Rightarrow> position list" where
  "ensure_local sy bp ps =
     (case find_position ps sy of
        None \<Rightarrow> ps @ [\<lparr>ps_symbol = sy, ps_quantity = 0, ps_avg_price = 0, ps_ltp = ps_ltp bp,
                       ps_product = (if ps_product bp = [] then ''MIS'' else ps_product bp),
                       ps_exchange = (if ps_exchange bp = [] then ''NSE'' else ps_exchange bp),
                       ps_metadata = strategy_meta bp\<rparr>]
      | Some p \<Rightarrow>
          if map_of (ps_metadata bp) ''strategy'' \<noteq> None
          then update_position sy (\<lambda>p. p\<lparr>ps_metadata := strategy_meta bp\<rparr>) ps else ps)"

definition take_over :: "position \<Rightarrow> position \<Rightarrow> position" where
  "take_over bp p = p\<lparr>ps_quantity := ps_quantity bp, ps_avg_price := ps_avg_price bp, ps_ltp := ps_ltp bp\<rparr>"

definition same_figures :: "position \<Rightarrow> position \<Rightarrow> bool" where
  "same_figures p q \<longleftrightarrow> ps_quantity p = ps_quantity q \<and> ps_avg_price p = ps_avg_price q \<and> ps_ltp p = ps_ltp q"

definition upsert :: "datetime \<Rightarrow> string \<times> position \<Rightarrow> position list \<Rightarrow> position list \<times> msg list" where
  "upsert now x ps =
     (case x of (sy, bp) \<Rightarrow>
        (let ps1 = ensure_local sy bp ps
         in case find_position ps1 sy of
              None \<Rightarrow> (ps1, [])
            | Some local \<Rightarrow>
                (update_position sy (take_over bp) ps1,
                 if same_figures local bp then []
                 else [PositionUpdatedEvent
                         \<lparr>ts = now, pu_symbol = sy, pu_exchange = ps_exchange local, pu_quantity = ps_quantity bp,
                          pu_avg_price = ps_avg_price bp, pu_ltp = ps_ltp bp\<rparr>])))"

definition drop_unreported :: "datetime \<Rightarrow> reported \<Rightarrow> position list \<Rightarrow> position list \<times> msg list" where
  "drop_unreported now rep ps =
     (filter (\<lambda>p. ps_symbol p \<in> set (keys rep)) ps,
      map (\<lambda>p. PositionUpdatedEvent
             \<lparr>ts = now, pu_symbol = ps_symbol p, pu_exchange = ps_exchange p, pu_quantity = 0,
              pu_avg_price = 0, pu_ltp = 0\<rparr>)
        (filter (\<lambda>p. ps_symbol p \<notin> set (keys rep)) ps))"

definition sync_positions :: "datetime \<Rightarrow> position list \<Rightarrow> position list \<Rightarrow> position list \<times> msg list" where
  "sync_positions now reported ps =
     (let rep = by_symbol reported
      in run_steps (map (upsert now) rep @ [drop_unreported now rep]) ps)"

definition sync_balance ::
  "datetime \<Rightarrow> bool \<Rightarrow> py_error + real option \<Rightarrow> ledger \<times> risk_engine option \<Rightarrow> (ledger \<times> risk_engine option) \<times> msg list" where
  "sync_balance now reports_cash answer st =
     (case st of (led, risk) \<Rightarrow>
        (case (if reports_cash then (case answer of Inr b \<Rightarrow> b | Inl _ \<Rightarrow> None) else None) of
           None \<Rightarrow> ((led, risk), [])
         | Some b \<Rightarrow>
             (let (led', ms) = (if b \<noteq> balance led
                                then (led\<lparr>balance := py_round 4 b\<rparr>,
                                      [BalanceChangedEvent \<lparr>ts = now, bc_balance = py_round 4 b\<rparr>])
                                else (led, []))
              in ((led', map_option (rebase b) risk), ms))))"

definition sync ::
  "datetime \<Rightarrow> bool \<Rightarrow> py_error + position list option \<Rightarrow> py_error + real option \<Rightarrow>
   ledger \<times> risk_engine option \<Rightarrow> nat \<times> (ledger \<times> risk_engine option) \<times> msg list" where
  "sync now reports_cash pos_answer bal_answer st =
     (case st of (led, risk) \<Rightarrow>
        (case pos_answer of
           Inl _ \<Rightarrow> (length (positions led), st, [])
         | Inr reported \<Rightarrow>
             (case sync_positions now (some_or reported []) (positions led) of
                (ps, ms) \<Rightarrow>
                  (case sync_balance now reports_cash bal_answer (led\<lparr>positions := ps\<rparr>, risk) of
                     (st', ms') \<Rightarrow> (length ps, st', ms @ ms')))))"

section \<open>Lemmas\<close>

lemma by_symbol_keys: "distinct (keys (by_symbol ps)) \<and> list_all (\<lambda>(k, p). ps_symbol p = k) (by_symbol ps)"
proof -
  have "distinct (keys (fold (\<lambda>p. AList.update (ps_symbol p) p) ps d)) \<and>
      list_all (\<lambda>(k, p). ps_symbol p = k) (fold (\<lambda>p. AList.update (ps_symbol p) p) ps d)"
    if "distinct (keys d)" "list_all (\<lambda>(k, p). ps_symbol p = k) d" for d :: reported
    using that
  proof (induction ps arbitrary: d)
    case Nil
    then show ?case by simp
  next
    case (Cons p ps)
    have "list_all (\<lambda>(k, p). ps_symbol p = k) (AList.update (ps_symbol p) p d)"
      using Cons.prems(2) by (induction d) auto
    then show ?case using Cons by simp
  qed
  then show ?thesis by (simp add: by_symbol_def)
qed

text \<open>A ledger agrees with a reported position when it holds its figures and, where the broker names the
  strategy, its strategy.\<close>

definition agrees :: "position list \<Rightarrow> string \<times> position \<Rightarrow> bool" where
  "agrees ps x \<longleftrightarrow>
     (\<exists>p. find_position ps (fst x) = Some p \<and> same_figures p (snd x) \<and>
          (map_of (ps_metadata (snd x)) ''strategy'' \<noteq> None \<longrightarrow> ps_metadata p = strategy_meta (snd x)))"

lemma take_over_simps [simp]:
  "ps_symbol (take_over bp p) = ps_symbol p" "ps_metadata (take_over bp p) = ps_metadata p"
  "same_figures (take_over bp p) bp"
  by (simp_all add: take_over_def same_figures_def)

lemma take_over_same: "same_figures p bp \<Longrightarrow> take_over bp p = p"
  by (simp add: take_over_def same_figures_def)

lemma update_position_same: "find_position ps sy = Some p \<Longrightarrow> f p = p \<Longrightarrow> update_position sy f ps = ps"
  by (induction ps) (auto split: if_splits)

lemma find_ensure_local_other: "sy' \<noteq> sy \<Longrightarrow> find_position (ensure_local sy bp ps) sy' = find_position ps sy'"
  by (simp add: ensure_local_def find_position_append find_position_update split: option.splits)

lemma ensure_local_finds:
  "\<exists>p. find_position (ensure_local sy bp ps) sy = Some p \<and>
       (map_of (ps_metadata bp) ''strategy'' \<noteq> None \<longrightarrow> ps_metadata p = strategy_meta bp)"
  by (auto simp: ensure_local_def find_position_append find_position_update split: option.splits)

lemma ensure_local_distinct:
  assumes "distinct (map ps_symbol ps)"
  shows "distinct (map ps_symbol (ensure_local sy bp ps))"
proof (cases "find_position ps sy")
  case None
  moreover from None have "sy \<notin> ps_symbol ` set ps" by (simp add: find_position_None_iff)
  ultimately show ?thesis using assms by (simp add: ensure_local_def)
next
  case (Some p)
  then show ?thesis using assms by (simp add: ensure_local_def symbols_update)
qed

lemma upsert_fst:
  "fst (upsert now (sy, bp) ps) = update_position sy (take_over bp) (ensure_local sy bp ps)"
  using ensure_local_finds [of sy bp ps] by (auto simp: upsert_def Let_def)

lemma upsert_agrees: "agrees (fst (upsert now x ps)) x"
  using ensure_local_finds [of "fst x" "snd x" ps]
  by (cases x) (auto simp: upsert_fst agrees_def find_position_update)

lemma upsert_keeps: "fst y \<noteq> fst x \<Longrightarrow> agrees ps y \<Longrightarrow> agrees (fst (upsert now x ps)) y"
  by (cases x) (simp add: upsert_fst agrees_def find_position_update find_ensure_local_other)

lemma upsert_distinct: "distinct (map ps_symbol ps) \<Longrightarrow> distinct (map ps_symbol (fst (upsert now x ps)))"
  by (cases x) (simp add: upsert_fst symbols_update ensure_local_distinct)

lemma upsert_silent:
  assumes "agrees ps x"
  shows "upsert now x ps = (ps, [])"
proof -
  obtain sy bp p where x: "x = (sy, bp)" and p: "find_position ps sy = Some p" "same_figures p bp"
      "map_of (ps_metadata bp) ''strategy'' \<noteq> None \<Longrightarrow> ps_metadata p = strategy_meta bp"
    using assms by (cases x) (auto simp: agrees_def)
  have "ensure_local sy bp ps = ps"
    using p update_position_same [OF p(1)] by (auto simp: ensure_local_def)
  then show ?thesis
    using p update_position_same [OF p(1), of "take_over bp"] take_over_same [OF p(2)] by (simp add: upsert_def x)
qed


section \<open>A whole pass\<close>

lemma upserts_agree:
  assumes "distinct (keys rep)"
  shows "(\<forall>x \<in> set rep. agrees (fst (run_steps (map (upsert now) rep) ps)) x) \<and>
     (\<forall>y. fst y \<notin> set (keys rep) \<longrightarrow> agrees ps y \<longrightarrow> agrees (fst (run_steps (map (upsert now) rep) ps)) y)"
  using assms
proof (induction rep arbitrary: ps)
  case Nil
  then show ?case by simp
next
  case (Cons x rep)
  define ps1 where "ps1 = fst (upsert now x ps)"
  have x: "agrees ps1 x" by (simp add: ps1_def upsert_agrees)
  have keep: "agrees ps1 y" if "fst y \<noteq> fst x" "agrees ps y" for y
    using upsert_keeps [OF that, of now] by (simp add: ps1_def)
  have run: "fst (run_steps (map (upsert now) (x # rep)) ps) = fst (run_steps (map (upsert now) rep) ps1)"
    by (simp only: list.map run_steps_Cons_fst ps1_def)
  have new: "fst x \<notin> set (keys rep)" and IH: "\<forall>x \<in> set rep. agrees (fst (run_steps (map (upsert now) rep) ps1)) x"
      "\<And>y. fst y \<notin> set (keys rep) \<Longrightarrow> agrees ps1 y \<Longrightarrow> agrees (fst (run_steps (map (upsert now) rep) ps1)) y"
    using Cons.IH [of ps1] Cons.prems by (simp_all del: set_map split_paired_All)
  show ?case unfolding run using IH x new keep by (simp del: set_map)
qed

lemma upserts_distinct:
  "distinct (map ps_symbol ps) \<Longrightarrow> distinct (map ps_symbol (fst (run_steps (map (upsert now) rep) ps)))"
proof (induction rep arbitrary: ps)
  case Nil
  then show ?case by simp
next
  case (Cons x rep)
  then show ?case
    using upsert_distinct [OF Cons.prems, of now x] by (simp only: list.map run_steps_Cons_fst)
qed

lemma upserts_silent:
  "\<forall>x \<in> set rep. agrees ps x \<Longrightarrow> run_steps (map (upsert now) rep) ps = (ps, [])"
  by (induction rep) (simp_all add: upsert_silent)

lemma find_position_filter:
  "find_position (filter (\<lambda>p. ps_symbol p \<in> A) ps) sy = (if sy \<in> A then find_position ps sy else None)"
  by (induction ps) auto

lemma sync_positions_fst:
  "fst (sync_positions now reported ps) =
     filter (\<lambda>p. ps_symbol p \<in> set (keys (by_symbol reported)))
       (fst (run_steps (map (upsert now) (by_symbol reported)) ps))"
  by (simp add: sync_positions_def Let_def run_steps_append drop_unreported_def split: prod.splits)

lemma sync_positions_agrees:
  assumes "x \<in> set (by_symbol reported)"
  shows "agrees (fst (sync_positions now reported ps)) x"
proof -
  have "agrees (fst (run_steps (map (upsert now) (by_symbol reported)) ps)) x"
    using upserts_agree by_symbol_keys assms by blast
  moreover have "fst x \<in> set (keys (by_symbol reported))" using assms by simp
  ultimately show ?thesis by (simp add: sync_positions_fst agrees_def find_position_filter del: set_map)
qed

lemma sync_positions_only_reported:
  "p \<in> set (fst (sync_positions now reported ps)) \<Longrightarrow> ps_symbol p \<in> set (keys (by_symbol reported))"
  by (simp add: sync_positions_fst del: set_map)

lemma sync_positions_silent:
  assumes "\<forall>x \<in> set (by_symbol reported). agrees ps x"
    and "\<forall>p \<in> set ps. ps_symbol p \<in> set (keys (by_symbol reported))"
  shows "sync_positions now reported ps = (ps, [])"
  using assms by (simp add: sync_positions_def Let_def run_steps_append upserts_silent drop_unreported_def
      del: set_map)

lemma sync_positions_idempotent:
  "sync_positions now' reported (fst (sync_positions now reported ps)) = (fst (sync_positions now reported ps), [])"
  by (rule sync_positions_silent) (blast intro: sync_positions_agrees sync_positions_only_reported)+

abbreviation figures :: "position \<Rightarrow> int \<times> real \<times> real" where
  "figures p \<equiv> (ps_quantity p, ps_avg_price p, ps_ltp p)"

lemma sync_positions_figures:
  "map_option figures (find_position (fst (sync_positions now reported ps)) sy) =
     map_option figures (map_of (by_symbol reported) sy)"
proof (cases "map_of (by_symbol reported) sy")
  case None
  then have "sy \<notin> set (keys (by_symbol reported))" by (simp add: map_of_eq_None_iff)
  then have "find_position (fst (sync_positions now reported ps)) sy = None"
    by (simp add: sync_positions_fst find_position_filter del: set_map)
  then show ?thesis using None by simp
next
  case (Some bp)
  then have "agrees (fst (sync_positions now reported ps)) (sy, bp)"
    by (intro sync_positions_agrees map_of_SomeD)
  then show ?thesis using Some by (auto simp: agrees_def same_figures_def)
qed

lemma sync_positions_distinct:
  "distinct (map ps_symbol ps) \<Longrightarrow> distinct (map ps_symbol (fst (sync_positions now reported ps)))"
  by (simp add: sync_positions_fst upserts_distinct distinct_map_filter)

lemma sync_positions_symbols:
  "set (map ps_symbol (fst (sync_positions now reported ps))) = set (keys (by_symbol reported))"
proof
  show "set (map ps_symbol (fst (sync_positions now reported ps))) \<subseteq> set (keys (by_symbol reported))"
    using sync_positions_only_reported by (force simp del: set_map simp: in_set_conv_nth)
  show "set (keys (by_symbol reported)) \<subseteq> set (map ps_symbol (fst (sync_positions now reported ps)))"
  proof
    fix sy assume "sy \<in> set (keys (by_symbol reported))"
    then obtain bp where "(sy, bp) \<in> set (by_symbol reported)" by auto
    from sync_positions_agrees [OF this, of now ps] obtain p
      where "find_position (fst (sync_positions now reported ps)) sy = Some p" by (auto simp: agrees_def)
    then show "sy \<in> set (map ps_symbol (fst (sync_positions now reported ps)))"
      by (auto dest: find_position_SomeD)
  qed
qed

lemma sync_positions_length:
  assumes "distinct (map ps_symbol ps)"
  shows "length (fst (sync_positions now reported ps)) = length (by_symbol reported)"
proof -
  have "length (map ps_symbol (fst (sync_positions now reported ps))) = length (keys (by_symbol reported))"
    using sync_positions_distinct [OF assms] by_symbol_keys sync_positions_symbols
    by (metis distinct_card)
  then show ?thesis by simp
qed

lemma sync_balance_positions: "positions (fst (fst (sync_balance now rc ans (led, risk)))) = positions led"
  by (simp add: sync_balance_def Let_def split: option.splits)

lemma sync_balance_without_cash [simp]: "sync_balance now False ans st = (st, [])"
  by (cases st) (simp add: sync_balance_def)

lemma sync_balance_settles:
  assumes "py_round 4 b = b"
  shows "sync_balance now' rc (Inr (Some b)) (fst (sync_balance now rc (Inr (Some b)) st)) =
     (fst (sync_balance now rc (Inr (Some b)) st), [])"
  using assms
  by (cases st; cases "snd st") (auto simp: sync_balance_def rebase_def Let_def)

section \<open>Properties\<close>

text \<open>C20: A successful fetch makes the portfolio mirror the broker: every symbol has the quantity, average
  price and last price of its last reported position, symbols the broker does not report are gone, and
  the returned number is the number of reported symbols.\<close>

theorem sync_mirrors_broker:
  assumes "sync now rc (Inr reported) bal (led, risk) = (n, (led', risk'), ms)"
    and "distinct (map ps_symbol (positions led))"
  shows "(\<forall>sy. map_option figures (find_position (positions led') sy) =
           map_option figures (map_of (by_symbol (some_or reported [])) sy)) \<and>
     distinct (map ps_symbol (positions led')) \<and> n = length (by_symbol (some_or reported []))"
proof -
  have "positions led' = fst (sync_positions now (some_or reported []) (positions led))"
    using assms(1)
      sync_balance_positions [of now rc bal "led\<lparr>positions := fst (sync_positions now (some_or reported []) (positions led))\<rparr>" risk]
    by (auto simp: sync_def split: prod.splits)
  moreover have "n = length (fst (sync_positions now (some_or reported []) (positions led)))"
    using assms(1) by (auto simp: sync_def split: prod.splits)
  ultimately show ?thesis
    using assms(2) sync_positions_figures sync_positions_distinct sync_positions_length by simp
qed

definition reported_long :: position where
  "reported_long = \<lparr>ps_symbol = ''TCS'', ps_quantity = 5, ps_avg_price = 100, ps_ltp = 101, ps_product = [],
     ps_exchange = [], ps_metadata = []\<rparr>"

definition stale_short :: position where
  "stale_short = \<lparr>ps_symbol = ''INFY'', ps_quantity = - 2, ps_avg_price = 50, ps_ltp = 50, ps_product = ''MIS'',
     ps_exchange = ''NSE'', ps_metadata = []\<rparr>"

lemmas sync_eval = sync_def sync_positions_def by_symbol_def upsert_def ensure_local_def take_over_def
  same_figures_def drop_unreported_def strategy_meta_def some_or_def reported_long_def stale_short_def

theorem sync_mirrors_broker_witness:
  "map_option ps_quantity (find_position
      (positions (fst (fst (snd (sync (naive 0) False (Inr (Some [reported_long])) (Inr None) (\<lparr>positions = [stale_short], balance = 10\<rparr>, None)))))) ''TCS'') = Some 5"
proof -
  define r where "r = sync (naive 0) False (Inr (Some [reported_long])) (Inr None) (\<lparr>positions = [stale_short], balance = 10\<rparr>, None)"
  obtain n led' risk' ms where r: "r = (n, (led', risk'), ms)" by (cases r) auto
  have "map_option figures (find_position (positions led') ''TCS'') =
      map_option figures (map_of (by_symbol (some_or (Some [reported_long]) [])) ''TCS'')"
    using sync_mirrors_broker [OF r [unfolded r_def]] by (simp add: stale_short_def)
  then show ?thesis
    unfolding r_def [symmetric] by (auto simp: r by_symbol_def some_or_def reported_long_def)
qed

text \<open>Reconciliation settles: repeating a pass on the same report (with a balance of at most four decimals)
  publishes nothing and changes nothing.\<close>

theorem resync_silent:
  assumes "sync now rc (Inr reported) (Inr (Some b)) st = (n, st', ms)" and "py_round 4 b = b"
  shows "sync now' rc (Inr reported) (Inr (Some b)) st' = (n, st', [])"
proof -
  obtain led risk where st: "st = (led, risk)" by force
  define ps where "ps = fst (sync_positions now (some_or reported []) (positions led))"
  define r where "r = sync_balance now rc (Inr (Some b)) (led\<lparr>positions := ps\<rparr>, risk)"
  have st': "st' = fst r" "n = length ps"
    using assms(1) by (auto simp: sync_def st ps_def r_def split: prod.splits)
  obtain led' risk' where fr: "fst r = (led', risk')" by force
  have pos: "positions led' = ps"
    using sync_balance_positions [of now rc "Inr (Some b)" "led\<lparr>positions := ps\<rparr>" risk] fr by (simp add: r_def)
  have upd: "led'\<lparr>positions := ps\<rparr> = led'" using pos by (cases led') auto
  have "sync_balance now' rc (Inr (Some b)) (led'\<lparr>positions := ps\<rparr>, risk') = ((led', risk'), [])"
    using sync_balance_settles [OF assms(2), of now' rc now "(led\<lparr>positions := ps\<rparr>, risk)"]
    by (simp only: upd fr [unfolded r_def])
  moreover have "sync_positions now' (some_or reported []) ps = (ps, [])"
    by (simp add: ps_def sync_positions_idempotent)
  ultimately show ?thesis by (simp add: sync_def st' fr pos)
qed

theorem resync_silent_witness:
  "sync (naive 60) True (Inr (Some [reported_long])) (Inr (Some 7))
     (fst (snd (sync (naive 0) True (Inr (Some [reported_long])) (Inr (Some 7)) (\<lparr>positions = [stale_short], balance = 10\<rparr>, None)))) =
   (1, fst (snd (sync (naive 0) True (Inr (Some [reported_long])) (Inr (Some 7)) (\<lparr>positions = [stale_short], balance = 10\<rparr>, None))), [])"
proof -
  define r where "r = sync (naive 0) True (Inr (Some [reported_long])) (Inr (Some 7)) (\<lparr>positions = [stale_short], balance = 10\<rparr>, None)"
  have "fst r = 1" by (simp add: r_def sync_eval sync_balance_def split: prod.splits)
  moreover have "py_round 4 (7::real) = 7" using py_round_of_int [of 4 7] by simp
  moreover obtain n st' ms where r: "r = (n, st', ms)" by (cases r) auto
  ultimately show ?thesis
    using resync_silent [OF r [unfolded r_def], of "naive 60"] unfolding r_def [symmetric] by (simp add: r)
qed

end
