(* ===== verification/Runner.thy ===== *)
theory Runner
  imports EventBus Risk "HOL-Library.Multiset" "HOL-Library.List_Lexorder" "HOL-Library.Char_ord"
begin

text \<open>
  \<open>ntrade/kernel/runner.py\<close> (\<open>StrategyRunner\<close>): several strategies on one kernel, each screened by a
  risk engine of its own, while the kernel's global risk engine is paused.

  The part of the kernel the runners share is \<open>shared\<close>: the subscribers of \<open>SignalGeneratedEvent\<close> (the
  bus of \<open>EventBus\<close>), the strategy engine's list, the \<open>name\<close> attribute of the strategy objects (a
  strategy is a reference, a number) and the pause count.  Risk engines are created by the runners
  and referred to by their index.

  The lemmas show that over every interleaving of additions, releases and signals of any number of
  runners a signal of a managed strategy is screened exactly once, by the engine with its limits,
  and that the name search ends with an unused name.  They also show that a runner that added more
  than one strategy does not give the global engine back.
\<close>

section \<open>State\<close>

datatype screen = GlobalRisk | ScopedRisk nat

record shared =
  sh_bus :: "(screen, unit) bus"
  sh_global :: risk_engine
  sh_engines :: "risk_engine list"
  sh_strategies :: "nat list"
  sh_names :: "nat \<Rightarrow> string"
  sh_enabled :: "nat \<Rightarrow> bool"
  sh_pause_count :: nat

record runner =
  rn_handles :: "(string, nat) dict"
  rn_risk :: "(string, nat) dict"
  rn_paused :: bool

definition new_runner :: runner where
  "new_runner = \<lparr>rn_handles = [], rn_risk = [], rn_paused = False\<rparr>"

text \<open>The keyword arguments of \<open>RiskEngine\<close> that a strategy's limits may give.\<close>

record risk_kwargs =
  rk_max_quantity :: "int option"
  rk_max_notional :: "real option"
  rk_max_positions :: "nat option"
  rk_allowlist :: "string list option"
  rk_max_daily_loss :: "real option"
  rk_max_drawdown_pct :: "real option"
  rk_price_deviation_pct :: "real option"

section \<open>Names\<close>

definition numbered :: "string \<Rightarrow> nat \<Rightarrow> string" where
  "numbered base i = base @ ''#'' @ str_nat i"

function free_index :: "string \<Rightarrow> string list \<Rightarrow> nat \<Rightarrow> nat" where
  "free_index base taken i = (if numbered base i \<in> set taken then free_index base taken (Suc i) else i)"
  by auto

lemma numbered_inj [simp]: "numbered base i = numbered base j \<longleftrightarrow> i = j"
  by (simp add: numbered_def)

lemma taken_finite: "finite {j. i \<le> j \<and> numbered base j \<in> set taken}"
proof -
  have "inj (numbered base)" by (auto simp: inj_def)
  then have "finite (numbered base -` set taken)" by (intro finite_vimageI) auto
  then show ?thesis by (rule rev_finite_subset) auto
qed

termination free_index
proof (relation "measure (\<lambda>(base, taken, i). card {j. i \<le> j \<and> numbered base j \<in> set taken})", goal_cases)
  case 1
  then show ?case by simp
next
  case (2 base taken i)
  have "{j. Suc i \<le> j \<and> numbered base j \<in> set taken} \<subset> {j. i \<le> j \<and> numbered base j \<in> set taken}"
    using 2 by (intro psubsetI) (auto simp: set_eq_iff intro: exI [of _ i])
  then show ?case by (simp add: psubset_card_mono [OF taken_finite])
qed

declare free_index.simps [simp del]

definition unique_name :: "string \<Rightarrow> string list \<Rightarrow> string" where
  "unique_name base taken = (if base \<notin> set taken then base else numbered base (free_index base taken 2))"

lemma free_index_free: "numbered base (free_index base taken i) \<notin> set taken"
  by (induction base taken i rule: free_index.induct) (subst free_index.simps, simp)

lemma unique_name_free: "unique_name base taken \<notin> set taken"
  by (simp add: unique_name_def free_index_free)

section \<open>Operations\<close>

definition strategy_names :: "shared \<Rightarrow> string list" where
  "strategy_names k = map (sh_names k) (sh_strategies k)"

definition pause_global_risk :: "shared \<times> runner \<Rightarrow> shared \<times> runner" where
  "pause_global_risk kr =
     (case kr of (k, r) \<Rightarrow>
        (k\<lparr>sh_bus := (if sh_pause_count k = 0 then unsubscribe TSignal GlobalRisk (sh_bus k) else sh_bus k),
           sh_pause_count := Suc (sh_pause_count k)\<rparr>,
         r\<lparr>rn_paused := True\<rparr>))"

definition add_engine :: "risk_engine \<Rightarrow> shared \<Rightarrow> shared" where
  "add_engine e k =
     k\<lparr>sh_engines := sh_engines k @ [e],
       sh_bus := subscribe TSignal (ScopedRisk (length (sh_engines k))) (sh_bus k)\<rparr>"

text \<open>\<open>name or strategy.name\<close>: an empty name counts as none.\<close>

definition base_name :: "string option \<Rightarrow> nat \<Rightarrow> shared \<Rightarrow> string" where
  "base_name name ob k = (case name of Some (c # cs) \<Rightarrow> c # cs | _ \<Rightarrow> sh_names k ob)"

definition runner_add ::
  "risk_ctx \<Rightarrow> nat \<Rightarrow> string option \<Rightarrow> risk_kwargs \<Rightarrow> shared \<times> runner \<Rightarrow> string \<times> shared \<times> runner" where
  "runner_add cx ob name kw kr =
     (case kr of (k, r) \<Rightarrow>
        (let unique = unique_name (base_name name ob k) (keys (rn_handles r) @ strategy_names k);
             k = k\<lparr>sh_names := (sh_names k)(ob := unique)\<rparr>;
             (k, r) = pause_global_risk (k, r);
             k = k\<lparr>sh_strategies := sh_strategies k @ [ob]\<rparr>;
             r = r\<lparr>rn_handles := AList.update unique ob (rn_handles r)\<rparr>;
             e = new_risk_engine cx (rk_max_quantity kw) (rk_max_notional kw) (rk_max_positions kw)
                   (rk_allowlist kw) (Some unique) (rk_max_daily_loss kw) (rk_max_drawdown_pct kw)
                   (rk_price_deviation_pct kw);
             i = length (sh_engines k)
         in (unique, add_engine e k, r\<lparr>rn_risk := AList.update unique i (rn_risk r)\<rparr>)))"

definition runner_running :: "string \<Rightarrow> shared \<times> runner \<Rightarrow> bool" where
  "runner_running name kr =
     (case map_of (rn_handles (snd kr)) name of None \<Rightarrow> False | Some ob \<Rightarrow> sh_enabled (fst kr) ob)"

definition runner_names :: "runner \<Rightarrow> string list" where
  "runner_names r = keys (rn_handles r)"

definition runner_strategy :: "string \<Rightarrow> runner \<Rightarrow> nat option" where
  "runner_strategy name r = map_of (rn_handles r) name"

definition runner_risk :: "string \<Rightarrow> shared \<times> runner \<Rightarrow> risk_engine option" where
  "runner_risk name kr = map_option (\<lambda>i. sh_engines (fst kr) ! i) (map_of (rn_risk (snd kr)) name)"

record status_row =
  sr_name :: string
  sr_enabled :: bool
  sr_max_quantity :: "int option"
  sr_max_notional :: "real option"
  sr_max_positions :: "nat option"
  sr_allowlist :: "string list option"
  sr_approved :: nat
  sr_rejected :: nat

definition runner_status :: "shared \<times> runner \<Rightarrow> status_row list" where
  "runner_status kr =
     map (\<lambda>(name, ob).
       case runner_risk name kr of
         None \<Rightarrow> \<lparr>sr_name = name, sr_enabled = sh_enabled (fst kr) ob, sr_max_quantity = None, sr_max_notional = None,
                  sr_max_positions = None, sr_allowlist = None, sr_approved = 0, sr_rejected = 0\<rparr>
       | Some e \<Rightarrow> \<lparr>sr_name = name, sr_enabled = sh_enabled (fst kr) ob, sr_max_quantity = max_quantity e,
                    sr_max_notional = max_notional e, sr_max_positions = max_positions e,
                    sr_allowlist = map_option (\<lambda>xs. sort (remdups xs)) (allowlist e), sr_approved = approved e,
                    sr_rejected = rejected e\<rparr>)
       (rn_handles (snd kr))"

definition runner_release :: "shared \<times> runner \<Rightarrow> shared \<times> runner" where
  "runner_release kr =
     (case kr of (k, r) \<Rightarrow>
        (let k = k\<lparr>sh_bus := fold (\<lambda>i. unsubscribe TSignal (ScopedRisk i)) (map snd (rn_risk r)) (sh_bus k)\<rparr>;
             k = k\<lparr>sh_strategies := fold remove1 (map snd (rn_handles r)) (sh_strategies k)\<rparr>;
             r = r\<lparr>rn_risk := [], rn_handles := []\<rparr>
         in if rn_paused r
            then (let n = sh_pause_count k - 1
                  in (k\<lparr>sh_pause_count := n,
                        sh_bus := (if n = 0 then subscribe TSignal GlobalRisk (sh_bus k) else sh_bus k)\<rparr>,
                      r\<lparr>rn_paused := False\<rparr>))
            else (k, r)))"

text \<open>A signal on the bus: every subscribed risk engine sees it, in the order of subscription.\<close>

fun screen_by :: "risk_ctx \<Rightarrow> signal_generated \<Rightarrow> screen \<Rightarrow> shared \<Rightarrow> shared \<times> msg list" where
  "screen_by cx e GlobalRisk k =
     (case on_signal cx e (sh_global k) of (g, ms) \<Rightarrow> (k\<lparr>sh_global := g\<rparr>, ms))"
| "screen_by cx e (ScopedRisk i) k =
     (case on_signal cx e (sh_engines k ! i) of (g, ms) \<Rightarrow> (k\<lparr>sh_engines := (sh_engines k)[i := g]\<rparr>, ms))"

definition screen_signal :: "risk_ctx \<Rightarrow> signal_generated \<Rightarrow> shared \<Rightarrow> shared \<times> msg list" where
  "screen_signal cx e k = run_steps (map (screen_by cx e) (handlers_of (sh_bus k) TSignal)) k"

section \<open>Runners sharing a kernel\<close>

type_synonym system = "shared \<times> runner list"

text \<open>What the users of a kernel do: add a strategy object that is not attached yet, release a runner,
  publish a signal.\<close>

inductive sys_step :: "system \<Rightarrow> system \<Rightarrow> bool" where
  Add: "j < length rs \<Longrightarrow> ob \<notin> set (sh_strategies k) \<Longrightarrow> runner_add cx ob name kw (k, rs ! j) = (n, k', r') \<Longrightarrow>
     sys_step (k, rs) (k', rs[j := r'])"
| Release: "j < length rs \<Longrightarrow> runner_release (k, rs ! j) = (k', r') \<Longrightarrow> sys_step (k, rs) (k', rs[j := r'])"
| Signal: "screen_signal cx e k = (k', ms) \<Longrightarrow> sys_step (k, rs) (k', rs)"

inductive_cases sys_stepE: "sys_step s s'"

abbreviation engine_ids :: "runner \<Rightarrow> nat list" where
  "engine_ids r \<equiv> map snd (rn_risk r)"

abbreviation managed :: "runner \<Rightarrow> string list" where
  "managed r \<equiv> keys (rn_risk r)"

definition fresh_system :: "shared \<Rightarrow> nat \<Rightarrow> system \<Rightarrow> bool" where
  "fresh_system k n s \<longleftrightarrow> s = (k, replicate n new_runner) \<and> handlers_of (sh_bus k) TSignal = [GlobalRisk] \<and>
     sh_pause_count k = 0"

text \<open>The runners other than the \<open>j\<close>-th.\<close>

definition others :: "nat \<Rightarrow> 'a list \<Rightarrow> 'a list" where
  "others j rs = take j rs @ drop (Suc j) rs"

text \<open>The invariant of a runner: its engines exist, carry its strategies' names, and its strategies are
  attached under these names.\<close>

definition runner_ok :: "shared \<Rightarrow> runner \<Rightarrow> bool" where
  "runner_ok k r \<longleftrightarrow>
     keys (rn_handles r) = managed r \<and> (rn_risk r \<noteq> [] \<longrightarrow> rn_paused r) \<and>
     (\<forall>(n, i) \<in> set (rn_risk r). i < length (sh_engines k) \<and> strategy (sh_engines k ! i) = Some n) \<and>
     (\<forall>(n, ob) \<in> set (rn_handles r). ob \<in> set (sh_strategies k) \<and> sh_names k ob = n)"

definition sys_inv :: "system \<Rightarrow> bool" where
  "sys_inv s \<longleftrightarrow>
     (case s of (k, rs) \<Rightarrow>
        mset (handlers_of (sh_bus k) TSignal) =
          (if sh_pause_count k = 0 then {#GlobalRisk#} else {#}) + mset (map ScopedRisk (concat (map engine_ids rs))) \<and>
        distinct (concat (map engine_ids rs)) \<and> distinct (concat (map managed rs)) \<and>
        distinct (concat (map (\<lambda>r. map snd (rn_handles r)) rs)) \<and>
        length (filter rn_paused rs) \<le> sh_pause_count k \<and> list_all (runner_ok k) rs)"

lemma fresh_system_inv: "fresh_system k n s \<Longrightarrow> sys_inv s"
proof -
  have c: "concat (map f (replicate n new_runner)) = []" if "f new_runner = []" for f :: "runner \<Rightarrow> 'a list"
    using that by (induction n) auto
  assume "fresh_system k n s"
  then show ?thesis
    by (auto simp: fresh_system_def sys_inv_def c new_runner_def runner_ok_def list_all_iff)
qed

section \<open>Adding\<close>

lemma update_new: "k \<notin> set (keys d) \<Longrightarrow> AList.update k v d = d @ [(k, v)]"
  by (induction d) auto

text \<open>What an addition does, field by field.\<close>

lemma runner_add_fields:
  assumes "runner_add cx ob name kw (k, r) = (n, k', r')" and "keys (rn_handles r) = managed r"
  shows "n = unique_name (base_name name ob k) (keys (rn_handles r) @ strategy_names k)"
    and "handlers_of (sh_bus k') TSignal =
      (if sh_pause_count k = 0 then remove1 GlobalRisk (handlers_of (sh_bus k) TSignal) else handlers_of (sh_bus k) TSignal) @
      [ScopedRisk (length (sh_engines k))]"
    and "sh_pause_count k' = Suc (sh_pause_count k)" and "sh_strategies k' = sh_strategies k @ [ob]"
    and "sh_names k' = (sh_names k)(ob := n)"
    and "sh_global k' = sh_global k"
    and "\<exists>e. strategy e = Some n \<and> sh_engines k' = sh_engines k @ [e]"
    and "r' = \<lparr>rn_handles = rn_handles r @ [(n, ob)], rn_risk = rn_risk r @ [(n, length (sh_engines k))], rn_paused = True\<rparr>"
proof -
  have n: "n = unique_name (base_name name ob k) (keys (rn_handles r) @ strategy_names k)"
    using assms(1) by (simp add: runner_add_def Let_def pause_global_risk_def)
  then show "n = unique_name (base_name name ob k) (keys (rn_handles r) @ strategy_names k)" .
  have fresh: "n \<notin> set (keys (rn_handles r))" "n \<notin> set (managed r)"
    using unique_name_free [of "base_name name ob k" "keys (rn_handles r) @ strategy_names k"] assms(2)
    by (simp_all add: n del: set_map)
  note def = assms(1) [unfolded runner_add_def Let_def pause_global_risk_def add_engine_def prod.case, folded n]
  show "r' = \<lparr>rn_handles = rn_handles r @ [(n, ob)], rn_risk = rn_risk r @ [(n, length (sh_engines k))], rn_paused = True\<rparr>"
    using def fresh by (auto simp: update_new simp del: set_map)
  show "handlers_of (sh_bus k') TSignal =
      (if sh_pause_count k = 0 then remove1 GlobalRisk (handlers_of (sh_bus k) TSignal) else handlers_of (sh_bus k) TSignal) @
      [ScopedRisk (length (sh_engines k))]"
    using def by (auto simp: handlers_of_subscribe handlers_of_unsubscribe)
  show "sh_pause_count k' = Suc (sh_pause_count k)" "sh_strategies k' = sh_strategies k @ [ob]"
      "sh_names k' = (sh_names k)(ob := n)" "sh_global k' = sh_global k"
    using def by auto
  show "\<exists>e. strategy e = Some n \<and> sh_engines k' = sh_engines k @ [e]"
    using def by (auto simp: new_risk_engine_def)
qed

lemma managed_named:
  assumes "runner_ok k r"
  shows "set (managed r) \<subseteq> set (strategy_names k)"
proof -
  have named: "\<forall>(n, ob) \<in> set (rn_handles r). ob \<in> set (sh_strategies k) \<and> sh_names k ob = n"
    using assms by (simp add: runner_ok_def)
  have "set (keys (rn_handles r)) \<subseteq> set (strategy_names k)"
    using named by (auto simp: strategy_names_def)
  then show ?thesis using assms by (simp add: runner_ok_def del: set_map)
qed

lemma runner_ok_grow:
  assumes "runner_ok k r" and "ob \<notin> set (sh_strategies k)"
    and "sh_strategies k' = sh_strategies k @ [ob]" and "sh_names k' = (sh_names k)(ob := n)"
    and "sh_engines k' = sh_engines k @ [e]"
  shows "runner_ok k' r"
  using assms by (auto simp: runner_ok_def nth_append)

lemma add_keeps_inv:
  assumes inv: "sys_inv (k, xs @ r # ys)" and ob: "ob \<notin> set (sh_strategies k)"
    and add: "runner_add cx ob name kw (k, r) = (n, k', r')"
  shows "sys_inv (k', xs @ r' # ys)"
proof -
  have ok: "runner_ok k q" if "q \<in> insert r (set xs \<union> set ys)" for q
    using inv that by (auto simp: sys_inv_def list_all_iff)
  have keys: "keys (rn_handles r) = managed r" using ok [of r] by (simp add: runner_ok_def)
  note f = runner_add_fields [OF add keys]
  obtain e where e: "strategy e = Some n" "sh_engines k' = sh_engines k @ [e]" using f(7) by auto
  have ok': "runner_ok k' q" if "q \<in> insert r (set xs \<union> set ys)" for q
    by (rule runner_ok_grow [OF ok [OF that] ob f(4,5) e(2)])
  have "runner_ok k' r'"
    using ok' [of r] e f(4,5,8) by (auto simp: runner_ok_def nth_append)
  moreover have "n \<notin> set (strategy_names k)"
    using unique_name_free [of "base_name name ob k" "keys (rn_handles r) @ strategy_names k"] f(1) by simp
  then have "n \<notin> set (managed q)" if "q \<in> insert r (set xs \<union> set ys)" for q
    using managed_named [OF ok [OF that]] by blast
  moreover have "length (sh_engines k) \<notin> set (engine_ids q)" if "q \<in> insert r (set xs \<union> set ys)" for q
    using ok [OF that] by (fastforce simp: runner_ok_def)
  moreover have "ob \<notin> snd ` set (rn_handles q)" if "q \<in> insert r (set xs \<union> set ys)" for q
    using ok [OF that] ob by (fastforce simp: runner_ok_def)
  moreover have "mset (handlers_of (sh_bus k') TSignal) =
      mset (map ScopedRisk (concat (map engine_ids (xs @ r' # ys))))"
    using inv by (auto simp: f(2,8) sys_inv_def multiset.map_comp)
  ultimately show ?thesis
    using inv ok' f(3) by (auto simp: sys_inv_def f(8) list_all_iff multiset.map_comp split: if_splits)
qed

section \<open>Releasing\<close>

lemma handlers_after_unsubscribes:
  "mset (handlers_of (fold (\<lambda>i. unsubscribe TSignal (ScopedRisk i)) is b) TSignal) =
     mset (handlers_of b TSignal) - mset (map ScopedRisk is)"
  by (induction "is" arbitrary: b) (simp_all add: handlers_of_unsubscribe)

lemma fold_remove1_keeps: "x \<in> set ys \<Longrightarrow> x \<notin> set xs \<Longrightarrow> x \<in> set (fold remove1 xs ys)"
  by (induction xs arbitrary: ys) (auto simp: in_set_remove1)

lemma distinct_concat_other:
  "distinct (concat (map f (xs @ r # ys))) \<Longrightarrow> q \<in> set xs \<union> set ys \<Longrightarrow> set (f q) \<inter> set (f r) = {}"
  by auto

lemma release_keeps_inv:
  assumes inv: "sys_inv (k, xs @ r # ys)" and rel: "runner_release (k, r) = (k', r')"
  shows "sys_inv (k', xs @ r' # ys)"
proof -
  have ok: "runner_ok k q" if "q \<in> insert r (set xs \<union> set ys)" for q
    using inv that by (auto simp: sys_inv_def list_all_iff)
  have ok': "runner_ok k' q" if q: "q \<in> set xs \<union> set ys" for q
  proof -
    have "distinct (concat (map (\<lambda>r. map snd (rn_handles r)) (xs @ r # ys)))"
      using inv by (simp only: sys_inv_def prod.case)
    from distinct_concat_other [OF this q]
    have apart: "snd ` set (rn_handles q) \<inter> snd ` set (rn_handles r) = {}" by simp
    have "ob \<in> set (fold remove1 (map snd (rn_handles r)) (sh_strategies k)) \<and> sh_names k ob = n"
      if "(n, ob) \<in> set (rn_handles q)" for n ob
    proof -
      have "ob \<in> set (sh_strategies k)" "sh_names k ob = n"
        using ok [of q] q that by (auto simp: runner_ok_def)
      moreover have "ob \<in> snd ` set (rn_handles q)" using that by force
      then have "ob \<notin> set (map snd (rn_handles r))" using apart by auto
      ultimately show ?thesis by (simp add: fold_remove1_keeps del: set_map)
    qed
    moreover have "sh_strategies k' = fold remove1 (map snd (rn_handles r)) (sh_strategies k)"
        "sh_names k' = sh_names k" "sh_engines k' = sh_engines k"
      using rel by (auto simp: runner_release_def Let_def split: if_splits)
    ultimately show ?thesis
      using ok [of q] q by (auto simp: runner_ok_def)
  qed
  show ?thesis
  proof (cases "rn_paused r")
    case True
    then have k: "sh_pause_count k > 0" using inv by (auto simp: sys_inv_def)
    have r': "r' = new_runner" and n: "sh_pause_count k' = sh_pause_count k - 1"
      using rel True by (auto simp: runner_release_def Let_def new_runner_def)
    have "mset (handlers_of (sh_bus k') TSignal) =
        (if sh_pause_count k' = 0 then {#GlobalRisk#} else {#}) +
        (mset (handlers_of (sh_bus k) TSignal) - mset (map ScopedRisk (engine_ids r)))"
      using rel True by (auto simp: runner_release_def Let_def handlers_of_subscribe handlers_after_unsubscribes)
    moreover have "mset (handlers_of (sh_bus k) TSignal) - mset (map ScopedRisk (engine_ids r)) =
        mset (map ScopedRisk (concat (map engine_ids (xs @ r' # ys))))"
      using inv k by (auto simp: sys_inv_def r' new_runner_def multiset.map_comp)
    ultimately have hs: "mset (handlers_of (sh_bus k') TSignal) =
        (if sh_pause_count k' = 0 then {#GlobalRisk#} else {#}) + mset (map ScopedRisk (concat (map engine_ids (xs @ r' # ys))))"
      by simp
    have "distinct (concat (map f (xs @ r' # ys)))" if "distinct (concat (map f (xs @ r # ys)))" "f new_runner = []"
      for f :: "runner \<Rightarrow> 'b list" using that by (auto simp: r')
    note this [of engine_ids] this [of managed] this [of "\<lambda>r. map snd (rn_handles r)"]
    moreover have "length (filter rn_paused (xs @ r' # ys)) \<le> sh_pause_count k'"
    proof -
      have "length (filter rn_paused (xs @ r # ys)) \<le> sh_pause_count k"
        using inv by (simp only: sys_inv_def prod.case)
      then show ?thesis using n True by (simp add: r' new_runner_def)
    qed
    moreover have "list_all (runner_ok k') (xs @ r' # ys)"
      using ok' by (auto simp: list_all_iff r' new_runner_def runner_ok_def)
    ultimately show ?thesis using inv hs by (simp only: sys_inv_def prod.case) (simp add: new_runner_def)
  next
    case False
    then have "rn_risk r = []" "rn_handles r = []" using ok [of r] by (auto simp: runner_ok_def)
    then have "k' = k" "r' = r" using rel False by (auto simp: runner_release_def)
    then show ?thesis using inv by simp
  qed
qed

section \<open>Screening\<close>

definition same_wiring :: "shared \<Rightarrow> shared \<Rightarrow> bool" where
  "same_wiring k k' \<longleftrightarrow>
     sh_bus k' = sh_bus k \<and> sh_strategies k' = sh_strategies k \<and> sh_names k' = sh_names k \<and>
     sh_pause_count k' = sh_pause_count k \<and> map strategy (sh_engines k') = map strategy (sh_engines k) \<and>
     strategy (sh_global k') = strategy (sh_global k)"

lemma on_signal_strategy: "on_signal cx e r = (r', ms) \<Longrightarrow> strategy r' = strategy r"
  by (auto simp: on_signal_def check_signal_def update_breakers_def halt_def Let_def
      split: if_splits option.splits prod.splits)

lemma screen_by_wiring: "screen_by cx e h k = (k', ms) \<Longrightarrow> same_wiring k k'"
proof (cases h)
  case GlobalRisk
  then show "screen_by cx e h k = (k', ms) \<Longrightarrow> same_wiring k k'"
    by (auto simp: same_wiring_def dest: on_signal_strategy split: prod.splits)
next
  case (ScopedRisk i)
  assume s: "screen_by cx e h k = (k', ms)"
  obtain g where g: "on_signal cx e (sh_engines k ! i) = (g, ms)" "k' = k\<lparr>sh_engines := (sh_engines k)[i := g]\<rparr>"
    using s ScopedRisk by (auto split: prod.splits)
  then have "map strategy ((sh_engines k)[i := g]) = map strategy (sh_engines k)"
    by (cases "i < length (sh_engines k)")
       (auto simp: map_update on_signal_strategy list_update_beyond intro!: nth_equalityI simp: nth_list_update)
  then show "same_wiring k k'" using g by (simp add: same_wiring_def)
qed

lemma run_screens_wiring: "run_steps (map (screen_by cx e) hs) k = (k', ms) \<Longrightarrow> same_wiring k k'"
proof (induction hs arbitrary: k k' ms)
  case Nil
  then show ?case by (simp add: same_wiring_def)
next
  case (Cons h hs)
  obtain k1 ms1 ms2 where "screen_by cx e h k = (k1, ms1)" "run_steps (map (screen_by cx e) hs) k1 = (k', ms2)"
    using Cons.prems by (auto split: prod.splits)
  then show ?case using Cons.IH [of k1] screen_by_wiring [of cx e h k k1] by (simp add: same_wiring_def)
qed

lemma runner_ok_wiring:
  assumes "same_wiring k k'" and "runner_ok k r"
  shows "runner_ok k' r"
proof -
  have "length (sh_engines k') = length (sh_engines k)"
    using map_eq_imp_length_eq [of strategy "sh_engines k'" strategy "sh_engines k"] assms(1)
    by (simp add: same_wiring_def)
  moreover have "strategy (sh_engines k' ! i) = strategy (sh_engines k ! i)" if "i < length (sh_engines k)" for i
  proof -
    have "map strategy (sh_engines k') ! i = map strategy (sh_engines k) ! i"
      using assms(1) by (simp only: same_wiring_def)
    then show ?thesis using that calculation by simp
  qed
  moreover have "sh_strategies k' = sh_strategies k" "sh_names k' = sh_names k"
    using assms(1) by (simp_all add: same_wiring_def)
  ultimately show ?thesis using assms(2) by (auto simp: runner_ok_def)
qed

lemma sys_inv_wiring: "sys_inv (k, rs) \<Longrightarrow> same_wiring k k' \<Longrightarrow> sys_inv (k', rs)"
  by (auto simp: sys_inv_def list_all_iff intro: runner_ok_wiring) (auto simp: same_wiring_def)

lemma sys_step_inv: "sys_step s s' \<Longrightarrow> sys_inv s \<Longrightarrow> sys_inv s'"
proof (induction rule: sys_step.induct)
  case (Add j rs ob k cx name kw n k' r')
  then show ?case
    using add_keeps_inv [of k "take j rs" "rs ! j" "drop (Suc j) rs"]
    by (simp add: id_take_nth_drop [symmetric] upd_conv_take_nth_drop)
next
  case (Release j rs k k' r')
  then show ?case
    using release_keeps_inv [of k "take j rs" "rs ! j" "drop (Suc j) rs"]
    by (simp add: id_take_nth_drop [symmetric] upd_conv_take_nth_drop)
next
  case (Signal cx e k k' ms rs)
  then show ?case by (auto simp: screen_signal_def intro: sys_inv_wiring run_screens_wiring)
qed

lemma reachable_inv:
  assumes "fresh_system k n s" and "sys_step\<^sup>*\<^sup>* s s'"
  shows "sys_inv s'"
  using assms(2) by (induction rule: rtranclp_induct) (auto intro: fresh_system_inv [OF assms(1)] sys_step_inv)

section \<open>Answers to a signal\<close>

definition is_answer :: "msg \<Rightarrow> bool" where
  "is_answer m \<longleftrightarrow> msg_type m \<in> {TApproved, TSigRejected}"

definition answers :: "msg list \<Rightarrow> nat" where
  "answers ms = length (filter is_answer ms)"

lemma answers_append [simp]: "answers (ms @ ms') = answers ms + answers ms'"
  by (simp add: answers_def)

definition responds :: "shared \<Rightarrow> string \<Rightarrow> screen \<Rightarrow> bool" where
  "responds k n h \<longleftrightarrow>
     (case (case h of GlobalRisk \<Rightarrow> strategy (sh_global k) | ScopedRisk i \<Rightarrow> strategy (sh_engines k ! i)) of
        None \<Rightarrow> True | Some s \<Rightarrow> n = s)"

lemma on_signal_answers:
  assumes "on_signal cx e r = (r', ms)"
  shows "answers ms = (case strategy r of None \<Rightarrow> 1 | Some s \<Rightarrow> if sg_strategy e = s then 1 else 0)"
proof -
  have "answers ms' = 0" if "update_breakers cx r = (r1, ms')" for r1 ms'
    using that by (auto simp: update_breakers_def halt_def Let_def answers_def is_answer_def
        split: if_splits option.splits)
  then show ?thesis
    using assms by (auto simp: on_signal_def check_signal_def is_answer_def answers_def
        split: if_splits option.splits prod.splits)
qed

lemma screen_by_answers:
  "screen_by cx e h k = (k', ms) \<Longrightarrow> answers ms = (if responds k (sg_strategy e) h then 1 else 0)"
  by (cases h) (auto simp: responds_def dest!: on_signal_answers split: prod.splits option.splits)

lemma responds_wiring:
  assumes "same_wiring k k'" and "\<And>i. h = ScopedRisk i \<Longrightarrow> i < length (sh_engines k)"
  shows "responds k' n h = responds k n h"
proof (cases h)
  case GlobalRisk
  then show ?thesis using assms(1) by (simp add: responds_def same_wiring_def)
next
  case (ScopedRisk i)
  have "map strategy (sh_engines k') ! i = map strategy (sh_engines k) ! i"
    using assms(1) by (simp only: same_wiring_def)
  moreover have "length (sh_engines k') = length (sh_engines k)"
    using map_eq_imp_length_eq [of strategy "sh_engines k'" strategy "sh_engines k"] assms(1)
    by (simp add: same_wiring_def)
  ultimately show ?thesis using assms(2) [OF ScopedRisk] ScopedRisk by (simp add: responds_def)
qed

lemma wiring_length: "same_wiring k k' \<Longrightarrow> length (sh_engines k') = length (sh_engines k)"
  using map_eq_imp_length_eq [of strategy "sh_engines k'" strategy "sh_engines k"]
  by (simp add: same_wiring_def)

lemma run_screens_answers:
  assumes "run_steps (map (screen_by cx e) hs) k = (k', ms)"
    and "\<And>i. ScopedRisk i \<in> set hs \<Longrightarrow> i < length (sh_engines k)"
  shows "answers ms = length (filter (responds k (sg_strategy e)) hs)"
  using assms
proof (induction hs arbitrary: k k' ms)
  case Nil
  then show ?case by (simp add: answers_def)
next
  case (Cons h hs)
  obtain k1 ms1 ms2 where s: "screen_by cx e h k = (k1, ms1)"
    "run_steps (map (screen_by cx e) hs) k1 = (k', ms2)" "ms = ms1 @ ms2"
    using Cons.prems(1) by (auto split: prod.splits)
  note w = screen_by_wiring [OF s(1)]
  have "answers ms2 = length (filter (responds k1 (sg_strategy e)) hs)"
    using Cons.IH [OF s(2)] Cons.prems(2) wiring_length [OF w] by simp
  also have "filter (responds k1 (sg_strategy e)) hs = filter (responds k (sg_strategy e)) hs"
    using Cons.prems(2) by (intro filter_cong refl responds_wiring [OF w]) auto
  finally show ?case using screen_by_answers [OF s(1)] s(3) by simp
qed

section \<open>Properties\<close>

lemma one_engine_per_name:
  assumes "distinct (map fst zs)" and "\<forall>(n, i) \<in> set zs. f i = Some n" and "m \<in> set (map fst zs)"
  shows "length (filter (\<lambda>i. f i = Some m) (map snd zs)) = 1"
  using assms
proof (induction zs)
  case Nil
  then show ?case by simp
next
  case (Cons z zs)
  obtain n i where z: "z = (n, i)" by force
  show ?case
  proof (cases "m = n")
    case True
    have "filter (\<lambda>i. f i = Some m) (map snd zs) = []"
      using Cons.prems True z by (force simp: filter_empty_conv)
    then show ?thesis using Cons.prems True z by simp
  next
    case False
    then show ?thesis using Cons z by simp
  qed
qed

text \<open>C5: Whatever any number of runners on a kernel have added and released, a signal of a strategy one of them
  manages is answered (approved or rejected) exactly once.\<close>

theorem managed_signal_screened_once:
  assumes "fresh_system k0 n s" and "sys_step\<^sup>*\<^sup>* s (k, rs)"
    and "r \<in> set rs" and "sg_strategy e \<in> set (managed r)"
    and "screen_signal cx e k = (k', ms)"
  shows "answers ms = 1"
proof -
  have inv: "sys_inv (k, rs)" by (rule reachable_inv [OF assms(1,2)])
  have ok: "list_all (runner_ok k) rs" using inv by (simp add: sys_inv_def)
  define zs where "zs = concat (map rn_risk rs)"
  have ids: "concat (map engine_ids rs) = map snd zs" and names: "concat (map managed rs) = map fst zs"
    by (simp_all add: zs_def map_concat comp_def)
  have z: "\<forall>(n, i) \<in> set zs. strategy (sh_engines k ! i) = Some n" "\<forall>(n, i) \<in> set zs. i < length (sh_engines k)"
    using ok by (fastforce simp: zs_def list_all_iff runner_ok_def)+
  have "rn_paused r" using ok assms(3,4) by (auto simp: list_all_iff runner_ok_def)
  then have "length (filter rn_paused rs) > 0" using assms(3) by (auto simp: filter_empty_conv)
  moreover have "length (filter rn_paused rs) \<le> sh_pause_count k" using inv by (simp add: sys_inv_def)
  ultimately have "sh_pause_count k \<noteq> 0" by linarith
  then have hs: "mset (handlers_of (sh_bus k) TSignal) = mset (map ScopedRisk (map snd zs))"
    using inv by (simp add: sys_inv_def ids multiset.map_comp)
  then have set_hs: "set (handlers_of (sh_bus k) TSignal) = set (map ScopedRisk (map snd zs))"
    by (rule mset_eq_setD)
  have "answers ms = length (filter (responds k (sg_strategy e)) (handlers_of (sh_bus k) TSignal))"
    using z(2) set_hs by (intro run_screens_answers [OF assms(5) [unfolded screen_signal_def]]) auto
  also have "\<dots> = length (filter (responds k (sg_strategy e)) (map ScopedRisk (map snd zs)))"
    using arg_cong [OF hs, of "\<lambda>M. size (filter_mset (responds k (sg_strategy e)) M)"]
    by (simp only: mset_filter size_mset flip: mset_filter)
  also have "\<dots> = length (filter (\<lambda>i. strategy (sh_engines k ! i) = Some (sg_strategy e)) (map snd zs))"
  proof -
    have "filter (responds k (sg_strategy e) \<circ> ScopedRisk) (map snd zs) =
        filter (\<lambda>i. strategy (sh_engines k ! i) = Some (sg_strategy e)) (map snd zs)"
      using z(1) by (intro filter_cong refl) (auto simp: responds_def)
    then show ?thesis by (simp only: filter_map length_map comp_assoc)
  qed
  also have "\<dots> = 1"
    using inv z(1) assms(3,4)
    by (intro one_engine_per_name) (auto simp: sys_inv_def names simp flip: names)
  finally show ?thesis .
qed

definition add_all ::
  "risk_ctx \<Rightarrow> (nat \<times> string option \<times> risk_kwargs) list \<Rightarrow> shared \<times> runner \<Rightarrow> shared \<times> runner" where
  "add_all cx xs kr = fold (\<lambda>(ob, name, kw) kr. snd (runner_add cx ob name kw kr)) xs kr"

lemma runner_add_pauses:
  assumes "runner_add cx ob name kw (k, r) = (n, k', r')"
  shows "sh_pause_count k' = Suc (sh_pause_count k) \<and> rn_paused r' \<and>
    (GlobalRisk \<in> set (handlers_of (sh_bus k') TSignal) \<longleftrightarrow>
       (if sh_pause_count k = 0 then GlobalRisk \<in> set (remove1 GlobalRisk (handlers_of (sh_bus k) TSignal))
        else GlobalRisk \<in> set (handlers_of (sh_bus k) TSignal)))"
  using assms
  by (auto simp: runner_add_def pause_global_risk_def add_engine_def Let_def handlers_of_subscribe
      handlers_of_unsubscribe)

lemma add_all_pauses:
  assumes "add_all cx xs (k, r) = (k', r')" and "sh_pause_count k > 0" and "rn_paused r"
    and "GlobalRisk \<notin> set (handlers_of (sh_bus k) TSignal)"
  shows "sh_pause_count k' = sh_pause_count k + length xs \<and> rn_paused r' \<and>
    GlobalRisk \<notin> set (handlers_of (sh_bus k') TSignal)"
  using assms
proof (induction xs arbitrary: k r)
  case Nil
  then show ?case by (simp add: add_all_def)
next
  case (Cons x xs)
  obtain ob name kw where x: "x = (ob, name, kw)" by (cases x) auto
  obtain n k1 r1 where a: "runner_add cx ob name kw (k, r) = (n, k1, r1)" by (metis prod_cases3)
  have "add_all cx xs (k1, r1) = (k', r')" using Cons.prems(1) a x by (simp add: add_all_def)
  from Cons.IH [OF this] show ?case
    using runner_add_pauses [OF a] Cons.prems(2-4) by auto
qed

lemma release_global:
  assumes "runner_release (k, r) = (k', r')" and "rn_paused r"
    and "GlobalRisk \<notin> set (handlers_of (sh_bus k) TSignal)"
  shows "GlobalRisk \<in> set (handlers_of (sh_bus k') TSignal) \<longleftrightarrow> sh_pause_count k \<le> 1"
proof -
  have "set_mset (mset (handlers_of (fold (\<lambda>i. unsubscribe TSignal (ScopedRisk i)) (engine_ids r) (sh_bus k)) TSignal)) \<subseteq>
      set (handlers_of (sh_bus k) TSignal)"
    unfolding handlers_after_unsubscribes by (auto dest: in_diffD)
  moreover have "handlers_of (sh_bus k') TSignal =
      handlers_of (fold (\<lambda>i. unsubscribe TSignal (ScopedRisk i)) (engine_ids r) (sh_bus k)) TSignal @
      (if sh_pause_count k \<le> 1 then [GlobalRisk] else [])"
    using assms(1,2) by (auto simp: runner_release_def Let_def handlers_of_subscribe)
  ultimately show ?thesis using assms(3) by auto
qed

text \<open>A runner gives the kernel's risk engine back only if it added a single strategy: each addition raises the
  pause count, a release lowers it by one.\<close>

theorem release_restores_only_single:
  assumes "handlers_of (sh_bus k) TSignal = [GlobalRisk]" and "sh_pause_count k = 0" and "xs \<noteq> []"
    and "runner_release (add_all cx xs (k, new_runner)) = (k', r')"
  shows "GlobalRisk \<in> set (handlers_of (sh_bus k') TSignal) \<longleftrightarrow> length xs = 1"
proof -
  obtain ob name kw ys where x: "xs = (ob, name, kw) # ys" using assms(3) by (cases xs) auto
  obtain n k1 r1 where a: "runner_add cx ob name kw (k, new_runner) = (n, k1, r1)" by (metis prod_cases3)
  have k1: "sh_pause_count k1 = 1" "rn_paused r1" "GlobalRisk \<notin> set (handlers_of (sh_bus k1) TSignal)"
    using runner_add_pauses [OF a] assms(1,2) by auto
  obtain k2 r2 where b: "add_all cx ys (k1, r1) = (k2, r2)" by force
  have "runner_release (k2, r2) = (k', r')" using assms(4) a b x by (simp add: add_all_def)
  from release_global [OF this] show ?thesis
    using add_all_pauses [OF b] k1 x by auto
qed

section \<open>Witnesses\<close>

definition ex_shared :: shared where
  "ex_shared = \<lparr>sh_bus = subscribe TSignal GlobalRisk (new_bus 10000 None ()), sh_global = risk_500, sh_engines = [],
     sh_strategies = [], sh_names = (\<lambda>_. ''orb''), sh_enabled = (\<lambda>_. True), sh_pause_count = 0\<rparr>"

definition no_limits :: risk_kwargs where
  "no_limits = \<lparr>rk_max_quantity = None, rk_max_notional = None, rk_max_positions = None, rk_allowlist = None,
     rk_max_daily_loss = None, rk_max_drawdown_pct = None, rk_price_deviation_pct = None\<rparr>"

lemma ex_shared_bus: "handlers_of (sh_bus ex_shared) TSignal = [GlobalRisk]" "sh_pause_count ex_shared = 0"
  by (simp_all add: ex_shared_def handlers_of_subscribe) (simp add: handlers_of_def new_bus_def get_default_def)

theorem managed_signal_screened_once_witness:
  "\<exists>n k r k' ms. runner_add flat_ctx 7 None no_limits (ex_shared, new_runner) = (n, k, r) \<and> n = ''orb'' \<and>
     screen_signal flat_ctx buy_50 k = (k', ms) \<and> answers ms = 1"
proof -
  obtain n k r where a: "runner_add flat_ctx 7 None no_limits (ex_shared, new_runner) = (n, k, r)"
    by (metis prod_cases3)
  note f = runner_add_fields [OF a]
  have n: "n = ''orb''"
    using f(1) by (simp add: new_runner_def unique_name_def base_name_def strategy_names_def ex_shared_def)
  obtain k' ms where s: "screen_signal flat_ctx buy_50 k = (k', ms)" by force
  have "sys_step (ex_shared, [new_runner]) (k, [new_runner][0 := r])"
    by (rule sys_step.Add [where cx = flat_ctx and ob = 7 and name = None and kw = no_limits and n = n])
       (use a in simp_all, simp add: ex_shared_def)
  then have "sys_step\<^sup>*\<^sup>* (ex_shared, [new_runner]) (k, [r])" by auto
  moreover have "fresh_system ex_shared 1 (ex_shared, [new_runner])"
    by (simp add: fresh_system_def ex_shared_bus)
  moreover have "sg_strategy buy_50 \<in> set (managed r)"
    using f(8) n by (simp add: new_runner_def buy_50_def)
  ultimately have "answers ms = 1"
    using managed_signal_screened_once [OF _ _ _ _ s, of ex_shared 1 "(ex_shared, [new_runner])" "[r]" r] by simp
  then show ?thesis using a n s by blast
qed

theorem release_restores_only_single_witness:
  "GlobalRisk \<notin> set (handlers_of (sh_bus (fst (runner_release
     (add_all flat_ctx [(0, None, no_limits), (1, None, no_limits)] (ex_shared, new_runner))))) TSignal)"
proof -
  define kr where "kr = runner_release (add_all flat_ctx [(0, None, no_limits), (1, None, no_limits)] (ex_shared, new_runner))"
  have "runner_release (add_all flat_ctx [(0, None, no_limits), (1, None, no_limits)] (ex_shared, new_runner)) = (fst kr, snd kr)"
    by (simp add: kr_def)
  from release_restores_only_single [OF ex_shared_bus _ this] show ?thesis by (simp add: kr_def)
qed

end
