(* ===== verification/LiveRunner.thy ===== *)
theory LiveRunner
  imports BrokerExec PositionSync
begin

text \<open>
  \<open>ntrade/runner/live_runner.py\<close> (\<open>LiveRunner\<close>): the loop of the live trading day, over the risk
  engine of \<open>Risk\<close>, the broker execution of \<open>BrokerExec\<close>, the reconciliation of \<open>PositionSync\<close> and the
  ledger of \<open>Portfolio\<close>.

  What a call of \<open>step\<close> reads from outside (the clocks, the instruments with their streams, the
  broker's answers) is the record \<open>live_env\<close>; \<open>le_kill\<close> says for an action and a symbol whether
  \<open>kill_switch\<close> goes through (\<open>False\<close>: it raises).  The timer is read three times in a step.  The
  calls of the kill switch are kept in \<open>lr_kill_calls\<close>.  An event is handled while it is being
  published: a \<open>RiskHaltedEvent\<close> by the runner itself, a fill by the portfolio engine.  Strategies are
  outside this theory.  \<open>le_outside\<close> holds the risk events that others than the kernel's risk engine
  publish during a step, by the part of the step in which they do: the bus itself halts when it has
  counted as many handler errors as its limit, and the risk engine of a single strategy halts and
  resumes on its own.  Each list is handled at the end of its part.

  The lemmas show when the runner's halt flag agrees with the risk engine's, that halting activates
  the kill switch of every broker-backed instrument and opens the circuit of the execution, that a
  halted runner does no broker call, and that the broker is polled no more often than configured.
  They also show that a halt by the bus cannot be lifted and does not stop the approval of signals,
  that a full tick buffer makes a healthy feed look frozen, and that a resumption leaves the
  execution's circuit killed.
\<close>

section \<open>State\<close>

datatype kill_action = ACTIVATE | DEACTIVATE

record live_env =
  le_t :: real
  le_t_watchdog :: real
  le_t_heartbeat :: real
  le_now :: datetime
  le_instruments :: instruments
  le_reports_cash :: bool
  le_positions :: "py_error + position list option"
  le_balance :: "py_error + real option"
  le_kill :: "kill_action \<Rightarrow> string \<Rightarrow> bool"
  le_outside :: "nat \<Rightarrow> msg list"

record 'b live =
  lr_poll_interval :: real
  lr_sync_interval :: real
  lr_watchdog_timeout :: real
  lr_heartbeat_interval :: real
  lr_cancel_on_stop :: bool
  lr_polls :: nat
  lr_syncs :: nat
  lr_started :: bool
  lr_halted :: bool
  lr_kill_switched :: bool
  lr_kill_switch_failed :: bool
  lr_last_poll :: real
  lr_last_sync :: real
  lr_last_tick_count :: nat
  lr_watchdog_missed :: nat
  lr_last_tick_ts :: "real option"
  lr_last_heartbeat :: real
  lr_risk :: risk_engine
  lr_ledger :: ledger
  lr_exec :: "'b broker_exec option"
  lr_kill_calls :: "(kill_action \<times> string \<times> bool) list"

definition new_live :: "real \<Rightarrow> real \<Rightarrow> real \<Rightarrow> bool \<Rightarrow> risk_engine \<Rightarrow> ledger \<Rightarrow> 'b broker_exec option \<Rightarrow> 'b live" where
  "new_live poll_iv sync_iv watchdog cancel risk led ex =
     \<lparr>lr_poll_interval = poll_iv, lr_sync_interval = sync_iv, lr_watchdog_timeout = watchdog,
      lr_heartbeat_interval = 30, lr_cancel_on_stop = cancel, lr_polls = 0, lr_syncs = 0, lr_started = False,
      lr_halted = False, lr_kill_switched = False, lr_kill_switch_failed = False, lr_last_poll = 0,
      lr_last_sync = 0, lr_last_tick_count = 0, lr_watchdog_missed = 0, lr_last_tick_ts = None,
      lr_last_heartbeat = 0, lr_risk = risk, lr_ledger = led, lr_exec = ex, lr_kill_calls = []\<rparr>"

definition live_exec_ctx :: "live_env \<Rightarrow> exec_ctx" where
  "live_exec_ctx env = \<lparr>xc_instruments = le_instruments env, xc_now = le_now env, xc_mono = le_t env\<rparr>"

definition live_risk_ctx :: "live_env \<Rightarrow> 'b live \<Rightarrow> risk_ctx" where
  "live_risk_ctx env s = \<lparr>rx_ledger = lr_ledger s, rx_instruments = le_instruments env, rx_now = le_now env\<rparr>"

section \<open>Kill switch\<close>

definition kill_one :: "live_env \<Rightarrow> instrument \<Rightarrow> 'b live \<Rightarrow> 'b live" where
  "kill_one env ins s =
     (if \<not> i_broker ins then s
      else if le_kill env ACTIVATE (i_symbol ins)
      then s\<lparr>lr_kill_switched := True, lr_kill_calls := lr_kill_calls s @ [(ACTIVATE, i_symbol ins, True)]\<rparr>
      else s\<lparr>lr_kill_switch_failed := True, lr_kill_calls := lr_kill_calls s @ [(ACTIVATE, i_symbol ins, False)]\<rparr>)"

definition on_risk_halted :: "'b adapter \<Rightarrow> live_env \<Rightarrow> 'b live \<Rightarrow> 'b live" where
  "on_risk_halted ad env s =
     (let s = fold (\<lambda>(_, ins). kill_one env ins) (le_instruments env) (s\<lparr>lr_halted := True\<rparr>)
      in s\<lparr>lr_exec := map_option (trip_kill_switch ad (live_exec_ctx env)) (lr_exec s)\<rparr>)"

definition unkill_one :: "live_env \<Rightarrow> instrument \<Rightarrow> bool \<times> 'b live \<Rightarrow> bool \<times> 'b live" where
  "unkill_one env ins oks =
     (case oks of (ok, s) \<Rightarrow>
        if \<not> i_broker ins then (ok, s)
        else if le_kill env DEACTIVATE (i_symbol ins)
        then (ok, s\<lparr>lr_kill_calls := lr_kill_calls s @ [(DEACTIVATE, i_symbol ins, True)]\<rparr>)
        else (False, s\<lparr>lr_kill_switch_failed := True,
                       lr_kill_calls := lr_kill_calls s @ [(DEACTIVATE, i_symbol ins, False)]\<rparr>))"

definition on_risk_resumed :: "live_env \<Rightarrow> 'b live \<Rightarrow> 'b live" where
  "on_risk_resumed env s =
     (let s = s\<lparr>lr_halted := False\<rparr>
      in if \<not> lr_kill_switched s then s
         else (case fold (\<lambda>(_, ins). unkill_one env ins) (le_instruments env) (True, s) of
                 (ok, s) \<Rightarrow> if ok then s\<lparr>lr_kill_switched := False\<rparr> else s))"

text \<open>The dispatch of what a risk engine published: the runner's two handlers.\<close>

fun live_react :: "'b adapter \<Rightarrow> live_env \<Rightarrow> msg \<Rightarrow> 'b live \<Rightarrow> 'b live" where
  "live_react ad env (RiskHaltedEvent _) s = on_risk_halted ad env s"
| "live_react ad env (RiskResumedEvent _ _) s = on_risk_resumed env s"
| "live_react ad env _ s = s"

definition live_dispatch :: "'b adapter \<Rightarrow> live_env \<Rightarrow> msg list \<Rightarrow> 'b live \<Rightarrow> 'b live" where
  "live_dispatch ad env ms s = fold (live_react ad env) ms s"

definition halt_risk :: "'b adapter \<Rightarrow> live_env \<Rightarrow> string \<Rightarrow> 'b live \<Rightarrow> 'b live \<times> msg list" where
  "halt_risk ad env reason s =
     (case halt (live_risk_ctx env s) reason (lr_risk s) of
        (r, ms) \<Rightarrow> (live_dispatch ad env ms (s\<lparr>lr_risk := r\<rparr>), ms))"

definition on_feed_disconnected :: "'b adapter \<Rightarrow> live_env \<Rightarrow> string \<Rightarrow> 'b live \<Rightarrow> 'b live \<times> msg list" where
  "on_feed_disconnected ad env reason = halt_risk ad env (''feed disconnected: '' @ reason)"

definition evaluate_risk :: "'b adapter \<Rightarrow> live_env \<Rightarrow> 'b live \<Rightarrow> 'b live \<times> msg list" where
  "evaluate_risk ad env s =
     (case risk_check (live_risk_ctx env s) (lr_risk s) of
        (_, r, ms) \<Rightarrow> (live_dispatch ad env ms (s\<lparr>lr_risk := r\<rparr>), ms))"

definition live_resume :: "'b adapter \<Rightarrow> live_env \<Rightarrow> 'b live \<Rightarrow> 'b live \<times> msg list" where
  "live_resume ad env s =
     (case resume (live_risk_ctx env s) (lr_risk s) of
        (r, ms) \<Rightarrow> (live_dispatch ad env ms (s\<lparr>lr_risk := r\<rparr>), ms))"

section \<open>The loop\<close>

definition reconcile_orphans :: "'b adapter \<Rightarrow> live_env \<Rightarrow> 'b live \<Rightarrow> 'b live" where
  "reconcile_orphans ad env s =
     s\<lparr>lr_exec := map_option (\<lambda>x. snd (reconcile_open ad (live_exec_ctx env) x)) (lr_exec s)\<rparr>"

fun book_fill :: "msg \<Rightarrow> ledger \<Rightarrow> ledger" where
  "book_fill (OrderFilledEvent f) l = fst (on_filled f l)"
| "book_fill _ l = l"

definition poll_orders :: "'b adapter \<Rightarrow> live_env \<Rightarrow> 'b live \<Rightarrow> 'b live \<times> msg list" where
  "poll_orders ad env s =
     (case lr_exec s of
        None \<Rightarrow> (s, [])
      | Some x \<Rightarrow>
          (case poll ad (live_exec_ctx env) x of
             (x', ms) \<Rightarrow> (s\<lparr>lr_exec := Some x', lr_ledger := fold book_fill ms (lr_ledger s)\<rparr>, ms)))"

definition poll_if_due :: "'b adapter \<Rightarrow> live_env \<Rightarrow> 'b live \<Rightarrow> 'b live \<times> msg list" where
  "poll_if_due ad env s =
     (if le_t env - lr_last_poll s \<ge> lr_poll_interval s
      then (case poll_orders ad env s of
              (s, ms) \<Rightarrow>
                (let s = reconcile_orphans ad env s
                 in (s\<lparr>lr_polls := Suc (lr_polls s), lr_last_poll := le_t env\<rparr>, ms)))
      else (s, []))"

text \<open>Reconciliation re-bases the risk engine's baseline; without a broker nothing is fetched.\<close>

definition sync_if_due :: "live_env \<Rightarrow> 'b live \<Rightarrow> 'b live \<times> msg list" where
  "sync_if_due env s =
     (if le_t env - lr_last_sync s \<ge> lr_sync_interval s
      then (case (if lr_exec s = None then (0, (lr_ledger s, Some (lr_risk s)), [])
                  else sync (le_now env) (le_reports_cash env) (le_positions env) (le_balance env)
                         (lr_ledger s, Some (lr_risk s))) of
              (_, (led, risk), ms) \<Rightarrow>
                (s\<lparr>lr_ledger := led, lr_risk := some_or risk (lr_risk s), lr_syncs := Suc (lr_syncs s),
                   lr_last_sync := le_t env\<rparr>, ms))
      else (s, []))"

definition total_ticks :: "instruments \<Rightarrow> nat" where
  "total_ticks is = (\<Sum>(_, ins)\<leftarrow>is. tick_count ins)"

definition frozen_reason :: "real \<Rightarrow> string" where
  "frozen_reason stalled = ''feed watchdog: frozen feed (no new ticks for '' @ fmt_fixed 0 stalled @ ''s)''"

definition check_feed_watchdog :: "'b adapter \<Rightarrow> live_env \<Rightarrow> 'b live \<Rightarrow> 'b live \<times> msg list" where
  "check_feed_watchdog ad env s =
     (let total = total_ticks (le_instruments env); t = le_t_watchdog env;
          last = some_or (lr_last_tick_ts s) t;
          s = s\<lparr>lr_last_tick_ts := Some last\<rparr>;
          (s, ms) = (if total > lr_last_tick_count s
                     then (s\<lparr>lr_watchdog_missed := 0, lr_last_tick_ts := Some t\<rparr>, [])
                     else (let s = s\<lparr>lr_watchdog_missed := Suc (lr_watchdog_missed s)\<rparr>; stalled = t - last
                           in if stalled \<ge> lr_watchdog_timeout s
                              then halt_risk ad env (frozen_reason stalled) s
                              else (s, [])))
      in (s\<lparr>lr_last_tick_count := total\<rparr>, ms))"

definition live_open_orders :: "'b live \<Rightarrow> string list" where
  "live_open_orders s = (case lr_exec s of None \<Rightarrow> [] | Some x \<Rightarrow> keys (bx_open x))"

definition emit_heartbeat_if_due :: "live_env \<Rightarrow> 'b live \<Rightarrow> 'b live \<times> msg list" where
  "emit_heartbeat_if_due env s =
     (if le_t_heartbeat env - lr_last_heartbeat s \<ge> lr_heartbeat_interval s
      then (s\<lparr>lr_last_heartbeat := le_t_heartbeat env\<rparr>,
            [HeartbeatEvent (le_now env) (int (total_ticks (le_instruments env))) (int (length (live_open_orders s)))])
      else (s, []))"

text \<open>The events of others in part \<open>k\<close> of the step.\<close>

definition outside :: "'b adapter \<Rightarrow> live_env \<Rightarrow> nat \<Rightarrow> 'b live \<Rightarrow> 'b live \<times> msg list" where
  "outside ad env k s = (live_dispatch ad env (le_outside env k) s, le_outside env k)"

definition live_step :: "'b adapter \<Rightarrow> live_env \<Rightarrow> 'b live \<Rightarrow> py_error + 'b live \<times> msg list" where
  "live_step ad env s =
     (if \<not> lr_started s then Inl (RuntimeError ''LiveRunner.start() must be called before step()'')
      else (case run_steps [evaluate_risk ad env, outside ad env 0] s of (s, ms) \<Rightarrow>
              if lr_halted s then Inr (s, ms)
              else (case run_steps [poll_if_due ad env, outside ad env 1, sync_if_due env, outside ad env 2,
                                    check_feed_watchdog ad env, outside ad env 3,
                                    emit_heartbeat_if_due env, outside ad env 4] s of
                      (s, ms') \<Rightarrow> Inr (s, ms @ ms'))))"

section \<open>Start and stop\<close>

text \<open>\<open>ready\<close> is the answer of the feed's \<open>wait_ready\<close> (\<open>None\<close>: it has none).  The kernel's own start and
  stop, which these operations call, are those of \<open>Kernel\<close>.\<close>

definition live_start :: "live_env \<Rightarrow> bool option \<Rightarrow> 'b live \<Rightarrow> 'b live \<times> msg list" where
  "live_start env ready s =
     (if lr_started s then (s, [])
      else if ready = Some False then (s, [RunnerStoppedEvent (le_now env) ''feed warmup failed''])
      else (s\<lparr>lr_started := True, lr_last_tick_ts := Some (le_t env)\<rparr>, [RunnerStartedEvent (le_now env)]))"

definition cancel_resting_orders :: "'b adapter \<Rightarrow> 'b live \<Rightarrow> 'b live" where
  "cancel_resting_orders ad s =
     (if \<not> lr_cancel_on_stop s then s
      else s\<lparr>lr_exec := map_option (fold (\<lambda>oid x. snd (exec_cancel ad oid x)) (live_open_orders s)) (lr_exec s)\<rparr>)"

definition live_stop :: "'b adapter \<Rightarrow> live_env \<Rightarrow> string \<Rightarrow> 'b live \<Rightarrow> 'b live \<times> msg list" where
  "live_stop ad env reason s =
     (if \<not> lr_started s then (s, [])
      else ((cancel_resting_orders ad s)\<lparr>lr_started := False\<rparr>, [RunnerStoppedEvent (le_now env) reason]))"

text \<open>\<open>run\<close>: one environment and one reading of the timer per iteration; the target is the duration.\<close>

fun live_run :: "'b adapter \<Rightarrow> real option \<Rightarrow> real \<Rightarrow> (live_env \<times> real) list \<Rightarrow> 'b live \<Rightarrow> (py_error + 'b live \<times> msg list) option" where
  "live_run ad target start_t [] s = (if lr_started s then None else Some (Inr (s, [])))"
| "live_run ad target start_t ((env, t) # es) s =
     (if \<not> lr_started s then Some (Inr (s, []))
      else (case live_step ad env s of
              Inl e \<Rightarrow> Some (Inl e)
            | Inr (s, ms) \<Rightarrow>
                if (case target of None \<Rightarrow> False | Some d \<Rightarrow> t - start_t \<ge> d)
                then (if lr_started s then (case live_stop ad env [] s of (s, ms') \<Rightarrow> Some (Inr (s, ms @ ms'))) else Some (Inr (s, ms)))
                else map_option (map_sum id (\<lambda>(s, ms'). (s, ms @ ms'))) (live_run ad target start_t es s)))"

section \<open>Effects of the kill switch\<close>

definition broker_symbols :: "instruments \<Rightarrow> string list" where
  "broker_symbols is = map i_symbol (filter i_broker (map snd is))"

definition kill_calls :: "kill_action \<Rightarrow> live_env \<Rightarrow> (kill_action \<times> string \<times> bool) list" where
  "kill_calls a env = map (\<lambda>sy. (a, sy, le_kill env a sy)) (broker_symbols (le_instruments env))"

text \<open>What a handler of the risk events leaves as it is.\<close>

definition same_business :: "'b live \<Rightarrow> 'b live \<Rightarrow> bool" where
  "same_business s s' \<longleftrightarrow>
     lr_halted s' = lr_halted s \<and> lr_risk s' = lr_risk s \<and> lr_exec s' = lr_exec s \<and> lr_ledger s' = lr_ledger s \<and>
     lr_started s' = lr_started s \<and> lr_polls s' = lr_polls s \<and> lr_last_poll s' = lr_last_poll s \<and>
     lr_poll_interval s' = lr_poll_interval s"

lemma same_business_refl [simp]: "same_business s s"
  by (simp add: same_business_def)

lemma same_business_trans: "same_business s s' \<Longrightarrow> same_business s' s'' \<Longrightarrow> same_business s s''"
  by (simp add: same_business_def)

lemma kill_one_effect:
  "same_business s (kill_one env ins s)"
  "lr_kill_calls (kill_one env ins s) =
     lr_kill_calls s @ (if i_broker ins then [(ACTIVATE, i_symbol ins, le_kill env ACTIVATE (i_symbol ins))] else [])"
  by (simp_all add: kill_one_def same_business_def)

lemma unkill_one_effect: "same_business (snd oks) (snd (unkill_one env ins oks))"
  by (simp add: unkill_one_def same_business_def split: prod.splits)

lemma kill_fold: "same_business s (fold (\<lambda>(_, ins). kill_one env ins) is s)"
proof (induction "is" arbitrary: s)
  case (Cons x "is")
  have "same_business s (kill_one env (snd x) s)" by (rule kill_one_effect)
  from same_business_trans [OF this Cons.IH] show ?case by (simp add: case_prod_beta)
qed simp

lemma kill_fold_calls:
  "lr_kill_calls (fold (\<lambda>(_, ins). kill_one env ins) is s) =
     lr_kill_calls s @ map (\<lambda>sy. (ACTIVATE, sy, le_kill env ACTIVATE sy)) (broker_symbols is)"
  by (induction "is" arbitrary: s) (simp_all add: case_prod_beta kill_one_effect broker_symbols_def)

lemma unkill_fold: "same_business (snd oks) (snd (fold (\<lambda>(_, ins). unkill_one env ins) is oks))"
proof (induction "is" arbitrary: oks)
  case (Cons x "is")
  have "same_business (snd oks) (snd (unkill_one env (snd x) oks))" by (rule unkill_one_effect)
  from same_business_trans [OF this Cons.IH] show ?case by (simp add: case_prod_beta)
qed simp

lemma on_risk_halted_fields [simp]:
  "lr_halted (on_risk_halted ad env s)" "lr_risk (on_risk_halted ad env s) = lr_risk s"
  "lr_exec (on_risk_halted ad env s) = map_option (trip_kill_switch ad (live_exec_ctx env)) (lr_exec s)"
  "lr_kill_calls (on_risk_halted ad env s) = lr_kill_calls s @ kill_calls ACTIVATE env"
  "lr_ledger (on_risk_halted ad env s) = lr_ledger s"
  "lr_started (on_risk_halted ad env s) = lr_started s" "lr_polls (on_risk_halted ad env s) = lr_polls s"
  "lr_last_poll (on_risk_halted ad env s) = lr_last_poll s"
  "lr_poll_interval (on_risk_halted ad env s) = lr_poll_interval s"
  using kill_fold [of "s\<lparr>lr_halted := True\<rparr>" env "le_instruments env"]
  by (simp_all add: on_risk_halted_def Let_def kill_calls_def kill_fold_calls same_business_def)

lemma on_risk_resumed_fields [simp]:
  "\<not> lr_halted (on_risk_resumed env s)" "lr_risk (on_risk_resumed env s) = lr_risk s"
  "lr_exec (on_risk_resumed env s) = lr_exec s"
  "lr_started (on_risk_resumed env s) = lr_started s" "lr_polls (on_risk_resumed env s) = lr_polls s"
  "lr_last_poll (on_risk_resumed env s) = lr_last_poll s"
  "lr_poll_interval (on_risk_resumed env s) = lr_poll_interval s"
  using unkill_fold [of "(True, s\<lparr>lr_halted := False\<rparr>)" env "le_instruments env"]
  by (simp_all add: on_risk_resumed_def Let_def same_business_def case_prod_beta)

lemma live_dispatch_simps [simp]:
  "live_dispatch ad env [] s = s"
  "live_dispatch ad env (m # ms) s = live_dispatch ad env ms (live_react ad env m s)"
  by (simp_all add: live_dispatch_def)

lemma live_react_fields:
  "lr_risk (live_react ad env m s) = lr_risk s"
  "lr_started (live_react ad env m s) = lr_started s" "lr_polls (live_react ad env m s) = lr_polls s"
  "lr_last_poll (live_react ad env m s) = lr_last_poll s"
  "lr_poll_interval (live_react ad env m s) = lr_poll_interval s"
  by (cases m; simp)+

lemma live_dispatch_fields [simp]:
  "lr_risk (live_dispatch ad env ms s) = lr_risk s"
  "lr_started (live_dispatch ad env ms s) = lr_started s" "lr_polls (live_dispatch ad env ms s) = lr_polls s"
  "lr_last_poll (live_dispatch ad env ms s) = lr_last_poll s"
  "lr_poll_interval (live_dispatch ad env ms s) = lr_poll_interval s"
  by (induction ms arbitrary: s) (simp_all add: live_react_fields)

section \<open>The runner and the risk engine agree\<close>

fun is_resumed :: "msg \<Rightarrow> bool" where
  "is_resumed (RiskResumedEvent _ _) = True"
| "is_resumed _ = False"

fun risk_news :: "msg \<Rightarrow> bool" where
  "risk_news (RiskHaltedEvent _) = True"
| "risk_news m = is_resumed m"

text \<open>The two degrees of agreement, and the events of others under which they last: with no risk
  events of others the flags are equal; if others halt but never resume, the runner is halted
  whenever the risk engine is.\<close>

definition agree :: "bool \<Rightarrow> 'b live \<Rightarrow> bool" where
  "agree strict s \<longleftrightarrow> (if strict then lr_halted s = halted (lr_risk s) else halted (lr_risk s) \<longrightarrow> lr_halted s)"

definition harmless :: "bool \<Rightarrow> msg \<Rightarrow> bool" where
  "harmless strict m \<longleftrightarrow> (if strict then \<not> risk_news m else \<not> is_resumed m)"

lemma live_react_agree: "harmless strict m \<Longrightarrow> agree strict s \<Longrightarrow> agree strict (live_react ad env m s)"
  by (cases m) (auto simp: harmless_def agree_def split: if_splits)

lemma live_dispatch_agree:
  "list_all (harmless strict) ms \<Longrightarrow> agree strict s \<Longrightarrow> agree strict (live_dispatch ad env ms s)"
  by (induction ms arbitrary: s) (auto intro: live_react_agree)

lemma live_dispatch_quiet: "list_all (harmless True) ms \<Longrightarrow> live_dispatch ad env ms s = s"
proof (induction ms arbitrary: s)
  case (Cons m ms)
  then have "live_react ad env m s = s" by (cases m) (auto simp: harmless_def)
  with Cons show ?case by simp
qed simp

lemma halt_cases:
  obtains "halted r" "halt cx reason r = (r, [])"
  | r' e where "\<not> halted r" "halted r'" "halt cx reason r = (r', [RiskHaltedEvent e])"
proof (cases "halted r")
  case True
  then show ?thesis using that(1) by (simp add: halt_def)
next
  case False
  then show ?thesis using that(2) [of "r\<lparr>halted := True, halt_reason := reason\<rparr>"] by (simp add: halt_def)
qed

lemma breakers_cases:
  obtains r' where "update_breakers cx r = (r', [])" "halted r' = halted r"
  | r' e where "\<not> halted r" "halted r'" "update_breakers cx r = (r', [RiskHaltedEvent e])"
proof (cases "halted r")
  case True
  then show ?thesis using that(1) by (simp add: update_breakers_def)
next
  case False
  show ?thesis
  proof (cases "breaker_reason (equity cx) (raise_peak (equity cx) r)")
    case None
    then show ?thesis using that(1) False by (simp add: update_breakers_def Let_def)
  next
    case (Some reason)
    then have u: "update_breakers cx r = halt cx reason (raise_peak (equity cx) r)"
      using False by (simp add: update_breakers_def Let_def)
    show ?thesis
      by (rule halt_cases [of "raise_peak (equity cx) r" cx reason]) (use u False that(2) in auto)
  qed
qed

lemma evaluate_risk_cases:
  assumes "evaluate_risk ad env s = (s', ms)"
  obtains r where "halted r = halted (lr_risk s)" "s' = s\<lparr>lr_risk := r\<rparr>" "ms = []"
  | r e where "\<not> halted (lr_risk s)" "halted r" "s' = on_risk_halted ad env (s\<lparr>lr_risk := r\<rparr>)" "ms = [RiskHaltedEvent e]"
  using assms by (cases rule: breakers_cases [of "live_risk_ctx env s" "lr_risk s"])
    (auto simp: evaluate_risk_def risk_check_def)

lemma halt_risk_cases:
  assumes "halt_risk ad env reason s = (s', ms)"
  obtains "halted (lr_risk s)" "s' = s\<lparr>lr_risk := lr_risk s\<rparr>" "ms = []"
  | r e where "\<not> halted (lr_risk s)" "halted r" "s' = on_risk_halted ad env (s\<lparr>lr_risk := r\<rparr>)" "ms = [RiskHaltedEvent e]"
  using assms by (cases rule: halt_cases [of "lr_risk s" "live_risk_ctx env s" reason])
    (auto simp: halt_risk_def)

lemma evaluate_risk_agree: "evaluate_risk ad env s = (s', ms) \<Longrightarrow> agree strict s \<Longrightarrow> agree strict s'"
  by (erule evaluate_risk_cases) (auto simp: agree_def)

lemma halt_risk_agree: "halt_risk ad env reason s = (s', ms) \<Longrightarrow> agree strict s \<Longrightarrow> agree strict s'"
  by (erule halt_risk_cases) (auto simp: agree_def)

lemma poll_if_due_fields:
  assumes "poll_if_due ad env s = (s', ms)"
  shows "lr_halted s' = lr_halted s" "lr_risk s' = lr_risk s" "lr_started s' = lr_started s"
    "lr_poll_interval s' = lr_poll_interval s"
    "lr_polls s' = lr_polls s \<and> lr_last_poll s' = lr_last_poll s \<or>
     lr_polls s' = Suc (lr_polls s) \<and> lr_last_poll s' = le_t env \<and> lr_poll_interval s \<le> le_t env - lr_last_poll s"
proof -
  have p: "lr_halted q = lr_halted s \<and> lr_risk q = lr_risk s \<and> lr_started q = lr_started s \<and>
      lr_poll_interval q = lr_poll_interval s \<and> lr_polls q = lr_polls s \<and> lr_last_poll q = lr_last_poll s"
    if "poll_orders ad env s = (q, ms)" for q ms
    using that by (auto simp: poll_orders_def split: option.splits prod.splits)
  show "lr_halted s' = lr_halted s" "lr_risk s' = lr_risk s" "lr_started s' = lr_started s"
    "lr_poll_interval s' = lr_poll_interval s"
    "lr_polls s' = lr_polls s \<and> lr_last_poll s' = lr_last_poll s \<or>
     lr_polls s' = Suc (lr_polls s) \<and> lr_last_poll s' = le_t env \<and> lr_poll_interval s \<le> le_t env - lr_last_poll s"
    using assms by (auto simp: poll_if_due_def reconcile_orphans_def Let_def dest: p split: if_splits prod.splits)
qed

lemma rebase_halted [simp]: "halted (rebase b r) = halted r"
  by (simp add: rebase_def)

lemma sync_risk:
  assumes "sync now rc pa ba (led, Some r) = (n, (led', risk'), ms)"
  shows "\<exists>r'. risk' = Some r' \<and> halted r' = halted r"
proof -
  have "\<exists>r'. snd (fst (sync_balance now rc ba (l, Some r))) = Some r' \<and> halted r' = halted r" for l
    by (simp add: sync_balance_def Let_def split: option.splits)
  note bal = this [of "led\<lparr>positions := fst (sync_positions now (some_or rep []) (positions led))\<rparr>" for rep]
  show ?thesis
  proof (cases pa)
    case (Inl e)
    then show ?thesis using assms by (auto simp: sync_def)
  next
    case (Inr rep)
    then show ?thesis using assms bal [of rep] by (auto simp: sync_def case_prod_beta)
  qed
qed

lemma sync_if_due_fields:
  assumes "sync_if_due env s = (s', ms)"
  shows "lr_halted s' = lr_halted s" "halted (lr_risk s') = halted (lr_risk s)" "lr_started s' = lr_started s"
    "lr_poll_interval s' = lr_poll_interval s" "lr_polls s' = lr_polls s" "lr_last_poll s' = lr_last_poll s"
  using assms
  by (auto simp: sync_if_due_def some_or_def dest: sync_risk split: if_splits prod.splits)

lemma halt_risk_fields:
  assumes "halt_risk ad env reason s = (s', ms)"
  shows "lr_started s' = lr_started s" "lr_poll_interval s' = lr_poll_interval s" "lr_polls s' = lr_polls s"
    "lr_last_poll s' = lr_last_poll s"
  using assms by (auto elim!: halt_risk_cases)

lemma watchdog_fields:
  assumes "check_feed_watchdog ad env s = (s', ms)"
  shows "lr_started s' = lr_started s \<and> lr_poll_interval s' = lr_poll_interval s \<and> lr_polls s' = lr_polls s \<and>
    lr_last_poll s' = lr_last_poll s \<and> (agree strict s \<longrightarrow> agree strict s')"
proof (cases "total_ticks (le_instruments env) > lr_last_tick_count s")
  case True
  then show ?thesis using assms by (auto simp: check_feed_watchdog_def Let_def agree_def)
next
  case False
  define last where "last = some_or (lr_last_tick_ts s) (le_t_watchdog env)"
  define q where "q = s\<lparr>lr_last_tick_ts := Some last, lr_watchdog_missed := Suc (lr_watchdog_missed s)\<rparr>"
  have r: "check_feed_watchdog ad env s =
      (case (if le_t_watchdog env - last \<ge> lr_watchdog_timeout s
             then halt_risk ad env (frozen_reason (le_t_watchdog env - last)) q else (q, [])) of
         (s, ms) \<Rightarrow> (s\<lparr>lr_last_tick_count := total_ticks (le_instruments env)\<rparr>, ms))"
    using False by (simp add: check_feed_watchdog_def Let_def q_def last_def case_prod_beta)
  obtain p ms' where p: "halt_risk ad env (frozen_reason (le_t_watchdog env - last)) q = (p, ms')" by force
  show ?thesis
    using assms r p halt_risk_fields [OF p] halt_risk_agree [OF p, of strict]
    by (cases strict) (auto simp: q_def agree_def split: if_splits)
qed

lemma heartbeat_fields:
  assumes "emit_heartbeat_if_due env s = (s', ms)"
  shows "lr_started s' = lr_started s \<and> lr_poll_interval s' = lr_poll_interval s \<and> lr_polls s' = lr_polls s \<and>
    lr_last_poll s' = lr_last_poll s \<and> lr_halted s' = lr_halted s \<and> lr_risk s' = lr_risk s"
  using assms by (auto simp: emit_heartbeat_if_due_def split: if_splits)

text \<open>The parts of a step, with the states between them.\<close>

lemma live_step_parts:
  assumes "live_step ad env s = Inr (s', ms)"
  obtains s0 ms0 where "evaluate_risk ad env s = (s0, ms0)" "s' = live_dispatch ad env (le_outside env 0) s0"
    "lr_halted s'"
  | s0 ms0 p0 s1 ms1 p1 s2 ms2 p2 s3 ms3 p3 s4 ms4 where "evaluate_risk ad env s = (s0, ms0)"
    "p0 = live_dispatch ad env (le_outside env 0) s0" "\<not> lr_halted p0"
    "poll_if_due ad env p0 = (s1, ms1)" "p1 = live_dispatch ad env (le_outside env 1) s1"
    "sync_if_due env p1 = (s2, ms2)" "p2 = live_dispatch ad env (le_outside env 2) s2"
    "check_feed_watchdog ad env p2 = (s3, ms3)" "p3 = live_dispatch ad env (le_outside env 3) s3"
    "emit_heartbeat_if_due env p3 = (s4, ms4)" "s' = live_dispatch ad env (le_outside env 4) s4"
  using assms by (auto simp: live_step_def outside_def split: if_splits prod.splits)

lemma evaluate_risk_fields:
  assumes "evaluate_risk ad env s = (s', ms)"
  shows "lr_started s' = lr_started s \<and> lr_poll_interval s' = lr_poll_interval s \<and> lr_polls s' = lr_polls s \<and>
    lr_last_poll s' = lr_last_poll s"
  using assms by (auto elim!: evaluate_risk_cases)

lemma live_step_agree:
  assumes "live_step ad env s = Inr (s', ms)" and out: "\<And>k. list_all (harmless strict) (le_outside env k)"
    and "agree strict s"
  shows "agree strict s'"
  using assms(1)
proof (rule live_step_parts)
  fix s0 ms0 assume "evaluate_risk ad env s = (s0, ms0)" "s' = live_dispatch ad env (le_outside env 0) s0"
  then show "agree strict s'" using live_dispatch_agree [OF out] evaluate_risk_agree assms(3) by blast
next
  fix s0 ms0 p0 s1 ms1 p1 s2 ms2 p2 s3 ms3 p3 s4 ms4
  assume e: "evaluate_risk ad env s = (s0, ms0)" and p0: "p0 = live_dispatch ad env (le_outside env 0) s0"
    and p: "poll_if_due ad env p0 = (s1, ms1)" and p1: "p1 = live_dispatch ad env (le_outside env 1) s1"
    and y: "sync_if_due env p1 = (s2, ms2)" and p2: "p2 = live_dispatch ad env (le_outside env 2) s2"
    and w: "check_feed_watchdog ad env p2 = (s3, ms3)" and p3: "p3 = live_dispatch ad env (le_outside env 3) s3"
    and h: "emit_heartbeat_if_due env p3 = (s4, ms4)" and s': "s' = live_dispatch ad env (le_outside env 4) s4"
  have "agree strict p0" unfolding p0 by (rule live_dispatch_agree [OF out evaluate_risk_agree [OF e assms(3)]])
  then have "agree strict s1" using poll_if_due_fields [OF p] by (simp add: agree_def)
  then have "agree strict p1" unfolding p1 by (rule live_dispatch_agree [OF out])
  then have "agree strict s2" using sync_if_due_fields [OF y] by (simp add: agree_def)
  then have "agree strict p2" unfolding p2 by (rule live_dispatch_agree [OF out])
  then have "agree strict s3" using watchdog_fields [OF w] by blast
  then have "agree strict p3" unfolding p3 by (rule live_dispatch_agree [OF out])
  then have "agree strict s4" using heartbeat_fields [OF h] by (simp add: agree_def)
  then show "agree strict s'" unfolding s' by (rule live_dispatch_agree [OF out])
qed

lemma live_step_polls:
  assumes "live_step ad env s = Inr (s', ms)"
  shows "lr_poll_interval s' = lr_poll_interval s \<and> lr_started s' = lr_started s \<and>
    (lr_polls s' = lr_polls s \<and> lr_last_poll s' = lr_last_poll s \<or>
     lr_polls s' = Suc (lr_polls s) \<and> lr_last_poll s' = le_t env \<and> lr_poll_interval s \<le> le_t env - lr_last_poll s)"
  using assms
proof (rule live_step_parts)
  fix s0 ms0 assume "evaluate_risk ad env s = (s0, ms0)" "s' = live_dispatch ad env (le_outside env 0) s0"
  then show ?thesis using evaluate_risk_fields [of ad env s s0 ms0] by simp
next
  fix s0 ms0 p0 s1 ms1 p1 s2 ms2 p2 s3 ms3 p3 s4 ms4
  assume e: "evaluate_risk ad env s = (s0, ms0)" and p0: "p0 = live_dispatch ad env (le_outside env 0) s0"
    and p: "poll_if_due ad env p0 = (s1, ms1)" and p1: "p1 = live_dispatch ad env (le_outside env 1) s1"
    and y: "sync_if_due env p1 = (s2, ms2)" and p2: "p2 = live_dispatch ad env (le_outside env 2) s2"
    and w: "check_feed_watchdog ad env p2 = (s3, ms3)" and p3: "p3 = live_dispatch ad env (le_outside env 3) s3"
    and h: "emit_heartbeat_if_due env p3 = (s4, ms4)" and s': "s' = live_dispatch ad env (le_outside env 4) s4"
  note f = evaluate_risk_fields [OF e] poll_if_due_fields(3,4) [OF p] sync_if_due_fields(3-6) [OF y]
    watchdog_fields [OF w] heartbeat_fields [OF h]
  have "lr_poll_interval s' = lr_poll_interval s" "lr_started s' = lr_started s"
    using f by (simp_all add: p0 p1 p2 p3 s')
  moreover have "lr_polls s' = lr_polls s1" "lr_last_poll s' = lr_last_poll s1" using f by (simp_all add: p1 p2 p3 s')
  moreover have "lr_polls p0 = lr_polls s" "lr_last_poll p0 = lr_last_poll s" "lr_poll_interval p0 = lr_poll_interval s"
    using f(1) by (simp_all add: p0)
  ultimately show ?thesis using poll_if_due_fields(5) [OF p] by auto
qed

section \<open>Runs\<close>

text \<open>What can happen to a runner: its operations, a lost feed and any other halt of the risk engine, a resumption by
  the operator, signals that the risk engine screens (each may trip a breaker), and risk events that others publish, in
  a step or between steps; \<open>allowed\<close> says which of these.\<close>

inductive live_op :: "'b adapter \<Rightarrow> (msg \<Rightarrow> bool) \<Rightarrow> 'b live \<Rightarrow> 'b live \<Rightarrow> bool" for ad and allowed where
  Start: "live_start env ready s = (s', ms) \<Longrightarrow> live_op ad allowed s s'"
| Step: "live_step ad env s = Inr (s', ms) \<Longrightarrow> (\<And>k. list_all allowed (le_outside env k)) \<Longrightarrow> live_op ad allowed s s'"
| Stop: "live_stop ad env reason s = (s', ms) \<Longrightarrow> live_op ad allowed s s'"
| Disconnect: "on_feed_disconnected ad env reason s = (s', ms) \<Longrightarrow> live_op ad allowed s s'"
| Halt: "halt_risk ad env reason s = (s', ms) \<Longrightarrow> live_op ad allowed s s'"
| Resume: "live_resume ad env s = (s', ms) \<Longrightarrow> live_op ad allowed s s'"
| Screen: "on_signal (live_risk_ctx env s) e (lr_risk s) = (r, ms) \<Longrightarrow> s' = live_dispatch ad env ms (s\<lparr>lr_risk := r\<rparr>) \<Longrightarrow>
     live_op ad allowed s s'"
| Others: "list_all allowed ms \<Longrightarrow> s' = live_dispatch ad env ms s \<Longrightarrow> live_op ad allowed s s'"

lemma on_signal_cases:
  assumes "on_signal cx e r = (r', ms)"
  obtains "r' = r" "ms = []"
  | m where "halted r' = halted r" "ms = [m]" "msg_type m \<in> {TApproved, TSigRejected}"
  | h m where "\<not> halted r" "halted r'" "ms = [RiskHaltedEvent h, m]" "msg_type m \<in> {TApproved, TSigRejected}"
proof (cases "case strategy r of None \<Rightarrow> False | Some s \<Rightarrow> sg_strategy e \<noteq> s")
  case True
  then show ?thesis using assms that(1) by (simp add: on_signal_def)
next
  case False
  obtain res r1 ms1 where c: "check_signal cx e r = (res, r1, ms1)" by (metis prod_cases3)
  obtain m where m: "ms = ms1 @ [m]" "msg_type m \<in> {TApproved, TSigRejected}" "halted r' = halted r1"
    using assms False c by (cases res) (auto simp: on_signal_def)
  show ?thesis
    by (rule breakers_cases [of cx r]) (use c m that(2,3) in \<open>auto simp: check_signal_def\<close>)
qed

lemma react_answer [simp]: "msg_type m \<in> {TApproved, TSigRejected} \<Longrightarrow> live_react ad env m s = s"
  by (cases m) simp_all

lemma live_op_agree:
  "live_op ad allowed s s' \<Longrightarrow> (\<And>m. allowed m \<Longrightarrow> harmless strict m) \<Longrightarrow> agree strict s \<Longrightarrow> agree strict s'"
proof (induction rule: live_op.induct)
  case (Start env ready s s' ms)
  then show ?case by (auto simp: live_start_def agree_def split: if_splits)
next
  case (Step env s s' ms)
  have "list_all (harmless strict) (le_outside env k)" for k
    using Step.hyps(2) [of k] Step.prems(1) by (auto simp: list_all_iff)
  with Step show ?case by (blast intro: live_step_agree)
next
  case (Stop env reason s s' ms)
  then show ?case by (auto simp: live_stop_def cancel_resting_orders_def agree_def split: if_splits)
next
  case (Disconnect env reason s s' ms)
  then show ?case by (auto simp: on_feed_disconnected_def intro: halt_risk_agree)
next
  case (Halt env reason s s' ms)
  then show ?case by (blast intro: halt_risk_agree)
next
  case (Resume env s s' ms)
  then show ?case
    by (auto simp: live_resume_def resume_def agree_def split: if_splits)
next
  case (Screen env s e r ms s')
  from Screen.hyps(1) show ?case
    by (rule on_signal_cases) (use Screen.prems Screen.hyps(2) in \<open>simp_all add: agree_def split: if_splits\<close>)
next
  case (Others ms s' env s)
  then have "list_all (harmless strict) ms" by (auto simp: list_all_iff)
  then show ?case unfolding Others.hyps(2) by (rule live_dispatch_agree [OF _ Others.prems(2)])
qed

section \<open>Properties\<close>

text \<open>C11: When the runner is halted.  Over any sequence of starts, steps, stops, feed losses and other halts of the
  kernel's risk engine, resumptions and screened signals, with the risk events of others that \<open>allowed\<close> lets through:
  if others publish no halt and no resumption, the runner is halted exactly when its risk engine is; if they publish
  halts (the bus at its limit of handler errors, the risk engine of one strategy) but no resumption, the runner is halted
  whenever its risk engine is.\<close>

theorem halt_flags_agree:
  assumes "lr_halted s0 = halted (lr_risk s0)" and "(live_op ad allowed)\<^sup>*\<^sup>* s0 s"
  shows "((\<forall>m. allowed m \<longrightarrow> \<not> risk_news m) \<longrightarrow> lr_halted s = halted (lr_risk s)) \<and>
    ((\<forall>m. allowed m \<longrightarrow> \<not> is_resumed m) \<longrightarrow> halted (lr_risk s) \<longrightarrow> lr_halted s)"
proof -
  have "agree strict s" if "\<And>m. allowed m \<Longrightarrow> harmless strict m" for strict
    using assms(2)
  proof (induction rule: rtranclp_induct)
    case base
    show ?case using assms(1) by (simp add: agree_def)
  next
    case (step s s')
    then show ?case using live_op_agree [of ad allowed s s' strict] that by blast
  qed
  from this [of True] this [of False] show ?thesis by (simp add: agree_def harmless_def)
qed

text \<open>A halt that the bus raises itself, when it has counted too many handler errors, halts the runner only: the risk
  engine does not know of it, so a resumption does nothing and the runner stays halted, while a signal is screened (and
  may be approved) as if nothing had happened.\<close>

theorem bus_halt_not_lifted:
  assumes "\<not> halted (lr_risk s)" and "s1 = live_dispatch ad env [RiskHaltedEvent e] s"
  shows "lr_halted s1 \<and> live_resume ad env' s1 = (s1, []) \<and>
    on_signal (live_risk_ctx env' s1) sig (lr_risk s1) = on_signal (live_risk_ctx env' s) sig (lr_risk s)"
proof -
  have "lr_risk s1 = lr_risk s" "lr_ledger s1 = lr_ledger s" by (simp_all add: assms(2))
  moreover have "s1\<lparr>lr_risk := lr_risk s1\<rparr> = s1" by (cases s1) simp
  ultimately show ?thesis using assms by (simp add: live_resume_def resume_def live_risk_ctx_def)
qed

text \<open>Any number of further steps, each in its own environment.\<close>

fun live_steps :: "'b adapter \<Rightarrow> live_env list \<Rightarrow> 'b live \<Rightarrow> py_error + 'b live" where
  "live_steps ad [] s = Inr s"
| "live_steps ad (env # envs) s =
     (case live_step ad env s of Inl e \<Rightarrow> Inl e | Inr (s', _) \<Rightarrow> live_steps ad envs s')"

definition undisturbed :: "live_env \<Rightarrow> bool" where
  "undisturbed env \<longleftrightarrow> (\<forall>k. list_all (\<lambda>m. \<not> risk_news m) (le_outside env k))"

lemma undisturbed_outside [simp]: "undisturbed env \<Longrightarrow> live_dispatch ad env (le_outside env k) s = s"
  by (rule live_dispatch_quiet) (simp add: undisturbed_def harmless_def list_all_iff)

text \<open>A step of a halted runner whose risk engine is halted too.\<close>

lemma halted_step:
  assumes "lr_started s" "lr_halted s" "halted (lr_risk s)" "undisturbed env"
  shows "\<exists>ms. live_step ad env s = Inr (s, ms)"
proof -
  obtain s1 ms1 where e: "evaluate_risk ad env s = (s1, ms1)" by force
  have "s\<lparr>lr_risk := lr_risk s\<rparr> = s" by (cases s) simp
  then have "s1 = s" using e assms(3) by (auto simp: evaluate_risk_def risk_check_def update_breakers_def)
  then show ?thesis using e assms by (simp add: live_step_def outside_def)
qed

lemma halted_steps:
  "lr_started s \<Longrightarrow> lr_halted s \<Longrightarrow> halted (lr_risk s) \<Longrightarrow> list_all undisturbed envs \<Longrightarrow> live_steps ad envs s = Inr s"
proof (induction envs)
  case (Cons env envs)
  then obtain ms where "live_step ad env s = Inr (s, ms)" using halted_step by fastforce
  with Cons show ?case by simp
qed simp

definition execution_dead :: "'b live \<Rightarrow> bool" where
  "execution_dead s \<longleftrightarrow> (\<forall>x. lr_exec s = Some x \<longrightarrow> killed (bx_breaker x) \<and> cb_state (bx_breaker x) = Circuit_OPEN)"

lemma on_risk_halted_kills: "execution_dead (on_risk_halted ad env s)"
  by (auto simp: execution_dead_def trip_kill_switch_def trip_kill_def Let_def)

lemma poll_if_due_kill_calls: "poll_if_due ad env s = (s', ms) \<Longrightarrow> lr_kill_calls s' = lr_kill_calls s"
  by (auto simp: poll_if_due_def poll_orders_def reconcile_orphans_def Let_def split: if_splits prod.splits option.splits)

lemma sync_if_due_kill_calls: "sync_if_due env s = (s', ms) \<Longrightarrow> lr_kill_calls s' = lr_kill_calls s"
  by (auto simp: sync_if_due_def split: if_splits prod.splits)

lemma heartbeat_kill:
  "emit_heartbeat_if_due env s = (s', ms) \<Longrightarrow> lr_kill_calls s' = lr_kill_calls s \<and> lr_exec s' = lr_exec s"
  by (auto simp: emit_heartbeat_if_due_def split: if_splits)

lemma watchdog_kill:
  assumes "check_feed_watchdog ad env s = (s', ms)" and "\<not> halted (lr_risk s)" and "halted (lr_risk s')"
  shows "lr_halted s' \<and> lr_kill_calls s' = lr_kill_calls s @ kill_calls ACTIVATE env \<and> execution_dead s'"
proof (cases "total_ticks (le_instruments env) > lr_last_tick_count s")
  case True
  then show ?thesis using assms by (auto simp: check_feed_watchdog_def Let_def)
next
  case False
  define last where "last = some_or (lr_last_tick_ts s) (le_t_watchdog env)"
  define q where "q = s\<lparr>lr_last_tick_ts := Some last, lr_watchdog_missed := Suc (lr_watchdog_missed s)\<rparr>"
  have r: "check_feed_watchdog ad env s =
      (case (if le_t_watchdog env - last \<ge> lr_watchdog_timeout s
             then halt_risk ad env (frozen_reason (le_t_watchdog env - last)) q else (q, [])) of
         (s, ms) \<Rightarrow> (s\<lparr>lr_last_tick_count := total_ticks (le_instruments env)\<rparr>, ms))"
    using False by (simp add: check_feed_watchdog_def Let_def q_def last_def case_prod_beta)
  obtain p ms' where p: "halt_risk ad env (frozen_reason (le_t_watchdog env - last)) q = (p, ms')" by force
  have s': "s' = p\<lparr>lr_last_tick_count := total_ticks (le_instruments env)\<rparr>"
    using assms r p by (auto simp: q_def split: if_splits)
  from p obtain r where "p = on_risk_halted ad env (q\<lparr>lr_risk := r\<rparr>)"
    by (rule halt_risk_cases) (use assms(2) in \<open>simp_all add: q_def\<close>)
  then show ?thesis
    using on_risk_halted_kills [of ad env "q\<lparr>lr_risk := r\<rparr>"] by (simp add: s' q_def execution_dead_def)
qed

text \<open>C12: A step in which the risk engine is tripped, by a breaker or by the feed watchdog, halts the runner, activates
  the kill switch once for every broker-backed instrument and kills the execution's circuit; then any number of further
  steps change nothing at all (no poll, no reconciliation, no change of the ledger or of the execution, no second kill),
  as long as no risk event of others arrives.\<close>

theorem halting_step_kills:
  assumes "live_step ad env s = Inr (s', ms)" and "undisturbed env"
    and "\<not> halted (lr_risk s)" and "halted (lr_risk s')" and "list_all undisturbed envs"
  shows "lr_halted s' \<and> lr_kill_calls s' = lr_kill_calls s @ kill_calls ACTIVATE env \<and> execution_dead s' \<and>
    live_steps ad envs s' = Inr s'"
proof -
  have st: "lr_started s" using assms(1) by (auto simp: live_step_def split: if_splits)
  have "lr_halted s' \<and> lr_kill_calls s' = lr_kill_calls s @ kill_calls ACTIVATE env \<and> execution_dead s'"
    using assms(1)
  proof (rule live_step_parts)
    fix s0 ms0 assume e: "evaluate_risk ad env s = (s0, ms0)" and "s' = live_dispatch ad env (le_outside env 0) s0"
    then have s': "s' = s0" using assms(2) by simp
    from e show ?thesis
      by (rule evaluate_risk_cases) (use assms(3,4) s' on_risk_halted_kills in auto)
  next
    fix s0 ms0 p0 s1 ms1 p1 s2 ms2 p2 s3 ms3 p3 s4 ms4
    assume e: "evaluate_risk ad env s = (s0, ms0)" and p0: "p0 = live_dispatch ad env (le_outside env 0) s0"
      and nh: "\<not> lr_halted p0"
      and p: "poll_if_due ad env p0 = (s1, ms1)" and p1: "p1 = live_dispatch ad env (le_outside env 1) s1"
      and y: "sync_if_due env p1 = (s2, ms2)" and p2: "p2 = live_dispatch ad env (le_outside env 2) s2"
      and w: "check_feed_watchdog ad env p2 = (s3, ms3)" and p3: "p3 = live_dispatch ad env (le_outside env 3) s3"
      and h: "emit_heartbeat_if_due env p3 = (s4, ms4)" and s': "s' = live_dispatch ad env (le_outside env 4) s4"
    have q: "p0 = s0" "p1 = s1" "p2 = s2" "p3 = s3" "s' = s4" using assms(2) by (simp_all add: p0 p1 p2 p3 s')
    have s0: "\<not> halted (lr_risk s0) \<and> lr_kill_calls s0 = lr_kill_calls s"
      using e by (rule evaluate_risk_cases) (use assms(3) nh q(1) in auto)
    have "\<not> halted (lr_risk s2)" "lr_kill_calls s2 = lr_kill_calls s"
      using s0 p y q poll_if_due_fields(2) [OF p] sync_if_due_fields(2) [OF y] poll_if_due_kill_calls [OF p]
        sync_if_due_kill_calls [OF y] by simp_all
    moreover have "halted (lr_risk s3)" using assms(4) heartbeat_fields [OF h] q by simp
    ultimately show ?thesis
      using watchdog_kill [OF w] heartbeat_fields [OF h] heartbeat_kill [OF h] q by (simp add: execution_dead_def)
  qed
  moreover have "lr_started s'" using live_step_polls [OF assms(1)] st by simp
  ultimately show ?thesis using halted_steps [OF _ _ assms(4,5)] by blast
qed

text \<open>Consecutive steps of a run.\<close>

inductive steps_at :: "'b adapter \<Rightarrow> 'b live \<Rightarrow> real list \<Rightarrow> 'b live \<Rightarrow> bool" for ad where
  None_yet: "steps_at ad s [] s"
| One_more: "steps_at ad s clock s' \<Longrightarrow> live_step ad env s' = Inr (s'', ms) \<Longrightarrow> steps_at ad s (clock @ [le_t env]) s''"

text \<open>The broker is polled at most once per poll interval: the polls of any run of steps, times the interval, fit into
  the time between the last poll before the run and the last poll in it.\<close>

theorem poll_rate_bounded:
  assumes "steps_at ad s clock s'"
  shows "real (lr_polls s' - lr_polls s) * lr_poll_interval s \<le> lr_last_poll s' - lr_last_poll s \<and>
    lr_polls s \<le> lr_polls s' \<and> (lr_last_poll s' \<noteq> lr_last_poll s \<longrightarrow> lr_last_poll s' \<in> set clock)"
proof -
  have "lr_poll_interval s' = lr_poll_interval s \<and>
    real (lr_polls s' - lr_polls s) * lr_poll_interval s \<le> lr_last_poll s' - lr_last_poll s \<and>
    lr_polls s \<le> lr_polls s' \<and> (lr_last_poll s' \<noteq> lr_last_poll s \<longrightarrow> lr_last_poll s' \<in> set clock)"
    using assms
  proof induction
    case (None_yet s)
    then show ?case by simp
  next
    case (One_more s clock s' env s'' ms)
    from live_step_polls [OF One_more.hyps(2)] One_more.IH show ?case
      by (auto simp: Suc_diff_le algebra_simps)
  qed
  then show ?thesis by blast
qed

section \<open>Two flaws\<close>

lemma tick_count_ingest: "tick_count (ingest_tick tk ins) = min 10000 (Suc (tick_count ins))"
  by (simp add: ingest_tick_def tick_count_def Let_def)

lemma full_stream_stays_full: "tick_count ins = 10000 \<Longrightarrow> tick_count (fold ingest_tick tks ins) = 10000"
  by (induction tks arbitrary: ins) (simp_all add: tick_count_ingest)

definition deliver :: "(string \<Rightarrow> tick list) \<Rightarrow> instruments \<Rightarrow> instruments" where
  "deliver ticks is = map (\<lambda>(sy, ins). (sy, fold ingest_tick (ticks sy) ins)) is"

lemma full_total:
  assumes "\<forall>(sy, ins) \<in> set is. tick_count ins = 10000"
  shows "total_ticks (deliver ticks is) = total_ticks is"
  using assms by (induction "is") (auto simp: total_ticks_def deliver_def full_stream_stays_full)

text \<open>The tick count the watchdog compares is the length of a buffer of at most 10000 ticks: once the buffers are full, a
  feed that delivers any number of ticks is taken for frozen and halts trading.\<close>

theorem full_buffers_look_frozen:
  assumes "\<forall>(sy, ins) \<in> set is. tick_count ins = 10000" and "le_instruments env = deliver ticks is"
    and "lr_last_tick_count s = total_ticks is" and "lr_last_tick_ts s = Some t"
    and "lr_watchdog_timeout s \<le> le_t_watchdog env - t" and "\<not> halted (lr_risk s)"
  shows "lr_halted (fst (check_feed_watchdog ad env s)) \<and> halted (lr_risk (fst (check_feed_watchdog ad env s)))"
proof -
  define q where "q = s\<lparr>lr_last_tick_ts := Some t, lr_watchdog_missed := Suc (lr_watchdog_missed s)\<rparr>"
  obtain p ms where p: "halt_risk ad env (frozen_reason (le_t_watchdog env - t)) q = (p, ms)" by force
  have "total_ticks (le_instruments env) = lr_last_tick_count s"
    by (simp add: assms(2,3) full_total [OF assms(1)])
  then have c: "fst (check_feed_watchdog ad env s) = p\<lparr>lr_last_tick_count := lr_last_tick_count s\<rparr>"
    using assms(4,5) p by (simp add: check_feed_watchdog_def Let_def some_or_def q_def)
  from p show ?thesis
    by (rule halt_risk_cases) (use assms(6) in \<open>simp_all add: c q_def\<close>)
qed

text \<open>Resuming clears the halt and deactivates the brokers' kill switches, but never releases the circuit of the
  execution that the halt killed.\<close>

theorem resume_leaves_circuit_killed:
  assumes "halted (lr_risk s)" and "lr_exec s = Some x" and "killed (bx_breaker x)"
  shows "\<not> lr_halted (fst (live_resume ad env s)) \<and> \<not> halted (lr_risk (fst (live_resume ad env s))) \<and>
    (\<exists>x'. lr_exec (fst (live_resume ad env s)) = Some x' \<and> killed (bx_breaker x'))"
  using assms by (simp add: live_resume_def resume_def)

section \<open>Witnesses\<close>

definition ex_env :: "instruments \<Rightarrow> real \<Rightarrow> live_env" where
  "ex_env is t = \<lparr>le_t = t, le_t_watchdog = t, le_t_heartbeat = t, le_now = naive 0, le_instruments = is,
     le_reports_cash = False, le_positions = Inr None, le_balance = Inr None, le_kill = (\<lambda>_ _. True),
     le_outside = (\<lambda>_. [])\<rparr>"

definition ex_live :: "unit live" where
  "ex_live = (new_live 5 60 30 True risk_500 \<lparr>positions = [], balance = 99000\<rparr> (Some ex_exec))\<lparr>lr_started := True\<rparr>"

lemmas live_examples = ex_live_def new_live_def risk_500_def new_risk_engine_def flat_ctx_def cash_100k_def

lemma ex_live_trips: "\<exists>e. RiskHaltedEvent e \<in> set (snd (evaluate_risk ad (ex_env is t) ex_live))"
  by (simp add: evaluate_risk_def risk_check_def update_breakers_def halt_def breaker_reason_def first_reason_def
      loss_reason_def raise_peak_def equity_def live_risk_ctx_def Let_def live_examples)

lemma ex_live_steps: "\<exists>s' ms. live_step ad env ex_live = Inr (s', ms)"
  by (auto simp: live_step_def live_examples split: prod.splits)

lemma ex_env_undisturbed [simp]: "undisturbed (ex_env is t)"
  by (simp add: undisturbed_def ex_env_def)

theorem halting_step_kills_witness:
  "\<exists>s' ms. live_step (scripted (ex_order CANCELLED 0 0)) (ex_env (xc_instruments ex_ctx) 1) ex_live = Inr (s', ms) \<and>
     lr_halted s' \<and> lr_kill_calls s' = [(ACTIVATE, ''TCS'', True)] \<and>
     live_steps (scripted (ex_order CANCELLED 0 0)) [ex_env [] 2, ex_env [] 3] s' = Inr s'"
proof -
  let ?ad = "scripted (ex_order CANCELLED 0 0)" and ?env = "ex_env (xc_instruments ex_ctx) 1"
  obtain s' ms where s: "live_step ?ad ?env ex_live = Inr (s', ms)" using ex_live_steps by blast
  have h: "\<not> halted (lr_risk ex_live)" "lr_kill_calls ex_live = []" by (simp_all add: live_examples)
  obtain e where e: "RiskHaltedEvent e \<in> set (snd (evaluate_risk ?ad ?env ex_live))" using ex_live_trips by blast
  obtain s0 ms0 where s0: "evaluate_risk ?ad ?env ex_live = (s0, ms0)" by force
  from s0 have "halted (lr_risk s0)" "lr_halted s0"
    by (rule evaluate_risk_cases; use e s0 in auto)+
  moreover from this have "s' = s0" using s s0 by (simp add: live_step_def outside_def split: if_splits)
  ultimately have "halted (lr_risk s')" by simp
  from halting_step_kills [OF s _ h(1) this, of "[ex_env [] 2, ex_env [] 3]"]
  have "lr_halted s' \<and> lr_kill_calls s' = [] @ kill_calls ACTIVATE ?env \<and>
      live_steps ?ad [ex_env [] 2, ex_env [] 3] s' = Inr s'" by (simp add: h(2))
  moreover have "kill_calls ACTIVATE ?env = [(ACTIVATE, ''TCS'', True)]"
    by (simp add: kill_calls_def ex_env_def broker_symbols_def ex_ctx_def new_instrument_def)
  ultimately show ?thesis using s by auto
qed

theorem halt_flags_agree_witness:
  "\<exists>s. (live_op (scripted (ex_order CANCELLED 0 0)) (\<lambda>m. \<not> risk_news m))\<^sup>*\<^sup>* ex_live s \<and> lr_halted s = halted (lr_risk s)"
proof -
  let ?ad = "scripted (ex_order CANCELLED 0 0)" and ?al = "\<lambda>m. \<not> risk_news m"
  obtain s ms where s: "live_step ?ad (ex_env [] 1) ex_live = Inr (s, ms)" using ex_live_steps by blast
  have run: "(live_op ?ad ?al)\<^sup>*\<^sup>* ex_live s"
    by (rule r_into_rtranclp) (rule live_op.Step [OF s], simp add: ex_env_def)
  have "lr_halted ex_live = halted (lr_risk ex_live)" by (simp add: live_examples)
  from halt_flags_agree [OF this run] run show ?thesis by blast
qed

theorem bus_halt_not_lifted_witness:
  "\<exists>s1. s1 = live_dispatch (scripted (ex_order CANCELLED 0 0)) (ex_env [] 1)
       [RiskHaltedEvent \<lparr>ts = naive 0, rh_reason = ''handler error limit reached (100 errors)'', rh_equity = 0\<rparr>] ex_live \<and>
     lr_halted s1 \<and> live_resume (scripted (ex_order CANCELLED 0 0)) (ex_env [] 2) s1 = (s1, [])"
proof -
  have "\<not> halted (lr_risk ex_live)" by (simp add: live_examples)
  from bus_halt_not_lifted [OF this refl] show ?thesis by blast
qed

theorem poll_rate_bounded_witness:
  "\<exists>s. steps_at (scripted (ex_order CANCELLED 0 0)) ex_live [7] s \<and>
     real (lr_polls s - lr_polls ex_live) * 5 \<le> lr_last_poll s - lr_last_poll ex_live"
proof -
  let ?ad = "scripted (ex_order CANCELLED 0 0)"
  obtain s ms where s: "live_step ?ad (ex_env [] 7) ex_live = Inr (s, ms)" using ex_live_steps by blast
  have "steps_at ?ad ex_live ([] @ [le_t (ex_env [] 7)]) s"
    by (rule steps_at.One_more [OF steps_at.None_yet s])
  then have run: "steps_at ?ad ex_live [7] s" by (simp add: ex_env_def)
  have "lr_poll_interval ex_live = 5" by (simp add: live_examples)
  then show ?thesis using poll_rate_bounded [OF run] run by auto
qed

definition ex_tick :: tick where
  "ex_tick = \<lparr>t_symbol = ''TCS'', t_price = 100, t_quantity = 1, t_side = BUY, t_timestamp = naive 0, t_kind = ''trade''\<rparr>"

definition full_instrument :: instrument where
  "full_instrument = (new_instrument ''equity'' ''TCS'' ''NSE'' True)
     \<lparr>i_stream := \<lparr>st_state = STREAMING, st_last_tick = Some ex_tick, st_ticks = replicate 10000 ex_tick\<rparr>\<rparr>"

theorem full_buffers_look_frozen_witness:
  "lr_halted (fst (check_feed_watchdog (scripted (ex_order CANCELLED 0 0))
     (ex_env (deliver (\<lambda>_. [ex_tick, ex_tick]) [(''TCS'', full_instrument)]) 100)
     (ex_live\<lparr>lr_last_tick_count := 10000, lr_last_tick_ts := Some 40\<rparr>)))"
proof -
  have full: "tick_count (full_instrument) = 10000"
    by (simp add: tick_count_def full_instrument_def)
  then have "total_ticks [(''TCS'', full_instrument)] = 10000" by (simp add: total_ticks_def)
  with full show ?thesis
    using full_buffers_look_frozen [of "[(''TCS'', full_instrument)]"
        "ex_env (deliver (\<lambda>_. [ex_tick, ex_tick]) [(''TCS'', full_instrument)]) 100" "\<lambda>_. [ex_tick, ex_tick]"
        "ex_live\<lparr>lr_last_tick_count := 10000, lr_last_tick_ts := Some 40\<rparr>" 40 "scripted (ex_order CANCELLED 0 0)"]
    by (simp add: ex_env_def live_examples)
qed

theorem resume_leaves_circuit_killed_witness:
  "\<exists>x'. lr_exec (fst (live_resume (scripted (ex_order CANCELLED 0 0)) (ex_env [] 1)
     (ex_live\<lparr>lr_risk := risk_500\<lparr>halted := True\<rparr>, lr_exec := Some (trip_kill_switch (scripted (ex_order CANCELLED 0 0)) ex_ctx ex_exec)\<rparr>))) = Some x' \<and>
     killed (bx_breaker x')"
  using resume_leaves_circuit_killed [of "ex_live\<lparr>lr_risk := risk_500\<lparr>halted := True\<rparr>,
      lr_exec := Some (trip_kill_switch (scripted (ex_order CANCELLED 0 0)) ex_ctx ex_exec)\<rparr>"
      "trip_kill_switch (scripted (ex_order CANCELLED 0 0)) ex_ctx ex_exec" "scripted (ex_order CANCELLED 0 0)" "ex_env [] 1"]
  by (simp add: trip_kill_switch_def trip_kill_def Let_def)

end
