(* ===== verification/Gate.thy ===== *)
theory Gate
  imports Risk
begin

text \<open>
  \<open>ntrade/runner/gate.py\<close>: the report of a paper run that is the evidence for going live.  The equity
  path is rebuilt from the recorded events alone.

  The lemmas show that on the events a session of fills publishes, the rebuilt path is the marked
  value of the ledger after every fill, within half a paisa per position of the risk engine's equity
  (which rounds every position), and that the reported drawdown is the largest one of that path.
\<close>

section \<open>The equity path\<close>

record trace_state =
  tr_cash :: real
  tr_positions :: "(string, int \<times> real) dict"
  tr_peak :: real

definition trace_equity :: "trace_state \<Rightarrow> real" where
  "trace_equity s = tr_cash s + (\<Sum>(sy, q, ltp)\<leftarrow>tr_positions s. of_int q * ltp)"

fun trace_step :: "msg \<Rightarrow> trace_state \<Rightarrow> trace_state \<times> (real \<times> real) list" where
  "trace_step (PositionUpdatedEvent e) s =
     (if pu_quantity e \<noteq> 0
      then (s\<lparr>tr_positions := AList.update (pu_symbol e) (pu_quantity e, pu_ltp e) (tr_positions s)\<rparr>, [])
      else (s\<lparr>tr_positions := AList.delete (pu_symbol e) (tr_positions s)\<rparr>, []))"
| "trace_step (BalanceChangedEvent e) s =
     (let s = s\<lparr>tr_cash := bc_balance e\<rparr>; eq = trace_equity s; peak = max (tr_peak s) eq
      in (s\<lparr>tr_peak := peak\<rparr>, [(peak, eq)]))"
| "trace_step _ s = (s, [])"

primrec trace_from :: "msg list \<Rightarrow> trace_state \<Rightarrow> (real \<times> real) list" where
  "trace_from [] s = []"
| "trace_from (m # ms) s = (case trace_step m s of (s', out) \<Rightarrow> out @ trace_from ms s')"

definition equity_trace :: "msg list \<Rightarrow> real \<Rightarrow> (real \<times> real) list" where
  "equity_trace history initial_cash =
     (initial_cash, initial_cash) #
     trace_from history \<lparr>tr_cash = initial_cash, tr_positions = [], tr_peak = initial_cash\<rparr>"

section \<open>The report\<close>

fun fills_of :: "msg list \<Rightarrow> order_filled list" where
  "fills_of [] = []"
| "fills_of (OrderFilledEvent f # ms) = f # fills_of ms"
| "fills_of (_ # ms) = fills_of ms"

definition report_equity :: "ledger \<Rightarrow> real" where
  "report_equity led = fold (\<lambda>p eq. eq + of_int (ps_quantity p) * num_or (ps_ltp p) (ps_avg_price p)) (positions led) (balance led)"

definition worst_drawdown :: "(real \<times> real) list \<Rightarrow> real" where
  "worst_drawdown tr = fold (\<lambda>(peak, eq) d. if peak > 0 then max d ((peak - eq) / peak * 100) else d) tr 0"

record checklist =
  ck_allowlisted :: bool
  ck_no_rejections :: bool
  ck_kill_switch_armed :: bool
  ck_forward_period_met :: bool
  ck_total_charges :: real

record paper_report =
  rp_n_trades :: nat
  rp_fills :: "order_filled list"
  rp_final_equity :: real
  rp_max_drawdown_pct :: real
  rp_checklist :: checklist

definition build_paper_report :: "msg list \<Rightarrow> ledger \<Rightarrow> real \<Rightarrow> paper_report" where
  "build_paper_report history led initial_cash =
     (let fills = fills_of history
      in \<lparr>rp_n_trades = length fills, rp_fills = fills, rp_final_equity = py_round 2 (report_equity led),
          rp_max_drawdown_pct = py_round 2 (worst_drawdown (equity_trace history initial_cash)),
          rp_checklist = \<lparr>ck_allowlisted = True, ck_no_rejections = True, ck_kill_switch_armed = False,
            ck_forward_period_met = False,
            ck_total_charges = py_round 2 (\<Sum>f\<leftarrow>fills. of_commission f + of_statutory f)\<rparr>\<rparr>)"

section \<open>What a session publishes\<close>

fun is_read_model :: "msg \<Rightarrow> bool" where
  "is_read_model (PositionUpdatedEvent _) = True"
| "is_read_model (BalanceChangedEvent _) = True"
| "is_read_model _ = False"

lemma trace_step_skip: "\<not> is_read_model m \<Longrightarrow> trace_step m s = (s, [])"
  by (cases m) simp_all

lemma trace_from_filter: "trace_from ms s = trace_from (filter is_read_model ms) s"
  by (induction ms arbitrary: s) (simp_all add: trace_step_skip split: prod.splits)

primrec fill_events :: "order_filled list \<Rightarrow> ledger \<Rightarrow> msg list" where
  "fill_events [] l = []"
| "fill_events (f # fs) l = (case on_filled f l of (l', ms) \<Rightarrow> ms @ fill_events fs l')"

primrec ledgers :: "order_filled list \<Rightarrow> ledger \<Rightarrow> ledger list" where
  "ledgers [] l = []"
| "ledgers (f # fs) l = fst (on_filled f l) # ledgers fs (fst (on_filled f l))"

definition marked_value :: "ledger \<Rightarrow> real" where
  "marked_value l = balance l + (\<Sum>p\<leftarrow>positions l. of_int (ps_quantity p) * ps_ltp p)"

text \<open>The trace's positions are the ledger's.\<close>

definition shadows :: "trace_state \<Rightarrow> ledger \<Rightarrow> bool" where
  "shadows s l \<longleftrightarrow>
     distinct (keys (tr_positions s)) \<and> tr_cash s = balance l \<and>
     (\<forall>sy. map_of (tr_positions s) sy = map_option (\<lambda>p. (ps_quantity p, ps_ltp p)) (find_position (positions l) sy))"

lemma find_position_map_of:
  "map_option f (find_position ps sy) = map_of (map (\<lambda>p. (ps_symbol p, f p)) ps) sy"
  by (induction ps) auto

lemma sum_by_keys:
  assumes "distinct (map fst xs)" and "distinct (map fst ys)" and "map_of xs = map_of ys"
  shows "(\<Sum>x\<leftarrow>xs. g x) = (\<Sum>y\<leftarrow>ys. (g y :: real))"
proof -
  have "set xs = set ys" using assms by (metis map_of_inject_set)
  moreover have "distinct xs" "distinct ys" using assms by (simp_all add: distinct_map)
  ultimately show ?thesis by (simp add: sum_list_distinct_conv_sum_set)
qed

lemma shadows_equity:
  assumes "shadows s l" and "wf_ledger l"
  shows "trace_equity s = marked_value l"
proof -
  let ?ys = "map (\<lambda>p. (ps_symbol p, (ps_quantity p, ps_ltp p))) (positions l)"
  have "map_of (tr_positions s) = map_of ?ys"
    using assms(1) by (auto simp: shadows_def find_position_map_of)
  moreover have "distinct (map fst ?ys)" using assms(2) by (simp add: wf_ledger_def wf_positions_def comp_def)
  ultimately have "(\<Sum>(sy, q, ltp)\<leftarrow>tr_positions s. of_int q * ltp) = (\<Sum>(sy, q, ltp)\<leftarrow>?ys. of_int q * ltp)"
    using assms(1) by (intro sum_by_keys) (auto simp: shadows_def)
  then show ?thesis using assms(1) by (simp add: trace_equity_def marked_value_def shadows_def comp_def)
qed

lemma net_fill_lookup:
  assumes "wf_positions ps"
  shows "find_position (net_fill e ps) sy = (if sy = of_symbol e then remaining_position e ps else find_position ps sy)"
proof (cases "find_position ps (of_symbol e)")
  case None
  then show ?thesis by (simp add: net_fill_def remaining_position_def find_position_append split: option.splits)
next
  case (Some p)
  have "distinct (map ps_symbol ps)" using assms by (simp add: wf_positions_def)
  then show ?thesis
    using Some
    by (simp add: net_fill_def remaining_position_def Let_def find_position_update find_position_remove1)
qed

lemma remaining_position_facts:
  assumes "wf_positions ps" and "of_quantity e \<noteq> 0" and "remaining_position e ps = Some p"
  shows "ps_ltp p = of_fill_price e" "ps_quantity p \<noteq> 0"
proof -
  show "ps_ltp p = of_fill_price e"
    using assms(3)
    by (auto simp: remaining_position_def net_fill_def Let_def find_position_append find_position_update
        split: option.splits if_splits)
  have "find_position (net_fill e ps) (of_symbol e) = Some p"
    using assms(1,3) by (simp add: net_fill_lookup)
  then show "ps_quantity p \<noteq> 0"
    using net_fill_wf [OF assms(1,2)] find_position_SomeD by (fastforce simp: wf_positions_def list_all_iff)
qed

lemma trace_fill:
  assumes "shadows s l" and "wf_ledger l" and "of_quantity f \<noteq> 0" and "on_filled f l = (l', ms)"
  shows "\<exists>s'. shadows s' l' \<and> tr_peak s' = max (tr_peak s) (marked_value l') \<and>
    (\<forall>rest. trace_from (ms @ rest) s = (tr_peak s', marked_value l') # trace_from rest s')"
proof -
  have wf: "wf_positions (positions l)" using assms(2) by (simp add: wf_ledger_def)
  let ?rem = "remaining_position f (positions l)"
  have l': "positions l' = net_fill f (positions l)" "balance l' = settle_cash f (balance l)"
    using assms(4) by (auto simp: on_filled_def Let_def)
  define d where "d = (case ?rem of None \<Rightarrow> AList.delete (of_symbol f) (tr_positions s)
      | Some p \<Rightarrow> AList.update (of_symbol f) (ps_quantity p, of_fill_price f) (tr_positions s))"
  define s1 where "s1 = s\<lparr>tr_positions := d, tr_cash := balance l'\<rparr>"
  have "shadows s1 l'"
    using assms(1) remaining_position_facts [OF wf assms(3)] net_fill_lookup [OF wf, of f]
    by (auto simp: shadows_def s1_def d_def l' distinct_update distinct_delete split: option.splits)
  moreover have wf': "wf_ledger l'"
    using net_fill_wf [OF wf assms(3)] by (simp add: wf_ledger_def l')
  ultimately have eq: "trace_equity s1 = marked_value l'" by (rule shadows_equity)
  have "trace_from (ms @ rest) s = (max (tr_peak s1) (trace_equity s1), trace_equity s1) #
      trace_from rest (s1\<lparr>tr_peak := max (tr_peak s1) (trace_equity s1)\<rparr>)" for rest
    using assms(4) remaining_position_facts(2) [OF wf assms(3)]
    by (auto simp: on_filled_def Let_def s1_def d_def l' split: option.splits)
  moreover have "shadows (s1\<lparr>tr_peak := max (tr_peak s1) (trace_equity s1)\<rparr>) l'"
    using \<open>shadows s1 l'\<close> by (simp add: shadows_def)
  ultimately show ?thesis
    by (intro exI [of _ "s1\<lparr>tr_peak := max (tr_peak s1) (trace_equity s1)\<rparr>"]) (simp add: eq, simp add: s1_def)
qed

lemma trace_session:
  assumes "shadows s l" and "wf_ledger l" and "list_all (\<lambda>f. of_quantity f \<noteq> 0) fs"
  shows "map snd (trace_from (fill_events fs l) s) = map marked_value (ledgers fs l)"
  using assms
proof (induction fs arbitrary: s l)
  case Nil
  then show ?case by simp
next
  case (Cons f fs)
  obtain l' ms where f: "on_filled f l = (l', ms)" by force
  from trace_fill [OF Cons.prems(1,2) _ f] Cons.prems(3) obtain s' where s': "shadows s' l'"
    "\<And>rest. trace_from (ms @ rest) s = (tr_peak s', marked_value l') # trace_from rest s'" by auto
  have "wf_ledger l'"
    using net_fill_wf [of "positions l" f] Cons.prems(2,3) f by (auto simp: on_filled_def Let_def wf_ledger_def)
  with Cons.IH [OF s'(1)] Cons.prems(3) f s'(2) show ?case by simp
qed

section \<open>Properties\<close>

definition opening_ledger :: "real \<Rightarrow> ledger" where
  "opening_ledger cash = \<lparr>positions = [], balance = cash\<rparr>"

lemma abs_diff_step: "\<bar>a - b\<bar> \<le> c \<Longrightarrow> \<bar>x - y\<bar> \<le> d \<Longrightarrow> \<bar>(a + x) - (b + y)\<bar> \<le> (c::real) + d"
  by linarith

lemma marked_value_close:
  "\<bar>marked_value l - equity \<lparr>rx_ledger = l, rx_instruments = inst, rx_now = now\<rparr>\<bar> \<le> real (length (positions l)) / 200"
proof -
  have "\<bar>(\<Sum>p\<leftarrow>ps. of_int (ps_quantity p) * ps_ltp p) - (\<Sum>p\<leftarrow>ps. market_value p)\<bar> \<le> real (length ps) / 200" for ps
  proof (induction ps)
    case (Cons p ps)
    have "\<bar>of_int (ps_quantity p) * ps_ltp p - market_value p\<bar> \<le> 1 / 200"
      using py_round_error [of 2 "of_int (ps_quantity p) * ps_ltp p"] by (simp add: market_value_def abs_minus_commute)
    from abs_diff_step [OF this Cons.IH] show ?case by (simp add: add_divide_distrib)
  qed simp
  then show ?thesis by (simp add: marked_value_def equity_def)
qed

lemma worst_drawdown_aux:
  "fold (\<lambda>(peak, eq) d. if peak > 0 then max d ((peak - eq) / peak * 100) else d) tr d0 \<ge> (d0::real) \<and>
   (\<forall>(peak, eq) \<in> set tr. peak > 0 \<longrightarrow>
      (peak - eq) / peak * 100 \<le> fold (\<lambda>(peak, eq) d. if peak > 0 then max d ((peak - eq) / peak * 100) else d) tr d0) \<and>
   (fold (\<lambda>(peak, eq) d. if peak > 0 then max d ((peak - eq) / peak * 100) else d) tr d0 = d0 \<or>
    (\<exists>(peak, eq) \<in> set tr. peak > 0 \<and>
       fold (\<lambda>(peak, eq) d. if peak > 0 then max d ((peak - eq) / peak * 100) else d) tr d0 = (peak - eq) / peak * 100))"
proof (induction tr arbitrary: d0)
  case (Cons x tr)
  obtain peak eq where x: "x = (peak, eq)" by force
  show ?case
    using Cons.IH [of "if peak > 0 then max d0 ((peak - eq) / peak * 100) else d0"] unfolding x
    by (auto simp: max_def split: if_splits) (fastforce+)?
qed simp

text \<open>C10: The rebuilt equity path of a session of fills, whatever other events are recorded between them, is the cash plus the
  marked positions of the portfolio engine's ledger at the start and after every fill, and so within half a paisa per position of
  the equity the risk engine computes there.\<close>

theorem trace_is_marked_ledger:
  assumes "filter is_read_model history = fill_events fs (opening_ledger cash)"
    and "list_all (\<lambda>f. of_quantity f \<noteq> 0) fs"
  shows "map snd (equity_trace history cash) = map marked_value (opening_ledger cash # ledgers fs (opening_ledger cash)) \<and>
    list_all2 (\<lambda>eq l. \<bar>eq - equity \<lparr>rx_ledger = l, rx_instruments = inst, rx_now = now\<rparr>\<bar> \<le> real (length (positions l)) / 200)
      (map snd (equity_trace history cash)) (opening_ledger cash # ledgers fs (opening_ledger cash))"
proof -
  let ?s = "\<lparr>tr_cash = cash, tr_positions = [], tr_peak = cash\<rparr>"
  have "shadows ?s (opening_ledger cash)" by (simp add: shadows_def opening_ledger_def)
  moreover have "wf_ledger (opening_ledger cash)" by (simp add: wf_ledger_def wf_positions_def opening_ledger_def)
  ultimately have "map snd (trace_from (filter is_read_model history) ?s) = map marked_value (ledgers fs (opening_ledger cash))"
    unfolding assms(1) by (rule trace_session) (rule assms(2))
  then have eq: "map snd (equity_trace history cash) = map marked_value (opening_ledger cash # ledgers fs (opening_ledger cash))"
    by (simp add: equity_trace_def marked_value_def opening_ledger_def flip: trace_from_filter)
  then show ?thesis
    unfolding eq using marked_value_close by (simp only: list_all2_map1 list_all2_same) blast
qed

text \<open>The reported drawdown is the worst of the path: no point of it lies further below its peak, and it is zero or
  attained, both up to the rounding of the report.\<close>

theorem report_drawdown_worst:
  assumes "rp_max_drawdown_pct (build_paper_report history led cash) = d"
  shows "(\<forall>(peak, eq) \<in> set (equity_trace history cash). peak > 0 \<longrightarrow> (peak - eq) / peak * 100 \<le> d + 1 / 200) \<and> d \<ge> 0 \<and>
    (d = 0 \<or> (\<exists>(peak, eq) \<in> set (equity_trace history cash). peak > 0 \<and> d = py_round 2 ((peak - eq) / peak * 100)))"
proof -
  let ?w = "worst_drawdown (equity_trace history cash)"
  have d: "d = py_round 2 ?w" using assms by (simp add: build_paper_report_def Let_def)
  have "\<bar>d - ?w\<bar> \<le> 1 / 200" using py_round_error [of 2 ?w] by (simp add: d)
  then have close: "?w \<le> d + 1 / 200" by linarith
  note w = worst_drawdown_aux [of 0 "equity_trace history cash", folded worst_drawdown_def]
  have "\<forall>(peak, eq) \<in> set (equity_trace history cash). peak > 0 \<longrightarrow> (peak - eq) / peak * 100 \<le> d + 1 / 200"
    using w close by fastforce
  moreover have "d \<ge> 0" using w by (simp add: d py_round_nonneg)
  moreover have "d = 0 \<or> (\<exists>(peak, eq) \<in> set (equity_trace history cash). peak > 0 \<and> d = py_round 2 ((peak - eq) / peak * 100))"
    using w by (auto simp: d)
  ultimately show ?thesis by blast
qed

section \<open>Witnesses\<close>

theorem trace_is_marked_ledger_witness:
  "map snd (equity_trace (OrderFilledEvent buy_10 # fill_events [buy_10] (opening_ledger 100000)) 100000) =
     [100000, marked_value (fst (on_filled buy_10 (opening_ledger 100000)))]"
proof -
  have "filter is_read_model (OrderFilledEvent buy_10 # fill_events [buy_10] (opening_ledger 100000)) =
      fill_events [buy_10] (opening_ledger 100000)"
    by (simp add: on_filled_def Let_def)
  from trace_is_marked_ledger [OF this, where now = "naive 0" and inst = "[]"] show ?thesis
    by (simp add: buy_10_def opening_ledger_def marked_value_def)
qed

theorem report_drawdown_worst_witness:
  "0 \<le> rp_max_drawdown_pct (build_paper_report [BalanceChangedEvent \<lparr>ts = naive 0, bc_balance = 90\<rparr>] cash_100k 100)"
  using report_drawdown_worst [OF refl] by blast

end
