(* ===== verification/PaperTrader.thy ===== *)
theory PaperTrader
  imports PositionSync Gate
begin

text \<open>
  \<open>api/paper_trader.py\<close>: the paper-trading service with its FIFO book of fills.

  The service's state is \<open>paper_service\<close>; the session it owns is represented by what the service reads of it
  (the kernel's ledger, risk engine and event history, arguments of \<open>snapshot\<close> and \<open>status\<close>).  The
  instrument master and the construction of the session and its strategy are arguments.

  The lemmas show that a fill is matched first in, first out against the opposite open lots for
  exactly its quantity, and that scanning the history again records no fill twice.  They also show
  three flaws: a closing fill stays on the book as an open lot, signals are recorded again by every
  scan, and the reported equity leaves out what the open position cost.
\<close>

section \<open>FIFO matching\<close>

record lot =
  lt_order_id :: string
  lt_symbol :: string
  lt_side :: string
  lt_quantity :: int
  lt_price :: real
  lt_open_qty :: int
  lt_pnl :: real
  lt_ts :: datetime

definition closing_side :: "order_filled \<Rightarrow> string" where
  "closing_side e = (if of_side e = BUY then SELL else BUY)"

definition lot_matches :: "order_filled \<Rightarrow> lot \<Rightarrow> bool" where
  "lot_matches e f \<longleftrightarrow> lt_symbol f = of_symbol e \<and> lt_side f = closing_side e"

definition lot_pnl :: "order_filled \<Rightarrow> lot \<Rightarrow> int \<Rightarrow> real" where
  "lot_pnl e f tak = (if of_side e = SELL then 1 else - 1) * (of_fill_price e - lt_price f) * of_int tak"

fun match_lots :: "order_filled \<Rightarrow> lot list \<Rightarrow> int \<Rightarrow> real \<times> lot list" where
  "match_lots e [] remaining = (0, [])"
| "match_lots e (f # fs) remaining =
     (if \<not> lot_matches e f then (case match_lots e fs remaining of (p, fs') \<Rightarrow> (p, f # fs'))
      else
        (let tak = min remaining (lt_open_qty f)
         in if tak \<le> 0 then (case match_lots e fs remaining of (p, fs') \<Rightarrow> (p, f # fs'))
            else
              (let f' = f\<lparr>lt_open_qty := lt_open_qty f - tak\<rparr>
               in if remaining - tak = 0 then (lot_pnl e f tak, f' # fs)
                  else (case match_lots e fs (remaining - tak) of (p, fs') \<Rightarrow> (lot_pnl e f tak + p, f' # fs')))))"

definition realized_pnl :: "lot list \<Rightarrow> order_filled \<Rightarrow> real \<times> lot list" where
  "realized_pnl fills e = match_lots e fills (of_quantity e)"

definition record_fill :: "order_filled \<Rightarrow> lot list \<Rightarrow> lot list" where
  "record_fill e fills =
     (if of_order_id e \<in> lt_order_id ` set fills then fills
      else (case realized_pnl fills e of
              (p, fills') \<Rightarrow>
                fills' @ [\<lparr>lt_order_id = of_order_id e, lt_symbol = of_symbol e, lt_side = of_side e,
                           lt_quantity = of_quantity e, lt_price = py_round 4 (of_fill_price e),
                           lt_open_qty = of_quantity e, lt_pnl = py_round 4 p, lt_ts = ts e\<rparr>]))"

section \<open>Signals\<close>

record paper_signal =
  gs_side :: string
  gs_quantity :: int
  gs_price :: real
  gs_metadata :: metadata
  gs_ts :: datetime

definition is_recorded_signal :: "signal_generated \<Rightarrow> bool" where
  "is_recorded_signal e \<longleftrightarrow>
     map_of (sg_metadata e) ''exit_reason'' \<noteq> None \<or> map_of (sg_metadata e) ''phase'' = Some (PStr ''signal'')"

text \<open>\<open>float(meta.get("reference_price") or 0.0)\<close>, for a number; other values are not used there.\<close>

definition meta_number :: "metadata \<Rightarrow> string \<Rightarrow> real" where
  "meta_number md k =
     (case map_of md k of Some (PFloat x) \<Rightarrow> x | Some (PInt n) \<Rightarrow> of_int n | _ \<Rightarrow> 0)"

definition record_signal :: "signal_generated \<Rightarrow> paper_signal list \<Rightarrow> paper_signal list" where
  "record_signal e sigs =
     (if is_recorded_signal e
      then sigs @ [\<lparr>gs_side = sg_side e, gs_quantity = sg_quantity e,
                    gs_price = py_round 4 (meta_number (sg_metadata e) ''reference_price''),
                    gs_metadata = sg_metadata e, gs_ts = ts e\<rparr>]
      else sigs)"

section \<open>The service\<close>

datatype http_error = HTTPException nat string

record paper_service =
  sv_initial_cash :: real
  sv_symbol :: "string option"
  sv_exchange :: string
  sv_lot_size :: int
  sv_started_at :: "datetime option"
  sv_error :: "string option"
  sv_fills :: "lot list"
  sv_signals :: "paper_signal list"
  sv_strategy :: "string option"

definition new_paper_service :: "real \<Rightarrow> paper_service" where
  "new_paper_service cash =
     \<lparr>sv_initial_cash = cash, sv_symbol = None, sv_exchange = ''NFO'', sv_lot_size = 1, sv_started_at = None,
      sv_error = None, sv_fills = [], sv_signals = [], sv_strategy = None\<rparr>"

definition running :: "paper_service \<Rightarrow> bool" where
  "running s \<longleftrightarrow> sv_symbol s \<noteq> None"

text \<open>\<open>master sy\<close> is the lot size of the instrument master's contract, if it knows one.\<close>

definition resolve_lot_size :: "(string \<Rightarrow> int option) \<Rightarrow> string \<Rightarrow> int option \<Rightarrow> http_error + int" where
  "resolve_lot_size master sy lot_size =
     (case lot_size of
        Some n \<Rightarrow> if n > 0 then Inr n else
          (case master sy of Some m \<Rightarrow> if m \<noteq> 0 then Inr m
                                       else Inl (HTTPException 422 (''unknown lot size for '' @ sy @ ''; pass lot_size explicitly''))
           | None \<Rightarrow> Inl (HTTPException 422 (''unknown lot size for '' @ sy @ ''; pass lot_size explicitly'')))
      | None \<Rightarrow>
          (case master sy of Some m \<Rightarrow> if m \<noteq> 0 then Inr m
                                       else Inl (HTTPException 422 (''unknown lot size for '' @ sy @ ''; pass lot_size explicitly''))
           | None \<Rightarrow> Inl (HTTPException 422 (''unknown lot size for '' @ sy @ ''; pass lot_size explicitly''))))"

text \<open>\<open>build sid sy\<close> is what instantiating the strategy and opening the session answers.\<close>

definition build_session ::
  "(string \<Rightarrow> int option) \<Rightarrow> (string \<Rightarrow> string \<Rightarrow> py_error option) \<Rightarrow> string \<Rightarrow> string \<Rightarrow> int option \<Rightarrow> string option \<Rightarrow>
   paper_service \<Rightarrow> (http_error + py_error option) \<times> paper_service" where
  "build_session master build sy exchange lot_size sid_opt s =
     (case resolve_lot_size master sy lot_size of
        Inl e \<Rightarrow> (Inl e, s)
      | Inr n \<Rightarrow>
          (let s = s\<lparr>sv_lot_size := n\<rparr>;
               sid = py_strip (case sid_opt of Some (c # cs) \<Rightarrow> c # cs | _ \<Rightarrow> ''halftrend'')
           in case build sid sy of
                Some e \<Rightarrow> (Inr (Some e), s)
              | None \<Rightarrow> (Inr None, s\<lparr>sv_symbol := Some sy, sv_exchange := exchange, sv_strategy := Some sid,
                                     sv_fills := [], sv_signals := []\<rparr>)))"

definition paper_start ::
  "(string \<Rightarrow> int option) \<Rightarrow> (string \<Rightarrow> string \<Rightarrow> py_error option) \<Rightarrow> bool \<Rightarrow> datetime \<Rightarrow> string \<Rightarrow> string \<Rightarrow> int option \<Rightarrow>
   string option \<Rightarrow> paper_service \<Rightarrow> (http_error + unit) \<times> paper_service" where
  "paper_start master build live_feed now sy exchange lot_size sid_opt s =
     (if \<not> live_feed
      then (Inl (HTTPException 422 ''paper trading requires a real live feed (run --provider dhan --live-stream)''), s)
      else if running s then (Inr (), s)
      else (case build_session master build (upper (py_strip sy)) (upper exchange) lot_size sid_opt s of
              (Inl e, s) \<Rightarrow> (Inl e, s)
            | (Inr (Some e), s) \<Rightarrow> (Inl (HTTPException 500 (error_text e)), s\<lparr>sv_error := Some (error_text e)\<rparr>)
            | (Inr None, s) \<Rightarrow> (Inr (), s\<lparr>sv_started_at := Some now, sv_error := None\<rparr>)))"

definition paper_stop :: "paper_service \<Rightarrow> paper_service" where
  "paper_stop s = s\<lparr>sv_symbol := None, sv_strategy := None\<rparr>"

definition on_pump_tick :: "string \<Rightarrow> string \<Rightarrow> real \<Rightarrow> int \<Rightarrow> datetime \<Rightarrow> paper_service \<Rightarrow> msg list" where
  "on_pump_tick sy exchange price qty t s =
     (if sv_symbol s = Some sy
      then [TickEvent \<lparr>ts = t, tk_symbol = sy, tk_exchange = exchange, tk_price = price, tk_quantity = qty,
                       tk_side = [], tk_kind = ''trade''\<rparr>]
      else [])"

section \<open>The snapshot loop\<close>

fun scan_event :: "msg \<Rightarrow> paper_service \<Rightarrow> paper_service" where
  "scan_event (OrderFilledEvent e) s = s\<lparr>sv_fills := record_fill e (sv_fills s)\<rparr>"
| "scan_event (SignalGeneratedEvent e) s =
     (if is_recorded_signal e then s\<lparr>sv_signals := record_signal e (sv_signals s)\<rparr> else s)"
| "scan_event _ s = s"

definition scan_history :: "msg list \<Rightarrow> paper_service \<Rightarrow> paper_service" where
  "scan_history history s = fold scan_event history s"

text \<open>One pass: mark the position, reconcile (the paper broker reports no cash), check the breakers, scan.  Events
  the pass itself publishes are neither fills nor signals.\<close>

definition snapshot ::
  "datetime \<Rightarrow> instruments \<Rightarrow> real option \<Rightarrow> py_error + position list option \<Rightarrow> msg list \<Rightarrow>
   paper_service \<times> ledger \<times> risk_engine \<Rightarrow> (paper_service \<times> ledger \<times> risk_engine) \<times> msg list" where
  "snapshot now is bar_close answer history st =
     (case st of (s, led, risk) \<Rightarrow>
        (case sv_symbol s of
           None \<Rightarrow> (st, [])
         | Some sy \<Rightarrow>
             (let led = (case bar_close of
                           None \<Rightarrow> led
                         | Some c \<Rightarrow> led\<lparr>positions := update_position sy (\<lambda>p. p\<lparr>ps_ltp := c\<rparr>) (positions led)\<rparr>)
              in case sync now False answer (Inr None) (led, Some risk) of
                   (_, (led, risk'), ms) \<Rightarrow>
                     (case risk_check \<lparr>rx_ledger = led, rx_instruments = is, rx_now = now\<rparr> (some_or risk' risk) of
                        (_, risk, ms') \<Rightarrow> ((scan_history history s, led, risk), ms @ ms')))))"

section \<open>Status\<close>

record position_row =
  pr_symbol :: string
  pr_quantity :: int
  pr_avg_price :: real
  pr_ltp :: real
  pr_pnl :: real

record paper_status =
  pt_running :: bool
  pt_symbol :: "string option"
  pt_exchange :: "string option"
  pt_lot_size :: "int option"
  pt_initial_cash :: real
  pt_balance :: real
  pt_equity :: real
  pt_positions :: "position_row list"
  pt_trades :: "lot list"
  pt_n_trades :: nat
  pt_realized :: real
  pt_unrealized :: real
  pt_started_at :: "datetime option"
  pt_error :: "string option"
  pt_strategy :: "string option"

definition unrealized :: "ledger \<Rightarrow> string \<Rightarrow> real" where
  "unrealized led sy =
     (case find_position (positions led) sy of
        None \<Rightarrow> 0
      | Some p \<Rightarrow> (ps_ltp p - ps_avg_price p) * of_int (ps_quantity p))"

definition position_row_of :: "position \<Rightarrow> position_row" where
  "position_row_of p =
     \<lparr>pr_symbol = ps_symbol p, pr_quantity = ps_quantity p, pr_avg_price = py_round 4 (ps_avg_price p),
      pr_ltp = py_round 4 (ps_ltp p), pr_pnl = py_round 2 (pnl p)\<rparr>"

text \<open>The strategy part of the answer is its id; what the strategy object shows of its own state is left out.\<close>

definition status :: "ledger \<Rightarrow> paper_service \<Rightarrow> paper_status" where
  "status led s =
     (case sv_symbol s of
        None \<Rightarrow> \<lparr>pt_running = False, pt_symbol = None, pt_exchange = None, pt_lot_size = None,
                 pt_initial_cash = py_round 2 (sv_initial_cash s), pt_balance = py_round 2 (sv_initial_cash s),
                 pt_equity = py_round 2 (sv_initial_cash s), pt_positions = [], pt_trades = [], pt_n_trades = 0,
                 pt_realized = 0, pt_unrealized = 0, pt_started_at = None, pt_error = sv_error s, pt_strategy = None\<rparr>
      | Some sy \<Rightarrow>
          \<lparr>pt_running = True, pt_symbol = Some sy, pt_exchange = Some (sv_exchange s), pt_lot_size = Some (sv_lot_size s),
           pt_initial_cash = py_round 2 (sv_initial_cash s), pt_balance = py_round 2 (balance led),
           pt_equity = py_round 2 (balance led + unrealized led sy),
           pt_positions = map position_row_of (positions led),
           pt_trades = last_n 20 (sv_fills s), pt_n_trades = length (sv_fills s),
           pt_realized = py_round 2 (\<Sum>f\<leftarrow>sv_fills s. lt_pnl f), pt_unrealized = py_round 2 (unrealized led sy),
           pt_started_at = sv_started_at s, pt_error = sv_error s, pt_strategy = sv_strategy s\<rparr>)"

section \<open>Matching is exact\<close>

abbreviation open_against :: "order_filled \<Rightarrow> lot list \<Rightarrow> int" where
  "open_against e fs \<equiv> (\<Sum>f\<leftarrow>filter (lot_matches e) fs. lt_open_qty f)"

lemma lot_matches_open_qty [simp]: "lot_matches e (f\<lparr>lt_open_qty := q\<rparr>) = lot_matches e f"
  by (simp add: lot_matches_def)

lemma match_lots_open:
  assumes "match_lots e fs rem = (p, fs')" and "0 \<le> rem" and "list_all (\<lambda>f. 0 \<le> lt_open_qty f) fs"
  shows "open_against e fs' = max 0 (open_against e fs - rem) \<and> list_all (\<lambda>f. 0 \<le> lt_open_qty f) fs' \<and>
    filter (\<lambda>f. \<not> lot_matches e f) fs' = filter (\<lambda>f. \<not> lot_matches e f) fs \<and> map lt_order_id fs' = map lt_order_id fs"
  using assms
proof (induction e fs rem arbitrary: p fs' rule: match_lots.induct)
  case (1 e rem)
  then show ?case by simp
next
  case (2 e f fs rem)
  have nonneg: "0 \<le> open_against e fs"
    using "2.prems"(3) by (intro sum_list_nonneg) (auto simp: list_all_iff)
  obtain q gs where r: "match_lots e fs rem = (q, gs)" by force
  show ?case
  proof (cases "lot_matches e f \<and> 0 < min rem (lt_open_qty f)")
    case False
    then have "\<not> lot_matches e f \<or> min rem (lt_open_qty f) \<le> 0" by auto
    then have fs': "fs' = f # gs" using "2.prems"(1) r by (auto simp: Let_def split: if_splits)
    have IH: "open_against e gs = max 0 (open_against e fs - rem) \<and> list_all (\<lambda>f. 0 \<le> lt_open_qty f) gs \<and>
        filter (\<lambda>f. \<not> lot_matches e f) gs = filter (\<lambda>f. \<not> lot_matches e f) fs \<and> map lt_order_id gs = map lt_order_id fs"
    proof (cases "lot_matches e f")
      case True
      then show ?thesis using "2.IH"(2) [OF _ refl _ r] False "2.prems" by auto
    next
      case False
      then show ?thesis using "2.IH"(1) [OF _ r] "2.prems" by simp
    qed
    then show ?thesis using "2.prems"(2,3) False nonneg fs' by (auto simp: min_def max_def split: if_splits)
  next
    case True
    define tak where "tak = min rem (lt_open_qty f)"
    show ?thesis
    proof (cases "rem = tak")
      case eq: True
      have le: "rem \<le> lt_open_qty f" and pos: "0 < rem" using eq True by (simp_all add: tak_def min_def split: if_splits)
      then have "min rem (lt_open_qty f) = rem" by simp
      then have "fs' = f\<lparr>lt_open_qty := lt_open_qty f - rem\<rparr> # fs"
        using "2.prems"(1) True pos by (simp add: Let_def)
      then show ?thesis
        using True le nonneg "2.prems"(3) by simp
    next
      case ne: False
      obtain q' gs' where r': "match_lots e fs (rem - tak) = (q', gs')" by force
      have fs': "fs' = f\<lparr>lt_open_qty := lt_open_qty f - tak\<rparr> # gs'"
        using "2.prems"(1) True ne r' by (auto simp: Let_def tak_def split: if_splits prod.splits)
      have tak: "tak = lt_open_qty f" "tak < rem" using ne True by (auto simp: tak_def min_def split: if_splits)
      have "open_against e gs' = max 0 (open_against e fs - (rem - tak)) \<and> list_all (\<lambda>f. 0 \<le> lt_open_qty f) gs' \<and>
          filter (\<lambda>f. \<not> lot_matches e f) gs' = filter (\<lambda>f. \<not> lot_matches e f) fs \<and> map lt_order_id gs' = map lt_order_id fs"
        using "2.IH"(3) [OF _ tak_def _ refl _ r'] True ne tak "2.prems" by (auto simp: tak_def)
      then show ?thesis using fs' tak True nonneg by simp
    qed
  qed
qed

lemma match_lots_none:
  "filter (\<lambda>f. lot_matches e f \<and> 0 < lt_open_qty f) fs = [] \<Longrightarrow> match_lots e fs rem = (0, fs)"
  by (induction fs) (auto simp: Let_def split: if_splits)

section \<open>Properties\<close>

lemma record_fill_ids: "lt_order_id ` set (record_fill e fs) = insert (of_order_id e) (lt_order_id ` set fs)"
proof -
  have "map lt_order_id (snd (match_lots e fs rem)) = map lt_order_id fs" for rem
    by (induction e fs rem rule: match_lots.induct) (auto simp: Let_def split: prod.splits)
  then have "lt_order_id ` set (snd (match_lots e fs (of_quantity e))) = lt_order_id ` set fs"
    by (metis set_map)
  then show ?thesis
    by (cases "match_lots e fs (of_quantity e)") (auto simp: record_fill_def realized_pnl_def)
qed

text \<open>C29: A new fill takes exactly its quantity from the open lots of the other side, or all of them if there are fewer, leaves
  every other lot alone and never makes a lot negative.\<close>

theorem fill_matched_exactly:
  assumes "record_fill e fs = fs'" and "of_order_id e \<notin> lt_order_id ` set fs" and "0 \<le> of_quantity e"
    and "list_all (\<lambda>f. 0 \<le> lt_open_qty f) fs"
  shows "open_against e fs' = max 0 (open_against e fs - of_quantity e) \<and> list_all (\<lambda>f. 0 \<le> lt_open_qty f) fs' \<and>
    filter (\<lambda>f. \<not> lot_matches e f) (butlast fs') = filter (\<lambda>f. \<not> lot_matches e f) fs \<and>
    map lt_order_id fs' = map lt_order_id fs @ [of_order_id e]"
proof -
  obtain p gs where m: "match_lots e fs (of_quantity e) = (p, gs)" by force
  have "\<not> (of_side e = closing_side e)" by (simp add: closing_side_def)
  with match_lots_open [OF m assms(3,4)] assms(1-3) m show ?thesis
    by (auto simp: record_fill_def realized_pnl_def lot_matches_def butlast_append)
qed

text \<open>Scanning a history again records no fill twice: the fills after a second scan are those after the first.\<close>

lemma scan_fills: "sv_fills (scan_history history s) = fold record_fill (fills_of history) (sv_fills s)"
proof (induction history arbitrary: s)
  case Nil
  then show ?case by (simp add: scan_history_def)
next
  case (Cons m history)
  have "sv_fills (scan_history (m # history) s) = sv_fills (scan_history history (scan_event m s))"
    by (simp add: scan_history_def)
  then show ?case using Cons.IH [of "scan_event m s"] by (cases m) simp_all
qed

lemma record_known: "set (map of_order_id es) \<subseteq> lt_order_id ` set fs \<Longrightarrow> fold record_fill es fs = fs"
  by (induction es) (auto simp: record_fill_def)

lemma fold_record_ids:
  "lt_order_id ` set (fold record_fill es fs) = lt_order_id ` set fs \<union> of_order_id ` set es"
  by (induction es arbitrary: fs) (auto simp: record_fill_ids)

theorem rescan_keeps_fills:
  "sv_fills (scan_history history (scan_history history s)) = sv_fills (scan_history history s)"
  by (simp add: scan_fills) (rule record_known, simp add: fold_record_ids)

text \<open>Signals have no such guard: every scan appends the recorded signals of the whole history again.\<close>

fun recorded_signals :: "msg list \<Rightarrow> nat" where
  "recorded_signals [] = 0"
| "recorded_signals (SignalGeneratedEvent e # ms) = (if is_recorded_signal e then 1 else 0) + recorded_signals ms"
| "recorded_signals (_ # ms) = recorded_signals ms"

lemma scan_signals_length: "length (sv_signals (scan_history history s)) = length (sv_signals s) + recorded_signals history"
proof (induction history arbitrary: s)
  case Nil
  then show ?case by (simp add: scan_history_def)
next
  case (Cons m history)
  have "sv_signals (scan_history (m # history) s) = sv_signals (scan_history history (scan_event m s))"
    by (simp add: scan_history_def)
  then show ?case using Cons.IH [of "scan_event m s"] by (cases m) (simp_all add: record_signal_def)
qed

theorem rescan_duplicates_signals:
  "length (sv_signals ((scan_history history ^^ n) s)) = length (sv_signals s) + n * recorded_signals history"
  by (induction n) (simp_all add: scan_signals_length algebra_simps)

text \<open>A closing fill stays on the book with its whole quantity as an open lot, so opening again after a closed round trip
  realizes the move since the exit: buying at \<open>p\<close>, selling at \<open>q\<close> and buying again at \<open>r\<close> books
  \<open>q - r\<close> per unit on the opening leg.\<close>

theorem reentry_realizes_pnl:
  assumes "of_side b1 = BUY" and "of_side s1 = SELL" and "of_side b2 = BUY"
    and "of_symbol s1 = of_symbol b1" and "of_symbol b2 = of_symbol b1"
    and "of_quantity b1 = n" and "of_quantity s1 = n" and "of_quantity b2 = n" and "0 < n"
    and "distinct [of_order_id b1, of_order_id s1, of_order_id b2]"
  shows "lt_pnl (last (record_fill b2 (record_fill s1 (record_fill b1 [])))) =
     py_round 4 ((py_round 4 (of_fill_price s1) - of_fill_price b2) * of_int n)"
  using assms
  by (auto simp: record_fill_def realized_pnl_def lot_matches_def closing_side_def lot_pnl_def Let_def algebra_simps)

text \<open>The reported equity is cash plus unrealized profit, but cash has already paid for the position: with one open
  position the reported equity is short of the marked value by the position's entry cost.\<close>

theorem reported_equity_misses_cost:
  assumes "sv_symbol s = Some (ps_symbol p)" and "positions led = [p]"
  shows "pt_equity (status led s) = py_round 2 (marked_value led - ps_avg_price p * of_int (ps_quantity p))"
  using assms by (simp add: status_def unrealized_def marked_value_def algebra_simps)

text \<open>C36: A start without a live feed, or for a symbol of unknown lot size, is refused with status 422 and opens no session;
  a failing strategy or session is reported with status 500; otherwise a session runs, the one that was already running
  or a new one with an empty book.\<close>

theorem paper_start_outcomes:
  assumes "paper_start master build feed now sy ex lots sid s = (res, s')"
  shows "(\<forall>code txt. res = Inl (HTTPException code txt) \<longrightarrow> code \<in> {422, 500} \<and> (feed \<longrightarrow> \<not> running s) \<and>
        sv_symbol s' = sv_symbol s \<and> sv_fills s' = sv_fills s \<and> (code = 500 \<longrightarrow> sv_error s' = Some txt)) \<and>
    (res = Inr () \<longrightarrow> feed \<and> running s' \<and>
       (running s \<and> s' = s \<or> \<not> running s \<and> sv_symbol s' = Some (upper (py_strip sy)) \<and> sv_fills s' = [] \<and> sv_error s' = None))"
proof (cases "feed \<and> \<not> running s")
  case False
  then show ?thesis using assms by (auto simp: paper_start_def split: if_splits)
next
  case True
  let ?sy = "upper (py_strip sy)"
  obtain r s1 where b: "build_session master build ?sy (upper ex) lots sid s = (r, s1)" by force
  have lot: "\<exists>txt. e = HTTPException 422 txt" if "resolve_lot_size master ?sy lots = Inl e" for e
    using that by (auto simp: resolve_lot_size_def split: option.splits if_splits)
  show ?thesis
  proof (cases "resolve_lot_size master ?sy lots")
    case (Inl e)
    then show ?thesis using assms True b lot [OF Inl] by (auto simp: paper_start_def build_session_def)
  next
    case (Inr n)
    then show ?thesis using assms True b
      by (auto simp: paper_start_def build_session_def Let_def running_def split: option.splits)
  qed
qed

section \<open>Witnesses\<close>

definition paper_buy :: order_filled where
  "paper_buy = buy_10\<lparr>of_order_id := ''P-1''\<rparr>"

definition paper_sell :: order_filled where
  "paper_sell = buy_10\<lparr>of_order_id := ''P-2'', of_side := SELL, of_fill_price := 120\<rparr>"

definition paper_rebuy :: order_filled where
  "paper_rebuy = buy_10\<lparr>of_order_id := ''P-3'', of_fill_price := 110\<rparr>"

lemmas paper_fills = paper_buy_def paper_sell_def paper_rebuy_def buy_10_def

theorem fill_matched_exactly_witness:
  "open_against paper_sell (record_fill paper_sell (record_fill paper_buy [])) = 0"
proof -
  have one: "record_fill paper_buy [] =
      [\<lparr>lt_order_id = ''P-1'', lt_symbol = of_symbol buy_10, lt_side = BUY, lt_quantity = 10,
        lt_price = py_round 4 (of_fill_price buy_10), lt_open_qty = 10, lt_pnl = 0, lt_ts = ts buy_10\<rparr>]"
    by (simp add: record_fill_def realized_pnl_def paper_fills)
  show ?thesis
    using fill_matched_exactly [OF refl, of paper_sell "record_fill paper_buy []"]
    by (simp add: one) (simp add: paper_fills lot_matches_def closing_side_def)
qed

theorem reentry_realizes_pnl_witness:
  "lt_pnl (last (record_fill paper_rebuy (record_fill paper_sell (record_fill paper_buy [])))) = 100"
  using reentry_realizes_pnl [of paper_buy paper_sell paper_rebuy 10] py_round_of_int [of 4 120] py_round_of_int [of 4 100]
  by (simp add: paper_fills)

theorem reported_equity_misses_cost_witness:
  "pt_equity (status \<lparr>positions = [reported_long], balance = 1000\<rparr> ((new_paper_service 1000)\<lparr>sv_symbol := Some ''TCS''\<rparr>)) = 1005"
  using reported_equity_misses_cost [of "(new_paper_service 1000)\<lparr>sv_symbol := Some ''TCS''\<rparr>" reported_long
      "\<lparr>positions = [reported_long], balance = 1000\<rparr>"] py_round_of_int [of 2 1005]
  by (simp add: reported_long_def marked_value_def)

theorem paper_start_outcomes_witness:
  "fst (paper_start (\<lambda>_. None) (\<lambda>_ _. None) True (naive 0) ''tcs'' ''nse'' None None (new_paper_service 1000)) \<noteq> Inr ()"
proof -
  obtain res s' where r: "paper_start (\<lambda>_. None) (\<lambda>_ _. None) True (naive 0) ''tcs'' ''nse'' None None (new_paper_service 1000) = (res, s')"
    by force
  then have "\<not> running s'"
    by (auto simp: paper_start_def build_session_def resolve_lot_size_def running_def new_paper_service_def)
  then show ?thesis using paper_start_outcomes [OF r] r by auto
qed

end
