(* ===== verification/Options.thy ===== *)
theory Options
  imports Market "HOL-Library.Multiset"
begin

text \<open>
  \<open>ntrade/domain/instruments/derivatives.py\<close> (\<open>Option\<close>, \<open>Future\<close>), \<open>expiry.py\<close> and \<open>chain.py\<close>: option contracts, the
  call/put pairs of an expiry, strike selection, and the chain with its analytics.

  A date is its ordinal.  \<open>nan\<close> for an unset greek is \<open>None\<close>.  The data frames (\<open>iv_surface\<close>, \<open>greeks_table\<close>,
  \<open>continuous\<close>) and the broker calls are left out; the pricing formulas are in \<open>Pricing\<close>.

  The lemmas show that the at-the-money strike is a nearest one, that the out- and in-the-money selections
  return the right legs on the right side of it, nearest first, that the strike index agrees with a search
  through the chain, that the expiries partition it, and that \<open>max_pain\<close> minimises the pay-out.
\<close>

section \<open>Options\<close>

datatype option_type = CE | PE

definition parse_option_type :: "string \<Rightarrow> py_error + option_type" where
  "parse_option_type s =
     (if upper s = ''CE'' then Inr CE else if upper s = ''PE'' then Inr PE
      else Inl (ValueError (repr_str (upper s) @ '' is not a valid OptionType'')))"

record greeks =
  gk_delta :: "real option"
  gk_gamma :: "real option"
  gk_theta :: "real option"
  gk_vega :: "real option"
  gk_rho :: "real option"
  gk_iv :: "real option"

definition no_greeks :: greeks where
  "no_greeks = \<lparr>gk_delta = Some 0, gk_gamma = Some 0, gk_theta = Some 0, gk_vega = Some 0, gk_rho = Some 0, gk_iv = None\<rparr>"

text \<open>\<open>op_underlying_ltp\<close> is the last price of the linked underlying, if one is linked.\<close>

record opt =
  op_symbol :: string
  op_exchange :: string
  op_strike :: real
  op_expiry :: int
  op_type :: option_type
  op_underlying_symbol :: string
  op_exercise_style :: string
  op_settlement :: string
  op_quote :: quote
  op_lot_size :: "int option"
  op_underlying_ltp :: "real option"
  op_greeks :: "greeks option"
  op_iv :: "real option"

definition new_option ::
  "string \<Rightarrow> string option \<Rightarrow> real \<Rightarrow> int \<Rightarrow> string \<Rightarrow> string \<Rightarrow> string \<Rightarrow> string \<Rightarrow> py_error + opt" where
  "new_option sy exchange strike expiry otype underlying style settlement =
     map_sum id (\<lambda>t. \<lparr>op_symbol = sy, op_exchange = (case exchange of Some (c # cs) \<Rightarrow> c # cs | _ \<Rightarrow> ''NFO''),
       op_strike = strike, op_expiry = expiry, op_type = t, op_underlying_symbol = underlying,
       op_exercise_style = upper style, op_settlement = upper settlement, op_quote = quote_empty,
       op_lot_size = None, op_underlying_ltp = None, op_greeks = None, op_iv = None\<rparr>) (parse_option_type otype)"

definition option_greeks :: "opt \<Rightarrow> greeks" where
  "option_greeks op = (case op_greeks op of None \<Rightarrow> no_greeks | Some g \<Rightarrow> g)"

definition set_greeks :: "greeks \<Rightarrow> opt \<Rightarrow> opt" where
  "set_greeks g op =
     (let op = op\<lparr>op_greeks := Some g\<rparr> in case gk_iv g of None \<Rightarrow> op | Some v \<Rightarrow> op\<lparr>op_iv := Some v\<rparr>)"

definition option_delta :: "opt \<Rightarrow> real option" where
  "option_delta op = Option.bind (op_greeks op) gk_delta"

definition spot_of :: "real option \<Rightarrow> opt \<Rightarrow> real" where
  "spot_of spot op =
     (case spot of
        Some s \<Rightarrow> s
      | None \<Rightarrow> (case op_underlying_ltp op of Some s \<Rightarrow> s | None \<Rightarrow> q_ltp (op_quote op)))"

definition intrinsic_value :: "real option \<Rightarrow> opt \<Rightarrow> real" where
  "intrinsic_value spot op =
     (let s = spot_of spot op
      in if op_type op = CE then max (s - op_strike op) 0 else max (op_strike op - s) 0)"

definition extrinsic_value :: "real option \<Rightarrow> opt \<Rightarrow> real" where
  "extrinsic_value spot op = py_round 4 (max (q_ltp (op_quote op) - intrinsic_value spot op) 0)"

definition moneyness :: "real option \<Rightarrow> opt \<Rightarrow> string" where
  "moneyness spot op =
     (let s = spot_of spot op
      in if s = 0 then ''unknown''
         else if op_type op = CE
         then (if s > op_strike op then ''ITM'' else if \<bar>s - op_strike op\<bar> / s < 5 / 1000 then ''ATM'' else ''OTM'')
         else (if s < op_strike op then ''ITM'' else if \<bar>s - op_strike op\<bar> / s < 5 / 1000 then ''ATM'' else ''OTM''))"

definition lot_or_one :: "opt \<Rightarrow> int" where
  "lot_or_one op = (case op_lot_size op of None \<Rightarrow> 1 | Some n \<Rightarrow> num_or n 1)"

definition option_payoff :: "real \<Rightarrow> real option \<Rightarrow> opt \<Rightarrow> real" where
  "option_payoff spot premium op =
     (let p = (case premium of Some v \<Rightarrow> v | None \<Rightarrow> q_ltp (op_quote op))
      in py_round 2 ((intrinsic_value (Some spot) op - p) * of_int (lot_or_one op)))"

definition option_pnl :: "real option \<Rightarrow> opt \<Rightarrow> real" where
  "option_pnl buy_price op =
     (let b = (case buy_price of Some v \<Rightarrow> v | None \<Rightarrow> q_ltp (op_quote op))
      in py_round 2 ((q_ltp (op_quote op) - b) * of_int (lot_or_one op)))"

definition years_to_expiry :: "int \<Rightarrow> opt \<Rightarrow> real" where
  "years_to_expiry today op = max (of_int (op_expiry op - today) / 365) (1 / 365)"

text \<open>\<open>SyntheticInstrument\<close>: the sums over its legs.\<close>

definition synthetic_ltp :: "real list \<Rightarrow> real" where
  "synthetic_ltp ltps = py_round 4 (sum_list ltps)"

definition synthetic_payoff :: "real \<Rightarrow> opt list \<Rightarrow> real" where
  "synthetic_payoff spot legs = py_round 2 (\<Sum>op\<leftarrow>legs. option_payoff spot None op)"

section \<open>Futures\<close>

record future =
  fu_quote :: quote
  fu_expiry :: "int option"
  fu_spot :: "real option"
  fu_next_ltp :: "real option"

definition basis :: "future \<Rightarrow> real" where
  "basis f =
     (case fu_spot f of
        None \<Rightarrow> 0
      | Some s \<Rightarrow> if s = 0 then 0 else py_round 4 (q_ltp (fu_quote f) - s))"

definition cost_of_carry :: "int \<Rightarrow> future \<Rightarrow> real" where
  "cost_of_carry today f =
     (case (fu_spot f, fu_expiry f) of
        (Some s, Some e) \<Rightarrow>
          if s = 0 then 0
          else (let days = e - today
                in if days \<le> 0 then 0
                   else py_round 4 (((q_ltp (fu_quote f) / s - 1) * 365 / of_int days) * 100))
      | _ \<Rightarrow> 0)"

definition roll_yield :: "future \<Rightarrow> real" where
  "roll_yield f =
     (case fu_next_ltp f of
        None \<Rightarrow> 0
      | Some n \<Rightarrow> if n = 0 \<or> q_ltp (fu_quote f) = 0 then 0 else py_round 4 ((q_ltp (fu_quote f) / n - 1) * 100))"

section \<open>Pairs\<close>

record option_pair =
  pr_strike :: real
  pr_call :: "opt option"
  pr_put :: "opt option"

definition leg_ltp :: "opt option \<Rightarrow> real" where
  "leg_ltp leg = (case leg of None \<Rightarrow> 0 | Some op \<Rightarrow> q_ltp (op_quote op))"

definition leg_oi :: "opt option \<Rightarrow> int" where
  "leg_oi leg = (case leg of None \<Rightarrow> 0 | Some op \<Rightarrow> q_oi (op_quote op))"

definition straddle_premium :: "option_pair \<Rightarrow> real" where
  "straddle_premium p = py_round 4 (leg_ltp (pr_call p) + leg_ltp (pr_put p))"

definition pair_pcr :: "option_pair \<Rightarrow> real" where
  "pair_pcr p =
     (if leg_oi (pr_call p) = 0 then 0 else py_round 4 (of_int (leg_oi (pr_put p)) / of_int (leg_oi (pr_call p))))"

definition synthetic_long_price :: "option_pair \<Rightarrow> real" where
  "synthetic_long_price p = py_round 4 (leg_ltp (pr_call p) - leg_ltp (pr_put p))"

definition synthetic_short_price :: "option_pair \<Rightarrow> real" where
  "synthetic_short_price p = py_round 4 (- synthetic_long_price p)"

section \<open>An expiry\<close>

text \<open>\<open>sorted({...})\<close>.\<close>

definition sorted_set :: "'a::linorder list \<Rightarrow> 'a list" where
  "sorted_set xs = sort (remdups xs)"

record expiry =
  ex_date :: int
  ex_options :: "opt list"
  ex_atm_strike :: real

definition calls_of :: "opt list \<Rightarrow> opt list" where
  "calls_of ops = filter (\<lambda>op. op_type op = CE) ops"

definition puts_of :: "opt list \<Rightarrow> opt list" where
  "puts_of ops = filter (\<lambda>op. op_type op = PE) ops"

definition ex_strikes :: "expiry \<Rightarrow> real list" where
  "ex_strikes e = sorted_set (map op_strike (ex_options e))"

text \<open>A dictionary built by a comprehension keeps the last value of a key.\<close>

definition last_at :: "real \<Rightarrow> opt list \<Rightarrow> opt option" where
  "last_at s ops = find (\<lambda>op. op_strike op = s) (rev ops)"

definition first_at :: "real \<Rightarrow> opt list \<Rightarrow> opt option" where
  "first_at s ops = find (\<lambda>op. op_strike op = s) ops"

definition pair_for :: "expiry \<Rightarrow> real \<Rightarrow> option_pair" where
  "pair_for e s =
     \<lparr>pr_strike = s, pr_call = last_at s (calls_of (ex_options e)), pr_put = last_at s (puts_of (ex_options e))\<rparr>"

text \<open>\<open>min(range(len(xs)), key=...)\<close>: the first index of a least value.\<close>

fun argmin_from :: "nat \<Rightarrow> nat \<Rightarrow> real \<Rightarrow> real list \<Rightarrow> nat" where
  "argmin_from i best bv [] = best"
| "argmin_from i best bv (x # xs) = (if x < bv then argmin_from (Suc i) i x xs else argmin_from (Suc i) best bv xs)"

definition argmin :: "real list \<Rightarrow> nat" where
  "argmin xs = (case xs of [] \<Rightarrow> 0 | x # ys \<Rightarrow> argmin_from 1 0 x ys)"

definition atm_index :: "expiry \<Rightarrow> nat" where
  "atm_index e = argmin (map (\<lambda>s. \<bar>s - ex_atm_strike e\<bar>) (ex_strikes e))"

definition ex_atm :: "int \<Rightarrow> expiry \<Rightarrow> py_error + option_pair" where
  "ex_atm offset e =
     (let n = int (length (ex_strikes e)); idx = max 0 (min (int (atm_index e) + offset) (n - 1))
      in if n = 0 then Inl (IndexErr ''list index out of range'') else Inr (pair_for e (ex_strikes e ! nat idx)))"

definition pair_at :: "real \<Rightarrow> expiry \<Rightarrow> py_error + option_pair" where
  "pair_at s e =
     (if s \<notin> set (ex_strikes e) then Inl (KeyErr (''No option pair at strike '' @ repr_float s)) else Inr (pair_for e s))"

text \<open>The legs of one type at the given strikes, each the first of its strike.\<close>

definition legs_at :: "option_type \<Rightarrow> opt list \<Rightarrow> real list \<Rightarrow> opt list" where
  "legs_at t ops ss = List.map_filter (\<lambda>s. first_at s (filter (\<lambda>op. op_type op = t) ops)) ss"

text \<open>The interleaving loop: a call, a put, a call, ... until \<open>n\<close> are taken or both lists are used up.\<close>

fun interleave :: "nat \<Rightarrow> 'a list \<Rightarrow> 'a list \<Rightarrow> 'a list" where
  "interleave 0 cs ps = []"
| "interleave n [] ps = take n ps"
| "interleave n cs [] = take n cs"
| "interleave (Suc 0) (c # cs) (p # ps) = [c]"
| "interleave (Suc (Suc n)) (c # cs) (p # ps) = c # p # interleave n cs ps"

definition strikes_above :: "expiry \<Rightarrow> real list" where
  "strikes_above e = drop (Suc (atm_index e)) (ex_strikes e)"

definition strikes_below :: "expiry \<Rightarrow> real list" where
  "strikes_below e = rev (take (atm_index e) (ex_strikes e))"

definition ex_otm :: "int \<Rightarrow> expiry \<Rightarrow> opt list" where
  "ex_otm n e =
     interleave (nat n) (legs_at CE (ex_options e) (strikes_above e)) (legs_at PE (ex_options e) (strikes_below e))"

definition ex_itm :: "int \<Rightarrow> expiry \<Rightarrow> opt list" where
  "ex_itm n e =
     interleave (nat n) (legs_at CE (ex_options e) (strikes_below e)) (legs_at PE (ex_options e) (strikes_above e))"

definition ex_pairs :: "expiry \<Rightarrow> option_pair list" where
  "ex_pairs e = map (pair_for e) (ex_strikes e)"

section \<open>The chain\<close>

record chain =
  ch_underlying_ltp :: real
  ch_options :: "opt list"
  ch_atm_strike :: "real option"
  ch_target_expiry :: "int option"
  ch_strike_map :: "(real, (option_type, opt) dict) dict"

definition index_option :: "opt \<Rightarrow> (real, (option_type, opt) dict) dict \<Rightarrow> (real, (option_type, opt) dict) dict" where
  "index_option op m = AList.update (op_strike op) (AList.update (op_type op) op (get_default m (op_strike op) [])) m"

definition new_chain :: "real \<Rightarrow> opt list \<Rightarrow> int option \<Rightarrow> real option \<Rightarrow> chain" where
  "new_chain ltp ops expiry atm =
     \<lparr>ch_underlying_ltp = ltp, ch_options = ops, ch_atm_strike = atm, ch_target_expiry = expiry,
      ch_strike_map = fold index_option ops []\<rparr>"

definition ch_calls :: "chain \<Rightarrow> opt list" where
  "ch_calls c = calls_of (ch_options c)"

definition ch_puts :: "chain \<Rightarrow> opt list" where
  "ch_puts c = puts_of (ch_options c)"

text \<open>\<open>underlying._quote.ltp or self.atm_strike\<close>.\<close>

definition ch_spot :: "chain \<Rightarrow> real option" where
  "ch_spot c = (if ch_underlying_ltp c \<noteq> 0 then Some (ch_underlying_ltp c) else ch_atm_strike c)"

definition expiries :: "chain \<Rightarrow> expiry list" where
  "expiries c =
     map (\<lambda>d. \<lparr>ex_date = d, ex_options = filter (\<lambda>op. op_expiry op = d) (ch_options c),
               ex_atm_strike = (case ch_spot c of None \<Rightarrow> 0 | Some s \<Rightarrow> s)\<rparr>)
       (sorted_set (map op_expiry (ch_options c)))"

definition ch_expiry :: "int \<Rightarrow> chain \<Rightarrow> py_error + expiry" where
  "ch_expiry offset c =
     (let exps = expiries c
      in if exps = [] then Inl (ValueError ''No expiries available'')
         else Inr (exps ! nat (max 0 (min offset (int (length exps) - 1)))))"

definition ch_pairs :: "chain \<Rightarrow> option_pair list" where
  "ch_pairs c = concat (map ex_pairs (expiries c))"

definition nearest_expiry :: "chain \<Rightarrow> int option" where
  "nearest_expiry c = (case expiries c of [] \<Rightarrow> ch_target_expiry c | e # _ \<Rightarrow> Some (ex_date e))"

definition ch_strikes :: "chain \<Rightarrow> real list" where
  "ch_strikes c = sort (keys (ch_strike_map c))"

definition at_strike :: "real \<Rightarrow> option_type option \<Rightarrow> chain \<Rightarrow> opt option" where
  "at_strike s t c =
     (case map_of (ch_strike_map c) s of
        None \<Rightarrow> None
      | Some bucket \<Rightarrow>
          (case t of
             Some t \<Rightarrow> map_of bucket t
           | None \<Rightarrow> (case map_of bucket CE of Some op \<Rightarrow> Some op | None \<Rightarrow> map_of bucket PE)))"

definition ch_atm :: "chain \<Rightarrow> opt option" where
  "ch_atm c =
     (case ch_atm_strike c of
        Some a \<Rightarrow> (case at_strike a (Some CE) c of Some op \<Rightarrow> Some op | None \<Rightarrow> at_strike a None c)
      | None \<Rightarrow>
          if ch_options c = [] then None
          else (let ops = (if ch_calls c \<noteq> [] then ch_calls c else ch_options c);
                    spot = (case ch_spot c of None \<Rightarrow> 0 | Some s \<Rightarrow> s)
                in Some (ops ! argmin (map (\<lambda>op. \<bar>op_strike op - spot\<bar>) ops))))"

definition ch_itm :: "chain \<Rightarrow> opt list" where
  "ch_itm c = filter (\<lambda>op. moneyness (ch_spot c) op = ''ITM'') (ch_options c)"

definition ch_otm :: "chain \<Rightarrow> opt list" where
  "ch_otm c = filter (\<lambda>op. moneyness (ch_spot c) op = ''OTM'') (ch_options c)"

definition pcr :: "chain \<Rightarrow> real" where
  "pcr c =
     (let ce = (\<Sum>op\<leftarrow>ch_calls c. q_oi (op_quote op)); pe = (\<Sum>op\<leftarrow>ch_puts c. q_oi (op_quote op))
      in if ce = 0 then 0 else py_round 4 (of_int pe / of_int ce))"

text \<open>What the writers pay out if the underlying settles at \<open>s\<close>.\<close>

definition pain :: "opt list \<Rightarrow> real \<Rightarrow> real" where
  "pain ops s =
     (\<Sum>op\<leftarrow>ops. (if op_type op = CE then max (s - op_strike op) 0 else max (op_strike op - s) 0)
                    * of_int (max (q_oi (op_quote op)) 0))"

text \<open>The loop over the strikes; \<open>None\<close> is the initial \<open>inf\<close>.\<close>

fun least_pain :: "opt list \<Rightarrow> real list \<Rightarrow> real \<Rightarrow> real option \<Rightarrow> real" where
  "least_pain ops [] best m = best"
| "least_pain ops (s # ss) best m =
     (if (case m of None \<Rightarrow> True | Some v \<Rightarrow> pain ops s < v) then least_pain ops ss s (Some (pain ops s))
      else least_pain ops ss best m)"

definition max_pain :: "chain \<Rightarrow> real" where
  "max_pain c = least_pain (ch_options c) (ch_strikes c) 0 None"

definition chain_getitem :: "real \<Rightarrow> chain \<Rightarrow> py_error + opt" where
  "chain_getitem s c =
     (case at_strike s None c of
        None \<Rightarrow> Inl (KeyErr (''No option at strike '' @ repr_float s))
      | Some op \<Rightarrow> Inr op)"

section \<open>Lemmas\<close>

lemma sorted_set_facts [simp]:
  "set (sorted_set xs) = set xs" "sorted (sorted_set xs)" "distinct (sorted_set xs)"
  by (simp_all add: sorted_set_def)

lemma argmin_from_least:
  assumes "best < i" and "(pre @ xs) ! best = bv" and "length pre = i" and "\<forall>y \<in> set pre. bv \<le> y"
  shows "argmin_from i best bv xs < i + length xs \<and>
    (\<forall>y \<in> set (pre @ xs). (pre @ xs) ! argmin_from i best bv xs \<le> y)"
  using assms
proof (induction xs arbitrary: i best bv pre)
  case Nil
  then show ?case by simp
next
  case (Cons x xs)
  show ?case
  proof (cases "x < bv")
    case True
    have "argmin_from (Suc i) i x xs < Suc i + length xs \<and>
        (\<forall>y \<in> set ((pre @ [x]) @ xs). ((pre @ [x]) @ xs) ! argmin_from (Suc i) i x xs \<le> y)"
      using Cons.prems True by (intro Cons.IH) (auto simp: nth_append)
    then show ?thesis using True by simp
  next
    case False
    have "argmin_from (Suc i) best bv xs < Suc i + length xs \<and>
        (\<forall>y \<in> set ((pre @ [x]) @ xs). ((pre @ [x]) @ xs) ! argmin_from (Suc i) best bv xs \<le> y)"
      using Cons.prems False by (intro Cons.IH) auto
    then show ?thesis using False by simp
  qed
qed

lemma argmin_least:
  assumes "xs \<noteq> []"
  shows "argmin xs < length xs" "\<forall>y \<in> set xs. xs ! argmin xs \<le> y"
proof -
  obtain x ys where xs: "xs = x # ys" using assms by (cases xs) auto
  have "argmin_from 1 0 x ys < 1 + length ys \<and> (\<forall>y \<in> set ([x] @ ys). ([x] @ ys) ! argmin_from 1 0 x ys \<le> y)"
    by (rule argmin_from_least) auto
  then show "argmin xs < length xs" "\<forall>y \<in> set xs. xs ! argmin xs \<le> y" by (auto simp: argmin_def xs)
qed

lemma atm_index_least:
  assumes "ex_strikes e \<noteq> []"
  shows "atm_index e < length (ex_strikes e)"
    "\<And>s. s \<in> set (ex_strikes e) \<Longrightarrow> \<bar>ex_strikes e ! atm_index e - ex_atm_strike e\<bar> \<le> \<bar>s - ex_atm_strike e\<bar>"
proof -
  have ne: "map (\<lambda>s. \<bar>s - ex_atm_strike e\<bar>) (ex_strikes e) \<noteq> []" using assms by simp
  show lt: "atm_index e < length (ex_strikes e)" using argmin_least(1) [OF ne] by (simp add: atm_index_def)
  show "\<bar>ex_strikes e ! atm_index e - ex_atm_strike e\<bar> \<le> \<bar>s - ex_atm_strike e\<bar>" if "s \<in> set (ex_strikes e)" for s
    using argmin_least(2) [OF ne] that lt by (auto simp: atm_index_def)
qed

lemma interleave_split:
  assumes "\<forall>c \<in> set cs. P c" and "\<forall>p \<in> set ps. \<not> P p"
  shows "\<exists>i j. filter P (interleave n cs ps) = take i cs \<and> filter (\<lambda>x. \<not> P x) (interleave n cs ps) = take j ps \<and>
    i \<le> length cs \<and> j \<le> length ps \<and> i + j = min n (length cs + length ps) \<and>
    (i < length cs \<and> j < length ps \<longrightarrow> i = j \<or> i = Suc j)"
  using assms
proof (induction n cs ps rule: interleave.induct)
  case (2 v ps)
  have "filter P (take (Suc v) ps) = []" "filter (\<lambda>x. \<not> P x) (take (Suc v) ps) = take (Suc v) ps"
    using "2.prems"(2) by (auto simp: filter_empty_conv filter_id_conv dest: in_set_takeD)
  then show ?case by (intro exI [of _ 0] exI [of _ "min (Suc v) (length ps)"]) (auto simp: min_def)
next
  case (3 v c cs)
  have "filter (\<lambda>x. \<not> P x) (take (Suc v) (c # cs)) = []" "filter P (take (Suc v) (c # cs)) = take (Suc v) (c # cs)"
    unfolding filter_empty_conv filter_id_conv using "3.prems"(1) by (meson in_set_takeD)+
  then show ?case by (intro exI [of _ "min (Suc v) (length (c # cs))"] exI [of _ 0]) (auto simp: min_def)
next
  case (4 c cs p ps)
  then show ?case by (intro exI [of _ 1] exI [of _ 0]) auto
next
  case (5 n c cs p ps)
  then obtain i j where "filter P (interleave n cs ps) = take i cs"
    "filter (\<lambda>x. \<not> P x) (interleave n cs ps) = take j ps" "i \<le> length cs" "j \<le> length ps"
    "i + j = min n (length cs + length ps)" "i < length cs \<and> j < length ps \<longrightarrow> i = j \<or> i = Suc j"
    by auto
  then show ?case using "5.prems" by (intro exI [of _ "Suc i"] exI [of _ "Suc j"]) auto
qed auto

lemma find_someD: "find P xs = Some x \<Longrightarrow> P x \<and> x \<in> set xs"
  by (induction xs) (auto split: if_splits)

lemma legs_at_facts:
  "set (legs_at t ops ss) \<subseteq> {op \<in> set ops. op_type op = t \<and> op_strike op \<in> set ss}"
  "map op_strike (legs_at t ops ss) = filter (\<lambda>s. \<exists>op \<in> set ops. op_type op = t \<and> op_strike op = s) ss"
proof -
  have some: "op \<in> set ops \<and> op_type op = t \<and> op_strike op = s"
    if "first_at s (filter (\<lambda>op. op_type op = t) ops) = Some op" for s op
    using find_someD [OF that [unfolded first_at_def]] by auto
  have none: "first_at s (filter (\<lambda>op. op_type op = t) ops) = None \<longleftrightarrow> \<not> (\<exists>op \<in> set ops. op_type op = t \<and> op_strike op = s)"
    for s by (auto simp: first_at_def find_None_iff)
  show "set (legs_at t ops ss) \<subseteq> {op \<in> set ops. op_type op = t \<and> op_strike op \<in> set ss}"
    by (auto simp: legs_at_def map_filter_def dest: some)
  show "map op_strike (legs_at t ops ss) = filter (\<lambda>s. \<exists>op \<in> set ops. op_type op = t \<and> op_strike op = s) ss"
  proof (induction ss)
    case (Cons s ss)
    show ?case
    proof (cases "first_at s (filter (\<lambda>op. op_type op = t) ops)")
      case None
      then show ?thesis using Cons.IH none [of s] by (simp add: legs_at_def map_filter_simps del: bex_simps)
    next
      case (Some op)
      then have "op_strike op = s" "\<exists>op \<in> set ops. op_type op = t \<and> op_strike op = s" using some by blast+
      then show ?thesis using Cons.IH Some by (simp add: legs_at_def map_filter_simps del: bex_simps)
    qed
  qed (simp add: legs_at_def)
qed

text \<open>The strikes below and above the money of an expiry.\<close>

lemma strikes_split:
  assumes "ex_strikes e \<noteq> []"
  defines "k \<equiv> ex_strikes e ! atm_index e"
  shows "sorted_wrt (<) (strikes_above e)" "sorted_wrt (>) (strikes_below e)"
    "set (strikes_above e) = {s \<in> set (ex_strikes e). k < s}" "set (strikes_below e) = {s \<in> set (ex_strikes e). s < k}"
proof -
  have st: "sorted_wrt (<) (ex_strikes e)" by (simp add: ex_strikes_def strict_sorted_iff)
  have sp: "ex_strikes e = take (atm_index e) (ex_strikes e) @ k # strikes_above e"
    using atm_index_least(1) [OF assms(1)] by (simp add: k_def strikes_above_def id_take_nth_drop)
  have "sorted_wrt (<) (take (atm_index e) (ex_strikes e) @ k # strikes_above e)" using st sp by simp
  then have parts: "sorted_wrt (<) (take (atm_index e) (ex_strikes e))" "sorted_wrt (<) (strikes_above e)"
    "\<forall>x \<in> set (take (atm_index e) (ex_strikes e)). x < k \<and> (\<forall>y \<in> set (strikes_above e). x < y)" "\<forall>y \<in> set (strikes_above e). k < y"
    by (auto simp: sorted_wrt_append)
  show "sorted_wrt (<) (strikes_above e)" by (fact parts)
  show "sorted_wrt (>) (strikes_below e)" using parts(1) by (simp add: strikes_below_def sorted_wrt_rev)
  have all: "set (ex_strikes e) = set (take (atm_index e) (ex_strikes e)) \<union> {k} \<union> set (strikes_above e)"
    using arg_cong [OF sp, of set] by simp
  show "set (strikes_above e) = {s \<in> set (ex_strikes e). k < s}" using parts(3,4) by (auto simp: all)
  have "set (strikes_below e) = set (take (atm_index e) (ex_strikes e))" by (simp add: strikes_below_def)
  then show "set (strikes_below e) = {s \<in> set (ex_strikes e). s < k}"
    using parts(3,4) unfolding all by (auto dest: less_asym)
qed

text \<open>A prefix of a sorted selection skips nothing nearer the money.\<close>

lemma prefix_skips_nothing:
  assumes "sorted_wrt R xs" "asymp R" "y \<in> set (take i xs)" "x \<in> set xs" "R x y"
  shows "x \<in> set (take i xs)"
proof (rule ccontr)
  assume "x \<notin> set (take i xs)"
  moreover have "set xs = set (take i xs) \<union> set (drop i xs)" using append_take_drop_id [of i xs] by (metis set_append)
  ultimately have "x \<in> set (drop i xs)" using assms(4) by blast
  moreover have "sorted_wrt R (take i xs @ drop i xs)" using assms(1) by simp
  ultimately have "R y x" using assms(3) unfolding sorted_wrt_append by blast
  then show False using assms(2,5) by (meson asympD)
qed

text \<open>
  The selections: for an order \<open>R\<close> on strikes (increasing for the calls of \<open>otm\<close>), \<open>picked t R\<close> says that the legs of
  type \<open>t\<close> among \<open>out\<close> are legs of the expiry beyond \<open>k\<close>, nearest first, one per strike, and that no strike with such a
  leg is passed over.
\<close>

definition picked :: "option_type \<Rightarrow> (real \<Rightarrow> real \<Rightarrow> bool) \<Rightarrow> real \<Rightarrow> opt list \<Rightarrow> opt list \<Rightarrow> bool" where
  "picked t R k ops out \<longleftrightarrow>
     (let legs = filter (\<lambda>op. op_type op = t) out
      in set legs \<subseteq> {op \<in> set ops. R k (op_strike op)} \<and> sorted_wrt R (map op_strike legs) \<and>
         (\<forall>op \<in> set ops. \<forall>op' \<in> set legs. op_type op = t \<and> R k (op_strike op) \<and> R (op_strike op) (op_strike op') \<longrightarrow>
            op_strike op \<in> op_strike ` set legs))"

definition strikes_with :: "option_type \<Rightarrow> (real \<Rightarrow> real \<Rightarrow> bool) \<Rightarrow> real \<Rightarrow> opt list \<Rightarrow> real set" where
  "strikes_with t R k ops = {s. R k s \<and> (\<exists>op \<in> set ops. op_type op = t \<and> op_strike op = s)}"

lemma picked_take:
  assumes "sorted_wrt R ss" "asymp R" "set ss = {s \<in> op_strike ` set ops. R k s}"
    "filter (\<lambda>op. op_type op = t) out = take i (legs_at t ops ss)"
  shows "picked t R k ops out"
proof -
  let ?legs = "take i (legs_at t ops ss)" and ?has = "\<lambda>s. \<exists>op \<in> set ops. op_type op = t \<and> op_strike op = s"
  have strikes: "map op_strike ?legs = take i (filter ?has ss)" by (simp add: take_map [symmetric] legs_at_facts(2))
  have img: "op_strike ` set ?legs = set (take i (filter ?has ss))" using arg_cong [OF strikes, of set] by simp
  have sorted: "sorted_wrt R (filter ?has ss)" using assms(1) by (rule sorted_wrt_filter)
  have "set ?legs \<subseteq> {op \<in> set ops. R k (op_strike op)}"
    using legs_at_facts(1) [of t ops ss] assms(3) by (auto dest!: in_set_takeD)
  moreover have "sorted_wrt R (map op_strike ?legs)" unfolding strikes using sorted by (rule sorted_wrt_take)
  moreover have "op_strike op \<in> op_strike ` set ?legs"
    if "op \<in> set ops" "op' \<in> set ?legs" "op_type op = t" "R k (op_strike op)" "R (op_strike op) (op_strike op')" for op op'
    unfolding img
  proof (rule prefix_skips_nothing [OF sorted assms(2)])
    show "op_strike op' \<in> set (take i (filter ?has ss))" using that(2) img by blast
  qed (use that assms(3) in auto)
  ultimately show ?thesis unfolding picked_def assms(4) Let_def by blast
qed

lemma legs_at_length:
  assumes "distinct ss" "set ss = {s \<in> op_strike ` set ops. R k s}"
  shows "length (legs_at t ops ss) = card (strikes_with t R k ops)"
proof -
  let ?has = "\<lambda>s. \<exists>op \<in> set ops. op_type op = t \<and> op_strike op = s"
  have "length (legs_at t ops ss) = length (filter ?has ss)"
    using arg_cong [OF legs_at_facts(2) [of t ops ss], of length] by simp
  also have "\<dots> = card (set (filter ?has ss))" using assms(1) by (intro distinct_card [symmetric] distinct_filter)
  also have "set (filter ?has ss) = strikes_with t R k ops" using assms(2) by (auto simp: strikes_with_def)
  finally show ?thesis .
qed

lemma sorted_wrt_distinct: "sorted_wrt R xs \<Longrightarrow> asymp R \<Longrightarrow> distinct xs"
  by (induction xs) (auto dest: asympD)

lemma selection_picked:
  fixes n :: nat
  assumes "sorted_wrt R ss" "sorted_wrt Q us" "asymp R" "asymp Q"
    "set ss = {s \<in> op_strike ` set ops. R k s}" "set us = {s \<in> op_strike ` set ops. Q k s}"
  defines "out \<equiv> interleave n (legs_at CE ops ss) (legs_at PE ops us)"
  shows "picked CE R k ops out" "picked PE Q k ops out"
    "length out = min n (card (strikes_with CE R k ops) + card (strikes_with PE Q k ops))"
proof -
  have "\<forall>c \<in> set (legs_at CE ops ss). op_type c = CE" "\<forall>p \<in> set (legs_at PE ops us). op_type p \<noteq> CE"
    using legs_at_facts(1) by force+
  from interleave_split [of _ "\<lambda>op. op_type op = CE", OF this]
  obtain i j where ij: "filter (\<lambda>op. op_type op = CE) out = take i (legs_at CE ops ss)"
    "filter (\<lambda>op. op_type op \<noteq> CE) out = take j (legs_at PE ops us)"
    "i \<le> length (legs_at CE ops ss)" "j \<le> length (legs_at PE ops us)"
    "i + j = min n (length (legs_at CE ops ss) + length (legs_at PE ops us))"
    unfolding out_def by blast
  have pe: "(\<lambda>op. op_type op \<noteq> CE) = (\<lambda>op. op_type op = PE)" by (rule ext) (metis option_type.distinct(1) option_type.exhaust)
  show "picked CE R k ops out" by (rule picked_take [OF assms(1,3,5) ij(1)])
  show "picked PE Q k ops out" by (rule picked_take [OF assms(2,4,6) ij(2) [unfolded pe]])
  have dist: "distinct ss" "distinct us" using assms(1-4) by (auto intro: sorted_wrt_distinct)
  have "length out = i + j"
    using arg_cong [OF ij(1), of length] arg_cong [OF ij(2), of length] ij(3,4)
      sum_length_filter_compl [of "\<lambda>op. op_type op = CE" out] by simp
  then show "length out = min n (card (strikes_with CE R k ops) + card (strikes_with PE Q k ops))"
    using ij(5) by (simp add: legs_at_length [of _ ops R k, OF dist(1) assms(5)] legs_at_length [of _ ops Q k, OF dist(2) assms(6)])
qed

text \<open>The index of a chain is a search from its end.\<close>

lemma map_of_index:
  "map_of (get_default (fold index_option ops m) s []) t =
     (case find (\<lambda>op. op_strike op = s \<and> op_type op = t) (rev ops) of None \<Rightarrow> map_of (get_default m s []) t | Some op \<Rightarrow> Some op)"
proof (induction ops rule: rev_induct)
  case (snoc op ops)
  then show ?case by (auto simp: index_option_def get_default_def update_conv' split: option.splits)
qed (auto split: option.splits)

lemma index_keys:
  "distinct (keys m) \<Longrightarrow> distinct (keys (fold index_option ops m)) \<and>
     set (keys (fold index_option ops m)) = set (keys m) \<union> op_strike ` set ops"
  by (induction ops arbitrary: m) (auto simp: index_option_def distinct_update dom_update)

lemma sort_keys_unique: "distinct xs \<Longrightarrow> sort xs = sorted_set xs"
  by (simp add: sorted_set_def distinct_remdups_id)

lemma ch_strikes_new: "ch_strikes (new_chain ltp ops ex atm) = sorted_set (map op_strike ops)"
  using index_keys [of "[]" ops]
  by (auto simp: ch_strikes_def new_chain_def sorted_set_def intro!: sorted_distinct_set_unique)

lemma at_strike_search:
  "at_strike s (Some t) (new_chain ltp ops ex atm) = find (\<lambda>op. op_strike op = s \<and> op_type op = t) (rev ops)"
  using map_of_index [of ops "[]" s t]
  by (auto simp: at_strike_def new_chain_def get_default_def split: option.splits)

lemma moneyness_itm_iff:
  "spot_of spot op \<noteq> 0 \<Longrightarrow> moneyness spot op = ''ITM'' \<longleftrightarrow> 0 < intrinsic_value spot op"
  by (cases "op_type op") (auto simp: moneyness_def intrinsic_value_def Let_def)

lemma ch_itm_positive: "ch_spot c = Some s \<Longrightarrow> s \<noteq> 0 \<Longrightarrow>
    ch_itm c = filter (\<lambda>op. 0 < intrinsic_value (Some s) op) (ch_options c)"
  unfolding ch_itm_def by (rule filter_cong) (simp_all add: moneyness_itm_iff spot_of_def)

section \<open>The properties\<close>

text \<open>
  In an expiry with options, the pair \<open>atm(0)\<close> is at a strike nearest the spot. \<open>otm(n)\<close> returns legs of the expiry only,
  its calls at strikes above that one in increasing order and its puts below it in decreasing order; no strike
  that has such a leg is passed over for one further out, and there are \<open>n\<close> of them unless the expiry runs out.
  \<open>itm(n)\<close> is the same with the sides exchanged.
\<close>

theorem strike_selection:
  assumes "ex_options e \<noteq> []"
  shows "\<exists>p. ex_atm 0 e = Inr p \<and> pr_strike p \<in> op_strike ` set (ex_options e) \<and>
    (\<forall>op \<in> set (ex_options e). \<bar>pr_strike p - ex_atm_strike e\<bar> \<le> \<bar>op_strike op - ex_atm_strike e\<bar>) \<and>
    picked CE (<) (pr_strike p) (ex_options e) (ex_otm n e) \<and> picked PE (>) (pr_strike p) (ex_options e) (ex_otm n e) \<and>
    length (ex_otm n e) = min (nat n) (card (strikes_with CE (<) (pr_strike p) (ex_options e))
                                       + card (strikes_with PE (>) (pr_strike p) (ex_options e))) \<and>
    picked CE (>) (pr_strike p) (ex_options e) (ex_itm n e) \<and> picked PE (<) (pr_strike p) (ex_options e) (ex_itm n e) \<and>
    length (ex_itm n e) = min (nat n) (card (strikes_with CE (>) (pr_strike p) (ex_options e))
                                       + card (strikes_with PE (<) (pr_strike p) (ex_options e)))"
proof -
  let ?k = "ex_strikes e ! atm_index e"
  have set: "set (ex_strikes e) = op_strike ` set (ex_options e)" by (simp add: ex_strikes_def)
  have ne: "ex_strikes e \<noteq> []" using assms set by (metis image_is_empty set_empty)
  have "nat (max 0 (min (int (atm_index e) + 0) (int (length (ex_strikes e)) - 1))) = atm_index e"
    using atm_index_least(1) [OF ne] by simp
  then have "ex_atm 0 e = Inr (pair_for e ?k)" using ne unfolding ex_atm_def Let_def by (simp only: length_0_conv of_nat_eq_0_iff if_False)
  moreover have "?k \<in> op_strike ` set (ex_options e)" using atm_index_least(1) [OF ne] set by (metis nth_mem)
  moreover have "\<forall>op \<in> set (ex_options e). \<bar>?k - ex_atm_strike e\<bar> \<le> \<bar>op_strike op - ex_atm_strike e\<bar>"
    using atm_index_least(2) [OF ne] set by blast
  moreover note up = strikes_split(1) [OF ne] and dn = strikes_split(2) [OF ne]
    and ups = strikes_split(3) [OF ne, unfolded set] and dns = strikes_split(4) [OF ne, unfolded set]
  moreover note selection_picked [OF up dn _ _ ups dns, of "nat n", folded ex_otm_def]
    selection_picked [OF dn up _ _ dns ups, of "nat n", folded ex_itm_def]
  ultimately show ?thesis by (intro exI [of _ "pair_for e ?k"]) (simp add: pair_for_def asymp_on_less asymp_on_greater)
qed

text \<open>
  The strike index of a chain agrees with a search through its options: the lookup of a strike and a type is the last
  option given with them, the lookup of a strike alone prefers the call, and the strikes are those of the options,
  increasing, once each.
\<close>

theorem strike_index_is_search:
  "let c = new_chain ltp ops ex atm; search = \<lambda>t. find (\<lambda>op. op_strike op = s \<and> op_type op = t) (rev ops)
   in at_strike s (Some t) c = search t \<and>
      at_strike s None c = (case search CE of Some op \<Rightarrow> Some op | None \<Rightarrow> search PE) \<and>
      chain_getitem s c =
        (case search CE of Some op \<Rightarrow> Inr op | None \<Rightarrow> (case search PE of Some op \<Rightarrow> Inr op
           | None \<Rightarrow> Inl (KeyErr (''No option at strike '' @ repr_float s)))) \<and>
      ch_strikes c = sorted_set (map op_strike ops)"
proof -
  have none: "at_strike s None c = (case at_strike s (Some CE) c of Some op \<Rightarrow> Some op | None \<Rightarrow> at_strike s (Some PE) c)"
    for c by (auto simp: at_strike_def split: option.splits)
  show ?thesis by (simp add: chain_getitem_def none at_strike_search ch_strikes_new split: option.splits)
qed

text \<open>
  The expiries partition the chain: their dates increase, each holds exactly the options of its date and at least one, and
  together they hold the options of the chain, each as often as the chain does.
\<close>

theorem expiries_partition:
  "sorted_wrt (<) (map ex_date (expiries c)) \<and>
   (\<forall>e \<in> set (expiries c). ex_options e \<noteq> [] \<and> ex_options e = filter (\<lambda>op. op_expiry op = ex_date e) (ch_options c)) \<and>
   mset (concat (map ex_options (expiries c))) = mset (ch_options c)"
proof -
  have part: "mset (concat (map (\<lambda>d. filter (\<lambda>op. op_expiry op = d) ops) ds)) = mset (filter (\<lambda>op. op_expiry op \<in> set ds) ops)"
    if "distinct ds" for ds :: "int list" and ops :: "opt list"
    using that
  proof (induction ds)
    case (Cons d ds)
    have "filter_mset (\<lambda>op. op_expiry op \<in> set (d # ds)) (mset ops) =
        filter_mset (\<lambda>op. op_expiry op = d) (mset ops) + filter_mset (\<lambda>op. op_expiry op \<in> set ds) (mset ops)"
      using Cons.prems by (intro multiset_eqI) auto
    then show ?case using Cons by simp
  qed simp
  have "map ex_options (expiries c) =
      map (\<lambda>d. filter (\<lambda>op. op_expiry op = d) (ch_options c)) (sorted_set (map op_expiry (ch_options c)))"
    by (simp add: expiries_def comp_def)
  moreover have "filter (\<lambda>op. op_expiry op \<in> op_expiry ` set (ch_options c)) (ch_options c) = ch_options c" by simp
  ultimately have "mset (concat (map ex_options (expiries c))) = mset (ch_options c)" by (simp add: part del: mset_filter)
  moreover have "map ex_date (expiries c) = sorted_set (map op_expiry (ch_options c))" by (simp add: expiries_def comp_def)
  ultimately show ?thesis
    by (auto simp: strict_sorted_iff expiries_def filter_empty_conv)
qed

text \<open>The pay-out of an option is convex and piecewise linear in the settlement price with its only kink at its strike.\<close>

lemma pain_Cons:
  "pain (op # ops) s =
     (if op_type op = CE then max (s - op_strike op) 0 else max (op_strike op - s) 0) * of_int (max (q_oi (op_quote op)) 0)
     + pain ops s"
  by (simp add: pain_def)

lemma pain_affine:
  assumes "\<forall>op \<in> set ops. op_strike op \<le> a \<or> b \<le> op_strike op" and "a \<le> b" and "0 \<le> w" "w \<le> 1"
  shows "pain ops ((1 - w) * a + w * b) = (1 - w) * pain ops a + w * pain ops b"
  using assms(1)
proof (induction ops)
  case (Cons op ops)
  let ?s = "(1 - w) * a + w * b"
  have "?s = a + w * (b - a)" "?s = b - (1 - w) * (b - a)" by (simp_all add: algebra_simps)
  moreover have "0 \<le> w * (b - a)" "0 \<le> (1 - w) * (b - a)" using assms by simp_all
  ultimately have bounds: "a \<le> ?s" "?s \<le> b" by linarith+
  consider "op_strike op \<le> a" | "b \<le> op_strike op" using Cons.prems by auto
  then have "max (?s - op_strike op) 0 = (1 - w) * max (a - op_strike op) 0 + w * max (b - op_strike op) 0 \<and>
    max (op_strike op - ?s) 0 = (1 - w) * max (op_strike op - a) 0 + w * max (op_strike op - b) 0"
  proof cases
    case 1
    with bounds assms(2) show ?thesis by (simp add: max_absorb1 max_absorb2) (simp add: algebra_simps)
  next
    case 2
    with bounds assms(2) show ?thesis by (simp add: max_absorb1 max_absorb2) (simp add: algebra_simps)
  qed
  note kink = this [THEN conjunct1] this [THEN conjunct2]
  have "pain ops ?s = (1 - w) * pain ops a + w * pain ops b" using Cons by simp
  then show ?case by (cases "op_type op") (simp_all only: pain_Cons if_True if_False kink option_type.distinct, simp_all add: algebra_simps)
qed (simp add: pain_def)

lemma pain_mono:
  "\<lbrakk>\<forall>op \<in> set ops. op_strike op \<le> a; a \<le> s\<rbrakk> \<Longrightarrow> pain ops a \<le> pain ops s"
  "\<lbrakk>\<forall>op \<in> set ops. a \<le> op_strike op; s \<le> a\<rbrakk> \<Longrightarrow> pain ops a \<le> pain ops s"
  by (induction ops) (auto simp: pain_Cons pain_def intro!: add_mono mult_right_mono)

text \<open>So no settlement price at all costs the writers less than the best strike.\<close>

lemma pain_at_strike:
  assumes "ops \<noteq> []"
  shows "\<exists>k \<in> op_strike ` set ops. pain ops k \<le> pain ops s"
proof -
  let ?K = "op_strike ` set ops"
  let ?lo = "{k \<in> ?K. k \<le> s}" and ?hi = "{k \<in> ?K. s \<le> k}"
  have fin: "finite ?lo" "finite ?hi" "finite ?K" "?K \<noteq> {}" using assms by simp_all
  consider "?lo = {}" | "?hi = {}" | "?lo \<noteq> {}" "?hi \<noteq> {}" by blast
  then show ?thesis
  proof cases
    case 1
    then have "s \<le> Min ?K" using Min_in [OF fin(3,4)] by (metis (mono_tags, lifting) empty_iff linear mem_Collect_eq)
    then have "pain ops (Min ?K) \<le> pain ops s" using fin(3) by (intro pain_mono(2)) auto
    then show ?thesis using Min_in [OF fin(3,4)] by blast
  next
    case 2
    then have "Max ?K \<le> s" using Max_in [OF fin(3,4)] by (metis (mono_tags, lifting) empty_iff linear mem_Collect_eq)
    then have "pain ops (Max ?K) \<le> pain ops s" using fin(3) by (intro pain_mono(1)) auto
    then show ?thesis using Max_in [OF fin(3,4)] by blast
  next
    case 3
    define a b where "a = Max ?lo" and "b = Min ?hi"
    have a: "a \<in> ?lo" "\<And>k. k \<in> ?lo \<Longrightarrow> k \<le> a" using 3 fin by (auto simp: a_def simp del: mem_Collect_eq)
    have b: "b \<in> ?hi" "\<And>k. k \<in> ?hi \<Longrightarrow> b \<le> k" using 3 fin by (auto simp: b_def simp del: mem_Collect_eq)
    show ?thesis
    proof (cases "a = b")
      case True
      then have "a = s" using a(1) b(1) by simp
      then show ?thesis using a(1) by blast
    next
      case False
      define w where "w = (s - a) / (b - a)"
      have lt: "a < b" using False a(1) b(1) by simp
      have w: "0 \<le> w" "w \<le> 1" using lt a(1) b(1) by (simp_all add: w_def)
      have "s - a = w * (b - a)" using lt by (simp add: w_def)
      then have s: "s = (1 - w) * a + w * b" by (simp add: algebra_simps)
      have "\<forall>op \<in> set ops. op_strike op \<le> a \<or> b \<le> op_strike op" using a(2) b(2) by (metis (mono_tags, lifting) image_eqI linear mem_Collect_eq)
      then have "pain ops s = (1 - w) * pain ops a + w * pain ops b" unfolding s using lt w by (intro pain_affine) auto
      then have "min (pain ops a) (pain ops b) \<le> pain ops s"
        using w convex_bound_le [of "- pain ops a" "- min (pain ops a) (pain ops b)" "- pain ops b" "1 - w" w] by simp
      then show ?thesis using a(1) b(1) by (auto simp: min_def split: if_splits)
    qed
  qed
qed

lemma least_pain_some:
  "pain ops (least_pain ops ss best (Some (pain ops best))) \<le> pain ops best \<and>
   (\<forall>s \<in> set ss. pain ops (least_pain ops ss best (Some (pain ops best))) \<le> pain ops s) \<and>
   least_pain ops ss best (Some (pain ops best)) \<in> insert best (set ss)"
proof (induction ss arbitrary: best)
  case (Cons s ss)
  show ?case
  proof (cases "pain ops s < pain ops best")
    case True
    then show ?thesis using Cons [of s] by auto
  next
    case False
    then show ?thesis using Cons [of best] by (auto intro: order_trans)
  qed
qed simp

text \<open>C40: 
  Max pain of a chain with options is one of its strikes, and no settlement price whatever, at a strike or between
  strikes, has a smaller total pay-out.
\<close>

theorem max_pain_minimal:
  assumes "ops \<noteq> []"
  shows "max_pain (new_chain ltp ops ex atm) \<in> op_strike ` set ops \<and>
    (\<forall>s. pain ops (max_pain (new_chain ltp ops ex atm)) \<le> pain ops s)"
proof -
  let ?k = "max_pain (new_chain ltp ops ex atm)"
  have set: "set (sorted_set (map op_strike ops)) = op_strike ` set ops" by simp
  then obtain x xs where xs: "sorted_set (map op_strike ops) = x # xs" using assms by (cases "sorted_set (map op_strike ops)") auto
  have "?k = least_pain ops (ch_strikes (new_chain ltp ops ex atm)) 0 None" by (simp add: max_pain_def new_chain_def)
  then have k: "?k = least_pain ops xs x (Some (pain ops x))" by (simp add: ch_strikes_new xs)
  have all: "op_strike ` set ops = insert x (set xs)" using set by (simp add: xs)
  have "?k \<in> op_strike ` set ops" using least_pain_some [of ops xs x] unfolding k all by blast
  moreover have "pain ops ?k \<le> pain ops s" for s
  proof -
    obtain k' where k': "k' \<in> op_strike ` set ops" "pain ops k' \<le> pain ops s" using pain_at_strike [OF assms] by blast
    then have "pain ops ?k \<le> pain ops k'" using least_pain_some [of ops xs x] unfolding k all by auto
    then show ?thesis using k'(2) by linarith
  qed
  ultimately show ?thesis by blast
qed

section \<open>Witnesses\<close>

definition sample_opt :: "real \<Rightarrow> option_type \<Rightarrow> int \<Rightarrow> opt" where
  "sample_opt strike t oi =
     \<lparr>op_symbol = ''NIFTY'', op_exchange = ''NFO'', op_strike = strike, op_expiry = 20, op_type = t,
      op_underlying_symbol = ''NIFTY'', op_exercise_style = ''EUROPEAN'', op_settlement = ''CASH'',
      op_quote = quote_empty\<lparr>q_oi := oi\<rparr>, op_lot_size = Some 75, op_underlying_ltp = None, op_greeks = None, op_iv = None\<rparr>"

definition sample_expiry :: expiry where
  "sample_expiry =
     \<lparr>ex_date = 20, ex_options = [sample_opt 110 CE 5, sample_opt 90 PE 7, sample_opt 100 CE 3, sample_opt 100 PE 2],
      ex_atm_strike = 101\<rparr>"

theorem strike_selection_witness:
  "ex_options sample_expiry \<noteq> [] \<and>
   (\<exists>p. ex_atm 0 sample_expiry = Inr p \<and> pr_strike p = 100 \<and>
      picked CE (<) 100 (ex_options sample_expiry) (ex_otm 2 sample_expiry))"
proof -
  have ne: "ex_options sample_expiry \<noteq> []" by (simp add: sample_expiry_def)
  obtain p where p: "ex_atm 0 sample_expiry = Inr p" "pr_strike p \<in> op_strike ` set (ex_options sample_expiry)"
    "\<forall>op \<in> set (ex_options sample_expiry). \<bar>pr_strike p - ex_atm_strike sample_expiry\<bar> \<le> \<bar>op_strike op - ex_atm_strike sample_expiry\<bar>"
    "picked CE (<) (pr_strike p) (ex_options sample_expiry) (ex_otm 2 sample_expiry)"
    using strike_selection [OF ne, of 2] by blast
  have "pr_strike p = 100" using p(2,3) by (auto simp: sample_expiry_def sample_opt_def)
  then show ?thesis using ne p by auto
qed

theorem expiries_partition_witness:
  "ex_options (expiries (new_chain 101 (ex_options sample_expiry) None None) ! 0) = ex_options sample_expiry"
proof -
  let ?c = "new_chain 101 (ex_options sample_expiry) None None"
  have len: "expiries ?c ! 0 \<in> set (expiries ?c)"
    by (simp add: expiries_def new_chain_def sample_expiry_def sample_opt_def sorted_set_def)
  have "ex_options (expiries ?c ! 0) = filter (\<lambda>op. op_expiry op = ex_date (expiries ?c ! 0)) (ch_options ?c)"
    using expiries_partition [of ?c] len by blast
  moreover have "ex_date (expiries ?c ! 0) = 20"
    by (simp add: expiries_def new_chain_def sample_expiry_def sample_opt_def sorted_set_def)
  ultimately show ?thesis by (simp add: new_chain_def sample_expiry_def sample_opt_def)
qed

theorem max_pain_minimal_witness:
  "pain (ex_options sample_expiry) (max_pain (new_chain 101 (ex_options sample_expiry) None None)) \<le> 0"
proof -
  have "pain (ex_options sample_expiry) (max_pain (new_chain 101 (ex_options sample_expiry) None None))
      \<le> pain (ex_options sample_expiry) 100"
    using max_pain_minimal [of "ex_options sample_expiry" 101 None None] by (simp add: sample_expiry_def)
  also have "\<dots> = 0" by (simp add: pain_def sample_expiry_def sample_opt_def)
  finally show ?thesis .
qed

end
