(* ===== verification/Pricing.thy ===== *)
theory Pricing
  imports Complex_Main Options
begin

text \<open>
  \<open>ntrade/domain/analytics/greeks.py\<close>: Black-Scholes prices, greeks and implied volatility.  \<open>math.erf\<close> is defined by its
  power series.  Floats are reals, so the one rounding is the explicit \<open>round\<close>.

  The lemmas show that the price and the greeks satisfy put-call parity, that delta and vega are the derivatives of the
  price they are meant to be, while rho and theta of a put are not (they have a sign of the call), that the price
  grows with the volatility, and what the bisection for the implied volatility finds: the volatility a price came
  from, up to the tolerance or the width of the last interval, and a volatility even for a price no volatility gives.
\<close>

section \<open>The error function\<close>

definition erf_coeff :: "nat \<Rightarrow> real" where
  "erf_coeff n = (- 1) ^ n / (fact n * of_nat (2 * n + 1))"

definition erf :: "real \<Rightarrow> real" where
  "erf x = 2 / sqrt pi * (x * (\<Sum>n. erf_coeff n * (x ^ 2) ^ n))"

definition norm_cdf :: "real \<Rightarrow> real" where
  "norm_cdf x = 1 / 2 * (1 + erf (x / sqrt 2))"

definition norm_pdf :: "real \<Rightarrow> real" where
  "norm_pdf x = exp (- 1 / 2 * x * x) / sqrt (2 * pi)"

section \<open>Price\<close>

definition d1 :: "real \<Rightarrow> real \<Rightarrow> real \<Rightarrow> real \<Rightarrow> real \<Rightarrow> real \<Rightarrow> real" where
  "d1 spot strike years r q v = (ln (spot / strike) + (r - q + 1 / 2 * v ^ 2) * years) / (v * sqrt years)"

definition d2 :: "real \<Rightarrow> real \<Rightarrow> real \<Rightarrow> real \<Rightarrow> real \<Rightarrow> real \<Rightarrow> real" where
  "d2 spot strike years r q v = d1 spot strike years r q v - v * sqrt years"

definition bs_value :: "option_type \<Rightarrow> real \<Rightarrow> real \<Rightarrow> real \<Rightarrow> real \<Rightarrow> real \<Rightarrow> real \<Rightarrow> real" where
  "bs_value t spot strike years r q v =
     (let a = d1 spot strike years r q v; b = d2 spot strike years r q v
      in if t = CE then spot * exp (- q * years) * norm_cdf a - strike * exp (- r * years) * norm_cdf b
         else strike * exp (- r * years) * norm_cdf (- b) - spot * exp (- q * years) * norm_cdf (- a))"

definition bs_intrinsic :: "option_type \<Rightarrow> real \<Rightarrow> real \<Rightarrow> real" where
  "bs_intrinsic t spot strike = (if t = CE then max (spot - strike) 0 else max (strike - spot) 0)"

definition log_ratio :: "real \<Rightarrow> real \<Rightarrow> py_error + real" where
  "log_ratio spot strike =
     (if strike = 0 then Inl (OtherError ''float division by zero'')
      else if spot / strike \<le> 0 then Inl (ValueError ''math domain error'') else Inr (ln (spot / strike)))"

definition bs_price :: "option_type \<Rightarrow> real \<Rightarrow> real \<Rightarrow> real \<Rightarrow> real \<Rightarrow> real \<Rightarrow> real \<Rightarrow> py_error + real" where
  "bs_price t spot strike years r q v =
     (if years \<le> 0 then Inr (py_round 4 (bs_intrinsic t spot strike))
      else if v \<le> 0 then Inl (ValueError ''sigma must be positive'')
      else map_sum id (\<lambda>_. py_round 4 (bs_value t spot strike years r q v)) (log_ratio spot strike))"

section \<open>Greeks\<close>

definition raw_delta :: "option_type \<Rightarrow> real \<Rightarrow> real \<Rightarrow> real \<Rightarrow> real \<Rightarrow> real \<Rightarrow> real \<Rightarrow> real" where
  "raw_delta t spot strike years r q v =
     (let a = d1 spot strike years r q v in exp (- q * years) * (if t = CE then norm_cdf a else norm_cdf a - 1))"

definition raw_gamma :: "real \<Rightarrow> real \<Rightarrow> real \<Rightarrow> real \<Rightarrow> real \<Rightarrow> real \<Rightarrow> real" where
  "raw_gamma spot strike years r q v =
     exp (- q * years) * norm_pdf (d1 spot strike years r q v) / (spot * v * sqrt years)"

definition raw_vega :: "real \<Rightarrow> real \<Rightarrow> real \<Rightarrow> real \<Rightarrow> real \<Rightarrow> real \<Rightarrow> real" where
  "raw_vega spot strike years r q v =
     spot * exp (- q * years) * norm_pdf (d1 spot strike years r q v) * sqrt years / 100"

definition raw_theta :: "option_type \<Rightarrow> real \<Rightarrow> real \<Rightarrow> real \<Rightarrow> real \<Rightarrow> real \<Rightarrow> real \<Rightarrow> real" where
  "raw_theta t spot strike years r q v =
     (let a = d1 spot strike years r q v; b = d2 spot strike years r q v
      in (- spot * exp (- q * years) * norm_pdf a * v / (2 * sqrt years)
          - r * strike * exp (- r * years) * (if t = CE then norm_cdf b else norm_cdf (- b))
          + q * spot * exp (- q * years) * (if t = CE then norm_cdf a else norm_cdf (- a))) / 365)"

definition raw_rho :: "option_type \<Rightarrow> real \<Rightarrow> real \<Rightarrow> real \<Rightarrow> real \<Rightarrow> real \<Rightarrow> real \<Rightarrow> real" where
  "raw_rho t spot strike years r q v =
     (let b = d2 spot strike years r q v
      in strike * years * exp (- r * years) * (if t = CE then norm_cdf b else norm_cdf (- b)) / 100)"

definition bs_greeks :: "option_type \<Rightarrow> real \<Rightarrow> real \<Rightarrow> real \<Rightarrow> real \<Rightarrow> real \<Rightarrow> real \<Rightarrow> py_error + greeks" where
  "bs_greeks t spot strike years r q v =
     (if years < 0 then Inl (ValueError ''math domain error'')
      else case log_ratio spot strike of
             Inl e \<Rightarrow> Inl e
           | Inr _ \<Rightarrow>
               if v * sqrt years = 0 then Inl (OtherError ''float division by zero'')
               else Inr \<lparr>gk_delta = Some (py_round 6 (raw_delta t spot strike years r q v)),
                         gk_gamma = Some (py_round 6 (raw_gamma spot strike years r q v)),
                         gk_theta = Some (py_round 6 (raw_theta t spot strike years r q v)),
                         gk_vega = Some (py_round 6 (raw_vega spot strike years r q v)),
                         gk_rho = Some (py_round 6 (raw_rho t spot strike years r q v)), gk_iv = Some (py_round 4 v)\<rparr>)"

text \<open>\<open>Greeks.computed\<close>: some field is neither \<open>None\<close> nor zero.\<close>

definition greeks_computed :: "greeks \<Rightarrow> bool" where
  "greeks_computed g \<longleftrightarrow>
     (\<exists>x \<in> {gk_delta g, gk_gamma g, gk_theta g, gk_vega g, gk_rho g, gk_iv g}. x \<noteq> None \<and> x \<noteq> Some 0)"

section \<open>Implied volatility\<close>

fun bisect :: "(real \<Rightarrow> py_error + real) \<Rightarrow> real \<Rightarrow> real \<Rightarrow> nat \<Rightarrow> real \<Rightarrow> real \<Rightarrow> py_error + real" where
  "bisect price m tol 0 lo hi = Inr (py_round 6 ((lo + hi) / 2))"
| "bisect price m tol (Suc n) lo hi =
     (let mid = (lo + hi) / 2
      in case price mid of
           Inl e \<Rightarrow> Inl e
         | Inr p \<Rightarrow>
             if \<bar>p - m\<bar> < tol then Inr (py_round 6 mid)
             else if p < m then bisect price m tol n mid hi else bisect price m tol n lo mid)"

definition implied_volatility ::
  "real \<Rightarrow> nat \<Rightarrow> option_type \<Rightarrow> real \<Rightarrow> real \<Rightarrow> real \<Rightarrow> real \<Rightarrow> real \<Rightarrow> real \<Rightarrow> py_error + real option" where
  "implied_volatility tol max_iter t m spot strike years r q =
     (if years \<le> 0 \<or> m \<le> 0 then Inr None
      else if m < bs_intrinsic t spot strike then Inr None
      else case bs_price t spot strike years r q 5 of
             Inl e \<Rightarrow> Inl e
           | Inr best \<Rightarrow>
               if best < m then Inr None
               else map_sum id Some (bisect (bs_price t spot strike years r q) m tol max_iter (1 / 10000) 5))"

text \<open>\<open>Option.black_scholes\<close> and \<open>Option.implied_volatility\<close>, with the default volatility 15\% and the option's own expiry.\<close>

definition option_black_scholes :: "int \<Rightarrow> real \<Rightarrow> real \<Rightarrow> real option \<Rightarrow> opt \<Rightarrow> py_error + real" where
  "option_black_scholes today spot r sigma op =
     (let v = (case sigma of Some v \<Rightarrow> v | None \<Rightarrow> (case op_iv op of None \<Rightarrow> 15 / 100 | Some v \<Rightarrow> num_or v (15 / 100)))
      in bs_price (op_type op) spot (op_strike op) (years_to_expiry today op) r 0 v)"

definition option_implied_volatility :: "int \<Rightarrow> real \<Rightarrow> real \<Rightarrow> real \<Rightarrow> opt \<Rightarrow> py_error + real option" where
  "option_implied_volatility today m spot r op =
     implied_volatility (1 / 1000000) 100 (op_type op) m spot (op_strike op) (years_to_expiry today op) r 0"

section \<open>Lemmas on the error function\<close>

lemma erf_summable: "summable (\<lambda>n. erf_coeff n * y ^ n)"
proof (rule summable_comparison_test)
  have "norm (erf_coeff n * y ^ n) \<le> inverse (fact n) * \<bar>y\<bar> ^ n" for n
  proof -
    have "norm (erf_coeff n * y ^ n) = \<bar>y\<bar> ^ n / (fact n * of_nat (2 * n + 1))"
      by (simp add: erf_coeff_def abs_mult power_abs)
    also have "\<dots> \<le> \<bar>y\<bar> ^ n / fact n"
      by (intro divide_left_mono mult_pos_pos) (simp_all add: mult_le_cancel_left1)
    finally show ?thesis by (simp add: divide_inverse mult.commute)
  qed
  then show "\<exists>N. \<forall>n\<ge>N. norm (erf_coeff n * y ^ n) \<le> inverse (fact n) * \<bar>y\<bar> ^ n" by blast
  show "summable (\<lambda>n. inverse (fact n) * \<bar>y\<bar> ^ n)" by (rule summable_exp)
qed

lemma erf_minus [simp]: "erf (- x) = - erf x"
  by (simp add: erf_def)

lemma erf_0 [simp]: "erf 0 = 0"
  by (simp add: erf_def)

lemma erf_deriv: "(erf has_field_derivative 2 / sqrt pi * exp (- (x ^ 2))) (at x)"
proof -
  let ?G = "\<lambda>y. \<Sum>n. erf_coeff n * y ^ n" and ?D = "\<lambda>y. \<Sum>n. diffs erf_coeff n * y ^ n"
  let ?y = "x ^ 2"
  have G: "(?G has_field_derivative ?D y) (at y)" for y
    by (rule termdiffs_strong_converges_everywhere) (rule erf_summable)
  have "((\<lambda>x. x * ?G (x ^ 2)) has_field_derivative ?G ?y + x * (?D ?y * (2 * x))) (at x)"
    by (auto intro!: derivative_eq_intros DERIV_chain2 [OF G])
  moreover have "?G ?y + x * (?D ?y * (2 * x)) = exp (- ?y)"
  proof -
    have "summable (\<lambda>n. diffs erf_coeff n * ?y ^ n)" by (rule termdiff_converges_all) (rule erf_summable)
    from sums_mult [OF diffs_equiv [OF this], of "2 * ?y"]
    have "(\<lambda>n. 2 * ?y * (of_nat n * erf_coeff n * ?y ^ (n - Suc 0))) sums (2 * ?y * ?D ?y)" .
    moreover have "2 * ?y * (of_nat n * erf_coeff n * ?y ^ (n - Suc 0)) = 2 * of_nat n * erf_coeff n * ?y ^ n" for n
      by (cases n) simp_all
    ultimately have "(\<lambda>n. 2 * of_nat n * erf_coeff n * ?y ^ n) sums (2 * ?y * ?D ?y)" by simp
    from sums_add [OF summable_sums [OF erf_summable [of ?y]] this]
    have "(\<lambda>n. erf_coeff n * ?y ^ n + 2 * of_nat n * erf_coeff n * ?y ^ n) sums (?G ?y + 2 * ?y * ?D ?y)" .
    moreover have "erf_coeff n * ?y ^ n + 2 * of_nat n * erf_coeff n * ?y ^ n = inverse (fact n) * (- ?y) ^ n" for n
    proof -
      have "erf_coeff n * of_nat (2 * n + 1) = (- 1) ^ n / fact n" by (simp add: erf_coeff_def)
      moreover have "erf_coeff n * ?y ^ n + 2 * of_nat n * erf_coeff n * ?y ^ n = erf_coeff n * of_nat (2 * n + 1) * ?y ^ n"
        by (simp add: algebra_simps)
      moreover have "(- ?y) ^ n = (- 1) ^ n * ?y ^ n" by (rule power_minus)
      ultimately show ?thesis by (simp add: divide_inverse mult_ac)
    qed
    ultimately have "(\<lambda>n. inverse (fact n) * (- ?y) ^ n) sums (?G ?y + 2 * ?y * ?D ?y)" by simp
    moreover have "(\<lambda>n. inverse (fact n) * (- ?y) ^ n) sums exp (- ?y)"
      using exp_converges [of "- ?y"] by (simp add: divide_inverse mult.commute)
    ultimately have "?G ?y + 2 * ?y * ?D ?y = exp (- ?y)" by (rule sums_unique2)
    then show ?thesis by (simp add: power2_eq_square mult_ac)
  qed
  ultimately have "((\<lambda>x. x * ?G (x ^ 2)) has_field_derivative exp (- ?y)) (at x)" by simp
  from DERIV_cmult [OF this, of "2 / sqrt pi"] show ?thesis by (simp add: erf_def [abs_def])
qed

lemma norm_cdf_deriv: "(norm_cdf has_field_derivative norm_pdf x) (at x)"
proof -
  have "((\<lambda>x. 1 / 2 * (1 + erf (x / sqrt 2))) has_field_derivative 1 / 2 * (2 / sqrt pi * exp (- ((x / sqrt 2) ^ 2)) * (1 / sqrt 2))) (at x)"
  proof -
    have "((\<lambda>x. x / sqrt 2) has_field_derivative 1 / sqrt 2) (at x)" by (rule DERIV_cdivide) (rule DERIV_ident)
    from DERIV_cmult [OF DERIV_add [OF DERIV_const [of 1] DERIV_chain2 [OF erf_deriv this]], of "1 / 2"]
    show ?thesis by (simp only: add_0)
  qed
  moreover have "1 / 2 * (2 / sqrt pi * exp (- ((x / sqrt 2) ^ 2)) * (1 / sqrt 2)) = norm_pdf x"
  proof -
    have "1 / 2 * (2 / a * E * (1 / c)) = E / (c * a)" for a c E :: real by simp
    moreover have "- ((x / sqrt 2) ^ 2) = - 1 / 2 * x * x" by (simp add: power_divide power2_eq_square)
    ultimately show ?thesis unfolding norm_pdf_def real_sqrt_mult by metis
  qed
  ultimately show ?thesis by (simp add: norm_cdf_def [abs_def])
qed

lemma norm_cdf_minus: "norm_cdf (- x) = 1 - norm_cdf x"
  by (simp add: norm_cdf_def field_simps)

lemma norm_pdf_pos: "0 < norm_pdf x"
  by (simp add: norm_pdf_def)

lemma norm_pdf_minus [simp]: "norm_pdf (- x) = norm_pdf x"
  by (simp add: norm_pdf_def)

section \<open>Lemmas on the price\<close>

lemma erf_lower: assumes "0 \<le> x" shows "x * (2 / sqrt pi * exp (- (x ^ 2))) \<le> erf x"
proof (cases "x = 0")
  case False
  then have x: "0 < x" using assms by simp
  obtain z where z: "0 < z" "z < x" "erf x - erf 0 = (x - 0) * (2 / sqrt pi * exp (- (z ^ 2)))"
    using MVT2 [OF x, of erf "\<lambda>z. 2 / sqrt pi * exp (- (z ^ 2))"] erf_deriv by blast
  have "z ^ 2 \<le> x ^ 2" using z by (intro power_mono) simp_all
  then have "x * (2 / sqrt pi * exp (- (x ^ 2))) \<le> x * (2 / sqrt pi * exp (- (z ^ 2)))"
    using x by (intro mult_left_mono) simp_all
  then show ?thesis using z(3) by simp
qed simp

lemma bs_parity: "bs_value CE s k t r q v - bs_value PE s k t r q v = s * exp (- q * t) - k * exp (- r * t)"
  by (simp add: bs_value_def Let_def norm_cdf_minus algebra_simps)

lemma bs_put: "bs_value PE s k t r q v = bs_value CE s k t r q v - s * exp (- q * t) + k * exp (- r * t)"
  using bs_parity [of s k t r q v] by simp

lemma pdf_d1_d2:
  assumes "0 < s" "0 < k" "0 < t" "0 < v"
  shows "s * exp (- q * t) * norm_pdf (d1 s k t r q v) = k * exp (- r * t) * norm_pdf (d2 s k t r q v)"
proof -
  let ?a = "d1 s k t r q v" and ?w = "v * sqrt t"
  have "?a * ?w = ln (s / k) + (r - q + 1 / 2 * v ^ 2) * t" using assms by (simp add: d1_def)
  moreover have "?w * ?w = v ^ 2 * t" using assms by (simp add: power2_eq_square algebra_simps)
  ultimately have e: "- 1 / 2 * (?a - ?w) * (?a - ?w) = - 1 / 2 * ?a * ?a + (ln (s / k) + (r - q) * t)"
    by (simp add: algebra_simps)
  have "exp (ln (s / k)) = s / k" using assms by simp
  then have "exp (- 1 / 2 * (?a - ?w) * (?a - ?w)) = exp (- 1 / 2 * ?a * ?a) * (s / k * exp ((r - q) * t))"
    by (simp only: e exp_add)
  moreover have "exp (- r * t) * exp ((r - q) * t) = exp (- q * t)" by (simp add: exp_add [symmetric] algebra_simps)
  ultimately show ?thesis using assms by (simp add: norm_pdf_def d2_def mult_ac)
qed

text \<open>Along any path of spot, expiry, rate and volatility the two density terms of a call's change differ only by the
  change of \<open>v sqrt t\<close>.\<close>

lemma call_deriv:
  assumes "0 < s x" "0 < k" "0 < t x" "0 < v x"
    and s: "(s has_field_derivative s') (at x)" and t: "(t has_field_derivative t') (at x)"
    and r: "(r has_field_derivative r') (at x)" and v: "(v has_field_derivative v') (at x)"
    and a: "((\<lambda>x. d1 (s x) k (t x) (r x) q (v x)) has_field_derivative a') (at x)"
  shows "((\<lambda>x. bs_value CE (s x) k (t x) (r x) q (v x)) has_field_derivative
           ((s' - q * t' * s x) * exp (- q * t x) * norm_cdf (d1 (s x) k (t x) (r x) q (v x))
            + (r' * t x + r x * t') * k * exp (- r x * t x) * norm_cdf (d2 (s x) k (t x) (r x) q (v x))
            + s x * exp (- q * t x) * norm_pdf (d1 (s x) k (t x) (r x) q (v x)) * (v' * sqrt (t x) + v x * (t' / (2 * sqrt (t x)))))) (at x)"
proof -
  let ?d1 = "\<lambda>x. d1 (s x) k (t x) (r x) q (v x)" and ?d2 = "\<lambda>x. d2 (s x) k (t x) (r x) q (v x)"
  let ?w = "v' * sqrt (t x) + v x * (t' / (2 * sqrt (t x)))"
  have "((\<lambda>x. v x * sqrt (t x)) has_field_derivative ?w) (at x)"
    by (rule DERIV_cong [OF DERIV_mult [OF v DERIV_chain2 [OF DERIV_real_sqrt [OF assms(3)] t]]]) (simp add: field_simps)
  then have b: "(?d2 has_field_derivative a' - ?w) (at x)" unfolding d2_def by (intro DERIV_diff a)
  have E: "k * exp (- r x * t x) * (norm_pdf (?d2 x) * z) = s x * exp (- q * t x) * norm_pdf (?d1 x) * z" for z
    using pdf_d1_d2 [OF assms(1-4), of q "r x"] by (simp add: mult.assoc)
  have e1: "((\<lambda>x. exp (- q * t x)) has_field_derivative exp (- q * t x) * (- q * t')) (at x)"
    by (auto intro!: derivative_eq_intros t)
  have e2: "((\<lambda>x. exp (- r x * t x)) has_field_derivative exp (- r x * t x) * (- r' * t x - r x * t')) (at x)"
    by (auto intro!: derivative_eq_intros t r)
  note n1 = DERIV_chain2 [OF norm_cdf_deriv a] and n2 = DERIV_chain2 [OF norm_cdf_deriv b]
  have "((\<lambda>x. s x * exp (- q * t x) * norm_cdf (?d1 x) - k * exp (- r x * t x) * norm_cdf (?d2 x)) has_field_derivative
           (s' * exp (- q * t x) * norm_cdf (?d1 x) + s x * (exp (- q * t x) * (- q * t')) * norm_cdf (?d1 x)
            + s x * exp (- q * t x) * (norm_pdf (?d1 x) * a')
            - (k * (exp (- r x * t x) * (- r' * t x - r x * t')) * norm_cdf (?d2 x)
               + k * exp (- r x * t x) * (norm_pdf (?d2 x) * (a' - ?w))))) (at x)"
    by (rule DERIV_cong [OF DERIV_diff [OF DERIV_mult [OF DERIV_mult [OF s e1] n1] DERIV_mult [OF DERIV_cmult [OF e2] n2]]])
      (simp add: algebra_simps)
  from this [unfolded E]
  have "((\<lambda>x. s x * exp (- q * t x) * norm_cdf (?d1 x) - k * exp (- r x * t x) * norm_cdf (?d2 x)) has_field_derivative
           ((s' - q * t' * s x) * exp (- q * t x) * norm_cdf (?d1 x)
            + (r' * t x + r x * t') * k * exp (- r x * t x) * norm_cdf (?d2 x)
            + s x * exp (- q * t x) * norm_pdf (?d1 x) * ?w)) (at x)"
    by (rule DERIV_cong) (simp add: algebra_simps)
  then show ?thesis by (simp only: bs_value_def Let_def refl if_True)
qed

lemma d1_deriv_spot:
  assumes "0 < s" "0 < k" "0 < t" "0 < v"
  shows "((\<lambda>s. d1 s k t r q v) has_field_derivative 1 / (s * v * sqrt t)) (at s)"
  using assms unfolding d1_def by (auto intro!: derivative_eq_intros simp: field_simps)

lemma d1_deriv_rate:
  assumes "0 < t" "0 < v"
  shows "((\<lambda>r. d1 s k t r q v) has_field_derivative t / (v * sqrt t)) (at r)"
  using assms unfolding d1_def by (auto intro!: derivative_eq_intros simp: field_simps)

lemma d1_deriv_vol:
  assumes "0 < t" "0 < v"
  shows "\<exists>a'. ((\<lambda>v. d1 s k t r q v) has_field_derivative a') (at v)"
  using assms unfolding d1_def by (intro exI) (auto intro!: derivative_eq_intros)

lemma d1_deriv_time:
  assumes "0 < t" "0 < v"
  shows "\<exists>a'. ((\<lambda>t. d1 s k t r q v) has_field_derivative a') (at t)"
  using assms unfolding d1_def by (intro exI) (auto intro!: derivative_eq_intros)

lemma delta_deriv:
  assumes "0 < s" "0 < k" "0 < t" "0 < v"
  shows "((\<lambda>s. bs_value op s k t r q v) has_field_derivative raw_delta op s k t r q v) (at s)"
proof -
  have C: "((\<lambda>s. bs_value CE s k t r q v) has_field_derivative raw_delta CE s k t r q v) (at s)"
    using call_deriv [where s = "\<lambda>s. s" and t = "\<lambda>_. t" and r = "\<lambda>_. r" and v = "\<lambda>_. v", OF assms DERIV_ident
        DERIV_const DERIV_const DERIV_const d1_deriv_spot [OF assms]] by (simp add: raw_delta_def Let_def)
  show ?thesis
  proof (cases op)
    case PE
    have "((\<lambda>s. bs_value CE s k t r q v - s * exp (- q * t) + k * exp (- r * t)) has_field_derivative
            raw_delta PE s k t r q v) (at s)"
      by (auto intro!: derivative_eq_intros C simp: raw_delta_def Let_def algebra_simps)
    with PE show ?thesis by (simp add: bs_put)
  qed (use C in simp)
qed

lemma vega_deriv:
  assumes "0 < s" "0 < k" "0 < t" "0 < v"
  shows "((\<lambda>v. bs_value op s k t r q v) has_field_derivative 100 * raw_vega s k t r q v) (at v)"
proof -
  obtain a' where "((\<lambda>v. d1 s k t r q v) has_field_derivative a') (at v)" using d1_deriv_vol assms by blast
  then have C: "((\<lambda>v. bs_value CE s k t r q v) has_field_derivative 100 * raw_vega s k t r q v) (at v)"
    using call_deriv [where s = "\<lambda>_. s" and t = "\<lambda>_. t" and r = "\<lambda>_. r" and v = "\<lambda>v. v", OF assms DERIV_const
        DERIV_const DERIV_const DERIV_ident]
    by (simp add: raw_vega_def)
  show ?thesis
  proof (cases op)
    case PE
    have "((\<lambda>v. bs_value CE s k t r q v - s * exp (- q * t) + k * exp (- r * t)) has_field_derivative
            100 * raw_vega s k t r q v) (at v)"
      by (auto intro!: derivative_eq_intros C)
    with PE show ?thesis by (simp add: bs_put)
  qed (use C in simp)
qed

lemma rho_deriv:
  assumes "0 < s" "0 < k" "0 < t" "0 < v"
  shows "((\<lambda>r. bs_value op s k t r q v) has_field_derivative
           (if op = CE then 100 else - 100) * raw_rho op s k t r q v) (at r)"
proof -
  have C: "((\<lambda>r. bs_value CE s k t r q v) has_field_derivative 100 * raw_rho CE s k t r q v) (at r)"
    using call_deriv [where s = "\<lambda>_. s" and t = "\<lambda>_. t" and r = "\<lambda>r. r" and v = "\<lambda>_. v", OF assms DERIV_const
        DERIV_const DERIV_ident DERIV_const d1_deriv_rate [OF assms(3,4)]] by (simp add: raw_rho_def Let_def mult_ac)
  show ?thesis
  proof (cases op)
    case PE
    have "((\<lambda>r. bs_value CE s k t r q v - s * exp (- q * t) + k * exp (- r * t)) has_field_derivative
            - 100 * raw_rho PE s k t r q v) (at r)"
      by (auto intro!: derivative_eq_intros C simp: raw_rho_def Let_def norm_cdf_minus algebra_simps)
    with PE show ?thesis by (simp add: bs_put)
  qed (use C in simp)
qed

lemma theta_year:
  "365 * raw_theta op s k t r q v =
     - s * exp (- q * t) * norm_pdf (d1 s k t r q v) * v / (2 * sqrt t)
     - r * k * exp (- r * t) * norm_cdf (if op = CE then d2 s k t r q v else - d2 s k t r q v)
     + q * s * exp (- q * t) * norm_cdf (if op = CE then d1 s k t r q v else - d1 s k t r q v)"
  by (simp add: raw_theta_def Let_def)

lemma theta_deriv:
  assumes "0 < s" "0 < k" "0 < t" "0 < v"
  shows "((\<lambda>t. bs_value CE s k t r q v) has_field_derivative - (365 * raw_theta CE s k t r q v)) (at t)"
    and "((\<lambda>t. bs_value PE s k t r q v) has_field_derivative
           - (365 * raw_theta PE s k t r q v
              + 2 * (r * k * exp (- r * t) * norm_cdf (- d2 s k t r q v)
                     - q * s * exp (- q * t) * norm_cdf (- d1 s k t r q v)))) (at t)"
proof -
  obtain a' where "((\<lambda>t. d1 s k t r q v) has_field_derivative a') (at t)" using d1_deriv_time assms by blast
  from call_deriv [where s = "\<lambda>_. s" and t = "\<lambda>t. t" and r = "\<lambda>_. r" and v = "\<lambda>_. v", OF assms DERIV_const
      DERIV_ident DERIV_const DERIV_const this]
  show C: "((\<lambda>t. bs_value CE s k t r q v) has_field_derivative - (365 * raw_theta CE s k t r q v)) (at t)"
    by (rule DERIV_cong) (simp only: theta_year, simp add: algebra_simps)
  have "((\<lambda>t. bs_value CE s k t r q v - s * exp (- q * t) + k * exp (- r * t)) has_field_derivative
          - (365 * raw_theta CE s k t r q v) + s * q * exp (- q * t) - k * r * exp (- r * t)) (at t)"
    by (auto intro!: derivative_eq_intros C)
  then have "((\<lambda>t. bs_value PE s k t r q v) has_field_derivative
          - (365 * raw_theta CE s k t r q v) + s * q * exp (- q * t) - k * r * exp (- r * t)) (at t)"
    by (simp only: bs_put)
  then show "((\<lambda>t. bs_value PE s k t r q v) has_field_derivative
           - (365 * raw_theta PE s k t r q v
              + 2 * (r * k * exp (- r * t) * norm_cdf (- d2 s k t r q v)
                     - q * s * exp (- q * t) * norm_cdf (- d1 s k t r q v)))) (at t)"
    by (rule DERIV_cong) (simp only: theta_year, simp add: norm_cdf_minus algebra_simps)
qed

lemma gamma_deriv:
  assumes "0 < s" "0 < k" "0 < t" "0 < v"
  shows "((\<lambda>s. raw_delta op s k t r q v) has_field_derivative raw_gamma s k t r q v) (at s)"
proof -
  have "((\<lambda>s. norm_cdf (d1 s k t r q v)) has_field_derivative norm_pdf (d1 s k t r q v) * (1 / (s * v * sqrt t))) (at s)"
    by (rule DERIV_chain2 [OF norm_cdf_deriv d1_deriv_spot [OF assms]])
  then show ?thesis
    by (cases op) (auto intro!: derivative_eq_intros simp: raw_delta_def raw_gamma_def Let_def)
qed

lemma bs_value_mono_vol:
  assumes "0 < s" "0 < k" "0 < t" "0 < v" "v < v'"
  shows "bs_value op s k t r q v < bs_value op s k t r q v'"
proof (rule DERIV_pos_imp_increasing [OF assms(5)])
  fix x assume "v \<le> x" "x \<le> v'"
  then have "0 < x" using assms by simp
  moreover have "0 < 100 * raw_vega s k t r q x" using assms by (simp add: raw_vega_def norm_pdf_pos)
  ultimately show "\<exists>y. ((\<lambda>v. bs_value op s k t r q v) has_real_derivative y) (at x) \<and> 0 < y"
    using vega_deriv assms by blast
qed

lemma bs_price_pos:
  "\<lbrakk>0 < s; 0 < k; 0 < t; 0 < v\<rbrakk> \<Longrightarrow> bs_price op s k t r q v = Inr (py_round 4 (bs_value op s k t r q v))"
  using divide_pos_pos [of s k] by (simp add: bs_price_def log_ratio_def not_le)

lemma bs_price_mono_vol:
  assumes "0 < s" "0 < k" "0 < t" "0 < v" "v \<le> v'"
    and "bs_price op s k t r q v = Inr p" "bs_price op s k t r q v' = Inr p'"
  shows "p \<le> p'"
proof -
  have "bs_value op s k t r q v \<le> bs_value op s k t r q v'"
    using bs_value_mono_vol [OF assms(1-4), of v' op r q] assms(5) by (cases "v = v'") auto
  then show ?thesis using assms by (auto simp: bs_price_pos intro: py_round_mono)
qed

lemma py_round_apart: "py_round n x = py_round n y \<or> 1 / 10 ^ n \<le> \<bar>py_round n x - py_round n y\<bar>"
proof -
  let ?a = "round_half_even (x * 10 ^ n)" and ?b = "round_half_even (y * 10 ^ n)"
  have "?a = ?b \<or> 1 \<le> \<bar>?a - ?b\<bar>" by linarith
  then have "?a = ?b \<or> (1 :: real) \<le> \<bar>of_int ?a - of_int ?b\<bar>"
    by (metis of_int_1_le_iff of_int_abs of_int_diff)
  moreover have "py_round n x - py_round n y = (of_int ?a - of_int ?b) / 10 ^ n"
    by (simp add: py_round_def diff_divide_distrib)
  ultimately show ?thesis by (auto simp: py_round_def abs_divide divide_right_mono)
qed

section \<open>Lemmas on the bisection\<close>

text \<open>A price function that never fails above 0 and grows with the volatility.\<close>

lemma bisect_brackets:
  assumes mono: "\<And>u v p. \<lbrakk>0 < u; u \<le> v; price u = Inr p\<rbrakk> \<Longrightarrow> \<exists>p'. price v = Inr p' \<and> p \<le> p'"
    and total: "\<And>u. 0 < u \<Longrightarrow> \<exists>p. price u = Inr p"
    and s: "price s = Inr m"
  shows "\<lbrakk>0 < lo; lo \<le> s; s \<le> hi; 0 < tol\<rbrakk> \<Longrightarrow>
    \<exists>x p. bisect price m tol n lo hi = Inr (py_round 6 x) \<and> lo \<le> x \<and> x \<le> hi \<and> price x = Inr p
        \<and> (\<bar>p - m\<bar> < tol \<or> \<bar>x - s\<bar> \<le> (hi - lo) / 2 ^ (n + 1))"
proof (induction n arbitrary: lo hi)
  case 0
  obtain p where "price ((lo + hi) / 2) = Inr p" using total [of "(lo + hi) / 2"] 0 by auto
  moreover have "\<bar>(lo + hi) / 2 - s\<bar> \<le> (hi - lo) / 2" using 0 by (simp add: abs_le_iff field_simps)
  ultimately show ?case using 0 by (intro exI [of _ "(lo + hi) / 2"] exI [of _ p]) simp
next
  case (Suc n)
  let ?m = "(lo + hi) / 2"
  have mid: "0 < ?m" "lo \<le> ?m" "?m \<le> hi" using Suc.prems by auto
  obtain p where p: "price ?m = Inr p" using total mid by blast
  have half: "hi - ?m = (hi - lo) / 2" "?m - lo = (hi - lo) / 2" by (simp_all add: field_simps)
  consider "\<bar>p - m\<bar> < tol" | "\<not> \<bar>p - m\<bar> < tol" "p < m" | "\<not> \<bar>p - m\<bar> < tol" "m < p" using Suc.prems by fastforce
  then show ?case
  proof cases
    case 1
    then show ?thesis using p mid by (intro exI [of _ ?m] exI [of _ p]) (simp add: Let_def)
  next
    case 2
    have "?m \<le> s"
    proof (rule ccontr)
      assume "\<not> ?m \<le> s"
      then show False using mono [of s ?m m] s p 2 Suc.prems by auto
    qed
    from Suc.IH [OF mid(1) this Suc.prems(3,4), unfolded half] obtain x p' where
      "bisect price m tol n ?m hi = Inr (py_round 6 x)" "?m \<le> x" "x \<le> hi" "price x = Inr p'"
      "\<bar>p' - m\<bar> < tol \<or> \<bar>x - s\<bar> \<le> (hi - lo) / 2 / 2 ^ (n + 1)" by blast
    then show ?thesis using 2 p mid by (intro exI [of _ x] exI [of _ p']) (auto simp: Let_def)
  next
    case 3
    have "s \<le> ?m"
    proof (rule ccontr)
      assume "\<not> s \<le> ?m"
      then show False using mono [of ?m s p] s p 3 mid by auto
    qed
    from Suc.IH [OF Suc.prems(1,2) this Suc.prems(4), unfolded half] obtain x p' where
      "bisect price m tol n lo ?m = Inr (py_round 6 x)" "lo \<le> x" "x \<le> ?m" "price x = Inr p'"
      "\<bar>p' - m\<bar> < tol \<or> \<bar>x - s\<bar> \<le> (hi - lo) / 2 / 2 ^ (n + 1)" by blast
    then show ?thesis using 3 p mid by (intro exI [of _ x] exI [of _ p']) (auto simp: Let_def)
  qed
qed

lemma bisect_falls:
  assumes high: "\<And>u. lo \<le> u \<Longrightarrow> \<exists>p. price u = Inr p \<and> m + tol \<le> p" and "0 < tol"
  shows "lo \<le> hi \<Longrightarrow> bisect price m tol n lo hi = Inr (py_round 6 (lo + (hi - lo) / 2 ^ (n + 1)))"
proof (induction n arbitrary: hi)
  case 0
  have "lo + (hi - lo) / 2 = (lo + hi) / 2" by (simp add: field_simps)
  then show ?case by (simp only: bisect.simps add_0 power_one_right)
next
  case (Suc n)
  let ?m = "(lo + hi) / 2"
  have "lo \<le> ?m" using Suc.prems by simp
  moreover obtain p where "price ?m = Inr p" "m + tol \<le> p" using high \<open>lo \<le> ?m\<close> by blast
  moreover have "?m - lo = (hi - lo) / 2" by (simp add: field_simps)
  ultimately show ?case using Suc.IH [of ?m] \<open>0 < tol\<close> by (simp add: Let_def)
qed

text \<open>An option at the money without rate and dividend, the concrete input of two properties.\<close>

lemma atm_price: "\<exists>p. bs_price CE 100000 100000 1 0 0 (1 / 10000) = Inr p \<and> 1 \<le> p"
proof -
  define x :: real where "x = 1 / 20000 / sqrt 2"
  have d: "d1 100000 100000 1 0 0 (1 / 10000) = 1 / 20000" "d2 100000 100000 1 0 0 (1 / 10000) = - 1 / 20000"
    by (simp_all add: d2_def d1_def power2_eq_square)
  have val: "bs_value CE 100000 100000 1 0 0 (1 / 10000) = 100000 * erf x"
    unfolding bs_value_def Let_def d by (simp add: norm_cdf_def x_def field_split_simps)
  have r2: "sqrt 2 \<le> 3 / 2" by (rule real_le_lsqrt) (simp_all add: power2_eq_square)
  then have x: "1 / 30000 \<le> x" "x \<le> 1 / 20000" "0 \<le> x" by (simp_all add: x_def field_simps)
  have "sqrt pi \<le> 2" using pi_less_4 by (intro real_le_lsqrt) simp_all
  then have "1 \<le> 2 / sqrt pi" by (simp add: pi_gt_zero)
  moreover have "x ^ 2 \<le> (1 / 20000) ^ 2" using x by (intro power_mono) simp_all
  then have "1 / 2 \<le> exp (- (x ^ 2))" using exp_ge_add_one_self [of "- (x ^ 2)"] by (simp add: power2_eq_square)
  ultimately have "1 * (1 / 2) \<le> 2 / sqrt pi * exp (- (x ^ 2))" by (intro mult_mono) simp_all
  then have "1 / 30000 * (1 / 2) \<le> x * (2 / sqrt pi * exp (- (x ^ 2)))" using x by (intro mult_mono) simp_all
  from order_trans [OF this erf_lower [OF x(3)]] have "1 / 60000 \<le> erf x" by simp
  then have "py_round 4 (of_int 1) \<le> py_round 4 (bs_value CE 100000 100000 1 0 0 (1 / 10000))"
    unfolding val by (intro py_round_mono) simp
  then show ?thesis unfolding py_round_of_int by (simp add: bs_price_pos)
qed

section \<open>Properties\<close>

text \<open>
  Call and put prices of \<open>BlackScholes.price\<close> satisfy put-call parity, up to the rounding of both to four digits.
\<close>

theorem put_call_parity:
  assumes "0 < s" "0 < k" "0 < t" "0 < v"
    and "bs_price CE s k t r q v = Inr c" and "bs_price PE s k t r q v = Inr p"
  shows "\<bar>(c - p) - (s * exp (- q * t) - k * exp (- r * t))\<bar> \<le> 1 / 10000"
proof -
  have "\<bar>(a' - b') - (a - b)\<bar> \<le> 1 / 10000"
    if "a - 1 / 20000 \<le> a'" "a' \<le> a + 1 / 20000" "b - 1 / 20000 \<le> b'" "b' \<le> b + 1 / 20000" for a b a' b' :: real
    using that by linarith
  from this [OF py_round4_bounds py_round4_bounds, of "bs_value CE s k t r q v" "bs_value PE s k t r q v"]
  show ?thesis using assms by (simp add: bs_price_pos bs_parity)
qed

theorem put_call_parity_witness:
  "\<exists>c p. bs_price CE 100 100 1 0 0 (1 / 5) = Inr c \<and> bs_price PE 100 100 1 0 0 (1 / 5) = Inr p \<and> \<bar>c - p\<bar> \<le> 1 / 10000"
  using put_call_parity [where s = 100 and k = 100 and t = 1 and v = "1 / 5" and r = 0 and q = 0]
  by (simp add: bs_price_pos)

text \<open>C26: 
  Before rounding, the greeks of \<open>BlackScholes.greeks\<close> are the slopes of the unrounded price they are named for: delta
  in the spot, gamma the slope of delta, vega one hundredth of the slope in the volatility; a call's rho is one
  hundredth of the slope in the rate and its theta the loss of value per day.
\<close>

theorem greeks_are_slopes:
  assumes "0 < s" "0 < k" "0 < t" "0 < v"
  shows "((\<lambda>s. bs_value op s k t r q v) has_field_derivative raw_delta op s k t r q v) (at s)
    \<and> ((\<lambda>s. raw_delta op s k t r q v) has_field_derivative raw_gamma s k t r q v) (at s)
    \<and> ((\<lambda>v. bs_value op s k t r q v) has_field_derivative 100 * raw_vega s k t r q v) (at v)
    \<and> ((\<lambda>r. bs_value CE s k t r q v) has_field_derivative 100 * raw_rho CE s k t r q v) (at r)
    \<and> ((\<lambda>t. bs_value CE s k t r q v) has_field_derivative - (365 * raw_theta CE s k t r q v)) (at t)"
  using delta_deriv [OF assms] gamma_deriv [OF assms] vega_deriv [OF assms] rho_deriv [OF assms, of CE]
    theta_deriv(1) [OF assms] by simp

theorem greeks_are_slopes_witness:
  "((\<lambda>s. bs_value PE s 100 1 0 0 (1 / 5)) has_field_derivative raw_delta PE 120 100 1 0 0 (1 / 5)) (at 120)"
  using greeks_are_slopes [where op = PE and s = 120 and k = 100 and t = 1 and r = 0 and q = 0 and v = "1 / 5"] by simp

text \<open>
  The rho and theta of a put keep the signs of a call: a put loses value when the rate rises, by 100 times the rho
  reported as its gain, and its true decay per year differs from 365 times the reported theta by twice the
  two carry terms.
\<close>

theorem put_rho_theta_signs:
  assumes "0 < s" "0 < k" "0 < t" "0 < v"
  shows "((\<lambda>r. bs_value PE s k t r q v) has_field_derivative - 100 * raw_rho PE s k t r q v) (at r)
    \<and> ((\<lambda>t. bs_value PE s k t r q v) has_field_derivative
         - (365 * raw_theta PE s k t r q v
            + 2 * (r * k * exp (- r * t) * norm_cdf (- d2 s k t r q v)
                   - q * s * exp (- q * t) * norm_cdf (- d1 s k t r q v)))) (at t)"
  using rho_deriv [where op = PE, OF assms] theta_deriv(2) [OF assms] by simp

theorem put_rho_theta_signs_witness:
  "((\<lambda>r. bs_value PE 120 100 1 r 0 (1 / 5)) has_field_derivative - 100 * raw_rho PE 120 100 1 (1 / 10) 0 (1 / 5)) (at (1 / 10))"
  using put_rho_theta_signs [where s = 120 and k = 100 and t = 1 and r = "1 / 10" and q = 0 and v = "1 / 5"] by simp

text \<open>C9: 
  \<open>implied_volatility\<close> inverts the price.  Given the price \<open>m\<close> of a volatility between 0.01\% and 500\%, it gives no answer
  if \<open>m\<close> is not positive or is below the intrinsic value (as for a European put deep in the money), and otherwise a
  volatility rounded to six digits: the unrounded one, at most half a millionth away, is in that range and reprices to exactly
  \<open>m\<close>, or lies within the width of the last bisection interval of the volatility the price came from.
\<close>

theorem implied_volatility_inverts:
  assumes "0 < s" "0 < k" "0 < t" and "1 / 10000 \<le> v" "v \<le> 5" and "0 < tol" "tol \<le> 1 / 10000"
    and m: "bs_price op s k t r q v = Inr m"
  shows "if m \<le> 0 \<or> m < bs_intrinsic op s k then implied_volatility tol n op m s k t r q = Inr None
    else \<exists>x iv. implied_volatility tol n op m s k t r q = Inr (Some iv) \<and> iv = py_round 6 x
      \<and> \<bar>iv - x\<bar> \<le> 1 / (2 * 10 ^ 6) \<and> 1 / 10000 \<le> x \<and> x \<le> 5
      \<and> (bs_price op s k t r q x = Inr m \<or> \<bar>x - v\<bar> \<le> (5 - 1 / 10000) / 2 ^ (n + 1))"
proof (cases "m \<le> 0 \<or> m < bs_intrinsic op s k")
  case True
  then show ?thesis using assms(3) by (auto simp: implied_volatility_def)
next
  case False
  then have pos: "0 < m" "bs_intrinsic op s k \<le> m" by simp_all
  let ?p = "bs_price op s k t r q"
  have mono: "\<exists>p'. ?p u' = Inr p' \<and> p \<le> p'" if "0 < u" "u \<le> u'" "?p u = Inr p" for u u' p
    using that assms bs_price_mono_vol [OF assms(1-3), of u u' op r q p] by (simp add: bs_price_pos)
  have total: "\<exists>p. ?p u = Inr p" if "0 < u" for u using that assms by (simp add: bs_price_pos)
  have "\<exists>x p. bisect ?p m tol n (1 / 10000) 5 = Inr (py_round 6 x) \<and> 1 / 10000 \<le> x \<and> x \<le> 5 \<and> ?p x = Inr p
      \<and> (\<bar>p - m\<bar> < tol \<or> \<bar>x - v\<bar> \<le> (5 - 1 / 10000) / 2 ^ (n + 1))"
    by (rule bisect_brackets [where price = ?p, OF mono total m]) (use assms in simp_all)
  then obtain x p where x: "bisect ?p m tol n (1 / 10000) 5 = Inr (py_round 6 x)" "1 / 10000 \<le> x" "x \<le> 5" "?p x = Inr p"
    "\<bar>p - m\<bar> < tol \<or> \<bar>x - v\<bar> \<le> (5 - 1 / 10000) / 2 ^ (n + 1)" by blast
  have "?p x = Inr m" if "\<bar>p - m\<bar> < tol"
    using that x(2,4) m assms py_round_apart [of 4 "bs_value op s k t r q x" "bs_value op s k t r q v"]
    by (auto simp: bs_price_pos)
  moreover obtain b where "?p 5 = Inr b" "m \<le> b" using mono [of v 5 m] m assms by auto
  ultimately have "implied_volatility tol n op m s k t r q = Inr (Some (py_round 6 x))"
    "?p x = Inr m \<or> \<bar>x - v\<bar> \<le> (5 - 1 / 10000) / 2 ^ (n + 1)"
    using x assms pos by (auto simp: implied_volatility_def)
  then show ?thesis using x(2,3) py_round_error [of 6 x] False by auto
qed

theorem implied_volatility_inverts_witness:
  "\<exists>m x. bs_price CE 100000 100000 1 0 0 (1 / 10000) = Inr m
    \<and> implied_volatility (1 / 1000000) 100 CE m 100000 100000 1 0 0 = Inr (Some (py_round 6 x))
    \<and> (bs_price CE 100000 100000 1 0 0 x = Inr m \<or> \<bar>x - 1 / 10000\<bar> \<le> (5 - 1 / 10000) / 2 ^ 101)"
proof -
  obtain m where m: "bs_price CE 100000 100000 1 0 0 (1 / 10000) = Inr m" "1 \<le> m" using atm_price by blast
  have n: "\<not> (m \<le> 0 \<or> m < bs_intrinsic CE 100000 100000)" using m(2) by (simp add: bs_intrinsic_def)
  have "if m \<le> 0 \<or> m < bs_intrinsic CE 100000 100000
    then implied_volatility (1 / 1000000) 100 CE m 100000 100000 1 0 0 = Inr None
    else \<exists>x iv. implied_volatility (1 / 1000000) 100 CE m 100000 100000 1 0 0 = Inr (Some iv) \<and> iv = py_round 6 x
      \<and> \<bar>iv - x\<bar> \<le> 1 / (2 * 10 ^ 6) \<and> 1 / 10000 \<le> x \<and> x \<le> 5
      \<and> (bs_price CE 100000 100000 1 0 0 x = Inr m \<or> \<bar>x - 1 / 10000\<bar> \<le> (5 - 1 / 10000) / 2 ^ (100 + 1))"
    by (rule implied_volatility_inverts [OF _ _ _ _ _ _ _ m(1)]) simp_all
  then show ?thesis using n m(1) by auto
qed

text \<open>
  When the price is below what every volatility of the range gives, \<open>implied_volatility\<close> does not say so: it returns the
  lower end of the range, the end \<open>lo\<close> of the bisection plus the last interval, as if it were a solution.
\<close>

theorem implied_volatility_without_solution:
  assumes "0 < s" "0 < k" "0 < t" "0 < tol" "0 < m" "bs_intrinsic op s k \<le> m"
    and low: "bs_price op s k t r q (1 / 10000) = Inr p" "m + tol \<le> p"
  shows "implied_volatility tol n op m s k t r q = Inr (Some (py_round 6 (1 / 10000 + (5 - 1 / 10000) / 2 ^ (n + 1))))
    \<and> (\<forall>x \<ge> 1 / 10000. \<exists>p. bs_price op s k t r q x = Inr p \<and> m + tol \<le> p)"
proof -
  let ?p = "bs_price op s k t r q"
  have high: "\<exists>p. ?p x = Inr p \<and> m + tol \<le> p" if "1 / 10000 \<le> x" for x
    using that assms bs_price_mono_vol [OF assms(1-3), of "1 / 10000" x op r q p] by (fastforce simp: bs_price_pos)
  have "bisect ?p m tol n (1 / 10000) 5 = Inr (py_round 6 (1 / 10000 + (5 - 1 / 10000) / 2 ^ (n + 1)))"
    by (rule bisect_falls [OF high \<open>0 < tol\<close>]) simp_all
  moreover obtain b where "?p 5 = Inr b" "m + tol \<le> b" using high [of 5] by auto
  ultimately show ?thesis using assms high by (auto simp: implied_volatility_def)
qed

theorem implied_volatility_without_solution_witness:
  "implied_volatility (1 / 1000000) 100 CE (1 / 2) 100000 100000 1 0 0
     = Inr (Some (py_round 6 (1 / 10000 + (5 - 1 / 10000) / 2 ^ 101)))
   \<and> bs_price CE 100000 100000 1 0 0 (1 / 10000) \<noteq> Inr (1 / 2)"
proof -
  obtain p where p: "bs_price CE 100000 100000 1 0 0 (1 / 10000) = Inr p" "1 \<le> p" using atm_price by blast
  have "1 / 2 + 1 / 1000000 \<le> p" using p(2) by simp
  from implied_volatility_without_solution [OF _ _ _ _ _ _ p(1) this, of 100] p show ?thesis
    by (simp add: bs_intrinsic_def)
qed

end
