(* ===== verification/HalfTrend.thy ===== *)
theory HalfTrend
  imports Events
begin

text \<open>
  \<open>ntrade/domain/analytics/halftrend.py\<close> and its two users in \<open>ntrade/engines/strategies.py\<close>: the trading
  strategy and the chart overlay.

  A float that may be \<open>nan\<close> is a \<open>real option\<close>. The rolling extremes and means and the average true range come from
  pandas; they are columns of the input rows. The loop over the bars is translated as a step from one bar to the next.

  The lemmas show that the line is defined from the second bar on, never falls in an up-trend and never rises in a
  down-trend, is continuous at a flip, that buy and sell markers are exactly the flips with a known range and alternate,
  and that the strategy trades a bar which the overlay, meant to agree with it, leaves out.
\<close>

section \<open>The indicator\<close>

record ht_row =
  hr_high :: "real option"
  hr_low :: "real option"
  hr_close :: "real option"
  hr_hp :: "real option"
  hr_lp :: "real option"
  hr_hma :: "real option"
  hr_lma :: "real option"
  hr_atr2 :: "real option"
  hr_dev :: "real option"

record ht_bar =
  ht_trend :: int
  ht_next :: int
  ht_max_low :: "real option"
  ht_min_high :: "real option"
  ht_up :: "real option"
  ht_down :: "real option"
  ht_atr_high :: "real option"
  ht_atr_low :: "real option"
  ht_arrow_up :: "real option"
  ht_arrow_down :: "real option"

text \<open>A comparison with \<open>nan\<close> is false.\<close>

fun lt_na :: "real option \<Rightarrow> real option \<Rightarrow> bool" where
  "lt_na (Some x) (Some y) = (x < y)"
| "lt_na _ _ = False"

text \<open>\<open>f(new, old)\<close> when both are numbers, otherwise whichever is.\<close>

fun merge_na :: "(real \<Rightarrow> real \<Rightarrow> real) \<Rightarrow> real option \<Rightarrow> real option \<Rightarrow> real option" where
  "merge_na f (Some x) (Some y) = Some (f x y)"
| "merge_na f (Some x) None = Some x"
| "merge_na f None y = y"

fun plus_na :: "real option \<Rightarrow> real option \<Rightarrow> real option" where
  "plus_na (Some x) (Some y) = Some (x + y)"
| "plus_na _ _ = None"

fun minus_na :: "real option \<Rightarrow> real option \<Rightarrow> real option" where
  "minus_na (Some x) (Some y) = Some (x - y)"
| "minus_na _ _ = None"

definition ht_first :: "ht_row \<Rightarrow> ht_bar" where
  "ht_first r =
     \<lparr>ht_trend = 0, ht_next = 0, ht_max_low = hr_low r, ht_min_high = hr_high r, ht_up = None, ht_down = None,
      ht_atr_high = None, ht_atr_low = None, ht_arrow_up = None, ht_arrow_down = None\<rparr>"

text \<open>The trend, the next trend and the two extremes of a bar from those of the bar before.\<close>

definition ht_flip :: "ht_row \<Rightarrow> ht_row \<Rightarrow> ht_bar \<Rightarrow> int \<times> int \<times> real option \<times> real option" where
  "ht_flip prev r b =
     (if ht_next b = 1
      then (let max_low = merge_na max (hr_lp r) (ht_max_low b)
            in if lt_na (hr_hma r) max_low \<and> lt_na (hr_close r) (hr_low prev)
               then (1, 0, max_low, (case hr_hp r of None \<Rightarrow> ht_min_high b | Some h \<Rightarrow> Some h))
               else (ht_trend b, ht_next b, max_low, ht_min_high b))
      else (let min_high = merge_na min (hr_hp r) (ht_min_high b)
            in if lt_na min_high (hr_lma r) \<and> lt_na (hr_high prev) (hr_close r)
               then (0, 1, (case hr_lp r of None \<Rightarrow> ht_max_low b | Some l \<Rightarrow> Some l), min_high)
               else (ht_trend b, ht_next b, ht_max_low b, min_high)))"

text \<open>The levels, channels and arrows of a bar; each side is set only while its trend holds.\<close>

definition ht_up_levels :: "ht_row \<Rightarrow> ht_bar \<Rightarrow> ht_bar \<Rightarrow> ht_bar" where
  "ht_up_levels r b b' =
     (let flipped = (ht_trend b \<noteq> 0);
          up = (if flipped then ht_down b else merge_na max (ht_max_low b') (ht_up b))
      in b'\<lparr>ht_up := up, ht_arrow_up := (if flipped then minus_na up (hr_atr2 r) else None),
            ht_atr_high := plus_na up (hr_dev r), ht_atr_low := minus_na up (hr_dev r)\<rparr>)"

definition ht_down_levels :: "ht_row \<Rightarrow> ht_bar \<Rightarrow> ht_bar \<Rightarrow> ht_bar" where
  "ht_down_levels r b b' =
     (let flipped = (ht_trend b \<noteq> 1);
          down = (if flipped then ht_up b else merge_na min (ht_min_high b') (ht_down b))
      in b'\<lparr>ht_down := down, ht_arrow_down := (if flipped then plus_na down (hr_atr2 r) else None),
            ht_atr_high := plus_na down (hr_dev r), ht_atr_low := minus_na down (hr_dev r)\<rparr>)"

definition ht_step :: "ht_row \<Rightarrow> ht_row \<Rightarrow> ht_bar \<Rightarrow> ht_bar" where
  "ht_step prev r b =
     (case ht_flip prev r b of
        (trend, nxt, max_low, min_high) \<Rightarrow>
          (let b' = \<lparr>ht_trend = trend, ht_next = nxt, ht_max_low = max_low, ht_min_high = min_high,
                     ht_up = None, ht_down = None, ht_atr_high = None, ht_atr_low = None,
                     ht_arrow_up = None, ht_arrow_down = None\<rparr>
           in if trend = 0 then ht_up_levels r b b' else ht_down_levels r b b'))"

fun ht_bars_from :: "ht_row \<Rightarrow> ht_bar \<Rightarrow> ht_row list \<Rightarrow> ht_bar list" where
  "ht_bars_from prev b [] = [b]"
| "ht_bars_from prev b (r # rs) = b # ht_bars_from r (ht_step prev r b) rs"

definition halftrend :: "ht_row list \<Rightarrow> ht_bar list" where
  "halftrend rows = (case rows of [] \<Rightarrow> [] | r # rs \<Rightarrow> ht_bars_from r (ht_first r) rs)"

definition ht_line :: "ht_bar \<Rightarrow> real option" where
  "ht_line b =
     (if ht_trend b = 0 \<and> ht_up b \<noteq> None then ht_up b
      else if ht_trend b = 1 \<and> ht_down b \<noteq> None then ht_down b else None)"

definition ht_buy :: "ht_bar list \<Rightarrow> nat \<Rightarrow> bool" where
  "ht_buy bs i \<longleftrightarrow>
     i \<noteq> 0 \<and> ht_arrow_up (bs ! i) \<noteq> None \<and> ht_trend (bs ! i) = 0 \<and> ht_trend (bs ! (i - 1)) = 1"

definition ht_sell :: "ht_bar list \<Rightarrow> nat \<Rightarrow> bool" where
  "ht_sell bs i \<longleftrightarrow>
     i \<noteq> 0 \<and> ht_arrow_down (bs ! i) \<noteq> None \<and> ht_trend (bs ! i) = 1 \<and> ht_trend (bs ! (i - 1)) = 0"

section \<open>The strategy and the overlay\<close>

text \<open>\<open>latest_signal\<close>: the side and the line at the last bar, after the warm-up.\<close>

definition latest_signal :: "nat \<Rightarrow> ht_bar list \<Rightarrow> (string \<times> real option) option" where
  "latest_signal atr_period bs =
     (if length bs < atr_period then None
      else if bs = [] then None
      else (let i = length bs - 1
            in if ht_buy bs i then Some (''BUY'', ht_line (bs ! i))
               else if ht_sell bs i then Some (''SELL'', ht_line (bs ! i)) else None))"

record ht_strategy =
  hs_symbol :: "string option"
  hs_lot_size :: int
  hs_atr_period :: nat
  hs_buf :: "candle_closed list"

text \<open>\<open>frame\<close> gives the frame built from the buffer with its pandas columns.\<close>

definition ht_on_candle ::
  "(candle_closed list \<Rightarrow> ht_row list) \<Rightarrow> datetime \<Rightarrow> candle_closed \<Rightarrow> ht_strategy \<Rightarrow> ht_strategy \<times> signal_generated option" where
  "ht_on_candle frame now e s =
     (if (case hs_symbol s of None \<Rightarrow> False | Some y \<Rightarrow> cc_symbol e \<noteq> y) \<or> cc_timeframe e \<noteq> ''1m'' then (s, None)
      else (let s = s\<lparr>hs_buf := hs_buf s @ [e]\<rparr>
            in case latest_signal (hs_atr_period s) (halftrend (frame (hs_buf s))) of
                 None \<Rightarrow> (s, None)
               | Some (side, ht) \<Rightarrow>
                   (s, Some \<lparr>ts = now, sg_symbol = cc_symbol e, sg_exchange = cc_exchange e, sg_side = side,
                             sg_quantity = hs_lot_size s, sg_price = cc_close e, sg_order_type = ''MARKET'',
                             sg_strategy = ''halftrend'',
                             sg_metadata = (''ht'', case ht of None \<Rightarrow> PNone | Some v \<Rightarrow> PFloat v) #
                               (if cc_close e \<noteq> 0 then [(''reference_price'', PFloat (cc_close e))] else [])\<rparr>)))"

record marker =
  mk_index :: nat
  mk_side :: string
  mk_ht :: "real option"
  mk_trend :: int

definition marker_at :: "ht_bar list \<Rightarrow> nat \<Rightarrow> marker option" where
  "marker_at bs i =
     (let mk = (\<lambda>side. \<lparr>mk_index = i, mk_side = side, mk_ht = map_option (py_round 4) (ht_line (bs ! i)),
                        mk_trend = ht_trend (bs ! i)\<rparr>)
      in if ht_buy bs i then Some (mk ''BUY'') else if ht_sell bs i then Some (mk ''SELL'') else None)"

definition overlay_markers :: "nat \<Rightarrow> ht_bar list \<Rightarrow> marker list option" where
  "overlay_markers apt bs =
     (if bs = [] then None else Some (List.map_filter (marker_at bs) [apt..<length bs]))"

section \<open>Lemmas\<close>

lemma ht_bars_from_nth:
  "length (ht_bars_from prev b rs) = Suc (length rs)"
  "Suc i < length (ht_bars_from prev b rs) \<Longrightarrow>
     ht_bars_from prev b rs ! Suc i = ht_step ((prev # rs) ! i) (rs ! i) (ht_bars_from prev b rs ! i)"
  "ht_bars_from prev b rs ! 0 = b"
proof (induction rs arbitrary: prev b i)
  case (Cons r rs)
  { case 1 show ?case using Cons.IH(1) by simp }
  { case 2 then show ?case using Cons.IH(2) [where b = "ht_step prev r b" and prev = r] Cons.IH(3) by (cases i) auto }
  { case 3 show ?case by simp }
qed auto

lemma halftrend_nth:
  "length (halftrend rows) = length rows"
  "rows \<noteq> [] \<Longrightarrow> halftrend rows ! 0 = ht_first (rows ! 0)"
  "Suc i < length rows \<Longrightarrow> halftrend rows ! Suc i = ht_step (rows ! i) (rows ! Suc i) (halftrend rows ! i)"
  by (cases rows; simp add: halftrend_def ht_bars_from_nth)+

lemma merge_na_none [simp]: "merge_na f x y = None \<longleftrightarrow> x = None \<and> y = None"
  by (cases "(f, x, y)" rule: merge_na.cases) auto

lemma na_none [simp]:
  "plus_na x y = None \<longleftrightarrow> x = None \<or> y = None" "minus_na x y = None \<longleftrightarrow> x = None \<or> y = None"
  by (cases x; cases y; simp)+

text \<open>The states the loop reaches: the trend leads or equals the next one, and the side of the trend has a level.\<close>

definition ht_inv :: "bool \<Rightarrow> ht_bar \<Rightarrow> bool" where
  "ht_inv started b \<longleftrightarrow>
     ht_max_low b \<noteq> None \<and> ht_min_high b \<noteq> None \<and>
     (ht_trend b = 0 \<and> (ht_next b = 0 \<or> ht_next b = 1) \<or> ht_trend b = 1 \<and> ht_next b = 0) \<and>
     (if started then ht_line b \<noteq> None else ht_next b = 0 \<and> ht_trend b = 0 \<and> ht_up b = None)"

lemma ht_flip_inv:
  assumes "ht_inv started b"
  shows "case ht_flip prev r b of (trend, nxt, ml, mh) \<Rightarrow>
    ml \<noteq> None \<and> mh \<noteq> None \<and> (trend = 0 \<and> (nxt = 0 \<or> nxt = 1) \<or> trend = 1 \<and> nxt = 0) \<and>
    (trend = 1 \<and> ht_trend b = 0 \<longrightarrow> ht_next b = 1)"
  using assms by (auto simp: ht_flip_def ht_inv_def Let_def simp del: not_None_eq split: option.split)

lemma ht_flip_cases:
  assumes "ht_flip prev r b = (trend, nxt, ml, mh)" and "ht_inv started b"
  shows "ml \<noteq> None \<and> mh \<noteq> None \<and> (trend = 0 \<and> (nxt = 0 \<or> nxt = 1) \<or> trend = 1 \<and> nxt = 0)"
    and "trend = 1 \<Longrightarrow> ht_trend b = 0 \<Longrightarrow> ht_next b = 1"
  using ht_flip_inv [OF assms(2), of prev r] unfolding assms(1) by auto

lemma ht_step_facts:
  fixes prev r :: ht_row
  assumes "ht_inv started b"
  defines "b' \<equiv> ht_step prev r b"
  shows "ht_inv True b'"
    and "ht_trend b' = 0 \<Longrightarrow> ht_trend b = 1 \<Longrightarrow> ht_line b' = ht_line b \<and> (ht_arrow_up b' \<noteq> None \<longleftrightarrow> hr_atr2 r \<noteq> None)"
    and "ht_trend b' = 1 \<Longrightarrow> ht_trend b = 0 \<Longrightarrow> ht_line b' = ht_line b \<and> (ht_arrow_down b' \<noteq> None \<longleftrightarrow> hr_atr2 r \<noteq> None)"
    and "started \<Longrightarrow> ht_trend b' = 0 \<Longrightarrow> the (ht_line b) \<le> the (ht_line b')"
    and "started \<Longrightarrow> ht_trend b' = 1 \<Longrightarrow> the (ht_line b') \<le> the (ht_line b)"
proof -
  obtain trend nxt ml mh where fl: "ht_flip prev r b = (trend, nxt, ml, mh)" by (cases "ht_flip prev r b")
  note c = ht_flip_cases [OF fl assms(1)]
  note defs = b'_def ht_step_def fl ht_up_levels_def ht_down_levels_def Let_def ht_line_def ht_inv_def
  show "ht_inv True b'" using c assms(1) by (auto simp: defs simp del: not_None_eq split: if_splits)
  show "ht_trend b' = 0 \<Longrightarrow> ht_trend b = 1 \<Longrightarrow> ht_line b' = ht_line b \<and> (ht_arrow_up b' \<noteq> None \<longleftrightarrow> hr_atr2 r \<noteq> None)"
    using c assms(1) by (auto simp: defs simp del: not_None_eq split: if_splits)
  show "ht_trend b' = 1 \<Longrightarrow> ht_trend b = 0 \<Longrightarrow> ht_line b' = ht_line b \<and> (ht_arrow_down b' \<noteq> None \<longleftrightarrow> hr_atr2 r \<noteq> None)"
    using c assms(1) by (auto simp: defs simp del: not_None_eq split: if_splits)
  show "started \<Longrightarrow> ht_trend b' = 0 \<Longrightarrow> the (ht_line b) \<le> the (ht_line b')"
    using c assms(1) by (cases ml; cases "ht_up b") (auto simp: defs split: if_splits)
  show "started \<Longrightarrow> ht_trend b' = 1 \<Longrightarrow> the (ht_line b') \<le> the (ht_line b)"
    using c assms(1) by (cases mh; cases "ht_down b") (auto simp: defs split: if_splits)
qed

lemma halftrend_inv:
  assumes "hr_low (rows ! 0) \<noteq> None" "hr_high (rows ! 0) \<noteq> None" "i < length rows"
  shows "ht_inv (i \<noteq> 0) (halftrend rows ! i)"
  using assms(3)
proof (induction i)
  case 0
  then show ?case using assms by (auto simp: halftrend_nth ht_first_def ht_inv_def ht_line_def)
next
  case (Suc i)
  then show ?case using ht_step_facts(1) by (simp add: halftrend_nth)
qed

lemma rise_between:
  fixes f :: "nat \<Rightarrow> int"
  assumes "i \<le> j" "f i = 0" "f j = 1" "\<forall>k. i \<le> k \<and> k \<le> j \<longrightarrow> f k = 0 \<or> f k = 1"
  shows "\<exists>k. i < k \<and> k \<le> j \<and> f (k - 1) = 0 \<and> f k = 1"
  using assms
proof (induction "j - i" arbitrary: j)
  case (Suc d)
  then have "i < j" by auto
  show ?case
  proof (cases "f (j - 1) = 0")
    case True
    then show ?thesis using Suc.prems \<open>i < j\<close> by auto
  next
    case False
    then have "f (j - 1) = 1" using Suc.prems \<open>i < j\<close> by (metis Suc_diff_1 diff_le_self gr_implies_not0 less_Suc_eq_le neq0_conv)
    then have "\<exists>k. i < k \<and> k \<le> j - 1 \<and> f (k - 1) = 0 \<and> f k = 1"
      using Suc.hyps(2) Suc.prems \<open>i < j\<close> by (intro Suc.hyps(1)) auto
    then show ?thesis by (meson diff_le_self le_trans)
  qed
qed auto

section \<open>The properties\<close>

text \<open>C27: 
  The HalfTrend line over bars whose first high and low are numbers: from the second bar on it is defined and the trend
  is up (0) or down (1); from the third bar on it does not fall at a bar of an up-trend nor rise at a bar of a down-trend,
  and at a change of trend it keeps its value.
\<close>

theorem halftrend_ratchet:
  assumes "hr_low (rows ! 0) \<noteq> None" "hr_high (rows ! 0) \<noteq> None" "0 < i" "i < length rows"
  defines "bs \<equiv> halftrend rows"
  shows "ht_line (bs ! i) \<noteq> None \<and> ht_trend (bs ! i) \<in> {0, 1} \<and>
    (1 < i \<longrightarrow> (ht_trend (bs ! i) = 0 \<longrightarrow> the (ht_line (bs ! (i - 1))) \<le> the (ht_line (bs ! i))) \<and>
               (ht_trend (bs ! i) = 1 \<longrightarrow> the (ht_line (bs ! i)) \<le> the (ht_line (bs ! (i - 1)))) \<and>
               (ht_trend (bs ! i) \<noteq> ht_trend (bs ! (i - 1)) \<longrightarrow> ht_line (bs ! i) = ht_line (bs ! (i - 1))))"
proof -
  obtain j where i: "i = Suc j" using assms(3) gr0_implies_Suc by blast
  have inv: "ht_inv (j \<noteq> 0) (bs ! j)" "ht_inv True (bs ! i)"
    using halftrend_inv [OF assms(1,2), of j] halftrend_inv [OF assms(1,2), of i] assms(4) by (auto simp: bs_def i)
  have step: "bs ! i = ht_step (rows ! j) (rows ! i) (bs ! j)" using assms(4) by (simp add: bs_def i halftrend_nth)
  note facts = ht_step_facts [OF inv(1), of "rows ! j" "rows ! i", folded step]
  show ?thesis using inv facts unfolding ht_inv_def i by (auto simp: i)
qed

text \<open>
  A bar has a buy marker exactly when the trend turns from down to up there and the average range is known, and a sell
  marker when it turns from up to down. Between two buys with the range known there is a sell, and between two sells a buy.
\<close>

theorem halftrend_signals_alternate:
  assumes "hr_low (rows ! 0) \<noteq> None" "hr_high (rows ! 0) \<noteq> None" "0 < i" "i < j" "j < length rows"
  defines "bs \<equiv> halftrend rows"
  shows "(ht_buy bs i \<longleftrightarrow> ht_trend (bs ! (i - 1)) = 1 \<and> ht_trend (bs ! i) = 0 \<and> hr_atr2 (rows ! i) \<noteq> None) \<and>
    (ht_sell bs i \<longleftrightarrow> ht_trend (bs ! (i - 1)) = 0 \<and> ht_trend (bs ! i) = 1 \<and> hr_atr2 (rows ! i) \<noteq> None) \<and>
    ((\<forall>k. i \<le> k \<and> k \<le> j \<longrightarrow> hr_atr2 (rows ! k) \<noteq> None) \<longrightarrow>
      (ht_buy bs i \<and> ht_buy bs j \<longrightarrow> (\<exists>k. i < k \<and> k < j \<and> ht_sell bs k)) \<and>
      (ht_sell bs i \<and> ht_sell bs j \<longrightarrow> (\<exists>k. i < k \<and> k < j \<and> ht_buy bs k)))"
proof -
  have trend: "ht_trend (bs ! k) = 0 \<or> ht_trend (bs ! k) = 1" if "k < length rows" for k
    using halftrend_inv [OF assms(1,2) that] by (auto simp: ht_inv_def bs_def)
  have buy: "ht_buy bs k \<longleftrightarrow> ht_trend (bs ! (k - 1)) = 1 \<and> ht_trend (bs ! k) = 0 \<and> hr_atr2 (rows ! k) \<noteq> None"
    and sell: "ht_sell bs k \<longleftrightarrow> ht_trend (bs ! (k - 1)) = 0 \<and> ht_trend (bs ! k) = 1 \<and> hr_atr2 (rows ! k) \<noteq> None"
    if k: "0 < k" "k < length rows" for k
  proof -
    have "ht_inv (k - 1 \<noteq> 0) (bs ! (k - 1))" using halftrend_inv [OF assms(1,2), of "k - 1"] k by (simp add: bs_def)
    moreover have "bs ! k = ht_step (rows ! (k - 1)) (rows ! k) (bs ! (k - 1))"
      using k halftrend_nth(3) [of "k - 1" rows] by (simp add: bs_def)
    ultimately show "ht_buy bs k \<longleftrightarrow> ht_trend (bs ! (k - 1)) = 1 \<and> ht_trend (bs ! k) = 0 \<and> hr_atr2 (rows ! k) \<noteq> None"
      "ht_sell bs k \<longleftrightarrow> ht_trend (bs ! (k - 1)) = 0 \<and> ht_trend (bs ! k) = 1 \<and> hr_atr2 (rows ! k) \<noteq> None"
      using k ht_step_facts(2,3) [of "k - 1 \<noteq> 0" "bs ! (k - 1)" "rows ! (k - 1)" "rows ! k"]
      by (auto simp: ht_buy_def ht_sell_def)
  qed
  have near: "ht_trend (bs ! k) = 0 \<or> ht_trend (bs ! k) = 1" if "k \<le> j - 1" for k
    using trend [of k] that assms(4,5) by auto
  have "\<exists>k. i < k \<and> k < j \<and> ht_sell bs k"
    if "\<forall>k. i \<le> k \<and> k \<le> j \<longrightarrow> hr_atr2 (rows ! k) \<noteq> None" "ht_buy bs i" "ht_buy bs j"
  proof -
    have "\<exists>k. i < k \<and> k \<le> j - 1 \<and> ht_trend (bs ! (k - 1)) = 0 \<and> ht_trend (bs ! k) = 1"
      using that(2,3) near assms(4,5) by (intro rise_between) (auto simp: ht_buy_def)
    then obtain k where k: "i < k" "k \<le> j - 1" "ht_trend (bs ! (k - 1)) = 0" "ht_trend (bs ! k) = 1" by blast
    then show ?thesis using that(1) sell [of k] assms(4,5) by (intro exI [of _ k]) auto
  qed
  moreover have "\<exists>k. i < k \<and> k < j \<and> ht_buy bs k"
    if "\<forall>k. i \<le> k \<and> k \<le> j \<longrightarrow> hr_atr2 (rows ! k) \<noteq> None" "ht_sell bs i" "ht_sell bs j"
  proof -
    have "\<exists>k. i < k \<and> k \<le> j - 1 \<and> 1 - ht_trend (bs ! (k - 1)) = 0 \<and> 1 - ht_trend (bs ! k) = 1"
      using that(2,3) near assms(4,5) by (intro rise_between) (fastforce simp: ht_sell_def)+
    then obtain k where k: "i < k" "k \<le> j - 1" "ht_trend (bs ! (k - 1)) = 1" "ht_trend (bs ! k) = 0" by auto
    then show ?thesis using that(1) buy [of k] assms(4,5) by (intro exI [of _ k]) auto
  qed
  moreover have "i < length rows" using assms(4,5) by linarith
  ultimately show ?thesis using buy [OF assms(3)] sell [OF assms(3)] by blast
qed

text \<open>
  The overlay leaves out bar number \<open>atr_period\<close> (index \<open>atr_period - 1\<close>), the first that the strategy may trade: on the first
  \<open>atr_period\<close> bars the overlay is empty whatever the bars, and there are bars for which the strategy sends an order then.
\<close>

theorem overlay_misses_first_trade:
  "(rows \<noteq> [] \<longrightarrow> overlay_markers (length rows) (halftrend rows) = Some []) \<and>
   (\<exists>rows line. rows \<noteq> [] \<and> latest_signal (length rows) (halftrend rows) = Some (''SELL'', line))"
proof -
  let ?row = "\<lambda>h l c a. \<lparr>hr_high = Some h, hr_low = Some l, hr_close = Some c, hr_hp = Some h, hr_lp = Some l, hr_hma = Some h,
                       hr_lma = Some l, hr_atr2 = a, hr_dev = a\<rparr>"
  let ?rows = "[?row 11 10 10 None, ?row 21 20 20 None, ?row 6 5 5 (Some 7)]"
  have "latest_signal (length ?rows) (halftrend ?rows) = Some (''SELL'', Some 20)"
    by (simp add: latest_signal_def halftrend_def ht_step_def ht_flip_def ht_first_def ht_up_levels_def ht_down_levels_def
        ht_buy_def ht_sell_def ht_line_def Let_def)
  moreover have "overlay_markers (length rows) (halftrend rows) = Some []" if "rows \<noteq> []"
    using that halftrend_nth(1) [of rows] by (auto simp: overlay_markers_def)
  ultimately show ?thesis by blast
qed

section \<open>Witnesses\<close>

definition sample_row :: "real \<Rightarrow> real \<Rightarrow> real \<Rightarrow> ht_row" where
  "sample_row h l c =
     \<lparr>hr_high = Some h, hr_low = Some l, hr_close = Some c, hr_hp = Some h, hr_lp = Some l, hr_hma = Some h,
      hr_lma = Some l, hr_atr2 = Some 1, hr_dev = Some 2\<rparr>"

definition sample_rows :: "ht_row list" where
  "sample_rows = [sample_row 11 10 10, sample_row 21 20 20, sample_row 6 5 5, sample_row 31 30 30]"

theorem halftrend_ratchet_witness:
  "ht_trend (halftrend sample_rows ! 2) = 1 \<and> ht_line (halftrend sample_rows ! 2) = ht_line (halftrend sample_rows ! 1)"
proof -
  have "ht_trend (halftrend sample_rows ! 1) = 0" "ht_trend (halftrend sample_rows ! 2) = 1"
    by (simp_all add: sample_rows_def sample_row_def halftrend_def ht_step_def ht_flip_def ht_first_def ht_up_levels_def
        ht_down_levels_def Let_def numeral_2_eq_2)
  then show ?thesis using halftrend_ratchet [of sample_rows 2] by (simp add: sample_rows_def sample_row_def)
qed

theorem halftrend_signals_alternate_witness:
  "ht_sell (halftrend sample_rows) 2 \<and> ht_buy (halftrend sample_rows) 3"
proof -
  have tr: "ht_trend (halftrend sample_rows ! 1) = 0" "ht_trend (halftrend sample_rows ! 2) = 1"
    by (simp_all add: sample_rows_def sample_row_def halftrend_def ht_step_def ht_flip_def ht_first_def ht_up_levels_def
        ht_down_levels_def Let_def numeral_2_eq_2)
  have "ht_sell (halftrend sample_rows) 2"
    using halftrend_signals_alternate [of sample_rows 2 3] tr by (simp add: sample_rows_def sample_row_def)
  moreover have "ht_buy (halftrend sample_rows) 3"
    by (simp add: sample_rows_def sample_row_def halftrend_def ht_step_def ht_flip_def ht_first_def ht_up_levels_def
        ht_down_levels_def Let_def numeral_3_eq_3 ht_buy_def)
  ultimately show ?thesis by blast
qed

theorem overlay_misses_first_trade_witness:
  "overlay_markers (length sample_rows) (halftrend sample_rows) = Some []"
  using overlay_misses_first_trade [of sample_rows] by (simp add: sample_rows_def)

end
