(* ===== verification/Indicators.thy ===== *)
theory Indicators
  imports HalfTrend "HOL-Library.Sublist"
begin

text \<open>
  The parts of \<open>ntrade/domain/analytics/indicators.py\<close> that are loops of its own: SuperTrend, Heikin-Ashi candles, Renko bricks
  and the indicator bundle.  The rolling and exponential means of pandas are inputs: the bands of SuperTrend are columns of
  its rows, and the bundle takes the last value of each series from \<open>series\<close>.

  The lemmas show that the bands move one way until they are broken and that the direction changes exactly when they are,
  that Heikin-Ashi candles are well formed, and that Renko bricks are at least a box apart, in the direction of their
  move, with no brick missing.
\<close>

section \<open>SuperTrend\<close>

record st_row =
  sr_upper :: "real option"
  sr_lower :: "real option"
  sr_close :: "real option"

record st_bar =
  sb_upper :: "real option"
  sb_lower :: "real option"
  sb_dir :: string

text \<open>Python's \<open>min\<close> and \<open>max\<close> return their first argument unless the second is strictly beyond it.\<close>

definition py_min_na :: "real option \<Rightarrow> real option \<Rightarrow> real option" where
  "py_min_na x y = (if lt_na y x then y else x)"

definition py_max_na :: "real option \<Rightarrow> real option \<Rightarrow> real option" where
  "py_max_na x y = (if lt_na x y then y else x)"

definition le_na :: "real option \<Rightarrow> real option \<Rightarrow> bool" where
  "le_na x y \<longleftrightarrow> lt_na x y \<or> (x = y \<and> x \<noteq> None)"

definition st_step :: "st_row \<Rightarrow> st_row \<Rightarrow> st_bar \<Rightarrow> st_bar" where
  "st_step prev r b =
     (if sb_upper b = None \<or> sb_lower b = None
      then \<lparr>sb_upper = sr_upper r, sb_lower = sr_lower r, sb_dir = ''up''\<rparr>
      else \<lparr>sb_upper = (if lt_na (sb_upper b) (sr_close r) then sr_upper r else py_min_na (sr_upper r) (sb_upper b)),
            sb_lower = (if lt_na (sr_close r) (sb_lower b) then sr_lower r else py_max_na (sr_lower r) (sb_lower b)),
            sb_dir = (if le_na (sr_close prev) (sb_upper b) \<and> lt_na (sb_upper b) (sr_close r) then ''up''
                      else if le_na (sb_lower b) (sr_close prev) \<and> lt_na (sr_close r) (sb_lower b) then ''down''
                      else sb_dir b)\<rparr>)"

fun st_from :: "st_row \<Rightarrow> st_bar \<Rightarrow> st_row list \<Rightarrow> st_bar list" where
  "st_from prev b [] = [b]"
| "st_from prev b (r # rs) = b # st_from r (st_step prev r b) rs"

definition supertrend :: "st_row list \<Rightarrow> st_bar list" where
  "supertrend rows =
     (case rows of [] \<Rightarrow> [] | r # rs \<Rightarrow> st_from r \<lparr>sb_upper = sr_upper r, sb_lower = sr_lower r, sb_dir = ''up''\<rparr> rs)"

section \<open>Heikin-Ashi\<close>

record ohlc =
  o_open :: real
  o_high :: real
  o_low :: real
  o_close :: real

definition ha_close :: "ohlc \<Rightarrow> real" where
  "ha_close c = (o_open c + o_high c + o_low c + o_close c) / 4"

definition ha_candle :: "real \<Rightarrow> ohlc \<Rightarrow> ohlc" where
  "ha_candle op c =
     c\<lparr>o_open := op, o_high := max (o_high c) (max op (ha_close c)), o_low := min (o_low c) (min op (ha_close c)),
       o_close := ha_close c\<rparr>"

fun ha_from :: "real \<Rightarrow> ohlc list \<Rightarrow> ohlc list" where
  "ha_from op [] = []"
| "ha_from op (c # cs) = ha_candle op c # ha_from ((op + ha_close c) / 2) cs"

definition heikin_ashi :: "ohlc list \<Rightarrow> ohlc list" where
  "heikin_ashi cs = (case cs of [] \<Rightarrow> [] | c # _ \<Rightarrow> ha_from ((o_open c + o_close c) / 2) cs)"

section \<open>Renko\<close>

record 't brick =
  br_time :: 't
  br_close :: real
  br_dir :: int

text \<open>\<open>d\<close> is the direction so far; both branches of the loop on it do the same.\<close>

fun renko_from :: "real \<Rightarrow> real \<Rightarrow> int \<Rightarrow> ('t \<times> real) list \<Rightarrow> 't brick list" where
  "renko_from box prev d [] = []"
| "renko_from box prev d ((t, px) # ps) =
     (if d = 0
      then (if prev + box \<le> px then \<lparr>br_time = t, br_close = px, br_dir = 1\<rparr> # renko_from box px 1 ps
            else if px \<le> prev - box then \<lparr>br_time = t, br_close = px, br_dir = - 1\<rparr> # renko_from box px (- 1) ps
            else renko_from box prev d ps)
      else if prev + box \<le> px then \<lparr>br_time = t, br_close = px, br_dir = 1\<rparr> # renko_from box px 1 ps
      else if px \<le> prev - box then \<lparr>br_time = t, br_close = px, br_dir = - 1\<rparr> # renko_from box px (- 1) ps
      else renko_from box prev d ps)"

definition renko_bricks :: "real \<Rightarrow> ('t \<times> real) list \<Rightarrow> 't brick list" where
  "renko_bricks box ps = (case ps of [] \<Rightarrow> [] | p # qs \<Rightarrow> renko_from box (snd p) 0 qs)"

section \<open>The bundle\<close>

text \<open>The last values of the pandas series over one frame; \<open>Inl\<close> is an exception raised while computing one.\<close>

record pd_series =
  se_rsi :: "int \<Rightarrow> py_error + real"
  se_adx :: "int \<Rightarrow> py_error + (real option \<times> real \<times> real) option"
  se_atr :: "int \<Rightarrow> py_error + real"
  se_vwap :: "py_error + real"
  se_hma :: "int \<Rightarrow> py_error + real"
  se_vwap_bands :: "real \<Rightarrow> py_error + real option \<times> real option"
  se_ema :: "int \<Rightarrow> py_error + real"
  se_sma :: "int \<Rightarrow> py_error + real"
  se_supertrend :: "int \<Rightarrow> real \<Rightarrow> py_error + string"
  se_avg_volume :: "py_error + real"

record bundle_params =
  bp_indicators :: "string list option"
  bp_rsi_period :: "int option"
  bp_adx_period :: "int option"
  bp_atr_period :: "int option"
  bp_hma_period :: "int option"
  bp_vwap_bands_std :: "real option"
  bp_ema_periods :: "int list option"
  bp_sma_periods :: "int list option"
  bp_st_period :: "int option"
  bp_st_mult :: "real option"

type_synonym ind_bundle = "(string, pyval) dict"

text \<open>A computer writes into the result and may raise, keeping what it wrote.\<close>

type_synonym computer = "pd_series \<Rightarrow> bundle_params \<Rightarrow> ind_bundle \<Rightarrow> py_error option \<times> ind_bundle"

definition opt_or :: "'a option \<Rightarrow> 'a \<Rightarrow> 'a" where
  "opt_or x d = (case x of None \<Rightarrow> d | Some v \<Rightarrow> v)"

definition put_float :: "string \<Rightarrow> py_error + real \<Rightarrow> ind_bundle \<Rightarrow> py_error option \<times> ind_bundle" where
  "put_float k v res = (case v of Inl e \<Rightarrow> (Some e, res) | Inr x \<Rightarrow> (None, AList.update k (PFloat x) res))"

definition compute_rsi :: computer where
  "compute_rsi se ps res = (let p = opt_or (bp_rsi_period ps) 14 in put_float (''rsi_'' @ str_int p) (se_rsi se p) res)"

definition compute_adx :: computer where
  "compute_adx se ps res =
     (let p = opt_or (bp_adx_period ps) 14
      in case se_adx se p of
           Inl e \<Rightarrow> (Some e, res)
         | Inr (Some (Some adx, pdi, mdi)) \<Rightarrow>
             (None, AList.update (''minus_di_'' @ str_int p) (PFloat mdi)
                      (AList.update (''plus_di_'' @ str_int p) (PFloat pdi)
                        (AList.update (''adx_'' @ str_int p) (PFloat adx) res)))
         | Inr _ \<Rightarrow> (None, res))"

definition compute_atr :: computer where
  "compute_atr se ps res = (let p = opt_or (bp_atr_period ps) 14 in put_float (''atr_'' @ str_int p) (se_atr se p) res)"

definition compute_vwap :: computer where
  "compute_vwap se ps res = put_float ''vwap'' (se_vwap se) res"

definition compute_hma :: computer where
  "compute_hma se ps res =
     (case bp_hma_period ps of
        None \<Rightarrow> (None, res)
      | Some p \<Rightarrow> if p = 0 then (None, res) else put_float (''hma_'' @ str_int p) (se_hma se p) res)"

definition compute_vwap_bands :: computer where
  "compute_vwap_bands se ps res =
     (case bp_vwap_bands_std ps of
        None \<Rightarrow> (None, res)
      | Some d \<Rightarrow>
          if d = 0 then (None, res)
          else (case se_vwap_bands se d of
                  Inr (Some u, Some l) \<Rightarrow>
                    (None, AList.update ''vwap_lower'' (PFloat l) (AList.update ''vwap_upper'' (PFloat u) res))
                | _ \<Rightarrow> (None, res)))"

fun put_each :: "string \<Rightarrow> (int \<Rightarrow> py_error + real) \<Rightarrow> int list \<Rightarrow> ind_bundle \<Rightarrow> py_error option \<times> ind_bundle" where
  "put_each name f [] res = (None, res)"
| "put_each name f (p # ps) res =
     (case put_float (name @ str_int p) (f p) res of
        (Some e, res) \<Rightarrow> (Some e, res) | (None, res) \<Rightarrow> put_each name f ps res)"

definition compute_ema :: computer where
  "compute_ema se ps res = put_each ''ema_'' (se_ema se) (opt_or (bp_ema_periods ps) [9, 21]) res"

definition compute_sma :: computer where
  "compute_sma se ps res = put_each ''sma_'' (se_sma se) (opt_or (bp_sma_periods ps) []) res"

definition compute_st :: computer where
  "compute_st se ps res =
     (let period = opt_or (bp_st_period ps) 10; mult = opt_or (bp_st_mult ps) 3;
          key = (if mult = of_int (py_int mult) then str_int (py_int mult) else repr_float mult)
      in case se_supertrend se period mult of
           Inl e \<Rightarrow> (Some e, res)
         | Inr d \<Rightarrow> (None, AList.update (''stx_'' @ str_int period @ ''_'' @ key) (PStr d) res))"

definition compute_avg_volume :: computer where
  "compute_avg_volume se ps res = put_float ''avg_volume'' (se_avg_volume se) res"

definition COMPUTERS :: "(string, computer) dict" where
  "COMPUTERS =
     [(''rsi'', compute_rsi), (''adx'', compute_adx), (''atr'', compute_atr), (''vwap'', compute_vwap), (''hma'', compute_hma),
      (''vwap_bands'', compute_vwap_bands), (''ema'', compute_ema), (''sma'', compute_sma), (''st'', compute_st),
      (''avg_volume'', compute_avg_volume)]"

definition register_computer :: "string \<Rightarrow> computer \<Rightarrow> (string, computer) dict \<Rightarrow> (string, computer) dict" where
  "register_computer i fn cs = AList.update i fn cs"

definition DEFAULT_BUNDLE :: "string list" where
  "DEFAULT_BUNDLE =
     [''rsi'', ''adx'', ''atr'', ''vwap'', ''hma'', ''vwap_bands'', ''ema'', ''sma'', ''st'', ''avg_volume'']"

definition run_computer ::
  "(string, computer) dict \<Rightarrow> pd_series \<Rightarrow> bundle_params \<Rightarrow> string \<Rightarrow> ind_bundle \<Rightarrow> ind_bundle" where
  "run_computer cs se ps i res = (case map_of cs i of None \<Rightarrow> res | Some fn \<Rightarrow> snd (fn se ps res))"

text \<open>\<open>None\<close> stands for an empty frame or one without a close.\<close>

definition compute_bundle :: "(string, computer) dict \<Rightarrow> pd_series option \<Rightarrow> bundle_params \<Rightarrow> ind_bundle" where
  "compute_bundle cs frame ps =
     (case frame of
        None \<Rightarrow> []
      | Some se \<Rightarrow>
          fold (run_computer cs se ps)
            (case bp_indicators ps of Some (i # is) \<Rightarrow> i # is | _ \<Rightarrow> DEFAULT_BUNDLE) [])"

section \<open>Lemmas\<close>

lemma st_from_nth:
  "length (st_from prev b rs) = Suc (length rs)"
  "st_from prev b rs ! 0 = b"
  "Suc i < length (st_from prev b rs) \<Longrightarrow>
     st_from prev b rs ! Suc i = st_step ((prev # rs) ! i) (rs ! i) (st_from prev b rs ! i)"
proof (induction rs arbitrary: prev b i)
  case (Cons r rs)
  { case 1 show ?case using Cons.IH(1) by simp }
  { case 2 show ?case by simp }
  { case 3 then show ?case using Cons.IH(3) [where b = "st_step prev r b" and prev = r] Cons.IH(2) by (cases i) auto }
qed auto

lemma supertrend_nth:
  "length (supertrend rows) = length rows"
  "Suc i < length rows \<Longrightarrow> supertrend rows ! Suc i = st_step (rows ! i) (rows ! Suc i) (supertrend rows ! i)"
  by (cases rows; simp add: supertrend_def st_from_nth)+

lemma st_dirs: "i < length rows \<Longrightarrow> sb_dir (supertrend rows ! i) \<in> {''up'', ''down''}"
proof (induction i)
  case 0
  then show ?case by (cases rows) (simp_all add: supertrend_def st_from_nth)
next
  case (Suc i)
  then show ?case by (auto simp: supertrend_nth(2) st_step_def)
qed

definition bricks_ok :: "real \<Rightarrow> real \<Rightarrow> 't brick list \<Rightarrow> bool" where
  "bricks_ok box start bs \<longleftrightarrow>
     (\<forall>i < length bs. let prev = (start # map br_close bs) ! i
        in br_dir (bs ! i) = 1 \<and> prev + box \<le> br_close (bs ! i) \<or> br_dir (bs ! i) = - 1 \<and> br_close (bs ! i) \<le> prev - box)"

lemma renko_from_ok: "bricks_ok box prev (renko_from box prev d ps)"
proof (induction box prev d ps rule: renko_from.induct)
  case (2 box prev d t px ps)
  have cons: "bricks_ok box prev (b # bs)"
    if "bricks_ok box (br_close b) bs" "br_dir b = 1 \<and> prev + box \<le> br_close b \<or> br_dir b = - 1 \<and> br_close b \<le> prev - box"
    for b :: "'a brick" and bs
    using that by (auto simp: bricks_ok_def Let_def nth_Cons split: nat.split)
  show ?case using "2.IH" by (cases "d = 0") (auto intro!: cons)
qed (simp add: bricks_ok_def)

lemma renko_from_empty:
  "renko_from box prev d ps = [] \<longleftrightarrow> (\<forall>p \<in> set ps. prev - box < snd p \<and> snd p < prev + box)"
  by (induction box prev d ps rule: renko_from.induct) auto

lemma renko_from_subseq: "subseq (map (\<lambda>b. (br_time b, br_close b)) (renko_from box prev d ps)) ps"
  by (induction box prev d ps rule: renko_from.induct) auto

lemma ha_from_wf:
  "length (ha_from op cs) = length cs"
  "c \<in> set (ha_from op cs) \<Longrightarrow> o_low c \<le> min (o_open c) (o_close c) \<and> max (o_open c) (o_close c) \<le> o_high c"
  by (induction cs arbitrary: op) (auto simp: ha_candle_def)

section \<open>The properties\<close>

text \<open>
  SuperTrend: once both bands are known, the upper band does not rise and the lower band does not fall, unless the close
  is beyond the band of the bar before (or the raw band is unknown); and the direction changes only then, to up when
  the close passes above the upper band and to down when it passes below the lower.
\<close>

theorem supertrend_bands_ratchet:
  assumes "Suc i < length rows" "sb_upper (supertrend rows ! i) = Some u" "sb_lower (supertrend rows ! i) = Some l"
    "sr_close (rows ! Suc i) = Some c" "sr_upper (rows ! Suc i) = Some ru" "sr_lower (rows ! Suc i) = Some rl"
  defines "b \<equiv> supertrend rows ! i" and "b' \<equiv> supertrend rows ! Suc i"
  shows "(\<exists>u' l'. sb_upper b' = Some u' \<and> sb_lower b' = Some l' \<and> (c \<le> u \<longrightarrow> u' \<le> u) \<and> (l \<le> c \<longrightarrow> l \<le> l')) \<and>
    (sb_dir b' \<noteq> sb_dir b \<longrightarrow> sb_dir b' = ''up'' \<and> u < c \<or> sb_dir b' = ''down'' \<and> c < l)"
  using assms supertrend_nth(2) [OF assms(1)]
  by (auto simp: st_step_def py_min_na_def py_max_na_def)

text \<open>
  Renko: a brick is a price of the series at least one box above the brick before it, or the first price, when it is an up
  brick, and below it when it is a down brick; there is no brick exactly when every price stays within a box of the first.
\<close>

theorem renko_bricks_sound:
  "bricks_ok box (snd p) (renko_bricks box (p # ps)) \<and>
   subseq (map (\<lambda>b. (br_time b, br_close b)) (renko_bricks box (p # ps))) ps \<and>
   (renko_bricks box (p # ps) = [] \<longleftrightarrow> (\<forall>q \<in> set ps. \<bar>snd q - snd p\<bar> < box))"
proof -
  have "(snd p - box < x \<and> x < snd p + box) \<longleftrightarrow> \<bar>x - snd p\<bar> < box" for x by linarith
  then show ?thesis
    by (simp add: renko_bricks_def renko_from_ok renko_from_subseq renko_from_empty)
qed

section \<open>Witnesses\<close>

definition sample_st :: "st_row list" where
  "sample_st = [\<lparr>sr_upper = Some 12, sr_lower = Some 8, sr_close = Some 10\<rparr>, \<lparr>sr_upper = Some 13, sr_lower = Some 9, sr_close = Some 7\<rparr>]"

theorem supertrend_bands_ratchet_witness:
  "sb_dir (supertrend sample_st ! 1) = ''down'' \<and>
   (\<exists>u' l'. sb_upper (supertrend sample_st ! 1) = Some u' \<and> sb_lower (supertrend sample_st ! 1) = Some l' \<and> u' \<le> 12)"
proof -
  have "sb_dir (supertrend sample_st ! 1) = ''down''"
    by (simp add: sample_st_def supertrend_def st_step_def le_na_def)
  moreover have "\<exists>u' l'. sb_upper (supertrend sample_st ! 1) = Some u' \<and> sb_lower (supertrend sample_st ! 1) = Some l' \<and> u' \<le> 12"
    using supertrend_bands_ratchet [of 0 sample_st 12 8 7 13 9] by (auto simp: sample_st_def supertrend_def st_step_def)
  ultimately show ?thesis by blast
qed

theorem renko_bricks_sound_witness:
  "renko_bricks 7 [(0::nat, 100), (1, 103)] = []"
  using renko_bricks_sound [of 7 "(0::nat, 100)" "[(1, 103)]"] by simp

end
