(* ===== verification/VolumeProfile.thy ===== *)
theory VolumeProfile
  imports Prelude
begin

text \<open>
  \<open>ntrade/domain/analytics/volume_profile.py\<close>: the volume of a session by price bucket, its point of control and its value
  area.

  The frame is a list of bars; a missing volume is \<open>None\<close>.  Bucket numbers are integers, positions in the
  volume list naturals.

  The lemmas show that no volume is lost by the bucketing, that the point of control is a busiest bucket, that the
  loop that grows the value area adds the heavier neighbour each time and only while it holds less than 68\% of the volume,
  ending with a gap-free range which holds that much or everything, and that the prices reported are in order.
\<close>

record vp_bar =
  vb_high :: real
  vb_low :: real
  vb_volume :: "real option"

record vp_level =
  vl_price :: real
  vl_volume :: real
  vl_delta :: real
  vl_total :: real

record volume_profile =
  vp_levels :: "vp_level list"
  vp_poc :: real
  vp_vah :: real
  vp_val :: real
  vp_step :: real

definition VALUE_AREA_PCT :: real where
  "VALUE_AREA_PCT = 68 / 100"

definition empty_profile :: "real \<Rightarrow> volume_profile" where
  "empty_profile step = \<lparr>vp_levels = [], vp_poc = 0, vp_vah = 0, vp_val = 0, vp_step = step\<rparr>"

definition highest :: "vp_bar list \<Rightarrow> real" where
  "highest bars = Max (vb_high ` set bars)"

definition lowest :: "vp_bar list \<Rightarrow> real" where
  "lowest bars = Min (vb_low ` set bars)"

definition default_step :: "vp_bar list \<Rightarrow> real" where
  "default_step bars =
     (let span = highest bars - lowest bars
      in if span \<le> 0 then 1 else max (py_round 2 (span / 50)) (5 / 100))"

definition bucket_index :: "real \<Rightarrow> real \<Rightarrow> int" where
  "bucket_index width price = \<lfloor>price / width + 1 / 2\<rfloor>"

definition clamp_bucket :: "int \<Rightarrow> nat \<Rightarrow> int \<Rightarrow> nat" where
  "clamp_bucket k_start n k = nat (max 0 (min (k - k_start) (int n - 1)))"

text \<open>The loop over the bars: add each bar's volume, and its buy volume if given, to the bucket of its midpoint.\<close>

definition bar_volume :: "vp_bar \<Rightarrow> real" where
  "bar_volume b = (case vb_volume b of None \<Rightarrow> 0 | Some v \<Rightarrow> v)"

definition bar_bucket :: "real \<Rightarrow> int \<Rightarrow> nat \<Rightarrow> vp_bar \<Rightarrow> nat" where
  "bar_bucket width k_start n b = clamp_bucket k_start n (bucket_index width ((vb_high b + vb_low b) / 2))"

definition add_at :: "nat \<Rightarrow> real \<Rightarrow> real list \<Rightarrow> real list" where
  "add_at i v xs = xs[i := xs ! i + v]"

fun allocate :: "('a \<Rightarrow> nat) \<Rightarrow> ('a \<Rightarrow> real) \<Rightarrow> 'a list \<Rightarrow> real list \<Rightarrow> real list" where
  "allocate bucket vol [] vols = vols"
| "allocate bucket vol (b # bs) vols = allocate bucket vol bs (add_at (bucket b) (vol b) vols)"

text \<open>\<open>max(range(n), key=...)\<close>: the first index of a greatest value.\<close>

fun argmax_from :: "nat \<Rightarrow> nat \<Rightarrow> real \<Rightarrow> real list \<Rightarrow> nat" where
  "argmax_from i best bv [] = best"
| "argmax_from i best bv (x # xs) = (if bv < x then argmax_from (Suc i) i x xs else argmax_from (Suc i) best bv xs)"

definition argmax :: "real list \<Rightarrow> nat" where
  "argmax xs = (case xs of [] \<Rightarrow> 0 | x # ys \<Rightarrow> argmax_from 1 0 x ys)"

text \<open>
  The loop that grows the value area.  \<open>left\<close> and \<open>right\<close> are the neighbours to take next; the buckets taken are those
  strictly between them, kept as the set \<open>included\<close>.  The loop starts with \<open>left < right\<close> and keeps it so; the guard says it to
  make the recursion total.
\<close>

definition pick :: "real list \<Rightarrow> int \<Rightarrow> int \<Rightarrow> int" where
  "pick vols left right =
     (if left < 0 then right
      else if int (length vols) \<le> right then left
      else if vols ! nat right \<le> vols ! nat left then left else right)"

function value_area :: "real list \<Rightarrow> real \<Rightarrow> int set \<Rightarrow> real \<Rightarrow> int \<Rightarrow> int \<Rightarrow> int set" where
  "value_area vols goal included acc left right =
     (if left < right \<and> acc < goal \<and> (0 \<le> left \<or> right < int (length vols))
      then if pick vols left right = left
           then value_area vols goal (insert left included) (acc + vols ! nat left) (left - 1) right
           else value_area vols goal (insert (pick vols left right) included) (acc + vols ! nat (pick vols left right))
                  left (right + 1)
      else included)"
  by pat_completeness auto

termination
  by (relation "measure (\<lambda>(vols, goal, included, acc, left, right). nat (left + 1) + nat (int (length vols) - right))")
     (auto simp: pick_def split: if_splits)

declare value_area.simps [simp del]

definition level_of :: "real \<Rightarrow> int \<Rightarrow> real list \<Rightarrow> real list option \<Rightarrow> nat \<Rightarrow> vp_level" where
  "level_of width k_start vols buys b =
     \<lparr>vl_price = py_round 4 (of_int (k_start + int b) * width), vl_volume = py_round 4 (vols ! b),
      vl_delta = (case buys of None \<Rightarrow> 0 | Some bs \<Rightarrow> py_round 4 (bs ! b - (vols ! b - bs ! b))),
      vl_total = py_round 4 (vols ! b)\<rparr>"

definition buckets_of :: "real \<Rightarrow> vp_bar list \<Rightarrow> int \<times> nat" where
  "buckets_of width bars =
     (let k_start = bucket_index width (lowest bars); k_end = max k_start (bucket_index width (highest bars))
      in (k_start, nat (k_end - k_start + 1)))"

definition volumes_of :: "real \<Rightarrow> vp_bar list \<Rightarrow> real list" where
  "volumes_of width bars =
     (case buckets_of width bars of (k_start, n) \<Rightarrow>
        allocate (bar_bucket width k_start n) bar_volume bars (replicate n 0))"

definition buys_of :: "real \<Rightarrow> vp_bar list \<Rightarrow> real option list \<Rightarrow> real list" where
  "buys_of width bars buys =
     (case buckets_of width bars of (k_start, n) \<Rightarrow>
        allocate (\<lambda>(b, v). bar_bucket width k_start n b) (\<lambda>(b, v). case v of None \<Rightarrow> 0 | Some x \<Rightarrow> x)
          (zip bars buys) (replicate n 0))"

definition width_of :: "vp_bar list \<Rightarrow> real option \<Rightarrow> real" where
  "width_of bars step = (case step of Some s \<Rightarrow> if s > 0 then s else default_step bars | None \<Rightarrow> default_step bars)"

definition profile_of :: "real \<Rightarrow> vp_bar list \<Rightarrow> real option list option \<Rightarrow> volume_profile" where
  "profile_of width bars buy_volume =
     (let vols = volumes_of width bars; k_start = fst (buckets_of width bars); n = length vols;
          total = sum_list vols
      in if total \<le> 0 then empty_profile width
         else (let poc = argmax vols;
                   area = value_area vols (VALUE_AREA_PCT * total) {int poc} (vols ! poc) (int poc - 1) (int poc + 1);
                   price = (\<lambda>b. py_round 4 (of_int (k_start + b) * width))
               in \<lparr>vp_levels = map (level_of width k_start vols (map_option (buys_of width bars) buy_volume)) [0..<n],
                   vp_poc = price (int poc), vp_vah = price (Max area), vp_val = price (Min area), vp_step = width\<rparr>))"

definition build_volume_profile ::
  "vp_bar list \<Rightarrow> real option \<Rightarrow> real option list option \<Rightarrow> py_error + volume_profile" where
  "build_volume_profile bars step buy_volume =
     (if bars = [] then Inr (empty_profile (case step of None \<Rightarrow> 0 | Some s \<Rightarrow> s))
      else (case buy_volume of
              Some bs \<Rightarrow>
                if length bs \<noteq> length bars
                then Inl (ValueError (''buy_volume length '' @ str_int (int (length bs)) @ '' != bars length ''
                                      @ str_int (int (length bars))))
                else Inr (profile_of (width_of bars step) bars buy_volume)
            | None \<Rightarrow> Inr (profile_of (width_of bars step) bars buy_volume)))"

section \<open>Lemmas\<close>

lemma add_at_sum: "i < length xs \<Longrightarrow> sum_list (add_at i v xs) = sum_list xs + v"
  unfolding add_at_def by (induction xs arbitrary: i) (auto split: nat.split)

lemma allocate_sum:
  "\<lbrakk>\<forall>b \<in> set bs. bucket b < length vols\<rbrakk> \<Longrightarrow>
     length (allocate bucket vol bs vols) = length vols \<and>
     sum_list (allocate bucket vol bs vols) = sum_list vols + (\<Sum>b\<leftarrow>bs. vol b)"
proof (induction bs arbitrary: vols)
  case (Cons b bs)
  then have "sum_list (add_at (bucket b) (vol b) vols) = sum_list vols + vol b"
    by (simp add: add_at_sum)
  then show ?case using Cons by (simp add: add_at_def)
qed simp

lemma volumes_length: "length (volumes_of width bars) = snd (buckets_of width bars)" and
  volumes_total: "sum_list (volumes_of width bars) = (\<Sum>b\<leftarrow>bars. bar_volume b)"
proof -
  obtain k n where kn: "buckets_of width bars = (k, n)" by (cases "buckets_of width bars")
  then have n: "0 < n" by (auto simp: buckets_of_def Let_def)
  then have "\<forall>b \<in> set bars. bar_bucket width k n b < length (replicate n (0::real))"
    by (auto simp: bar_bucket_def clamp_bucket_def)
  from allocate_sum [OF this, of bar_volume]
  show "length (volumes_of width bars) = snd (buckets_of width bars)"
    "sum_list (volumes_of width bars) = (\<Sum>b\<leftarrow>bars. bar_volume b)"
    by (simp_all add: volumes_of_def kn sum_list_replicate)
qed

lemma argmax_from_greatest:
  assumes "best < i" and "(pre @ xs) ! best = bv" and "length pre = i" and "\<forall>y \<in> set pre. y \<le> bv"
  shows "argmax_from i best bv xs < i + length xs \<and>
    (\<forall>y \<in> set (pre @ xs). y \<le> (pre @ xs) ! argmax_from i best bv xs)"
  using assms
proof (induction xs arbitrary: i best bv pre)
  case (Cons x xs)
  show ?case
  proof (cases "bv < x")
    case True
    have "argmax_from (Suc i) i x xs < Suc i + length xs \<and>
        (\<forall>y \<in> set ((pre @ [x]) @ xs). y \<le> ((pre @ [x]) @ xs) ! argmax_from (Suc i) i x xs)"
      using Cons.prems True by (intro Cons.IH) (auto simp: nth_append)
    then show ?thesis using True by simp
  next
    case False
    have "argmax_from (Suc i) best bv xs < Suc i + length xs \<and>
        (\<forall>y \<in> set ((pre @ [x]) @ xs). y \<le> ((pre @ [x]) @ xs) ! argmax_from (Suc i) best bv xs)"
      using Cons.prems False by (intro Cons.IH) auto
    then show ?thesis using False by simp
  qed
qed simp

lemma argmax_greatest:
  assumes "xs \<noteq> []"
  shows "argmax xs < length xs" "\<forall>y \<in> set xs. y \<le> xs ! argmax xs"
proof -
  obtain x ys where xs: "xs = x # ys" using assms by (cases xs) auto
  have "argmax_from 1 0 x ys < 1 + length ys \<and> (\<forall>y \<in> set ([x] @ ys). y \<le> ([x] @ ys) ! argmax_from 1 0 x ys)"
    by (rule argmax_from_greatest) auto
  then show "argmax xs < length xs" "\<forall>y \<in> set xs. y \<le> xs ! argmax xs" by (auto simp: argmax_def xs)
qed

text \<open>What the loop keeps: the buckets taken are those strictly between the two neighbours, inside the list.\<close>

definition area_inv :: "real list \<Rightarrow> int set \<Rightarrow> real \<Rightarrow> int \<Rightarrow> int \<Rightarrow> bool" where
  "area_inv vols included acc left right \<longleftrightarrow>
     included = {left<..<right} \<and> - 1 \<le> left \<and> left + 1 < right \<and> right \<le> int (length vols) \<and>
     acc = (\<Sum>k \<in> included. vols ! nat k)"

text \<open>
  The result is a range of buckets that includes those it started from; it reaches the goal or is everything;
  and if it grew, the range without its last bucket was short of the goal.
\<close>

definition area_ok :: "real list \<Rightarrow> real \<Rightarrow> int set \<Rightarrow> int set \<Rightarrow> bool" where
  "area_ok vols goal included area \<longleftrightarrow>
     (\<exists>lo hi. area = {lo..hi} \<and> 0 \<le> lo \<and> lo \<le> hi \<and> hi < int (length vols)) \<and> included \<subseteq> area \<and>
     (goal \<le> (\<Sum>k \<in> area. vols ! nat k) \<or> area = {0..<int (length vols)}) \<and>
     (area = included \<or> (\<exists>k \<in> area. (\<Sum>j \<in> area - {k}. vols ! nat j) < goal))"

lemma area_step:
  assumes "area_inv vols included acc left right" "acc < goal" "0 \<le> left \<or> right < int (length vols)"
  shows "pick vols left right = left \<Longrightarrow> area_inv vols (insert left included) (acc + vols ! nat left) (left - 1) right"
    and "pick vols left right \<noteq> left \<Longrightarrow> pick vols left right = right \<and>
      area_inv vols (insert right included) (acc + vols ! nat right) left (right + 1)"
  using assms by (auto simp: area_inv_def pick_def add.commute split: if_splits)

lemma value_area_ok:
  assumes "area_inv vols included acc left right"
  shows "area_ok vols goal included (value_area vols goal included acc left right)"
  using assms
proof (induction vols goal included acc left right rule: value_area.induct)
  case (1 vols goal included acc left right)
  show ?case
  proof (cases "acc < goal \<and> (0 \<le> left \<or> right < int (length vols))")
    case False
    have range: "included = {left + 1..right - 1}" "0 \<le> left + 1" "left + 1 \<le> right - 1" "right - 1 < int (length vols)"
      and acc: "acc = (\<Sum>k \<in> included. vols ! nat k)" using "1.prems" by (auto simp: area_inv_def)
    have "goal \<le> acc \<or> included = {0..<int (length vols)}"
    proof (cases "acc < goal")
      case True
      then have "left + 1 = 0" "right - 1 = int (length vols) - 1" using False range(2,4) by linarith+
      then show ?thesis unfolding range(1) by auto
    qed auto
    then have "area_ok vols goal included included" using range unfolding area_ok_def acc by blast
    moreover have "value_area vols goal included acc left right = included" using False by (subst value_area.simps) auto
    ultimately show ?thesis by simp
  next
    case True
    have lr: "left < right" using "1.prems" by (auto simp: area_inv_def)
    have grow: "area_ok vols goal included area"
      if "area_ok vols goal (insert p included) area" "p \<notin> included" for p area
    proof -
      have "(\<Sum>j \<in> insert p included - {p}. vols ! nat j) < goal"
        using True "1.prems" that(2) by (simp add: area_inv_def)
      then have "area = insert p included \<or> (\<exists>k \<in> area. (\<Sum>j \<in> area - {k}. vols ! nat j) < goal) \<Longrightarrow>
          \<exists>k \<in> area. (\<Sum>j \<in> area - {k}. vols ! nat j) < goal" by (elim disjE) (simp_all, blast?)
      with that(1) show ?thesis unfolding area_ok_def insert_subset by argo
    qed
    show ?thesis
    proof (cases "pick vols left right = left")
      case p: True
      have "area_ok vols goal (insert left included) (value_area vols goal included acc left right)"
        using "1.IH"(1) [OF _ p] area_step(1) [of _ _ _ _ _ goal, OF "1.prems" _ _ p] True lr
        by (subst value_area.simps) (simp add: p)
      then show ?thesis using "1.prems" by (intro grow) (auto simp: area_inv_def)
    next
      case p: False
      have "area_ok vols goal (insert right included) (value_area vols goal included acc left right)"
        using "1.IH"(2) [OF _ p] area_step(2) [of _ _ _ _ _ goal, OF "1.prems" _ _ p] True lr
        by (subst value_area.simps) (simp add: p)
      then show ?thesis using "1.prems" by (intro grow) (auto simp: area_inv_def)
    qed
  qed
qed

section \<open>Growing the value area\<close>

definition held :: "real list \<Rightarrow> int \<Rightarrow> int \<Rightarrow> real" where
  "held vols lo hi = (\<Sum>k \<in> {lo..hi}. vols ! nat k)"

text \<open>
  How a value area may grow from one range of buckets to another: only while it holds less than the goal, and each time
  by the neighbour with more volume, the lower one if they are equal or if there is no higher one.
\<close>

inductive grows :: "real list \<Rightarrow> real \<Rightarrow> int \<Rightarrow> int \<Rightarrow> int \<Rightarrow> int \<Rightarrow> bool" for vols :: "real list" and goal :: real where
  stay: "grows vols goal lo hi lo hi"
| down: "held vols lo hi < goal \<Longrightarrow> 0 < lo \<Longrightarrow>
    hi + 1 = int (length vols) \<or> vols ! nat (hi + 1) \<le> vols ! nat (lo - 1) \<Longrightarrow>
    grows vols goal (lo - 1) hi lo' hi' \<Longrightarrow> grows vols goal lo hi lo' hi'"
| up: "held vols lo hi < goal \<Longrightarrow> hi + 1 < int (length vols) \<Longrightarrow>
    lo = 0 \<or> vols ! nat (lo - 1) < vols ! nat (hi + 1) \<Longrightarrow>
    grows vols goal lo (hi + 1) lo' hi' \<Longrightarrow> grows vols goal lo hi lo' hi'"

text \<open>A range that grew was short of the goal without the bucket at one of its ends, the one added last.\<close>

lemma grows_last:
  "grows vols goal lo hi lo' hi' \<Longrightarrow> lo' \<le> lo \<and> hi \<le> hi' \<and>
     (lo' = lo \<and> hi' = hi \<or> lo' < lo \<and> held vols (lo' + 1) hi' < goal \<or> hi < hi' \<and> held vols lo' (hi' - 1) < goal)"
  by (induction rule: grows.induct) auto

lemma grows_left:
  "held vols (left + 1) (right - 1) < goal \<Longrightarrow> 0 \<le> left \<Longrightarrow>
   right = int (length vols) \<or> vols ! nat right \<le> vols ! nat left \<Longrightarrow>
   grows vols goal left (right - 1) lo hi \<Longrightarrow> grows vols goal (left + 1) (right - 1) lo hi"
  using grows.down [of vols "left + 1" "right - 1" goal lo hi] by simp

lemma grows_right:
  "held vols (left + 1) (right - 1) < goal \<Longrightarrow> right < int (length vols) \<Longrightarrow>
   left + 1 = 0 \<or> vols ! nat left < vols ! nat right \<Longrightarrow>
   grows vols goal (left + 1) right lo hi \<Longrightarrow> grows vols goal (left + 1) (right - 1) lo hi"
  using grows.up [of vols "left + 1" "right - 1" goal lo hi] by simp

lemma value_area_grows:
  assumes "area_inv vols included acc left right"
  shows "\<exists>lo hi. value_area vols goal included acc left right = {lo..hi} \<and>
    grows vols goal (left + 1) (right - 1) lo hi \<and>
    0 \<le> lo \<and> hi < int (length vols) \<and>
    (goal \<le> held vols lo hi \<or> lo = 0 \<and> hi + 1 = int (length vols))"
  using assms
proof (induction vols goal included acc left right rule: value_area.induct)
  case (1 vols goal included acc left right)
  have lr: "left < right" and inc: "included = {left + 1..right - 1}" and b: "- 1 \<le> left" "right \<le> int (length vols)"
    and acc: "acc = held vols (left + 1) (right - 1)"
    using "1.prems" by (auto simp: area_inv_def held_def intro: sum.cong)
  show ?case
  proof (cases "acc < goal \<and> (0 \<le> left \<or> right < int (length vols))")
    case False
    then have "value_area vols goal included acc left right = {left + 1..right - 1}"
      using inc by (subst value_area.simps) auto
    moreover have "goal \<le> held vols (left + 1) (right - 1) \<or> left + 1 = 0 \<and> right - 1 + 1 = int (length vols)"
      using False b unfolding acc [symmetric] by linarith
    ultimately show ?thesis using b by (intro exI [of _ "left + 1"] exI [of _ "right - 1"]) (auto intro: grows.stay)
  next
    case True
    have short: "held vols (left + 1) (right - 1) < goal" using True acc by simp
    show ?thesis
    proof (cases "pick vols left right = left")
      case p: True
      have st: "value_area vols goal included acc left right =
          value_area vols goal (insert left included) (acc + vols ! nat left) (left - 1) right"
        using True lr p by (subst value_area.simps) simp
      have "\<exists>lo hi. value_area vols goal (insert left included) (acc + vols ! nat left) (left - 1) right = {lo..hi} \<and>
          grows vols goal (left - 1 + 1) (right - 1) lo hi \<and> 0 \<le> lo \<and> hi < int (length vols) \<and>
          (goal \<le> held vols lo hi \<or> lo = 0 \<and> hi + 1 = int (length vols))"
        by (rule "1.IH"(1) [OF _ p]) (use area_step(1) [OF "1.prems" _ _ p, of goal] True lr in simp_all)
      then obtain lo hi where r: "value_area vols goal (insert left included) (acc + vols ! nat left) (left - 1) right = {lo..hi}"
          "grows vols goal (left - 1 + 1) (right - 1) lo hi" "0 \<le> lo" "hi < int (length vols)"
          "goal \<le> held vols lo hi \<or> lo = 0 \<and> hi + 1 = int (length vols)"
        by blast
      have "0 \<le> left" "right = int (length vols) \<or> vols ! nat right \<le> vols ! nat left"
        using p True lr b by (auto simp: pick_def split: if_splits)
      then have "grows vols goal (left + 1) (right - 1) lo hi" using short r(2) grows_left by simp
      then show ?thesis using r unfolding st by blast
    next
      case p: False
      have st: "value_area vols goal included acc left right =
          value_area vols goal (insert (pick vols left right) included) (acc + vols ! nat (pick vols left right))
            left (right + 1)"
        using True lr p by (subst value_area.simps) simp
      have pr: "pick vols left right = right" using area_step(2) [OF "1.prems" _ _ p, of goal] True by simp
      have "\<exists>lo hi. value_area vols goal (insert (pick vols left right) included)
            (acc + vols ! nat (pick vols left right)) left (right + 1) = {lo..hi} \<and>
          grows vols goal (left + 1) (right + 1 - 1) lo hi \<and> 0 \<le> lo \<and> hi < int (length vols) \<and>
          (goal \<le> held vols lo hi \<or> lo = 0 \<and> hi + 1 = int (length vols))"
        by (rule "1.IH"(2) [OF _ p]) (use area_step(2) [OF "1.prems" _ _ p, of goal] True lr in simp_all)
      then obtain lo hi where r: "value_area vols goal (insert (pick vols left right) included)
            (acc + vols ! nat (pick vols left right)) left (right + 1) = {lo..hi}"
          "grows vols goal (left + 1) (right + 1 - 1) lo hi" "0 \<le> lo" "hi < int (length vols)"
          "goal \<le> held vols lo hi \<or> lo = 0 \<and> hi + 1 = int (length vols)"
        by blast
      have "right < int (length vols)" "left + 1 = 0 \<or> vols ! nat left < vols ! nat right"
        using p True lr b by (auto simp: pick_def split: if_splits)
      then have "grows vols goal (left + 1) (right - 1) lo hi" using short r(2) grows_right by simp
      then show ?thesis using r unfolding st by blast
    qed
  qed
qed

section \<open>The properties\<close>

text \<open>C30: 
  The value area of a profile.  Whatever the bars and their volumes, the buckets hold exactly the volume of the bars, the
  point of control is a bucket no other beats, and the value area is the range of buckets reached from it by adding, as
  long as less than 68\% of the volume is held, the neighbouring bucket with more volume (the lower one if they are equal,
  the only one at the end of the range); it holds 68\% of the volume or is the whole range; and unless it is the point of
  control alone, it holds less than 68\% without its lowest or without its highest bucket, the one that was added last.
\<close>

theorem value_area_minimal_range:
  "let vols = volumes_of width bars; total = (\<Sum>b\<leftarrow>bars. bar_volume b); poc = argmax vols;
       goal = VALUE_AREA_PCT * total;
       area = value_area vols goal {int poc} (vols ! poc) (int poc - 1) (int poc + 1)
   in sum_list vols = total \<and> poc < length vols \<and> (\<forall>v \<in> set vols. v \<le> vols ! poc) \<and>
      (\<exists>lo hi. area = {lo..hi} \<and> 0 \<le> lo \<and> lo \<le> int poc \<and> int poc \<le> hi \<and> hi < int (length vols) \<and>
         grows vols goal (int poc) (int poc) lo hi \<and>
         (goal \<le> held vols lo hi \<or> area = {0..<int (length vols)}) \<and>
         (area = {int poc} \<or> lo < int poc \<and> held vols (lo + 1) hi < goal \<or>
          int poc < hi \<and> held vols lo (hi - 1) < goal))"
proof -
  let ?vols = "volumes_of width bars" and ?goal = "VALUE_AREA_PCT * (\<Sum>b\<leftarrow>bars. bar_volume b)"
  let ?poc = "int (argmax ?vols)"
  have "snd (buckets_of width bars) \<noteq> 0" by (simp add: buckets_of_def Let_def)
  then have ne: "?vols \<noteq> []" using volumes_length by (metis length_0_conv)
  have "area_inv ?vols {?poc} (?vols ! argmax ?vols) (?poc - 1) (?poc + 1)"
    using argmax_greatest(1) [OF ne] by (auto simp: area_inv_def)
  from value_area_grows [OF this, of ?goal]
  obtain lo hi where r: "value_area ?vols ?goal {?poc} (?vols ! argmax ?vols) (?poc - 1) (?poc + 1) = {lo..hi}"
      "grows ?vols ?goal ?poc ?poc lo hi" "0 \<le> lo" "hi < int (length ?vols)"
      "?goal \<le> held ?vols lo hi \<or> lo = 0 \<and> hi + 1 = int (length ?vols)" by auto
  note l = grows_last [OF r(2)]
  have full: "{lo..hi} = {0..<int (length ?vols)}" if "lo = 0" "hi + 1 = int (length ?vols)" using that by auto
  have goal: "?goal \<le> held ?vols lo hi \<or> {lo..hi} = {0..<int (length ?vols)}" using r(5) full by blast
  have tip: "{lo..hi} = {?poc} \<or> lo < ?poc \<and> held ?vols (lo + 1) hi < ?goal \<or>
      ?poc < hi \<and> held ?vols lo (hi - 1) < ?goal" using grows_last [OF r(2)] by fastforce
  show ?thesis
    unfolding Let_def r(1)
    using argmax_greatest [OF ne] volumes_total [of width bars] r(2,3,4) grows_last [OF r(2)] goal tip by blast
qed

lemma default_step_pos: "0 < default_step bars"
  by (auto simp: default_step_def Let_def max_def)

lemma width_of_pos: "0 < width_of bars step"
  by (auto simp: width_of_def default_step_pos split: option.split)

text \<open>
  A profile that is built has one level per bucket, prices in the order value area low, point of control, value area high,
  each of them the price of a level; a list of buy volumes of the wrong length is refused and nothing else is.
\<close>

theorem profile_prices_ordered:
  "(build_volume_profile bars step buys = Inl e \<longleftrightarrow>
      bars \<noteq> [] \<and> (\<exists>bs. buys = Some bs \<and> length bs \<noteq> length bars \<and>
        e = ValueError (''buy_volume length '' @ str_int (int (length bs)) @ '' != bars length '' @ str_int (int (length bars))))) \<and>
   (build_volume_profile bars step buys = Inr p \<longrightarrow>
      vp_val p \<le> vp_poc p \<and> vp_poc p \<le> vp_vah p \<and>
      (vp_levels p \<noteq> [] \<longrightarrow> {vp_val p, vp_poc p, vp_vah p} \<subseteq> vl_price ` set (vp_levels p)))"
proof
  show "build_volume_profile bars step buys = Inl e \<longleftrightarrow>
      bars \<noteq> [] \<and> (\<exists>bs. buys = Some bs \<and> length bs \<noteq> length bars \<and>
        e = ValueError (''buy_volume length '' @ str_int (int (length bs)) @ '' != bars length '' @ str_int (int (length bars))))"
    by (auto simp: build_volume_profile_def split: option.splits)
next
  define width where "width = width_of bars step"
  have empty: "vp_val (empty_profile w) \<le> vp_poc (empty_profile w) \<and> vp_poc (empty_profile w) \<le> vp_vah (empty_profile w) \<and>
      vp_levels (empty_profile w) = []" for w by (simp add: empty_profile_def)
  have "vp_val q \<le> vp_poc q \<and> vp_poc q \<le> vp_vah q \<and>
      (vp_levels q \<noteq> [] \<longrightarrow> {vp_val q, vp_poc q, vp_vah q} \<subseteq> vl_price ` set (vp_levels q))"
    if q: "q = profile_of width bars buys" for q
  proof (cases "sum_list (volumes_of width bars) \<le> 0")
    case True
    then show ?thesis using empty by (simp add: q profile_of_def Let_def)
  next
    case False
    let ?vols = "volumes_of width bars" and ?k = "fst (buckets_of width bars)"
    let ?poc = "argmax ?vols" and ?goal = "VALUE_AREA_PCT * sum_list (volumes_of width bars)"
    let ?area = "value_area ?vols ?goal {int ?poc} (?vols ! ?poc) (int ?poc - 1) (int ?poc + 1)"
    define price where "price = (\<lambda>b. py_round 4 (of_int (?k + b) * width))"
    have ne: "?vols \<noteq> []" using False by auto
    have "area_inv ?vols {int ?poc} (?vols ! ?poc) (int ?poc - 1) (int ?poc + 1)"
      using argmax_greatest(1) [OF ne] by (auto simp: area_inv_def)
    from value_area_ok [OF this, of ?goal]
    obtain lo hi where area: "?area = {lo..hi}" "0 \<le> lo" "lo \<le> hi" "hi < int (length ?vols)" "int ?poc \<in> {lo..hi}"
      unfolding area_ok_def by auto
    have mono: "a \<le> b \<Longrightarrow> price a \<le> price b" for a b
      using width_of_pos [of bars step] by (auto simp: price_def width_def intro!: py_round_mono mult_right_mono)
    have lev: "price k \<in> vl_price ` set (map (level_of width ?k ?vols bu) [0..<length ?vols])"
      if "0 \<le> k" "k < int (length ?vols)" for k bu
      using that by (auto simp: price_def level_of_def image_iff intro!: bexI [of _ "nat k"])
    have "Min {lo..hi} = lo" "Max {lo..hi} = hi" using area(3) by (auto intro: Min_eqI Max_eqI)
    then have "vp_val q = price lo" "vp_poc q = price (int ?poc)" "vp_vah q = price hi"
      "vp_levels q = map (level_of width ?k ?vols (map_option (buys_of width bars) buys)) [0..<length ?vols]"
      using False area by (simp_all add: q profile_of_def Let_def price_def)
    then show ?thesis using mono lev area by auto
  qed
  then show "build_volume_profile bars step buys = Inr p \<longrightarrow>
      vp_val p \<le> vp_poc p \<and> vp_poc p \<le> vp_vah p \<and>
      (vp_levels p \<noteq> [] \<longrightarrow> {vp_val p, vp_poc p, vp_vah p} \<subseteq> vl_price ` set (vp_levels p))"
    using empty by (auto simp: build_volume_profile_def width_def split: option.splits if_splits)
qed

section \<open>Witnesses\<close>

definition sample_bars :: "vp_bar list" where
  "sample_bars = [\<lparr>vb_high = 10, vb_low = 10, vb_volume = Some 60\<rparr>, \<lparr>vb_high = 11, vb_low = 11, vb_volume = Some 40\<rparr>]"

lemma sample_volumes: "volumes_of 1 sample_bars = [60, 40]"
  by (simp add: volumes_of_def buckets_of_def Let_def sample_bars_def lowest_def highest_def bucket_index_def bar_bucket_def
      clamp_bucket_def bar_volume_def add_at_def floor_eq_iff numeral_2_eq_2)

theorem value_area_minimal_range_witness:
  "sum_list (volumes_of 1 sample_bars) = 100 \<and> volumes_of 1 sample_bars ! 1 \<le> volumes_of 1 sample_bars ! argmax (volumes_of 1 sample_bars)"
  using value_area_minimal_range [of 1 sample_bars] unfolding Let_def by (elim conjE) (simp add: sample_volumes argmax_def)

theorem profile_prices_ordered_witness:
  "\<exists>p. build_volume_profile sample_bars (Some 1) None = Inr p \<and> vp_val p \<le> vp_vah p"
proof -
  obtain p where p: "build_volume_profile sample_bars (Some 1) None = Inr p"
    by (simp add: build_volume_profile_def sample_bars_def)
  then show ?thesis using profile_prices_ordered [of sample_bars "Some 1" None _ p] by (auto intro: order_trans)
qed

end
