(* ===== verification/OrbVwap.thy ===== *)
theory OrbVwap
  imports Events
begin

text \<open>
  \<open>ntrade/engines/orb_vwap.py\<close>: the opening range breakout strategy.  A candle is the event itself, a row of the buffer is the
  candle it came from.  The last values of VWAP and of the exponential means over the buffer, which pandas
  computes, and the account balance are arguments.  A signal is the arguments of \<open>emit_signal\<close>; the symbol of the
  strategy may be \<open>None\<close>.

  The lemmas show that an open trade always has its stop and target on the right sides of its entry and a positive
  number of lots, that a day has at most the configured number of entries, that every exit closes the
  open trade in full at its stop or target, and that a trade still open when the day changes is forgotten without one.
\<close>

section \<open>Configuration and state\<close>

record orb_config =
  oc_symbol :: "string option"
  oc_exchange :: string
  oc_timeframe :: string
  oc_risk_pct :: real
  oc_lot_size :: int
  oc_ema_fast :: int
  oc_ema_slow :: int
  oc_volume_mult :: real
  oc_target_rr :: real
  oc_sl_buffer :: real
  oc_max_trades :: int
  oc_session_start :: int
  oc_orb_end :: int
  oc_entry_end :: int

record active_trade =
  at_side :: string
  at_entry :: real
  at_sl :: real
  at_tp :: real
  at_qty :: int
  at_high :: real
  at_low :: real

record orb =
  ob_rows :: "candle_closed list"
  ob_day :: "int option"
  ob_high :: real
  ob_low :: real
  ob_ready :: bool
  ob_volume_avg :: real
  ob_trades :: int
  ob_active :: "active_trade option"

record orb_signal =
  os_symbol :: "string option"
  os_exchange :: string
  os_side :: string
  os_quantity :: int
  os_price :: real
  os_exit_reason :: "string option"
  os_levels :: "(real \<times> real \<times> real \<times> real) option"

definition ist_dt :: "datetime \<Rightarrow> datetime" where
  "ist_dt t = (case dt_tz t of Some _ \<Rightarrow> astimezone IST t | None \<Rightarrow> astimezone IST (t\<lparr>dt_tz := Some 0\<rparr>))"

definition minute_of_day :: "datetime \<Rightarrow> int" where
  "minute_of_day t = time_of_day t div (60 * US)"

definition new_config ::
  "string option \<Rightarrow> string \<Rightarrow> string \<Rightarrow> real \<Rightarrow> int \<Rightarrow> int \<Rightarrow> int \<Rightarrow> int \<Rightarrow> int \<Rightarrow> int \<Rightarrow> real \<Rightarrow> real \<Rightarrow> real \<Rightarrow> int \<Rightarrow> orb_config" where
  "new_config sy exchange timeframe risk lot session_start orb_end entry_end fast slow vmult rr buffer max_trades =
     \<lparr>oc_symbol = sy, oc_exchange = exchange, oc_timeframe = timeframe, oc_risk_pct = risk, oc_lot_size = max 1 lot,
      oc_ema_fast = max 2 fast, oc_ema_slow = max 3 slow, oc_volume_mult = max 1 vmult, oc_target_rr = max 1 rr,
      oc_sl_buffer = max 0 buffer, oc_max_trades = max 1 max_trades, oc_session_start = session_start,
      oc_orb_end = orb_end, oc_entry_end = entry_end\<rparr>"

definition new_orb :: orb where
  "new_orb =
     \<lparr>ob_rows = [], ob_day = None, ob_high = 0, ob_low = 0, ob_ready = False, ob_volume_avg = 0, ob_trades = 0, ob_active = None\<rparr>"

section \<open>One candle\<close>

text \<open>The row joins the buffer, which starts again on a new day.\<close>

definition roll_day :: "candle_closed \<Rightarrow> orb \<Rightarrow> orb" where
  "roll_day e s =
     (let day = date_of (ist_dt (ts e))
      in if Some day = ob_day s then s\<lparr>ob_rows := ob_rows s @ [e]\<rparr>
         else \<lparr>ob_rows = [e], ob_day = Some day, ob_high = 0, ob_low = 0, ob_ready = False, ob_volume_avg = 0, ob_trades = 0,
               ob_active = None\<rparr>)"

definition in_orb_window :: "orb_config \<Rightarrow> candle_closed \<Rightarrow> bool" where
  "in_orb_window c r = (let m = minute_of_day (ist_dt (ts r)) in oc_session_start c \<le> m \<and> m < oc_orb_end c)"

definition build_range :: "orb_config \<Rightarrow> int \<Rightarrow> orb \<Rightarrow> orb" where
  "build_range c minute s =
     (if ob_ready s \<or> minute < oc_orb_end c then s
      else (let window = filter (in_orb_window c) (ob_rows s)
            in if length window < 2 then s
               else s\<lparr>ob_high := Max (cc_high ` set window), ob_low := Min (cc_low ` set window),
                      ob_volume_avg := of_int (\<Sum>r\<leftarrow>window. cc_volume r) / of_nat (length window), ob_ready := True\<rparr>))"

definition exit_trade :: "orb_config \<Rightarrow> string \<Rightarrow> real \<Rightarrow> string \<Rightarrow> orb \<Rightarrow> orb \<times> orb_signal list" where
  "exit_trade c side price reason s =
     (case ob_active s of
        None \<Rightarrow> (s, [])
      | Some a \<Rightarrow>
          (s\<lparr>ob_active := None\<rparr>,
           [\<lparr>os_symbol = oc_symbol c, os_exchange = oc_exchange c, os_side = side, os_quantity = at_qty a, os_price = price,
             os_exit_reason = Some reason, os_levels = None\<rparr>]))"

definition manage_exit :: "orb_config \<Rightarrow> candle_closed \<Rightarrow> orb \<Rightarrow> orb \<times> orb_signal list" where
  "manage_exit c r s =
     (case ob_active s of
        None \<Rightarrow> (s, [])
      | Some a \<Rightarrow>
          (let s = s\<lparr>ob_active := Some (a\<lparr>at_high := max (at_high a) (cc_high r), at_low := min (at_low a) (cc_low r)\<rparr>)\<rparr>
           in if at_side a = ''BUY''
              then (if cc_low r \<le> at_sl a then exit_trade c ''SELL'' (at_sl a) ''stop_loss'' s
                    else if at_tp a \<le> cc_high r then exit_trade c ''SELL'' (at_tp a) ''target'' s else (s, []))
              else if at_side a = ''SELL''
              then (if at_sl a \<le> cc_high r then exit_trade c ''BUY'' (at_sl a) ''stop_loss'' s
                    else if cc_low r \<le> at_tp a then exit_trade c ''BUY'' (at_tp a) ''target'' s else (s, []))
              else (s, [])))"

definition enter :: "orb_config \<Rightarrow> real \<Rightarrow> string \<Rightarrow> real \<Rightarrow> real \<Rightarrow> real \<Rightarrow> orb \<Rightarrow> orb \<times> orb_signal list" where
  "enter c balance side entry sl tp s =
     (let risk = balance * (oc_risk_pct c / 100); per_unit = \<bar>entry - sl\<bar>
      in if per_unit \<le> 0 then (s, [])
         else (let qty = py_int (risk / per_unit); qty = max (oc_lot_size c) (qty div oc_lot_size c * oc_lot_size c)
               in (s\<lparr>ob_active := Some \<lparr>at_side = side, at_entry = entry, at_sl = sl, at_tp = tp, at_qty = qty,
                                        at_high = entry, at_low = entry\<rparr>\<rparr>,
                   [\<lparr>os_symbol = oc_symbol c, os_exchange = oc_exchange c, os_side = side, os_quantity = qty,
                     os_price = entry, os_exit_reason = None, os_levels = Some (sl, tp, ob_high s, ob_low s)\<rparr>])))"

text \<open>\<open>vw\<close> and \<open>ema\<close> give the last values over the buffer.\<close>

definition try_enter ::
  "orb_config \<Rightarrow> (candle_closed list \<Rightarrow> real) \<Rightarrow> (int \<Rightarrow> candle_closed list \<Rightarrow> real) \<Rightarrow> real \<Rightarrow> int \<Rightarrow> candle_closed \<Rightarrow> orb
     \<Rightarrow> orb \<times> orb_signal list" where
  "try_enter c vw ema balance minute r s =
     (let n = int (length (ob_rows s))
      in if ob_active s \<noteq> None \<or> \<not> ob_ready s \<or> oc_max_trades c \<le> ob_trades s
            \<or> \<not> (oc_orb_end c \<le> minute \<and> minute < oc_entry_end c) \<or> ob_high s \<le> ob_low s \<or> n < oc_ema_slow c
         then (s, [])
         else if 0 < ob_volume_avg s \<and> of_int (cc_volume r) < ob_volume_avg s * oc_volume_mult c then (s, [])
         else (let close = cc_close r;
                   vwap = (if 0 < n then vw (ob_rows s) else 0);
                   ema_f = (if oc_ema_fast c \<le> n then ema (oc_ema_fast c) (ob_rows s) else 0);
                   ema_s = (if oc_ema_slow c \<le> n then ema (oc_ema_slow c) (ob_rows s) else 0);
                   width = ob_high s - ob_low s
               in if width \<le> 0 then (s, [])
                  else if ob_high s < close \<and> vwap < close \<and> ema_s < ema_f \<and> 0 < ema_s
                  then enter c balance ''BUY'' close (max vwap (ob_low s) - oc_sl_buffer c) (close + width * oc_target_rr c) s
                  else if close < ob_low s \<and> close < vwap \<and> ema_f < ema_s \<and> 0 < ema_s
                  then enter c balance ''SELL'' close (min vwap (ob_high s) + oc_sl_buffer c) (close - width * oc_target_rr c) s
                  else (s, [])))"

definition orb_on_candle ::
  "orb_config \<Rightarrow> (candle_closed list \<Rightarrow> real) \<Rightarrow> (int \<Rightarrow> candle_closed list \<Rightarrow> real) \<Rightarrow> real \<Rightarrow> candle_closed \<Rightarrow> orb
     \<Rightarrow> orb \<times> orb_signal list" where
  "orb_on_candle c vw ema balance e s =
     (if (case oc_symbol c of None \<Rightarrow> False | Some y \<Rightarrow> cc_symbol e \<noteq> y) \<or> cc_timeframe e \<noteq> oc_timeframe c then (s, [])
      else (let minute = minute_of_day (ist_dt (ts e));
                s = build_range c minute (roll_day e s)
            in case manage_exit c e s of
                 (s', out) \<Rightarrow>
                   (let s' = (if ob_active s \<noteq> None \<and> ob_active s' = None then s'\<lparr>ob_trades := ob_trades s' + 1\<rparr> else s')
                    in case try_enter c vw ema balance minute e s' of (s'', out') \<Rightarrow> (s'', out @ out'))))"

text \<open>A run over candles, each with the balance at that time.\<close>

fun orb_run ::
  "orb_config \<Rightarrow> (candle_closed list \<Rightarrow> real) \<Rightarrow> (int \<Rightarrow> candle_closed list \<Rightarrow> real) \<Rightarrow> (real \<times> candle_closed) list \<Rightarrow> orb
     \<Rightarrow> orb \<times> orb_signal list" where
  "orb_run c vw ema [] s = (s, [])"
| "orb_run c vw ema ((bal, e) # es) s =
     (case orb_on_candle c vw ema bal e s of
        (s', out) \<Rightarrow> (case orb_run c vw ema es s' of (s'', out') \<Rightarrow> (s'', out @ out')))"

section \<open>Lemmas\<close>

definition wf_config :: "orb_config \<Rightarrow> bool" where
  "wf_config c \<longleftrightarrow> 1 \<le> oc_lot_size c \<and> 1 \<le> oc_target_rr c \<and> 0 \<le> oc_sl_buffer c \<and> 1 \<le> oc_max_trades c"

lemma new_config_wf: "wf_config (new_config sy ex tf risk lot a b d fast slow vm rr buf mt)"
  by (simp add: wf_config_def new_config_def)

definition is_entry :: "orb_signal \<Rightarrow> bool" where
  "is_entry g \<longleftrightarrow> os_exit_reason g = None"

abbreviation entries :: "orb_signal list \<Rightarrow> int" where
  "entries out \<equiv> int (length (filter is_entry out))"

text \<open>The levels of a trade: stop, entry and target in order, and a whole number of lots.\<close>

definition trade_ok :: "orb_config \<Rightarrow> active_trade \<Rightarrow> bool" where
  "trade_ok c a \<longleftrightarrow>
     (at_side a = ''BUY'' \<and> at_sl a < at_entry a \<and> at_entry a < at_tp a \<or>
      at_side a = ''SELL'' \<and> at_tp a < at_entry a \<and> at_entry a < at_sl a) \<and>
     0 < at_qty a \<and> oc_lot_size c dvd at_qty a"

definition used :: "orb \<Rightarrow> int" where
  "used s = ob_trades s + (if ob_active s = None then 0 else 1)"

definition orb_inv :: "orb_config \<Rightarrow> orb \<Rightarrow> bool" where
  "orb_inv c s \<longleftrightarrow> (case ob_active s of None \<Rightarrow> True | Some a \<Rightarrow> trade_ok c a) \<and> 0 \<le> ob_trades s \<and> used s \<le> oc_max_trades c"

lemma qty_ok: "1 \<le> lot \<Longrightarrow> 0 < max lot (q div lot * lot) \<and> lot dvd max lot (q div lot * (lot::int))"
  by (simp add: max_def)

lemma enter_ok:
  assumes "wf_config c" "orb_inv c s" "ob_active s = None" "ob_trades s < oc_max_trades c"
    "side = ''BUY'' \<and> sl < entry \<and> entry < tp \<or> side = ''SELL'' \<and> tp < entry \<and> entry < sl"
    "enter c bal side entry sl tp s = (s', out)"
  shows "orb_inv c s' \<and> used s' = used s + entries out \<and> ob_day s' = ob_day s"
proof (cases "\<bar>entry - sl\<bar> \<le> 0")
  case True
  then show ?thesis using assms by (auto simp: enter_def)
next
  case False
  define qty where "qty = max (oc_lot_size c) (py_int (bal * (oc_risk_pct c / 100) / \<bar>entry - sl\<bar>) div oc_lot_size c * oc_lot_size c)"
  have "0 < qty" "oc_lot_size c dvd qty" using assms(1) qty_ok by (auto simp: qty_def wf_config_def)
  moreover have "enter c bal side entry sl tp s = (s\<lparr>ob_active := Some \<lparr>at_side = side, at_entry = entry, at_sl = sl, at_tp = tp,
      at_qty = qty, at_high = entry, at_low = entry\<rparr>\<rparr>, [\<lparr>os_symbol = oc_symbol c, os_exchange = oc_exchange c, os_side = side,
      os_quantity = qty, os_price = entry, os_exit_reason = None, os_levels = Some (sl, tp, ob_high s, ob_low s)\<rparr>])"
    using False by (simp add: enter_def qty_def Let_def)
  ultimately show ?thesis using assms(2-6) by (auto simp: orb_inv_def trade_ok_def used_def is_entry_def)
qed

lemma try_enter_ok:
  assumes "wf_config c" "orb_inv c s" "try_enter c vw ema bal minute r s = (s', out)"
  shows "orb_inv c s' \<and> used s' = used s + entries out \<and> ob_day s' = ob_day s"
proof (cases "out = [] \<and> s' = s")
  case True
  then show ?thesis using assms(2) by simp
next
  case False
  let ?vw = "if 0 < int (length (ob_rows s)) then vw (ob_rows s) else 0"
  have free: "ob_active s = None" "ob_trades s < oc_max_trades c" and range: "ob_low s < ob_high s"
    using assms(3) False by (auto simp: try_enter_def Let_def split: if_splits)
  have tgt: "0 < (ob_high s - ob_low s) * oc_target_rr c" using assms(1) range by (simp add: wf_config_def)
  consider "ob_high s < cc_close r" "?vw < cc_close r"
      "enter c bal ''BUY'' (cc_close r) (max ?vw (ob_low s) - oc_sl_buffer c)
         (cc_close r + (ob_high s - ob_low s) * oc_target_rr c) s = (s', out)"
    | "cc_close r < ob_low s" "cc_close r < ?vw"
      "enter c bal ''SELL'' (cc_close r) (min ?vw (ob_high s) + oc_sl_buffer c)
         (cc_close r - (ob_high s - ob_low s) * oc_target_rr c) s = (s', out)"
    using assms(3) False unfolding try_enter_def Let_def by (auto split: if_splits)
  then show ?thesis
  proof cases
    case 1
    have "max ?vw (ob_low s) - oc_sl_buffer c < cc_close r" using 1 range assms(1) by (auto simp: wf_config_def)
    then show ?thesis using 1(3) tgt by (intro enter_ok [OF assms(1,2) free]) auto
  next
    case 2
    have "cc_close r < min ?vw (ob_high s) + oc_sl_buffer c" using 2 range assms(1) by (auto simp: wf_config_def)
    then show ?thesis using 2(3) tgt by (intro enter_ok [OF assms(1,2) free]) auto
  qed
qed

lemma manage_exit_ok:
  assumes "manage_exit c r s = (s', out)"
  shows "entries out = 0 \<and> ob_trades s' = ob_trades s \<and> ob_day s' = ob_day s \<and>
    (case ob_active s of
       None \<Rightarrow> s' = s \<and> out = []
     | Some a \<Rightarrow>
         (\<exists>a'. ob_active s' = Some a' \<and> out = [] \<and> (trade_ok c a \<longrightarrow> trade_ok c a')) \<or>
         ob_active s' = None \<and>
         (\<exists>g. out = [g] \<and> os_quantity g = at_qty a \<and> os_side g = (if at_side a = ''BUY'' then ''SELL'' else ''BUY'') \<and>
              os_price g \<in> {at_sl a, at_tp a}))"
  using assms
  by (auto simp: manage_exit_def exit_trade_def Let_def is_entry_def trade_ok_def split: option.splits if_splits)

abbreviation day_of :: "candle_closed \<Rightarrow> int" where
  "day_of e \<equiv> date_of (ist_dt (ts e))"

definition relevant :: "orb_config \<Rightarrow> candle_closed \<Rightarrow> bool" where
  "relevant c e \<longleftrightarrow> \<not> ((case oc_symbol c of None \<Rightarrow> False | Some y \<Rightarrow> cc_symbol e \<noteq> y) \<or> cc_timeframe e \<noteq> oc_timeframe c)"

lemma build_range_keeps [simp]:
  "ob_active (build_range c m s) = ob_active s" "ob_trades (build_range c m s) = ob_trades s"
  "ob_day (build_range c m s) = ob_day s" "ob_rows (build_range c m s) = ob_rows s"
  by (auto simp: build_range_def Let_def)

lemma roll_day_facts:
  "ob_day (roll_day e s) = Some (day_of e)"
  "ob_day s = Some (day_of e) \<Longrightarrow> ob_active (roll_day e s) = ob_active s \<and> ob_trades (roll_day e s) = ob_trades s"
  "ob_day s \<noteq> Some (day_of e) \<Longrightarrow> ob_active (roll_day e s) = None \<and> ob_trades (roll_day e s) = 0 \<and> ob_rows (roll_day e s) = [e]
     \<and> \<not> ob_ready (roll_day e s)"
  by (auto simp: roll_day_def Let_def)

lemma orb_on_candle_ok:
  assumes "wf_config c" "orb_inv c s" "orb_on_candle c vw ema bal e s = (s', out)"
  shows "orb_inv c s'"
    and "relevant c e \<Longrightarrow> ob_day s' = Some (day_of e) \<and> used s' = (if ob_day s = Some (day_of e) then used s else 0) + entries out"
    and "\<not> relevant c e \<Longrightarrow> s' = s \<and> out = []"
proof -
  have "orb_inv c s' \<and> ob_day s' = Some (day_of e) \<and> used s' = (if ob_day s = Some (day_of e) then used s else 0) + entries out"
    if rel: "relevant c e"
  proof -
    let ?m = "minute_of_day (ist_dt (ts e))"
    define s1 where "s1 = build_range c ?m (roll_day e s)"
    obtain s2 o2 where s2: "manage_exit c e s1 = (s2, o2)" by (cases "manage_exit c e s1")
    define s3 where "s3 = (if ob_active s1 \<noteq> None \<and> ob_active s2 = None then s2\<lparr>ob_trades := ob_trades s2 + 1\<rparr> else s2)"
    obtain s4 o4 where s4: "try_enter c vw ema bal ?m e s3 = (s4, o4)" by (cases "try_enter c vw ema bal ?m e s3")
    have res: "s' = s4" "out = o2 @ o4"
      using assms(3) rel s2 s4 by (auto simp: orb_on_candle_def relevant_def Let_def s1_def s3_def split: prod.splits)
    have s1: "orb_inv c s1" "used s1 = (if ob_day s = Some (day_of e) then used s else 0)" "ob_day s1 = Some (day_of e)"
      using roll_day_facts [where e = e and s = s] assms(1,2)
      by (cases "ob_day s = Some (day_of e)"; simp add: s1_def orb_inv_def used_def wf_config_def)+
    have "orb_inv c s3 \<and> used s3 = used s1 \<and> ob_day s3 = ob_day s1 \<and> entries o2 = 0"
      using manage_exit_ok [OF s2] s1(1)
      by (auto simp: s3_def orb_inv_def used_def split: option.splits)
    then show ?thesis using try_enter_ok [OF assms(1) _ s4] s1 by (simp add: res)
  qed
  note rel = this
  have irr: "s' = s \<and> out = []" if "\<not> relevant c e"
    using assms(3) that by (auto simp: orb_on_candle_def relevant_def)
  show "orb_inv c s'" using rel irr assms(2) by blast
  show "relevant c e \<Longrightarrow> ob_day s' = Some (day_of e) \<and> used s' = (if ob_day s = Some (day_of e) then used s else 0) + entries out"
    using rel by blast
  show "\<not> relevant c e \<Longrightarrow> s' = s \<and> out = []" by (rule irr)
qed

lemma orb_run_inv:
  assumes "wf_config c" "orb_inv c s"
  shows "orb_inv c (fst (orb_run c vw ema es s))"
  using assms(2)
proof (induction es arbitrary: s)
  case (Cons p es)
  obtain bal e where p: "p = (bal, e)" by (cases p)
  obtain s' out where st: "orb_on_candle c vw ema bal e s = (s', out)" by (cases "orb_on_candle c vw ema bal e s")
  show ?case using Cons.IH [OF orb_on_candle_ok(1) [OF assms(1) Cons.prems st]] by (simp add: p st case_prod_beta)
qed simp

lemma new_orb_inv: "wf_config c \<Longrightarrow> orb_inv c new_orb"
  by (simp add: orb_inv_def new_orb_def used_def wf_config_def)

lemma orb_day_entries:
  assumes "wf_config c" "orb_inv c s" "\<forall>(bal, e) \<in> set es. day_of e = d"
  shows "entries (snd (orb_run c vw ema es s)) \<le> oc_max_trades c - (if ob_day s = Some d then used s else 0)"
  using assms(2,3)
proof (induction es arbitrary: s)
  case Nil
  then show ?case using assms(1) by (simp add: orb_inv_def wf_config_def)
next
  case (Cons p es)
  obtain bal e where p: "p = (bal, e)" by (cases p)
  obtain s' out where st: "orb_on_candle c vw ema bal e s = (s', out)" by (cases "orb_on_candle c vw ema bal e s")
  note ok = orb_on_candle_ok [OF assms(1) Cons.prems(1) st]
  have "entries (snd (orb_run c vw ema es s')) \<le> oc_max_trades c - (if ob_day s' = Some d then used s' else 0)"
    using ok(1) Cons.prems(2) by (intro Cons.IH) auto
  moreover have "entries (snd (orb_run c vw ema (p # es) s)) = entries out + entries (snd (orb_run c vw ema es s'))"
    by (simp add: p st split: prod.split)
  ultimately show ?case using ok(2,3) Cons.prems(2) p by (cases "relevant c e") auto
qed

section \<open>The properties\<close>

text \<open>C32: 
  Whatever the candles, the balances and the indicator values, an open trade of the strategy is a buy with its stop below
  and its target above the entry, or a sell with its stop above and its target below, of a positive whole number of lots.
\<close>

theorem orb_trade_bracketed:
  assumes "c = new_config sy ex tf risk lot a b d fast slow vm rr buf mt"
    "ob_active (fst (orb_run c vw ema es new_orb)) = Some t"
  shows "(at_side t = ''BUY'' \<and> at_sl t < at_entry t \<and> at_entry t < at_tp t \<or>
          at_side t = ''SELL'' \<and> at_tp t < at_entry t \<and> at_entry t < at_sl t) \<and>
    0 < at_qty t \<and> oc_lot_size c dvd at_qty t"
proof -
  have wf: "wf_config c" unfolding assms(1) by (rule new_config_wf)
  have "trade_ok c t" using orb_run_inv [OF wf new_orb_inv [OF wf], of vw ema es] assms(2) by (simp add: orb_inv_def)
  then show ?thesis by (simp add: trade_ok_def)
qed

text \<open>
  After any history, over candles of one day in India the strategy enters at most \<open>max_trades_per_day\<close> trades.
\<close>

theorem orb_daily_limit:
  assumes "c = new_config sy ex tf risk lot a b d fast slow vm rr buf mt"
    "\<forall>(bal, e) \<in> set today. date_of (ist_dt (ts e)) = day"
  shows "entries (snd (orb_run c vw ema today (fst (orb_run c vw ema history new_orb)))) \<le> oc_max_trades c"
proof -
  have wf: "wf_config c" unfolding assms(1) by (rule new_config_wf)
  let ?s = "fst (orb_run c vw ema history new_orb)"
  have inv: "orb_inv c ?s" by (rule orb_run_inv [OF wf new_orb_inv [OF wf]])
  then have "0 \<le> used ?s" by (auto simp: orb_inv_def used_def)
  then show ?thesis using orb_day_entries [OF wf inv assms(2), of vw ema] by (auto split: if_splits)
qed

text \<open>
  A trade that is open when the first candle of another day arrives is forgotten: the strategy sends nothing at all at that
  candle, so no exit for it, and holds no trade afterwards.
\<close>

theorem orb_forgets_open_trade:
  assumes "ob_active s = Some t" "ob_day s = Some d" "d \<noteq> date_of (ist_dt (ts e))"
    "oc_symbol c = Some (cc_symbol e)" "oc_timeframe c = cc_timeframe e"
  shows "snd (orb_on_candle c vw ema bal e s) = [] \<and> ob_active (fst (orb_on_candle c vw ema bal e s)) = None"
proof -
  let ?m = "minute_of_day (ist_dt (ts e))"
  have "length (filter (in_orb_window c) (ob_rows (roll_day e s))) < 2" using assms(2,3) by (simp add: roll_day_def Let_def)
  moreover have nr: "\<not> ob_ready (roll_day e s)" "ob_active (roll_day e s) = None" using assms(2,3) by (simp_all add: roll_day_def Let_def)
  ultimately have b: "build_range c ?m (roll_day e s) = roll_day e s" by (simp add: build_range_def Let_def)
  show ?thesis using assms(4,5) nr by (simp add: orb_on_candle_def Let_def b manage_exit_def try_enter_def)
qed

section \<open>Witnesses\<close>

definition sample_config :: orb_config where
  "sample_config = new_config (Some ''NIFTY'') ''NFO'' ''1m'' 1 75 555 570 630 9 21 (3 / 2) 2 0 2"

text \<open>A candle at the given minute of day in India, day \<open>d\<close>.\<close>

definition sample_candle :: "int \<Rightarrow> int \<Rightarrow> real \<Rightarrow> candle_closed" where
  "sample_candle d m px =
     \<lparr>ts = \<lparr>dt_wall = (d * 86400 + m * 60) * US, dt_tz = Some IST\<rparr>, cc_symbol = ''NIFTY'', cc_exchange = ''NFO'', cc_timeframe = ''1m'',
      cc_open = px, cc_high = px, cc_low = px, cc_close = px, cc_volume = 100\<rparr>"

text \<open>A range of 100 to 101, then a close at 103 with the volume on average: a buy.\<close>

definition fast_config :: orb_config where
  "fast_config = new_config (Some ''NIFTY'') ''NFO'' ''1m'' 1 75 555 570 630 2 3 1 2 0 2"

definition sample_day :: "(real \<times> candle_closed) list" where
  "sample_day = [(100000, sample_candle 1 555 100), (100000, sample_candle 1 556 101), (100000, sample_candle 1 570 103)]"

lemma sample_times:
  "date_of (ist_dt (ts (sample_candle d m px))) = d + m div 1440" "minute_of_day (ist_dt (ts (sample_candle d m px))) = m mod 1440"
proof -
  have w: "dt_wall (ist_dt (ts (sample_candle d m px))) = (d * 1440 + m) * 60000000"
    by (simp add: ist_dt_def astimezone_def dt_abs_def sample_candle_def)
  have "(d * 1440 + m) * 60000000 div (1440 * 60000000) = (d * 1440 + m) div 1440"
    "(d * 1440 + m) * 60000000 mod (1440 * 60000000) = (d * 1440 + m) mod 1440 * 60000000"
    by (simp_all only: div_mult_mult2 mod_mult_mult2 zero_neq_numeral [symmetric] not_False_eq_True)
  then show "date_of (ist_dt (ts (sample_candle d m px))) = d + m div 1440" "minute_of_day (ist_dt (ts (sample_candle d m px))) = m mod 1440"
    by (simp_all add: date_of_def minute_of_day_def time_of_day_def w)
qed

lemma sample_fields [simp]:
  "cc_symbol (sample_candle d m px) = ''NIFTY''" "cc_timeframe (sample_candle d m px) = ''1m''" "cc_high (sample_candle d m px) = px"
  "cc_low (sample_candle d m px) = px" "cc_close (sample_candle d m px) = px" "cc_volume (sample_candle d m px) = 100"
  by (simp_all add: sample_candle_def)

lemma fast_fields [simp]:
  "oc_symbol fast_config = Some ''NIFTY''" "oc_timeframe fast_config = ''1m''" "oc_orb_end fast_config = 570"
  "oc_session_start fast_config = 555" "oc_entry_end fast_config = 630" "oc_max_trades fast_config = 2" "oc_ema_slow fast_config = 3"
  "oc_ema_fast fast_config = 2" "oc_volume_mult fast_config = 1" "oc_sl_buffer fast_config = 0" "oc_target_rr fast_config = 2"
  by (simp_all add: fast_config_def new_config_def)

abbreviation sample_ema :: "int \<Rightarrow> candle_closed list \<Rightarrow> real" where
  "sample_ema \<equiv> \<lambda>n _. if n = 2 then 2 else 1"

lemma sample_first:
  "orb_on_candle fast_config vw ema bal (sample_candle 1 555 100) new_orb =
     (new_orb\<lparr>ob_rows := [sample_candle 1 555 100], ob_day := Some 1\<rparr>, [])"
  by (simp add: orb_on_candle_def Let_def sample_times roll_day_def build_range_def manage_exit_def try_enter_def new_orb_def)

lemma sample_second:
  "orb_on_candle fast_config vw ema bal (sample_candle 1 556 101) (new_orb\<lparr>ob_rows := [sample_candle 1 555 100], ob_day := Some 1\<rparr>) =
     (new_orb\<lparr>ob_rows := [sample_candle 1 555 100, sample_candle 1 556 101], ob_day := Some 1\<rparr>, [])"
  by (simp add: orb_on_candle_def Let_def sample_times roll_day_def build_range_def manage_exit_def try_enter_def new_orb_def)

lemma sample_third:
  "\<exists>t. ob_active (fst (orb_on_candle fast_config (\<lambda>_. 101) sample_ema bal (sample_candle 1 570 103)
     (new_orb\<lparr>ob_rows := [sample_candle 1 555 100, sample_candle 1 556 101], ob_day := Some 1\<rparr>))) = Some t \<and> at_side t = ''BUY''"
proof -
  let ?rows = "[sample_candle 1 555 100, sample_candle 1 556 101, sample_candle 1 570 103]"
  let ?prev = "new_orb\<lparr>ob_rows := [sample_candle 1 555 100, sample_candle 1 556 101], ob_day := Some 1\<rparr>"
  define s1 where "s1 = \<lparr>ob_rows = ?rows, ob_day = Some 1, ob_high = 101, ob_low = 100, ob_ready = True, ob_volume_avg = 100,
      ob_trades = 0, ob_active = None\<rparr>"
  have step: "build_range fast_config 570 (roll_day (sample_candle 1 570 103) ?prev) = s1"
    by (simp add: roll_day_def build_range_def in_orb_window_def sample_times new_orb_def Let_def s1_def)
  have "orb_on_candle fast_config (\<lambda>_. 101) sample_ema bal (sample_candle 1 570 103) ?prev =
      try_enter fast_config (\<lambda>_. 101) sample_ema bal 570 (sample_candle 1 570 103) s1"
    by (simp add: orb_on_candle_def sample_times step) (simp add: s1_def manage_exit_def roll_day_def sample_times new_orb_def)
  then show ?thesis by (simp add: s1_def try_enter_def enter_def Let_def)
qed

lemma sample_run:
  "\<exists>t. ob_active (fst (orb_run fast_config (\<lambda>_. 101) sample_ema sample_day new_orb)) = Some t \<and> at_side t = ''BUY''"
  using sample_third [of 100000] by (simp add: sample_day_def sample_first sample_second case_prod_beta)

theorem orb_trade_bracketed_witness:
  "\<exists>t. ob_active (fst (orb_run fast_config (\<lambda>_. 101) sample_ema sample_day new_orb)) = Some t \<and>
     at_sl t < at_entry t \<and> at_entry t < at_tp t"
proof -
  obtain t where t: "ob_active (fst (orb_run fast_config (\<lambda>_. 101) sample_ema sample_day new_orb)) = Some t"
    "at_side t = ''BUY''" using sample_run by blast
  then show ?thesis using orb_trade_bracketed [OF fast_config_def t(1)] by simp
qed

theorem orb_daily_limit_witness:
  "entries (snd (orb_run fast_config (\<lambda>_. 101) sample_ema sample_day (fst (orb_run fast_config (\<lambda>_. 101)
     sample_ema [] new_orb)))) \<le> 2"
  using orb_daily_limit [OF fast_config_def, of sample_day 1 "\<lambda>_. 101" sample_ema "[]"]
  by (simp add: sample_day_def sample_times)

theorem orb_forgets_open_trade_witness:
  "\<exists>s t. ob_active s = Some t \<and> snd (orb_on_candle fast_config (\<lambda>_. 101) (\<lambda>_ _. 1) 100000 (sample_candle 2 555 90) s) = [] \<and>
     ob_active (fst (orb_on_candle fast_config (\<lambda>_. 101) (\<lambda>_ _. 1) 100000 (sample_candle 2 555 90) s)) = None"
proof -
  let ?t = "\<lparr>at_side = ''BUY'', at_entry = 103, at_sl = 101, at_tp = 105, at_qty = 75, at_high = 103, at_low = 103\<rparr>"
  let ?s = "new_orb\<lparr>ob_day := Some 1, ob_active := Some ?t\<rparr>"
  have "snd (orb_on_candle fast_config (\<lambda>_. 101) (\<lambda>_ _. 1) 100000 (sample_candle 2 555 90) ?s) = [] \<and>
     ob_active (fst (orb_on_candle fast_config (\<lambda>_. 101) (\<lambda>_ _. 1) 100000 (sample_candle 2 555 90) ?s)) = None"
    by (rule orb_forgets_open_trade [where d = 1 and t = ?t])
       (simp_all add: sample_times)
  moreover have "ob_active ?s = Some ?t" by simp
  ultimately show ?thesis by blast
qed

end
