(* ===== verification/SimFeed.thy ===== *)
theory SimFeed
  imports Market
begin

text \<open>
  \<open>ntrade/sim/tick_simulator.py\<close> and \<open>ntrade/sim/depth_simulator.py\<close>: ticks and order books made up from a bar.

  The draws of \<open>random.Random(seed)\<close> are arguments.  \<open>randrange(1, n - 1)\<close> gives a number of that range: \<open>rg_hi\<close> the first
  draw, \<open>rg_lo k\<close> the later ones, of which the rejection loop takes as many as it needs; \<open>rg_noise i\<close> is the
  \<open>uniform\<close> draw for second \<open>i\<close>.  The rejection loop is a partial function: a loop that never accepts has no value.

  The lemmas prove the invariants that the two modules list in their documentation, with the conditions they need:
  the loop ends when every second is drawn some time; a bar whose high and low are whole paise has all its ticks inside
  its range, touches both ends, starts at the open, ends at the close and shares out exactly its volume; a bar quoted
  finer than that can have ticks outside its range; the book is sorted, not crossed, and leans the way asked, never more.
\<close>

section \<open>Ticks\<close>

definition MIN_ANCHOR_GAP :: int where
  "MIN_ANCHOR_GAP = 5"

record sim_tick =
  sk_ts :: datetime
  sk_price :: real
  sk_quantity :: int

record tick_rng =
  rg_hi :: int
  rg_lo :: "nat \<Rightarrow> int"
  rg_noise :: "nat \<Rightarrow> real"

type_synonym anchor = "int \<times> real"

definition interp_segment :: "anchor \<Rightarrow> anchor \<Rightarrow> real list \<Rightarrow> real list" where
  "interp_segment a b ps =
     (case (a, b) of ((i0, p0), (i1, p1)) \<Rightarrow>
        fold (\<lambda>i ps. ps[nat i := p0 + (p1 - p0) * (if i1 \<noteq> i0 then of_int (i - i0) / of_int (i1 - i0) else 0)]) [i0..i1] ps)"

fun interp_from :: "anchor list \<Rightarrow> real list \<Rightarrow> real list" where
  "interp_from (a # b # as) ps = interp_from (b # as) (interp_segment a b ps)"
| "interp_from as ps = ps"

definition interp :: "anchor list \<Rightarrow> nat \<Rightarrow> real list" where
  "interp as n = interp_from as (replicate n 0)"

definition distribute_volume :: "int \<Rightarrow> real list \<Rightarrow> int list" where
  "distribute_volume volume prices =
     (let n = length prices
      in if volume \<le> 0 then replicate n 0
         else (let moves = map (\<lambda>i. \<bar>prices ! i - prices ! (i - 1)\<bar>) [1..<n];
                   total = num_or (sum_list moves) 1;
                   qty = 0 # map (\<lambda>m. py_int (of_int volume * m / total)) moves
               in qty[n - 1 := qty ! (n - 1) + (volume - sum_list qty)]))"

text \<open>\<open>while abs(hi - lo) < min_gap: lo = rng.randrange(1, n - 1)\<close>, from draw \<open>k\<close>.\<close>

partial_function (option) pick_lo :: "int \<Rightarrow> int \<Rightarrow> (nat \<Rightarrow> int) \<Rightarrow> nat \<Rightarrow> int option" where
  [code]: "pick_lo gap hi draw k = (if \<bar>hi - draw k\<bar> < gap then pick_lo gap hi draw (Suc k) else Some (draw k))"

definition min_gap :: "nat \<Rightarrow> int" where
  "min_gap n = max 1 (min MIN_ANCHOR_GAP ((int n - 3) div 2))"

text \<open>The path with noise, kept inside the bar; then the prices rounded and the anchors put back.\<close>

definition noisy :: "real \<Rightarrow> real \<Rightarrow> int \<Rightarrow> int \<Rightarrow> (nat \<Rightarrow> real) \<Rightarrow> real list \<Rightarrow> real list" where
  "noisy high low hi lo noise ps =
     map (\<lambda>i. if int i \<in> {0, hi, lo, int (length ps) - 1} then ps ! i else min high (max low (ps ! i + noise i)))
       [0..<length ps]"

definition pinned :: "real \<Rightarrow> real \<Rightarrow> real \<Rightarrow> real \<Rightarrow> int \<Rightarrow> int \<Rightarrow> real list \<Rightarrow> real list" where
  "pinned op high low cl hi lo ps =
     (let ps = map (py_round 2) ps in ps[0 := op, nat hi := high, nat lo := low, length ps - 1 := cl])"

definition ticks_of ::
  "datetime \<Rightarrow> real \<Rightarrow> real \<Rightarrow> real \<Rightarrow> real \<Rightarrow> int \<Rightarrow> nat \<Rightarrow> (nat \<Rightarrow> real) \<Rightarrow> int \<Rightarrow> int \<Rightarrow> sim_tick list" where
  "ticks_of bar_ts op high low cl volume n noise hi lo =
     (let ps = interp (sort_key fst [(0, op), (hi, high), (lo, low), (int n - 1, cl)]) n;
          ps = noisy high low hi lo noise ps;
          qty = distribute_volume volume ps;
          ps = pinned op high low cl hi lo ps
      in map (\<lambda>i. \<lparr>sk_ts = bar_ts\<lparr>dt_wall := dt_wall bar_ts + int i * US\<rparr>, sk_price = ps ! i, sk_quantity = qty ! i\<rparr>) [0..<n])"

definition synthesize_1m_ticks ::
  "datetime \<Rightarrow> real \<Rightarrow> real \<Rightarrow> real \<Rightarrow> real \<Rightarrow> int \<Rightarrow> nat \<Rightarrow> tick_rng \<Rightarrow> (py_error + sim_tick list) option" where
  "synthesize_1m_ticks bar_ts op high low cl volume n rng =
     (if high < low then Some (Inl (ValueError (''high '' @ repr_float high @ '' < low '' @ repr_float low)))
      else if n < 4 then Some (Inl (ValueError ''seconds must be >= 4''))
      else map_option (\<lambda>lo. Inr (ticks_of bar_ts op high low cl volume n (rg_noise rng) (rg_hi rng) lo))
             (pick_lo (min_gap n) (rg_hi rng) (rg_lo rng) 0))"

section \<open>Depth\<close>

record sim_level =
  sv_price :: real
  sv_quantity :: int
  sv_orders :: int

record depth_rng =
  dg_jitter :: "nat \<Rightarrow> real"
  dg_orders :: "nat \<Rightarrow> int"

definition clamp :: "real \<Rightarrow> real \<Rightarrow> real \<Rightarrow> real" where
  "clamp lo hi x = max lo (min hi x)"

definition level_base :: "int \<Rightarrow> real \<Rightarrow> int" where
  "level_base base_qty jitter = max 1 (py_int (of_int base_qty * (1 + jitter)))"

definition depth_level_at ::
  "real \<Rightarrow> real \<Rightarrow> int \<Rightarrow> int \<Rightarrow> real \<Rightarrow> depth_rng \<Rightarrow> nat \<Rightarrow> sim_level \<times> sim_level" where
  "depth_level_at mid tick spread base_qty imbalance rng k =
     (let base = level_base base_qty (dg_jitter rng k); delta = py_int (of_int base * imbalance);
          orders = max 1 (dg_orders rng k); gap = of_int (spread + int k + 1) * tick
      in (\<lparr>sv_price = py_round 4 (mid - gap), sv_quantity = max 1 (base + delta), sv_orders = orders\<rparr>,
          \<lparr>sv_price = py_round 4 (mid + gap), sv_quantity = max 1 (base - delta), sv_orders = orders\<rparr>))"

definition synthesize_depth ::
  "real \<Rightarrow> real \<Rightarrow> int \<Rightarrow> real \<Rightarrow> int \<Rightarrow> int \<Rightarrow> depth_rng \<Rightarrow> py_error + (sim_level list \<times> sim_level list)" where
  "synthesize_depth ltp tick levels imbalance spread base_qty rng =
     (if tick \<le> 0 then Inl (ValueError (''tick_size must be > 0, got '' @ repr_float tick))
      else if ltp \<le> 0 then Inl (ValueError (''ltp must be > 0, got '' @ repr_float ltp))
      else (let n = nat (max 1 (min 20 levels)); imb = clamp (- 9 / 10) (9 / 10) imbalance;
                mid = of_int (round_half_even (ltp / tick)) * tick;
                book = map (depth_level_at mid tick (max 0 spread) base_qty imb rng) [0..<n]
            in Inr (map fst book, map snd book)))"

definition depth_to_wire ::
  "sim_level list \<times> sim_level list \<Rightarrow> (real \<times> int \<times> int) list \<times> (real \<times> int \<times> int) list" where
  "depth_to_wire book =
     (let wire = map (\<lambda>l. (sv_price l, sv_quantity l, sv_orders l)) in (wire (fst book), wire (snd book)))"

definition bar_imbalance :: "real \<Rightarrow> real \<Rightarrow> real \<Rightarrow> real" where
  "bar_imbalance op cl scale = (if op < cl then scale else if cl < op then - scale else 0)"

section \<open>Lemmas on ticks\<close>

lemma interp_length [simp]: "length (interp as n) = n"
proof -
  have seg: "length (interp_segment a b ps) = length ps" for a b ps
  proof -
    have "length (fold (\<lambda>i ps. ps[nat i := f i]) is ps) = length ps" for f :: "int \<Rightarrow> real" and "is" and ps :: "real list"
      by (induction "is" arbitrary: ps) auto
    then show ?thesis by (cases a; cases b) (simp add: interp_segment_def)
  qed
  have "length (interp_from as ps) = length ps" for ps
    by (induction as ps rule: interp_from.induct) (simp_all add: seg)
  then show ?thesis by (simp add: interp_def)
qed

lemma py_int_floor: "0 \<le> x \<Longrightarrow> 0 \<le> py_int x \<and> of_int (py_int x) \<le> x"
  by (simp add: py_int_def)

lemma distribute_volume_ok:
  assumes "prices \<noteq> []"
  shows "length (distribute_volume volume prices) = length prices"
    and "sum_list (distribute_volume volume prices) = max 0 volume"
    and "\<forall>q \<in> set (distribute_volume volume prices). 0 \<le> q"
proof -
  let ?n = "length prices"
  define moves where "moves = map (\<lambda>i. \<bar>prices ! i - prices ! (i - 1)\<bar>) [1..<?n]"
  define total where "total = num_or (sum_list moves) (1::real)"
  define qty where "qty = 0 # map (\<lambda>m. py_int (of_int volume * m / total)) moves"
  have len: "length qty = ?n" using assms by (simp add: qty_def moves_def del: upt_Suc flip: length_greater_0_conv)
  have n: "?n - 1 < length qty" using assms len by (cases prices) auto
  have upd: "sum_list (xs[i := xs ! i + (v::int)]) = sum_list xs + v" if "i < length xs" for xs i v
    using that by (induction xs arbitrary: i) (auto split: nat.split)
  have dv: "distribute_volume volume prices = (if volume \<le> 0 then replicate ?n 0
      else qty[?n - 1 := qty ! (?n - 1) + (volume - sum_list qty)])"
    unfolding distribute_volume_def Let_def qty_def total_def moves_def by (rule refl)
  show "length (distribute_volume volume prices) = length prices" by (simp add: dv len)
  show "sum_list (distribute_volume volume prices) = max 0 volume" using upd [OF n] by (simp add: dv sum_list_replicate)
  have nonneg: "0 \<le> m" if "m \<in> set moves" for m using that by (auto simp: moves_def)
  have sm: "0 \<le> sum_list moves" by (rule sum_list_nonneg_real) (rule nonneg)
  have tot: "0 < total" using sm by (auto simp: total_def num_or_def)
  have "\<forall>q \<in> set (distribute_volume volume prices). 0 \<le> q" if v: "0 < volume"
  proof -
    have part: "0 \<le> of_int volume * m / total" if "m \<in> set moves" for m using v tot nonneg [OF that] by simp
    have "of_int (\<Sum>m\<leftarrow>ms. py_int (of_int volume * m / total)) \<le> of_int volume * sum_list ms / total"
      if "set ms \<subseteq> set moves" for ms
      using that
    proof (induction ms)
      case (Cons m ms)
      then show ?case using py_int_floor [OF part, of m] by (simp add: distrib_left add_divide_distrib)
    qed simp
    from this [of moves] have "of_int (sum_list qty) \<le> of_int volume * sum_list moves / total" by (simp add: qty_def)
    also have "\<dots> \<le> (of_int volume :: real)" using v tot sm by (auto simp: total_def num_or_def divide_le_eq)
    finally have "sum_list qty \<le> volume" by linarith
    moreover have "\<forall>q \<in> set qty. 0 \<le> q" using part py_int_floor by (auto simp: qty_def)
    ultimately show ?thesis using v n by (auto simp: dv dest!: set_update_subset_insert [THEN subsetD])
  qed
  then show "\<forall>q \<in> set (distribute_volume volume prices). 0 \<le> q" by (cases "0 < volume") (auto simp: dv)
qed

lemma pick_lo_gap:
  assumes "pick_lo gap hi draw k = Some lo"
  shows "gap \<le> \<bar>hi - lo\<bar> \<and> lo \<in> range draw"
proof (rule pick_lo.raw_induct [OF _ assms])
  fix pick :: "int \<Rightarrow> int \<Rightarrow> (nat \<Rightarrow> int) \<Rightarrow> nat \<Rightarrow> int option" and gap hi draw k lo
  assume "\<And>gap hi draw k lo. pick gap hi draw k = Some lo \<Longrightarrow> gap \<le> \<bar>hi - lo\<bar> \<and> lo \<in> range draw"
    and "(if \<bar>hi - draw k\<bar> < gap then pick gap hi draw (Suc k) else Some (draw k)) = Some lo"
  then show "gap \<le> \<bar>hi - lo\<bar> \<and> lo \<in> range draw" by (cases "\<bar>hi - draw k\<bar> < gap") auto
qed

lemma pick_lo_ends:
  assumes "gap \<le> \<bar>hi - draw (k + d)\<bar>"
  shows "\<exists>lo. pick_lo gap hi draw k = Some lo"
  using assms
proof (induction d arbitrary: k)
  case 0
  then show ?case by (subst pick_lo.simps) auto
next
  case (Suc d)
  then show ?case using Suc.IH [of "Suc k"] by (subst pick_lo.simps) auto
qed

lemma min_gap_reachable:
  assumes "4 \<le> n" "1 \<le> hi" "hi < int n - 1"
  shows "\<exists>v. 1 \<le> v \<and> v < int n - 1 \<and> min_gap n \<le> \<bar>hi - v\<bar>"
proof -
  have gap: "min_gap n \<le> max 1 ((int n - 3) div 2)" by (auto simp: min_gap_def)
  show ?thesis
  proof (cases "hi - 1 \<le> int n - 2 - hi")
    case True
    then have "max 1 ((int n - 3) div 2) \<le> \<bar>hi - (int n - 2)\<bar>" using assms by linarith
    then show ?thesis using gap assms by (intro exI [of _ "int n - 2"]) auto
  next
    case False
    then have "max 1 ((int n - 3) div 2) \<le> \<bar>hi - 1\<bar>" using assms by linarith
    then show ?thesis using gap assms by (intro exI [of _ 1]) auto
  qed
qed

lemma pinned_length [simp]: "length (pinned op high low cl hi lo ps) = length ps"
  by (simp add: pinned_def Let_def)

lemma pinned_bounds:
  fixes noise :: "nat \<Rightarrow> real"
  assumes "low \<le> op" "op \<le> high" "low \<le> cl" "cl \<le> high" "py_round 2 high = high" "py_round 2 low = low"
    "1 \<le> hi" "1 \<le> lo" "hi \<noteq> lo" "hi < int (length ps) - 1" "lo < int (length ps) - 1"
  defines "qs \<equiv> pinned op high low cl hi lo (noisy high low hi lo noise ps)"
  shows "qs ! 0 = op" "qs ! (length ps - 1) = cl" "qs ! nat hi = high" "qs ! nat lo = low"
    "\<forall>q \<in> set qs. low \<le> q \<and> q \<le> high"
proof -
  let ?n = "length ps"
  have len: "length (noisy high low hi lo noise ps) = ?n" by (simp add: noisy_def)
  have ix: "0 < ?n" "0 < ?n - 1" "nat hi \<noteq> 0" "nat lo \<noteq> 0" "nat hi \<noteq> nat lo" "nat hi < ?n - 1" "nat lo < ?n - 1" using assms by auto
  show "qs ! 0 = op" "qs ! (?n - 1) = cl" "qs ! nat hi = high" "qs ! nat lo = low"
    using ix by (simp_all add: qs_def pinned_def Let_def len nth_list_update)
  have "low \<le> qs ! i \<and> qs ! i \<le> high" if i: "i < ?n" for i
  proof (cases "i \<in> {0, nat hi, nat lo, ?n - 1}")
    case True
    then show ?thesis using ix assms(1-4) by (auto simp: qs_def pinned_def Let_def len nth_list_update)
  next
    case False
    then have ni: "int i \<notin> {0, hi, lo, int ?n - 1}" using assms by auto
    have "qs ! i = py_round 2 (min high (max low (ps ! i + noise i)))"
      using False i ni by (simp add: qs_def pinned_def Let_def len nth_list_update) (simp add: noisy_def)
    moreover have "low \<le> high" using assms(1,2) by linarith
    then have "py_round 2 low \<le> py_round 2 (min high (max low (ps ! i + noise i)))"
      "py_round 2 (min high (max low (ps ! i + noise i))) \<le> py_round 2 high"
      by (auto intro!: py_round_mono)
    ultimately show ?thesis using assms(5,6) by simp
  qed
  then show "\<forall>q \<in> set qs. low \<le> q \<and> q \<le> high" by (auto simp: in_set_conv_nth qs_def len)
qed

section \<open>Properties of ticks\<close>

text \<open>
  The search for a second to place the low ends: for every bar length of at least 4 seconds, every draw for the high and
  every later sequence of draws in which each second of the bar comes up some time, a bar that is not refused gets its ticks.
\<close>

theorem anchor_search_ends:
  assumes "4 \<le> n" "low \<le> high" "1 \<le> rg_hi rng" "rg_hi rng < int n - 1"
    "\<forall>v. 1 \<le> v \<and> v < int n - 1 \<longrightarrow> (\<exists>k. rg_lo rng k = v)"
  shows "\<exists>tks. synthesize_1m_ticks t op high low cl volume n rng = Some (Inr tks)"
proof -
  obtain v where "1 \<le> v" "v < int n - 1" "min_gap n \<le> \<bar>rg_hi rng - v\<bar>" using min_gap_reachable [OF assms(1,3,4)] by blast
  then obtain k where "min_gap n \<le> \<bar>rg_hi rng - rg_lo rng (0 + k)\<bar>" using assms(5) by (metis add_0)
  from pick_lo_ends [of _ _ "rg_lo rng" 0 k, OF this] show ?thesis using assms(1,2) by (auto simp: synthesize_1m_ticks_def)
qed

text \<open>C35: 
  The listed invariants: for a bar whose open and close are within its range and whose high and low are whole
  hundredths, tick number i is stamped i seconds after the bar, the ticks run from the open to the close, all within the
  range and touching both ends, with quantities that are not negative and add up to the volume (to nothing for a negative
  volume).
\<close>

theorem tick_invariants:
  assumes "synthesize_1m_ticks t op high low cl volume n rng = Some (Inr tks)"
    "low \<le> op" "op \<le> high" "low \<le> cl" "cl \<le> high" "py_round 2 high = high" "py_round 2 low = low"
    "1 \<le> rg_hi rng" "rg_hi rng < int n - 1" "\<forall>k. 1 \<le> rg_lo rng k \<and> rg_lo rng k < int n - 1"
  shows "map sk_ts tks = map (\<lambda>i. t\<lparr>dt_wall := dt_wall t + int i * US\<rparr>) [0..<n] \<and>
    sk_price (hd tks) = op \<and> sk_price (last tks) = cl \<and>
    (\<forall>k \<in> set tks. low \<le> sk_price k \<and> sk_price k \<le> high \<and> 0 \<le> sk_quantity k) \<and>
    high \<in> sk_price ` set tks \<and> low \<in> sk_price ` set tks \<and> (\<Sum>k\<leftarrow>tks. sk_quantity k) = max 0 volume"
proof -
  obtain lo where n: "4 \<le> n" and p: "pick_lo (min_gap n) (rg_hi rng) (rg_lo rng) 0 = Some lo"
    and tks: "tks = ticks_of t op high low cl volume n (rg_noise rng) (rg_hi rng) lo"
    using assms(1) by (auto simp: synthesize_1m_ticks_def split: if_splits)
  have lo: "1 \<le> lo" "lo < int n - 1" "rg_hi rng \<noteq> lo"
    using pick_lo_gap [OF p] assms(10) by (auto simp: min_gap_def)
  define ps where "ps = interp (sort_key fst [(0, op), (rg_hi rng, high), (lo, low), (int n - 1, cl)]) n"
  define ns where "ns = noisy high low (rg_hi rng) lo (rg_noise rng) ps"
  define qs where "qs = pinned op high low cl (rg_hi rng) lo ns"
  define qty where "qty = distribute_volume volume ns"
  have len: "length ps = n" "length ns = n" "length qs = n" by (simp_all add: ps_def ns_def qs_def noisy_def)
  have b: "qs ! 0 = op" "qs ! (n - 1) = cl" "qs ! nat (rg_hi rng) = high" "qs ! nat lo = low" "\<forall>q \<in> set qs. low \<le> q \<and> q \<le> high"
    using pinned_bounds [of low op high cl "rg_hi rng" lo ps "rg_noise rng"] assms(2-9) lo len by (auto simp: qs_def ns_def)
  have nne: "ns \<noteq> []" using len(2) n by auto
  have q: "length qty = n" "sum_list qty = max 0 volume" "\<forall>q \<in> set qty. 0 \<le> q"
    using distribute_volume_ok [of ns volume] nne by (simp_all add: qty_def len(2))
  have tk: "tks = map (\<lambda>i. \<lparr>sk_ts = t\<lparr>dt_wall := dt_wall t + int i * US\<rparr>, sk_price = qs ! i, sk_quantity = qty ! i\<rparr>) [0..<n]"
    by (simp add: tks ticks_of_def Let_def ps_def ns_def qs_def qty_def)
  have prices: "map sk_price tks = qs" "map sk_quantity tks = qty"
    by (auto simp: tk comp_def len q intro: nth_equalityI)
  have "map sk_ts tks = map (\<lambda>i. t\<lparr>dt_wall := dt_wall t + int i * US\<rparr>) [0..<n]" by (simp add: tk)
  moreover have "sk_price (hd tks) = op" "sk_price (last tks) = cl"
    using b(1,2) n by (auto simp: tk hd_map last_map)
  moreover have "\<forall>k \<in> set tks. low \<le> sk_price k \<and> sk_price k \<le> high \<and> 0 \<le> sk_quantity k"
    using b(5) q(3) prices by (metis imageI list.set_map)
  moreover have "high \<in> sk_price ` set tks" "low \<in> sk_price ` set tks"
  proof -
    have "nat (rg_hi rng) < length qs" "nat lo < length qs" using lo assms(8,9) len by auto
    then have "high \<in> set qs" "low \<in> set qs" using b(3,4) nth_mem by metis+
    then show "high \<in> sk_price ` set tks" "low \<in> sk_price ` set tks" unfolding prices(1) [symmetric] by simp_all
  qed
  moreover have "(\<Sum>k\<leftarrow>tks. sk_quantity k) = max 0 volume" using q(2) prices(2) by simp
  ultimately show ?thesis by blast
qed

text \<open>
  The documentation promises prices within the bar for every bar.  For prices quoted finer than hundredths that fails: there is
  a bar and there are draws with a tick above the high.
\<close>

theorem ticks_leave_fine_bar:
  "\<exists>tks. synthesize_1m_ticks t 100 (100009 / 1000) 100 100 0 8 \<lparr>rg_hi = 1, rg_lo = (\<lambda>k. 6), rg_noise = (\<lambda>i. 0)\<rparr> = Some (Inr tks) \<and>
     (\<exists>k \<in> set tks. 100009 / 1000 < sk_price k)"
proof -
  let ?tks = "ticks_of t 100 (100009 / 1000) 100 100 0 8 (\<lambda>i. 0) 1 6"
  have gap: "min_gap 8 = 2" by (simp add: min_gap_def MIN_ANCHOR_GAP_def)
  have run: "synthesize_1m_ticks t 100 (100009 / 1000) 100 100 0 8 \<lparr>rg_hi = 1, rg_lo = (\<lambda>k. 6), rg_noise = (\<lambda>i. 0)\<rparr> = Some (Inr ?tks)"
    by (simp add: synthesize_1m_ticks_def gap pick_lo.simps)
  have anchors: "sort_key fst [(0, 100), (1, 100009 / 1000), (6, 100), (int 8 - 1, 100)] =
      [(0, 100), (1, 100009 / 1000), (6, 100), (7::int, 100::real)]" by simp
  have up: "[1..6] = [1, 2, 3, 4, 5, 6::int]" "[0..1] = [0, 1::int]" "[6..7] = [6, 7::int]"
    by (simp_all add: upto_rec1)
  have second: "interp [(0, 100), (1, 100009 / 1000), (6, 100), (7, 100)] 8 ! 2 = 100009 / 1000 - 9 / 5000"
    by (simp add: interp_def interp_segment_def up numeral_eq_Suc)
  have rnd: "py_round 2 (100009 / 1000 - 9 / 5000) = 10001 / 100"
    by (simp add: py_round_def round_half_even_def floor_eq_iff)
  have "sk_price (?tks ! 2) = py_round 2 (100009 / 1000 - 9 / 5000)"
    unfolding ticks_of_def Let_def anchors
    by (simp add: pinned_def noisy_def second [unfolded numeral_2_eq_2] nth_list_update)
  then have "100009 / 1000 < sk_price (?tks ! 2)" unfolding rnd by simp
  moreover have "?tks ! 2 \<in> set ?tks" by (rule nth_mem) (simp add: ticks_of_def Let_def)
  ultimately show ?thesis using run by blast
qed

section \<open>Lemmas on depth\<close>

lemma py_int_lean:
  assumes "0 \<le> base" "\<bar>imb\<bar> \<le> 9 / 10"
  shows "\<bar>of_int (py_int (of_int base * imb))\<bar> \<le> of_int base * \<bar>imb\<bar>"
    and "\<bar>py_int (of_int base * imb)\<bar> \<le> base" and "0 < base \<Longrightarrow> \<bar>py_int (of_int base * imb)\<bar> < base"
    and "0 \<le> py_int (of_int base * imb) * (if 0 \<le> imb then 1 else - 1)"
proof -
  let ?x = "of_int base * imb :: real"
  show le: "\<bar>of_int (py_int ?x)\<bar> \<le> of_int base * \<bar>imb\<bar>"
  proof (cases "0 \<le> imb")
    case True
    then have "0 \<le> ?x" using assms(1) by simp
    then show ?thesis using True by (simp add: py_int_def)
  next
    case False
    then have x: "?x \<le> 0" using assms(1) by (simp add: mult_nonneg_nonpos)
    then have "py_int ?x = \<lceil>?x\<rceil>" by (cases "?x = 0") (auto simp: py_int_def simp del: mult_eq_0_iff)
    moreover have "?x \<le> of_int \<lceil>?x\<rceil>" "\<lceil>?x\<rceil> \<le> 0" using x by (simp_all add: le_of_int_ceiling ceiling_le_iff)
    moreover have "of_int base * \<bar>imb\<bar> = - ?x" using False by simp
    ultimately show ?thesis by simp
  qed
  have "of_int base * \<bar>imb\<bar> \<le> of_int base * (9 / 10)" using assms by (intro mult_left_mono) auto
  then have lt: "\<bar>of_int (py_int ?x) :: real\<bar> \<le> of_int base * (9 / 10)" using le by linarith
  show "\<bar>py_int ?x\<bar> \<le> base" using lt assms(1) by linarith
  show "0 < base \<Longrightarrow> \<bar>py_int ?x\<bar> < base" using lt by linarith
  show "0 \<le> py_int ?x * (if 0 \<le> imb then 1 else - 1)"
    using assms(1) by (auto simp: py_int_def mult_nonneg_nonpos ceiling_le_iff zero_le_mult_iff)
qed

lemma level_base_pos: "0 < level_base b j"
  by (simp add: level_base_def)

text \<open>Each side's total is the bases plus or minus the leans.\<close>

lemma depth_sums:
  fixes rng :: depth_rng and bq :: int
  assumes "\<bar>imb\<bar> \<le> 9 / 10"
  defines "base \<equiv> \<lambda>k. level_base bq (dg_jitter rng k)"
  defines "lean \<equiv> \<lambda>k. py_int (of_int (base k) * imb)"
  shows "sv_quantity (fst (depth_level_at mid tick spread bq imb rng k)) = base k + lean k"
    "sv_quantity (snd (depth_level_at mid tick spread bq imb rng k)) = base k - lean k"
proof -
  have "\<bar>lean k\<bar> < base k"
    using py_int_lean(3) [of "base k" imb] assms(1) level_base_pos [of bq "dg_jitter rng k"] by (simp add: base_def lean_def)
  then show "sv_quantity (fst (depth_level_at mid tick spread bq imb rng k)) = base k + lean k"
    "sv_quantity (snd (depth_level_at mid tick spread bq imb rng k)) = base k - lean k"
    by (simp_all add: depth_level_at_def Let_def base_def lean_def)
qed

section \<open>Properties of depth\<close>

text \<open>
  A book that is made has the number of levels asked for, between 1 and 20, on each side; bids fall and asks rise away from
  the middle, every bid is below every ask when the tick is more than half of a ten-thousandth, every quantity and order
  count is positive, and the lean of the book is towards the side asked for and not more than asked for (or 90\%).
\<close>

theorem depth_book_leans:
  assumes "synthesize_depth ltp tick levels imbalance spread bq rng = Inr (bids, asks)" "1 / 20000 < tick"
  shows "length bids = nat (max 1 (min 20 levels)) \<and> length asks = length bids \<and>
    sorted_wrt (\<ge>) (map sv_price bids) \<and> sorted_wrt (\<le>) (map sv_price asks) \<and>
    (\<forall>b \<in> set bids. \<forall>a \<in> set asks. sv_price b < sv_price a) \<and>
    (\<forall>l \<in> set bids \<union> set asks. 1 \<le> sv_quantity l \<and> 1 \<le> sv_orders l) \<and>
    (let b = \<Sum>l\<leftarrow>bids. sv_quantity l; a = \<Sum>l\<leftarrow>asks. sv_quantity l
     in of_int \<bar>b - a\<bar> \<le> of_int (b + a) * min \<bar>imbalance\<bar> (9 / 10) \<and> 0 \<le> (b - a) * (if 0 \<le> imbalance then 1 else - 1))"
proof -
  define n where "n = nat (max 1 (min 20 levels))"
  define imb where "imb = clamp (- 9 / 10) (9 / 10) imbalance"
  define mid where "mid = of_int (round_half_even (ltp / tick)) * tick"
  define lev where "lev = depth_level_at mid tick (max 0 spread) bq imb rng"
  define base where "base = (\<lambda>k. level_base bq (dg_jitter rng k))"
  define lean where "lean = (\<lambda>k. py_int (of_int (base k) * imb))"
  have bk: "bids = map (\<lambda>k. fst (lev k)) [0..<n]" "asks = map (\<lambda>k. snd (lev k)) [0..<n]"
    using assms(1) by (auto simp: synthesize_depth_def Let_def n_def imb_def mid_def lev_def comp_def split: if_splits)
  have imb: "\<bar>imb\<bar> = min \<bar>imbalance\<bar> (9 / 10)" "0 \<le> imb \<longleftrightarrow> 0 \<le> imbalance" by (auto simp: imb_def clamp_def)
  have imb_le: "\<bar>imb\<bar> \<le> 9 / 10" by (simp add: imb)
  have q: "sv_quantity (fst (lev k)) = base k + lean k" "sv_quantity (snd (lev k)) = base k - lean k" for k
    using depth_sums [OF imb_le] by (simp_all add: lev_def base_def lean_def)
  have gap: "of_int (max 0 spread + int i + 1) * tick \<le> of_int (max 0 spread + int j + 1) * tick" if "i \<le> j" for i j
    using that assms(2) by (intro mult_right_mono) auto
  have pr: "sv_price (fst (lev k)) = py_round 4 (mid - of_int (max 0 spread + int k + 1) * tick)"
    "sv_price (snd (lev k)) = py_round 4 (mid + of_int (max 0 spread + int k + 1) * tick)" for k
    by (simp_all add: lev_def depth_level_at_def Let_def)
  have one: "tick \<le> of_int (max 0 spread + int k + 1) * tick" for k
    using mult_right_mono [of 1 "of_int (max 0 spread + int k + 1)" tick] assms(2) by simp
  have cross: "sv_price (fst (lev i)) < sv_price (snd (lev j))" for i j
    unfolding pr using py_round4_bounds(2) [of "mid - of_int (max 0 spread + int i + 1) * tick"]
      py_round4_bounds(1) [of "mid + of_int (max 0 spread + int j + 1) * tick"] one [of i] one [of j] assms(2) by linarith
  have sorted: "sorted_wrt (\<ge>) (map sv_price bids)" "sorted_wrt (\<le>) (map sv_price asks)"
    using gap by (auto simp: bk sorted_wrt_iff_nth_less pr intro!: py_round_mono)
  have pos: "1 \<le> sv_quantity l \<and> 1 \<le> sv_orders l" if "l \<in> set bids \<union> set asks" for l
    using that by (auto simp: bk lev_def depth_level_at_def Let_def)
  have sums: "(\<Sum>l\<leftarrow>bids. sv_quantity l) - (\<Sum>l\<leftarrow>asks. sv_quantity l) = 2 * (\<Sum>k\<leftarrow>[0..<n]. lean k)"
    "(\<Sum>l\<leftarrow>bids. sv_quantity l) + (\<Sum>l\<leftarrow>asks. sv_quantity l) = 2 * (\<Sum>k\<leftarrow>[0..<n]. base k)"
    by (simp_all add: bk comp_def q sum_list_addf sum_list_subtractf)
  have one_lean: "\<bar>of_int (lean k) :: real\<bar> \<le> of_int (base k) * \<bar>imb\<bar>" "0 \<le> lean k * (if 0 \<le> imb then 1 else - 1)" for k
    using py_int_lean(1,4) [of "base k" imb] imb_le level_base_pos by (simp_all add: lean_def base_def less_imp_le)
  have size: "\<bar>of_int (\<Sum>k\<leftarrow>ks. lean k) :: real\<bar> \<le> of_int (\<Sum>k\<leftarrow>ks. base k) * \<bar>imb\<bar>" for ks
  proof (induction ks)
    case (Cons k ks)
    have "\<bar>of_int (\<Sum>k\<leftarrow>k # ks. lean k) :: real\<bar> \<le> \<bar>of_int (lean k)\<bar> + \<bar>of_int (\<Sum>k\<leftarrow>ks. lean k)\<bar>" by simp
    also have "\<dots> \<le> of_int (base k) * \<bar>imb\<bar> + of_int (\<Sum>k\<leftarrow>ks. base k) * \<bar>imb\<bar>" by (rule add_mono [OF one_lean(1) Cons])
    finally show ?case by (simp add: distrib_right)
  qed simp
  have sign: "0 \<le> (\<Sum>k\<leftarrow>ks. lean k) * (if 0 \<le> imb then 1 else - 1)" for ks
  proof (induction ks)
    case (Cons k ks)
    then show ?case using one_lean(2) [of k] by (simp only: list.map sum_list.Cons distrib_right add_nonneg_nonneg)
  qed simp
  have lean_le: "of_int \<bar>2 * (\<Sum>k\<leftarrow>[0..<n]. lean k)\<bar> \<le> of_int (2 * (\<Sum>k\<leftarrow>[0..<n]. base k)) * \<bar>imb\<bar>"
    using size [of "[0..<n]"] by (simp add: abs_mult)
  have sign2: "0 \<le> 2 * (\<Sum>k\<leftarrow>[0..<n]. lean k) * (if 0 \<le> imbalance then 1 else - 1)"
    using sign [of "[0..<n]"] imb(2) by (cases "0 \<le> imb") simp_all
  have len: "length bids = nat (max 1 (min 20 levels))" "length asks = length bids" by (simp_all add: bk n_def)
  have sep: "\<forall>b \<in> set bids. \<forall>a \<in> set asks. sv_price b < sv_price a" using cross by (auto simp: bk)
  show ?thesis unfolding Let_def sums imb(1) [symmetric] using len sorted sep pos lean_le sign2 by blast
qed

section \<open>Witnesses\<close>

definition sample_rng :: tick_rng where
  "sample_rng = \<lparr>rg_hi = 2, rg_lo = (\<lambda>k. int (k mod 4) + 1), rg_noise = (\<lambda>i. 0)\<rparr>"

lemma sample_draws: "1 \<le> v \<Longrightarrow> v < 5 \<Longrightarrow> \<exists>k. rg_lo sample_rng k = v"
  by (intro exI [of _ "nat (v - 1)"]) (simp add: sample_rng_def nat_less_iff)

theorem anchor_search_ends_witness:
  "\<exists>tks. synthesize_1m_ticks (naive 0) 100 104 98 102 12 6 sample_rng = Some (Inr tks)"
  by (rule anchor_search_ends) (auto simp: sample_draws, simp_all add: sample_rng_def)

theorem tick_invariants_witness:
  "\<exists>tks. synthesize_1m_ticks (naive 0) 100 104 98 102 12 6 sample_rng = Some (Inr tks) \<and>
     dt_wall (sk_ts (tks ! 1)) = US \<and> sk_price (hd tks) = 100 \<and> (\<Sum>k\<leftarrow>tks. sk_quantity k) = 12"
proof -
  have g: "min_gap 6 = 1" by (simp add: min_gap_def MIN_ANCHOR_GAP_def)
  obtain tks where t: "synthesize_1m_ticks (naive 0) 100 104 98 102 12 6 sample_rng = Some (Inr tks)"
    by (simp add: synthesize_1m_ticks_def g sample_rng_def pick_lo.simps)
  have "py_round 2 104 = 104" "py_round 2 98 = 98" using py_round_of_int [of 2 104] py_round_of_int [of 2 98] by simp_all
  then have "map sk_ts tks = map (\<lambda>i. (naive 0)\<lparr>dt_wall := dt_wall (naive 0) + int i * US\<rparr>) [0..<6] \<and>
      sk_price (hd tks) = 100 \<and> (\<Sum>k\<leftarrow>tks. sk_quantity k) = 12"
    using tick_invariants [OF t] by (auto simp: sample_rng_def)
  moreover from this have "sk_ts (tks ! 1) = (naive 0)\<lparr>dt_wall := US\<rparr>"
    by (cases tks; cases "tl tks") (auto simp: upt_rec naive_def)
  ultimately show ?thesis using t by auto
qed

theorem depth_book_leans_witness:
  "\<exists>bids asks. synthesize_depth 100 (5 / 100) 5 (1 / 2) 1 100 \<lparr>dg_jitter = (\<lambda>k. 0), dg_orders = (\<lambda>k. 3)\<rparr> = Inr (bids, asks) \<and>
     length bids = 5 \<and> sv_price (hd bids) < sv_price (hd asks)"
proof -
  obtain bids asks where b:
    "synthesize_depth 100 (5 / 100) 5 (1 / 2) 1 100 \<lparr>dg_jitter = (\<lambda>k. 0), dg_orders = (\<lambda>k. 3)\<rparr> = Inr (bids, asks)"
    by (simp add: synthesize_depth_def Let_def)
  then have n: "length bids = 5" "length asks = 5" using depth_book_leans [OF b] by simp_all
  then have "hd bids \<in> set bids" "hd asks \<in> set asks" by (auto intro!: hd_in_set)
  then show ?thesis using depth_book_leans [OF b] b n by auto
qed

end
