(* ===== verification/Backtest.thy ===== *)
theory Backtest
  imports Kernel Gate SimFeed
begin

text \<open>
  \<open>ntrade/backtest/simulator.py\<close>: the kernel of \<open>Kernel\<close> run over historical bars, with the bar-aware execution
  target, the simulated order book, futures carry and the report.

  The handlers are those of the kernel, with the order engine submitting to \<open>bar_submit\<close> and the simulator's own recorder of
  fills after them. \<open>contracts sy\<close> is \<open>None\<close> when the instrument of that symbol is not a future, otherwise its
  expiry, if it has one. The frame is a list of complete rows; an empty frame is the empty list. The draws of the seeded
  random generator are the same for every bar.

  The engine table is an instance of \<open>engine_table\<close>, so every run ends, and of \<open>engine_safety\<close> for the recorder of fills. The
  lemmas show further that the report has one equity point per bar, that its drawdown is the one the paper gate reports,
  that a second run on the same simulator reports the fills of the first as well, and that carry
  credited to a short position is counted as a cost.
\<close>

section \<open>The kernel with a bar\<close>

record 'st bt =
  bt_kernel :: "'st kernel"
  bt_bar :: "bar option"
  bt_fills :: "order_filled list"

datatype bt_handler = OfKernel handler | RecordFill

fun bt_op ::
  "'st hooks \<Rightarrow> (ohlcv_row list \<Rightarrow> metadata) \<Rightarrow> bt_handler \<Rightarrow> msg \<Rightarrow> 'st bt \<Rightarrow> bool \<times> 'st bt \<times> msg list" where
  "bt_op hk compute (OfKernel h) m s =
     (if h = OrderOnApproved
      then (case m of
              SignalApprovedEvent e \<Rightarrow>
                (case on_signal_approved (bar_submit (bt_bar s) (kn_instruments (bt_kernel s))) e (kn_orders (bt_kernel s)) of
                   (oe, ms) \<Rightarrow> (False, s\<lparr>bt_kernel := (bt_kernel s)\<lparr>kn_orders := oe\<rparr>\<rparr>, ms))
            | _ \<Rightarrow> (False, s, []))
      else (case kernel_op hk compute h m (bt_kernel s) of (raised, k, ms) \<Rightarrow> (raised, s\<lparr>bt_kernel := k\<rparr>, ms)))"
| "bt_op hk compute RecordFill m s =
     (case m of OrderFilledEvent e \<Rightarrow> (False, s\<lparr>bt_fills := bt_fills s @ [e]\<rparr>, []) | _ \<Rightarrow> (False, s, []))"

definition bt_subscriptions :: "bool \<Rightarrow> nat \<Rightarrow> (etype \<times> bt_handler) list" where
  "bt_subscriptions recording n = map (\<lambda>(t, h). (t, OfKernel h)) (subscriptions recording n) @ [(TFilled, RecordFill)]"

definition bt_bus :: "'st bt \<Rightarrow> (bt_handler, 'st bt) bus" where
  "bt_bus s =
     fold (\<lambda>(t, h). subscribe t h) (bt_subscriptions (kn_store (bt_kernel s) \<noteq> None) (length (kn_strategies (bt_kernel s))))
       (new_bus 10000 (Some 100) s)"

definition bt_publish ::
  "'st hooks \<Rightarrow> (ohlcv_row list \<Rightarrow> metadata) \<Rightarrow> (nat \<Rightarrow> string) \<Rightarrow> msg \<Rightarrow> (bt_handler, 'st bt) bus \<Rightarrow>
   (bt_handler, 'st bt) bus option" where
  "bt_publish hk compute uuid m b =
     publish (engine_run (bt_op hk compute) uuid) uuid kernel_fuel (new_event uuid (next_id b) m) (b\<lparr>next_id := Suc (next_id b)\<rparr>)"

definition bt_publish_all ::
  "'st hooks \<Rightarrow> (ohlcv_row list \<Rightarrow> metadata) \<Rightarrow> (nat \<Rightarrow> string) \<Rightarrow> msg list \<Rightarrow> (bt_handler, 'st bt) bus \<Rightarrow>
   (bt_handler, 'st bt) bus option" where
  "bt_publish_all hk compute uuid ms b = foldl (\<lambda>ob m. Option.bind ob (bt_publish hk compute uuid m)) (Some b) ms"

definition on_kernel :: "('st kernel \<Rightarrow> 'st kernel) \<Rightarrow> (bt_handler, 'st bt) bus \<Rightarrow> (bt_handler, 'st bt) bus" where
  "on_kernel f b = b\<lparr>app := (app b)\<lparr>bt_kernel := f (bt_kernel (app b))\<rparr>\<rparr>"

definition bt_flush_one where
  "bt_flush_one hk compute uuid sy b =
     (case flush_one sy (kn_candles (bt_kernel (app b))) of
        (c, ms) \<Rightarrow> bt_publish_all hk compute uuid ms (on_kernel (\<lambda>k. k\<lparr>kn_candles := c\<rparr>) b))"

definition bt_stop where
  "bt_stop hk compute uuid reason b =
     Option.bind (foldl (\<lambda>ob sy. Option.bind ob (bt_flush_one hk compute uuid sy)) (Some b)
                    (keys (ce_open (kn_candles (bt_kernel (app b))))))
       (\<lambda>b. bt_publish hk compute uuid
              (SessionStoppedEvent (kn_now (bt_kernel (app b))) (kn_session_id (bt_kernel (app b))) reason) b)"

section \<open>Configuration and accumulators\<close>

record bt_config =
  bc_symbol :: string
  bc_exchange :: string
  bc_initial_cash :: real
  bc_futures :: "carry_costs option"
  bc_contracts :: "string \<Rightarrow> int option option"
  bc_depth_levels :: int
  bc_depth_imbalance :: real
  bc_depth_mode :: string
  bc_depth_tick :: real
  bc_depth_rng :: depth_rng

record bt_row =
  rw_ts :: datetime
  rw_open :: real
  rw_high :: real
  rw_low :: real
  rw_close :: real
  rw_volume :: "int option"

record bt_acc =
  ba_curve :: "(datetime \<times> real) list"
  ba_last_carry :: "int option"
  ba_rolled :: "string list"
  ba_futures_total :: real
  ba_depth_events :: nat

definition fresh_acc :: "nat \<Rightarrow> bt_acc" where
  "fresh_acc n = \<lparr>ba_curve = [], ba_last_carry = None, ba_rolled = [], ba_futures_total = 0, ba_depth_events = n\<rparr>"

section \<open>Futures costs\<close>

definition deduct_futures :: "real \<Rightarrow> bt_acc \<times> ledger \<Rightarrow> bt_acc \<times> ledger" where
  "deduct_futures amount st =
     (case st of (a, led) \<Rightarrow>
        if amount = 0 then (a, led)
        else (a\<lparr>ba_futures_total := py_round 4 (ba_futures_total a + \<bar>amount\<bar>)\<rparr>, led\<lparr>balance := py_round 4 (balance led - amount)\<rparr>))"

definition futures_notional :: "position \<Rightarrow> real" where
  "futures_notional p = num_or (ps_avg_price p) (ps_ltp p) * of_int \<bar>ps_quantity p\<bar>"

definition charge_roll :: "carry_costs \<Rightarrow> int option \<Rightarrow> int \<Rightarrow> position \<Rightarrow> bt_acc \<times> ledger \<Rightarrow> bt_acc \<times> ledger" where
  "charge_roll fc expiry today p st =
     (case expiry of
        None \<Rightarrow> st
      | Some ex \<Rightarrow>
          if ex < today \<and> ps_symbol p \<notin> set (ba_rolled (fst st))
          then deduct_futures (roll_cost fc (futures_notional p))
                 ((fst st)\<lparr>ba_rolled := ba_rolled (fst st) @ [ps_symbol p]\<rparr>, snd st)
          else st)"

definition charge_carry :: "carry_costs \<Rightarrow> int option \<Rightarrow> int \<Rightarrow> position \<Rightarrow> bt_acc \<times> ledger \<Rightarrow> bt_acc \<times> ledger" where
  "charge_carry fc expiry today p st =
     (case ba_last_carry (fst st) of
        None \<Rightarrow> st
      | Some d \<Rightarrow>
          if d < today \<and> within_window fc expiry (OnDate today) = Inr True
          then (let carry = daily_carry fc (futures_notional p) (today - d)
                in deduct_futures (if ps_quantity p < 0 then - carry else carry) st)
          else st)"

definition charge_position ::
  "carry_costs \<Rightarrow> (string \<Rightarrow> int option option) \<Rightarrow> int \<Rightarrow> position \<Rightarrow> bt_acc \<times> ledger \<Rightarrow> bt_acc \<times> ledger" where
  "charge_position fc contracts today p st =
     (case contracts (ps_symbol p) of
        None \<Rightarrow> st
      | Some expiry \<Rightarrow> charge_carry fc expiry today p (charge_roll fc expiry today p st))"

definition apply_futures_costs :: "bt_config \<Rightarrow> datetime \<Rightarrow> bt_acc \<times> ledger \<Rightarrow> bt_acc \<times> ledger" where
  "apply_futures_costs cfg t st =
     (case bc_futures cfg of
        None \<Rightarrow> st
      | Some fc \<Rightarrow>
          (let st = fold (charge_position fc (bc_contracts cfg) (date_of t)) (positions (snd st)) st
           in ((fst st)\<lparr>ba_last_carry := Some (date_of t)\<rparr>, snd st)))"

definition mark_to_market :: "string \<Rightarrow> real \<Rightarrow> ledger \<Rightarrow> ledger \<times> real" where
  "mark_to_market sy close led =
     (let led = led\<lparr>positions := update_position sy (\<lambda>p. p\<lparr>ps_ltp := close\<rparr>) (positions led)\<rparr>;
          value = (case find_position (positions led) sy of None \<Rightarrow> 0 | Some p \<Rightarrow> of_int (ps_quantity p) * close)
      in (led, py_round 2 (balance led + value)))"

section \<open>One bar\<close>

definition volume_of :: "bt_row \<Rightarrow> int" where
  "volume_of r = (case rw_volume r of None \<Rightarrow> 0 | Some v \<Rightarrow> v)"

definition quote_of_row :: "bt_config \<Rightarrow> bt_row \<Rightarrow> msg" where
  "quote_of_row cfg r =
     QuoteEvent \<lparr>ts = rw_ts r, qe_symbol = bc_symbol cfg, qe_exchange = bc_exchange cfg, qe_ltp = rw_close r, qe_bid = 0,
       qe_ask = 0, qe_open = rw_open r, qe_high = rw_high r, qe_low = rw_low r, qe_prev_close = 0, qe_volume = volume_of r,
       qe_oi = 0\<rparr>"

definition tick_of_row :: "bt_config \<Rightarrow> bt_row \<Rightarrow> msg" where
  "tick_of_row cfg r =
     TickEvent \<lparr>ts = rw_ts r, tk_symbol = bc_symbol cfg, tk_exchange = bc_exchange cfg, tk_price = rw_close r,
       tk_quantity = volume_of r, tk_side = [], tk_kind = ''trade''\<rparr>"

definition depth_of_row :: "bt_config \<Rightarrow> bt_row \<Rightarrow> py_error + msg list" where
  "depth_of_row cfg r =
     (if bc_depth_levels cfg \<le> 0 then Inr []
      else (let imbalance = (if bc_depth_mode cfg = ''bar''
                             then bar_imbalance (rw_open r) (rw_close r) (num_or \<bar>bc_depth_imbalance cfg\<bar> (1 / 2))
                             else bc_depth_imbalance cfg)
            in map_sum id (\<lambda>book. case depth_to_wire book of (bids, asks) \<Rightarrow>
                   [DepthEvent \<lparr>ts = rw_ts r, de_symbol = bc_symbol cfg, de_exchange = bc_exchange cfg, de_bids = bids, de_asks = asks\<rparr>])
                 (synthesize_depth (rw_close r) (bc_depth_tick cfg) (bc_depth_levels cfg) imbalance 1 100 (bc_depth_rng cfg))))"

text \<open>The end of a bar: costs, breakers, the point of the curve.\<close>

definition close_bar where
  "close_bar hk compute uuid cfg r ab =
     (case ab of (a, b) \<Rightarrow>
        case apply_futures_costs cfg (rw_ts r) (a, kn_ledger (bt_kernel (app b))) of
          (a, led) \<Rightarrow>
            (let b = on_kernel (\<lambda>k. k\<lparr>kn_ledger := led\<rparr>) b
             in case risk_check (kernel_risk_ctx (bt_kernel (app b))) (kn_risk (bt_kernel (app b))) of
                  (_, risk, ms) \<Rightarrow>
                    map_option
                      (\<lambda>b. case mark_to_market (bc_symbol cfg) (rw_close r) (kn_ledger (bt_kernel (app b))) of
                              (led, eq) \<Rightarrow> (a\<lparr>ba_curve := ba_curve a @ [(rw_ts r, eq)]\<rparr>, on_kernel (\<lambda>k. k\<lparr>kn_ledger := led\<rparr>) b))
                      (bt_publish_all hk compute uuid ms (on_kernel (\<lambda>k. k\<lparr>kn_risk := risk\<rparr>) b))))"

definition bt_row_step where
  "bt_row_step hk compute uuid cfg r ab =
     (case ab of (a, b) \<Rightarrow>
        (let cur = \<lparr>b_open = rw_open r, b_high = rw_high r, b_low = rw_low r, b_close = rw_close r\<rparr>;
             b = on_kernel (\<lambda>k. k\<lparr>kn_now := rw_ts r\<rparr>) (b\<lparr>app := (app b)\<lparr>bt_bar := Some cur\<rparr>\<rparr>)
         in Option.bind (bt_publish_all hk compute uuid [quote_of_row cfg r, tick_of_row cfg r] b)
              (\<lambda>b. case depth_of_row cfg r of
                      Inl e \<Rightarrow> Some (Inl e)
                    | Inr ms \<Rightarrow>
                        Option.bind (bt_publish_all hk compute uuid ms b)
                          (\<lambda>b. Option.bind (bt_flush_one hk compute uuid (bc_symbol cfg) b)
                                 (\<lambda>b. map_option Inr (close_bar hk compute uuid cfg r
                                        (a\<lparr>ba_depth_events := ba_depth_events a + length ms\<rparr>, b)))))))"

fun bt_rows where
  "bt_rows hk compute uuid cfg [] ab = Some (Inr ab)"
| "bt_rows hk compute uuid cfg (r # rs) ab =
     (case bt_row_step hk compute uuid cfg r ab of
        None \<Rightarrow> None
      | Some (Inl e) \<Rightarrow> Some (Inl e)
      | Some (Inr ab) \<Rightarrow> bt_rows hk compute uuid cfg rs ab)"

section \<open>Results\<close>

record bt_result =
  br_final_equity :: real
  br_total_return :: real
  br_trades :: "order_filled list"
  br_curve :: "(datetime \<times> real) list"
  br_n_trades :: nat
  br_commissions :: real
  br_statutory :: real
  br_futures :: real
  br_max_drawdown :: real

definition costs_total :: "bt_result \<Rightarrow> real" where
  "costs_total r = py_round 4 (br_commissions r + br_statutory r + br_futures r)"

text \<open>\<open>cummax()\<close> of the equity column.\<close>

fun cummax :: "real \<Rightarrow> real list \<Rightarrow> real list" where
  "cummax m [] = []"
| "cummax m (x # xs) = max m x # cummax (max m x) xs"

definition peaks :: "real list \<Rightarrow> real list" where
  "peaks xs = (case xs of [] \<Rightarrow> [] | x # ys \<Rightarrow> x # cummax x ys)"

definition max_drawdown_pct :: "real list \<Rightarrow> real" where
  "max_drawdown_pct xs =
     (if xs = [] then 0
      else py_round 4 (\<bar>Min (set (map2 (\<lambda>peak eq. (eq - peak) / peak) (peaks xs) xs))\<bar> * 100))"

definition bt_results :: "bt_config \<Rightarrow> bt_acc \<Rightarrow> order_filled list \<Rightarrow> bt_result" where
  "bt_results cfg a fs =
     (let equity = map snd (ba_curve a); final = (if equity = [] then bc_initial_cash cfg else last equity)
      in \<lparr>br_final_equity = py_round 2 final,
          br_total_return = py_round 2 ((final - bc_initial_cash cfg) / bc_initial_cash cfg * 100),
          br_trades = fs, br_curve = ba_curve a, br_n_trades = length fs,
          br_commissions = py_round 4 (\<Sum>f\<leftarrow>fs. of_commission f), br_statutory = py_round 4 (\<Sum>f\<leftarrow>fs. of_statutory f),
          br_futures = ba_futures_total a, br_max_drawdown = max_drawdown_pct equity\<rparr>)"

text \<open>\<open>run(data)\<close>, from a simulator whose recorder may hold fills of an earlier run.\<close>

definition bt_run where
  "bt_run hk compute uuid cfg rows published b =
     (if rows = [] then Some (Inl (ValueError ''data must be a non-empty OHLCV frame''))
      else (case bt_rows hk compute uuid cfg rows (fresh_acc published, b) of
              None \<Rightarrow> None
            | Some (Inl e) \<Rightarrow> Some (Inl e)
            | Some (Inr (a, b)) \<Rightarrow>
                map_option (\<lambda>b. Inr (bt_results cfg a (bt_fills (app b)), b)) (bt_stop hk compute uuid ''backtest complete'' b)))"

section \<open>The engine table\<close>

lemma bt_op_descends:
  assumes "bt_op hk compute h m s = (raised, s', ms)" and "m' \<in> set ms" and "account_silent hk"
  shows "event_rank (msg_type m') < event_rank (msg_type m)"
proof (cases h)
  case (OfKernel k)
  show ?thesis
  proof (cases "k = OrderOnApproved")
    case True
    then obtain e where m: "m = SignalApprovedEvent e" using assms OfKernel by (cases m) simp_all
    obtain oe where "on_signal_approved (bar_submit (bt_bar s) (kn_instruments (bt_kernel s))) e (kn_orders (bt_kernel s)) = (oe, ms)"
      using assms(1) OfKernel True m by (auto split: prod.splits)
    from bar_aware.engine_answers [OF this] assms(2) show ?thesis by (auto simp: m)
  next
    case False
    obtain k' where "kernel_op hk compute k m (bt_kernel s) = (raised, k', ms)"
      using assms(1) OfKernel False by (auto split: prod.splits)
    then show ?thesis using assms(2,3) by (rule kernel_op_descends)
  qed
next
  case RecordFill
  then show ?thesis using assms by (cases m) simp_all
qed

interpretation bt_table: engine_table "bt_op (silenced hk) compute" event_rank
  for hk :: "'st hooks" and compute :: "ohlcv_row list \<Rightarrow> metadata"
  by unfold_locales (rule bt_op_descends [OF _ _ account_silent_silenced])

text \<open>The order of subscription keeps every handler of the kernel; the recorder never loses a fill it has.\<close>

definition recorded :: "order_filled list \<Rightarrow> 'st bt \<Rightarrow> bool" where
  "recorded fs s \<longleftrightarrow> take (length fs) (bt_fills s) = fs"

lemma take_prefix_append: "take (length fs) xs = fs \<Longrightarrow> take (length fs) (xs @ ys) = fs"
  by (metis append_take_drop_id append.assoc append_eq_conv_conj)

lemma bt_op_recorded:
  assumes "recorded fs s" and "bt_op hk compute h m s = (raised, s', ms)"
  shows "recorded fs s'"
proof (cases h)
  case (OfKernel k)
  then show ?thesis using assms
    by (cases "k = OrderOnApproved"; cases m) (auto simp: recorded_def split: prod.splits)
next
  case RecordFill
  then show ?thesis using assms by (cases m) (auto simp: recorded_def dest: take_prefix_append simp del: take_append)
qed

interpretation bt_recorder: engine_safety "bt_op hk compute" "recorded fs" "\<lambda>_. True"
  for hk :: "'st hooks" and compute :: "ohlcv_row list \<Rightarrow> metadata" and fs :: "order_filled list"
  by unfold_locales (auto intro: bt_op_recorded simp: list_all_iff)

section \<open>Every step ends\<close>

lemma bt_publish_some: "account_silent hk \<Longrightarrow> \<exists>b'. bt_publish hk compute uuid m b = Some b'"
proof -
  assume silent: "account_silent hk"
  have "event_rank (msg_type (payload (new_event uuid (next_id b) m))) + (if False then 0 else Suc (event_rank THalted)) < kernel_fuel"
    using event_rank_le [of "msg_type (payload (new_event uuid (next_id b) m))"] by (simp add: kernel_fuel_def)
  from bt_table.publish_total [OF this, where hk = hk] show ?thesis
    unfolding bt_publish_def silenced_id [OF silent] by blast
qed

lemma bt_publish_all_some: "account_silent hk \<Longrightarrow> \<exists>b'. bt_publish_all hk compute uuid ms b = Some b'"
  unfolding bt_publish_all_def by (rule foldl_bind_some) (rule bt_publish_some)

lemma bt_flush_one_some: "account_silent hk \<Longrightarrow> \<exists>b'. bt_flush_one hk compute uuid sy b = Some b'"
  by (cases "flush_one sy (kn_candles (bt_kernel (app b)))") (simp add: bt_flush_one_def bt_publish_all_some)

lemma bt_stop_some:
  assumes "account_silent hk"
  shows "\<exists>b'. bt_stop hk compute uuid reason b = Some b'"
proof -
  obtain b1 where "foldl (\<lambda>ob sy. Option.bind ob (bt_flush_one hk compute uuid sy)) (Some b)
      (keys (ce_open (kn_candles (bt_kernel (app b))))) = Some b1"
    using foldl_bind_some [of "bt_flush_one hk compute uuid", OF bt_flush_one_some [OF assms]] by blast
  then show ?thesis using bt_publish_some [OF assms] by (simp add: bt_stop_def)
qed

lemma close_bar_some:
  assumes "account_silent hk"
  shows "\<exists>a' b'. close_bar hk compute uuid cfg r (a, b) = Some (a', b') \<and>
     map fst (ba_curve a') = map fst (ba_curve a) @ [rw_ts r]"
proof -
  obtain a1 led where f: "apply_futures_costs cfg (rw_ts r) (a, kn_ledger (bt_kernel (app b))) = (a1, led)"
    by (cases "apply_futures_costs cfg (rw_ts r) (a, kn_ledger (bt_kernel (app b)))")
  have ded: "ba_curve (fst (deduct_futures x st)) = ba_curve (fst st)" for x st
    by (cases st) (simp add: deduct_futures_def)
  have "ba_curve (fst (charge_position fc con d p st)) = ba_curve (fst st)" for fc con d p st
    by (auto simp: charge_position_def charge_carry_def charge_roll_def ded Let_def split: option.split)
  then have "ba_curve (fst (fold (charge_position fc con d) ps st)) = ba_curve (fst st)" for fc con d ps st
    by (induction ps arbitrary: st) simp_all
  then have "ba_curve (fst (apply_futures_costs cfg (rw_ts r) (a, kn_ledger (bt_kernel (app b))))) = ba_curve a"
    by (simp add: apply_futures_costs_def Let_def split: option.split)
  then have curve: "ba_curve a1 = ba_curve a" by (simp add: f)
  let ?b = "on_kernel (\<lambda>k. k\<lparr>kn_ledger := led\<rparr>) b"
  obtain o1 risk ms where c: "risk_check (kernel_risk_ctx (bt_kernel (app ?b))) (kn_risk (bt_kernel (app ?b))) = (o1, risk, ms)"
    by (metis prod_cases3)
  obtain b2 where "bt_publish_all hk compute uuid ms (on_kernel (\<lambda>k. k\<lparr>kn_risk := risk\<rparr>) ?b) = Some b2"
    using bt_publish_all_some [OF assms] by blast
  then show ?thesis using c by (auto simp: close_bar_def f Let_def curve split: prod.splits)
qed

lemma bt_row_step_ends:
  assumes "account_silent hk"
  shows "case depth_of_row cfg r of
     Inl e \<Rightarrow> bt_row_step hk compute uuid cfg r (a, b) = Some (Inl e)
   | Inr ms \<Rightarrow> (\<exists>a' b'. bt_row_step hk compute uuid cfg r (a, b) = Some (Inr (a', b')) \<and>
                  map fst (ba_curve a') = map fst (ba_curve a) @ [rw_ts r])"
proof -
  let ?b = "on_kernel (\<lambda>k. k\<lparr>kn_now := rw_ts r\<rparr>) (b\<lparr>app := (app b)\<lparr>bt_bar :=
     Some \<lparr>b_open = rw_open r, b_high = rw_high r, b_low = rw_low r, b_close = rw_close r\<rparr>\<rparr>\<rparr>)"
  obtain b1 where b1: "bt_publish_all hk compute uuid [quote_of_row cfg r, tick_of_row cfg r] ?b = Some b1"
    using bt_publish_all_some [OF assms] by blast
  show ?thesis
  proof (cases "depth_of_row cfg r")
    case (Inl e)
    then show ?thesis using b1 by (simp add: bt_row_step_def Let_def)
  next
    case (Inr ms)
    obtain b2 where b2: "bt_publish_all hk compute uuid ms b1 = Some b2" using bt_publish_all_some [OF assms] by blast
    obtain b3 where b3: "bt_flush_one hk compute uuid (bc_symbol cfg) b2 = Some b3" using bt_flush_one_some [OF assms] by blast
    show ?thesis using b1 b2 b3 Inr close_bar_some [OF assms, where a = "a\<lparr>ba_depth_events := ba_depth_events a + length ms\<rparr>" and b = b3
          and compute = compute and uuid = uuid and cfg = cfg and r = r]
      by (auto simp: bt_row_step_def Let_def)
  qed
qed

lemma bt_rows_end:
  assumes "\<forall>r \<in> set rs. \<exists>ms. depth_of_row cfg r = Inr ms" and silent: "account_silent hk"
  shows "\<exists>a' b'. bt_rows hk compute uuid cfg rs (a, b) = Some (Inr (a', b')) \<and>
    map fst (ba_curve a') = map fst (ba_curve a) @ map rw_ts rs"
  using assms(1)
proof (induction rs arbitrary: a b)
  case (Cons r rs)
  then obtain ms where "depth_of_row cfg r = Inr ms" by auto
  then obtain a1 b1 where st: "bt_row_step hk compute uuid cfg r (a, b) = Some (Inr (a1, b1))"
    "map fst (ba_curve a1) = map fst (ba_curve a) @ [rw_ts r]"
    using bt_row_step_ends [OF silent, where cfg = cfg and r = r and a = a and b = b and compute = compute and uuid = uuid] by auto
  then show ?case using Cons.IH [of a1 b1] Cons.prems by auto
qed simp

section \<open>The recorder over a run\<close>

lemma on_kernel_recorded [simp]: "recorded fs (app (on_kernel f b)) = recorded fs (app b)"
  by (simp add: on_kernel_def recorded_def)

lemma bt_publish_recorded: "recorded fs (app b) \<Longrightarrow> bt_publish hk compute uuid m b = Some b' \<Longrightarrow> recorded fs (app b')"
proof -
  assume a: "recorded fs (app b)" "bt_publish hk compute uuid m b = Some b'"
  have "pub_keeps (recorded fs) (\<lambda>_. True) (publish (engine_run (bt_op hk compute) uuid) uuid kernel_fuel)"
    by (rule bt_recorder.publish_keeps)
  moreover have "recorded fs (app (b\<lparr>next_id := Suc (next_id b)\<rparr>))" using a(1) by simp
  ultimately show ?thesis using a(2) unfolding pub_keeps_def bt_publish_def by blast
qed

lemma foldl_bind_keeps:
  assumes "\<And>x b b'. ok b \<Longrightarrow> f x b = Some b' \<Longrightarrow> ok b'"
  shows "ok b \<Longrightarrow> foldl (\<lambda>ob x. Option.bind ob (f x)) (Some b) xs = Some b' \<Longrightarrow> ok b'"
proof (induction xs arbitrary: b)
  case (Cons x xs)
  have none: "foldl (\<lambda>ob x. Option.bind ob (f x)) None ys = None" for ys by (induction ys) auto
  obtain b1 where "f x b = Some b1" using Cons.prems(2) none by (cases "f x b") auto
  then show ?case using Cons.IH [of b1] Cons.prems assms by auto
qed simp

lemma bt_publish_all_recorded:
  "recorded fs (app b) \<Longrightarrow> bt_publish_all hk compute uuid ms b = Some b' \<Longrightarrow> recorded fs (app b')"
  unfolding bt_publish_all_def
  by (rule foldl_bind_keeps [where ok = "\<lambda>b. recorded fs (app b)"]) (auto intro: bt_publish_recorded)

lemma bt_flush_one_recorded:
  "recorded fs (app b) \<Longrightarrow> bt_flush_one hk compute uuid sy b = Some b' \<Longrightarrow> recorded fs (app b')"
  by (auto simp: bt_flush_one_def split: prod.splits dest: bt_publish_all_recorded [rotated])

lemma bt_stop_recorded:
  assumes "recorded fs (app b)" "bt_stop hk compute uuid reason b = Some b'"
  shows "recorded fs (app b')"
proof -
  obtain b1 where b1: "foldl (\<lambda>ob sy. Option.bind ob (bt_flush_one hk compute uuid sy)) (Some b)
      (keys (ce_open (kn_candles (bt_kernel (app b))))) = Some b1"
    and p: "bt_publish hk compute uuid
      (SessionStoppedEvent (kn_now (bt_kernel (app b1))) (kn_session_id (bt_kernel (app b1))) reason) b1 = Some b'"
    using assms(2) by (auto simp: bt_stop_def bind_eq_Some_conv)
  have "recorded fs (app b1)"
    using foldl_bind_keeps [where ok = "\<lambda>b. recorded fs (app b)", OF _ assms(1) b1] bt_flush_one_recorded by blast
  then show ?thesis using p by (rule bt_publish_recorded)
qed

lemma close_bar_recorded:
  assumes "recorded fs (app b)" "close_bar hk compute uuid cfg r (a, b) = Some (a', b')"
  shows "recorded fs (app b')"
proof -
  let ?st = "apply_futures_costs cfg (rw_ts r) (a, kn_ledger (bt_kernel (app b)))"
  let ?b = "on_kernel (\<lambda>k. k\<lparr>kn_ledger := snd ?st\<rparr>) b"
  let ?c = "risk_check (kernel_risk_ctx (bt_kernel (app ?b))) (kn_risk (bt_kernel (app ?b)))"
  obtain b2 where b2: "bt_publish_all hk compute uuid (snd (snd ?c)) (on_kernel (\<lambda>k. k\<lparr>kn_risk := fst (snd ?c)\<rparr>) ?b) = Some b2"
    and b': "\<exists>led. b' = on_kernel (\<lambda>k. k\<lparr>kn_ledger := led\<rparr>) b2"
    using assms(2) by (auto simp: close_bar_def Let_def case_prod_beta)
  have "recorded fs (app b2)" by (rule bt_publish_all_recorded [OF _ b2]) (simp add: assms(1))
  then show ?thesis using b' by auto
qed

lemma bt_row_step_recorded:
  assumes "recorded fs (app b)" "bt_row_step hk compute uuid cfg r (a, b) = Some (Inr (a', b'))"
  shows "recorded fs (app b')"
proof -
  let ?b = "on_kernel (\<lambda>k. k\<lparr>kn_now := rw_ts r\<rparr>) (b\<lparr>app := (app b)\<lparr>bt_bar :=
     Some \<lparr>b_open = rw_open r, b_high = rw_high r, b_low = rw_low r, b_close = rw_close r\<rparr>\<rparr>\<rparr>)"
  have ok: "recorded fs (app ?b)" using assms(1) by (simp add: on_kernel_def recorded_def)
  obtain b1 where b1: "bt_publish_all hk compute uuid [quote_of_row cfg r, tick_of_row cfg r] ?b = Some b1"
    using assms(2) unfolding bt_row_step_def Let_def by (auto simp: bind_eq_Some_conv)
  then obtain ms where "depth_of_row cfg r = Inr ms"
    using assms(2) unfolding bt_row_step_def Let_def by (auto split: sum.splits)
  then obtain b2 b3 x where "bt_publish_all hk compute uuid [quote_of_row cfg r, tick_of_row cfg r] ?b = Some b1"
    "bt_publish_all hk compute uuid ms b1 = Some b2" "bt_flush_one hk compute uuid (bc_symbol cfg) b2 = Some b3"
    "close_bar hk compute uuid cfg r (x, b3) = Some (a', b')"
    using assms(2) b1 unfolding bt_row_step_def Let_def by (auto simp: bind_eq_Some_conv)
  then show ?thesis
    using ok bt_publish_all_recorded bt_flush_one_recorded close_bar_recorded by metis
qed

lemma bt_rows_recorded:
  "recorded fs (app b) \<Longrightarrow> bt_rows hk compute uuid cfg rs (a, b) = Some (Inr (a', b')) \<Longrightarrow> recorded fs (app b')"
proof (induction rs arbitrary: a b)
  case (Cons r rs)
  then obtain a1 b1 where "bt_row_step hk compute uuid cfg r (a, b) = Some (Inr (a1, b1))"
    "bt_rows hk compute uuid cfg rs (a1, b1) = Some (Inr (a', b'))"
    by (auto split: option.splits sum.splits)
  then show ?case using Cons.IH [of b1 a1] bt_row_step_recorded Cons.prems(1) by blast
qed simp

section \<open>Drawdown\<close>

lemma cummax_facts:
  "length (cummax m xs) = length xs"
  "i < length xs \<Longrightarrow> m \<le> cummax m xs ! i \<and> xs ! i \<le> cummax m xs ! i"
proof (induction xs arbitrary: m i)
  case (Cons x xs)
  { case 1 show ?case using Cons.IH(1) by simp }
  { case 2 then show ?case using Cons.IH(2) [of "i - 1" "max m x"] by (cases i) auto }
qed simp_all

lemma peaks_facts:
  assumes "xs \<noteq> []"
  shows "length (peaks xs) = length xs" "i < length xs \<Longrightarrow> hd xs \<le> peaks xs ! i \<and> xs ! i \<le> peaks xs ! i"
  using assms by (cases xs; cases i; auto simp: peaks_def cummax_facts)+

lemma Max_insert_max: "finite S \<Longrightarrow> Max (insert (max a b) S) = Max (insert a (insert b (S :: real set)))"
  by (cases "S = {}") (simp_all add: max.assoc)

lemma worst_drawdown_Max:
  assumes "\<forall>p \<in> set tr. (0::real) < fst p"
  shows "fold (\<lambda>(peak, eq) d. if peak > 0 then max d ((peak - eq) / peak * 100) else d) tr d0 =
    Max (insert d0 ((\<lambda>(peak, eq). (peak - eq) / peak * 100) ` set tr))"
  using assms
proof (induction tr arbitrary: d0)
  case (Cons p tr)
  obtain peak eq where p: "p = (peak, eq)" by (cases p)
  show ?case using Cons.IH [of "max d0 ((peak - eq) / peak * 100)"] Cons.prems
    by (simp add: p Max_insert_max)
qed simp

section \<open>Whole runs\<close>

lemma bt_run_reports:
  assumes "bc_depth_levels cfg \<le> 0 \<or> (0 < bc_depth_tick cfg \<and> (\<forall>r \<in> set rows. 0 < rw_close r))" "rows \<noteq> []" "account_silent hk"
  shows "\<exists>res b'. bt_run hk compute uuid cfg rows n b = Some (Inr (res, b')) \<and> map fst (br_curve res) = map rw_ts rows \<and>
    br_n_trades res = length (br_trades res)"
proof -
  have "\<forall>r \<in> set rows. \<exists>ms. depth_of_row cfg r = Inr ms"
    using assms by (auto simp: depth_of_row_def synthesize_depth_def Let_def)
  from bt_rows_end [OF this assms(3), of compute uuid "fresh_acc n" b]
  obtain a1 b1 where r: "bt_rows hk compute uuid cfg rows (fresh_acc n, b) = Some (Inr (a1, b1))"
    "map fst (ba_curve a1) = map rw_ts rows" by (auto simp: fresh_acc_def)
  obtain b2 where "bt_stop hk compute uuid ''backtest complete'' b1 = Some b2" using bt_stop_some [OF assms(3)] by blast
  then show ?thesis using assms(2) r by (auto simp: bt_run_def bt_results_def Let_def)
qed

section \<open>The properties\<close>

text \<open>C13: 
  A backtest ends, for strategies that emit no signal when they are told of a fill, a position or a balance
  (\<open>account_silent\<close>), whatever they do with market events: an empty frame is refused with \<open>ValueError\<close>, and over any other
  frame, when no order book is simulated or it can be (a positive tick and positive closes), the run gives a report with
  one equity point per bar, in the order of the bars.
\<close>

theorem backtest_ends:
  assumes "account_silent hk"
    and "bc_depth_levels cfg \<le> 0 \<or> (0 < bc_depth_tick cfg \<and> (\<forall>r \<in> set rows. 0 < rw_close r))"
  shows "if rows = [] then bt_run hk compute uuid cfg rows n b = Some (Inl (ValueError ''data must be a non-empty OHLCV frame''))
    else (\<exists>res b'. bt_run hk compute uuid cfg rows n b = Some (Inr (res, b')) \<and> map fst (br_curve res) = map rw_ts rows \<and>
            br_n_trades res = length (br_trades res))"
  using bt_run_reports [OF assms(2) _ assms(1)] by (auto simp: bt_run_def)

text \<open>
  The recorder of fills is not reset by a run: whatever the strategies and the bars, the report of a run begins with every
  fill recorded before it, so the trades, the commissions and the statutory charges of an earlier run on the same
  simulator are reported again, although the equity curve and the futures costs start afresh.
\<close>

theorem rerun_reports_old_fills:
  assumes "bt_run hk compute uuid cfg rows n b = Some (Inr (res, b'))"
  shows "take (length (bt_fills (app b))) (br_trades res) = bt_fills (app b) \<and> length (bt_fills (app b)) \<le> br_n_trades res \<and>
    br_commissions res = py_round 4 (\<Sum>f\<leftarrow>br_trades res. of_commission f)"
proof -
  obtain a1 b1 where r: "bt_rows hk compute uuid cfg rows (fresh_acc n, b) = Some (Inr (a1, b1))"
    and s: "bt_stop hk compute uuid ''backtest complete'' b1 = Some b'" and res: "res = bt_results cfg a1 (bt_fills (app b'))"
    using assms by (auto simp: bt_run_def split: if_splits option.splits sum.splits)
  have "recorded (bt_fills (app b)) (app b)" by (simp add: recorded_def)
  from bt_stop_recorded [OF bt_rows_recorded [OF this r] s]
  have t: "take (length (bt_fills (app b))) (bt_fills (app b')) = bt_fills (app b)" by (simp add: recorded_def)
  then have "length (bt_fills (app b)) \<le> length (bt_fills (app b'))" by (metis length_take min.cobounded1 min.commute min_def)
  then show ?thesis using t by (simp add: res bt_results_def Let_def)
qed

text \<open>
  The drawdown of a backtest is the one the paper gate would report: for an equity curve that starts positive, it is the
  worst fall from a running peak, in percent, and lies between 0 and 100 when the equity stays positive.
\<close>

theorem drawdown_agrees_with_gate:
  assumes "xs \<noteq> []" "0 < hd xs"
  shows "max_drawdown_pct xs = py_round 4 (worst_drawdown (zip (peaks xs) xs)) \<and>
    ((\<forall>x \<in> set xs. 0 \<le> x) \<longrightarrow> 0 \<le> max_drawdown_pct xs \<and> max_drawdown_pct xs \<le> 100)"
proof -
  let ?tr = "zip (peaks xs) xs"
  let ?f = "\<lambda>(peak, eq). (peak - eq) / peak * (100::real)"
  have nth: "hd xs \<le> fst p \<and> snd p \<le> fst p \<and> snd p \<in> set xs" if "p \<in> set ?tr" for p
    using that peaks_facts [OF assms(1)] by (auto simp: set_zip)
  then have pos: "\<forall>p \<in> set ?tr. 0 < fst p" using assms(2) by fastforce
  have ne: "set ?tr \<noteq> {}" using assms(1) peaks_facts(1) [OF assms(1)] by (cases xs; cases "peaks xs") auto
  have nonneg: "0 \<le> ?f p" if "p \<in> set ?tr" for p using nth [OF that] pos that by (cases p) auto
  have mx: "Max (?f ` set ?tr) \<in> ?f ` set ?tr" using ne by (intro Max_in) auto
  then have mn: "0 \<le> Max (?f ` set ?tr)" using nonneg by auto
  have "worst_drawdown ?tr = Max (insert 0 (?f ` set ?tr))" unfolding worst_drawdown_def by (rule worst_drawdown_Max [OF pos])
  also have "\<dots> = Max (?f ` set ?tr)" using mn ne by (simp add: Max_insert)
  finally have w: "worst_drawdown ?tr = Max (?f ` set ?tr)" .
  define g where "g = (\<lambda>(peak, eq). (eq - peak) / peak :: real)"
  have fg: "?f p = - g p * 100" if "p \<in> set ?tr" for p using pos that by (cases p) (simp add: g_def diff_divide_distrib)
  have "Max (?f ` set ?tr) = - Min (g ` set ?tr) * 100"
  proof (rule Max_eqI)
    show "y \<le> - Min (g ` set ?tr) * 100" if "y \<in> ?f ` set ?tr" for y using that fg by (auto intro: Min_le)
    have "Min (g ` set ?tr) \<in> g ` set ?tr" using ne by (intro Min_in) auto
    then show "- Min (g ` set ?tr) * 100 \<in> ?f ` set ?tr" using fg by force
  qed simp
  moreover have "set (map2 (\<lambda>peak eq. (eq - peak) / peak) (peaks xs) xs) = g ` set ?tr" by (simp add: g_def)
  ultimately have md: "max_drawdown_pct xs = py_round 4 (Max (?f ` set ?tr))"
    using assms(1) mn by (simp add: max_drawdown_pct_def)
  have "Max (?f ` set ?tr) \<le> 100" if "\<forall>x \<in> set xs. 0 \<le> x"
  proof -
    obtain p where p: "p \<in> set ?tr" "Max (?f ` set ?tr) = ?f p" using mx by auto
    obtain peak eq where pe: "p = (peak, eq)" by (cases p)
    have "0 < peak" "0 \<le> eq" using pos nth [OF p(1)] that p(1) by (auto simp: pe)
    then have "?f p \<le> 100" by (simp add: pe divide_le_eq)
    then show ?thesis by (simp only: p(2))
  qed
  then have "py_round 4 (Max (?f ` set ?tr)) \<le> 100" if "\<forall>x \<in> set xs. 0 \<le> x"
    using that py_round_mono [of "Max (?f ` set ?tr)" 100 4] py_round_of_int [of 4 100] by simp
  then show ?thesis using md w mn py_round_nonneg by simp
qed

text \<open>
  The carry of a short futures position before its expiry is paid to the account, yet the same amount is added to the futures
  costs of the report, the sum of which with the commissions is meant to be what was deducted from the profit.
\<close>

theorem short_carry_reported_as_cost:
  assumes "contracts (ps_symbol p) = Some (Some ex)" "today \<le> ex" "ex - today \<le> fc_carry_window_days fc"
    "ba_last_carry a = Some d" "d < today" "ps_quantity p < 0" "0 < daily_carry fc (futures_notional p) (today - d)"
    "charge_position fc contracts today p (a, led) = (a', led')"
  shows "balance led' = py_round 4 (balance led + daily_carry fc (futures_notional p) (today - d)) \<and>
    ba_futures_total a' = py_round 4 (ba_futures_total a + daily_carry fc (futures_notional p) (today - d))"
  using assms by (auto simp: charge_position_def charge_roll_def charge_carry_def within_window_def deduct_futures_def Let_def)

section \<open>Witnesses\<close>

definition sample_bt_config :: bt_config where
  "sample_bt_config =
     \<lparr>bc_symbol = ''TCS'', bc_exchange = ''NSE'', bc_initial_cash = 100000, bc_futures = None, bc_contracts = (\<lambda>_. None),
      bc_depth_levels = 0, bc_depth_imbalance = 0, bc_depth_mode = ''constant'', bc_depth_tick = 5 / 100,
      bc_depth_rng = \<lparr>dg_jitter = (\<lambda>k. 0), dg_orders = (\<lambda>k. 3)\<rparr>\<rparr>"

definition sample_bt_rows :: "bt_row list" where
  "sample_bt_rows =
     [\<lparr>rw_ts = naive 0, rw_open = 100, rw_high = 102, rw_low = 99, rw_close = 101, rw_volume = Some 10\<rparr>,
      \<lparr>rw_ts = naive 60, rw_open = 101, rw_high = 103, rw_low = 100, rw_close = 102, rw_volume = None\<rparr>]"

definition sample_bt :: "order_filled list \<Rightarrow> (bt_handler, unit bt) bus" where
  "sample_bt fs = bt_bus \<lparr>bt_kernel = ex_kernel False, bt_bar = None, bt_fills = fs\<rparr>"

lemma sample_bt_fills: "bt_fills (app (sample_bt fs)) = fs"
proof -
  have "app (fold (\<lambda>(t, h). subscribe t h) xs b) = app b" for xs and b :: "(bt_handler, unit bt) bus"
    by (induction xs arbitrary: b) (auto simp: subscribe_def)
  then show ?thesis by (simp add: sample_bt_def bt_bus_def new_bus_def)
qed

theorem backtest_ends_witness:
  "\<exists>res b'. bt_run buyer (\<lambda>_. []) (\<lambda>_. []) sample_bt_config sample_bt_rows 0 (sample_bt []) = Some (Inr (res, b')) \<and>
     map fst (br_curve res) = [naive 0, naive 60]"
  using backtest_ends [OF buyer_silent, of sample_bt_config sample_bt_rows "\<lambda>_. []" "\<lambda>_. []" 0 "sample_bt []"]
  by (auto simp: sample_bt_config_def sample_bt_rows_def)

theorem rerun_reports_old_fills_witness:
  "\<exists>res b'. bt_run buyer (\<lambda>_. []) (\<lambda>_. []) sample_bt_config sample_bt_rows 0 (sample_bt [buy_10]) = Some (Inr (res, b')) \<and>
     1 \<le> br_n_trades res"
proof -
  obtain res b' where r:
    "bt_run buyer (\<lambda>_. []) (\<lambda>_. []) sample_bt_config sample_bt_rows 0 (sample_bt [buy_10]) = Some (Inr (res, b'))"
    using bt_run_reports [of sample_bt_config sample_bt_rows buyer "\<lambda>_. []" "\<lambda>_. []" 0 "sample_bt [buy_10]"]
    by (auto simp: sample_bt_config_def sample_bt_rows_def)
  from rerun_reports_old_fills [OF r] show ?thesis using r by (auto simp: sample_bt_fills)
qed

theorem drawdown_agrees_with_gate_witness:
  "max_drawdown_pct [100, 80] = py_round 4 (worst_drawdown [(100, 100), (100, 80)])"
  using drawdown_agrees_with_gate [of "[100, 80]"] by (simp add: peaks_def)

definition short_future :: position where
  "short_future =
     \<lparr>ps_symbol = ''FUT'', ps_quantity = - 1, ps_avg_price = 365000, ps_ltp = 365000, ps_product = ''MIS'', ps_exchange = ''NFO'',
      ps_metadata = []\<rparr>"

theorem short_carry_reported_as_cost_witness:
  "\<exists>a led. charge_position default_carry (\<lambda>_. Some (Some 12)) 10 short_future
       ((fresh_acc 0)\<lparr>ba_last_carry := Some 9\<rparr>, \<lparr>positions = [], balance = 0\<rparr>) = (a, led) \<and>
     balance led = 65 \<and> ba_futures_total a = 65"
proof -
  let ?a = "(fresh_acc 0)\<lparr>ba_last_carry := Some 9\<rparr>" and ?led = "\<lparr>positions = [], balance = 0\<rparr>"
  obtain a led where c: "charge_position default_carry (\<lambda>_. Some (Some 12)) 10 short_future (?a, ?led) = (a, led)"
    by (metis surj_pair)
  have carry: "daily_carry default_carry (futures_notional short_future) (10 - 9) = 65"
    by (simp add: daily_carry_def futures_notional_def default_carry_def num_or_def short_future_def)
  have r: "py_round 4 65 = 65" using py_round_of_int [of 4 65] by simp
  have "balance led = py_round 4 (balance ?led + 65) \<and> ba_futures_total a = py_round 4 (ba_futures_total ?a + 65)"
    unfolding carry [symmetric]
    by (rule short_carry_reported_as_cost [where ex = 12, OF _ _ _ _ _ _ _ c])
       (simp_all add: carry [simplified] fresh_acc_def, simp_all add: default_carry_def short_future_def)
  then show ?thesis using c by (simp add: fresh_acc_def r)
qed

end
