(* ===== verification/ChartData.thy ===== *)
theory ChartData
  imports Timeframes SimFeed "HOL-Library.Multiset" "HOL-Library.List_Lexorder" "HOL-Library.Char_ord"
begin

text \<open>
  \<open>api/marketdata.py\<close>: the candles, contracts and quotes behind the chart.  Rows come from the broker, the stored
  frames or a generator of made-up bars, are normalised, cut to the window and the session asked for, and limited.

  Arguments of the model: \<open>datetime.fromisoformat\<close> (\<open>fromiso\<close>), the rows a store or a broker returns, the draws of the
  generator.  A cell that is missing or \<open>None\<close> is \<open>None\<close>; cells are not NaN.  Dates are year, month and day, ordered by
  Python's ordinal; \<open>strptime\<close> reads the one format that is used.

  The lemmas show that a normalised series is strictly ordered and keeps the first row of each time, that the window of
  the service is respected, that the daily aggregation is the grouping by day, that the window of the chart holds exactly
  the weekdays asked for, that a loaded instrument master is ordered and consistent, what it resolves, and the shape of
  made-up bars.
\<close>

section \<open>Candles\<close>

record wcandle =
  wc_time :: int
  wc_open :: real
  wc_high :: real
  wc_low :: real
  wc_close :: real
  wc_volume :: int

datatype stamp = Stamp datetime | StampText string | NoStamp

record row =
  rw_stamp :: stamp
  rw_open :: "real option"
  rw_high :: "real option"
  rw_low :: "real option"
  rw_close :: "real option"
  rw_volume :: "real option"

datatype raw = RawRow row | RawCandle wcandle

abbreviation or0 :: "real option \<Rightarrow> real" where
  "or0 x \<equiv> (case x of None \<Rightarrow> 0 | Some v \<Rightarrow> v)"

text \<open>\<open>int(t.timestamp())\<close>, a naive \<open>t\<close> read in IST.\<close>

definition epoch_seconds :: "datetime \<Rightarrow> int" where
  "epoch_seconds t = (let u = dt_abs IST t in if 0 \<le> u then u div US else - ((- u) div US))"

definition candle_from_row :: "(string \<Rightarrow> datetime option) \<Rightarrow> row \<Rightarrow> wcandle option" where
  "candle_from_row fromiso r =
     (case (case rw_stamp r of Stamp t \<Rightarrow> Some t | StampText s \<Rightarrow> fromiso s | NoStamp \<Rightarrow> None) of
        None \<Rightarrow> None
      | Some t \<Rightarrow> Some \<lparr>wc_time = epoch_seconds t, wc_open = or0 (rw_open r), wc_high = or0 (rw_high r),
                        wc_low = or0 (rw_low r), wc_close = or0 (rw_close r), wc_volume = py_int (or0 (rw_volume r))\<rparr>)"

definition raw_candle :: "(string \<Rightarrow> datetime option) \<Rightarrow> raw \<Rightarrow> wcandle option" where
  "raw_candle fromiso x = (case x of RawRow r \<Rightarrow> candle_from_row fromiso r | RawCandle c \<Rightarrow> Some c)"

fun collect :: "(string \<Rightarrow> datetime option) \<Rightarrow> int set \<Rightarrow> raw list \<Rightarrow> wcandle list" where
  "collect fromiso seen [] = []"
| "collect fromiso seen (x # xs) =
     (case raw_candle fromiso x of
        None \<Rightarrow> collect fromiso seen xs
      | Some c \<Rightarrow> if wc_time c \<in> seen then collect fromiso seen xs else c # collect fromiso (insert (wc_time c) seen) xs)"

text \<open>\<open>if limit is not None and len(xs) > limit: xs = xs[-limit:]\<close>\<close>

definition py_tail :: "int option \<Rightarrow> 'a list \<Rightarrow> 'a list" where
  "py_tail limit xs =
     (case limit of
        None \<Rightarrow> xs
      | Some k \<Rightarrow> if k < int (length xs) then (if 0 < k then last_n (nat k) xs else drop (nat (- k)) xs) else xs)"

definition normalize_candles :: "(string \<Rightarrow> datetime option) \<Rightarrow> int option \<Rightarrow> raw list \<Rightarrow> wcandle list" where
  "normalize_candles fromiso limit xs = py_tail limit (sort_key wc_time (collect fromiso {} xs))"

section \<open>Windows and sessions\<close>

text \<open>\<open>datetime.fromtimestamp(time, tz=IST)\<close>\<close>

definition ist_at :: "int \<Rightarrow> datetime" where
  "ist_at t = aware (t + IST) IST"

definition DAILY_TIMEFRAMES :: "string list" where
  "DAILY_TIMEFRAMES = [''1d'', ''d'', ''day'']"

definition clamp_to_session :: "string \<Rightarrow> string \<Rightarrow> wcandle list \<Rightarrow> wcandle list" where
  "clamp_to_session exchange interval cs =
     (if lower interval \<in> set DAILY_TIMEFRAMES then cs
      else [c \<leftarrow> cs. time_of_day (ist_at (wc_time c)) < session_close exchange])"

definition midnight :: "int \<Rightarrow> int" where
  "midnight day = day * 86400 - IST"

definition day_step :: "(int, wcandle) dict \<Rightarrow> wcandle \<Rightarrow> (int, wcandle) dict" where
  "day_step ds r =
     (let day = date_of (ist_at (wc_time r))
      in case map_of ds day of
           None \<Rightarrow> AList.update day (r\<lparr>wc_time := midnight day\<rparr>) ds
         | Some d \<Rightarrow> AList.update day (d\<lparr>wc_high := max (wc_high d) (wc_high r), wc_low := min (wc_low d) (wc_low r),
                                         wc_close := wc_close r, wc_volume := wc_volume d + wc_volume r\<rparr>) ds)"

definition aggregate_daily :: "wcandle list \<Rightarrow> wcandle list" where
  "aggregate_daily rs = map snd (sort_key fst (fold (\<lambda>r ds. day_step ds r) rs []))"

definition CHART_DAYS :: int where
  "CHART_DAYS = 3"

definition day_weekday :: "int \<Rightarrow> int" where
  "day_weekday d = (d + 3) mod 7"

fun chart_scan :: "nat \<Rightarrow> int \<Rightarrow> int \<Rightarrow> int \<Rightarrow> int \<Rightarrow> int" where
  "chart_scan 0 days kept d start = start"
| "chart_scan (Suc n) days kept d start =
     (if day_weekday d < 5
      then (if max 1 days \<le> kept + 1 then d else chart_scan n days (kept + 1) (d - 1) d)
      else chart_scan n days kept (d - 1) start)"

definition chart_start :: "datetime \<Rightarrow> int \<Rightarrow> datetime" where
  "chart_start now days =
     (let now = (case dt_tz now of None \<Rightarrow> now\<lparr>dt_tz := Some IST\<rparr> | Some _ \<Rightarrow> astimezone IST now);
          d = date_of now; budget = max 21 ((days * 7 + 4) div 5 + 2)
      in \<lparr>dt_wall = chart_scan (nat budget) days 0 d d * 86400 * US, dt_tz = Some IST\<rparr>)"

text \<open>\<open>parse_iso\<close>: no value, an error, or a time.\<close>

definition parse_iso :: "(string \<Rightarrow> datetime option) \<Rightarrow> string \<Rightarrow> string option \<Rightarrow> py_error + datetime option" where
  "parse_iso fromiso field v =
     (case v of
        None \<Rightarrow> Inr None
      | Some s \<Rightarrow>
          if py_strip s = [] then Inr None
          else case fromiso (py_strip s) of
                 None \<Rightarrow> Inl (ValueError (''invalid '' @ field @ '': '' @ repr_str s @ '' (expected ISO-8601)''))
               | Some t \<Rightarrow> Inr (Some (case dt_tz t of None \<Rightarrow> t\<lparr>dt_tz := Some IST\<rparr> | Some _ \<Rightarrow> t)))"

text \<open>\<open>is_valid_symbol\<close>: letters, digits, blank, dot and dash, at least one.\<close>

definition symbol_char :: "char \<Rightarrow> bool" where
  "symbol_char c \<longleftrightarrow> (let k = (of_char c :: nat) in 65 \<le> k \<and> k \<le> 90 \<or> 48 \<le> k \<and> k \<le> 57 \<or> k \<in> {32, 46, 45})"

definition is_valid_symbol :: "string \<Rightarrow> bool" where
  "is_valid_symbol s \<longleftrightarrow> (let s = upper (py_strip s) in s \<noteq> [] \<and> list_all symbol_char s)"

section \<open>Contracts\<close>

record date =
  dy_year :: int
  dy_month :: int
  dy_day :: int

definition leap :: "int \<Rightarrow> bool" where
  "leap y \<longleftrightarrow> y mod 4 = 0 \<and> (y mod 100 \<noteq> 0 \<or> y mod 400 = 0)"

definition days_before_month :: "int \<Rightarrow> int \<Rightarrow> int" where
  "days_before_month y m =
     [0, 0, 31, 59, 90, 120, 151, 181, 212, 243, 273, 304, 334] ! nat m + (if 2 < m \<and> leap y then 1 else 0)"

definition days_in_month :: "int \<Rightarrow> int \<Rightarrow> int" where
  "days_in_month y m =
     (if m = 2 \<and> leap y then 29 else [0, 31, 28, 31, 30, 31, 30, 31, 31, 30, 31, 30, 31] ! nat m)"

text \<open>\<open>date.toordinal()\<close>, by which dates are compared and subtracted.\<close>

definition ordinal :: "date \<Rightarrow> int" where
  "ordinal d = (let y = dy_year d - 1
     in y * 365 + y div 4 - y div 100 + y div 400 + days_before_month (dy_year d) (dy_month d) + dy_day d)"

definition two_digits :: "int \<Rightarrow> string" where
  "two_digits n = (if n < 10 then ''0'' @ str_int n else str_int n)"

text \<open>\<open>d.isoformat()\<close> and \<open>f"{d:%d%b%y}"\<close> of a date with a year of four digits.\<close>

definition isoformat :: "date \<Rightarrow> string" where
  "isoformat d = str_int (dy_year d) @ ''-'' @ two_digits (dy_month d) @ ''-'' @ two_digits (dy_day d)"

definition MONTHS :: "string list" where
  "MONTHS = [''Jan'', ''Feb'', ''Mar'', ''Apr'', ''May'', ''Jun'', ''Jul'', ''Aug'', ''Sep'', ''Oct'', ''Nov'', ''Dec'']"

definition day_month_year :: "date \<Rightarrow> string" where
  "day_month_year d = two_digits (dy_day d) @ MONTHS ! nat (dy_month d - 1) @ two_digits (dy_year d mod 100)"

text \<open>\<open>datetime.strptime(s, "%Y-%m-%d %H:%M:%S").date()\<close>.\<close>

definition digits_value :: "nat \<Rightarrow> nat \<Rightarrow> string \<Rightarrow> int option" where
  "digits_value least most s =
     (if least \<le> length s \<and> length s \<le> most \<and> list_all (\<lambda>c. 48 \<le> (of_char c :: nat) \<and> (of_char c :: nat) \<le> 57) s
      then Some (foldl (\<lambda>n c. n * 10 + (of_char c - 48)) 0 s) else None)"

fun split_on :: "char \<Rightarrow> string \<Rightarrow> string list" where
  "split_on x [] = [[]]"
| "split_on x (c # cs) =
     (if c = x then [] # split_on x cs else case split_on x cs of [] \<Rightarrow> [[c]] | w # ws \<Rightarrow> (c # w) # ws)"

text \<open>\<open>str.split()\<close>: the words between runs of white space.\<close>

fun split_words :: "string \<Rightarrow> string list" where
  "split_words [] = []"
| "split_words (c # cs) =
     (if is_space c then split_words cs
      else case cs of
             [] \<Rightarrow> [[c]]
           | c' # _ \<Rightarrow> if is_space c' then [c] # split_words cs
                      else (case split_words cs of [] \<Rightarrow> [[c]] | w # ws \<Rightarrow> (c # w) # ws))"

definition strptime_date :: "string \<Rightarrow> date option" where
  "strptime_date s =
     (case split_words s of
        [dt, tm] \<Rightarrow>
          (case (map (digits_value 1 4) (split_on (CHR ''-'') dt), map (digits_value 1 2) (split_on (CHR '':'') tm)) of
             ([Some y, Some m, Some d], [Some h, Some mi, Some sec]) \<Rightarrow>
               if length (hd (split_on (CHR ''-'') dt)) = 4 \<and> list_all (\<lambda>w. length w \<le> 2) (tl (split_on (CHR ''-'') dt)) \<and>
                  1 \<le> y \<and> 1 \<le> m \<and> m \<le> 12 \<and> 1 \<le> d \<and> d \<le> days_in_month y m \<and> h < 24 \<and> mi < 60 \<and> sec < 60 \<and>
                  \<not> is_space (hd s) \<and> \<not> is_space (List.last s)
               then Some \<lparr>dy_year = y, dy_month = m, dy_day = d\<rparr> else None
           | _ \<Rightarrow> None)
      | _ \<Rightarrow> None)"

record contract =
  ct_contract_id :: string
  ct_symbol :: string
  ct_root :: string
  ct_exchange :: string
  ct_expiry :: date
  ct_lot_size :: real
  ct_tick_size :: real
  ct_security_id :: "int option"
  ct_instrument_name :: string

record contract_dto =
  cd_contract :: contract
  cd_days_to_expiry :: int
  cd_is_expired :: bool
  cd_is_front_month :: bool

definition contract_as_dict :: "date \<Rightarrow> bool \<Rightarrow> contract \<Rightarrow> contract_dto" where
  "contract_as_dict today front c =
     (let dte = ordinal (ct_expiry c) - ordinal today
      in \<lparr>cd_contract = c, cd_days_to_expiry = dte, cd_is_expired = dte < 0, cd_is_front_month = front\<rparr>)"

definition is_index :: "contract \<Rightarrow> bool" where
  "is_index c \<longleftrightarrow> ct_instrument_name c = ''FUTIDX''"

text \<open>
  A line of the dump, by the columns of its header; a line shorter than the header is \<open>None\<close>.  A number cell is blank,
  text that \<open>float\<close> refuses, or its value.
\<close>

datatype num_cell = Blank | NotANumber | Num real

record csv_row =
  cv_exchange :: string
  cv_type :: string
  cv_custom :: string
  cv_trading :: string
  cv_expiry :: string
  cv_lot :: num_cell
  cv_tick :: num_cell
  cv_security_id :: num_cell
  cv_name :: string

datatype csv_content = NoHeader | Unreadable | Lines "csv_row option list"

record csv_file =
  cf_name :: string
  cf_exists :: bool
  cf_size :: int
  cf_content :: csv_content

definition float_cell :: "num_cell \<Rightarrow> real" where
  "float_cell c = (case c of Num x \<Rightarrow> x | _ \<Rightarrow> 0)"

definition int_or_none :: "num_cell \<Rightarrow> int option" where
  "int_or_none c = (case c of Blank \<Rightarrow> None | NotANumber \<Rightarrow> Some 0 | Num x \<Rightarrow> Some (py_int x))"

definition first_word :: "string \<Rightarrow> string" where
  "first_word s = takeWhile (\<lambda>c. c \<noteq> CHR '' '') s"

record master =
  ms_source :: "string option"
  ms_contracts :: "(string, contract list) dict"

definition row_contract :: "csv_row \<Rightarrow> contract option" where
  "row_contract r =
     (let custom = upper (py_strip (cv_custom r)); trading = py_strip (cv_trading r)
      in if upper (py_strip (cv_type r)) \<notin> {''FUT'', ''FUTCOM''} then None
         else if custom = [] \<or> trading = [] \<or> CHR '' '' \<notin> set custom then None
         else map_option (\<lambda>expiry.
           \<lparr>ct_contract_id = trading, ct_symbol = custom, ct_root = first_word custom,
            ct_exchange = (if upper (py_strip (cv_exchange r)) = ''MCX'' then ''MCX'' else ''NFO''), ct_expiry = expiry,
            ct_lot_size = float_cell (cv_lot r), ct_tick_size = float_cell (cv_tick r),
            ct_security_id = int_or_none (cv_security_id r), ct_instrument_name = upper (py_strip (cv_name r))\<rparr>)
           (strptime_date (py_strip (cv_expiry r))))"

text \<open>The contracts of the lines, the first of each id, filed by root in the order they come.\<close>

fun load_rows :: "csv_row option list \<Rightarrow> string set \<Rightarrow> (string, contract list) dict \<Rightarrow> (string, contract list) dict" where
  "load_rows [] seen by_root = by_root"
| "load_rows (r # rs) seen by_root =
     (case Option.bind r row_contract of
        None \<Rightarrow> load_rows rs seen by_root
      | Some c \<Rightarrow>
          if ct_contract_id c \<in> seen then load_rows rs seen by_root
          else load_rows rs (insert (ct_contract_id c) seen)
                 (AList.update (ct_root c) (get_default by_root (ct_root c) [] @ [c]) by_root))"

definition load_master :: "csv_row option list \<Rightarrow> (string, contract list) dict" where
  "load_master rs = map (\<lambda>(rt, cs). (rt, sort_key (\<lambda>c. ordinal (ct_expiry c)) cs)) (load_rows rs {} [])"

fun new_master :: "csv_file list \<Rightarrow> master" where
  "new_master [] = \<lparr>ms_source = None, ms_contracts = []\<rparr>"
| "new_master (f # fs) =
     (if \<not> cf_exists f \<or> cf_size f \<le> 0 then new_master fs
      else case cf_content f of
             Lines rs \<Rightarrow> \<lparr>ms_source = Some (cf_name f), ms_contracts = load_master rs\<rparr>
           | _ \<Rightarrow> new_master fs)"

definition index_roots :: "master \<Rightarrow> string list" where
  "index_roots m = sort (map fst [x \<leftarrow> ms_contracts m. list_ex is_index (snd x)])"

definition futures_roots :: "master \<Rightarrow> string list" where
  "futures_roots m = sort (map fst (ms_contracts m))"

definition roots :: "master \<Rightarrow> string list" where
  "roots m = index_roots m @ sort [r \<leftarrow> map fst (ms_contracts m). r \<notin> set (index_roots m)]"

definition contracts :: "master \<Rightarrow> string \<Rightarrow> contract list" where
  "contracts m rt = get_default (ms_contracts m) (upper rt) []"

definition resolve :: "master \<Rightarrow> string \<Rightarrow> contract option" where
  "resolve m sy =
     (let sy = upper (py_strip sy)
      in case find (\<lambda>c. ct_symbol c = sy \<or> ct_contract_id c = sy) (concat (map snd (ms_contracts m))) of
           Some c \<Rightarrow> Some c
         | None \<Rightarrow>
             (case split_words sy of
                rt # _ # _ \<Rightarrow>
                  find (\<lambda>c. sy \<in> {rt @ '' '' @ isoformat (ct_expiry c), rt @ '' '' @ day_month_year (ct_expiry c)})
                    (get_default (ms_contracts m) rt [])
              | _ \<Rightarrow> None))"

definition front_month :: "date \<Rightarrow> master \<Rightarrow> string \<Rightarrow> contract option" where
  "front_month today m rt =
     (case contracts m rt of
        [] \<Rightarrow> None
      | c # cs \<Rightarrow> (case [x \<leftarrow> c # cs. ordinal today \<le> ordinal (ct_expiry x)] of a # _ \<Rightarrow> Some a | [] \<Rightarrow> Some c))"

section \<open>Quotes\<close>

record quote_dto =
  qd_symbol :: string
  qd_exchange :: string
  qd_ltp :: real
  qd_change :: real
  qd_change_pct :: real
  qd_high :: real
  qd_low :: real
  qd_open :: real
  qd_prev_close :: real
  qd_volume :: int
  qd_oi :: int
  qd_source :: string

definition pct_change :: "real \<Rightarrow> real \<Rightarrow> real" where
  "pct_change diff prev = py_round 2 (if prev = 0 then 0 else diff / prev * 100)"

text \<open>The quote that the stored and the made-up provider build from their last candle.\<close>

definition close_quote :: "string \<Rightarrow> string \<Rightarrow> string \<Rightarrow> wcandle \<Rightarrow> real \<Rightarrow> quote_dto" where
  "close_quote source sy exchange c prev =
     \<lparr>qd_symbol = sy, qd_exchange = exchange, qd_ltp = py_round 2 (wc_close c),
      qd_change = py_round 2 (wc_close c - prev), qd_change_pct = pct_change (wc_close c - prev) prev,
      qd_high = wc_high c, qd_low = wc_low c, qd_open = wc_open c, qd_prev_close = prev, qd_volume = wc_volume c,
      qd_oi = 0, qd_source = source\<rparr>"

text \<open>Stored candles: \<open>read\<close> gives the rows of the symbol in a window at a timeframe.\<close>

type_synonym store = "datetime option \<Rightarrow> datetime option \<Rightarrow> string \<Rightarrow> raw list"

definition parquet_candles ::
  "(string \<Rightarrow> datetime option) \<Rightarrow> store \<Rightarrow> string \<Rightarrow> datetime option \<Rightarrow> datetime option \<Rightarrow> int option \<Rightarrow> wcandle list" where
  "parquet_candles fromiso read interval start end' limit =
     (case read start end' (lower interval) of [] \<Rightarrow> [] | xs \<Rightarrow> normalize_candles fromiso limit xs)"

definition parquet_quote ::
  "(string \<Rightarrow> datetime option) \<Rightarrow> store \<Rightarrow> string \<Rightarrow> string \<Rightarrow> py_error + quote_dto" where
  "parquet_quote fromiso read sy exchange =
     (let rows = parquet_candles fromiso read ''1d'' None None (Some 1);
          rows = (if rows = [] then aggregate_daily (parquet_candles fromiso read ''1m'' None None None) else rows)
      in if rows = [] then Inl (RuntimeError (''no stored data for '' @ sy))
         else (let c = List.last rows; before = butlast rows;
                   prev = (if before = [] then wc_close c else wc_close (List.last before))
               in Inr (close_quote ''parquet'' sy exchange c prev)))"

text \<open>The broker: \<open>fetch\<close> and \<open>q\<close> are its answers, an exception by its text.\<close>

definition LIVE_HISTORY_DAYS :: int where
  "LIVE_HISTORY_DAYS = 90"

definition dhan_candles ::
  "(string \<Rightarrow> datetime option) \<Rightarrow> datetime \<Rightarrow> (datetime \<Rightarrow> datetime \<Rightarrow> string + raw list) \<Rightarrow> string \<Rightarrow> string \<Rightarrow>
   datetime option \<Rightarrow> datetime option \<Rightarrow> int option \<Rightarrow> py_error + wcandle list" where
  "dhan_candles fromiso now fetch exchange interval start end' limit =
     (let hi = (case end' of None \<Rightarrow> now | Some t \<Rightarrow> t);
          lo = (case start of None \<Rightarrow> hi\<lparr>dt_wall := dt_wall hi - LIVE_HISTORY_DAYS * 86400 * US\<rparr> | Some t \<Rightarrow> t)
      in case fetch lo hi of
           Inl e \<Rightarrow> Inl (RuntimeError (''Dhan history fetch failed: '' @ e))
         | Inr xs \<Rightarrow> Inr (py_tail limit (clamp_to_session exchange interval (normalize_candles fromiso None xs))))"

record broker_quote =
  bq_ltp :: "real option"
  bq_prev_close :: "real option"
  bq_high :: "real option"
  bq_low :: "real option"
  bq_open :: "real option"
  bq_volume :: "real option"
  bq_oi :: "real option"

definition dhan_quote ::
  "string + broker_quote \<Rightarrow> (py_error + wcandle list) \<Rightarrow> string \<Rightarrow> string \<Rightarrow> py_error + quote_dto" where
  "dhan_quote q daily sy exchange =
     (case q of
        Inl e \<Rightarrow> Inl (RuntimeError (''Dhan quote fetch failed: '' @ e))
      | Inr q \<Rightarrow>
          (let prev = or0 (bq_prev_close q); ltp = or0 (bq_ltp q); high = or0 (bq_high q); low = or0 (bq_low q);
               op = or0 (bq_open q); volume = py_int (or0 (bq_volume q));
               answer = (\<lambda>high low op prev volume. \<lparr>qd_symbol = sy, qd_exchange = exchange, qd_ltp = py_round 2 ltp,
                 qd_change = py_round 2 (ltp - prev), qd_change_pct = pct_change (ltp - prev) prev, qd_high = py_round 2 high,
                 qd_low = py_round 2 low, qd_open = py_round 2 op, qd_prev_close = py_round 2 prev, qd_volume = volume,
                 qd_oi = py_int (or0 (bq_oi q)), qd_source = ''dhan''\<rparr>)
           in if high \<noteq> 0 \<and> low \<noteq> 0 \<and> op \<noteq> 0 \<and> prev \<noteq> 0 then Inr (answer high low op prev volume)
              else case daily of
                     Inl e \<Rightarrow> Inl e
                   | Inr [] \<Rightarrow> Inr (answer high low op prev volume)
                   | Inr rows \<Rightarrow>
                       (let c = List.last rows; p = (if butlast rows = [] then c else List.last (butlast rows))
                        in Inr (answer (num_or high (wc_high c)) (num_or low (wc_low c)) (num_or op (wc_open c))
                             (num_or prev (wc_close p)) (if volume \<noteq> 0 then volume else wc_volume c)))))"

section \<open>Made-up candles\<close>

function days_back :: "nat \<Rightarrow> int \<Rightarrow> int list" where
  "days_back 0 d = []"
| "days_back (Suc n) d = (if day_weekday d < 5 then d # days_back n (d - 1) else days_back (Suc n) (d - 1))"
  by pat_completeness auto
termination
  by (relation "measure (\<lambda>(n, d). 3 * n + nat (day_weekday d - 4))") (auto simp: day_weekday_def, presburger+)

definition MAX_SYNTH_SESSIONS :: int where
  "MAX_SYNTH_SESSIONS = 90"

definition sessions_needed :: "int \<Rightarrow> int \<Rightarrow> int option \<Rightarrow> int" where
  "sessions_needed days today floor' =
     (let need = max days 1
      in case floor' of None \<Rightarrow> need | Some f \<Rightarrow> max need (min ((today - f) * 5 div 7 + 2) MAX_SYNTH_SESSIONS))"

definition session_days :: "int \<Rightarrow> int \<Rightarrow> int option \<Rightarrow> int list" where
  "session_days days today floor' = rev (days_back (nat (sessions_needed days today floor')) today)"

text \<open>The draws of one bar, each the value of its \<open>uniform\<close> call.\<close>

record bar_draws =
  bd_ret :: real
  bd_drift :: real
  bd_gap :: real
  bd_high :: real
  bd_low :: real
  bd_volume :: real

definition synth_bar :: "bar_draws \<Rightarrow> int \<Rightarrow> real \<Rightarrow> int \<Rightarrow> nat \<Rightarrow> real \<Rightarrow> wcandle \<times> real" where
  "synth_bar g minutes lot time k price =
     (let close = max (price * (1 + (bd_ret g * sqrt (of_int minutes) + bd_drift g))) (1 / 100);
          op = price * (if k \<noteq> 0 then 1 + bd_gap g else 1);
          high = max op close * (1 + bd_high g); low = min op close * (1 - bd_low g)
      in (\<lparr>wc_time = time, wc_open = py_round 2 op, wc_high = py_round 2 high, wc_low = py_round 2 low,
           wc_close = py_round 2 close, wc_volume = py_int (lot * (30 + bd_volume g))\<rparr>, close))"

text \<open>The bars of a list of places (the first moment of the session and the bar within it), the draws taken in order.\<close>

fun synth_bars :: "(nat \<Rightarrow> bar_draws) \<Rightarrow> int \<Rightarrow> int \<Rightarrow> real \<Rightarrow> (int \<times> nat) list \<Rightarrow> nat \<Rightarrow> real \<Rightarrow> wcandle list" where
  "synth_bars draws minutes bar_span lot [] i price = []"
| "synth_bars draws minutes bar_span lot ((t0, k) # places) i price =
     (case synth_bar (draws i) minutes lot (t0 + int k * bar_span) k price of
        (c, close) \<Rightarrow> c # synth_bars draws minutes bar_span lot places (Suc i) close)"

definition SESSION_BAR_MINUTES :: int where
  "SESSION_BAR_MINUTES = 375"

definition session_first :: "int \<Rightarrow> int \<Rightarrow> int" where
  "session_first minutes day =
     (if SESSION_BAR_MINUTES \<le> minutes then midnight day else midnight day + session_open ''NSE'' div US)"

definition bar_places :: "int \<Rightarrow> int list \<Rightarrow> (int \<times> nat) list" where
  "bar_places minutes days =
     concat (map (\<lambda>d. map (\<lambda>k. (session_first minutes d, k)) [0..<nat (SESSION_BAR_MINUTES div minutes)]) days)"

definition synth_candles_of ::
  "(nat \<Rightarrow> bar_draws) \<Rightarrow> int \<Rightarrow> real \<Rightarrow> int list \<Rightarrow> real \<Rightarrow> wcandle list" where
  "synth_candles_of draws minutes lot days base =
     synth_bars draws minutes (if minutes < 375 then minutes * 60 else 375 * 60) lot (bar_places minutes days) 0 base"

definition KNOWN_BASE :: "(string, real) dict" where
  "KNOWN_BASE = [(''NIFTY'', 24800), (''BANKNIFTY'', 55500), (''FINNIFTY'', 23200), (''MIDCPNIFTY'', 12600),
                 (''SENSEX'', 81500)]"

definition base_price :: "(string \<Rightarrow> int) \<Rightarrow> string \<Rightarrow> real" where
  "base_price digest rt =
     (case map_of KNOWN_BASE rt of Some b \<Rightarrow> b | None \<Rightarrow> py_round 2 (15000 + of_int (digest rt mod 55000) / 10))"

definition contract_lot :: "master \<Rightarrow> string \<Rightarrow> real" where
  "contract_lot m sy = (case resolve m sy of None \<Rightarrow> 25 | Some c \<Rightarrow> num_or (ct_lot_size c) 25)"

type_synonym synth_cache = "(string \<times> string \<times> int, wcandle list) dict"

record synth_env =
  se_draws :: "string \<Rightarrow> string \<Rightarrow> nat \<Rightarrow> bar_draws"
  se_digest :: "string \<Rightarrow> int"
  se_master :: master
  se_days :: int

definition synth_series ::
  "synth_env \<Rightarrow> int \<Rightarrow> string \<Rightarrow> string \<Rightarrow> int option \<Rightarrow> synth_cache \<Rightarrow> (py_error + wcandle list) \<times> synth_cache" where
  "synth_series env today sy interval floor' cache =
     (let key = (sy, interval, case floor' of None \<Rightarrow> today | Some f \<Rightarrow> f)
      in case map_of cache key of
           Some cs \<Rightarrow> (Inr cs, cache)
         | None \<Rightarrow>
             (case split_words sy of
                [] \<Rightarrow> (Inl (IndexErr ''list index out of range''), cache)
              | w # _ \<Rightarrow>
                  (case getitem BAR_MINUTES interval of
                     Inl e \<Rightarrow> (Inl e, cache)
                   | Inr minutes \<Rightarrow>
                       (let cs = synth_candles_of (se_draws env sy interval) minutes (contract_lot (se_master env) sy)
                               (session_days (se_days env) today floor') (base_price (se_digest env) (upper w))
                        in (Inr cs, AList.update key cs cache)))))"

text \<open>\<open>lo <= c["time"] <= hi\<close>, a bound that is not given always holding.\<close>

definition in_window :: "datetime option \<Rightarrow> datetime option \<Rightarrow> int \<Rightarrow> bool" where
  "in_window start end' t \<longleftrightarrow>
     (case start of None \<Rightarrow> True | Some s \<Rightarrow> dt_abs IST s \<le> t * US) \<and>
     (case end' of None \<Rightarrow> True | Some e \<Rightarrow> t * US \<le> dt_abs IST e)"

definition synth_candles ::
  "synth_env \<Rightarrow> int \<Rightarrow> string \<Rightarrow> string \<Rightarrow> datetime option \<Rightarrow> datetime option \<Rightarrow> int option \<Rightarrow> synth_cache \<Rightarrow>
   (py_error + wcandle list) \<times> synth_cache" where
  "synth_candles env today sy interval start end' limit cache =
     (case synth_series env today sy interval (map_option date_of start) cache of
        (Inl e, cache) \<Rightarrow> (Inl e, cache)
      | (Inr cs, cache) \<Rightarrow> (Inr (py_tail limit [c \<leftarrow> cs. in_window start end' (wc_time c)]), cache))"

definition synth_quote ::
  "synth_env \<Rightarrow> int \<Rightarrow> string \<Rightarrow> string \<Rightarrow> synth_cache \<Rightarrow> (py_error + quote_dto) \<times> synth_cache" where
  "synth_quote env today sy exchange cache =
     (case synth_candles env today sy ''1m'' None None (Some 1) cache of
        (Inl e, cache) \<Rightarrow> (Inl e, cache)
      | (Inr [], cache) \<Rightarrow> (Inl (RuntimeError (''no data for '' @ sy)), cache)
      | (Inr rows, cache) \<Rightarrow>
          (case synth_candles env today sy ''1m'' None None (Some 2) cache of
             (Inl e, cache) \<Rightarrow> (Inl e, cache)
           | (Inr two, cache) \<Rightarrow>
               (let c = List.last rows;
                    prev = (if 1 < length two then wc_close (two ! (length two - 2)) else wc_close c)
                in (Inr (close_quote ''synthetic'' sy exchange c prev), cache))))"

section \<open>The service\<close>

definition SUPPORTED_ROOTS :: "string list" where
  "SUPPORTED_ROOTS = [''NIFTY'', ''BANKNIFTY'', ''CRUDEOIL'', ''CRUDEOILM'', ''GOLD'', ''GOLDM'', ''SILVER'', ''SILVERM'']"

record root_dto =
  rd_root :: string
  rd_exchange :: string
  rd_display_name :: string
  rd_n_contracts :: int
  rd_front_month :: "contract_dto option"

definition service_roots :: "date \<Rightarrow> master \<Rightarrow> root_dto list" where
  "service_roots today m =
     map (\<lambda>rt. \<lparr>rd_root = rt,
            rd_exchange = (case front_month today m rt of Some c \<Rightarrow> ct_exchange c | None \<Rightarrow> ''NFO''),
            rd_display_name = rt @ '' Futures'', rd_n_contracts = int (length (contracts m rt)),
            rd_front_month = map_option (contract_as_dict today False) (front_month today m rt)\<rparr>)
       [rt \<leftarrow> roots m. rt \<in> set SUPPORTED_ROOTS]"

definition service_contracts :: "date \<Rightarrow> master \<Rightarrow> string \<Rightarrow> contract_dto list" where
  "service_contracts today m rt =
     (let front = map_option ct_contract_id (front_month today m rt)
      in map (\<lambda>c. contract_as_dict today (Some (ct_contract_id c) = front) c) (contracts m rt))"

definition has_root :: "master \<Rightarrow> string \<Rightarrow> bool" where
  "has_root m rt \<longleftrightarrow> contracts m rt \<noteq> []"

text \<open>A provider: the candles it answers for a window and a limit.\<close>

type_synonym provider = "datetime option \<Rightarrow> datetime option \<Rightarrow> int option \<Rightarrow> py_error + wcandle list"

definition service_candles ::
  "datetime \<Rightarrow> provider \<Rightarrow> string \<Rightarrow> string \<Rightarrow> datetime option \<Rightarrow> datetime option \<Rightarrow> int option \<Rightarrow> py_error + wcandle list" where
  "service_candles now prov exchange interval start end' limit =
     (let hi = (case end' of None \<Rightarrow> now | Some t \<Rightarrow> t);
          lo = (case start of None \<Rightarrow> chart_start hi CHART_DAYS | Some t \<Rightarrow> t)
      in case prov (Some lo) (Some hi) limit of
           Inl e \<Rightarrow> Inl e
         | Inr rows \<Rightarrow>
             Inr (py_tail limit (clamp_to_session exchange interval [c \<leftarrow> rows. in_window (Some lo) (Some hi) (wc_time c)])))"

record tick_bar =
  tb_time :: int
  tb_prices :: "real list"
  tb_quantities :: "int list"

definition MAX_TICKS :: int where
  "MAX_TICKS = 1500000"

definition tick_span :: "string \<Rightarrow> int" where
  "tick_span interval = get_default BAR_MINUTES interval 1 * 60"

text \<open>Ticks made up for each candle; \<open>None\<close> when the search for a low never ends.\<close>

fun ticks_of_candles :: "(int \<Rightarrow> tick_rng) \<Rightarrow> nat \<Rightarrow> wcandle list \<Rightarrow> (py_error + tick_bar list) option" where
  "ticks_of_candles rng n [] = Some (Inr [])"
| "ticks_of_candles rng n (c # cs) =
     (case synthesize_1m_ticks (aware (wc_time c) 0) (wc_open c) (wc_high c) (wc_low c) (wc_close c) (wc_volume c) n
             (rng (wc_time c)) of
        None \<Rightarrow> None
      | Some (Inl e) \<Rightarrow> Some (Inl e)
      | Some (Inr tks) \<Rightarrow>
          (case ticks_of_candles rng n cs of
             Some (Inr bars) \<Rightarrow>
               Some (Inr (\<lparr>tb_time = wc_time c, tb_prices = map sk_price tks, tb_quantities = map sk_quantity tks\<rparr> # bars))
           | r \<Rightarrow> r))"

definition synthetic_ticks :: "(int \<Rightarrow> tick_rng) \<Rightarrow> string \<Rightarrow> py_error + wcandle list \<Rightarrow> (py_error + tick_bar list) option" where
  "synthetic_ticks rng interval rows =
     (case rows of
        Inl e \<Rightarrow> Some (Inl e)
      | Inr rows \<Rightarrow> (let n = tick_span interval
                     in ticks_of_candles rng (nat n) (take (nat (max 0 (MAX_TICKS div n))) rows)))"

text \<open>
  A recorded line: what each of its fields reads as, \<open>None\<close> when reading it raises.  The bar of a line is made before
  its price and quantity are read.
\<close>

record tick_line =
  tl_ts :: "datetime option"
  tl_price :: "real option"
  tl_qty :: "int option"

definition line_step ::
  "int \<Rightarrow> datetime option \<Rightarrow> datetime option \<Rightarrow> tick_line \<Rightarrow> (int, tick_bar) dict \<Rightarrow> (int, tick_bar) dict" where
  "line_step n start end' l bars =
     (case tl_ts l of
        None \<Rightarrow> bars
      | Some t \<Rightarrow>
          if (case start of None \<Rightarrow> False | Some s \<Rightarrow> dt_abs IST t < dt_abs IST s) \<or>
             (case end' of None \<Rightarrow> False | Some e \<Rightarrow> dt_abs IST e < dt_abs IST t) then bars
          else
            (let b = epoch_seconds t - epoch_seconds t mod n;
                 bar = get_default bars b \<lparr>tb_time = b, tb_prices = [], tb_quantities = []\<rparr>;
                 bar = (case tl_price l of
                   None \<Rightarrow> bar
                 | Some p \<Rightarrow> (let bar = bar\<lparr>tb_prices := tb_prices bar @ [p]\<rparr>
                             in case tl_qty l of None \<Rightarrow> bar | Some q \<Rightarrow> bar\<lparr>tb_quantities := tb_quantities bar @ [q]\<rparr>))
             in AList.update b bar bars))"

definition recorded_ticks ::
  "(int \<Rightarrow> tick_line list) \<Rightarrow> datetime \<Rightarrow> string \<Rightarrow> datetime option \<Rightarrow> datetime option \<Rightarrow> tick_bar list" where
  "recorded_ticks files now interval start end' =
     (let pin = map_option (\<lambda>t. case dt_tz t of None \<Rightarrow> t\<lparr>dt_tz := Some IST\<rparr> | Some _ \<Rightarrow> t);
          start = pin start; end' = pin end';
          lo = date_of (case start of None \<Rightarrow> now | Some s \<Rightarrow> s);
          hi = (case end' of None \<Rightarrow> lo | Some e \<Rightarrow> date_of e)
      in map snd (sort_key fst
           (fold (line_step (tick_span interval) start end') (concat (map files [lo..hi])) [])))"

definition service_ticks ::
  "string \<Rightarrow> (int \<Rightarrow> tick_rng) \<Rightarrow> (int \<Rightarrow> tick_line list) \<Rightarrow> datetime \<Rightarrow> provider \<Rightarrow> string \<Rightarrow> string \<Rightarrow> datetime option \<Rightarrow>
   datetime option \<Rightarrow> int option \<Rightarrow> (py_error + tick_bar list) option" where
  "service_ticks name rng files now prov exchange interval start end' limit =
     (if name \<noteq> ''synthetic'' then Some (Inr (recorded_ticks files now interval start end'))
      else synthetic_ticks rng interval (service_candles now prov exchange interval start end' limit))"

datatype provider_kind = Dhan_provider | Parquet_provider string | Synthetic_provider

text \<open>\<open>build_service\<close>: which provider is chosen.\<close>

definition build_service :: "string option \<Rightarrow> (string, string) dict \<Rightarrow> py_error + provider_kind" where
  "build_service prov env =
     (let wanted = (case prov of Some (c # cs) \<Rightarrow> c # cs | _ \<Rightarrow> get_default env ''NTRADE_MARKET_PROVIDER'' []);
          name = lower (py_strip wanted)
      in if name = [] then Inl (RuntimeError
           ''no market provider configured: set NTRADE_MARKET_PROVIDER or pass --provider (dhan|parquet|synthetic)'')
         else if name = ''dhan'' then Inr Dhan_provider
         else if name = ''parquet'' then Inr (Parquet_provider (get_default env ''NTRADE_DATA_DIR'' ''data/ohlcv''))
         else if name = ''synthetic'' then Inr Synthetic_provider
         else Inl (RuntimeError (''unknown market provider '' @ repr_str name @ '' (use dhan|parquet|synthetic)'')))"

section \<open>Lemmas on series\<close>

lemma py_tail_suffix: "\<exists>ys. xs = ys @ py_tail limit xs"
  by (auto simp: py_tail_def last_n_def split: option.splits) (metis append_take_drop_id)+

lemma set_py_tail: "set (py_tail limit xs) \<subseteq> set xs"
  using py_tail_suffix [of xs limit] by (metis set_append Un_upper2)

lemma sorted_wrt_py_tail: "sorted_wrt R (map f xs) \<Longrightarrow> sorted_wrt R (map f (py_tail limit xs))"
  using py_tail_suffix [of xs limit] by (metis map_append sorted_wrt_append)

lemma py_tail_bound: "limit = Some k \<Longrightarrow> 0 < k \<Longrightarrow> int (length (py_tail limit xs)) \<le> k"
  by (auto simp: py_tail_def)

lemma collect_times:
  "distinct (map wc_time (collect fromiso seen xs)) \<and>
   wc_time ` set (collect fromiso seen xs) = wc_time ` set (List.map_filter (raw_candle fromiso) xs) - seen"
  by (induction fromiso seen xs rule: collect.induct) (auto simp: map_filter_simps split: option.splits)

lemma collect_first:
  "c \<in> set (collect fromiso seen xs) \<Longrightarrow>
     find (\<lambda>x. wc_time x = wc_time c) (List.map_filter (raw_candle fromiso) xs) = Some c"
proof (induction fromiso seen xs rule: collect.induct)
  case (2 fromiso seen x xs)
  have "wc_time c \<notin> S" if "c \<in> set (collect fromiso S xs)" for S
    using collect_times [of fromiso S xs] that by blast
  then show ?case using 2 by (fastforce simp: map_filter_simps split: option.splits if_splits)
qed simp

lemma strictly_sorted_by_time: "distinct (map wc_time cs) \<Longrightarrow> sorted_wrt (<) (map wc_time (sort_key wc_time cs))"
  by (simp add: strict_sorted_iff distinct_map)

lemma normalize_sorted: "sorted_wrt (<) (map wc_time (normalize_candles fromiso limit xs))"
  unfolding normalize_candles_def
  by (intro sorted_wrt_py_tail strictly_sorted_by_time) (simp add: collect_times)

lemma normalize_limit: "normalize_candles fromiso limit xs = py_tail limit (normalize_candles fromiso None xs)"
  by (simp add: normalize_candles_def py_tail_def)

lemma py_tail_length: "0 < length ys \<Longrightarrow> py_tail (Some (int (length ys))) (xs @ ys) = ys"
  by (auto simp: py_tail_def last_n_def)

lemma stored_candles:
  "parquet_candles fromiso read iv start end' limit = py_tail limit (normalize_candles fromiso None (read start end' (lower iv)))"
  by (simp add: parquet_candles_def normalize_limit [of fromiso limit] normalize_candles_def py_tail_def split: list.splits option.splits)

lemma ist_clock: "time_of_day (ist_at t) = (t + IST) mod 86400 * US" "date_of (ist_at t) = (t + IST) div 86400"
  unfolding ist_at_def aware_def time_of_day_def date_of_def by (simp_all only: datetime.simps mod_mult_mult2) simp

text \<open>Going back over weekdays.\<close>

lemma days_back_rules:
  "day_weekday d < 5 \<Longrightarrow> days_back (Suc n) d = d # days_back n (d - 1)"
  "\<not> day_weekday d < 5 \<Longrightarrow> days_back (Suc n) d = days_back (Suc n) (d - 1)"
  by simp_all

declare days_back.simps(2) [simp del]

lemma days_back_induct [case_names none weekday weekend]:
  assumes "\<And>d. P 0 d" "\<And>n d. \<lbrakk>day_weekday d < 5; P n (d - 1)\<rbrakk> \<Longrightarrow> P (Suc n) d"
    "\<And>n d. \<lbrakk>\<not> day_weekday d < 5; P (Suc n) (d - 1)\<rbrakk> \<Longrightarrow> P (Suc n) d"
  shows "P n d"
  by (induction n d rule: days_back.induct) (use assms in blast)+

lemma days_back_set: "x \<in> set (days_back n d) \<Longrightarrow> day_weekday x < 5 \<and> x \<le> d"
  by (induction n d rule: days_back_induct) (auto simp: days_back_rules)

lemma days_back_length [simp]: "length (days_back n d) = n"
  by (induction n d rule: days_back_induct) (auto simp: days_back_rules)

lemma days_back_sorted: "sorted_wrt (>) (days_back n d)"
  by (induction n d rule: days_back_induct) (fastforce simp: days_back_rules dest: days_back_set)+

lemma days_back_all:
  "\<lbrakk>day_weekday x < 5; x \<le> d; y \<in> set (days_back n d); y \<le> x\<rbrakk> \<Longrightarrow> x \<in> set (days_back n d)"
proof (induction n d rule: days_back_induct)
  case (weekday n d)
  then show ?case by (cases "x = d") (auto simp: days_back_rules dest: days_back_set)
next
  case (weekend n d)
  then have "x \<noteq> d" by auto
  then show ?case using weekend by (auto simp: days_back_rules)
qed simp

text \<open>The first of \<open>n + 1\<close> weekdays up to \<open>d\<close>.\<close>

definition weekday_before :: "nat \<Rightarrow> int \<Rightarrow> int" where
  "weekday_before n d = (let w = day_weekday d; k = int n
     in d - max 0 (w - 4) - (k + 2 * ((k + 4 - min w 4) div 5)))"

lemma day_before: "day_weekday (d - 1) = (if day_weekday d = 0 then 6 else day_weekday d - 1)"
proof -
  have "day_weekday (d - 1) = ((d + 3) mod 7 - 1) mod 7"
    unfolding day_weekday_def mod_diff_left_eq by (simp add: algebra_simps)
  moreover have "0 \<le> (d + 3) mod 7" "(d + 3) mod 7 < 7" by simp_all
  ultimately show ?thesis by (auto simp: day_weekday_def intro: mod_pos_pos_trivial)
qed

lemma day_weekday_range: "0 \<le> day_weekday d" "day_weekday d < 7"
  by (simp_all add: day_weekday_def)

lemma weekday_before_step:
  "\<not> day_weekday d < 5 \<Longrightarrow> weekday_before n d = weekday_before n (d - 1)"
  "day_weekday d < 5 \<Longrightarrow> weekday_before (Suc n) d = weekday_before n (d - 1)"
  "day_weekday d < 5 \<Longrightarrow> weekday_before 0 d = d"
proof -
  note w = day_weekday_range [of d]
  show "weekday_before n d = weekday_before n (d - 1)" if "\<not> day_weekday d < 5"
    using w that by (simp add: weekday_before_def Let_def day_before min_def)
  show "weekday_before (Suc n) d = weekday_before n (d - 1)" if "day_weekday d < 5"
  proof (cases "day_weekday d = 0")
    case True
    have "(int n + 5) div 5 = int n div 5 + 1" by simp
    then show ?thesis using True by (simp add: weekday_before_def Let_def day_before min_def)
  next
    case False
    then show ?thesis using w that by (simp add: weekday_before_def Let_def day_before algebra_simps)
  qed
  show "weekday_before 0 d = d" if "day_weekday d < 5"
    using w that by (simp add: weekday_before_def Let_def)
qed

lemma weekday_before_le: "weekday_before n d \<le> d"
proof -
  have "0 \<le> (int n + 4 - min (day_weekday d) 4) div 5" by (intro pos_imp_zdiv_nonneg_iff [THEN iffD2]) auto
  then show ?thesis by (simp add: weekday_before_def Let_def)
qed

lemma days_back_last: "n \<noteq> 0 \<Longrightarrow> List.last (days_back n d) = weekday_before (n - 1) d"
proof (induction n d rule: days_back_induct)
  case (weekday n d)
  show ?case
  proof (cases n)
    case (Suc k)
    then have "days_back n (d - 1) \<noteq> []" using days_back_length [of n "d - 1"] by force
    then show ?thesis using weekday Suc weekday_before_step(2) [OF weekday.hyps, of k] by (simp add: days_back_rules)
  qed (use weekday weekday_before_step(3) in \<open>simp add: days_back_rules\<close>)
next
  case (weekend n d)
  then show ?case using weekday_before_step(1) [of d n] by (simp add: days_back_rules)
qed simp

text \<open>The weekdays found are all those from the first of them on.\<close>

lemma days_back_is_range:
  assumes "n \<noteq> 0"
  shows "set (days_back n d) = {x. day_weekday x < 5 \<and> weekday_before (n - 1) d \<le> x \<and> x \<le> d}"
proof -
  let ?l = "weekday_before (n - 1) d"
  have ne: "days_back n d \<noteq> []" using assms days_back_length [of n d] by force
  have l: "?l \<in> set (days_back n d)" using days_back_last [OF assms, of d] last_in_set [OF ne] by simp
  have "?l \<le> x" if "x \<in> set (days_back n d)" for x
  proof -
    have "days_back n d = butlast (days_back n d) @ [?l]" using append_butlast_last_id [OF ne] days_back_last [OF assms, of d] by simp
    then have "x = ?l \<or> x \<in> set (butlast (days_back n d))" "sorted_wrt (>) (butlast (days_back n d) @ [?l])"
      using that days_back_sorted [of n d] by (metis UnE empty_iff empty_set set_append set_ConsD, metis)
    then show ?thesis by (auto simp: sorted_wrt_append)
  qed
  then show ?thesis using l days_back_set days_back_all by blast
qed

lemma scan_count: "kept + 1 < m \<Longrightarrow> nat (m - kept - 1) = Suc (nat (m - (kept + 1) - 1))" for m kept :: int
  by simp

lemma chart_scan_last:
  "\<lbrakk>kept < max 1 days; d - weekday_before (nat (max 1 days - kept - 1)) d < int n\<rbrakk> \<Longrightarrow>
     chart_scan n days kept d start = weekday_before (nat (max 1 days - kept - 1)) d"
proof (induction n days kept d start rule: chart_scan.induct)
  case (1 days kept d start)
  then show ?case using weekday_before_le [of _ d] by (smt (verit) of_nat_0)
next
  case (2 n days kept d start)
  show ?case
  proof (cases "day_weekday d < 5")
    case True
    show ?thesis
    proof (cases "max 1 days \<le> kept + 1")
      case True
      then have z: "nat (max 1 days - kept - 1) = 0" using "2.prems"(1) by linarith
      show ?thesis unfolding z using \<open>day_weekday d < 5\<close> True weekday_before_step(3) by simp
    next
      case False
      then obtain k where k: "nat (max 1 days - kept - 1) = Suc k" "nat (max 1 days - (kept + 1) - 1) = k"
        by (metis scan_count "2.prems"(1) not_le)
      then show ?thesis using "2.IH"(1) [OF True False] "2.prems" True False weekday_before_step(2) [OF True, of k] by auto
    qed
  next
    case False
    then show ?thesis using "2.IH"(2) [OF False] "2.prems" weekday_before_step(1) [of d] by simp
  qed
qed

lemma weekday_before_reach: "d - weekday_before n d \<le> int n + 2 * (int n div 5) + 2"
proof -
  let ?w = "day_weekday d"
  have "(int n + 4 - min ?w 4) div 5 \<le> (int n + 4) div 5"
    using day_weekday_range(1) [of d] by (intro zdiv_mono1) auto
  moreover have "(int n + 4) div 5 \<le> (int n + 5) div 5" by (intro zdiv_mono1) auto
  moreover have "(int n + 5) div 5 = int n div 5 + 1" by simp
  moreover have "(int n + 4 - min ?w 4) div 5 = int n div 5" if "4 \<le> ?w" using that by (simp add: min_def)
  ultimately show ?thesis using day_weekday_range(2) [of d]
    by (cases "4 \<le> ?w") (simp_all add: weekday_before_def Let_def)
qed

lemma chart_budget:
  fixes days :: int
  shows "(days - 1) + 2 * ((days - 1) div 5) + 2 < (days * 7 + 4) div 5 + 2"
proof -
  have "5 * ((days - 1) div 5) \<le> days - 1" "(days * 7 + 4) - 5 * ((days * 7 + 4) div 5) \<le> 4"
    using minus_mod_eq_mult_div [of "days * 7 + 4" 5] pos_mod_bound [of 5 "days * 7 + 4"]
    by (simp_all add: mult.commute minus_mod_eq_mult_div [symmetric])
  then show ?thesis by linarith
qed

lemma weekdays_card:
  assumes "n \<noteq> 0"
  shows "card {x. day_weekday x < 5 \<and> weekday_before (n - 1) d \<le> x \<and> x \<le> d} = n"
proof -
  have "distinct (days_back n d)" using days_back_sorted [of n d] by (induction "days_back n d" arbitrary: n d) (auto simp: sorted_wrt_iff_nth_less distinct_conv_nth neq_iff)
  then show ?thesis using days_back_is_range [OF assms, of d] distinct_card [of "days_back n d"] by simp
qed


text \<open>The daily bar of the candles of a day.\<close>

definition day_bar :: "int \<Rightarrow> wcandle list \<Rightarrow> wcandle" where
  "day_bar day rs = \<lparr>wc_time = midnight day, wc_open = wc_open (hd rs), wc_high = Max (set (map wc_high rs)),
     wc_low = Min (set (map wc_low rs)), wc_close = wc_close (List.last rs), wc_volume = sum_list (map wc_volume rs)\<rparr>"

abbreviation ist_day :: "wcandle \<Rightarrow> int" where
  "ist_day r \<equiv> date_of (ist_at (wc_time r))"

lemma day_bar_snoc:
  "rs \<noteq> [] \<Longrightarrow> day_bar day (rs @ [r]) = (day_bar day rs)\<lparr>wc_high := max (wc_high (day_bar day rs)) (wc_high r),
     wc_low := min (wc_low (day_bar day rs)) (wc_low r), wc_close := wc_close r,
     wc_volume := wc_volume (day_bar day rs) + wc_volume r\<rparr>"
  by (simp add: day_bar_def max.commute min.commute)

lemma day_bar_single: "day_bar day [r] = r\<lparr>wc_time := midnight day\<rparr>"
  by (simp add: day_bar_def)

lemma day_step_map:
  "map_of (day_step ds r) = (map_of ds)(ist_day r \<mapsto>
     (case map_of ds (ist_day r) of
        None \<Rightarrow> r\<lparr>wc_time := midnight (ist_day r)\<rparr>
      | Some d \<Rightarrow> d\<lparr>wc_high := max (wc_high d) (wc_high r), wc_low := min (wc_low d) (wc_low r),
                   wc_close := wc_close r, wc_volume := wc_volume d + wc_volume r\<rparr>))"
  "distinct (map fst ds) \<Longrightarrow> distinct (map fst (day_step ds r))"
  by (simp_all add: day_step_def Let_def update_conv' distinct_update split: option.splits)

lemma day_fold:
  "distinct (map fst (fold (\<lambda>r ds. day_step ds r) rs [])) \<and>
   map_of (fold (\<lambda>r ds. day_step ds r) rs []) =
     (\<lambda>day. if day \<in> ist_day ` set rs then Some (day_bar day [r \<leftarrow> rs. ist_day r = day]) else None)"
proof (induction rs rule: rev_induct)
  case (snoc r rs)
  define ds where "ds = fold (\<lambda>r ds. day_step ds r) rs []"
  have d: "distinct (map fst ds)" and m: "map_of ds = (\<lambda>day. if day \<in> ist_day ` set rs then
      Some (day_bar day [r \<leftarrow> rs. ist_day r = day]) else None)"
    using snoc.IH by (simp_all add: ds_def)
  have no: "[r' \<leftarrow> rs. ist_day r' = ist_day r] = []" if "ist_day r \<notin> ist_day ` set rs"
    by (rule filter_False) (use that in \<open>metis imageI\<close>)
  have some: "[r' \<leftarrow> rs. ist_day r' = ist_day r] \<noteq> []" if "ist_day r \<in> ist_day ` set rs"
    using that by (auto simp: filter_empty_conv)
  have "map_of (day_step ds r) = (\<lambda>day. if day \<in> ist_day ` set (rs @ [r]) then
      Some (day_bar day [r \<leftarrow> rs @ [r]. ist_day r = day]) else None)"
  proof (rule ext)
    fix day
    show "map_of (day_step ds r) day = (if day \<in> ist_day ` set (rs @ [r]) then
        Some (day_bar day [r \<leftarrow> rs @ [r]. ist_day r = day]) else None)"
    proof (cases "day = ist_day r")
      case True
      then show ?thesis using no some by (cases "ist_day r \<in> ist_day ` set rs") (simp_all add: day_step_map m day_bar_snoc day_bar_single)
    qed (auto simp: day_step_map m)
  qed
  then show ?case using day_step_map(2) [OF d, of r] by (simp add: ds_def)
qed simp

text \<open>A loaded master: contracts under their root, once each, ordered by expiry, with an upper-case symbol of two words.\<close>

definition row_ok :: "contract \<Rightarrow> bool" where
  "row_ok c \<longleftrightarrow> upper (ct_symbol c) = ct_symbol c \<and> py_strip (ct_symbol c) = ct_symbol c \<and>
     ct_root c = first_word (ct_symbol c) \<and> ct_exchange c \<in> {''MCX'', ''NFO''} \<and>
     1 \<le> dy_month (ct_expiry c) \<and> dy_month (ct_expiry c) \<le> 12"

definition filed_ok :: "(string, contract list) dict \<Rightarrow> bool" where
  "filed_ok d \<longleftrightarrow> distinct (map fst d) \<and> list_all (\<lambda>(rt, cs). cs \<noteq> [] \<and> list_all (\<lambda>c. row_ok c \<and> ct_root c = rt) cs) d"

definition ids :: "(string, contract list) dict \<Rightarrow> string list" where
  "ids d = map ct_contract_id (concat (map snd d))"

lemma strptime_month: "strptime_date s = Some d \<Longrightarrow> 1 \<le> dy_month d \<and> dy_month d \<le> 12"
  by (auto simp: strptime_date_def split: list.splits option.splits if_splits)

lemma row_contract_ok: "row_contract r = Some c \<Longrightarrow> row_ok c"
  by (auto simp: row_contract_def row_ok_def Let_def py_strip_upper dest: strptime_month split: if_splits)

lemma filed_update:
  assumes "filed_ok d" "row_ok c"
  shows "filed_ok (AList.update (ct_root c) (get_default d (ct_root c) [] @ [c]) d)"
proof -
  have "set (AList.update k v d) \<subseteq> insert (k, v) (set d)" for k v by (induction d) auto
  moreover have "list_all (\<lambda>x. row_ok x \<and> ct_root x = ct_root c) (get_default d (ct_root c) [])"
    using assms(1) by (auto simp: get_default_def filed_ok_def list_all_iff dest: map_of_SomeD split: option.splits)
  ultimately show ?thesis using assms by (fastforce simp: filed_ok_def list_all_iff distinct_update)
qed

lemma mset_ids_update:
  "distinct (map fst d) \<Longrightarrow> mset (ids (AList.update k (get_default d k [] @ [c]) d)) = mset (ids d) + {#ct_contract_id c#}"
proof (induction d)
  case (Cons x d)
  then show ?case by (cases x) (auto simp: ids_def get_default_def map_of_eq_None_iff split: option.splits)
qed (simp add: ids_def get_default_def)

lemma load_rows_ok:
  "\<lbrakk>filed_ok d; distinct (ids d); set (ids d) \<subseteq> seen\<rbrakk> \<Longrightarrow>
     filed_ok (load_rows rs seen d) \<and> distinct (ids (load_rows rs seen d))"
proof (induction rs seen d rule: load_rows.induct)
  case (2 r rs seen d)
  show ?case
  proof (cases "Option.bind r row_contract")
    case (Some c)
    then have c: "row_ok c" using row_contract_ok by (cases r) auto
    show ?thesis
    proof (cases "ct_contract_id c \<in> seen")
      case False
      let ?d = "AList.update (ct_root c) (get_default d (ct_root c) [] @ [c]) d"
      have m: "mset (ids ?d) = mset (ids d @ [ct_contract_id c])" using mset_ids_update "2.prems"(1) by (simp add: filed_ok_def)
      then have "distinct (ids ?d)" "set (ids ?d) \<subseteq> insert (ct_contract_id c) seen"
        using "2.prems" False mset_eq_imp_distinct_iff [OF m] mset_eq_setD [OF m] by auto
      then show ?thesis using "2.IH"(3) [OF Some False filed_update [OF "2.prems"(1) c]] Some False by simp
    qed (use 2 Some in simp)
  qed (use 2 in simp)
qed simp

lemma sort_key_Nil [simp]: "sort_key f xs = [] \<longleftrightarrow> xs = []"
  by (metis length_0_conv length_sort)

lemma find_fact: "find P xs = Some c \<Longrightarrow> c \<in> set xs \<and> P c"
  by (auto simp: find_Some_iff)

lemma load_master_ok:
  "filed_ok (load_master rs) \<and> distinct (ids (load_master rs)) \<and>
   list_all (\<lambda>(rt, cs). sorted (map (\<lambda>c. ordinal (ct_expiry c)) cs)) (load_master rs)"
proof -
  let ?d = "load_rows rs {} []"
  have d: "filed_ok ?d" "distinct (ids ?d)" using load_rows_ok [of "[]" "{}" rs] by (simp_all add: filed_ok_def ids_def)
  have "mset (ids (map (\<lambda>(rt, cs). (rt, sort_key f cs)) xs)) = mset (ids xs)" for f :: "contract \<Rightarrow> int" and xs
    by (induction xs) (auto simp: ids_def)
  then have "mset (ids (load_master rs)) = mset (ids ?d)" by (simp add: load_master_def)
  then have "distinct (ids (load_master rs))" using d(2) mset_eq_imp_distinct_iff by blast
  moreover have "filed_ok (load_master rs)" using d(1)
    by (auto simp: load_master_def filed_ok_def list_all_iff comp_def split_beta)
  ultimately show ?thesis by (auto simp: load_master_def list_all_iff)
qed

lemma new_master_ok:
  "filed_ok (ms_contracts (new_master fs)) \<and> distinct (ids (ms_contracts (new_master fs))) \<and>
   list_all (\<lambda>(rt, cs). sorted (map (\<lambda>c. ordinal (ct_expiry c)) cs)) (ms_contracts (new_master fs))"
  by (induction fs) (use load_master_ok in \<open>auto simp: filed_ok_def ids_def split: csv_content.splits\<close>)

lemma contracts_sorted: "sorted (map (\<lambda>c. ordinal (ct_expiry c)) (contracts (new_master fs) rt))"
  using conjunct2 [OF conjunct2 [OF new_master_ok [of fs]]]
  by (auto simp: contracts_def get_default_def list_all_iff dest: map_of_SomeD split: option.splits)

lemma first_is_least:
  "sorted (map f xs) \<Longrightarrow> filter P xs = a # ys \<Longrightarrow> a \<in> set xs \<and> P a \<and> (\<forall>x \<in> set xs. P x \<longrightarrow> (f a :: int) \<le> f x)"
proof -
  assume s: "sorted (map f xs)" and f: "filter P xs = a # ys"
  have "sorted (map f (a # ys))" using sorted_filter [OF s, of P] f by simp
  moreover have "set (filter P xs) = insert a (set ys)" using f by simp
  ultimately show ?thesis by auto
qed

lemma upper_fixed: "upper s = s \<longleftrightarrow> list_all (\<lambda>c. upper_char c = c) s"
  by (induction s) (auto simp: upper_def)

lemma month_not_upper: "1 \<le> m \<Longrightarrow> m \<le> 12 \<Longrightarrow> \<not> list_all (\<lambda>c. upper_char c = c) (MONTHS ! nat (m - 1))"
proof -
  assume m: "1 \<le> m" "m \<le> 12"
  have "list_all (\<lambda>w. \<not> list_all (\<lambda>c. upper_char c = c) w) MONTHS" by code_simp
  moreover have "nat (m - 1) < length MONTHS" using m by (simp add: MONTHS_def nat_less_iff)
  ultimately show ?thesis by (simp add: list_all_length)
qed

lemma filed_contract:
  "filed_ok d \<Longrightarrow> c \<in> set (concat (map snd d)) \<Longrightarrow> row_ok c"
  by (auto simp: filed_ok_def list_all_iff)

lemma filed_lookup:
  "filed_ok d \<Longrightarrow> c \<in> set (get_default d rt []) \<Longrightarrow> c \<in> set (concat (map snd d)) \<and> ct_root c = rt"
proof -
  assume ok: "filed_ok d" and c: "c \<in> set (get_default d rt [])"
  then obtain cs where m: "(rt, cs) \<in> set d" "c \<in> set cs"
    by (cases "map_of d rt") (auto simp: get_default_def dest: map_of_SomeD)
  then have "c \<in> set (concat (map snd d))" by force
  moreover have "ct_root c = rt" using ok m by (auto simp: filed_ok_def list_all_iff)
  ultimately show ?thesis ..
qed

text \<open>All pairs of today's weekday and the rest of the window's length by seven.\<close>

lemma reach_table:
  fixes w r :: int
  assumes "0 \<le> w" "w < 7" "0 \<le> r" "r < 7" "(w - r) mod 7 < 5"
  shows "r \<le> max 0 (w - 4) + (r * 5 div 7 + 1 + 2 * ((r * 5 div 7 + 5 - min w 4) div 5)) \<longleftrightarrow> \<not> (w = 4 \<and> (w - r) mod 7 = 0)"
proof -
  have "list_all (\<lambda>w. list_all (\<lambda>r. (w - r) mod 7 < 5 \<longrightarrow>
      (r \<le> max 0 (w - 4) + (r * 5 div 7 + 1 + 2 * ((r * 5 div 7 + 5 - min w 4) div 5)) \<longleftrightarrow> \<not> (w = 4 \<and> (w - r) mod 7 = 0)))
      [0, 1, 2, 3, 4, 5, 6]) [0, 1, 2, 3, 4, 5, 6 :: int]" by code_simp
  moreover have "w \<in> {0, 1, 2, 3, 4, 5, 6}" "r \<in> {0, 1, 2, 3, 4, 5, 6}" using assms by auto
  ultimately show ?thesis using assms(5) unfolding list_all_iff by auto
qed

text \<open>Made-up bars.\<close>

definition draws_ok :: "bar_draws \<Rightarrow> bool" where
  "draws_ok g \<longleftrightarrow> \<bar>bd_ret g\<bar> \<le> 35 / 10000 \<and> \<bar>bd_drift g\<bar> \<le> 2 / 10000 \<and> \<bar>bd_gap g\<bar> \<le> 4 / 10000 \<and>
     0 \<le> bd_high g \<and> bd_high g \<le> 18 / 10000 \<and> 0 \<le> bd_low g \<and> bd_low g \<le> 18 / 10000 \<and> 0 \<le> bd_volume g \<and> bd_volume g \<le> 220"

definition bar_ok :: "wcandle \<Rightarrow> bool" where
  "bar_ok c \<longleftrightarrow> 0 \<le> wc_low c \<and> wc_low c \<le> wc_open c \<and> wc_low c \<le> wc_close c \<and> wc_open c \<le> wc_high c \<and>
     wc_close c \<le> wc_high c \<and> 0 \<le> wc_volume c"

lemma synth_bar_ok:
  assumes "draws_ok g" "0 < price" "0 \<le> lot" "synth_bar g minutes lot time k price = (c, close)"
  shows "bar_ok c \<and> wc_time c = time \<and> 0 < close"
proof -
  define op where "op = price * (if k \<noteq> 0 then 1 + bd_gap g else 1)"
  have c: "close = max (price * (1 + (bd_ret g * sqrt (of_int minutes) + bd_drift g))) (1 / 100)"
    "c = \<lparr>wc_time = time, wc_open = py_round 2 op, wc_high = py_round 2 (max op close * (1 + bd_high g)),
      wc_low = py_round 2 (min op close * (1 - bd_low g)), wc_close = py_round 2 close,
      wc_volume = py_int (lot * (30 + bd_volume g))\<rparr>"
    using assms(4) by (auto simp: synth_bar_def op_def Let_def)
  have pos: "0 < close" "0 < op" using assms(1,2) by (auto simp: c(1) op_def draws_ok_def abs_le_iff less_max_iff_disj)
  have shrink: "0 \<le> m * (1 - bd_low g) \<and> m * (1 - bd_low g) \<le> m" and grow: "m \<le> m * (1 + bd_high g)" if "0 < m" for m
    using assms(1) that by (simp_all add: draws_ok_def mult_left_le)
  have low: "0 \<le> min op close * (1 - bd_low g)" "min op close * (1 - bd_low g) \<le> op" "min op close * (1 - bd_low g) \<le> close"
    using shrink [of "min op close"] pos by auto
  have high: "op \<le> max op close * (1 + bd_high g)" "close \<le> max op close * (1 + bd_high g)"
    using grow [of "max op close"] pos by auto
  have "0 \<le> py_int (lot * (30 + bd_volume g))" using assms(1,3) by (simp add: draws_ok_def py_int_def)
  then show ?thesis using pos low high by (simp add: c(2) bar_ok_def py_round_mono py_round_nonneg)
qed

lemma synth_bars_ok:
  "\<lbrakk>\<And>i. draws_ok (draws i); 0 < price; 0 \<le> lot\<rbrakk> \<Longrightarrow>
     list_all bar_ok (synth_bars draws minutes n lot places i price) \<and>
     map wc_time (synth_bars draws minutes n lot places i price) = map (\<lambda>(t0, k). t0 + int k * n) places"
proof (induction places arbitrary: i price)
  case (Cons x places)
  obtain t0 k where x: "x = (t0, k)" by (cases x)
  obtain c close where b: "synth_bar (draws i) minutes lot (t0 + int k * n) k price = (c, close)" by fastforce
  from synth_bar_ok [OF Cons.prems(1,2,3) b] show ?case using Cons.IH [of close "Suc i"] Cons.prems x b by simp
qed simp

lemma places_sorted:
  assumes "sorted_wrt (<) days" "1 \<le> minutes" "minutes \<le> 375"
  shows "sorted_wrt (<) (map (\<lambda>(t0, k). t0 + int k * (if minutes < 375 then minutes * 60 else 375 * 60)) (bar_places minutes days))"
  using assms(1)
proof (induction days)
  case (Cons d days)
  let ?n = "if minutes < 375 then minutes * 60 else 375 * 60" and ?b = "\<lambda>(t0, k). t0 + int k * (if minutes < 375 then minutes * 60 else 375 * 60)"
  let ?k = "nat (SESSION_BAR_MINUTES div minutes)"
  have n: "0 < ?n" using assms by simp
  have one: "map ?b (bar_places minutes [d]) = map (\<lambda>k. session_first minutes d + int k * ?n) [0..<?k]"
    by (simp add: bar_places_def comp_def)
  have before: "x < session_first minutes d + 86400" if mem: "x \<in> set (map ?b (bar_places minutes [d]))" for x
  proof -
    obtain k where k: "k < ?k" "x = session_first minutes d + int k * ?n" using mem unfolding one by auto
    have "int k < SESSION_BAR_MINUTES div minutes" using k(1) by linarith
    then have "int k * minutes \<le> SESSION_BAR_MINUTES div minutes * minutes" using assms by (intro mult_right_mono) auto
    moreover have "SESSION_BAR_MINUTES div minutes * minutes \<le> SESSION_BAR_MINUTES" using assms by (simp add: SESSION_BAR_MINUTES_def minus_mod_eq_div_mult [symmetric])
    ultimately have "int k * minutes \<le> 375" by (simp add: SESSION_BAR_MINUTES_def)
    then show ?thesis using k(2) assms(3) by (simp add: mult.commute split: if_splits)
  qed
  have after: "session_first minutes d + 86400 \<le> y" if later: "y \<in> set (map ?b (bar_places minutes days))" for y
  proof -
    obtain d' k where d': "d' \<in> set days" "y = session_first minutes d' + int k * ?n" using later by (auto simp: bar_places_def)
    have "d + 1 \<le> d'" using Cons.prems d'(1) by auto
    then have "session_first minutes d + 86400 \<le> session_first minutes d'" by (simp add: session_first_def midnight_def)
    then show ?thesis using d'(2) n by (smt (verit) mult_nonneg_nonneg of_nat_0_le_iff)
  qed
  have "sorted_wrt (<) (map ?b (bar_places minutes [d]))" unfolding one using n
    by (auto simp: sorted_wrt_iff_nth_less)
  moreover have "bar_places minutes (d # days) = bar_places minutes [d] @ bar_places minutes days" by (simp add: bar_places_def)
  ultimately show ?case using Cons before after by (fastforce simp: sorted_wrt_append)
qed (simp add: bar_places_def)

text \<open>Recorded ticks.\<close>

definition grid_ok :: "int \<Rightarrow> (int, tick_bar) dict \<Rightarrow> bool" where
  "grid_ok n d \<longleftrightarrow> distinct (map fst d) \<and> list_all (\<lambda>(b, x). tb_time x = b \<and> b mod n = 0) d"

lemma line_step_ok: "grid_ok n d \<Longrightarrow> grid_ok n (line_step n s e l d)"
proof -
  assume g: "grid_ok n d"
  have sub: "set (AList.update k v d) \<subseteq> insert (k, v) (set d)" for k v by (induction d) auto
  have up: "grid_ok n (AList.update b x d)" if "tb_time x = b" "b mod n = 0" for b x
    using g sub [of b x] that by (fastforce simp: grid_ok_def list_all_iff distinct_update)
  have m: "(epoch_seconds t - epoch_seconds t mod n) mod n = 0" for t
    by (simp add: minus_mod_eq_mult_div)
  have "tb_time (get_default d b \<lparr>tb_time = b, tb_prices = [], tb_quantities = []\<rparr>) = b" for b
    using g by (auto simp: get_default_def grid_ok_def list_all_iff dest: map_of_SomeD split: option.splits)
  then show ?thesis unfolding line_step_def Let_def by (auto intro!: up m g split: option.splits)
qed

lemma recorded_ok:
  "sorted_wrt (<) (map tb_time (recorded_ticks files now iv s e)) \<and>
   list_all (\<lambda>b. tb_time b mod tick_span iv = 0) (recorded_ticks files now iv s e)"
proof -
  let ?pin = "map_option (\<lambda>t. case dt_tz t of None \<Rightarrow> t\<lparr>dt_tz := Some IST\<rparr> | Some _ \<Rightarrow> t)"
  define ls where "ls = concat (map files [date_of (case ?pin s of None \<Rightarrow> now | Some s \<Rightarrow> s)..
     (case ?pin e of None \<Rightarrow> date_of (case ?pin s of None \<Rightarrow> now | Some s \<Rightarrow> s) | Some e \<Rightarrow> date_of e)])"
  define d where "d = fold (line_step (tick_span iv) (?pin s) (?pin e)) ls []"
  have "grid_ok (tick_span iv) (fold (line_step (tick_span iv) (?pin s) (?pin e)) ls d0)" if "grid_ok (tick_span iv) d0" for d0
    using that by (induction ls arbitrary: d0) (simp_all add: line_step_ok)
  from this [of "[]"] have g: "grid_ok (tick_span iv) d" by (simp add: d_def grid_ok_def)
  have r: "recorded_ticks files now iv s e = map snd (sort_key fst d)"
    by (simp add: recorded_ticks_def Let_def d_def ls_def)
  have "map tb_time (map snd (sort_key fst d)) = map fst (sort_key fst d)"
    using g by (auto simp: grid_ok_def list_all_iff)
  moreover have "sorted_wrt (<) (map fst (sort_key fst d))" using g by (simp add: strict_sorted_iff grid_ok_def distinct_map)
  moreover have "list_all (\<lambda>b. tb_time b mod tick_span iv = 0) (map snd (sort_key fst d))"
    using g by (auto simp: grid_ok_def list_all_iff)
  ultimately show ?thesis by (simp only: r)
qed

section \<open>The properties\<close>

definition ist_date :: "datetime \<Rightarrow> int" where
  "ist_date t = date_of (case dt_tz t of None \<Rightarrow> t\<lparr>dt_tz := Some IST\<rparr> | Some _ \<Rightarrow> astimezone IST t)"

text \<open>C33: 
  The window of the chart: from midnight IST of a weekday, so that exactly the number of weekdays asked for (at least
  one) lie between it and today, today included.  The bound on the search is never what stops it.\<close>

theorem chart_start_spans:
  fixes now days
  defines "start \<equiv> chart_start now days"
  shows "day_weekday (date_of start) < 5 \<and> time_of_day start = 0 \<and> dt_tz start = Some IST \<and>
    card {x. day_weekday x < 5 \<and> date_of start \<le> x \<and> x \<le> ist_date now} = nat (max 1 days)"
proof -
  let ?d = "ist_date now" and ?n = "nat (max 1 days)"
  have n: "?n \<noteq> 0" by simp
  have "?d - weekday_before (nat (max 1 days - 0 - 1)) ?d < int (nat (max 21 ((days * 7 + 4) div 5 + 2)))"
  proof (cases "1 \<le> days")
    case True
    then have "?d - weekday_before (nat (days - 1)) ?d < (days * 7 + 4) div 5 + 2"
      using weekday_before_reach [of ?d "nat (days - 1)"] chart_budget [of days] by simp
    moreover have "int (nat (max 21 b)) = max 21 b" for b :: int by simp
    ultimately show ?thesis using True by (simp only: diff_0_right) (simp add: max.absorb2 less_max_iff_disj)
  next
    case False
    then show ?thesis using weekday_before_reach [of ?d 0] by simp
  qed
  from chart_scan_last [OF _ this, of ?d] have s: "date_of start = weekday_before (?n - 1) ?d" "time_of_day start = 0" "dt_tz start = Some IST"
    by (simp_all add: start_def chart_start_def ist_date_def Let_def date_of_def time_of_day_def nat_diff_distrib)
  have "days_back ?n ?d \<noteq> []" using days_back_length [of ?n ?d] n by (metis list.size(3))
  then have "day_weekday (date_of start) < 5" using days_back_last [OF n, of ?d] days_back_set s(1) by (metis last_in_set)
  then show ?thesis using s weekdays_card [OF n, of ?d] by simp
qed

text \<open>
  A normalised series: strictly ordered by time, one candle for each time that some readable row has, and the candle
  of a time is the first row that has it.\<close>

theorem normalised_series:
  fixes fromiso xs
  defines "readable \<equiv> List.map_filter (raw_candle fromiso) xs" and "out \<equiv> normalize_candles fromiso None xs"
  shows "sorted_wrt (<) (map wc_time out) \<and> wc_time ` set out = wc_time ` set readable \<and>
    list_all (\<lambda>c. find (\<lambda>x. wc_time x = wc_time c) readable = Some c) out"
  using normalize_sorted [of fromiso None xs] collect_times [of fromiso "{}" xs] collect_first [of _ fromiso "{}" xs]
  by (auto simp: out_def readable_def normalize_candles_def py_tail_def list_all_iff)

text \<open>
  What the service answers from a provider whose candles are strictly ordered: a strictly ordered series inside the
  window, for intraday bars before the close of the session, and no longer than a positive limit.\<close>

theorem service_window:
  assumes "service_candles now prov ex iv (Some lo) (Some hi) limit = Inr cs"
    "prov (Some lo) (Some hi) limit = Inr rows" "sorted_wrt (<) (map wc_time rows)"
  shows "sorted_wrt (<) (map wc_time cs) \<and>
    list_all (\<lambda>c. in_window (Some lo) (Some hi) (wc_time c) \<and>
      (lower iv \<in> set DAILY_TIMEFRAMES \<or> time_of_day (ist_at (wc_time c)) < session_close ex)) cs \<and>
    (case limit of Some k \<Rightarrow> k \<le> 0 \<or> int (length cs) \<le> k | None \<Rightarrow> True)"
proof -
  let ?w = "clamp_to_session ex iv [c \<leftarrow> rows. in_window (Some lo) (Some hi) (wc_time c)]"
  have cs: "cs = py_tail limit ?w" using assms(1,2) by (simp add: service_candles_def)
  have "sorted_wrt (<) (map wc_time ?w)" using assms(3) by (simp add: clamp_to_session_def sorted_wrt_map sorted_wrt_filter)
  then have sub: "set cs \<subseteq> set ?w" and srt: "sorted_wrt (<) (map wc_time cs)"
    using cs set_py_tail [of limit ?w] by (simp_all add: sorted_wrt_py_tail)
  then have "list_all (\<lambda>c. in_window (Some lo) (Some hi) (wc_time c) \<and>
      (lower iv \<in> set DAILY_TIMEFRAMES \<or> time_of_day (ist_at (wc_time c)) < session_close ex)) cs"
    by (cases "lower iv \<in> set DAILY_TIMEFRAMES") (auto simp: list_all_iff clamp_to_session_def dest!: subsetD [OF sub])
  moreover have "case limit of Some k \<Rightarrow> k \<le> 0 \<or> int (length cs) \<le> k | None \<Rightarrow> True"
  proof (cases limit)
    case (Some k)
    then show ?thesis using py_tail_bound [OF Some, of ?w] cs by (cases "0 < k") auto
  qed simp
  ultimately show ?thesis using srt by simp
qed

text \<open>
  The limit is also given to the store, which counts bars after the close that the service then removes: when the
  last \<open>k\<close> stored bars are such, a request for \<open>k\<close> candles has no answer, whatever came before them.\<close>

theorem limit_counts_ghost_bars:
  assumes "normalize_candles fromiso None (read (Some lo) (Some hi) (lower iv)) = cs @ ghosts"
    "list_all (\<lambda>c. session_close ex \<le> time_of_day (ist_at (wc_time c))) ghosts"
    "lower iv \<notin> set DAILY_TIMEFRAMES" "0 < length ghosts"
  shows "service_candles now (\<lambda>s e l. Inr (parquet_candles fromiso read iv s e l)) ex iv (Some lo) (Some hi)
    (Some (int (length ghosts))) = Inr []"
proof -
  have "parquet_candles fromiso read iv (Some lo) (Some hi) (Some (int (length ghosts))) = ghosts"
    using assms(1,4) by (simp add: stored_candles py_tail_length)
  moreover have "clamp_to_session ex iv (filter P ghosts) = []" for P
    using assms(2,3) by (auto simp: clamp_to_session_def list_all_iff filter_empty_conv)
  ultimately show ?thesis by (simp add: service_candles_def py_tail_def)
qed

text \<open>C25: The daily aggregation: one bar for each day that has candles, in order, made of that day's candles in order.\<close>

theorem daily_is_grouping:
  "aggregate_daily rs = map (\<lambda>day. day_bar day [r \<leftarrow> rs. ist_day r = day]) (sorted_list_of_set (ist_day ` set rs))"
proof -
  let ?d = "fold (\<lambda>r ds. day_step ds r) rs []"
  note d = day_fold [of rs]
  have "set (map fst ?d) = dom (map_of ?d)" by (simp add: dom_map_of_conv_image_fst)
  also have "\<dots> = ist_day ` set rs" unfolding conjunct2 [OF d] by (auto simp: dom_def split: if_splits)
  finally have keys: "map fst (sort_key fst ?d) = sorted_list_of_set (ist_day ` set rs)"
    using d by (intro sorted_distinct_set_unique) (simp_all add: distinct_map)
  have "snd x = day_bar (fst x) [r \<leftarrow> rs. ist_day r = fst x]" if "x \<in> set ?d" for x
    using conjunct2 [OF d] map_of_is_SomeI [OF conjunct1 [OF d], of "fst x" "snd x"] that by (simp split: if_splits)
  then have "aggregate_daily rs = map (\<lambda>day. day_bar day [r \<leftarrow> rs. ist_day r = day]) (map fst (sort_key fst ?d))"
    by (simp add: aggregate_daily_def)
  then show ?thesis by (simp only: keys)
qed

text \<open>
  The quote of a stored symbol that has daily bars: it reads one bar only, so that bar's close is also the previous
  close and the change is always nothing.\<close>

theorem parquet_quote_never_moves:
  assumes "List.map_filter (raw_candle fromiso) (read None None ''1d'') \<noteq> []"
  shows "\<exists>q. parquet_quote fromiso read sy ex = Inr q \<and> qd_change q = 0 \<and> qd_change_pct q = 0 \<and> qd_ltp q = py_round 2 (qd_prev_close q)"
proof -
  let ?rows = "parquet_candles fromiso read ''1d'' None None (Some 1)"
  have one: "lower ''1d'' = ''1d''" by code_simp
  have c: "collect fromiso {} (read None None ''1d'') \<noteq> []"
    using collect_times [of fromiso "{}" "read None None ''1d''"] assms by auto
  then have "normalize_candles fromiso None (read None None ''1d'') \<noteq> []"
    by (simp add: normalize_candles_def py_tail_def)
  then have "length ?rows = 1" by (cases "normalize_candles fromiso None (read None None ''1d'')") (simp_all add: stored_candles one py_tail_def)
  then obtain x where "?rows = [x]" by (metis One_nat_def length_0_conv length_Suc_conv)
  then show ?thesis by (simp add: parquet_quote_def close_quote_def pct_change_def Let_def)
qed

text \<open>
  A loaded master: every contract is filed once, under the first word of its symbol, and the contracts of a root are
  in the order of their expiries.\<close>

theorem loaded_master_ordered:
  "filed_ok (load_master rs) \<and> distinct (ids (load_master rs)) \<and>
   list_all (\<lambda>(rt, cs). sorted (map (\<lambda>c. ordinal (ct_expiry c)) cs)) (load_master rs)"
  by (rule load_master_ok)

text \<open>
  The front month: of the contracts that have not expired the one that expires first, and if all have expired the
  one that expired first.\<close>

theorem front_month_nearest:
  assumes "front_month today (new_master fs) rt = Some c"
  shows "c \<in> set (contracts (new_master fs) rt) \<and>
    (if ordinal today \<le> ordinal (ct_expiry c)
     then list_all (\<lambda>x. ordinal today \<le> ordinal (ct_expiry x) \<longrightarrow> ordinal (ct_expiry c) \<le> ordinal (ct_expiry x)) (contracts (new_master fs) rt)
     else list_all (\<lambda>x. ordinal (ct_expiry x) < ordinal today \<and> ordinal (ct_expiry c) \<le> ordinal (ct_expiry x)) (contracts (new_master fs) rt))"
proof -
  let ?cs = "contracts (new_master fs) rt" and ?P = "\<lambda>x. ordinal today \<le> ordinal (ct_expiry x)"
  note s = contracts_sorted [of fs rt]
  obtain c0 cs0 where cs: "?cs = c0 # cs0" using assms by (cases ?cs) (auto simp: front_month_def)
  show ?thesis
  proof (cases "filter ?P ?cs")
    case (Cons a ys)
    then have "c = a" using assms cs by (simp add: front_month_def)
    then show ?thesis using first_is_least [OF s Cons] by (auto simp: list_all_iff)
  next
    case Nil
    then have "c = c0" using assms cs by (simp add: front_month_def)
    moreover have "\<not> ?P x" if "x \<in> set ?cs" for x using Nil that by (simp add: filter_empty_conv)
    ultimately show ?thesis using s cs by (auto simp: list_all_iff not_le)
  qed
qed

text \<open>
  Resolving a name: where no contract id is in upper case throughout, as the ids of the broker are not, what a name
  resolves to is found by its symbol or by its root and the ISO date of its expiry; neither the id nor a date such as
  27Oct26 is ever found, because the name is made upper case first.\<close>

theorem resolved_by_symbol_or_date:
  assumes "resolve (new_master fs) s = Some c" "list_all (\<lambda>i. upper i \<noteq> i) (ids (ms_contracts (new_master fs)))"
  shows "ct_symbol c = upper (py_strip s) \<or> upper (py_strip s) = ct_root c @ '' '' @ isoformat (ct_expiry c)"
proof -
  let ?m = "ms_contracts (new_master fs)" and ?s = "upper (py_strip s)"
  have ok: "filed_ok ?m" using new_master_ok by blast
  show ?thesis
  proof (cases "find (\<lambda>c. ct_symbol c = ?s \<or> ct_contract_id c = ?s) (concat (map snd ?m))")
    case (Some c')
    then have "c' = c" using assms(1) by (simp add: resolve_def Let_def)
    moreover have "c' \<in> set (concat (map snd ?m))" "ct_symbol c' = ?s \<or> ct_contract_id c' = ?s" using find_fact [OF Some] by auto
    moreover have "upper (ct_contract_id c) \<noteq> ct_contract_id c" if "c \<in> set (concat (map snd ?m))"
      using assms(2) that by (auto simp: ids_def list_all_iff)
    ultimately show ?thesis by (metis upper_upper)
  next
    case None
    then obtain rt w ws where w: "split_words ?s = rt # w # ws" and
      f: "find (\<lambda>c. ?s \<in> {rt @ '' '' @ isoformat (ct_expiry c), rt @ '' '' @ day_month_year (ct_expiry c)}) (get_default ?m rt []) = Some c"
      using assms(1) by (auto simp: resolve_def Let_def split: list.splits)
    have c: "c \<in> set (get_default ?m rt [])" and
      e: "?s = rt @ '' '' @ isoformat (ct_expiry c) \<or> ?s = rt @ '' '' @ day_month_year (ct_expiry c)"
      using find_fact [OF f] by auto
    have r: "row_ok c" "ct_root c = rt" using filed_lookup [OF ok c] filed_contract [OF ok] by auto
    have "\<not> list_all (\<lambda>x. upper_char x = x) (MONTHS ! nat (dy_month (ct_expiry c) - 1))"
      using month_not_upper r(1) by (simp add: row_ok_def)
    moreover have "list_all (\<lambda>x. upper_char x = x) ?s" using upper_fixed [of ?s] by simp
    ultimately have "?s \<noteq> rt @ '' '' @ day_month_year (ct_expiry c)" by (auto simp: day_month_year_def)
    then show ?thesis using e r(2) by simp
  qed
qed

text \<open>
  The made-up series of a list of days: strictly ordered bars, all of them of every day, each with its open and close
  between its low and its high and none below zero.\<close>

theorem synthetic_bars_well_formed:
  assumes "\<And>i. draws_ok (draws i)" "0 < base" "0 \<le> lot" "sorted_wrt (<) days" "1 \<le> minutes" "minutes \<le> 375"
  shows "sorted_wrt (<) (map wc_time (synth_candles_of draws minutes lot days base)) \<and>
    list_all bar_ok (synth_candles_of draws minutes lot days base) \<and>
    length (synth_candles_of draws minutes lot days base) = length days * nat (375 div minutes)"
proof -
  let ?cs = "synth_candles_of draws minutes lot days base"
  let ?b = "\<lambda>(t0, k). t0 + int k * (if minutes < 375 then minutes * 60 else 375 * 60)"
  have "list_all bar_ok ?cs" and t: "map wc_time ?cs = map ?b (bar_places minutes days)"
    unfolding synth_candles_of_def using synth_bars_ok [of draws base lot] assms(1-3) by blast+
  moreover have "length ?cs = length (bar_places minutes days)" using arg_cong [OF t, of length] by simp
  moreover have "length (bar_places minutes days) = length days * nat (375 div minutes)"
    by (induction days) (simp_all add: bar_places_def SESSION_BAR_MINUTES_def)
  ultimately show ?thesis using places_sorted [OF assms(4-6)] by simp
qed

lemma sessions_reach_need:
  assumes "f \<le> today" "day_weekday f < 5" "days \<le> (today - f) * 5 div 7 + 2" "(today - f) * 5 div 7 + 2 \<le> MAX_SYNTH_SESSIONS"
  shows "f \<in> set (session_days days today (Some f)) \<longleftrightarrow> \<not> (day_weekday today = 4 \<and> day_weekday f = 0)"
proof -
  define q r where "q = (today - f) div 7" and "r = (today - f) mod 7"
  have tf: "today - f = 7 * q + r" "0 \<le> q" "0 \<le> r" "r < 7" using assms(1) by (simp_all add: q_def r_def pos_imp_zdiv_nonneg_iff)
  have need: "sessions_needed days today (Some f) = 5 * q + (r * 5) div 7 + 2"
  proof -
    have "(today - f) * 5 = r * 5 + (5 * q) * 7" using tf by simp
    then have "(today - f) * 5 div 7 = 5 * q + (r * 5) div 7" by simp
    moreover have "0 \<le> (today - f) * 5 div 7" using assms(1) by simp
    ultimately show ?thesis using assms(3,4) by (simp add: sessions_needed_def)
  qed
  define k where "k = 5 * q + (r * 5) div 7 + 1"
  have k: "0 \<le> k" using tf by (simp add: k_def)
  have n: "nat (sessions_needed days today (Some f)) = Suc (nat k)" using k unfolding need k_def by linarith
  have w: "day_weekday f = (day_weekday today - r) mod 7"
  proof -
    have "f + 3 = today + 3 - r - 7 * q" using tf by simp
    then have "(f + 3) mod 7 = (today + 3 - r) mod 7" by (metis mod_mult_self4 diff_add_cancel mult.commute mod_mult_self1)
    then show ?thesis by (simp add: day_weekday_def mod_diff_left_eq)
  qed
  have "f \<in> set (session_days days today (Some f)) \<longleftrightarrow> weekday_before (nat k) today \<le> f"
    unfolding session_days_def n set_rev using days_back_is_range [of "Suc (nat k)" today] assms(1,2) by simp
  also have "\<dots> \<longleftrightarrow> 7 * q + r \<le> max 0 (day_weekday today - 4) + (k + 2 * ((k + 4 - min (day_weekday today) 4) div 5))"
    using tf k by (auto simp: weekday_before_def Let_def)
  also have "(k + 4 - min (day_weekday today) 4) div 5 = q + (r * 5 div 7 + 5 - min (day_weekday today) 4) div 5"
  proof -
    have "k + 4 - min (day_weekday today) 4 = (r * 5 div 7 + 5 - min (day_weekday today) 4) + q * 5" by (simp add: k_def)
    then show ?thesis by simp
  qed
  also have "7 * q + r \<le> max 0 (day_weekday today - 4) + (k + 2 * (q + (r * 5 div 7 + 5 - min (day_weekday today) 4) div 5)) \<longleftrightarrow>
    r \<le> max 0 (day_weekday today - 4) + (r * 5 div 7 + 1 + 2 * ((r * 5 div 7 + 5 - min (day_weekday today) 4) div 5))"
    by (simp add: k_def add.assoc)
  also have "\<dots> \<longleftrightarrow> \<not> (day_weekday today = 4 \<and> day_weekday f = 0)"
    using reach_table [of "day_weekday today" r] day_weekday_range [of today] tf w assms(2) by simp
  finally show ?thesis .
qed

lemma days_back_grows: "m \<le> n \<Longrightarrow> set (days_back m d) \<subseteq> set (days_back n d)"
proof (induction m d arbitrary: n rule: days_back_induct)
  case (weekday m d)
  then obtain k where n: "n = Suc k" "m \<le> k" by (cases n) auto
  show ?case using weekday.IH [OF n(2)] by (auto simp: n(1) days_back_rules weekday.hyps)
next
  case (weekend m d)
  then obtain k where n: "n = Suc k" by (cases n) auto
  show ?case using weekend.IH [OF weekend.prems] by (simp add: n days_back_rules weekend.hyps)
qed simp

text \<open>One session more reaches a Monday from a Friday.\<close>

lemma friday_reaches_monday:
  assumes "f \<le> today" "day_weekday today = 4" "day_weekday f = 0"
  shows "f \<in> set (days_back (nat ((today - f) * 5 div 7 + 3)) today)"
proof -
  define q where "q = (today - f) div 7"
  have r: "(today - f) mod 7 = 4"
  proof -
    have "(today - f) mod 7 = ((today + 3) mod 7 - (f + 3) mod 7) mod 7" by (simp add: mod_diff_eq)
    then show ?thesis using assms(2,3) by (simp add: day_weekday_def)
  qed
  then have tf: "today - f = 7 * q + 4" "0 \<le> q"
    using assms(1) mult_div_mod_eq [of 7 "today - f"] by (auto simp: q_def pos_imp_zdiv_nonneg_iff)
  have "(today - f) * 5 = 20 + (5 * q) * 7" using tf by simp
  then have "(today - f) * 5 div 7 = 5 * q + 2" by simp
  then have n: "nat ((today - f) * 5 div 7 + 3) = Suc (nat (5 * q + 4))" using tf by simp
  have "(5 * q + 4 + 4 - 4) div 5 = q" by simp
  then have "weekday_before (nat (5 * q + 4)) today = f"
    using tf assms(2) by (simp add: weekday_before_def Let_def)
  then show ?thesis
    unfolding n using days_back_is_range [of "Suc (nat (5 * q + 4))" today] assms by simp
qed

text \<open>C34: 
  Whether the sessions made up for a window reach back to its first day, when that is a weekday (as the chart's own
  windows start on one) and the sessions needed for it stay within the horizon of 90: they do, unless today is a Friday,
  the window starts on a Monday (of this week or an earlier one) and the source's own number of days is not larger than
  the sessions computed for the window; then the session of that Monday is missing.\<close>

theorem sessions_reach_window:
  assumes "f \<le> today" "day_weekday f < 5" "(today - f) * 5 div 7 + 2 \<le> MAX_SYNTH_SESSIONS"
  shows "f \<in> set (session_days days today (Some f)) \<longleftrightarrow>
    \<not> (day_weekday today = 4 \<and> day_weekday f = 0 \<and> days \<le> (today - f) * 5 div 7 + 2)"
proof (cases "days \<le> (today - f) * 5 div 7 + 2")
  case True
  then show ?thesis using sessions_reach_need [OF assms(1,2) True assms(3)] by simp
next
  case False
  let ?n = "(today - f) * 5 div 7 + 2"
  have nn: "0 \<le> (today - f) * 5 div 7" using assms(1) by simp
  then have "sessions_needed days today (Some f) = days" using False assms(3) by (simp add: sessions_needed_def)
  then have s: "set (session_days days today (Some f)) = set (days_back (nat days) today)" by (simp add: session_days_def)
  have "f \<in> set (days_back (nat (?n + 1)) today)"
  proof (cases "day_weekday today = 4 \<and> day_weekday f = 0")
    case True
    then show ?thesis using friday_reaches_monday [OF assms(1)] by (simp add: add.commute)
  next
    case no: False
    have "f \<in> set (session_days ?n today (Some f))"
      using sessions_reach_need [OF assms(1,2) order_refl assms(3)] no by blast
    moreover have "sessions_needed ?n today (Some f) = ?n" using nn assms(3) by (simp add: sessions_needed_def)
    ultimately have "f \<in> set (days_back (nat ?n) today)" by (simp add: session_days_def)
    moreover have "nat ?n \<le> nat (?n + 1)" by (rule nat_mono) simp
    ultimately show ?thesis using days_back_grows by blast
  qed
  moreover have "nat (?n + 1) \<le> nat days" using False by (intro nat_mono) simp
  ultimately have "f \<in> set (session_days days today (Some f))" unfolding s using days_back_grows by blast
  then show ?thesis using False by blast
qed

text \<open>
  Recorded ticks come in bars on a grid of the epoch, strictly ordered; so no bar of recorded hourly ticks starts when
  an hourly candle of the exchange's session does.\<close>

theorem hourly_ticks_off_session:
  "sorted_wrt (<) (map tb_time (recorded_ticks files now ''1h'' s e)) \<and>
   list_all (\<lambda>b. tb_time b \<noteq> session_first 60 day + int k * 3600) (recorded_ticks files now ''1h'' s e)"
proof -
  have n: "tick_span ''1h'' = 3600" by code_simp
  have "(session_first 60 day + int k * 3600) mod 3600 = 2700"
  proof -
    have "session_open ''NSE'' div US = 33300" by code_simp
    then have "session_first 60 day + int k * 3600 = 2700 + (day * 24 + int k + 3) * 3600"
      by (simp add: session_first_def SESSION_BAR_MINUTES_def midnight_def IST_def)
    then show ?thesis by (simp only: mod_mult_self1) simp
  qed
  then have "tb_time b mod 3600 = 0 \<Longrightarrow> tb_time b \<noteq> session_first 60 day + int k * 3600" for b by auto
  then show ?thesis using recorded_ok [of files now "''1h''" s e] unfolding n by (auto simp: list_all_iff)
qed

text \<open>
  The made-up series is remembered by the first day of the window only: asked again on a later day with the same
  window, the provider answers with the series of the earlier day.\<close>

theorem synthetic_series_goes_stale:
  assumes "synth_series env today sy iv (Some f) cache = (Inr cs, cache')"
  shows "synth_series env later sy iv (Some f) cache' = (Inr cs, cache')"
  using assms by (auto simp: synth_series_def Let_def update_conv' split: option.splits list.splits sum.splits)

section \<open>Witnesses\<close>

definition demo_candle :: "int \<Rightarrow> real \<Rightarrow> wcandle" where
  "demo_candle t p = \<lparr>wc_time = t, wc_open = p, wc_high = p, wc_low = p, wc_close = p, wc_volume = 10\<rparr>"

text \<open>15:29, 15:31 and 15:32 IST of the first day: the last two are after the close.\<close>

definition ghost_store :: store where
  "ghost_store = (\<lambda>_ _ _. [RawCandle (demo_candle 35940 100), RawCandle (demo_candle 36060 101), RawCandle (demo_candle 36120 102)])"

lemma ghost_series:
  "normalize_candles (\<lambda>_. None) None (ghost_store s e iv) = [demo_candle 35940 100] @ [demo_candle 36060 101, demo_candle 36120 102]"
  by (simp add: normalize_candles_def ghost_store_def raw_candle_def demo_candle_def py_tail_def)

theorem limit_counts_ghost_bars_witness:
  "service_candles (aware 40000 IST) (\<lambda>s e l. Inr (parquet_candles (\<lambda>_. None) ghost_store ''1m'' s e l)) ''NSE'' ''1m''
     (Some (aware 0 IST)) (Some (aware 80000 IST)) (Some 2) = Inr []"
proof -
  have g: "list_all (\<lambda>c. session_close ''NSE'' \<le> time_of_day (ist_at (wc_time c))) [demo_candle 36060 101, demo_candle 36120 102]"
    "lower ''1m'' \<notin> set DAILY_TIMEFRAMES"
    by code_simp+
  from limit_counts_ghost_bars [where read = ghost_store and fromiso = "\<lambda>_. None" and lo = "aware 0 IST" and hi = "aware 80000 IST"
      and now = "aware 40000 IST" and iv = "''1m''", OF ghost_series g] show ?thesis by simp
qed

theorem service_window_witness:
  "\<exists>cs. service_candles (aware 40000 IST) (\<lambda>s e l. Inr (parquet_candles (\<lambda>_. None) ghost_store ''1m'' s e l)) ''NSE'' ''1m''
     (Some (aware 0 IST)) (Some (aware 80000 IST)) (Some 9) = Inr cs \<and> sorted_wrt (<) (map wc_time cs)"
proof -
  let ?prov = "\<lambda>s e l. Inr (parquet_candles (\<lambda>_. None) ghost_store ''1m'' s e l)"
  let ?rows = "parquet_candles (\<lambda>_. None) ghost_store ''1m'' (Some (aware 0 IST)) (Some (aware 80000 IST)) (Some 9)"
  obtain cs where c: "service_candles (aware 40000 IST) ?prov ''NSE'' ''1m'' (Some (aware 0 IST)) (Some (aware 80000 IST)) (Some 9) = Inr cs"
    by (simp add: service_candles_def Let_def)
  have "sorted_wrt (<) (map wc_time ?rows)" unfolding stored_candles by (intro sorted_wrt_py_tail normalize_sorted)
  from service_window [OF c refl this] c show ?thesis by blast
qed

theorem parquet_quote_never_moves_witness:
  "\<exists>q. parquet_quote (\<lambda>_. None) ghost_store ''NIFTY OCT FUT'' ''NFO'' = Inr q \<and> qd_change q = 0"
  using parquet_quote_never_moves [of "\<lambda>_. None" ghost_store "''NIFTY OCT FUT''" "''NFO''"]
  by (auto simp: ghost_store_def raw_candle_def map_filter_def)

definition demo_row :: "string \<Rightarrow> string \<Rightarrow> string \<Rightarrow> csv_row" where
  "demo_row custom trading expiry = \<lparr>cv_exchange = ''NSE'', cv_type = ''FUT'', cv_custom = custom, cv_trading = trading,
     cv_expiry = expiry, cv_lot = Num 75, cv_tick = Num 5, cv_security_id = Num 35000, cv_name = ''FUTIDX''\<rparr>"

definition demo_files :: "csv_file list" where
  "demo_files = [\<lparr>cf_name = ''all_instrument.csv'', cf_exists = True, cf_size = 10, cf_content = Lines
     [None, Some (demo_row ''NIFTY OCT'' ''NIFTY-Oct'' ''2026-10-27 14:30:00'')]\<rparr>]"

definition demo_contract :: contract where
  "demo_contract = \<lparr>ct_contract_id = ''NIFTY-Oct'', ct_symbol = ''NIFTY OCT'', ct_root = ''NIFTY'', ct_exchange = ''NFO'',
     ct_expiry = \<lparr>dy_year = 2026, dy_month = 10, dy_day = 27\<rparr>, ct_lot_size = 75, ct_tick_size = 5,
     ct_security_id = Some 35000, ct_instrument_name = ''FUTIDX''\<rparr>"

lemma demo_date: "strptime_date (py_strip ''2026-10-27 14:30:00'') = Some \<lparr>dy_year = 2026, dy_month = 10, dy_day = 27\<rparr>"
  by code_simp

lemma demo_names: "upper (py_strip ''NIFTY OCT'') = ''NIFTY OCT''" "py_strip ''NIFTY-Oct'' = ''NIFTY-Oct''"
  "upper (py_strip ''FUT'') = ''FUT''" "upper (py_strip ''NSE'') = ''NSE''" "upper (py_strip ''FUTIDX'') = ''FUTIDX''"
  "upper (py_strip ''NIFTY-Oct'') = ''NIFTY-OCT''" "split_words ''NIFTY-OCT'' = [''NIFTY-OCT'']" "upper ''NIFTY'' = ''NIFTY''"
  "upper ''NIFTY-Oct'' = ''NIFTY-OCT''"
  by code_simp+

lemma demo_master: "ms_contracts (new_master demo_files) = [(''NIFTY'', [demo_contract])]"
  by (simp add: demo_files_def demo_row_def load_master_def row_contract_def demo_date demo_names demo_contract_def
      first_word_def float_cell_def int_or_none_def get_default_def py_int_def)

theorem front_month_nearest_witness:
  "\<exists>c. front_month \<lparr>dy_year = 2026, dy_month = 10, dy_day = 1\<rparr> (new_master demo_files) ''NIFTY'' = Some c \<and>
     c \<in> set (contracts (new_master demo_files) ''NIFTY'')"
proof -
  obtain c where "front_month \<lparr>dy_year = 2026, dy_month = 10, dy_day = 1\<rparr> (new_master demo_files) ''NIFTY'' = Some c"
    by (simp add: front_month_def contracts_def demo_master demo_names get_default_def)
  with front_month_nearest [OF this] show ?thesis by blast
qed

text \<open>The contract is found by its symbol, not by its own id.\<close>

theorem resolved_by_symbol_or_date_witness:
  "resolve (new_master demo_files) ''NIFTY-Oct'' = None \<and>
   (\<exists>c. resolve (new_master demo_files) ''NIFTY OCT'' = Some c \<and>
     (ct_symbol c = ''NIFTY OCT'' \<or> ''NIFTY OCT'' = ct_root c @ '' '' @ isoformat (ct_expiry c)))"
proof -
  have n: "resolve (new_master demo_files) ''NIFTY-Oct'' = None"
    and c: "resolve (new_master demo_files) ''NIFTY OCT'' = Some demo_contract"
    and l: "list_all (\<lambda>i. upper i \<noteq> i) (ids (ms_contracts (new_master demo_files)))"
    by (simp_all add: resolve_def demo_master demo_names demo_contract_def ids_def del: split_words.simps)
  from resolved_by_symbol_or_date [OF c l] show ?thesis using c n demo_names(1) by auto
qed

theorem synthetic_bars_well_formed_witness:
  "list_all bar_ok (synth_candles_of (\<lambda>_. \<lparr>bd_ret = 0, bd_drift = 0, bd_gap = 0, bd_high = 0, bd_low = 0, bd_volume = 0\<rparr>) 5 25 [100, 101] 24800)"
  using synthetic_bars_well_formed [of "\<lambda>_. \<lparr>bd_ret = 0, bd_drift = 0, bd_gap = 0, bd_high = 0, bd_low = 0, bd_volume = 0\<rparr>" 24800 25 "[100, 101]" 5]
  by (simp add: draws_ok_def)

text \<open>Friday the 9th day and the Monday of its week before: the Monday is missing.\<close>

theorem sessions_reach_window_witness:
  "day_weekday (15 - 11) = 0 \<and> 15 - 11 \<notin> set (session_days 8 15 (Some (15 - 11)))"
  using sessions_reach_window [of "15 - 11" 15 8] by (simp add: day_weekday_def MAX_SYNTH_SESSIONS_def)

theorem synthetic_series_goes_stale_witness:
  "\<exists>cs c. synth_series \<lparr>se_draws = \<lambda>_ _ _. \<lparr>bd_ret = 0, bd_drift = 0, bd_gap = 0, bd_high = 0, bd_low = 0, bd_volume = 0\<rparr>,
       se_digest = \<lambda>_. 0, se_master = new_master [], se_days = 1\<rparr> 100 ''NIFTY'' ''1D'' (Some 99) [] = (Inr cs, c) \<and>
     synth_series \<lparr>se_draws = \<lambda>_ _ _. \<lparr>bd_ret = 0, bd_drift = 0, bd_gap = 0, bd_high = 0, bd_low = 0, bd_volume = 0\<rparr>,
       se_digest = \<lambda>_. 0, se_master = new_master [], se_days = 1\<rparr> 107 ''NIFTY'' ''1D'' (Some 99) c = (Inr cs, c)"
proof -
  let ?e = "\<lparr>se_draws = \<lambda>_ _ _. \<lparr>bd_ret = 0, bd_drift = 0, bd_gap = 0, bd_high = 0, bd_low = 0, bd_volume = 0\<rparr>,
       se_digest = \<lambda>_. 0, se_master = new_master [], se_days = 1\<rparr>"
  have "getitem BAR_MINUTES ''1D'' = Inr 375" "split_words ''NIFTY'' = [''NIFTY'']" by code_simp+
  then obtain cs c where s: "synth_series ?e 100 ''NIFTY'' ''1D'' (Some 99) [] = (Inr cs, c)"
    by (simp add: synth_series_def Let_def)
  from synthetic_series_goes_stale [OF s, of 107] s show ?thesis by blast
qed

end
