(* ===== verification/LivePump.thy ===== *)
theory LivePump
  imports Candles ChartData
begin

text \<open>
  \<open>api/live.py\<close>: the pump that forms the candles of the chart from the broker's ticks, one bar per subscribed symbol,
  broadcasts them, watches for silence and keeps the websocket feed connected.  Every time given to it is aware
  (its clock is IST).  Building the feed object is an argument (\<open>boot\<close>); overlays are computed elsewhere, the model
  records for which bar they are asked.

  The lemmas show that the bars handed to storage, with the open bar, are the in-order ticks of the session grouped
  by bar, that a status is sent once per silence and its end is never announced, that a subscription to a longer
  interval can silence a symbol until the next bar, that the number of subscriptions is bounded, and when reconnecting ends.
\<close>

section \<open>State\<close>

record live_bar =
  lb_time :: int
  lb_open :: real
  lb_high :: real
  lb_low :: real
  lb_close :: real
  lb_volume :: int

record sub =
  sb_symbol :: string
  sb_exchange :: string
  sb_interval :: string
  sb_span_s :: int
  sb_bar_start :: "int option"
  sb_bar :: "live_bar option"
  sb_last_tick :: "datetime option"
  sb_stale_emitted :: bool
  sb_feed_stale :: bool
  sb_strategy :: "string option"

datatype segment = SegMCX | SegNSE_FNO | SegBSE_FNO | SegIDX | SegNSE
datatype feed_mode = Full_mode | Quote_mode

type_synonym wire = "segment \<times> string \<times> feed_mode"

record pump =
  pm_enabled :: bool
  pm_provider :: string
  pm_real_feed :: bool
  pm_subs :: "(string, sub) dict"
  pm_stopped :: bool
  pm_feed :: bool
  pm_feed_started_at :: "real option"
  pm_last_msg_at :: "real option"
  pm_feed_error :: "string option"
  pm_sec_map :: "(string, string \<times> string) dict"
  pm_desired_wires :: "wire list"

text \<open>What leaves the pump: a bar to store, a bar whose overlays are wanted, and the messages to the clients.\<close>

datatype pump_out =
    Persisted string string string live_bar
  | OverlaysFor string string string "string option" live_bar
  | CandleMsg string string string live_bar datetime
  | StaleStatus string string int
  | StreamingStatus string string
  | TickHeard string string real int datetime
  | QuoteHeard quote_event

definition MAX_SUBS :: nat where
  "MAX_SUBS = 64"

definition STALE_US :: int where
  "STALE_US = 5 * US"

definition FEED_SILENT_RESTART_S :: real where
  "FEED_SILENT_RESTART_S = 30"

definition new_pump :: "bool \<Rightarrow> string \<Rightarrow> pump" where
  "new_pump enabled provider =
     \<lparr>pm_enabled = enabled, pm_provider = provider, pm_real_feed = False, pm_subs = [], pm_stopped = False,
      pm_feed = False, pm_feed_started_at = None, pm_last_msg_at = None, pm_feed_error = None, pm_sec_map = [],
      pm_desired_wires = []\<rparr>"

definition attach_broker_feed :: "pump \<Rightarrow> pump" where
  "attach_broker_feed p = p\<lparr>pm_real_feed := True\<rparr>"

definition span_seconds :: "string \<Rightarrow> int" where
  "span_seconds interval = get_default SPAN_MINUTES interval 1 * 60"

definition new_state :: "string \<Rightarrow> string \<Rightarrow> string \<Rightarrow> sub" where
  "new_state sy exchange interval =
     \<lparr>sb_symbol = sy, sb_exchange = exchange, sb_interval = interval, sb_span_s = span_seconds interval,
      sb_bar_start = None, sb_bar = None, sb_last_tick = None, sb_stale_emitted = False, sb_feed_stale = False,
      sb_strategy = None\<rparr>"

section \<open>Bars\<close>

text \<open>Epoch seconds of the session open on the date of \<open>now\<close>, and of the bar a tick belongs to.\<close>

definition session_start :: "string \<Rightarrow> datetime \<Rightarrow> int" where
  "session_start exchange now = date_of now * 86400 + session_open exchange div US - IST"

definition bar_start_of :: "int \<Rightarrow> string \<Rightarrow> datetime \<Rightarrow> int" where
  "bar_start_of secs exchange now =
     (let start = session_start exchange now; elapsed = max 0 (dt_abs 0 now - start * US) div US
      in start + elapsed div secs * secs)"

definition persist_and_overlay :: "bool \<Rightarrow> sub \<Rightarrow> live_bar \<Rightarrow> pump_out list" where
  "persist_and_overlay rf st b = (if rf then [Persisted (sb_symbol st) (sb_exchange st) (sb_interval st) b] else []) @
     [OverlaysFor (sb_symbol st) (sb_exchange st) (sb_interval st) (sb_strategy st) b]"

definition round_bar :: "live_bar \<Rightarrow> live_bar" where
  "round_bar b = b\<lparr>lb_open := py_round 2 (lb_open b), lb_high := py_round 2 (lb_high b), lb_low := py_round 2 (lb_low b),
                   lb_close := py_round 2 (lb_close b)\<rparr>"

definition apply_tick :: "bool \<Rightarrow> real \<Rightarrow> int \<Rightarrow> datetime \<Rightarrow> sub \<Rightarrow> sub \<times> pump_out list \<times> pump_out option" where
  "apply_tick rf price qty now st =
     (if price \<le> 0 \<or> \<not> is_market_open (sb_exchange st) now then (st, [], None)
      else
        (let start = bar_start_of (sb_span_s st) (sb_exchange st) now
         in if (case sb_bar_start st of None \<Rightarrow> False | Some p \<Rightarrow> start < p) then (st, [], None)
            else
              (let fresh = (sb_bar st = None \<or> sb_bar_start st \<noteq> Some start);
                   b = (if fresh then \<lparr>lb_time = start, lb_open = price, lb_high = price, lb_low = price, lb_close = price,
                                       lb_volume = 0\<rparr>
                        else the (sb_bar st));
                   b = b\<lparr>lb_high := max (lb_high b) price, lb_low := min (lb_low b) price, lb_close := price,
                         lb_volume := lb_volume b + max qty 0\<rparr>;
                   st' = st\<lparr>sb_bar_start := Some start, sb_bar := Some b\<rparr>;
                   out = (case sb_bar st of Some done' \<Rightarrow> if fresh then persist_and_overlay rf st done' else []
                                          | None \<Rightarrow> [])
               in (st', out, Some (CandleMsg (sb_symbol st) (sb_exchange st) (sb_interval st) (round_bar b) now)))))"

definition ingest_tick :: "string \<Rightarrow> real \<Rightarrow> int \<Rightarrow> datetime \<Rightarrow> pump \<Rightarrow> pump \<times> pump_out list" where
  "ingest_tick sy price qty now p =
     (case map_of (pm_subs p) (upper (py_strip sy)) of
        None \<Rightarrow> (p, [])
      | Some st \<Rightarrow>
          (case apply_tick (pm_real_feed p) price qty now (st\<lparr>sb_last_tick := Some now, sb_stale_emitted := False\<rparr>) of
             (st, out, msg) \<Rightarrow>
               (p\<lparr>pm_subs := AList.update (upper (py_strip sy)) st (pm_subs p)\<rparr>,
                out @ (case msg of None \<Rightarrow> [] | Some m \<Rightarrow> [m]) @
                [TickHeard (sb_symbol st) (sb_exchange st) price qty now])))"

section \<open>The watch over the subscriptions\<close>

definition watch_one :: "bool \<Rightarrow> datetime \<Rightarrow> sub \<Rightarrow> sub \<times> pump_out list" where
  "watch_one rf now st =
     (let open_now = is_market_open (sb_exchange st) now;
          (st, out) = (case sb_bar st of
             Some b \<Rightarrow> if \<not> open_now \<or> sb_last_tick st = None
                       then (st\<lparr>sb_bar := None, sb_bar_start := None\<rparr>, persist_and_overlay rf st b)
                       else (st, [])
           | None \<Rightarrow> (st, []))
      in if \<not> open_now then (st, out)
         else case sb_last_tick st of
                None \<Rightarrow> (st, out)
              | Some lt \<Rightarrow>
                  (let age = dt_abs 0 now - dt_abs 0 lt
                   in if STALE_US < age \<and> \<not> sb_stale_emitted st
                      then (st\<lparr>sb_stale_emitted := True, sb_feed_stale := True\<rparr>,
                            out @ [StaleStatus (sb_symbol st) (sb_exchange st) (age div US)])
                      else if age \<le> STALE_US \<and> sb_stale_emitted st
                      then (st\<lparr>sb_stale_emitted := False, sb_feed_stale := False\<rparr>,
                            out @ [StreamingStatus (sb_symbol st) (sb_exchange st)])
                      else (st, out)))"

fun watch_all :: "bool \<Rightarrow> datetime \<Rightarrow> (string, sub) dict \<Rightarrow> (string, sub) dict \<times> pump_out list" where
  "watch_all rf now [] = ([], [])"
| "watch_all rf now ((sy, st) # ds) =
     (case watch_one rf now st of (st', out) \<Rightarrow>
        (case watch_all rf now ds of (ds', out') \<Rightarrow> ((sy, st') # ds', out @ out')))"

text \<open>One turn of \<open>_run\<close>.\<close>

definition run_once :: "datetime \<Rightarrow> pump \<Rightarrow> pump \<times> pump_out list" where
  "run_once now p =
     (if \<not> pm_real_feed p then (p, [])
      else case watch_all True now (pm_subs p) of (ds, out) \<Rightarrow> (p\<lparr>pm_subs := ds\<rparr>, out))"

section \<open>The websocket feed\<close>

text \<open>What starting a feed object comes to: it runs, building it raises, starting the built object raises, or the
  thread that builds it does not finish in time.  \<open>pm_feed\<close> says whether the pump holds a feed object, dead or not.\<close>

datatype boot_result = Up | BuildFailed string | StartFailed string | TimedOut

record feed_env =
  fe_time :: real
  fe_master :: master
  fe_boot :: "wire list \<Rightarrow> boot_result"
  fe_subscribe :: "wire \<Rightarrow> string option"

definition wire_segment :: "string \<Rightarrow> segment" where
  "wire_segment exchange =
     (let e = upper exchange
      in if e = ''MCX'' then SegMCX
         else if e \<in> {''NFO'', ''NSE_FNO''} then SegNSE_FNO
         else if e \<in> {''BFO'', ''BSE_FNO''} then SegBSE_FNO
         else if e = ''INDEX'' then SegIDX else SegNSE)"

definition feed_needs_restart :: "real \<Rightarrow> pump \<Rightarrow> bool" where
  "feed_needs_restart now p =
     (if \<not> pm_feed p then True
      else case pm_last_msg_at p of
             Some t \<Rightarrow> FEED_SILENT_RESTART_S < now - t
           | None \<Rightarrow> (case pm_feed_started_at p of None \<Rightarrow> False | Some t \<Rightarrow> FEED_SILENT_RESTART_S < now - t))"

definition close_feed :: "pump \<Rightarrow> pump" where
  "close_feed p = p\<lparr>pm_feed := False, pm_feed_started_at := None\<rparr>"

definition start_dhan_feed :: "real \<Rightarrow> boot_result \<Rightarrow> pump \<Rightarrow> string option \<times> pump" where
  "start_dhan_feed now r p =
     (let up = p\<lparr>pm_feed := True, pm_feed_started_at := Some now, pm_last_msg_at := None\<rparr>
      in case r of Up \<Rightarrow> (None, up) | StartFailed e \<Rightarrow> (Some e, up) | BuildFailed e \<Rightarrow> (Some e, p)
         | TimedOut \<Rightarrow> (Some ''MarketFeed boot timed out'', p))"

definition add_wire :: "wire \<Rightarrow> wire list \<Rightarrow> wire list" where
  "add_wire w ws = (if w \<in> set ws then ws else ws @ [w])"

definition ensure_dhan_sub :: "feed_env \<Rightarrow> string \<Rightarrow> string \<Rightarrow> pump \<Rightarrow> bool \<times> pump" where
  "ensure_dhan_sub env sy exchange p =
     (let missing = (False, p\<lparr>pm_feed_error := Some (''no security_id for '' @ sy)\<rparr>)
      in case resolve (fe_master env) sy of
           None \<Rightarrow> missing
         | Some c \<Rightarrow>
             if ct_security_id c \<in> {None, Some 0} then missing
             else
               (let sec = str_int (the (ct_security_id c));
                    w = (wire_segment (ct_exchange c), sec, if ct_exchange c = ''INDEX'' then Quote_mode else Full_mode);
                    p = p\<lparr>pm_sec_map := AList.update sec (sy, exchange) (pm_sec_map p),
                          pm_desired_wires := add_wire w (pm_desired_wires p)\<rparr>;
                    (err, p) = (if feed_needs_restart (fe_time env) p
                                then start_dhan_feed (fe_time env) (fe_boot env (pm_desired_wires p)) (close_feed p)
                                else (fe_subscribe env w, p))
                in case err of
                     None \<Rightarrow> (True, p\<lparr>pm_feed_error := None\<rparr>)
                   | Some e \<Rightarrow> (False, close_feed (p\<lparr>pm_feed_error := Some e\<rparr>))))"

text \<open>The feed closed; the flag says whether a reconnecting thread is started.\<close>

definition on_feed_closed :: "string option \<Rightarrow> pump \<Rightarrow> bool \<times> pump" where
  "on_feed_closed err p =
     (\<not> pm_stopped p \<and> pm_desired_wires p \<noteq> [],
      p\<lparr>pm_feed := False, pm_feed_started_at := None,
        pm_feed_error := Some (case err of None \<Rightarrow> ''feed closed'' | Some e \<Rightarrow> ''feed closed: '' @ e)\<rparr>)"

text \<open>
  \<open>_reconnect\<close> over what happens before and at each pass: whether the pump has been stopped, the time, and what the
  attempt comes to.  The result has the delays slept and whether the loop still runs after these passes.
\<close>

fun reconnect_from :: "real \<Rightarrow> (bool \<times> real \<times> boot_result) list \<Rightarrow> pump \<Rightarrow> pump \<times> real list \<times> bool" where
  "reconnect_from delay [] p = (p, [], True)"
| "reconnect_from delay ((stopped, now, r) # ps) p =
     (let p = (if stopped then close_feed (p\<lparr>pm_stopped := True\<rparr>) else p)
      in if pm_stopped p \<or> pm_feed p then (p, [], False)
         else case start_dhan_feed now r p of
                (None, p) \<Rightarrow> (p\<lparr>pm_feed_error := None\<rparr>, [], False)
              | (Some e, p) \<Rightarrow>
                  (case reconnect_from (min (delay * 3 / 2) 30) ps (p\<lparr>pm_feed_error := Some e\<rparr>) of
                     (p, ds, running) \<Rightarrow> (p, delay # ds, running)))"

definition reconnect :: "(bool \<times> real \<times> boot_result) list \<Rightarrow> pump \<Rightarrow> pump \<times> real list \<times> bool" where
  "reconnect ps p = reconnect_from 2 ps p"

text \<open>A message of the feed, already translated into events.\<close>

fun on_feed_event :: "datetime \<Rightarrow> msg \<Rightarrow> pump \<Rightarrow> pump \<times> pump_out list" where
  "on_feed_event now (TickEvent e) p =
     (if 0 < tk_price e then ingest_tick (tk_symbol e) (tk_price e) (tk_quantity e) now p else (p, []))"
| "on_feed_event now (QuoteEvent e) p = (p, [QuoteHeard e])"
| "on_feed_event now _ p = (p, [])"

fun on_feed_events :: "datetime \<Rightarrow> msg list \<Rightarrow> pump \<Rightarrow> pump \<times> pump_out list" where
  "on_feed_events now [] p = (p, [])"
| "on_feed_events now (m # ms) p =
     (case on_feed_event now m p of (p, out) \<Rightarrow> (case on_feed_events now ms p of (p, out') \<Rightarrow> (p, out @ out')))"

definition on_dhan_message :: "real \<Rightarrow> datetime \<Rightarrow> msg list \<Rightarrow> pump \<Rightarrow> pump \<times> pump_out list" where
  "on_dhan_message t now events p = on_feed_events now events (p\<lparr>pm_last_msg_at := Some t\<rparr>)"

section \<open>Subscriptions\<close>

record sub_response =
  rs_symbol :: string
  rs_exchange :: string
  rs_interval :: string
  rs_status :: string
  rs_source :: string
  rs_reason :: "string option"

definition subscribe_sub ::
  "feed_env \<Rightarrow> datetime \<Rightarrow> string \<Rightarrow> string \<Rightarrow> string \<Rightarrow> string option \<Rightarrow> pump \<Rightarrow> (py_error + sub_response) \<times> pump" where
  "subscribe_sub env now sy exchange interval strategy p =
     (let sy = upper (py_strip sy); exchange = upper (if exchange = [] then ''NFO'' else exchange);
          answer = (\<lambda>status reason. \<lparr>rs_symbol = sy, rs_exchange = exchange, rs_interval = interval, rs_status = status,
                                     rs_source = pm_provider p, rs_reason = reason\<rparr>)
      in if \<not> pm_enabled p then (Inr (answer ''off'' (Some ''live streaming disabled'')), p)
         else if \<not> pm_real_feed p
         then (Inr (answer ''off'' (Some (''no real live feed (provider='' @ pm_provider p @ '')''))), p)
         else if map_of (pm_subs p) sy = None \<and> MAX_SUBS \<le> length (pm_subs p)
         then (Inl (ValueError (''subscription limit ('' @ str_nat MAX_SUBS @ '') reached'')), p)
         else
           (let st = (case map_of (pm_subs p) sy of None \<Rightarrow> new_state sy exchange interval | Some st \<Rightarrow> st);
                st = st\<lparr>sb_exchange := exchange, sb_interval := interval, sb_span_s := span_seconds interval,
                        sb_strategy := strategy\<rparr>;
                p = p\<lparr>pm_subs := AList.update sy st (pm_subs p)\<rparr>;
                (feed_ok, p) = (if pm_provider p = ''dhan'' then ensure_dhan_sub env sy exchange p else (True, p))
            in (Inr (if \<not> is_market_open exchange now then answer ''off'' (Some (exchange @ '' market closed''))
                     else if \<not> feed_ok
                     then answer ''off'' (Some (case pm_feed_error p of Some (c # cs) \<Rightarrow> c # cs | _ \<Rightarrow> ''dhan feed not connected''))
                     else answer ''streaming'' None), p)))"

definition unsubscribe_sub :: "string \<Rightarrow> pump \<Rightarrow> bool \<times> pump" where
  "unsubscribe_sub sy p =
     (let sy = upper (py_strip sy)
      in (map_of (pm_subs p) sy \<noteq> None, p\<lparr>pm_subs := AList.delete sy (pm_subs p)\<rparr>))"

text \<open>
  A message of a client of the websocket: text that is no JSON, JSON that is no object, or an object by its type, a
  missing key being \<open>None\<close> (\<open>WsOther\<close> has the \<open>repr\<close> of the type).  The left result is an exception that ends
  the connection.
\<close>

datatype ws_in =
    WsNotJson
  | WsNoObject
  | WsSubscribe "string option" "string option" "string option" "string option"
  | WsUnsubscribe "string option"
  | WsPing
  | WsOther string

datatype ws_out = WsError string | WsStatus sub_response | WsPong

fun ws_message :: "feed_env \<Rightarrow> datetime \<Rightarrow> ws_in \<Rightarrow> pump \<Rightarrow> (py_error + ws_out list) \<times> pump" where
  "ws_message env now WsNotJson p = (Inr [WsError ''invalid JSON''], p)"
| "ws_message env now WsNoObject p = (Inl (OtherError ''AttributeError''), p)"
| "ws_message env now (WsSubscribe sy exchange interval strategy) p =
     (let sy = upper (py_strip (case sy of None \<Rightarrow> [] | Some s \<Rightarrow> s))
      in if sy = [] then (Inr [WsError ''symbol required''], p)
         else case subscribe_sub env now sy (upper (case exchange of None \<Rightarrow> ''NFO'' | Some x \<Rightarrow> x))
                     (case interval of None \<Rightarrow> ''1m'' | Some i \<Rightarrow> i) strategy p of
                (Inl (ValueError e), p) \<Rightarrow> (Inr [WsError e], p)
              | (Inl e, p) \<Rightarrow> (Inl e, p)
              | (Inr r, p) \<Rightarrow> (Inr [WsStatus r], p))"
| "ws_message env now (WsUnsubscribe sy) p =
     (Inr [], snd (unsubscribe_sub (upper (case sy of None \<Rightarrow> [] | Some s \<Rightarrow> s)) p))"
| "ws_message env now WsPing p = (Inr [WsPong], p)"
| "ws_message env now (WsOther t) p = (Inr [WsError (''unknown message type '' @ t)], p)"

definition stop_pump :: "pump \<Rightarrow> pump" where
  "stop_pump p = close_feed (p\<lparr>pm_stopped := True\<rparr>)"

text \<open>What can happen to a pump, each at a time of its clock.\<close>

datatype pump_op =
    Subscribe feed_env string string string "string option"
  | Unsubscribe string
  | FeedMessage real "msg list"
  | FeedClosed "string option"
  | Watch

fun pump_do :: "pump_op \<Rightarrow> datetime \<Rightarrow> pump \<Rightarrow> pump \<times> pump_out list" where
  "pump_do (Subscribe env sy exchange interval strategy) now p =
     (snd (subscribe_sub env now sy exchange interval strategy p), [])"
| "pump_do (Unsubscribe sy) now p = (snd (unsubscribe_sub sy p), [])"
| "pump_do (FeedMessage t events) now p = on_dhan_message t now events p"
| "pump_do (FeedClosed err) now p = (snd (on_feed_closed err p), [])"
| "pump_do Watch now p = run_once now p"

fun pump_run :: "(pump_op \<times> datetime) list \<Rightarrow> pump \<Rightarrow> pump \<times> pump_out list" where
  "pump_run [] p = (p, [])"
| "pump_run ((x, now) # xs) p =
     (case pump_do x now p of (p, out) \<Rightarrow> (case pump_run xs p of (p, out') \<Rightarrow> (p, out @ out')))"

section \<open>Lemmas\<close>

lemma set_update_subset: "set (AList.update k v d) \<subseteq> insert (k, v) (set d)"
  by (induction d) auto

lemma subs_of_ensure [simp]: "pm_subs (snd (ensure_dhan_sub env sy ex p)) = pm_subs p"
  by (auto simp: ensure_dhan_sub_def start_dhan_feed_def close_feed_def Let_def split: option.splits boot_result.splits)

lemma real_feed_of_ensure [simp]: "pm_real_feed (snd (ensure_dhan_sub env sy ex p)) = pm_real_feed p"
  by (auto simp: ensure_dhan_sub_def start_dhan_feed_def close_feed_def Let_def split: option.splits boot_result.splits)

lemma ensure_keeps: "ensure_dhan_sub env sy ex p = (b, p') \<Longrightarrow> pm_subs p' = pm_subs p \<and> pm_real_feed p' = pm_real_feed p"
  using subs_of_ensure [of env sy ex p] real_feed_of_ensure [of env sy ex p] by simp

text \<open>What a subscription leaves of the table of subscriptions.\<close>

lemma subscribe_cases:
  assumes "subscribe_sub env now sy ex iv sid p = (r, p')"
  obtains "pm_subs p' = pm_subs p"
  | st where "map_of (pm_subs p) (upper (py_strip sy)) \<noteq> None \<or> length (pm_subs p) < MAX_SUBS"
      "pm_subs p' = AList.update (upper (py_strip sy)) (st\<lparr>sb_exchange := upper (if ex = [] then ''NFO'' else ex),
         sb_interval := iv, sb_span_s := span_seconds iv, sb_strategy := sid\<rparr>) (pm_subs p)"
      "st = (case map_of (pm_subs p) (upper (py_strip sy)) of
               None \<Rightarrow> new_state (upper (py_strip sy)) (upper (if ex = [] then ''NFO'' else ex)) iv | Some st \<Rightarrow> st)"
      "\<exists>a. r = Inr a"
  using assms
proof (cases "\<not> pm_enabled p \<or> \<not> pm_real_feed p \<or> map_of (pm_subs p) (upper (py_strip sy)) = None \<and> MAX_SUBS \<le> length (pm_subs p)")
  case True
  then have "pm_subs p' = pm_subs p" using assms by (auto simp: subscribe_sub_def Let_def split: if_splits)
  then show ?thesis by (rule that(1))
next
  case False
  then show ?thesis using assms
    by (intro that(2) [OF _ _ refl]) (auto simp: subscribe_sub_def Let_def split: if_splits prod.splits dest!: ensure_keeps)
qed

lemma apply_tick_keeps:
  assumes "apply_tick rf price qty now st = (st', out, msg)"
  shows "sb_symbol st' = sb_symbol st \<and> sb_exchange st' = sb_exchange st \<and> sb_interval st' = sb_interval st \<and>
    sb_span_s st' = sb_span_s st \<and> sb_last_tick st' = sb_last_tick st \<and> sb_stale_emitted st' = sb_stale_emitted st"
  using assms by (auto simp: apply_tick_def Let_def split: if_splits)

fun is_streaming :: "pump_out \<Rightarrow> bool" where
  "is_streaming (StreamingStatus _ _) = True"
| "is_streaming _ = False"

lemma persist_not_streaming [simp]: "x \<in> set (persist_and_overlay rf st b) \<Longrightarrow> \<not> is_streaming x"
  by (auto simp: persist_and_overlay_def split: if_splits)

lemma apply_tick_not_streaming:
  "apply_tick rf price qty now st = (st', out, msg) \<Longrightarrow>
     list_all (\<lambda>x. \<not> is_streaming x) out \<and> (\<forall>m. msg = Some m \<longrightarrow> \<not> is_streaming m)"
  by (auto simp: apply_tick_def Let_def list_all_iff split: if_splits option.splits)

text \<open>A symbol reported stale has been silent for more than the limit.\<close>

definition silent :: "datetime \<Rightarrow> sub \<Rightarrow> bool" where
  "silent now st \<longleftrightarrow> (sb_stale_emitted st \<longrightarrow> (\<exists>t. sb_last_tick st = Some t \<and> STALE_US < dt_abs 0 now - dt_abs 0 t))"

definition all_silent :: "datetime \<Rightarrow> (string, sub) dict \<Rightarrow> bool" where
  "all_silent now ds \<longleftrightarrow> list_all (\<lambda>(sy, st). silent now st) ds"

lemma silent_later: "silent now st \<Longrightarrow> dt_abs 0 now \<le> dt_abs 0 later \<Longrightarrow> silent later st"
  by (auto simp: silent_def)

lemma all_silent_later: "all_silent now ds \<Longrightarrow> dt_abs 0 now \<le> dt_abs 0 later \<Longrightarrow> all_silent later ds"
  by (auto simp: all_silent_def list_all_iff intro: silent_later)

lemma all_silent_update: "all_silent now ds \<Longrightarrow> silent now st \<Longrightarrow> all_silent now (AList.update sy st ds)"
  using set_update_subset [of sy st ds] by (auto simp: all_silent_def list_all_iff)

lemma all_silent_lookup: "all_silent now ds \<Longrightarrow> map_of ds sy = Some st \<Longrightarrow> silent now st"
  by (auto simp: all_silent_def list_all_iff dest: map_of_SomeD)

lemma watch_one_silent:
  assumes "watch_one rf now st = (st', out)" "silent now st"
  shows "silent now st' \<and> list_all (\<lambda>x. \<not> is_streaming x) out"
  using assms
  by (auto simp: watch_one_def silent_def Let_def list_all_iff split: if_splits option.splits prod.splits)

lemma watch_all_silent:
  "watch_all rf now ds = (ds', out) \<Longrightarrow> all_silent now ds \<Longrightarrow> all_silent now ds' \<and> list_all (\<lambda>x. \<not> is_streaming x) out"
  by (induction rf now ds arbitrary: ds' out rule: watch_all.induct)
     (auto simp: all_silent_def split: prod.splits dest!: watch_one_silent)

lemma ingest_silent:
  assumes "ingest_tick sy price qty now p = (p', out)" "all_silent now' (pm_subs p)"
  shows "all_silent now' (pm_subs p') \<and> list_all (\<lambda>x. \<not> is_streaming x) out"
proof (cases "map_of (pm_subs p) (upper (py_strip sy))")
  case (Some st)
  obtain st2 o2 msg where a: "apply_tick (pm_real_feed p) price qty now (st\<lparr>sb_last_tick := Some now, sb_stale_emitted := False\<rparr>) = (st2, o2, msg)"
    by (metis prod_cases3)
  have "silent now' st2" using apply_tick_keeps [OF a] by (simp add: silent_def)
  then show ?thesis using assms a Some apply_tick_not_streaming [OF a]
    by (auto simp: ingest_tick_def intro!: all_silent_update split: option.splits)
qed (use assms in \<open>auto simp: ingest_tick_def\<close>)

lemma feed_events_silent:
  "on_feed_events now ms p = (p', out) \<Longrightarrow> all_silent now' (pm_subs p) \<Longrightarrow>
     all_silent now' (pm_subs p') \<and> list_all (\<lambda>x. \<not> is_streaming x) out"
proof (induction now ms p arbitrary: p' out rule: on_feed_events.induct)
  case (2 now m ms p)
  obtain p1 o1 o2 where s: "on_feed_event now m p = (p1, o1)" "on_feed_events now ms p1 = (p', o2)" "out = o1 @ o2"
    using "2.prems"(1) by (auto split: prod.splits)
  have "all_silent now' (pm_subs p1) \<and> list_all (\<lambda>x. \<not> is_streaming x) o1"
    using s(1) "2.prems"(2) by (cases m) (auto split: if_splits dest: ingest_silent)
  then show ?case using "2.IH" [OF s(1) [symmetric] s(2)] s by auto
qed simp

lemma pump_do_silent:
  assumes "pump_do x now p = (p', out)" "all_silent now (pm_subs p)"
  shows "all_silent now (pm_subs p') \<and> list_all (\<lambda>x. \<not> is_streaming x) out"
proof (cases x)
  case (Subscribe env sy ex iv sid)
  obtain r where r: "subscribe_sub env now sy ex iv sid p = (r, p')" using assms(1) Subscribe by (cases "subscribe_sub env now sy ex iv sid p") simp
  have "all_silent now (pm_subs p')"
  proof (rule subscribe_cases [OF r])
    fix st assume u: "pm_subs p' = AList.update (upper (py_strip sy)) (st\<lparr>sb_exchange := upper (if ex = [] then ''NFO'' else ex),
         sb_interval := iv, sb_span_s := span_seconds iv, sb_strategy := sid\<rparr>) (pm_subs p)"
      and st: "st = (case map_of (pm_subs p) (upper (py_strip sy)) of
               None \<Rightarrow> new_state (upper (py_strip sy)) (upper (if ex = [] then ''NFO'' else ex)) iv | Some st \<Rightarrow> st)"
    have "silent now st" using all_silent_lookup [OF assms(2)] st by (auto simp: new_state_def silent_def split: option.splits)
    then show ?thesis unfolding u by (intro all_silent_update [OF assms(2)]) (simp add: silent_def)
  qed (use assms in simp)
  then show ?thesis using assms(1) Subscribe by simp
next
  case (Unsubscribe sy)
  have "set (AList.delete k ds) \<subseteq> set ds" for k and ds :: "(string, sub) dict" by (auto simp: AList.delete_eq)
  then show ?thesis using assms Unsubscribe
    by (fastforce simp: unsubscribe_sub_def Let_def all_silent_def list_all_iff)
next
  case (FeedMessage t events)
  then show ?thesis using assms feed_events_silent by (simp add: on_dhan_message_def)
next
  case (FeedClosed err)
  then show ?thesis using assms by (auto simp: on_feed_closed_def)
next
  case Watch
  then show ?thesis using assms by (auto simp: run_once_def split: if_splits prod.splits dest: watch_all_silent)
qed

lemma pump_run_silent:
  "\<lbrakk>pump_run xs p = (p', out); all_silent t0 (pm_subs p); sorted (map (\<lambda>(x, t). dt_abs 0 t) xs);
    list_all (\<lambda>(x, t). dt_abs 0 t0 \<le> dt_abs 0 t) xs\<rbrakk> \<Longrightarrow> list_all (\<lambda>x. \<not> is_streaming x) out"
proof (induction xs p arbitrary: t0 p' out rule: pump_run.induct)
  case (2 x now xs p)
  obtain p1 o1 o2 where s: "pump_do x now p = (p1, o1)" "pump_run xs p1 = (p', o2)" "out = o1 @ o2"
    using "2.prems"(1) by (auto split: prod.splits)
  have "all_silent now (pm_subs p)" using all_silent_later [OF "2.prems"(2)] "2.prems"(4) by simp
  from pump_do_silent [OF s(1) this] have "all_silent now (pm_subs p1)" "list_all (\<lambda>x. \<not> is_streaming x) o1" by auto
  moreover have "list_all (\<lambda>(x, t). dt_abs 0 now \<le> dt_abs 0 t) xs" using "2.prems"(3) by (auto simp: list_all_iff)
  ultimately show ?case using "2.IH" [OF s(1) [symmetric] s(2)] "2.prems"(3) s(3) by simp
qed simp


section \<open>The series of bars\<close>

definition live_ohlcv :: "live_bar \<Rightarrow> ohlcv" where
  "live_ohlcv b = (lb_time b, lb_open b, lb_high b, lb_low b, lb_close b, lb_volume b)"

fun stored_bar :: "string \<Rightarrow> pump_out \<Rightarrow> ohlcv option" where
  "stored_bar sy (Persisted s _ _ b) = (if s = sy then Some (live_ohlcv b) else None)"
| "stored_bar sy _ = None"

definition stored_bars :: "string \<Rightarrow> pump_out list \<Rightarrow> ohlcv list" where
  "stored_bars sy out = List.map_filter (stored_bar sy) out"

lemma stored_bars_simps [simp]:
  "stored_bars sy [] = []" "stored_bars sy (xs @ ys) = stored_bars sy xs @ stored_bars sy ys"
  "stored_bars sy (x # xs) = (case stored_bar sy x of None \<Rightarrow> stored_bars sy xs | Some b \<Rightarrow> b # stored_bars sy xs)"
  by (auto simp: stored_bars_def map_filter_def split: option.splits)

text \<open>The ticks that count for a symbol, with the quantity the bar adds.\<close>

definition counted :: "string \<Rightarrow> string \<Rightarrow> tick_event list \<Rightarrow> tick_event list" where
  "counted sy ex xs = map (\<lambda>e. e\<lparr>tk_quantity := max (tk_quantity e) 0\<rparr>)
     [e \<leftarrow> xs. upper (py_strip (tk_symbol e)) = sy \<and> 0 < tk_price e \<and> is_market_open ex (ts e)]"

definition live_series :: "string \<Rightarrow> sub \<Rightarrow> pump_out list \<Rightarrow> ohlcv list" where
  "live_series sy st out = stored_bars sy out @ (case sb_bar st of None \<Rightarrow> [] | Some b \<Rightarrow> [live_ohlcv b])"

text \<open>The subscription of a symbol after its ticks: the bars stored so far and the open one are those of the ticks.\<close>

definition follows :: "int \<Rightarrow> string \<Rightarrow> string \<Rightarrow> tick_event list \<Rightarrow> sub \<Rightarrow> pump_out list \<Rightarrow> bool" where
  "follows secs ex sy xs st out \<longleftrightarrow> sb_symbol st = sy \<and> sb_exchange st = ex \<and> sb_span_s st = secs \<and>
     live_series sy st out = bars_by (\<lambda>e. bar_start_of secs ex (ts e)) (counted sy ex xs) \<and>
     (case sb_bar st of None \<Rightarrow> sb_bar_start st = None \<and> counted sy ex xs = []
      | Some b \<Rightarrow> sb_bar_start st = Some (lb_time b) \<and> counted sy ex xs \<noteq> [])"

lemma counted_snoc:
  "counted sy ex (xs @ [e]) = counted sy ex xs @
     (if upper (py_strip (tk_symbol e)) = sy \<and> 0 < tk_price e \<and> is_market_open ex (ts e)
      then [e\<lparr>tk_quantity := max (tk_quantity e) 0\<rparr>] else [])"
  by (simp add: counted_def)

lemma follows_other:
  assumes "follows secs ex sy xs st out" "stored_bars sy out' = []"
    "upper (py_strip (tk_symbol e)) \<noteq> sy \<or> tk_price e \<le> 0 \<or> \<not> is_market_open ex (ts e)"
    "st' = st\<lparr>sb_last_tick := a, sb_stale_emitted := b\<rparr>"
  shows "follows secs ex sy (xs @ [e]) st' (out @ out')"
  using assms by (auto simp: follows_def live_series_def counted_snoc split: option.splits)

lemma follows_tick:
  assumes f: "follows secs ex sy xs st out" and sy: "upper (py_strip (tk_symbol e)) = sy"
    and a: "apply_tick True (tk_price e) (tk_quantity e) (ts e) (st\<lparr>sb_last_tick := l, sb_stale_emitted := se\<rparr>) = (st', out', msg)"
  shows "follows secs ex sy (xs @ [e]) st' (out @ out')"
proof (cases "0 < tk_price e \<and> is_market_open ex (ts e)")
  case False
  then have "st' = st\<lparr>sb_last_tick := l, sb_stale_emitted := se\<rparr>" "out' = []"
    using a f by (auto simp: apply_tick_def follows_def)
  then show ?thesis using follows_other [OF f, where out' = out' and e = e and st' = st' and a = l and b = se] False by auto
next
  case True
  let ?b = "\<lambda>e. bar_start_of secs ex (ts e)" and ?q = "max (tk_quantity e) 0"
  have c: "counted sy ex (xs @ [e]) = counted sy ex xs @ [e\<lparr>tk_quantity := ?q\<rparr>]" using True sy by (simp add: counted_snoc)
  show ?thesis
  proof (cases "sb_bar st")
    case None
    then have "counted sy ex xs = []" "stored_bars sy out = []" using f by (auto simp: follows_def live_series_def)
    then show ?thesis using None a f True c bars_by_first [of ?b "e\<lparr>tk_quantity := ?q\<rparr>"]
      by (auto simp: apply_tick_def follows_def live_series_def live_ohlcv_def Let_def)
  next
    case (Some b)
    then have "counted sy ex xs \<noteq> []" using f by (simp add: follows_def)
    from bars_by_snoc [OF this, of ?b "e\<lparr>tk_quantity := ?q\<rparr>"] show ?thesis using Some a f True c
      by (auto simp: apply_tick_def follows_def live_series_def live_ohlcv_def persist_and_overlay_def Let_def
          split: if_splits)
  qed
qed

text \<open>The table of subscriptions: one entry per symbol, filed under its own name, at most \<open>MAX_SUBS\<close> of them.\<close>

definition subs_ok :: "(string, sub) dict \<Rightarrow> bool" where
  "subs_ok ds \<longleftrightarrow> distinct (map fst ds) \<and> list_all (\<lambda>(k, st). sb_symbol st = k) ds \<and> length ds \<le> MAX_SUBS"

lemma subs_ok_update:
  assumes "subs_ok ds" "sb_symbol st = k" "map_of ds k \<noteq> None \<or> length ds < MAX_SUBS"
  shows "subs_ok (AList.update k st ds)"
proof -
  have "length (AList.update k st ds) = (if map_of ds k = None then Suc (length ds) else length ds)"
    by (induction ds) (auto simp: map_of_eq_None_iff)
  then show ?thesis using assms set_update_subset [of k st ds]
    by (auto simp: subs_ok_def list_all_iff distinct_update split: if_splits)
qed

lemma subs_ok_lookup: "subs_ok ds \<Longrightarrow> map_of ds k = Some st \<Longrightarrow> sb_symbol st = k"
  by (auto simp: subs_ok_def list_all_iff dest: map_of_SomeD)

lemma ingest_subs_ok:
  assumes "ingest_tick sy price qty now p = (p', out)" "subs_ok (pm_subs p)"
  shows "subs_ok (pm_subs p')"
proof (cases "map_of (pm_subs p) (upper (py_strip sy))")
  case (Some st)
  obtain st2 o2 msg where a: "apply_tick (pm_real_feed p) price qty now (st\<lparr>sb_last_tick := Some now, sb_stale_emitted := False\<rparr>) = (st2, o2, msg)"
    by (metis prod_cases3)
  show ?thesis using assms a Some apply_tick_keeps [OF a] subs_ok_lookup [OF assms(2) Some]
    by (auto simp: ingest_tick_def intro!: subs_ok_update)
qed (use assms in \<open>auto simp: ingest_tick_def\<close>)

lemma feed_events_subs_ok:
  "on_feed_events now ms p = (p', out) \<Longrightarrow> subs_ok (pm_subs p) \<Longrightarrow> subs_ok (pm_subs p')"
proof (induction now ms p arbitrary: p' out rule: on_feed_events.induct)
  case (2 now m ms p)
  obtain p1 o1 o2 where s: "on_feed_event now m p = (p1, o1)" "on_feed_events now ms p1 = (p', o2)"
    using "2.prems"(1) by (auto split: prod.splits)
  have "subs_ok (pm_subs p1)" using s(1) "2.prems"(2) by (cases m) (auto split: if_splits dest: ingest_subs_ok)
  then show ?case using "2.IH" [OF s(1) [symmetric] s(2)] by simp
qed simp

lemma watch_one_symbol: "watch_one rf now st = (st', out) \<Longrightarrow> sb_symbol st' = sb_symbol st"
  by (auto simp: watch_one_def Let_def split: if_splits option.splits prod.splits)

lemma watch_all_subs:
  "watch_all rf now ds = (ds', out) \<Longrightarrow> map fst ds' = map fst ds \<and>
     (list_all (\<lambda>(k, st). sb_symbol st = k) ds \<longrightarrow> list_all (\<lambda>(k, st). sb_symbol st = k) ds')"
  by (induction rf now ds arbitrary: ds' out rule: watch_all.induct) (auto split: prod.splits dest: watch_one_symbol)

lemma pump_do_subs_ok:
  assumes "pump_do x now p = (p', out)" "subs_ok (pm_subs p)"
  shows "subs_ok (pm_subs p')"
proof (cases x)
  case (Subscribe env sy ex iv sid)
  obtain r where r: "subscribe_sub env now sy ex iv sid p = (r, p')" using assms(1) Subscribe by (cases "subscribe_sub env now sy ex iv sid p") simp
  show ?thesis
  proof (rule subscribe_cases [OF r])
    fix st assume k: "map_of (pm_subs p) (upper (py_strip sy)) \<noteq> None \<or> length (pm_subs p) < MAX_SUBS"
      and u: "pm_subs p' = AList.update (upper (py_strip sy)) (st\<lparr>sb_exchange := upper (if ex = [] then ''NFO'' else ex),
         sb_interval := iv, sb_span_s := span_seconds iv, sb_strategy := sid\<rparr>) (pm_subs p)"
      and st: "st = (case map_of (pm_subs p) (upper (py_strip sy)) of
               None \<Rightarrow> new_state (upper (py_strip sy)) (upper (if ex = [] then ''NFO'' else ex)) iv | Some st \<Rightarrow> st)"
    have "sb_symbol st = upper (py_strip sy)" using st subs_ok_lookup [OF assms(2)] by (auto simp: new_state_def split: option.splits)
    then show ?thesis unfolding u by (intro subs_ok_update [OF assms(2)] k) simp
  qed (use assms in simp)
next
  case (Unsubscribe sy)
  have "length (AList.delete k ds) \<le> length ds" "set (AList.delete k ds) \<subseteq> set ds" for k and ds :: "(string, sub) dict"
    by (auto simp: AList.delete_eq)
  then show ?thesis using assms Unsubscribe
    by (fastforce simp: unsubscribe_sub_def Let_def subs_ok_def list_all_iff distinct_delete intro: order.trans)
next
  case (FeedMessage t events)
  then show ?thesis using assms feed_events_subs_ok by (simp add: on_dhan_message_def)
next
  case (FeedClosed err)
  then show ?thesis using assms by (auto simp: on_feed_closed_def)
next
  case Watch
  then show ?thesis using assms watch_all_subs
    by (auto simp: run_once_def subs_ok_def split: if_splits prod.splits dest: watch_all_subs dest!: map_eq_imp_length_eq)
qed

lemma pump_run_subs_ok: "pump_run xs p = (p', out) \<Longrightarrow> subs_ok (pm_subs p) \<Longrightarrow> subs_ok (pm_subs p')"
proof (induction xs p arbitrary: p' out rule: pump_run.induct)
  case (2 x now xs p)
  obtain p1 o1 o2 where s: "pump_do x now p = (p1, o1)" "pump_run xs p1 = (p', o2)"
    using "2.prems"(1) by (auto split: prod.splits)
  show ?case using "2.IH" [OF s(1) [symmetric] s(2)] pump_do_subs_ok [OF s(1) "2.prems"(2)] .
qed simp

lemma pump_run_append:
  "pump_run (xs @ ys) p = (case pump_run xs p of (p1, o1) \<Rightarrow> case pump_run ys p1 of (p2, o2) \<Rightarrow> (p2, o1 @ o2))"
  by (induction xs p rule: pump_run.induct) (auto split: prod.splits)

text \<open>A tick, as the feed delivers it at its own time.\<close>

definition tick_op :: "tick_event \<Rightarrow> pump_op \<times> datetime" where
  "tick_op e = (FeedMessage 0 [TickEvent e], ts e)"

lemma apply_tick_stores:
  "apply_tick rf price qty now st = (st', out, msg) \<Longrightarrow> sb_symbol st \<noteq> sy \<Longrightarrow> stored_bars sy out = []"
  by (auto simp: apply_tick_def persist_and_overlay_def Let_def split: if_splits option.splits)

lemma apply_tick_message:
  "apply_tick rf price qty now st = (st', out, msg) \<Longrightarrow> msg = Some m \<Longrightarrow> stored_bar sy m = None"
  by (auto simp: apply_tick_def Let_def split: if_splits option.splits)

lemma tick_op_follows:
  assumes r: "pump_do (fst (tick_op e)) (snd (tick_op e)) p = (p', out')" and rf: "pm_real_feed p"
    and ok: "subs_ok (pm_subs p)" and m: "map_of (pm_subs p) sy = Some st" and f: "follows secs ex sy xs st out"
  shows "pm_real_feed p' \<and> (\<exists>st'. map_of (pm_subs p') sy = Some st' \<and> follows secs ex sy (xs @ [e]) st' (out @ out'))"
proof (cases "0 < tk_price e \<and> map_of (pm_subs p) (upper (py_strip (tk_symbol e))) \<noteq> None")
  case False
  then have "pm_subs p' = pm_subs p" "out' = []" "pm_real_feed p'" using r rf
    by (auto simp: tick_op_def on_dhan_message_def ingest_tick_def split: if_splits)
  moreover have "follows secs ex sy (xs @ [e]) st (out @ [])"
    using False m by (intro follows_other [OF f, where a = "sb_last_tick st" and b = "sb_stale_emitted st"]) auto
  ultimately show ?thesis using m by auto
next
  case True
  let ?k = "upper (py_strip (tk_symbol e))"
  obtain s0 where s0: "map_of (pm_subs p) ?k = Some s0" using True by auto
  obtain s2 o2 msg where a: "apply_tick True (tk_price e) (tk_quantity e) (ts e) (s0\<lparr>sb_last_tick := Some (ts e), sb_stale_emitted := False\<rparr>) = (s2, o2, msg)"
    by (metis prod_cases3)
  have p': "pm_subs p' = AList.update ?k s2 (pm_subs p)" "pm_real_feed p'"
    and out': "stored_bars sy out' = stored_bars sy o2"
    using r True s0 a rf apply_tick_message [OF a]
    by (auto simp: tick_op_def on_dhan_message_def ingest_tick_def split: option.splits)
  show ?thesis
  proof (cases "?k = sy")
    case True
    then have "s0 = st" using s0 m by simp
    then have "follows secs ex sy (xs @ [e]) s2 (out @ o2)" using follows_tick [OF f True] a by blast
    then have "follows secs ex sy (xs @ [e]) s2 (out @ out')" using out' by (simp add: follows_def live_series_def)
    then show ?thesis using p' True by (auto simp: update_conv')
  next
    case False
    have "stored_bars sy o2 = []" using apply_tick_stores [OF a] subs_ok_lookup [OF ok s0] False by simp
    then have "follows secs ex sy (xs @ [e]) st (out @ out')" using out' False
      by (intro follows_other [OF f, where a = "sb_last_tick st" and b = "sb_stale_emitted st"]) auto
    then show ?thesis using p' False m by (auto simp: update_conv')
  qed
qed

lemma ticks_follow:
  assumes "pm_real_feed p" "subs_ok (pm_subs p)" "map_of (pm_subs p) sy = Some st" "sb_bar st = None" "sb_bar_start st = None"
    "pump_run (map tick_op xs) p = (p', out)"
  shows "pm_real_feed p' \<and> (\<exists>st'. map_of (pm_subs p') sy = Some st' \<and>
    follows (sb_span_s st) (sb_exchange st) sy xs st' out)"
  using assms(6)
proof (induction xs arbitrary: p' out rule: rev_induct)
  case Nil
  then show ?case using assms(1-5) subs_ok_lookup [OF assms(2,3)] by (auto simp: follows_def live_series_def counted_def)
next
  case (snoc e xs)
  obtain p1 o1 o2 where s: "pump_run (map tick_op xs) p = (p1, o1)" "pump_do (fst (tick_op e)) (snd (tick_op e)) p1 = (p', o2)" "out = o1 @ o2"
    using snoc.prems by (cases "tick_op e") (auto simp: pump_run_append split: prod.splits)
  from snoc.IH [OF s(1)] obtain st' where "pm_real_feed p1" "map_of (pm_subs p1) sy = Some st'"
    "follows (sb_span_s st) (sb_exchange st) sy xs st' o1" by blast
  then show ?case using tick_op_follows [OF s(2)] pump_run_subs_ok [OF s(1) assms(2)] s(3) by blast
qed

text \<open>At the session's edge the watch stores the open bar.\<close>

lemma watch_one_closed:
  "\<lbrakk>watch_one True now st = (st', out); \<not> is_market_open (sb_exchange st) now\<rbrakk> \<Longrightarrow> sb_bar st' = None \<and>
     stored_bars sy out = (if sb_symbol st = sy then case sb_bar st of None \<Rightarrow> [] | Some b \<Rightarrow> [live_ohlcv b] else [])"
  by (auto simp: watch_one_def persist_and_overlay_def split: option.splits)

lemma watch_one_others: "watch_one True now st = (st', out) \<Longrightarrow> sb_symbol st \<noteq> sy \<Longrightarrow> stored_bars sy out = []"
  by (auto simp: watch_one_def persist_and_overlay_def Let_def split: option.splits if_splits)

lemma watch_all_others:
  "\<lbrakk>watch_all True now ds = (ds', out); list_all (\<lambda>(k, st). sb_symbol st = k) ds; sy \<notin> fst ` set ds\<rbrakk> \<Longrightarrow> stored_bars sy out = []"
  by (induction "True" now ds arbitrary: ds' out rule: watch_all.induct) (auto split: prod.splits dest: watch_one_others [OF _ not_sym])

lemma watch_all_closed:
  "\<lbrakk>watch_all True now ds = (ds', out); list_all (\<lambda>(k, st). sb_symbol st = k) ds; distinct (map fst ds);
    map_of ds sy = Some st; \<not> is_market_open (sb_exchange st) now\<rbrakk> \<Longrightarrow>
     stored_bars sy out = (case sb_bar st of None \<Rightarrow> [] | Some b \<Rightarrow> [live_ohlcv b])"
proof (induction "True" now ds arbitrary: ds' out rule: watch_all.induct)
  case (2 now k s ds)
  obtain s1 o1 ds1 o2 where w: "watch_one True now s = (s1, o1)" "watch_all True now ds = (ds1, o2)" "out = o1 @ o2"
    using "2.prems"(1) by (auto split: prod.splits)
  show ?case
  proof (cases "k = sy")
    case True
    then show ?thesis using "2.prems" w watch_one_closed [OF w(1), of sy] watch_all_others [OF w(2), of sy] by simp
  next
    case False
    then show ?thesis using "2.prems" w(3) "2.hyps" [OF w(1) [symmetric] w(2)] watch_one_others [OF w(1), of sy] by simp
  qed
qed simp

text \<open>Reconnecting.\<close>

lemma reconnect_all_fail:
  "\<lbrakk>\<not> pm_stopped p; \<not> pm_feed p; 2 \<le> d; d \<le> 30\<rbrakk> \<Longrightarrow>
     \<exists>p' ds. reconnect_from d (map (\<lambda>(t, e). (False, t, BuildFailed e)) fs @ ps) p =
       (case reconnect_from (fold (\<lambda>_ d. min (d * 3 / 2) 30) fs d) ps p' of (p2, ds2, running) \<Rightarrow> (p2, ds @ ds2, running)) \<and>
     \<not> pm_stopped p' \<and> \<not> pm_feed p' \<and> length ds = length fs \<and> sorted ds \<and> list_all (\<lambda>x. d \<le> x \<and> x \<le> 30) ds"
proof (induction fs arbitrary: d p)
  case Nil
  then show ?case by (intro exI [of _ p] exI [of _ "[]"]) (simp split: prod.splits)
next
  case (Cons f fs)
  obtain t e where f: "f = (t, e)" by (cases f)
  let ?d = "min (d * 3 / 2) 30"
  have le: "d \<le> ?d" "?d \<le> 30" using Cons.prems by auto
  from Cons.IH [of "p\<lparr>pm_feed_error := Some e\<rparr>" ?d] Cons.prems le obtain p' ds where
    r: "reconnect_from ?d (map (\<lambda>(t, e). (False, t, BuildFailed e)) fs @ ps) (p\<lparr>pm_feed_error := Some e\<rparr>) =
       (case reconnect_from (fold (\<lambda>_ d. min (d * 3 / 2) 30) fs ?d) ps p' of (p2, ds2, running) \<Rightarrow> (p2, ds @ ds2, running))"
    and i: "\<not> pm_stopped p'" "\<not> pm_feed p'" "length ds = length fs" "sorted ds" "list_all (\<lambda>x. ?d \<le> x \<and> x \<le> 30) ds"
    by auto
  have "list_all (\<lambda>x. d \<le> x \<and> x \<le> 30) (d # ds)" using i(5) le Cons.prems by (auto simp: list_all_iff)
  moreover have "sorted (d # ds)" using i(4,5) le by (auto simp: list_all_iff)
  ultimately show ?case using r f i(1-3) Cons.prems
    by (intro exI [of _ p'] exI [of _ "d # ds"]) (simp add: start_dhan_feed_def split: prod.splits)
qed

section \<open>The properties\<close>

text \<open>C16: 
  Silence never ends: a tick clears the mark of a symbol reported stale before the watch can see it, so whatever is
  subscribed, received and watched, in the order of the clock, the message that a stale symbol streams again is
  never sent.\<close>

theorem silence_never_ends:
  assumes "pump_run xs (attach_broker_feed (new_pump en provider)) = (p', out)" "sorted (map (\<lambda>(x, t). dt_abs 0 t) xs)"
  shows "StreamingStatus sy ex \<notin> set out"
proof (cases xs)
  case (Cons y ys)
  have "all_silent (snd y) (pm_subs (attach_broker_feed (new_pump en provider)))"
    by (simp add: all_silent_def attach_broker_feed_def new_pump_def)
  moreover have "list_all (\<lambda>(x, t). dt_abs 0 (snd y) \<le> dt_abs 0 t) xs" using assms(2) Cons by (auto simp: list_all_iff split_beta)
  ultimately have "list_all (\<lambda>x. \<not> is_streaming x) out" using pump_run_silent [OF assms(1) _ assms(2)] by blast
  then show ?thesis by (auto simp: list_all_iff)
qed (use assms in simp)

text \<open>C7: 
  A session's bars: when a symbol has been subscribed, its ticks (and any of other symbols) have arrived and the
  watch has turned after the close, what has been stored for the symbol is exactly its ticks of positive price
  inside the session, those later than their bar dropped, grouped by the bar they fall in: the last bar included.\<close>

theorem session_bars_are_stored:
  assumes "pump_run (map tick_op xs @ [(Watch, now)]) p = (p', out)" "pm_real_feed p" "subs_ok (pm_subs p)"
    "map_of (pm_subs p) sy = Some st" "sb_bar st = None" "sb_bar_start st = None" "\<not> is_market_open (sb_exchange st) now"
  shows "stored_bars sy out = bars_by (\<lambda>e. bar_start_of (sb_span_s st) (sb_exchange st) (ts e)) (counted sy (sb_exchange st) xs)"
proof -
  obtain p1 o1 o2 where s: "pump_run (map tick_op xs) p = (p1, o1)" "run_once now p1 = (p', o2)" "out = o1 @ o2"
    using assms(1) by (auto simp: pump_run_append split: prod.splits)
  from ticks_follow [OF assms(2-6) s(1)] obtain st1 where t: "pm_real_feed p1" "map_of (pm_subs p1) sy = Some st1"
    "follows (sb_span_s st) (sb_exchange st) sy xs st1 o1" by blast
  obtain ds where w: "watch_all True now (pm_subs p1) = (ds, o2)" using s(2) t(1) by (auto simp: run_once_def split: prod.splits)
  have "sb_exchange st1 = sb_exchange st" using t(3) by (simp add: follows_def)
  then show ?thesis using watch_all_closed [OF w _ _ t(2)] pump_run_subs_ok [OF s(1) assms(3)] assms(7) t(3) s(3)
    by (simp add: subs_ok_def follows_def live_series_def)
qed

text \<open>C21: 
  Subscribing a symbol to a longer interval keeps its open bar: a tick that falls in a long bar begun before the
  open bar is taken for a late one, so the bar does not change and no candle is sent.\<close>

theorem resubscribe_freezes_bar:
  assumes "subscribe_sub env now sy ex iv sid p = (Inr r, p')" "pm_enabled p" "pm_real_feed p"
    "map_of (pm_subs p) (upper (py_strip sy)) = Some st" "sb_bar_start st = Some start" "ex \<noteq> []"
    "bar_start_of (span_seconds iv) (upper ex) t < start"
    "ingest_tick sy price qty t p' = (p'', out)"
  shows "map_option sb_bar (map_of (pm_subs p'') (upper (py_strip sy))) = Some (sb_bar st) \<and>
    out = [TickHeard (sb_symbol st) (upper ex) price qty t]"
proof -
  let ?k = "upper (py_strip sy)"
  let ?st = "st\<lparr>sb_exchange := upper ex, sb_interval := iv, sb_span_s := span_seconds iv, sb_strategy := sid\<rparr>"
  have "pm_subs p' = AList.update ?k ?st (pm_subs p) \<and> pm_real_feed p'"
    using assms(1-4,6) by (auto simp: subscribe_sub_def Let_def split: if_splits prod.splits dest!: ensure_keeps)
  then show ?thesis using assms(5,7,8)
    by (auto simp: ingest_tick_def apply_tick_def Let_def update_conv' split: if_splits)
qed

text \<open>C31: However the pump is driven, no more than \<open>MAX_SUBS\<close> symbols are subscribed, each once and under its name.\<close>

theorem subscriptions_bounded:
  "subs_ok (pm_subs (fst (pump_run xs (attach_broker_feed (new_pump en provider)))))"
  using pump_run_subs_ok [of xs "attach_broker_feed (new_pump en provider)"]
  by (cases "pump_run xs (attach_broker_feed (new_pump en provider))")
     (simp add: subs_ok_def attach_broker_feed_def new_pump_def)

text \<open>C28: 
  Reconnecting survives any number of failed builds: the loop goes on, sleeping between two and thirty seconds and
  never less than the time before, until a feed comes up.\<close>

theorem reconnect_persists:
  assumes "\<not> pm_stopped p" "\<not> pm_feed p"
    "reconnect (map (\<lambda>(t, e). (False, t, BuildFailed e)) fs @ [(False, now, Up)]) p = (p', ds, running)"
  shows "pm_feed p' \<and> pm_feed_error p' = None \<and> \<not> running \<and> length ds = length fs \<and> sorted ds \<and>
    list_all (\<lambda>d. 2 \<le> d \<and> d \<le> 30) ds"
  using reconnect_all_fail [OF assms(1,2), of 2 fs "[(False, now, Up)]"] assms(3)
  by (auto simp: reconnect_def start_dhan_feed_def)

text \<open>
  Not so a feed that was built and failed to start: the pump keeps the dead object, takes it for a running feed at
  the next pass and stops reconnecting.\<close>

theorem reconnect_gives_up:
  assumes "\<not> pm_stopped p" "\<not> pm_feed p" "reconnect ((False, t, StartFailed e) # (False, t', r) # ps) p = (p', ds, running)"
  shows "pm_feed p' \<and> pm_feed_error p' = Some e \<and> ds = [2] \<and> \<not> running"
  using assms by (auto simp: reconnect_def start_dhan_feed_def)

section \<open>Witnesses\<close>

definition nse_sub :: sub where
  "nse_sub = (new_state ''TCS'' ''NSE'' ''1m'')"

definition tcs_pump :: pump where
  "tcs_pump = (attach_broker_feed (new_pump True ''dhan''))\<lparr>pm_subs := [(''TCS'', nse_sub)]\<rparr>"

definition tcs_tick :: "int \<Rightarrow> real \<Rightarrow> tick_event" where
  "tcs_tick s p = (tick_at s p)\<lparr>ts := aware s IST\<rparr>"

definition no_feed :: feed_env where
  "no_feed = \<lparr>fe_time = 0, fe_master = new_master [], fe_boot = \<lambda>_. Up, fe_subscribe = \<lambda>_. None\<rparr>"

text \<open>The mark set by the watch is gone with the next tick.\<close>

theorem silence_never_ends_witness:
  "\<exists>p out. pump_run [(Subscribe no_feed ''TCS'' ''NSE'' ''1m'' None, aware 36000 IST), tick_op (tcs_tick 36000 100),
      (Watch, aware 36010 IST), tick_op (tcs_tick 36011 101), (Watch, aware 36012 IST)]
      (attach_broker_feed (new_pump True ''dhan'')) = (p, out) \<and> StreamingStatus ''TCS'' ''NSE'' \<notin> set out"
proof -
  let ?xs = "[(Subscribe no_feed ''TCS'' ''NSE'' ''1m'' None, aware 36000 IST), tick_op (tcs_tick 36000 100),
      (Watch, aware 36010 IST), tick_op (tcs_tick 36011 101), (Watch, aware 36012 IST)]"
  obtain p out where r: "pump_run ?xs (attach_broker_feed (new_pump True ''dhan'')) = (p, out)" by fastforce
  have "sorted (map (\<lambda>(x, t). dt_abs 0 t) ?xs)" by (simp add: tick_op_def tcs_tick_def tick_at_def dt_abs_def aware_def)
  from silence_never_ends [OF r this] r show ?thesis by blast
qed

theorem session_bars_are_stored_witness:
  "\<exists>p out. pump_run (map tick_op [tcs_tick 36000 100, tcs_tick 36030 102, tcs_tick 36061 101] @ [(Watch, aware 56000 IST)]) tcs_pump = (p, out) \<and>
     stored_bars ''TCS'' out = bars_by (\<lambda>e. bar_start_of 60 ''NSE'' (ts e))
       (counted ''TCS'' ''NSE'' [tcs_tick 36000 100, tcs_tick 36030 102, tcs_tick 36061 101])"
proof -
  let ?xs = "[tcs_tick 36000 100, tcs_tick 36030 102, tcs_tick 36061 101]"
  obtain p out where r: "pump_run (map tick_op ?xs @ [(Watch, aware 56000 IST)]) tcs_pump = (p, out)" by fastforce
  have "\<not> is_market_open ''NSE'' (aware 56000 IST)" by code_simp
  moreover have "span_seconds ''1m'' = 60" by code_simp
  ultimately show ?thesis using session_bars_are_stored [OF r, of "''TCS''" nse_sub] r
    by (simp add: tcs_pump_def nse_sub_def new_state_def attach_broker_feed_def subs_ok_def MAX_SUBS_def)
qed

text \<open>At 10:01 the 10:00 bar of a minute chart is done; asked for 15 minutes, ticks until 10:15 are dropped.\<close>

definition open_bar :: live_bar where
  "open_bar = \<lparr>lb_time = 16260, lb_open = 100, lb_high = 101, lb_low = 99, lb_close = 100, lb_volume = 5\<rparr>"

definition barred_pump :: pump where
  "barred_pump = tcs_pump\<lparr>pm_provider := ''mock'', pm_subs := [(''TCS'', nse_sub\<lparr>sb_bar_start := Some 16260, sb_bar := Some open_bar\<rparr>)]\<rparr>"

theorem resubscribe_freezes_bar_witness:
  "\<exists>r p p' out. subscribe_sub no_feed (aware 36070 IST) ''TCS'' ''NSE'' ''15m'' None barred_pump = (Inr r, p) \<and>
     ingest_tick ''TCS'' 105 5 (aware 36075 IST) p = (p', out) \<and>
     map_option sb_bar (map_of (pm_subs p') ''TCS'') = Some (Some open_bar) \<and>
     out = [TickHeard ''TCS'' ''NSE'' 105 5 (aware 36075 IST)]"
proof -
  have tcs: "upper (py_strip ''TCS'') = ''TCS''" "upper ''NSE'' = ''NSE''" by code_simp+
  obtain r p where s: "subscribe_sub no_feed (aware 36070 IST) ''TCS'' ''NSE'' ''15m'' None barred_pump = (Inr r, p)"
    by (simp add: subscribe_sub_def barred_pump_def tcs_pump_def nse_sub_def new_state_def attach_broker_feed_def new_pump_def
        Let_def tcs MAX_SUBS_def)
  obtain p' out where i: "ingest_tick ''TCS'' 105 5 (aware 36075 IST) p = (p', out)" by fastforce
  have "bar_start_of (span_seconds ''15m'') ''NSE'' (aware 36075 IST) < 16260" by code_simp
  then show ?thesis using resubscribe_freezes_bar [OF s _ _ _ _ _ _ i, of "nse_sub\<lparr>sb_bar_start := Some 16260, sb_bar := Some open_bar\<rparr>" 16260]
      s i tcs
    by (simp add: barred_pump_def tcs_pump_def attach_broker_feed_def new_pump_def nse_sub_def new_state_def)
qed

theorem reconnect_persists_witness:
  "\<exists>p ds. reconnect (map (\<lambda>(t, e). (False, t, BuildFailed e)) [(0, ''refused''), (2, ''refused'')] @ [(False, 5, Up)])
      tcs_pump = (p, ds, False) \<and> pm_feed p \<and> length ds = 2"
proof -
  let ?fs = "[(0, ''refused''), (2, ''refused'')]"
  obtain p ds running where r: "reconnect (map (\<lambda>(t, e). (False, t, BuildFailed e)) ?fs @ [(False, 5, Up)]) tcs_pump = (p, ds, running)"
    by (metis prod_cases3)
  from reconnect_persists [OF _ _ r] r show ?thesis
    by (simp add: tcs_pump_def attach_broker_feed_def new_pump_def)
qed

theorem reconnect_gives_up_witness:
  "\<exists>p. reconnect [(False, 0, StartFailed ''refused''), (False, 2, Up)] tcs_pump = (p, [2], False) \<and>
     pm_feed p \<and> pm_feed_error p = Some ''refused''"
proof -
  obtain p ds running where r: "reconnect ((False, 0, StartFailed ''refused'') # (False, 2, Up) # []) tcs_pump = (p, ds, running)"
    by (metis prod_cases3)
  from reconnect_gives_up [OF _ _ r] r show ?thesis
    by (simp add: tcs_pump_def attach_broker_feed_def new_pump_def)
qed

end
