(* ===== verification/Wire.thy ===== *)
theory Wire
  imports Prelude
begin

text \<open>
  \<open>ntrade/domain/coercion.py\<close>: the scalars of wire frames and their coercion to text, floats and ints.

  A wire value is a JSON or data-frame scalar; \<open>WNA\<close> is \<open>pandas.NA\<close>, whose comparisons give \<open>NA\<close>
  again and which has no truth value.  A float is a \<open>wnum\<close>: the non-numbers and infinities matter
  here, because they pass through some coercions and stop others.  \<open>py_float_text\<close> is \<open>float(s)\<close> on
  ASCII text.

  The lemmas show that the coercions fall back on their default for everything \<open>float\<close> rejects, that
  they read back the text of an int, that a first-of search skips exactly the missing fields, and
  which values escape the fallback: an infinity in \<open>to_int\<close>, and \<open>pandas.NA\<close> in \<open>_is_missing\<close>.
\<close>

section \<open>Values\<close>

datatype wnum = Fin real | Nan | PosInf | NegInf

datatype wval = WNone | WNA | WBool bool | WInt int | WFloat wnum | WText string

text \<open>Comparisons and truth of floats: nothing compares with a non-number, which is true.\<close>

fun num_eq :: "wnum \<Rightarrow> wnum \<Rightarrow> bool" where
  "num_eq Nan y = False"
| "num_eq x Nan = False"
| "num_eq x y = (x = y)"

fun num_pos :: "wnum \<Rightarrow> bool" where
  "num_pos (Fin x) = (0 < x)"
| "num_pos PosInf = True"
| "num_pos x = False"

definition num_true :: "wnum \<Rightarrow> bool" where
  "num_true x \<longleftrightarrow> x \<noteq> Fin 0"

section \<open>Reading a float\<close>

definition is_digit :: "char \<Rightarrow> bool" where
  "is_digit c \<longleftrightarrow> 48 \<le> (of_char c :: nat) \<and> (of_char c :: nat) \<le> 57"

text \<open>A run of digits with single underscores between digits; without the underscores.\<close>

fun digit_tail :: "string \<Rightarrow> string option" where
  "digit_tail [] = Some []"
| "digit_tail (c # cs) =
     (if is_digit c then map_option ((#) c) (digit_tail cs)
      else if c = CHR ''_'' then (case cs of
             [] \<Rightarrow> None
           | d # ds \<Rightarrow> if is_digit d then map_option ((#) d) (digit_tail ds) else None)
      else None)"

definition digit_run :: "string \<Rightarrow> string option" where
  "digit_run s = (case s of [] \<Rightarrow> Some [] | c # cs \<Rightarrow> if is_digit c then digit_tail s else None)"

text \<open>The text before the first character satisfying \<open>p\<close>, and what follows it if there is one.\<close>

definition cut_at :: "(char \<Rightarrow> bool) \<Rightarrow> string \<Rightarrow> string \<times> string option" where
  "cut_at p s = (takeWhile (\<lambda>c. \<not> p c) s, case dropWhile (\<lambda>c. \<not> p c) s of [] \<Rightarrow> None | c # cs \<Rightarrow> Some cs)"

definition signed :: "string \<Rightarrow> bool \<times> string" where
  "signed s =
     (case s of
        c # cs \<Rightarrow> if c = CHR ''-'' then (True, cs) else if c = CHR ''+'' then (False, cs) else (False, s)
      | [] \<Rightarrow> (False, s))"

definition exponent_of :: "string option \<Rightarrow> int option" where
  "exponent_of e =
     (case e of
        None \<Rightarrow> Some 0
      | Some s \<Rightarrow>
          (case signed s of (neg, ds) \<Rightarrow>
             (case digit_run ds of
                None \<Rightarrow> None
              | Some r \<Rightarrow> if r = [] then None
                           else Some (if neg then - int (digits_val r) else int (digits_val r)))))"

definition decimal :: "string \<Rightarrow> real option" where
  "decimal s =
     (case cut_at (\<lambda>c. c = CHR ''e'' \<or> c = CHR ''E'') s of (m, e) \<Rightarrow>
     (case cut_at (\<lambda>c. c = CHR ''.'') m of (whole, dec) \<Rightarrow>
     (case (digit_run whole, digit_run (case dec of None \<Rightarrow> [] | Some f \<Rightarrow> f), exponent_of e) of
        (Some w, Some f, Some k) \<Rightarrow>
          if w = [] \<and> f = [] then None
          else Some (of_nat (digits_val (w @ f)) * 10 powi (k - int (length f)))
      | _ \<Rightarrow> None)))"

definition py_float_text :: "string \<Rightarrow> wnum option" where
  "py_float_text s =
     (case signed (py_strip s) of (neg, t) \<Rightarrow>
        if lower t = ''nan'' then Some Nan
        else if lower t \<in> {''inf'', ''infinity''} then Some (if neg then NegInf else PosInf)
        else map_option (\<lambda>x. Fin (if neg then - x else x)) (decimal t))"

text \<open>\<open>float(v)\<close>; \<open>None\<close> is a \<open>TypeError\<close> or a \<open>ValueError\<close>.\<close>

fun py_float :: "wval \<Rightarrow> wnum option" where
  "py_float WNone = None"
| "py_float WNA = None"
| "py_float (WBool b) = Some (Fin (if b then 1 else 0))"
| "py_float (WInt i) = Some (Fin (of_int i))"
| "py_float (WFloat x) = Some x"
| "py_float (WText s) = py_float_text s"

text \<open>\<open>int(x)\<close> of a float: \<open>None\<close> is the \<open>ValueError\<close> of a non-number.\<close>

fun int_of_num :: "wnum \<Rightarrow> py_error + int option" where
  "int_of_num (Fin x) = Inr (Some (py_int x))"
| "int_of_num Nan = Inr None"
| "int_of_num x = Inl (OtherError ''cannot convert float infinity to integer'')"

text \<open>\<open>str(v)\<close>.\<close>

fun num_text :: "wnum \<Rightarrow> string" where
  "num_text (Fin x) = repr_float x"
| "num_text Nan = ''nan''"
| "num_text PosInf = ''inf''"
| "num_text NegInf = ''-inf''"

fun wire_text :: "wval \<Rightarrow> string" where
  "wire_text WNone = ''None''"
| "wire_text WNA = ''<NA>''"
| "wire_text (WBool b) = (if b then ''True'' else ''False'')"
| "wire_text (WInt i) = str_int i"
| "wire_text (WFloat x) = num_text x"
| "wire_text (WText s) = s"

text \<open>\<open>bool(v)\<close>, as \<open>or\<close> uses it.\<close>

fun wire_true :: "wval \<Rightarrow> py_error + bool" where
  "wire_true WNone = Inr False"
| "wire_true WNA = Inl (TypeErr ''boolean value of NA is ambiguous'')"
| "wire_true (WBool b) = Inr b"
| "wire_true (WInt i) = Inr (i \<noteq> 0)"
| "wire_true (WFloat x) = Inr (num_true x)"
| "wire_true (WText s) = Inr (s \<noteq> [])"

section \<open>Coercions\<close>

text \<open>\<open>v == ""\<close> of \<open>NA\<close> is \<open>NA\<close>, and the \<open>or\<close> around it asks for its truth.\<close>

fun is_missing :: "wval \<Rightarrow> py_error + bool" where
  "is_missing WNone = Inr True"
| "is_missing WNA = Inl (TypeErr ''boolean value of NA is ambiguous'')"
| "is_missing (WText s) = Inr (s = [])"
| "is_missing (WFloat x) = Inr (x = Nan)"
| "is_missing v = Inr False"

definition to_float :: "wval \<Rightarrow> wnum \<Rightarrow> wnum" where
  "to_float v dflt = (case py_float v of None \<Rightarrow> dflt | Some x \<Rightarrow> x)"

definition to_int :: "wval \<Rightarrow> int \<Rightarrow> py_error + int" where
  "to_int v dflt =
     (case py_float v of
        None \<Rightarrow> Inr dflt
      | Some x \<Rightarrow> map_sum id (\<lambda>n. case n of None \<Rightarrow> dflt | Some i \<Rightarrow> i) (int_of_num x))"

type_synonym frame = "(string, wval) dict"

definition field :: "frame \<Rightarrow> string \<Rightarrow> wval" where
  "field d k = get_default d k WNone"

fun first_present :: "frame \<Rightarrow> string list \<Rightarrow> py_error + wval option" where
  "first_present d [] = Inr None"
| "first_present d (k # ks) =
     (case is_missing (field d k) of
        Inl e \<Rightarrow> Inl e
      | Inr missing \<Rightarrow> if missing then first_present d ks else Inr (Some (field d k)))"

definition first_str :: "frame \<Rightarrow> string list \<Rightarrow> string \<Rightarrow> py_error + string" where
  "first_str d ks dflt = map_sum id (\<lambda>v. case v of None \<Rightarrow> dflt | Some w \<Rightarrow> wire_text w) (first_present d ks)"

definition first_float :: "frame \<Rightarrow> string list \<Rightarrow> wnum \<Rightarrow> py_error + wnum" where
  "first_float d ks dflt = map_sum id (\<lambda>v. case v of None \<Rightarrow> dflt | Some w \<Rightarrow> to_float w dflt) (first_present d ks)"

definition first_int :: "frame \<Rightarrow> string list \<Rightarrow> int \<Rightarrow> py_error + int" where
  "first_int d ks dflt =
     (case first_present d ks of
        Inl e \<Rightarrow> Inl e
      | Inr None \<Rightarrow> Inr dflt
      | Inr (Some w) \<Rightarrow> to_int w dflt)"

text \<open>Sequencing of operations that may raise, and a loop over a list that stops at the first error.\<close>

definition bind_res :: "'e + 'a \<Rightarrow> ('a \<Rightarrow> 'e + 'b) \<Rightarrow> 'e + 'b" where
  "bind_res r f = (case r of Inl e \<Rightarrow> Inl e | Inr x \<Rightarrow> f x)"

fun map_res :: "('a \<Rightarrow> 'e + 'b) \<Rightarrow> 'a list \<Rightarrow> 'e + 'b list" where
  "map_res f [] = Inr []"
| "map_res f (x # xs) = bind_res (f x) (\<lambda>y. bind_res (map_res f xs) (\<lambda>ys. Inr (y # ys)))"

lemma bind_res_Inl: "bind_res r f = Inl e \<longleftrightarrow> r = Inl e \<or> (\<exists>x. r = Inr x \<and> f x = Inl e)"
  by (cases r) (auto simp: bind_res_def)

lemma bind_res_Inr: "bind_res r f = Inr y \<longleftrightarrow> (\<exists>x. r = Inr x \<and> f x = Inr y)"
  by (cases r) (auto simp: bind_res_def)

lemmas bind_res_simps = bind_res_Inl bind_res_Inr

lemma map_res_Inr: "map_res f xs = Inr ys \<longleftrightarrow> list_all2 (\<lambda>x y. f x = Inr y) xs ys"
  by (induction xs arbitrary: ys) (auto simp: bind_res_simps list_all2_Cons1)

lemma map_res_Inl: "map_res f xs = Inl e \<Longrightarrow> \<exists>x\<in>set xs. f x = Inl e"
  by (induction xs) (auto simp: bind_res_simps)

lemma map_res_raises: "x \<in> set xs \<Longrightarrow> f x = Inl e \<Longrightarrow> \<exists>e'. map_res f xs = Inl e'"
proof (induction xs)
  case (Cons y ys)
  then show ?case by (cases "f y"; cases "map_res f ys") (auto simp: bind_res_def)
qed simp

section \<open>Text of an int\<close>

lemma is_digit_char_of: "(n::nat) < 10 \<Longrightarrow> is_digit (char_of (48 + n))"
  by (simp add: is_digit_def of_char_of)

lemma digits_aux_digits: "list_all is_digit (digits_aux k n)"
  by (induction k n rule: digits_aux.induct) (simp_all add: is_digit_char_of)

lemma digits_aux_Nil: "n < k \<Longrightarrow> digits_aux k n \<noteq> []"
  by (induction k n rule: digits_aux.induct) auto

lemma str_nat_digits: "list_all is_digit (str_nat n)" "str_nat n \<noteq> []"
  unfolding str_nat_def by (simp_all only: digits_aux_digits digits_aux_Nil lessI not_False_eq_True)

lemma digit_tail_digits: "list_all is_digit s \<Longrightarrow> digit_tail s = Some s"
  by (induction s) auto

lemma digit_run_digits: "list_all is_digit s \<Longrightarrow> digit_run s = Some s"
  by (cases s) (auto simp: digit_run_def digit_tail_digits)

lemma cut_at_none: "list_all (\<lambda>c. \<not> p c) s \<Longrightarrow> cut_at p s = (s, None)"
  by (simp add: cut_at_def list_all_iff dropWhile_eq_Nil_conv [THEN iffD2])

lemma digit_no_letter:
  assumes "is_digit c"
  shows "c \<noteq> CHR ''e''" "c \<noteq> CHR ''E''" "c \<noteq> CHR ''.''" "c \<noteq> CHR ''-''" "c \<noteq> CHR ''+''" "\<not> is_space c"
    "lower_char c = c" "c \<noteq> CHR ''n''" "c \<noteq> CHR ''i''"
  using assms by (auto simp: is_digit_def is_space_def lower_char_def Let_def)

lemma decimal_digits:
  assumes "list_all is_digit s" and "s \<noteq> []"
  shows "decimal s = Some (of_nat (digits_val s))"
proof -
  have "cut_at (\<lambda>c. c = CHR ''e'' \<or> c = CHR ''E'') s = (s, None)" "cut_at (\<lambda>c. c = CHR ''.'') s = (s, None)"
    using assms(1) by (auto intro!: cut_at_none simp: list_all_iff digit_no_letter)
  with assms show ?thesis by (simp add: decimal_def exponent_of_def digit_run_digits)
qed

lemma py_strip_digits: "list_all is_digit s \<Longrightarrow> py_strip s = s"
proof -
  assume a: "list_all is_digit s"
  have "dropWhile is_space t = t" if "list_all is_digit t" for t
    using that by (cases t) (auto simp: digit_no_letter)
  from this [OF a] this [of "rev s"] a show ?thesis by (simp add: py_strip_def)
qed

lemma float_text_nat: "py_float_text (str_nat n) = Some (Fin (of_nat n))"
proof -
  note d = str_nat_digits [of n]
  from d obtain c cs where s: "str_nat n = c # cs" and c: "is_digit c" by (cases "str_nat n") auto
  have "signed (py_strip (str_nat n)) = (False, str_nat n)"
    using py_strip_digits [OF d(1)] s c by (simp add: signed_def digit_no_letter)
  moreover have "lower (str_nat n) \<noteq> ''nan''" "lower (str_nat n) \<notin> {''inf'', ''infinity''}"
    using c by (auto simp: s lower_def digit_no_letter)
  ultimately show ?thesis by (simp add: py_float_text_def decimal_digits [OF d])
qed

lemma py_strip_minus: "list_all is_digit s \<Longrightarrow> s \<noteq> [] \<Longrightarrow> py_strip (CHR ''-'' # s) = CHR ''-'' # s"
proof -
  assume a: "list_all is_digit s" "s \<noteq> []"
  obtain c cs where "rev s = c # cs" using a(2) by (cases "rev s") auto
  moreover from this have "is_digit c" using a(1) by (metis list.set_intros(1) list_all_iff set_rev)
  ultimately have "dropWhile is_space (rev s @ [CHR ''-'']) = rev s @ [CHR ''-'']"
    by (simp add: digit_no_letter)
  then show ?thesis by (simp add: py_strip_def is_space_def)
qed

lemma float_text_neg: "py_float_text (CHR ''-'' # str_nat n) = Some (Fin (- of_nat n))"
proof -
  note d = str_nat_digits [of n]
  from d obtain c cs where s: "str_nat n = c # cs" and c: "is_digit c" by (cases "str_nat n") auto
  have "signed (py_strip (CHR ''-'' # str_nat n)) = (True, str_nat n)"
    by (simp only: py_strip_minus [OF d]) (simp add: signed_def)
  moreover have "lower (str_nat n) \<noteq> ''nan''" "lower (str_nat n) \<notin> {''inf'', ''infinity''}"
    using c by (auto simp: s lower_def digit_no_letter)
  ultimately show ?thesis by (simp add: py_float_text_def decimal_digits [OF d])
qed

section \<open>Properties\<close>

text \<open>reading back.  The text of any int is read back exactly by \<open>to_int\<close> and, through \<open>first_int\<close>, from
  a frame, whatever the default.\<close>

theorem int_text_reads_back:
  "to_int (WText (str_int i)) dflt = Inr i \<and>
   first_int ((k, WText (str_int i)) # d) (k # ks) dflt = Inr i"
proof -
  have "py_float_text (str_int i) = Some (Fin (of_int i))"
    by (cases "i < 0") (simp_all add: str_int_def float_text_nat float_text_neg)
  moreover have "str_int i \<noteq> []" using str_nat_digits(2) by (simp add: str_int_def)
  moreover have "py_int (of_int i) = i" by (simp add: py_int_def)
  ultimately show ?thesis by (simp add: to_int_def first_int_def field_def get_default_def)
qed

lemma first_present_skips:
  "list_all (\<lambda>k. is_missing (field d k) = Inr True) ks \<Longrightarrow>
   first_present d (ks @ js) = first_present d js"
  by (induction ks) auto

text \<open>the fallback has two holes.  \<open>to_float\<close> always answers; \<open>to_int\<close>, documented to return the
  default on any failure, raises exactly for an infinity, and \<open>_is_missing\<close>, documented to be true for
  \<open>pandas.NA\<close>, raises exactly for it.\<close>

theorem coercion_escapes:
  "(\<exists>e. to_int v dflt = Inl e) = (py_float v \<in> {Some PosInf, Some NegInf})"
  "(\<exists>e. is_missing v = Inl e) = (v = WNA)"
  "(\<exists>e. first_str d [k] s = Inl e) = (field d k = WNA)"
proof -
  show "(\<exists>e. to_int v dflt = Inl e) = (py_float v \<in> {Some PosInf, Some NegInf})"
  proof (cases "py_float v")
    case (Some x)
    then show ?thesis by (cases x) (auto simp: to_int_def)
  qed (simp add: to_int_def)
  show "(\<exists>e. is_missing v = Inl e) = (v = WNA)" by (cases v) auto
  show "(\<exists>e. first_str d [k] s = Inl e) = (field d k = WNA)"
    by (cases "field d k") (auto simp: first_str_def)
qed

end
