(* ===== verification/DhanFeed.thy ===== *)
theory DhanFeed
  imports Wire Market RateGate "HOL-Library.Sublist"
begin

text \<open>
  \<open>ntrade/sources/dhan_feed.py\<close>: the live websocket as a source of events.

  \<open>dhan_payload_to_events\<close> maps one parsed payload to events; a float field may be a non-number or an
  infinity (\<open>Wire\<close>), so the events here carry \<open>wnum\<close>s, and \<open>as_msg\<close> gives the kernel event when all
  of them are finite.  The client library behind the socket is a parameter: each operation is given
  the outcome of the calls it makes on it (\<open>socket\<close>), and sockets are numbered in the order they are
  built.  The reentrant lock is taken as given; a callback of a socket is an operation that may come
  at any time after the socket was started, also after it was closed.

  The lemmas show which events a payload gives and when it raises, that the tick filter drops
  exactly the ticks that repeat the latest one let through within the window (and that only the last
  tick is remembered), that a deliberate stop is never undone by a callback, that sockets are opened
  at least two seconds apart, and that every close callback rebuilds the socket, also when it is the
  echo of a close the rebuild itself made.
\<close>

section \<open>Events\<close>

type_synonym wlevel = "wnum \<times> int \<times> int"

datatype wire_event =
    WTick string string wnum int datetime
  | WQuote string string wnum wnum wnum wnum wnum int int datetime
  | WDepth string string "wlevel list" "wlevel list" datetime

fun finite_num :: "wnum \<Rightarrow> real option" where
  "finite_num (Fin x) = Some x"
| "finite_num x = None"

fun finite_levels :: "wlevel list \<Rightarrow> (real \<times> int \<times> int) list option" where
  "finite_levels [] = Some []"
| "finite_levels ((p, q, n) # ls) =
     (case (finite_num p, finite_levels ls) of (Some x, Some xs) \<Rightarrow> Some ((x, q, n) # xs) | _ \<Rightarrow> None)"

fun as_msg :: "wire_event \<Rightarrow> msg option" where
  "as_msg (WTick sy ex p q t) =
     map_option (\<lambda>x. TickEvent \<lparr>ts = t, tk_symbol = sy, tk_exchange = ex, tk_price = x, tk_quantity = q,
       tk_side = [], tk_kind = ''trade''\<rparr>) (finite_num p)"
| "as_msg (WQuote sy ex l a b c d v oi t) =
     (case (finite_num l, finite_num a, finite_num b, finite_num c, finite_num d) of
        (Some l, Some a, Some b, Some c, Some d) \<Rightarrow>
          Some (QuoteEvent \<lparr>ts = t, qe_symbol = sy, qe_exchange = ex, qe_ltp = l, qe_bid = 0, qe_ask = 0,
            qe_open = a, qe_high = b, qe_low = c, qe_prev_close = d, qe_volume = v, qe_oi = oi\<rparr>)
      | _ \<Rightarrow> None)"
| "as_msg (WDepth sy ex bs as t) =
     (case (finite_levels bs, finite_levels as) of
        (Some bs, Some as) \<Rightarrow> Some (DepthEvent \<lparr>ts = t, de_symbol = sy, de_exchange = ex, de_bids = bs, de_asks = as\<rparr>)
      | _ \<Rightarrow> None)"

section \<open>Payloads\<close>

text \<open>A payload that is no dictionary, or its scalar fields and its \<open>depth\<close> list; a level that is no
  dictionary is \<open>None\<close>.\<close>

datatype payload = NotADict | Payload frame "frame option list"

type_synonym symbol_map = "(wval, string \<times> string) dict"

text \<open>Equal dictionary keys: an integral float and a truth value are the int they equal.\<close>

fun dict_key :: "wval \<Rightarrow> wval" where
  "dict_key (WFloat (Fin x)) = (if of_int \<lfloor>x\<rfloor> = x then WInt \<lfloor>x\<rfloor> else WFloat (Fin x))"
| "dict_key (WBool b) = WInt (if b then 1 else 0)"
| "dict_key v = v"

definition mapped :: "symbol_map \<Rightarrow> frame \<Rightarrow> (string \<times> string) option" where
  "mapped m d =
     (let v = field d ''security_id'' in
      case map_of m (dict_key v) of Some x \<Rightarrow> Some x | None \<Rightarrow> map_of m (WText (wire_text v)))"

definition level_side :: "string \<Rightarrow> frame \<Rightarrow> py_error + wlevel list" where
  "level_side side l =
     (let px = to_float (field l (side @ ''_price'')) (Fin 0)
      in if num_pos px
         then bind_res (to_int (field l (side @ ''_quantity'')) 0) (\<lambda>q.
              bind_res (to_int (field l (side @ ''_orders'')) 0) (\<lambda>n. Inr [(px, q, n)]))
         else Inr [])"

fun depth_levels :: "frame option list \<Rightarrow> py_error + wlevel list \<times> wlevel list" where
  "depth_levels [] = Inr ([], [])"
| "depth_levels (None # ls) = depth_levels ls"
| "depth_levels (Some l # ls) =
     bind_res (level_side ''bid'' l) (\<lambda>b.
     bind_res (level_side ''ask'' l) (\<lambda>a.
     bind_res (depth_levels ls) (\<lambda>(bs, as). Inr (b @ bs, a @ as))))"

definition TICK_TYPES :: "string list" where
  "TICK_TYPES = [''ticker data'', ''quote data'', ''full data'', ''market depth'']"

definition QUOTE_TYPES :: "string list" where
  "QUOTE_TYPES = [''quote data'', ''full data'']"

definition payload_type :: "frame \<Rightarrow> string" where
  "payload_type d = lower (case map_of d ''type'' of None \<Rightarrow> [] | Some v \<Rightarrow> wire_text v)"

definition tick_part :: "frame \<Rightarrow> string \<Rightarrow> string \<Rightarrow> wnum \<Rightarrow> datetime \<Rightarrow> py_error + wire_event list" where
  "tick_part d sy ex ltp t =
     (if payload_type d \<in> set TICK_TYPES
      then bind_res (to_int (field d ''LTQ'') 0) (\<lambda>q. Inr [WTick sy ex ltp q t]) else Inr [])"

definition quote_part :: "frame \<Rightarrow> string \<Rightarrow> string \<Rightarrow> wnum \<Rightarrow> datetime \<Rightarrow> py_error + wire_event list" where
  "quote_part d sy ex ltp t =
     (if payload_type d \<in> set QUOTE_TYPES
      then bind_res (to_int (field d ''volume'') 0) (\<lambda>v.
           bind_res (to_int (field d ''OI'') 0) (\<lambda>oi.
             Inr [WQuote sy ex ltp (to_float (field d ''open'') (Fin 0)) (to_float (field d ''high'') (Fin 0))
                    (to_float (field d ''low'') (Fin 0)) (to_float (field d ''close'') (Fin 0)) v oi t]))
      else Inr [])"

definition depth_part :: "frame option list \<Rightarrow> string \<Rightarrow> string \<Rightarrow> datetime \<Rightarrow> py_error + wire_event list" where
  "depth_part ls sy ex t =
     bind_res (depth_levels ls) (\<lambda>(bs, as). Inr (if bs = [] \<and> as = [] then [] else [WDepth sy ex bs as t]))"

text \<open>\<open>payload["LTP"]\<close>: \<open>None\<close> is a malformed price, which drops the payload.\<close>

definition payload_ltp :: "frame \<Rightarrow> wnum option" where
  "payload_ltp d = (case map_of d ''LTP'' of None \<Rightarrow> Some (Fin 0) | Some v \<Rightarrow> py_float v)"

fun dhan_payload_to_events :: "payload \<Rightarrow> symbol_map \<Rightarrow> datetime \<Rightarrow> py_error + wire_event list" where
  "dhan_payload_to_events NotADict m t = Inr []"
| "dhan_payload_to_events (Payload d ls) m t =
     (case mapped m d of
        None \<Rightarrow> Inr []
      | Some (sy, ex) \<Rightarrow>
          (case payload_ltp d of
             None \<Rightarrow> Inr []
           | Some ltp \<Rightarrow>
               bind_res (tick_part d sy ex ltp t) (\<lambda>a.
               bind_res (quote_part d sy ex ltp t) (\<lambda>b.
               bind_res (depth_part ls sy ex t) (\<lambda>c. Inr (a @ b @ c))))))"

section \<open>Repeated ticks\<close>

type_synonym window = "(string \<times> string, real \<times> wnum \<times> int) dict"

text \<open>\<open>event.ts.timestamp()\<close>; a naive time is read at the host's offset \<open>off\<close>.\<close>

definition epoch :: "int \<Rightarrow> datetime \<Rightarrow> real" where
  "epoch off t = of_int (dt_abs off t) / of_int US"

definition repeats :: "real \<Rightarrow> real \<times> wnum \<times> int \<Rightarrow> real \<times> wnum \<times> int \<Rightarrow> bool" where
  "repeats ttl old new \<longleftrightarrow>
     fst new - fst old < ttl \<and> num_eq (fst (snd old)) (fst (snd new)) \<and> snd (snd old) = snd (snd new)"

fun dedupe_ticks :: "int \<Rightarrow> real \<Rightarrow> wire_event list \<Rightarrow> window \<Rightarrow> wire_event list \<times> window" where
  "dedupe_ticks off ttl [] w = ([], w)"
| "dedupe_ticks off ttl (WTick sy ex p q t # es) w =
     (let new = (epoch off t, p, q)
      in if (case map_of w (sy, ex) of None \<Rightarrow> False | Some old \<Rightarrow> repeats ttl old new)
         then dedupe_ticks off ttl es w
         else (case dedupe_ticks off ttl es (AList.update (sy, ex) new w) of
                 (out, w') \<Rightarrow> (WTick sy ex p q t # out, w')))"
| "dedupe_ticks off ttl (e # es) w =
     (case dedupe_ticks off ttl es w of (out, w') \<Rightarrow> (e # out, w'))"

section \<open>The source\<close>

definition IDX_SEGMENT :: int where "IDX_SEGMENT = 0"
definition FULL_MODE :: int where "FULL_MODE = 21"
definition QUOTE_MODE :: int where "QUOTE_MODE = 17"

text \<open>\<open>df_kernel\<close> is the attached kernel's instruments, if a kernel is attached; \<open>df_sockets\<close> counts the
  sockets built so far.\<close>

record feed =
  df_symbols :: "(int \<times> wval) list"
  df_map :: symbol_map
  df_kernel :: "(string, instrument) dict option"
  df_feed :: "nat option"
  df_thread :: "nat option"
  df_running :: bool
  df_payloads :: nat
  df_window :: window
  df_ttl :: real
  df_intentional :: bool
  df_reconnected :: bool
  df_limiter :: rate_limiter
  df_sockets :: nat

definition new_feed :: "(string, instrument) dict option \<Rightarrow> (int \<times> wval) list \<Rightarrow> symbol_map \<Rightarrow> feed" where
  "new_feed ker symbols m =
     \<lparr>df_symbols = symbols, df_map = m, df_kernel = ker, df_feed = None, df_thread = None, df_running = False,
      df_payloads = 0, df_window = [], df_ttl = 1, df_intentional = False, df_reconnected = False,
      df_limiter = new_rate_limiter (1 / 2), df_sockets = 0\<rparr>"

definition subscriptions_of :: "feed \<Rightarrow> (int \<times> string \<times> int) list" where
  "subscriptions_of f =
     map (\<lambda>(exch, sec). (exch, wire_text sec, if exch = IDX_SEGMENT then QUOTE_MODE else FULL_MODE)) (df_symbols f)"

text \<open>
  What the socket library answers to an operation: the failure of building a socket, of starting it,
  whether the present thread is alive; \<open>so_now\<close> is the monotonic clock and \<open>so_wall\<close> the kernel's.
\<close>

record socket =
  so_built :: "py_error option"
  so_started :: "py_error option"
  so_alive :: bool
  so_now :: real
  so_wall :: datetime

datatype feed_act =
    OpenSocket nat "(int \<times> string \<times> int) list"
  | StartSocket nat
  | CloseSocket nat
  | Published wire_event
  | Disconnected datetime string
  | Raises py_error

text \<open>\<open>_build_feed\<close>.\<close>

definition build_feed :: "socket \<Rightarrow> feed \<Rightarrow> (py_error + nat) \<times> feed \<times> feed_act list" where
  "build_feed so f =
     (case df_feed f of
        Some h \<Rightarrow> (Inr h, f, [])
      | None \<Rightarrow>
          (case so_built so of
             Some e \<Rightarrow> (Inl e, f, [])
           | None \<Rightarrow> (let h = df_sockets f
                      in (Inr h, f\<lparr>df_feed := Some h, df_sockets := Suc h\<rparr>, [OpenSocket h (subscriptions_of f)]))))"

definition feed_start ::
  "(real \<Rightarrow> real \<Rightarrow> real) \<Rightarrow> socket \<Rightarrow> feed \<Rightarrow> py_error option \<times> feed \<times> feed_act list" where
  "feed_start slp so f =
     (let f = f\<lparr>df_intentional := False, df_limiter := snd (limiter_wait slp (so_now so) (df_limiter f))\<rparr>
      in case build_feed so f of
           (Inl e, f, acts) \<Rightarrow> (Some e, f, acts)
         | (Inr h, f, acts) \<Rightarrow>
             if df_thread f \<noteq> None \<and> so_alive so then (None, f, acts)
             else (case so_started so of
                     Some e \<Rightarrow> (Some e, f, acts)
                   | None \<Rightarrow> (None, f\<lparr>df_thread := Some h, df_running := True\<rparr>, acts @ [StartSocket h])))"

text \<open>\<open>stop\<close>; a failing \<open>close_connection\<close> is ignored.\<close>

definition feed_stop :: "feed \<Rightarrow> feed \<times> feed_act list" where
  "feed_stop f =
     (f\<lparr>df_intentional := True, df_feed := None, df_thread := None, df_running := False\<rparr>,
      case df_feed f of None \<Rightarrow> [] | Some h \<Rightarrow> [CloseSocket h])"

text \<open>\<open>notify_reconnect\<close> of every instrument's stream; its callbacks are left out.\<close>

definition notify_reconnect :: "instrument \<Rightarrow> instrument" where
  "notify_reconnect i = i\<lparr>i_stream := (i_stream i)\<lparr>st_state := SUBSCRIBED\<rparr>\<rparr>"

definition rearm :: "feed \<Rightarrow> feed" where
  "rearm f = f\<lparr>df_kernel := map_option (map (\<lambda>(sy, i). (sy, notify_reconnect i))) (df_kernel f)\<rparr>"

text \<open>\<open>_reconnect\<close>: it waits, and \<open>start\<close> waits again; an exception is logged.\<close>

definition feed_reconnect :: "(real \<Rightarrow> real \<Rightarrow> real) \<Rightarrow> socket \<Rightarrow> feed \<Rightarrow> feed \<times> feed_act list" where
  "feed_reconnect slp so f =
     (if df_intentional f then (f, [])
      else (case limiter_wait slp (so_now so) (df_limiter f) of (t, rl) \<Rightarrow>
           (case feed_stop (f\<lparr>df_limiter := rl\<rparr>) of (f, shut) \<Rightarrow>
           (case feed_start slp (so\<lparr>so_now := t\<rparr>) (f\<lparr>df_intentional := False\<rparr>) of
              (Some e, f, acts) \<Rightarrow> (f, shut @ acts)
            | (None, f, acts) \<Rightarrow> (rearm (f\<lparr>df_reconnected := True\<rparr>), shut @ acts)))))"

definition lost :: "string \<Rightarrow> socket \<Rightarrow> feed \<Rightarrow> feed_act list" where
  "lost reason so f = (if df_kernel f = None then [] else [Disconnected (so_wall so) reason])"

definition on_error :: "(real \<Rightarrow> real \<Rightarrow> real) \<Rightarrow> string \<Rightarrow> socket \<Rightarrow> feed \<Rightarrow> feed \<times> feed_act list" where
  "on_error slp text so f =
     (if df_intentional f then (f, lost text so f)
      else (case feed_reconnect slp so f of (f', acts) \<Rightarrow> (f', lost text so f @ acts)))"

definition on_close :: "(real \<Rightarrow> real \<Rightarrow> real) \<Rightarrow> socket \<Rightarrow> feed \<Rightarrow> feed \<times> feed_act list" where
  "on_close slp so f =
     (let f = f\<lparr>df_running := False\<rparr>; reason = ''websocket closed''
      in if df_intentional f then (f, lost reason so f)
         else (case feed_reconnect slp so f of (f', acts) \<Rightarrow> (f', lost reason so f @ acts)))"

text \<open>\<open>_on_message\<close>; an exception goes to the library that made the callback.\<close>

definition on_message :: "int \<Rightarrow> payload \<Rightarrow> socket \<Rightarrow> feed \<Rightarrow> feed \<times> feed_act list" where
  "on_message off pl so f =
     (if df_kernel f = None then (f, [])
      else (case dhan_payload_to_events pl (df_map f) (so_wall so) of
              Inl e \<Rightarrow> (f, [Raises e])
            | Inr es \<Rightarrow>
                (case dedupe_ticks off (df_ttl f) es (df_window f) of
                   (out, w) \<Rightarrow> (f\<lparr>df_window := w, df_payloads := Suc (df_payloads f)\<rparr>, map Published out))))"

text \<open>\<open>wait_ready\<close>: \<open>obs k\<close> is what its \<open>k\<close>-th pass reads (clock, \<open>running\<close>, \<open>payloads_ingested\<close>).\<close>

primrec wait_ready :: "nat \<Rightarrow> (nat \<Rightarrow> real \<times> bool \<times> nat) \<Rightarrow> nat \<Rightarrow> real \<Rightarrow> nat \<Rightarrow> bool option" where
  "wait_ready 0 obs k deadline min_ticks = None"
| "wait_ready (Suc n) obs k deadline min_ticks =
     (case obs k of (now, running, seen) \<Rightarrow>
        if deadline \<le> now then Some (running \<and> min_ticks \<le> seen)
        else if running \<and> min_ticks \<le> seen then Some True
        else wait_ready n obs (Suc k) deadline min_ticks)"

text \<open>The operations of the source, from outside and from its sockets.\<close>

datatype feed_op = Call_start | Call_stop | Back_message payload | Back_error string | Back_close

fun feed_do :: "(real \<Rightarrow> real \<Rightarrow> real) \<Rightarrow> int \<Rightarrow> socket \<Rightarrow> feed_op \<Rightarrow> feed \<Rightarrow> feed \<times> feed_act list" where
  "feed_do slp off so Call_start f =
     (case feed_start slp so f of
        (None, f', acts) \<Rightarrow> (f', acts) | (Some e, f', acts) \<Rightarrow> (f', acts @ [Raises e]))"
| "feed_do slp off so Call_stop f = feed_stop f"
| "feed_do slp off so (Back_message pl) f = on_message off pl so f"
| "feed_do slp off so (Back_error s) f = on_error slp s so f"
| "feed_do slp off so Back_close f = on_close slp so f"

fun feed_run :: "(real \<Rightarrow> real \<Rightarrow> real) \<Rightarrow> int \<Rightarrow> (socket \<times> feed_op) list \<Rightarrow> feed \<Rightarrow> feed \<times> feed_act list" where
  "feed_run slp off [] f = (f, [])"
| "feed_run slp off ((so, x) # xs) f =
     (case feed_do slp off so x f of (f', acts) \<Rightarrow>
      (case feed_run slp off xs f' of (f'', acts') \<Rightarrow> (f'', acts @ acts')))"

section \<open>Lemmas\<close>

definition infinite_val :: "wval \<Rightarrow> bool" where
  "infinite_val v \<longleftrightarrow> py_float v = Some PosInf \<or> py_float v = Some NegInf"

lemma to_int_raises: "to_int v k = Inl e \<Longrightarrow> infinite_val v"
proof (cases "py_float v")
  case (Some x)
  then show "to_int v k = Inl e \<Longrightarrow> infinite_val v" by (cases x) (auto simp: to_int_def infinite_val_def)
qed (simp add: to_int_def)

definition bad_frame :: "frame \<Rightarrow> bool" where
  "bad_frame d \<longleftrightarrow> list_ex infinite_val (vals d)"

lemma field_raises: "to_int (field d k) n = Inl e \<Longrightarrow> bad_frame d"
proof -
  assume "to_int (field d k) n = Inl e"
  then have i: "infinite_val (field d k)" by (rule to_int_raises)
  then have "map_of d k = Some (field d k)"
    by (cases "map_of d k") (auto simp: infinite_val_def field_def get_default_def)
  then have "field d k \<in> set (vals d)" by (metis image_eqI map_of_SomeD set_map snd_conv)
  with i show ?thesis unfolding bad_frame_def list_ex_iff by blast
qed

lemma level_side_raises: "level_side side l = Inl e \<Longrightarrow> bad_frame l"
  by (auto simp: level_side_def bind_res_simps Let_def split: if_splits dest: field_raises)

lemma depth_levels_raises: "depth_levels ls = Inl e \<Longrightarrow> \<exists>l. Some l \<in> set ls \<and> bad_frame l"
proof (induction ls rule: depth_levels.induct)
  case (3 l ls)
  note IH = 3(1) and raised = 3(2)
  from raised consider "level_side ''bid'' l = Inl e" | "level_side ''ask'' l = Inl e" | "depth_levels ls = Inl e"
    by (auto simp: bind_res_simps split: prod.splits)
  then show ?case
  proof cases
    case 3
    then show ?thesis using IH raised
      by (cases "level_side ''bid'' l"; cases "level_side ''ask'' l") (auto simp: bind_res_def)
  qed (auto dest: level_side_raises)
qed auto

lemma level_side_pos: "level_side side l = Inr b \<Longrightarrow> list_all (\<lambda>(p, q, n). num_pos p) b"
  by (auto simp: level_side_def bind_res_simps Let_def split: if_splits)

lemma depth_levels_pos:
  "depth_levels ls = Inr (bs, as) \<Longrightarrow> list_all (\<lambda>(p, q, n). num_pos p) bs \<and> list_all (\<lambda>(p, q, n). num_pos p) as"
  by (induction ls arbitrary: bs "as" rule: depth_levels.induct)
     (auto simp: bind_res_simps split: prod.splits dest: level_side_pos)

text \<open>The kind of an event, and the symbol, exchange and time it carries.\<close>

datatype wkind = KTick | KQuote | KDepth

fun wire_kind :: "wire_event \<Rightarrow> wkind" where
  "wire_kind (WTick sy ex p q t) = KTick"
| "wire_kind (WQuote sy ex l a b c d v oi t) = KQuote"
| "wire_kind (WDepth sy ex bs as t) = KDepth"

fun wire_source :: "wire_event \<Rightarrow> string \<times> string \<times> datetime" where
  "wire_source (WTick sy ex p q t) = (sy, ex, t)"
| "wire_source (WQuote sy ex l a b c d v oi t) = (sy, ex, t)"
| "wire_source (WDepth sy ex bs as t) = (sy, ex, t)"

fun book_positive :: "wire_event \<Rightarrow> bool" where
  "book_positive (WDepth sy ex bs as t) \<longleftrightarrow>
     (bs \<noteq> [] \<or> as \<noteq> []) \<and> list_all (\<lambda>(p, q, n). num_pos p) (bs @ as)"
| "book_positive e = True"

lemma tick_part_facts:
  "tick_part d sy ex p t = Inr a \<Longrightarrow>
   map wire_kind a = (if payload_type d \<in> set TICK_TYPES then [KTick] else []) \<and>
   list_all (\<lambda>e. wire_source e = (sy, ex, t) \<and> book_positive e) a"
  by (auto simp: tick_part_def bind_res_simps split: if_splits)

lemma quote_part_facts:
  "quote_part d sy ex p t = Inr a \<Longrightarrow>
   map wire_kind a = (if payload_type d \<in> set QUOTE_TYPES then [KQuote] else []) \<and>
   list_all (\<lambda>e. wire_source e = (sy, ex, t) \<and> book_positive e) a"
  by (auto simp: quote_part_def bind_res_simps split: if_splits)

lemma depth_part_facts:
  "depth_part ls sy ex t = Inr a \<Longrightarrow>
   map wire_kind a \<in> {[], [KDepth]} \<and> list_all (\<lambda>e. wire_source e = (sy, ex, t) \<and> book_positive e) a"
  by (auto simp: depth_part_def bind_res_simps split: if_splits prod.splits dest!: depth_levels_pos)

section \<open>Properties of payloads\<close>

text \<open>the events of a payload.  Whatever a payload gives carries the symbol and exchange its security id
  is mapped to and the time it was received; a tick comes first for the four known types, a quote only for
  quote and full packets, at most one book last, and every level of the book has a positive price.\<close>

theorem payload_events_mapped:
  assumes "dhan_payload_to_events (Payload d ls) m t = Inr es" and "es \<noteq> []"
  shows "\<exists>sy ex. mapped m d = Some (sy, ex) \<and>
    list_all (\<lambda>e. wire_source e = (sy, ex, t) \<and> book_positive e) es \<and>
    (\<exists>book. book \<in> {[], [KDepth]} \<and>
       map wire_kind es = (if payload_type d \<in> set TICK_TYPES then [KTick] else []) @
         (if payload_type d \<in> set QUOTE_TYPES then [KQuote] else []) @ book)"
proof -
  from assms obtain sy ex where m: "mapped m d = Some (sy, ex)" by (auto split: option.splits)
  with assms obtain p where "payload_ltp d = Some p" by (auto split: option.splits)
  with m assms obtain a b c where parts: "tick_part d sy ex p t = Inr a" "quote_part d sy ex p t = Inr b"
    "depth_part ls sy ex t = Inr c" "es = a @ b @ c"
    by (auto simp: bind_res_simps)
  show ?thesis
    using m parts(4) tick_part_facts [OF parts(1)] quote_part_facts [OF parts(2)] depth_part_facts [OF parts(3)]
    by auto
qed

text \<open>what a payload can raise.  Mapping a payload fails only when some field of it, or of a level of its
  book, is an infinity; an unknown security, a payload that is no dictionary and a price that is no number
  give no events.\<close>

theorem payload_raises_on_infinity:
  assumes "dhan_payload_to_events (Payload d ls) m t = Inl e"
  shows "mapped m d \<noteq> None" and "payload_ltp d \<noteq> None"
    and "bad_frame d \<or> (\<exists>l. Some l \<in> set ls \<and> bad_frame l)"
proof -
  show "mapped m d \<noteq> None" "payload_ltp d \<noteq> None" using assms by (auto split: option.splits)
  have tick: "bad_frame d" if "tick_part d sy ex p t = Inl e" for sy ex p
    using that by (auto simp: tick_part_def bind_res_simps split: if_splits dest: field_raises)
  have quote: "bad_frame d" if "quote_part d sy ex p t = Inl e" for sy ex p
    using that by (auto simp: quote_part_def bind_res_simps split: if_splits dest: field_raises)
  have depth: "\<exists>l. Some l \<in> set ls \<and> bad_frame l" if "depth_part ls sy ex t = Inl e" for sy ex
    using that by (auto simp: depth_part_def bind_res_simps split: if_splits prod.splits dest: depth_levels_raises)
  have "\<exists>sy ex p. tick_part d sy ex p t = Inl e \<or> quote_part d sy ex p t = Inl e \<or> depth_part ls sy ex t = Inl e"
    using assms by (simp add: bind_res_simps split: option.splits prod.splits) blast
  then show "bad_frame d \<or> (\<exists>l. Some l \<in> set ls \<and> bad_frame l)"
    using tick quote depth by metis
qed

text \<open>a packet without a usable price.  A ticker packet of a mapped security without an \<open>LTP\<close> field gives
  a tick at price zero, and one whose \<open>LTP\<close> is not a number gives a tick at that non-number, which the
  filter of repeated ticks never drops.\<close>

theorem unpriced_packet_gives_tick:
  assumes "mapped m [(''security_id'', v), (''type'', WText ''Ticker Data'')] = Some (sy, ex)"
  shows "dhan_payload_to_events (Payload [(''security_id'', v), (''type'', WText ''Ticker Data'')] []) m t =
      Inr [WTick sy ex (Fin 0) 0 t]"
    and "dhan_payload_to_events
      (Payload [(''security_id'', v), (''type'', WText ''Ticker Data''), (''LTP'', WFloat Nan)] []) m t =
      Inr [WTick sy ex Nan 0 t]"
    and "fst (dedupe_ticks off ttl [WTick sy ex Nan 0 t, WTick sy ex Nan 0 t] w) =
      [WTick sy ex Nan 0 t, WTick sy ex Nan 0 t]"
proof -
  have ty: "lower ''Ticker Data'' = ''ticker data''" by code_simp
  have "mapped m [(''security_id'', v), (''type'', WText ''Ticker Data''), (''LTP'', WFloat Nan)] = Some (sy, ex)"
    using assms by (simp add: mapped_def field_def get_default_def)
  with assms ty show
    "dhan_payload_to_events (Payload [(''security_id'', v), (''type'', WText ''Ticker Data'')] []) m t =
      Inr [WTick sy ex (Fin 0) 0 t]"
    "dhan_payload_to_events
      (Payload [(''security_id'', v), (''type'', WText ''Ticker Data''), (''LTP'', WFloat Nan)] []) m t =
      Inr [WTick sy ex Nan 0 t]"
    by (simp_all add: payload_ltp_def tick_part_def quote_part_def depth_part_def payload_type_def field_def
        get_default_def to_int_def bind_res_def TICK_TYPES_def QUOTE_TYPES_def)
  show "fst (dedupe_ticks off ttl [WTick sy ex Nan 0 t, WTick sy ex Nan 0 t] w) =
      [WTick sy ex Nan 0 t, WTick sy ex Nan 0 t]"
  proof -
    have "\<not> repeats ttl old (epoch off t, Nan, 0)" for old by (cases "fst (snd old)") (auto simp: repeats_def)
    then show ?thesis by (simp add: Let_def split: option.splits)
  qed
qed

section \<open>Properties of the tick filter\<close>

fun is_wtick :: "wire_event \<Rightarrow> bool" where
  "is_wtick (WTick sy ex p q t) = True"
| "is_wtick e = False"

text \<open>A tick of a symbol and exchange: its time, price and quantity.\<close>

fun tick_of :: "int \<Rightarrow> string \<times> string \<Rightarrow> wire_event \<Rightarrow> (real \<times> wnum \<times> int) option" where
  "tick_of off k (WTick sy ex p q t) = (if k = (sy, ex) then Some (epoch off t, p, q) else None)"
| "tick_of off k e = None"

text \<open>The latest tick of a symbol and exchange in a list of events.\<close>

primrec latest :: "int \<Rightarrow> string \<times> string \<Rightarrow> wire_event list \<Rightarrow> (real \<times> wnum \<times> int) option" where
  "latest off k [] = None"
| "latest off k (e # es) = (case latest off k es of None \<Rightarrow> tick_of off k e | Some x \<Rightarrow> Some x)"

lemma dedupe_append:
  "dedupe_ticks off ttl (es @ fs) w =
     (case dedupe_ticks off ttl es w of (a, w1) \<Rightarrow> case dedupe_ticks off ttl fs w1 of (b, w2) \<Rightarrow> (a @ b, w2))"
  by (induction off ttl es w rule: dedupe_ticks.induct) (auto simp: Let_def split: prod.splits option.splits)

lemma dedupe_subseq: "subseq (fst (dedupe_ticks off ttl es w)) es"
  by (induction off ttl es w rule: dedupe_ticks.induct) (auto simp: Let_def split: prod.splits option.splits)

lemma dedupe_keeps_others:
  "filter (\<lambda>e. \<not> is_wtick e) (fst (dedupe_ticks off ttl es w)) = filter (\<lambda>e. \<not> is_wtick e) es"
  by (induction off ttl es w rule: dedupe_ticks.induct) (auto simp: Let_def split: prod.splits option.splits)

text \<open>The window holds the latest tick let through.\<close>

lemma dedupe_window:
  "map_of (snd (dedupe_ticks off ttl es w)) k =
     (case latest off k (fst (dedupe_ticks off ttl es w)) of None \<Rightarrow> map_of w k | Some x \<Rightarrow> Some x)"
  by (induction off ttl es w rule: dedupe_ticks.induct) (auto simp: Let_def split: prod.splits option.splits)

lemma num_eq_same: "num_eq a b \<longleftrightarrow> a = b \<and> b \<noteq> Nan"
  by (cases a; cases b) simp_all

lemma dedupe_snoc:
  "fst (dedupe_ticks off ttl (es @ [e]) []) = fst (dedupe_ticks off ttl es []) @
     (if \<exists>sy ex p q t t0. e = WTick sy ex p q t \<and> p \<noteq> Nan \<and>
           latest off (sy, ex) (fst (dedupe_ticks off ttl es [])) = Some (t0, p, q) \<and> epoch off t - t0 < ttl
      then [] else [e])"
proof (cases e)
  case (WTick sy ex p q t)
  obtain a w where d: "dedupe_ticks off ttl es [] = (a, w)" by fastforce
  have "map_of w (sy, ex) = latest off (sy, ex) a"
    using dedupe_window [of off ttl es "[]" "(sy, ex)"] d by (simp split: option.splits)
  then show ?thesis
    using WTick d
    by (cases "latest off (sy, ex) a") (auto simp: dedupe_append Let_def repeats_def num_eq_same)
qed (auto simp: dedupe_append split: prod.splits)

lemma dedupe_idem: "dedupe_ticks off ttl (fst (dedupe_ticks off ttl es w)) w = dedupe_ticks off ttl es w"
  by (induction off ttl es w rule: dedupe_ticks.induct) (auto simp: Let_def split: prod.splits option.splits)

text \<open>C23: what the filter lets through, exactly.  After any events of any number of messages (filtering the
  messages one after the other is filtering them together), the next event is dropped if and only if it is a
  tick whose price (a number) and quantity are those of the latest tick let through for its symbol and
  exchange, and it is less than the window later; every other tick, and every quote and book, is let through.
  So the events let through are a subsequence of those received with every quote and book among them, and
  filtering once more changes nothing.\<close>

theorem filtered_ticks_spaced:
  "fst (dedupe_ticks off ttl (es @ [e]) []) = fst (dedupe_ticks off ttl es []) @
     (if \<exists>sy ex p q t t0. e = WTick sy ex p q t \<and> p \<noteq> Nan \<and>
           latest off (sy, ex) (fst (dedupe_ticks off ttl es [])) = Some (t0, p, q) \<and> epoch off t - t0 < ttl
      then [] else [e]) \<and>
   fst (dedupe_ticks off ttl (es @ fs) []) =
     fst (dedupe_ticks off ttl es []) @ fst (dedupe_ticks off ttl fs (snd (dedupe_ticks off ttl es []))) \<and>
   subseq (fst (dedupe_ticks off ttl es [])) es \<and>
   filter (\<lambda>e. \<not> is_wtick e) (fst (dedupe_ticks off ttl es [])) = filter (\<lambda>e. \<not> is_wtick e) es \<and>
   dedupe_ticks off ttl (fst (dedupe_ticks off ttl es [])) [] = dedupe_ticks off ttl es []"
  using dedupe_snoc dedupe_append [of off ttl es fs "[]"] dedupe_subseq dedupe_keeps_others dedupe_idem
  by (simp split: prod.splits)

text \<open>a replay of two ticks passes.  The filter remembers only the last tick of a symbol: when the broker
  sends two ticks of different prices and then both again, with the same times, all four are let through.\<close>

theorem replayed_pair_passes:
  assumes "x \<noteq> y" and "a = WTick sy ex (Fin x) m t" and "b = WTick sy ex (Fin y) n t'"
  shows "fst (dedupe_ticks off ttl [a, b, a, b] []) = [a, b, a, b]"
  using assms by (simp add: Let_def repeats_def)

section \<open>Lemmas on the source\<close>

fun is_open_act :: "feed_act \<Rightarrow> bool" where
  "is_open_act (OpenSocket h subs) = True"
| "is_open_act a = False"

fun socket_of :: "feed_act \<Rightarrow> nat option" where
  "socket_of (OpenSocket h subs) = Some h"
| "socket_of (StartSocket h) = Some h"
| "socket_of (CloseSocket h) = Some h"
| "socket_of a = None"

definition working :: "socket \<Rightarrow> bool" where
  "working so \<longleftrightarrow> so_built so = None \<and> so_started so = None"

lemma lost_facts [simp]:
  "filter is_open_act (lost r so f) = []" "a \<in> set (lost r so f) \<Longrightarrow> socket_of a = None"
  by (auto simp: lost_def split: if_splits)

lemma published_facts [simp]:
  "filter is_open_act (map Published es) = []" "a \<in> Published ` set es \<Longrightarrow> socket_of a = None"
  by (auto simp: filter_empty_conv)

lemma limiter_wait_paced:
  assumes "\<forall>t w. t + w \<le> slp t w"
  shows "rl_last_time r + rl_interval r \<le> rl_last_time (snd (limiter_wait slp now r))"
    and "rl_interval (snd (limiter_wait slp now r)) = rl_interval r"
proof -
  have "now + (rl_interval r - (now - rl_last_time r)) \<le> slp now (rl_interval r - (now - rl_last_time r))"
    using assms by blast
  then show "rl_last_time r + rl_interval r \<le> rl_last_time (snd (limiter_wait slp now r))"
    by (simp add: limiter_wait_def Let_def)
  show "rl_interval (snd (limiter_wait slp now r)) = rl_interval r" by (simp add: limiter_wait_def Let_def)
qed

lemma rearm_fields [simp]:
  "df_feed (rearm f) = df_feed f" "df_thread (rearm f) = df_thread f" "df_running (rearm f) = df_running f"
  "df_sockets (rearm f) = df_sockets f" "df_limiter (rearm f) = df_limiter f"
  "df_intentional (rearm f) = df_intentional f"
  by (simp_all add: rearm_def)

text \<open>The outcomes of \<open>start\<close>: the flag and the pacing always, a new socket only when none is kept, and a
  start of exactly the kept or new one.\<close>

lemma feed_start_cases:
  assumes "feed_start slp so f = (r, f', acts)"
  shows "df_limiter f' = snd (limiter_wait slp (so_now so) (df_limiter f))" and "\<not> df_intentional f'"
    and "df_sockets f' = df_sockets f + length (filter is_open_act acts)"
    and "length (filter is_open_act acts) \<le> 1"
    and "case df_feed f of
        Some h \<Rightarrow> df_feed f' = Some h \<and> acts \<in> {[], [StartSocket h]}
      | None \<Rightarrow> (df_feed f' = None \<and> acts = [] \<and> r \<noteq> None \<and> df_thread f' = df_thread f \<and> df_running f' = df_running f) \<or>
          (df_feed f' = Some (df_sockets f) \<and>
           acts \<in> {[OpenSocket (df_sockets f) (subscriptions_of f)],
                   [OpenSocket (df_sockets f) (subscriptions_of f), StartSocket (df_sockets f)]})"
  using assms
  by (auto simp: feed_start_def build_feed_def Let_def subscriptions_of_def dest: sym [of "Some _"]
      split: option.splits if_splits prod.splits)

lemma feed_start_works:
  assumes "working so" and "df_feed f = None" and "df_thread f = None"
  shows "\<exists>f'. feed_start slp so f =
     (None, f', [OpenSocket (df_sockets f) (subscriptions_of f), StartSocket (df_sockets f)]) \<and>
     df_feed f' = Some (df_sockets f) \<and> df_sockets f' = Suc (df_sockets f) \<and> df_running f' \<and> \<not> df_intentional f'"
  using assms
  by (simp add: feed_start_def build_feed_def Let_def working_def subscriptions_of_def)

text \<open>\<open>_reconnect\<close> of a feed nobody stopped.\<close>

lemma feed_reconnect_cases:
  assumes "\<not> df_intentional f" and "feed_reconnect slp so f = (f', acts)"
    and "limiter_wait slp (so_now so) (df_limiter f) = (t, rl)"
  shows "df_limiter f' = snd (limiter_wait slp t rl)"
    and "\<not> df_intentional f'"
    and "df_sockets f' = df_sockets f + length (filter is_open_act acts)"
    and "length (filter is_open_act acts) \<le> 1"
    and "\<exists>rest. acts = (case df_feed f of None \<Rightarrow> [] | Some h \<Rightarrow> [CloseSocket h]) @ rest \<and>
      ((df_feed f' = None \<and> df_thread f' = None \<and> \<not> df_running f' \<and> rest = []) \<or>
       (df_feed f' = Some (df_sockets f) \<and>
        rest \<in> {[OpenSocket (df_sockets f) (subscriptions_of f)],
                [OpenSocket (df_sockets f) (subscriptions_of f), StartSocket (df_sockets f)]}))"
proof -
  let ?f = "f\<lparr>df_limiter := rl, df_feed := None, df_thread := None, df_running := False, df_intentional := False\<rparr>"
  obtain r g more where s: "feed_start slp (so\<lparr>so_now := t\<rparr>) ?f = (r, g, more)" by (metis prod_cases3)
  have stop: "feed_stop (f\<lparr>df_limiter := rl\<rparr>) =
      (?f\<lparr>df_intentional := True\<rparr>, case df_feed f of None \<Rightarrow> [] | Some h \<Rightarrow> [CloseSocket h])"
    by (simp add: feed_stop_def)
  have res: "acts = (case df_feed f of None \<Rightarrow> [] | Some h \<Rightarrow> [CloseSocket h]) @ more"
    "f' = (if r = None then rearm (g\<lparr>df_reconnected := True\<rparr>) else g)"
    using assms s by (auto simp: feed_reconnect_def stop split: option.splits)
  note st = feed_start_cases [OF s]
  have sub: "subscriptions_of ?f = subscriptions_of f" by (simp add: subscriptions_of_def)
  have shut: "filter is_open_act (case df_feed f of None \<Rightarrow> [] | Some h \<Rightarrow> [CloseSocket h]) = []"
    by (simp split: option.splits)
  show "df_limiter f' = snd (limiter_wait slp t rl)" "\<not> df_intentional f'"
    "df_sockets f' = df_sockets f + length (filter is_open_act acts)" "length (filter is_open_act acts) \<le> 1"
    using st(1-4) res shut by auto
  show "\<exists>rest. acts = (case df_feed f of None \<Rightarrow> [] | Some h \<Rightarrow> [CloseSocket h]) @ rest \<and>
      ((df_feed f' = None \<and> df_thread f' = None \<and> \<not> df_running f' \<and> rest = []) \<or>
       (df_feed f' = Some (df_sockets f) \<and>
        rest \<in> {[OpenSocket (df_sockets f) (subscriptions_of f)],
                [OpenSocket (df_sockets f) (subscriptions_of f), StartSocket (df_sockets f)]}))"
    using st(5) res sub by (intro exI [of _ more]) auto
qed

text \<open>What any operation does to the sockets: it opens at most one, the next in order, after closing the
  present one; starts only that one or the present one; and the pacing covers every opening.\<close>

definition feed_wf :: "feed \<Rightarrow> bool" where
  "feed_wf f \<longleftrightarrow> (\<forall>h. df_feed f = Some h \<longrightarrow> h < df_sockets f)"

definition dead :: "nat \<Rightarrow> feed \<Rightarrow> bool" where
  "dead h f \<longleftrightarrow> h < df_sockets f \<and> df_feed f \<noteq> Some h"

lemma on_message_facts:
  assumes "on_message off pl so f = (f', acts)"
  shows "df_feed f' = df_feed f" "df_thread f' = df_thread f" "df_running f' = df_running f" "df_sockets f' = df_sockets f"
    "df_limiter f' = df_limiter f" "df_intentional f' = df_intentional f" "\<forall>a\<in>set acts. socket_of a = None"
    "filter is_open_act acts = []"
  using assms by (auto simp: on_message_def split: if_splits sum.splits prod.splits)

lemma callback_cases:
  assumes "feed_do slp off so x f = (f', acts)" and "x \<in> {Back_error s, Back_close}"
  shows "\<exists>g pre rest. acts = pre @ rest \<and> (\<forall>a\<in>set pre. socket_of a = None) \<and> filter is_open_act pre = [] \<and>
    df_feed g = df_feed f \<and> df_thread g = df_thread f \<and> df_sockets g = df_sockets f \<and> df_limiter g = df_limiter f \<and>
    df_intentional g = df_intentional f \<and> df_symbols g = df_symbols f \<and> (df_running g \<longrightarrow> df_running f) \<and>
    (f', rest) = (if df_intentional f then (g, []) else feed_reconnect slp so g)"
proof -
  define g where "g = (if x = Back_close then f\<lparr>df_running := False\<rparr> else f)"
  define pre where "pre = lost (if x = Back_close then ''websocket closed'' else s) so g"
  define rest where "rest = (if df_intentional f then [] else snd (feed_reconnect slp so g))"
  have "acts = pre @ rest" "(f', rest) = (if df_intentional f then (g, []) else feed_reconnect slp so g)"
    using assms by (auto simp: g_def pre_def rest_def on_error_def on_close_def Let_def split: prod.splits if_splits)
  then show ?thesis
    by (intro exI [of _ g] exI [of _ pre] exI [of _ rest]) (auto simp: g_def pre_def)
qed

definition stopped :: "feed \<Rightarrow> bool" where
  "stopped f \<longleftrightarrow> df_intentional f \<and> df_feed f = None \<and> df_thread f = None \<and> \<not> df_running f"

lemma stopped_step:
  assumes "feed_do slp off so x f = (f', acts)" and "stopped f" and "x \<noteq> Call_start"
  shows "stopped f' \<and> (\<forall>a\<in>set acts. socket_of a = None)"
proof -
  consider "x = Call_stop" | pl where "x = Back_message pl" | s where "x \<in> {Back_error s, Back_close}"
    using assms(3) by (cases x) auto
  then show ?thesis
  proof cases
    case 1
    then show ?thesis using assms by (auto simp: feed_stop_def stopped_def)
  next
    case 2
    then have "on_message off pl so f = (f', acts)" using assms(1) by simp
    from on_message_facts [OF this] show ?thesis using assms(2) by (simp add: stopped_def)
  next
    case 3
    from callback_cases [OF assms(1) 3] show ?thesis using assms(2) by (auto simp: stopped_def)
  qed
qed

lemma step_opens:
  assumes "feed_do slp off so x f = (f', acts)" and "\<forall>t w. t + w \<le> slp t w"
  shows "rl_interval (df_limiter f') = rl_interval (df_limiter f)" and "length (filter is_open_act acts) \<le> 1"
    and "0 \<le> rl_interval (df_limiter f) \<Longrightarrow>
      rl_last_time (df_limiter f) + rl_interval (df_limiter f) * real (length (filter is_open_act acts)) \<le>
      rl_last_time (df_limiter f')"
proof -
  note paced = limiter_wait_paced [OF assms(2)]
  have "rl_interval (df_limiter f') = rl_interval (df_limiter f) \<and> length (filter is_open_act acts) \<le> 1 \<and>
    (df_limiter f' = df_limiter f \<and> filter is_open_act acts = [] \<or>
     rl_last_time (df_limiter f) + rl_interval (df_limiter f) \<le> rl_last_time (df_limiter f') \<or>
     rl_last_time (df_limiter f) + 2 * rl_interval (df_limiter f) \<le> rl_last_time (df_limiter f'))"
  proof -
    consider "x = Call_start" | "x = Call_stop" | pl where "x = Back_message pl" | s where "x \<in> {Back_error s, Back_close}"
      by (cases x) auto
    then show ?thesis
    proof cases
      case 1
      obtain r more where s: "feed_start slp so f = (r, f', more)" and
        a: "acts = more @ (case r of None \<Rightarrow> [] | Some e \<Rightarrow> [Raises e])"
        using assms(1) 1 by (auto split: prod.splits option.splits)
      then have "filter is_open_act acts = filter is_open_act more" by (simp split: option.splits)
      then show ?thesis using feed_start_cases(1,4) [OF s] paced by simp
    next
      case 2
      then show ?thesis using assms(1) by (auto simp: feed_stop_def split: option.splits)
    next
      case 3
      then have "on_message off pl so f = (f', acts)" using assms(1) by simp
      from on_message_facts [OF this] show ?thesis by simp
    next
      case 4
      from callback_cases [OF assms(1) 4] obtain g pre rest where c: "acts = pre @ rest"
        "filter is_open_act pre = []" "df_limiter g = df_limiter f" "df_intentional g = df_intentional f"
        "(f', rest) = (if df_intentional f then (g, []) else feed_reconnect slp so g)" by blast
      show ?thesis
      proof (cases "df_intentional f")
        case True
        then show ?thesis using c by simp
      next
        case False
        obtain t rl where w: "limiter_wait slp (so_now so) (df_limiter g) = (t, rl)" by fastforce
        have rc: "feed_reconnect slp so g = (f', rest)" using c False by simp
        note r = feed_reconnect_cases [OF _ rc w]
        have "rl = snd (limiter_wait slp (so_now so) (df_limiter f))" using w c by simp
        then show ?thesis
          using r(1,4) False c(1-4) paced(1) [of "df_limiter f" "so_now so"] paced(2) [of "so_now so" "df_limiter f"]
            paced(1) [of rl t] paced(2) [of t rl] by simp
      qed
    qed
  qed
  moreover have "length (filter is_open_act acts) = 0 \<or> length (filter is_open_act acts) = 1" if "length (filter is_open_act acts) \<le> 1"
    using that by linarith
  ultimately show "rl_interval (df_limiter f') = rl_interval (df_limiter f)" "length (filter is_open_act acts) \<le> 1"
    "0 \<le> rl_interval (df_limiter f) \<Longrightarrow>
      rl_last_time (df_limiter f) + rl_interval (df_limiter f) * real (length (filter is_open_act acts)) \<le>
      rl_last_time (df_limiter f')"
    by (auto simp del: length_0_conv)
qed

section \<open>Properties of the source\<close>

text \<open>C15: a deliberate stop is final.  After \<open>stop\<close>, whatever messages, errors and closes the sockets still
  call back with, until the next \<open>start\<close> no socket is opened, started or closed and the source stays down.\<close>

theorem stop_outlasts_callbacks:
  assumes "feed_stop f0 = (f, acts0)" and "feed_run slp off ops f = (f', acts)"
    and "\<forall>(so, x)\<in>set ops. x \<noteq> Call_start"
  shows "df_feed f' = None \<and> df_thread f' = None \<and> \<not> df_running f' \<and> filter (\<lambda>a. socket_of a \<noteq> None) acts = []"
proof -
  have "stopped f" using assms(1) by (auto simp: feed_stop_def stopped_def)
  then have "stopped f' \<and> (\<forall>a\<in>set acts. socket_of a = None)"
    using assms(2,3)
  proof (induction slp off ops f arbitrary: acts rule: feed_run.induct)
    case (2 slp off so x xs f)
    obtain g a where s: "feed_do slp off so x f = (g, a)" by fastforce
    obtain b where r: "feed_run slp off xs g = (f', b)" and ab: "acts = a @ b"
      using 2(3) s by (auto split: prod.splits)
    have st: "stopped g \<and> (\<forall>a\<in>set a. socket_of a = None)" using stopped_step [OF s] 2(2,4) by auto
    have "stopped f' \<and> (\<forall>a\<in>set b. socket_of a = None)"
      using "2.IH" [OF s [symmetric]] st r 2(4) by auto
    then show ?case using st ab by auto
  qed simp
  then show ?thesis by (simp add: stopped_def filter_empty_conv)
qed

text \<open>sockets are opened at a bounded rate.  Over any sequence of operations and callbacks the time between
  the pacer's last readings is at least two seconds for every socket opened, so that a close or error storm
  cannot open sockets faster.\<close>

theorem socket_openings_paced:
  assumes "feed_run slp off ops f = (f', acts)" and "\<forall>t w. t + w \<le> slp t w" and "rl_interval (df_limiter f) = 2"
  shows "2 * real (length (filter is_open_act acts)) \<le> rl_last_time (df_limiter f') - rl_last_time (df_limiter f)"
  using assms
proof (induction slp off ops f arbitrary: acts rule: feed_run.induct)
  case (2 slp off so x xs f)
  obtain g a where s: "feed_do slp off so x f = (g, a)" by fastforce
  obtain b where r: "feed_run slp off xs g = (f', b)" and ab: "acts = a @ b"
    using 2(2) s by (auto split: prod.splits)
  note st = step_opens [OF s 2(3)]
  have "2 * real (length (filter is_open_act b)) \<le> rl_last_time (df_limiter f') - rl_last_time (df_limiter g)"
    using "2.IH" [OF s [symmetric]] st(1) r 2(3,4) by simp
  then show ?case using st(3) 2(4) ab by simp
qed simp

text \<open>One operation and a handle that is not the present one: it stays so, and nothing happens to it;
  a handle that is closed becomes one.\<close>

lemma dead_step:
  assumes "feed_do slp off so x f = (f', acts)" and "feed_wf f"
  shows "feed_wf f'" and "dead h f \<Longrightarrow> dead h f' \<and> Some h \<notin> socket_of ` set acts"
    and "acts = xs @ CloseSocket h # ys \<Longrightarrow> dead h f' \<and> Some h \<notin> socket_of ` set ys"
proof -
  have *: "feed_wf f' \<and> (\<exists>pre rest. acts = pre @ rest \<and> (\<forall>a\<in>set pre. socket_of a = None) \<and>
      (df_feed f' = df_feed f \<and> df_sockets f' = df_sockets f \<and>
        (\<forall>a\<in>set rest. socket_of a \<in> {None, df_feed f} \<and> (\<forall>h. a \<noteq> CloseSocket h)) \<or>
       df_feed f' \<in> {None, Some (df_sockets f)} \<and> df_sockets f' = df_sockets f + (if df_feed f' = None then 0 else 1) \<and>
        (\<exists>more. rest = (case df_feed f of None \<Rightarrow> [] | Some h \<Rightarrow> [CloseSocket h]) @ more \<and>
          (\<forall>a\<in>set more. socket_of a \<in> {None, Some (df_sockets f)} \<and> (\<forall>h. a \<noteq> CloseSocket h)))))"
  proof -
    consider "x = Call_start" | "x = Call_stop" | pl where "x = Back_message pl" | s where "x \<in> {Back_error s, Back_close}"
      by (cases x) auto
    then show ?thesis
    proof cases
      case 1
      obtain r more where s: "feed_start slp so f = (r, f', more)" and
        a: "acts = more @ (case r of None \<Rightarrow> [] | Some e \<Rightarrow> [Raises e])"
        using assms(1) 1 by (auto split: prod.splits option.splits)
      show ?thesis
        using feed_start_cases(3,5) [OF s] a assms(2)
        by (intro conjI exI [of _ "[]"] exI [of _ acts]) (auto simp: feed_wf_def split: option.splits)
    next
      case 2
      then show ?thesis
        using assms by (intro conjI exI [of _ "[]"] exI [of _ acts]) (auto simp: feed_stop_def feed_wf_def split: option.splits)
    next
      case 3
      then have "on_message off pl so f = (f', acts)" using assms(1) by simp
      from on_message_facts [OF this] show ?thesis
        using assms(2) by (intro conjI exI [of _ acts] exI [of _ "[]"]) (auto simp: feed_wf_def)
    next
      case 4
      from callback_cases [OF assms(1) 4] obtain g pre rest where c: "acts = pre @ rest"
        "\<forall>a\<in>set pre. socket_of a = None" "df_feed g = df_feed f" "df_sockets g = df_sockets f" "df_intentional g = df_intentional f"
        "(f', rest) = (if df_intentional f then (g, []) else feed_reconnect slp so g)" by blast
      show ?thesis
      proof (cases "df_intentional f")
        case True
        then show ?thesis
          using c assms(2) by (intro conjI exI [of _ pre] exI [of _ "[]"]) (auto simp: feed_wf_def)
      next
        case False
        obtain t rl where w: "limiter_wait slp (so_now so) (df_limiter g) = (t, rl)" by fastforce
        have rc: "feed_reconnect slp so g = (f', rest)" using c False by simp
        note r = feed_reconnect_cases [OF _ rc w]
        from r(5) False c(3,4,5) obtain more where m: "rest = (case df_feed f of None \<Rightarrow> [] | Some h \<Rightarrow> [CloseSocket h]) @ more"
          "df_feed f' = None \<and> more = [] \<or>
           df_feed f' = Some (df_sockets f) \<and>
           more \<in> {[OpenSocket (df_sockets f) (subscriptions_of g)],
                    [OpenSocket (df_sockets f) (subscriptions_of g), StartSocket (df_sockets f)]}" by auto
        have n: "df_sockets f' = df_sockets f + length (filter is_open_act more)"
          using r(3) False c(4,5) m(1) by (simp split: option.splits)
        have "df_feed f' \<in> {None, Some (df_sockets f)} \<and> df_sockets f' = df_sockets f + (if df_feed f' = None then 0 else 1) \<and>
          (\<forall>a\<in>set more. socket_of a \<in> {None, Some (df_sockets f)} \<and> (\<forall>h. a \<noteq> CloseSocket h))"
          using m(2) n by auto
        moreover from this have "feed_wf f'" by (auto simp: feed_wf_def split: if_splits)
        ultimately show ?thesis using c(1,2) m(1) by blast
      qed
    qed
  qed
  then show "feed_wf f'" by blast
  from * obtain pre rest where c: "acts = pre @ rest" "\<forall>a\<in>set pre. socket_of a = None" and
    d: "df_feed f' = df_feed f \<and> df_sockets f' = df_sockets f \<and>
        (\<forall>a\<in>set rest. socket_of a \<in> {None, df_feed f} \<and> (\<forall>h. a \<noteq> CloseSocket h)) \<or>
       df_feed f' \<in> {None, Some (df_sockets f)} \<and> df_sockets f' = df_sockets f + (if df_feed f' = None then 0 else 1) \<and>
        (\<exists>more. rest = (case df_feed f of None \<Rightarrow> [] | Some h \<Rightarrow> [CloseSocket h]) @ more \<and>
          (\<forall>a\<in>set more. socket_of a \<in> {None, Some (df_sockets f)} \<and> (\<forall>h. a \<noteq> CloseSocket h)))"
    by blast
  show "dead h f \<Longrightarrow> dead h f' \<and> Some h \<notin> socket_of ` set acts"
    using c d by (fastforce simp: dead_def split: option.splits if_splits)
  show "dead h f' \<and> Some h \<notin> socket_of ` set ys" if a: "acts = xs @ CloseSocket h # ys"
  proof -
    have "CloseSocket h \<in> set acts" using a by simp
    moreover have np: "CloseSocket h \<notin> set pre" using c(2) by fastforce
    ultimately have inr: "CloseSocket h \<in> set rest" using c(1) by simp
    with d obtain more where e: "df_feed f' \<in> {None, Some (df_sockets f)}"
      "df_sockets f' = df_sockets f + (if df_feed f' = None then 0 else 1)"
      "rest = (case df_feed f of None \<Rightarrow> [] | Some h \<Rightarrow> [CloseSocket h]) @ more"
      "\<forall>a\<in>set more. socket_of a \<in> {None, Some (df_sockets f)} \<and> (\<forall>h. a \<noteq> CloseSocket h)" by blast
    from inr e(3,4) have h: "df_feed f = Some h" by (auto split: option.splits)
    with assms(2) have lt: "h < df_sockets f" by (simp add: feed_wf_def)
    have nm: "CloseSocket h \<notin> set more" using e(4) by blast
    have "xs @ CloseSocket h # ys = pre @ CloseSocket h # more" using a c(1) e(3) h by simp
    then have "ys = more" using append_Cons_eq_iff [OF np nm] by metis
    then show ?thesis using e lt by (fastforce simp: dead_def)
  qed
qed

lemma dead_run:
  "feed_run slp off ops f = (f', acts) \<Longrightarrow> feed_wf f \<Longrightarrow> dead h f \<Longrightarrow> Some h \<notin> socket_of ` set acts"
proof (induction slp off ops f arbitrary: acts rule: feed_run.induct)
  case (2 slp off so x xs f)
  obtain g a where s: "feed_do slp off so x f = (g, a)" by fastforce
  obtain b where r: "feed_run slp off xs g = (f', b)" and ab: "acts = a @ b"
    using 2(2) s by (auto split: prod.splits)
  note st = dead_step [OF s 2(3)]
  have "Some h \<notin> socket_of ` set b" using "2.IH" [OF s [symmetric] r st(1)] st(2) 2(4) by blast
  then show ?case using st(2) 2(4) ab by auto
qed simp

lemma shut_socket_gone:
  "feed_run slp off ops f = (f', xs @ CloseSocket h # ys) \<Longrightarrow> feed_wf f \<Longrightarrow> Some h \<notin> socket_of ` set ys"
proof (induction slp off ops f arbitrary: xs rule: feed_run.induct)
  case (2 slp off so x rs f)
  obtain g a where s: "feed_do slp off so x f = (g, a)" by fastforce
  obtain b where r: "feed_run slp off rs g = (f', b)" and ab: "xs @ CloseSocket h # ys = a @ b"
    using 2(2) s by (auto split: prod.splits)
  note st = dead_step [OF s 2(3)]
  from ab consider us where "xs = a @ us" "us @ CloseSocket h # ys = b" | us where "a = xs @ CloseSocket h # us" "ys = us @ b"
    by (auto simp: append_eq_append_conv2 Cons_eq_append_conv)
  then show ?case
  proof cases
    case 1
    then show ?thesis using "2.IH" [OF s [symmetric] r [folded 1(2)] st(1)] by simp
  next
    case 2
    then show ?thesis using st(3) [OF 2(1)] dead_run [OF r st(1)] by auto
  qed
qed simp

text \<open>a closed socket is gone.  The client's sockets can be used once: over any sequence of operations and
  callbacks from a new source, after a socket was closed it is never opened, started or closed again.\<close>

theorem closed_socket_never_reused:
  assumes "feed_run slp off ops (new_feed ker symbols m) = (f', xs @ CloseSocket h # ys)" and "a \<in> set ys"
  shows "socket_of a \<noteq> Some h"
  using shut_socket_gone [OF assms(1)] assms(2) by (force simp: feed_wf_def new_feed_def)

lemma on_close_works:
  assumes "working so" and "\<not> df_intentional f" and "df_feed f = Some h"
  shows "\<exists>f'. on_close slp so f = (f', lost ''websocket closed'' so f @
      [CloseSocket h, OpenSocket (df_sockets f) (subscriptions_of f), StartSocket (df_sockets f)]) \<and>
    df_feed f' = Some (df_sockets f) \<and> df_sockets f' = Suc (df_sockets f) \<and> \<not> df_intentional f'"
  using assms
  by (simp add: on_close_def lost_def feed_reconnect_def feed_stop_def feed_start_def build_feed_def Let_def working_def
      rearm_def subscriptions_of_def split: prod.splits)

lemma lost_sockets [simp]:
  "[a \<leftarrow> lost r so f. \<exists>k. a = CloseSocket k] = []" "[a \<leftarrow> lost r so f. \<exists>k. a = StartSocket k] = []"
  by (simp_all add: lost_def)

text \<open>C22: echoes keep the socket cycling.  A rebuild closes the socket it replaces; when the library reports
  each of those closes after the rebuild is over, every report closes the fresh socket and opens another:
  \<open>n\<close> reports are \<open>n\<close> rebuilds, each of which makes the next report.\<close>

theorem close_echo_cycles:
  assumes "\<forall>so\<in>set sos. working so" and "\<not> df_intentional f" and "df_feed f = Some h"
    and "feed_run slp off (map (\<lambda>so. (so, Back_close)) sos) f = (f', acts)"
  shows "[a \<leftarrow> acts. \<exists>k. a = CloseSocket k] = map CloseSocket (butlast (h # [df_sockets f..<df_sockets f + length sos])) \<and>
    [a \<leftarrow> acts. \<exists>k. a = StartSocket k] = map StartSocket [df_sockets f..<df_sockets f + length sos]"
  using assms
proof (induction sos arbitrary: f h acts)
  case (Cons so sos)
  from on_close_works [of so f h slp] Cons.prems obtain g where g:
    "on_close slp so f = (g, lost ''websocket closed'' so f @
       [CloseSocket h, OpenSocket (df_sockets f) (subscriptions_of f), StartSocket (df_sockets f)])"
    "df_feed g = Some (df_sockets f)" "df_sockets g = Suc (df_sockets f)" "\<not> df_intentional g" by auto
  obtain b where b: "feed_run slp off (map (\<lambda>so. (so, Back_close)) sos) g = (f', b)"
    and acts: "acts = lost ''websocket closed'' so f @ [CloseSocket h, OpenSocket (df_sockets f) (subscriptions_of f), StartSocket (df_sockets f)] @ b"
    using Cons.prems(4) g(1) by (auto split: prod.splits)
  have u: "[df_sockets f..<df_sockets f + length (so # sos)] = df_sockets f # [df_sockets g..<df_sockets g + length sos]"
    using g(3) by (simp add: upt_conv_Cons del: upt_Suc)
  from Cons.IH [OF _ g(4,2) b] Cons.prems(1) show ?case
    unfolding u acts by (simp del: upt_Suc)
qed simp

text \<open>a rebuild that fails is not tried again.  When the fresh socket cannot be built, an unexpected close
  leaves the source without a socket and without a thread; there is nothing left that could call back.\<close>

theorem failed_rebuild_stays_down:
  assumes "so_built so = Some e" and "\<not> df_intentional f" and "on_close slp so f = (f', acts)"
  shows "df_feed f' = None" and "df_thread f' = None" and "\<not> df_running f'" and "\<not> df_intentional f'"
    and "filter is_open_act acts = []"
  using assms
  by (auto simp: on_close_def lost_def feed_reconnect_def feed_stop_def feed_start_def build_feed_def Let_def
      split: prod.splits option.splits)

lemma wait_ready_step:
  "wait_ready (Suc n) obs k deadline min_ticks =
     (if deadline \<le> fst (obs k) then Some (fst (snd (obs k)) \<and> min_ticks \<le> snd (snd (obs k)))
      else if fst (snd (obs k)) \<and> min_ticks \<le> snd (snd (obs k)) then Some True
      else wait_ready n obs (Suc k) deadline min_ticks)"
  by (cases "obs k") simp

text \<open>the wait for the feed ends.  With the clock gaining at least the sleep between two passes, enough
  passes give an answer, and it is true only if the source ran with enough payloads at the last look.\<close>

theorem wait_ready_answers:
  assumes "\<forall>i. fst (obs i) + 1 / 20 \<le> fst (obs (Suc i))" and "deadline - fst (obs k) < real n / 20"
  shows "\<exists>r j. wait_ready (Suc n) obs k deadline min_ticks = Some r \<and>
    r = (fst (snd (obs j)) \<and> min_ticks \<le> snd (snd (obs j))) \<and> j \<in> {k..k + n}"
  using assms(2)
proof (induction n arbitrary: k)
  case 0
  then show ?case by (auto split: prod.splits intro!: exI [of _ k])
next
  case (Suc n)
  have "fst (obs k) + 1 / 20 \<le> fst (obs (Suc k))" using assms(1) by blast
  with Suc.prems have "deadline - fst (obs (Suc k)) < real n / 20" by simp
  from Suc.IH [OF this] obtain r j where "wait_ready (Suc n) obs (Suc k) deadline min_ticks = Some r"
    "r = (fst (snd (obs j)) \<and> min_ticks \<le> snd (snd (obs j)))" "j \<in> {Suc k..Suc k + n}" by blast
  moreover have "k \<in> {k..k + Suc n}" by simp
  moreover note wait_ready_step [of "Suc n" obs k deadline min_ticks]
  ultimately show ?case by (smt (verit) Suc_le_eq add_Suc_right add_Suc_shift atLeastAtMost_iff less_imp_le)
qed

section \<open>Witnesses\<close>

definition demo_map :: symbol_map where
  "demo_map = [(WInt 7, (''TCS'', ''NSE''))]"

definition demo_ticker :: frame where
  "demo_ticker = [(''security_id'', WInt 7), (''type'', WText ''Ticker Data''), (''LTP'', WFloat (Fin 100)), (''LTQ'', WInt 5)]"

definition demo_infinite :: frame where
  "demo_infinite = [(''security_id'', WInt 7), (''type'', WText ''Ticker Data''), (''LTQ'', WFloat PosInf)]"

lemma demo_type: "lower ''Ticker Data'' = ''ticker data''"
  by code_simp

lemma demo_id: "str_int 7 = ''7''"
  by code_simp

lemma demo_payloads:
  "dhan_payload_to_events (Payload demo_ticker []) demo_map (naive 0) = Inr [WTick ''TCS'' ''NSE'' (Fin 100) 5 (naive 0)]"
  "dhan_payload_to_events (Payload demo_infinite []) demo_map (naive 0) =
     Inl (OtherError ''cannot convert float infinity to integer'')"
  by (simp_all add: demo_ticker_def demo_infinite_def demo_map_def mapped_def field_def get_default_def payload_ltp_def
      tick_part_def quote_part_def depth_part_def payload_type_def demo_type to_int_def bind_res_def TICK_TYPES_def
      QUOTE_TYPES_def py_int_def)

theorem payload_events_mapped_witness:
  "mapped demo_map demo_ticker = Some (''TCS'', ''NSE'') \<and>
   map wire_kind [WTick ''TCS'' ''NSE'' (Fin 100) 5 (naive 0)] = [KTick]"
proof -
  obtain sy ex where "mapped demo_map demo_ticker = Some (sy, ex)"
    using payload_events_mapped [OF demo_payloads(1)] by blast
  moreover have "mapped demo_map demo_ticker = Some (''TCS'', ''NSE'')"
    by (simp add: mapped_def demo_map_def demo_ticker_def field_def get_default_def)
  ultimately show ?thesis by simp
qed

theorem payload_raises_on_infinity_witness: "bad_frame demo_infinite \<and> mapped demo_map demo_infinite \<noteq> None"
  using payload_raises_on_infinity [OF demo_payloads(2)] by simp

theorem unpriced_packet_gives_tick_witness:
  "dhan_payload_to_events (Payload [(''security_id'', WInt 7), (''type'', WText ''Ticker Data'')] []) demo_map (naive 0) =
     Inr [WTick ''TCS'' ''NSE'' (Fin 0) 0 (naive 0)]"
  by (rule unpriced_packet_gives_tick(1)) (simp add: mapped_def demo_map_def field_def get_default_def)

theorem replayed_pair_passes_witness:
  "fst (dedupe_ticks 0 1
     [WTick ''TCS'' ''NSE'' (Fin 100) 5 (naive 0), WTick ''TCS'' ''NSE'' (Fin 101) 5 (naive 0),
      WTick ''TCS'' ''NSE'' (Fin 100) 5 (naive 0), WTick ''TCS'' ''NSE'' (Fin 101) 5 (naive 0)] []) =
     [WTick ''TCS'' ''NSE'' (Fin 100) 5 (naive 0), WTick ''TCS'' ''NSE'' (Fin 101) 5 (naive 0),
      WTick ''TCS'' ''NSE'' (Fin 100) 5 (naive 0), WTick ''TCS'' ''NSE'' (Fin 101) 5 (naive 0)]"
  by (rule replayed_pair_passes [of 100 101]) simp_all

definition demo_socket :: "real \<Rightarrow> socket" where
  "demo_socket now = \<lparr>so_built = None, so_started = None, so_alive = True, so_now = now, so_wall = naive 0\<rparr>"

definition demo_feed :: feed where
  "demo_feed = new_feed None [(1, WInt 7)] demo_map"

lemma demo_start:
  "feed_do (+) 0 (demo_socket 10) Call_start demo_feed =
     (demo_feed\<lparr>df_feed := Some 0, df_thread := Some 0, df_running := True, df_sockets := 1,
        df_limiter := \<lparr>rl_interval = 2, rl_last_time = 10\<rparr>\<rparr>,
      [OpenSocket 0 [(1, ''7'', 21)], StartSocket 0])"
  by (simp add: demo_socket_def demo_feed_def new_feed_def feed_start_def build_feed_def Let_def limiter_wait_def
      new_rate_limiter_def subscriptions_of_def IDX_SEGMENT_def FULL_MODE_def demo_id)

definition demo_up :: feed where
  "demo_up = fst (feed_do (+) 0 (demo_socket 10) Call_start demo_feed)"

lemma demo_up_fields:
  "df_feed demo_up = Some 0" "df_kernel demo_up = None" "\<not> df_intentional demo_up" "df_sockets demo_up = 1"
  "rl_interval (df_limiter demo_up) = 2"
  by (simp_all only: demo_up_def demo_start fst_conv) (simp_all add: demo_feed_def new_feed_def)

theorem close_echo_cycles_witness:
  "[a \<leftarrow> snd (feed_run (+) 0 (map (\<lambda>so. (so, Back_close)) [demo_socket 20, demo_socket 30]) demo_up). \<exists>k. a = CloseSocket k] =
     [CloseSocket 0, CloseSocket 1]"
proof -
  have "\<forall>so\<in>set [demo_socket 20, demo_socket 30]. working so" by (simp add: working_def demo_socket_def)
  from close_echo_cycles [OF this demo_up_fields(3,1) surjective_pairing] show ?thesis
    by (simp add: demo_up_fields(4) upt_rec)
qed

theorem socket_openings_paced_witness:
  "2 * real (length (filter is_open_act (snd (feed_run (+) 0 [(demo_socket 20, Back_close)] demo_up)))) \<le>
     rl_last_time (df_limiter (fst (feed_run (+) 0 [(demo_socket 20, Back_close)] demo_up))) - rl_last_time (df_limiter demo_up)"
  by (rule socket_openings_paced [OF surjective_pairing _ demo_up_fields(5)]) simp

theorem stop_outlasts_callbacks_witness:
  "df_feed (fst (feed_run (+) 0 [(demo_socket 20, Back_close), (demo_socket 30, Back_error ''x'')] (fst (feed_stop demo_up)))) = None"
  using stop_outlasts_callbacks [OF surjective_pairing surjective_pairing,
      of "[(demo_socket 20, Back_close), (demo_socket 30, Back_error ''x'')]"] by simp

theorem closed_socket_never_reused_witness:
  "socket_of (StartSocket 1) \<noteq> Some 0"
proof -
  have "feed_run (+) 0 [(demo_socket 10, Call_start), (demo_socket 20, Call_stop), (demo_socket 30, Call_start)]
      (new_feed None [(1, WInt 7)] demo_map) =
    (fst (feed_run (+) 0 [(demo_socket 10, Call_start), (demo_socket 20, Call_stop), (demo_socket 30, Call_start)]
      (new_feed None [(1, WInt 7)] demo_map)),
     [OpenSocket 0 [(1, ''7'', 21)], StartSocket 0] @ CloseSocket 0 # [OpenSocket 1 [(1, ''7'', 21)], StartSocket 1])"
    unfolding demo_feed_def [symmetric]
    by (simp add: demo_start del: feed_do.simps(1))
       (simp add: demo_socket_def demo_feed_def new_feed_def feed_start_def feed_stop_def build_feed_def Let_def limiter_wait_def
        new_rate_limiter_def subscriptions_of_def IDX_SEGMENT_def FULL_MODE_def demo_id)
  from closed_socket_never_reused [OF this] show ?thesis by simp
qed

theorem failed_rebuild_stays_down_witness:
  "df_feed (fst (on_close (+) (demo_socket 20\<lparr>so_built := Some (RuntimeError ''refused'')\<rparr>) demo_up)) = None"
  by (rule failed_rebuild_stays_down(1) [OF _ demo_up_fields(3) surjective_pairing]) simp

theorem wait_ready_answers_witness:
  "\<exists>r j. wait_ready 3 (\<lambda>i. (real i, True, i)) 0 (1 / 20) 9 = Some r \<and> r = (9 \<le> j) \<and> j \<in> {0..2::nat}"
  using wait_ready_answers [of "\<lambda>i. (real i, True, i)" "1 / 20" 0 2 9] by (simp add: eval_nat_numeral)

end
