(* ===== verification/DhanMapper.thy ===== *)
theory DhanMapper
  imports Wire Orders Portfolio Options ChartData
begin

text \<open>
  \<open>ntrade/brokers/dhan_mapper.py\<close>: the mapping between the framework's values and those of the Dhan
  client, on frames of wire scalars (\<open>Wire\<close>).

  A data frame is the list of its rows.  The normalised order and trade books, positions and holdings
  carry \<open>wnum\<close> prices; \<open>as_entry\<close> and \<open>as_position\<close> give the domain objects.  Resampling of minute
  candles (\<open>domain/ohlcv.py\<close>, pandas) and the option chain frame are left out.

  The lemmas show which timeframes are served and how, that a date-only end of a history window keeps
  the whole last day and nothing after it, that every named position row gives one position with the net
  quantity or the difference of what was bought and sold, and that one row with a non-number for its
  quantity takes the whole order book with it.
\<close>

section \<open>Symbols and timeframes\<close>

text \<open>What \<open>to_trading_symbol\<close> reads of an instrument, by its kind.\<close>

datatype dhan_contract =
    OptionContract string date real option_type
  | FutureContract string "date option"
  | PlainSymbol string

definition strike_label :: "real \<Rightarrow> string" where
  "strike_label k = (if k = of_int (py_int k) then str_int (py_int k) else repr_float k)"

definition month_text :: "date \<Rightarrow> string" where
  "month_text d = upper (MONTHS ! nat (dy_month d - 1))"

fun join_words :: "string list \<Rightarrow> string" where
  "join_words [] = []"
| "join_words [w] = w"
| "join_words (w # ws) = w @ '' '' @ join_words ws"

fun to_trading_symbol :: "dhan_contract \<Rightarrow> string" where
  "to_trading_symbol (OptionContract und d k t) =
     und @ '' '' @ two_digits (dy_day d) @ '' '' @ month_text d @ '' '' @ strike_label k @ '' '' @
     (if t = CE then ''CALL'' else ''PUT'')"
| "to_trading_symbol (FutureContract und d) =
     upper (join_words (filter (\<lambda>p. p \<noteq> [])
       [und, (case d of None \<Rightarrow> [] | Some d \<Rightarrow> month_text d), ''FUT'']))"
| "to_trading_symbol (PlainSymbol s) = s"

definition DHAN_TIMEFRAMES :: "(string, string) dict" where
  "DHAN_TIMEFRAMES =
     [(''1m'', ''1''), (''5m'', ''5''), (''15m'', ''15''), (''25m'', ''25''), (''60m'', ''60''), (''1h'', ''60''),
      (''day'', ''DAY''), (''1d'', ''DAY''), (''daily'', ''DAY'')]"

definition RESAMPLE_TIMEFRAMES :: "(string, string) dict" where
  "RESAMPLE_TIMEFRAMES = [(''2m'', ''2min''), (''3m'', ''3min''), (''4m'', ''4min'')]"

definition timeframe_key :: "string \<Rightarrow> string" where
  "timeframe_key tf = lower (py_strip tf)"

definition map_timeframe :: "string \<Rightarrow> py_error + string" where
  "map_timeframe tf =
     (case map_of DHAN_TIMEFRAMES (timeframe_key tf) of
        Some v \<Rightarrow> Inr v
      | None \<Rightarrow>
          if timeframe_key tf \<in> set (keys RESAMPLE_TIMEFRAMES) then Inr ''1''
          else Inl (ValueError (''Unsupported timeframe '' @ repr_str tf @
            ''; Dhan natively supports 1m/5m/15m/25m/60m/DAY, and 2m/3m/4m via 1m resample'')))"

definition resample_rule :: "string \<Rightarrow> string option" where
  "resample_rule tf = map_of RESAMPLE_TIMEFRAMES (timeframe_key tf)"

definition DAY_BLOCK_MAPPED_EXCHANGE :: "(string, string) dict" where
  "DAY_BLOCK_MAPPED_EXCHANGE = [(''NFO'', ''NSE''), (''BFO'', ''BSE''), (''CUR'', ''NSE'')]"

section \<open>History\<close>

text \<open>
  A row of a history frame is its parsed time (\<open>None\<close> is \<open>NaT\<close>) and its data; \<open>tz\<close> is the offset of the
  time column, and the cut-offs are the parsed \<open>start\<close>, \<open>end\<close> and \<open>asof\<close>.
\<close>

definition cutoff :: "int option \<Rightarrow> datetime \<Rightarrow> datetime" where
  "cutoff tz t = (if tz \<noteq> None \<and> dt_tz t = None then t\<lparr>dt_tz := tz\<rparr> else t)"

definition at_or_after :: "datetime \<Rightarrow> datetime \<Rightarrow> bool" where
  "at_or_after c t \<longleftrightarrow> dt_abs 0 c \<le> dt_abs 0 t"

definition before_end :: "datetime \<Rightarrow> datetime \<Rightarrow> bool" where
  "before_end c t \<longleftrightarrow>
     (if time_of_day c = 0 then dt_abs 0 t < dt_abs 0 c + 86400 * US else dt_abs 0 t \<le> dt_abs 0 c)"

definition filter_history ::
  "int option \<Rightarrow> int option \<Rightarrow> datetime option \<Rightarrow> datetime option \<Rightarrow> datetime \<Rightarrow>
   (datetime option \<times> 'a) list \<Rightarrow> (datetime option \<times> 'a) list" where
  "filter_history tz days start fin asof rows =
     (let keep = (\<lambda>c p r. case c of None \<Rightarrow> True | Some x \<Rightarrow> (case fst r of None \<Rightarrow> False | Some t \<Rightarrow> p x t))
      in filter (\<lambda>r.
           keep (map_option (cutoff tz) start) at_or_after r \<and>
           keep (map_option (cutoff tz) fin) before_end r \<and>
           keep (map_option (\<lambda>d. cutoff tz (asof\<lparr>dt_wall := dt_wall asof - d * 86400 * US\<rparr>)) days) at_or_after r) rows)"

section \<open>Books\<close>

text \<open>\<open>int(v)\<close>, \<open>float(v)\<close> and \<open>d.get(a, d.get(b, dflt))\<close>.\<close>

definition int_text :: "string \<Rightarrow> int option" where
  "int_text s =
     (case signed (py_strip s) of (neg, t) \<Rightarrow>
        (case digit_run t of
           None \<Rightarrow> None
         | Some r \<Rightarrow> if r = [] then None else Some (if neg then - int (digits_val r) else int (digits_val r))))"

fun int_of_val :: "wval \<Rightarrow> py_error + int" where
  "int_of_val WNone = Inl (TypeErr ''int() argument must be a string, a bytes-like object or a real number, not NoneType'')"
| "int_of_val WNA = Inl (TypeErr ''int() argument must be a string, a bytes-like object or a real number, not NAType'')"
| "int_of_val (WBool b) = Inr (if b then 1 else 0)"
| "int_of_val (WInt i) = Inr i"
| "int_of_val (WFloat x) =
     bind_res (int_of_num x) (\<lambda>n. case n of Some i \<Rightarrow> Inr i | None \<Rightarrow> Inl (ValueError ''cannot convert float NaN to integer''))"
| "int_of_val (WText s) =
     (case int_text s of
        Some i \<Rightarrow> Inr i
      | None \<Rightarrow> Inl (ValueError (''invalid literal for int() with base 10: '' @ repr_str s)))"

definition float_of_val :: "wval \<Rightarrow> py_error + wnum" where
  "float_of_val v =
     (case py_float v of
        Some x \<Rightarrow> Inr x
      | None \<Rightarrow>
          (case v of
             WText s \<Rightarrow> Inl (ValueError (''could not convert string to float: '' @ repr_str s))
           | _ \<Rightarrow> Inl (TypeErr ''float() argument must be a string or a real number'')))"

definition get_either :: "frame \<Rightarrow> string \<Rightarrow> string \<Rightarrow> wval \<Rightarrow> wval" where
  "get_either r a b dflt = get_default r a (get_default r b dflt)"

definition int_or_zero :: "wval \<Rightarrow> py_error + int" where
  "int_or_zero v = bind_res (wire_true v) (\<lambda>t. int_of_val (if t then v else WInt 0))"

definition float_or_zero :: "wval \<Rightarrow> py_error + wnum" where
  "float_or_zero v = bind_res (wire_true v) (\<lambda>t. float_of_val (if t then v else WFloat (Fin 0)))"

record wire_entry =
  we_symbol :: string
  we_order_id :: string
  we_side :: string
  we_quantity :: int
  we_price :: wnum
  we_status :: string
  we_exchange :: string

record wire_trade =
  wt_symbol :: string
  wt_trade_id :: string
  wt_order_id :: string
  wt_side :: string
  wt_quantity :: int
  wt_price :: wnum

definition book_text :: "frame \<Rightarrow> string \<Rightarrow> string \<Rightarrow> string" where
  "book_text r a b = wire_text (get_either r a b (WText []))"

definition book_entry :: "frame \<Rightarrow> py_error + wire_entry" where
  "book_entry r =
     bind_res (int_or_zero (get_either r ''quantity'' ''qty'' (WInt 0))) (\<lambda>q.
     bind_res (float_or_zero (get_either r ''price'' ''pendingPrice'' (WFloat (Fin 0)))) (\<lambda>p.
       Inr \<lparr>we_symbol = book_text r ''tradingSymbol'' ''symbol'', we_order_id = book_text r ''orderId'' ''order_id'',
            we_side = upper (book_text r ''transactionType'' ''side''), we_quantity = q, we_price = p,
            we_status = book_text r ''status'' ''orderState'', we_exchange = book_text r ''exchangeSegment'' ''exchange''\<rparr>))"

definition normalize_orderbook :: "frame list \<Rightarrow> py_error + wire_entry list" where
  "normalize_orderbook rs = map_res book_entry rs"

definition trade_entry :: "frame \<Rightarrow> py_error + wire_trade" where
  "trade_entry r =
     bind_res (int_or_zero (get_either r ''quantity'' ''qty'' (WInt 0))) (\<lambda>q.
     bind_res (float_or_zero (get_either r ''price'' ''tradePrice'' (WFloat (Fin 0)))) (\<lambda>p.
       Inr \<lparr>wt_symbol = book_text r ''tradingSymbol'' ''symbol'', wt_trade_id = book_text r ''tradeId'' ''trade_id'',
            wt_order_id = book_text r ''orderId'' ''order_id'', wt_side = upper (book_text r ''transactionType'' ''side''),
            wt_quantity = q, wt_price = p\<rparr>))"

definition normalize_tradebook :: "frame list \<Rightarrow> py_error + wire_trade list" where
  "normalize_tradebook rs = map_res trade_entry rs"

text \<open>The domain entry; a price that is no real number, which the executor never reads, is given as 0.\<close>

definition real_or_zero :: "wnum \<Rightarrow> real" where
  "real_or_zero x = (case x of Fin r \<Rightarrow> r | _ \<Rightarrow> 0)"

definition as_entry :: "wire_entry \<Rightarrow> order_book_entry" where
  "as_entry e =
     \<lparr>ob_symbol = we_symbol e, ob_order_id = we_order_id e, ob_side = we_side e, ob_quantity = we_quantity e,
      ob_price = real_or_zero (we_price e), ob_status = we_status e, ob_exchange = we_exchange e\<rparr>"

section \<open>Positions\<close>

record wire_position =
  wp_symbol :: string
  wp_quantity :: int
  wp_avg_price :: wnum
  wp_ltp :: wnum
  wp_product :: string
  wp_exchange :: string

definition or_text :: "string \<Rightarrow> string \<Rightarrow> string" where
  "or_text s dflt = (if s = [] then dflt else s)"

definition position_quantity :: "frame \<Rightarrow> py_error + int" where
  "position_quantity r =
     bind_res (first_int r [''netQty'', ''quantity''] 0) (\<lambda>q.
       if q = 0
       then bind_res (first_int r [''buyQty''] 0) (\<lambda>b. bind_res (first_int r [''sellQty''] 0) (\<lambda>s. Inr (b - s)))
       else Inr q)"

definition row_symbol :: "frame \<Rightarrow> py_error + string" where
  "row_symbol r = first_str r [''tradingSymbol'', ''tradingsymbol''] []"

fun positions_from_df :: "frame list \<Rightarrow> py_error + wire_position list" where
  "positions_from_df [] = Inr []"
| "positions_from_df (r # rs) =
     bind_res (row_symbol r) (\<lambda>sy.
       if sy = [] then positions_from_df rs
       else bind_res (position_quantity r) (\<lambda>q.
            bind_res (first_float r [''avgTradingPrice'', ''avgPrice''] (Fin 0)) (\<lambda>a.
            bind_res (first_float r [''ltp''] (Fin 0)) (\<lambda>l.
            bind_res (first_str r [''productType''] []) (\<lambda>pr.
            bind_res (first_str r [''exchangeSegment''] []) (\<lambda>ex.
            bind_res (positions_from_df rs) (\<lambda>ps.
              Inr (\<lparr>wp_symbol = sy, wp_quantity = q, wp_avg_price = a, wp_ltp = l,
                    wp_product = or_text pr ''MIS'', wp_exchange = or_text ex ''NSE''\<rparr> # ps))))))))"

record wire_holding =
  wh_symbol :: string
  wh_quantity :: int
  wh_avg_price :: wnum
  wh_ltp :: wnum

fun holdings_from_df :: "frame list \<Rightarrow> py_error + wire_holding list" where
  "holdings_from_df [] = Inr []"
| "holdings_from_df (r # rs) =
     bind_res (row_symbol r) (\<lambda>sy.
       if sy = [] then holdings_from_df rs
       else bind_res (first_int r [''netQty'', ''quantity''] 0) (\<lambda>q.
            bind_res (first_float r [''avgTradingPrice'', ''avgPrice''] (Fin 0)) (\<lambda>a.
            bind_res (first_float r [''ltp''] (Fin 0)) (\<lambda>l.
            bind_res (holdings_from_df rs) (\<lambda>hs.
              Inr (\<lparr>wh_symbol = sy, wh_quantity = q, wh_avg_price = a, wh_ltp = l\<rparr> # hs))))))"

text \<open>The domain object, when its numbers are finite.\<close>

definition as_position :: "wire_position \<Rightarrow> position option" where
  "as_position p =
     (case (wp_avg_price p, wp_ltp p) of
        (Fin a, Fin l) \<Rightarrow>
          Some \<lparr>ps_symbol = wp_symbol p, ps_quantity = wp_quantity p, ps_avg_price = a, ps_ltp = l,
                ps_product = wp_product p, ps_exchange = wp_exchange p, ps_metadata = []\<rparr>
      | _ \<Rightarrow> None)"

section \<open>Properties\<close>

text \<open>which timeframes are served.  Exactly twelve spellings are accepted, blanks and case aside; the three
  without an interval of their own are fetched as minutes and have a rule to resample by, the others have none.\<close>

theorem timeframes_served:
  "(\<exists>v. map_timeframe tf = Inr v) = (timeframe_key tf \<in> set (keys DHAN_TIMEFRAMES @ keys RESAMPLE_TIMEFRAMES)) \<and>
   (resample_rule tf \<noteq> None) = (timeframe_key tf \<in> set (keys RESAMPLE_TIMEFRAMES)) \<and>
   (case resample_rule tf of None \<Rightarrow> True | Some r \<Rightarrow> map_timeframe tf = Inr ''1'')"
  by (auto simp: map_timeframe_def resample_rule_def DHAN_TIMEFRAMES_def RESAMPLE_TIMEFRAMES_def
      split: option.splits if_splits)

lemma filter_history_subset: "set (filter_history tz days start fin asof rows) \<subseteq> set rows"
  by (auto simp: filter_history_def Let_def)

text \<open>a date-only end takes the whole day.  With naive times, a row is kept by a midnight end exactly when
  its day is not after the end's day.\<close>

theorem date_end_keeps_last_day:
  assumes "time_of_day fin = 0" and "dt_tz fin = None" and "dt_tz t = None" and "(Some t, x) \<in> set rows"
  shows "(Some t, x) \<in> set (filter_history None None None (Some fin) asof rows) \<longleftrightarrow> date_of t \<le> date_of fin"
proof -
  have "dt_wall fin = date_of fin * (86400 * US)"
    using assms(1) div_mult_mod_eq [of "dt_wall fin" "86400 * US"] by (simp add: time_of_day_def date_of_def)
  moreover have "dt_wall t = date_of t * (86400 * US) + time_of_day t" "0 \<le> time_of_day t" "time_of_day t < 86400 * US"
    by (simp_all add: time_of_day_def date_of_def)
  ultimately have "dt_wall t < dt_wall fin + 86400 * US \<longleftrightarrow> date_of t \<le> date_of fin" by auto
  then show ?thesis using assms by (simp add: filter_history_def cutoff_def before_end_def dt_abs_def)
qed

text \<open>the positions of a frame.  When the rows can be read, every row with a symbol gives one position, in
  order, under that symbol and with the row's net quantity, or with what was bought less what was sold when the
  net quantity is missing or zero; rows without a symbol give none.\<close>

theorem positions_are_named_rows:
  "positions_from_df rs = Inr ps \<Longrightarrow>
   list_all2 (\<lambda>r p. row_symbol r = Inr (wp_symbol p) \<and> wp_symbol p \<noteq> [] \<and> position_quantity r = Inr (wp_quantity p))
     (filter (\<lambda>r. row_symbol r \<noteq> Inr []) rs) ps"
  by (induction rs arbitrary: ps) (auto simp: bind_res_simps split: if_splits)

text \<open>one unreadable row hides every order.  A row whose quantity is not a number, which the readers of
  positions take for a missing value, makes normalising the whole order book fail.\<close>

theorem nan_row_fails_orderbook:
  assumes "r \<in> set rs" and "map_of r ''quantity'' = Some (WFloat Nan)"
  shows "(\<exists>e. normalize_orderbook rs = Inl e) \<and> first_int r [''quantity''] 0 = Inr 0"
proof -
  have "book_entry r = Inl (ValueError ''cannot convert float NaN to integer'')"
    using assms(2) by (simp add: book_entry_def get_either_def get_default_def int_or_zero_def num_true_def bind_res_def)
  then have "\<exists>e. normalize_orderbook rs = Inl e" unfolding normalize_orderbook_def by (rule map_res_raises [OF assms(1)])
  then show ?thesis using assms(2) by (simp add: first_int_def field_def get_default_def)
qed

section \<open>Witnesses\<close>

theorem date_end_keeps_last_day_witness:
  "(Some (naive 50000), ()) \<in> set (filter_history None None None (Some (naive 0)) (naive 0) [(Some (naive 50000), ())])"
proof -
  have "(Some (naive 50000), ()) \<in> set (filter_history None None None (Some (naive 0)) (naive 0) [(Some (naive 50000), ())])
    \<longleftrightarrow> date_of (naive 50000) \<le> date_of (naive 0)"
    by (rule date_end_keeps_last_day) (simp_all add: naive_def time_of_day_def)
  then show ?thesis by (simp add: naive_def date_of_def)
qed

definition demo_row :: frame where
  "demo_row = [(''tradingSymbol'', WText ''TCS''), (''netQty'', WInt 0), (''buyQty'', WInt 30), (''sellQty'', WText ''10'')]"

lemma demo_ten: "to_int (WText ''10'') 0 = Inr 10"
proof -
  have "str_int 10 = ''10''" by code_simp
  then have "py_float_text ''10'' = Some (Fin 10)" using float_text_nat [of 10] by (simp add: str_int_def)
  then show ?thesis by (simp add: to_int_def py_int_def)
qed

lemma demo_quantity: "position_quantity demo_row = Inr 20"
proof -
  have "first_int demo_row [''sellQty''] 0 = Inr 10"
    by (simp add: first_int_def demo_row_def field_def get_default_def demo_ten)
  then show ?thesis
    by (simp add: position_quantity_def first_int_def demo_row_def field_def get_default_def bind_res_def to_int_def py_int_def)
qed

lemma demo_positions:
  "positions_from_df [demo_row, [(''netQty'', WInt 5)]] =
     Inr [\<lparr>wp_symbol = ''TCS'', wp_quantity = 20, wp_avg_price = Fin 0, wp_ltp = Fin 0, wp_product = ''MIS'', wp_exchange = ''NSE''\<rparr>]"
  using demo_quantity
  by (simp add: demo_row_def row_symbol_def first_str_def first_float_def field_def get_default_def or_text_def bind_res_def)

theorem positions_are_named_rows_witness:
  "list_all2 (\<lambda>r p. position_quantity r = Inr (wp_quantity p)) (filter (\<lambda>r. row_symbol r \<noteq> Inr []) [demo_row, [(''netQty'', WInt 5)]])
    [\<lparr>wp_symbol = ''TCS'', wp_quantity = 20, wp_avg_price = Fin 0, wp_ltp = Fin 0, wp_product = ''MIS'', wp_exchange = ''NSE''\<rparr>]"
  by (rule list_all2_mono [OF positions_are_named_rows [OF demo_positions]]) simp

theorem nan_row_fails_orderbook_witness:
  "(\<exists>e. normalize_orderbook [[(''quantity'', WFloat Nan)]] = Inl e)"
  using nan_row_fails_orderbook [of "[(''quantity'', WFloat Nan)]" "[[(''quantity'', WFloat Nan)]]"] by simp

end
