(* ===== verification/DhanBroker.thy ===== *)
theory DhanBroker
  imports DhanMapper BrokerExec RateGate
begin

text \<open>
  \<open>ntrade/brokers/dhan.py\<close> and \<open>ntrade/brokers/dhan_transport.py\<close>: the Dhan broker over its transport.

  The client library and the refresh of its token are a parameter (\<open>client\<close>): operations on a state
  \<open>'c\<close> of their own, each answering or raising.  \<open>invoke\<close> is the transport's choke point: the gate, the
  call, and the typing of rate-limit failures.  \<open>dn_acquire\<close> is the gate's \<open>acquire\<close>, which returns by
  \<open>RateGate\<close>.  An operation that mutates the order and may raise returns the error, if any, beside the
  order as it leaves it; \<open>dhan_adapter\<close> is the broker as the adapter of \<open>BrokerExec\<close>.  The retry-after of
  a rate-limit answer is taken as absent, so the penalty is one second.

  The lemmas show that a market order never reaches the client for the exchanges where it is banned,
  the bounds of the limit price it is turned into, that a rate-limit failure surfaces as such from every
  operation, what each outcome does to the order, that a last price is never zero, how the option chain
  falls back, and the places where a failure is masked.
\<close>

section \<open>The client and the transport\<close>

record 'c client =
  cl_refresh :: "'c \<Rightarrow> (py_error + unit) \<times> 'c"
  cl_order :: "frame \<Rightarrow> 'c \<Rightarrow> (py_error + wval) \<times> 'c"
  cl_super :: "frame \<Rightarrow> 'c \<Rightarrow> (py_error + wval) \<times> 'c"
  cl_cancel :: "string option \<Rightarrow> 'c \<Rightarrow> (py_error + unit) \<times> 'c"
  cl_modify :: "string option \<Rightarrow> frame \<Rightarrow> 'c \<Rightarrow> (py_error + unit) \<times> 'c"
  cl_status :: "string option \<Rightarrow> 'c \<Rightarrow> (py_error + wval) \<times> 'c"
  cl_detail :: "string option \<Rightarrow> 'c \<Rightarrow> (py_error + frame) \<times> 'c"
  cl_executed_price :: "string option \<Rightarrow> 'c \<Rightarrow> (py_error + wval) \<times> 'c"
  cl_ltp :: "string \<Rightarrow> 'c \<Rightarrow> (py_error + (string + frame)) \<times> 'c"
  cl_orderbook :: "'c \<Rightarrow> (py_error + frame list) \<times> 'c"
  cl_trade_book :: "'c \<Rightarrow> (py_error + frame list) \<times> 'c"
  cl_positions :: "'c \<Rightarrow> (py_error + frame list) \<times> 'c"
  cl_holdings :: "'c \<Rightarrow> (py_error + frame list) \<times> 'c"
  cl_balance :: "'c \<Rightarrow> (py_error + wval) \<times> 'c"
  cl_live_pnl :: "'c \<Rightarrow> (py_error + wval) \<times> 'c"

record 'c transport =
  tp_client :: 'c
  tp_gate :: "gate option"
  tp_now :: real

text \<open>What the broker is set up with; \<open>dn_book\<close> gives the contract and the instrument behind a symbol,
  \<open>dn_ts\<close> is the trading clock, and \<open>dn_repr\<close> is \<open>repr\<close> of a dictionary.\<close>

record 'c dhan_env =
  dn_client :: "'c client"
  dn_acquire :: "quota \<Rightarrow> real \<Rightarrow> gate \<Rightarrow> py_error + real \<times> gate"
  dn_ts :: datetime
  dn_book :: "string \<Rightarrow> dhan_contract \<times> instrument"
  dn_repr :: "frame \<Rightarrow> string"
  dn_max_age :: real
  dn_band_pct :: real

definition run_call :: "quota \<Rightarrow> ('c \<Rightarrow> (py_error + 'r) \<times> 'c) \<Rightarrow> 'c transport \<Rightarrow> (py_error + 'r) \<times> 'c transport" where
  "run_call q call tr =
     (case call (tp_client tr) of
        (Inr r, c) \<Rightarrow> (Inr r, tr\<lparr>tp_client := c\<rparr>)
      | (Inl e, c) \<Rightarrow>
          if is_rate_limited e
          then (Inl RateLimitedErr, tr\<lparr>tp_client := c, tp_gate := map_option (penalize (tp_now tr) q 1) (tp_gate tr)\<rparr>)
          else (Inl e, tr\<lparr>tp_client := c\<rparr>))"

definition invoke ::
  "'c dhan_env \<Rightarrow> quota \<Rightarrow> ('c \<Rightarrow> (py_error + 'r) \<times> 'c) \<Rightarrow> 'c transport \<Rightarrow> (py_error + 'r) \<times> 'c transport" where
  "invoke env q call tr =
     (case tp_gate tr of
        None \<Rightarrow> run_call q call tr
      | Some g \<Rightarrow>
          (case dn_acquire env q (tp_now tr) g of
             Inl e \<Rightarrow> (Inl e, tr)
           | Inr (t, g') \<Rightarrow> run_call q call (tr\<lparr>tp_gate := Some g', tp_now := t\<rparr>)))"

text \<open>\<open>except RateLimited: raise\<close>, \<open>except Exception as exc: raise RuntimeError(...) from exc\<close>.\<close>

definition wrap_error :: "string \<Rightarrow> py_error \<Rightarrow> py_error" where
  "wrap_error prefix e = (if e = RateLimitedErr then e else RuntimeError (prefix @ error_text e))"

definition id_text :: "string option \<Rightarrow> string" where
  "id_text i = (case i of None \<Rightarrow> ''None'' | Some s \<Rightarrow> s)"

definition ensure_tsl :: "'c dhan_env \<Rightarrow> 'c transport \<Rightarrow> py_error option \<times> 'c transport" where
  "ensure_tsl env tr =
     (case cl_refresh (dn_client env) (tp_client tr) of
        (Inl e, c) \<Rightarrow> (Some e, tr\<lparr>tp_client := c\<rparr>)
      | (Inr u, c) \<Rightarrow> (None, tr\<lparr>tp_client := c\<rparr>))"

section \<open>Placing orders\<close>

definition SEBI_FNO_EXCHANGES :: "string list" where
  "SEBI_FNO_EXCHANGES = [''NFO'', ''BFO'']"

text \<open>\<open>(self._ts() - quote_ts).total_seconds()\<close>; times of which only one has a zone cannot be subtracted.\<close>

definition quote_age :: "datetime \<Rightarrow> quote \<Rightarrow> py_error + real option" where
  "quote_age now q =
     (case q_timestamp q of
        None \<Rightarrow> Inr None
      | Some t \<Rightarrow>
          if (dt_tz now = None) \<noteq> (dt_tz t = None)
          then Inl (TypeErr ''can not subtract offset-naive and offset-aware datetimes'')
          else Inr (Some (of_int (dt_abs 0 now - dt_abs 0 t) / of_int US)))"

definition refuse_conversion :: "instrument \<Rightarrow> string \<Rightarrow> py_error" where
  "refuse_conversion ins why =
     RuntimeError (''Cannot convert MARKET order to LIMIT for '' @ i_symbol ins @ '': '' @ why)"

definition stale_text :: "real \<Rightarrow> string \<Rightarrow> string" where
  "stale_text max_age detail =
     ''cached quote is '' @ detail @ '' (max age '' @ fmt_fixed 0 max_age @
     ''s). Refresh the instrument first so the LIMIT band uses a live price.''"

definition band_price :: "real \<Rightarrow> order_side \<Rightarrow> real \<Rightarrow> real" where
  "band_price pct sd ltp =
     (let band = \<bar>pct\<bar> / 100 in py_round 1 (if sd = Side_BUY then ltp * (1 + band) else ltp * (1 - band)))"

text \<open>The conversion of a banned market order; the type is changed before anything is checked.\<close>

definition sebi_convert :: "'c dhan_env \<Rightarrow> instrument \<Rightarrow> order \<Rightarrow> py_error option \<times> order" where
  "sebi_convert env ins ord =
     (if i_exchange ins \<in> set SEBI_FNO_EXCHANGES \<and> od_order_type ord = OT_MARKET
      then (let ord = ord\<lparr>od_order_type := LIMIT\<rparr>; ltp = q_ltp (i_quote ins)
            in if ltp \<le> 0
               then (Some (refuse_conversion ins (''LTP is '' @ repr_float ltp @
                      ''. Refresh the instrument first (refresh() must run after market data is available).'')), ord)
               else (case quote_age (dn_ts env) (i_quote ins) of
                       Inl e \<Rightarrow> (Some e, ord)
                     | Inr None \<Rightarrow> (Some (refuse_conversion ins (stale_text (dn_max_age env) ''untimestamped'')), ord)
                     | Inr (Some age) \<Rightarrow>
                         if age > dn_max_age env
                         then (Some (refuse_conversion ins (stale_text (dn_max_age env) (fmt_fixed 0 age @ ''s old''))), ord)
                         else (None, ord\<lparr>od_price := band_price (dn_band_pct env) (od_side ord) ltp\<rparr>)))
      else (None, ord))"

definition order_request :: "dhan_contract \<Rightarrow> instrument \<Rightarrow> order \<Rightarrow> frame" where
  "order_request ct ins ord =
     [(''tradingsymbol'', WText (to_trading_symbol ct)), (''exchange'', WText (i_exchange ins)),
      (''quantity'', WInt (od_quantity ord)), (''price'', WFloat (Fin (od_price ord))),
      (''trigger_price'', WFloat (Fin (od_trigger_price ord))), (''order_type'', WText (order_type_value (od_order_type ord))),
      (''transaction_type'', WText (side_value (od_side ord))), (''trade_type'', WText (trade_type_value (od_trade_type ord)))]"

definition super_request :: "dhan_contract \<Rightarrow> instrument \<Rightarrow> order \<Rightarrow> frame" where
  "super_request ct ins ord =
     [(''tradingsymbol'', WText (to_trading_symbol ct)), (''exchange'', WText (i_exchange ins)),
      (''transaction_type'', WText (side_value (od_side ord))), (''quantity'', WInt (od_quantity ord)),
      (''order_type'', WText ''LIMIT''), (''trade_type'', WText (trade_type_value (od_trade_type ord))),
      (''price'', WFloat (Fin (od_price ord))), (''target_price'', WFloat (Fin (od_target_price ord))),
      (''stop_loss_price'', WFloat (Fin (od_stop_loss_price ord))), (''trailing_jump'', WInt 0)]"

definition placed ::
  "string \<Rightarrow> order \<Rightarrow> (py_error + wval) \<times> 'c transport \<Rightarrow> py_error option \<times> order \<times> 'c transport" where
  "placed prefix ord res =
     (case res of
        (Inr oid, tr) \<Rightarrow> (None, ord\<lparr>od_order_id := Some (wire_text oid), od_status := PENDING\<rparr>, tr)
      | (Inl e, tr) \<Rightarrow>
          if e = RateLimitedErr then (Some e, ord, tr)
          else (Some (wrap_error prefix e), ord\<lparr>od_status := REJECTED\<rparr>, tr))"

definition dhan_place :: "'c dhan_env \<Rightarrow> order \<Rightarrow> 'c transport \<Rightarrow> py_error option \<times> order \<times> 'c transport" where
  "dhan_place env ord tr =
     (case dn_book env (od_symbol ord) of (ct, ins) \<Rightarrow>
     (case ensure_tsl env tr of
        (Some e, tr) \<Rightarrow> (Some e, ord, tr)
      | (None, tr) \<Rightarrow>
          (case sebi_convert env ins ord of
             (Some e, ord) \<Rightarrow> (Some e, ord, tr)
           | (None, ord) \<Rightarrow>
               (case route_for_broker (order_type_value (od_order_type ord)) of
                  Inl e \<Rightarrow> (Some e, ord, tr)
                | Inr route \<Rightarrow>
                    if route = ''super_order''
                    then placed ''Dhan bracket order rejected: '' ord
                           (invoke env ORDER (cl_super (dn_client env) (super_request ct ins ord)) tr)
                    else placed ''Dhan order rejected: '' ord
                           (invoke env ORDER (cl_order (dn_client env) (order_request ct ins ord)) tr)))))"

section \<open>Cancelling and modifying\<close>

definition dhan_cancel :: "'c dhan_env \<Rightarrow> order \<Rightarrow> 'c transport \<Rightarrow> py_error option \<times> order \<times> 'c transport" where
  "dhan_cancel env ord tr =
     (case ensure_tsl env tr of
        (Some e, tr) \<Rightarrow> (Some e, ord, tr)
      | (None, tr) \<Rightarrow>
          (case invoke env ORDER (cl_cancel (dn_client env) (od_order_id ord)) tr of
             (Inr u, tr) \<Rightarrow> (None, ord\<lparr>od_status := CANCELLED\<rparr>, tr)
           | (Inl e, tr) \<Rightarrow>
               (Some (wrap_error (''Dhan cancel failed for '' @ id_text (od_order_id ord) @ '': '') e), ord, tr)))"

definition modify_request :: "string \<Rightarrow> real option \<Rightarrow> int option \<Rightarrow> real option \<Rightarrow> order \<Rightarrow> frame" where
  "modify_request ot price quantity trigger ord =
     [(''order_type'', WText ot),
      (''quantity'', WInt (case quantity of None \<Rightarrow> od_quantity ord | Some q \<Rightarrow> q)),
      (''price'', WFloat (Fin (case price of None \<Rightarrow> od_price ord | Some p \<Rightarrow> p))),
      (''trigger_price'', WFloat (Fin (case trigger of None \<Rightarrow> od_trigger_price ord | Some t \<Rightarrow> t)))]"

definition dhan_modify ::
  "'c dhan_env \<Rightarrow> real option \<Rightarrow> int option \<Rightarrow> string option \<Rightarrow> real option \<Rightarrow> order \<Rightarrow> 'c transport \<Rightarrow>
   py_error option \<times> order \<times> 'c transport" where
  "dhan_modify env price quantity otype trigger ord tr =
     (case ensure_tsl env tr of
        (Some e, tr) \<Rightarrow> (Some e, ord, tr)
      | (None, tr) \<Rightarrow>
          (let ot = (case otype of None \<Rightarrow> order_type_value (od_order_type ord) | Some s \<Rightarrow> upper s)
           in case invoke env ORDER (cl_modify (dn_client env) (od_order_id ord) (modify_request ot price quantity trigger ord)) tr of
                (Inl e, tr) \<Rightarrow>
                  (Some (wrap_error (''Dhan modify failed for '' @ id_text (od_order_id ord) @ '': '') e), ord, tr)
              | (Inr u, tr) \<Rightarrow>
                  (let ord = ord\<lparr>od_price := (case price of None \<Rightarrow> od_price ord | Some p \<Rightarrow> p),
                       od_quantity := (case quantity of None \<Rightarrow> od_quantity ord | Some q \<Rightarrow> q),
                       od_trigger_price := (case trigger of None \<Rightarrow> od_trigger_price ord | Some t \<Rightarrow> t)\<rparr>
                   in case otype of
                        None \<Rightarrow> (None, ord, tr)
                      | Some s \<Rightarrow>
                          (case parse_order_type ot of
                             Inl e \<Rightarrow> (Some e, ord, tr)
                           | Inr t \<Rightarrow> (None, ord\<lparr>od_order_type := t\<rparr>, tr)))))"

section \<open>Order status\<close>

definition DHAN_STATUS :: "(string, order_status) dict" where
  "DHAN_STATUS =
     [(''PENDING'', PENDING), (''TRANSIT'', PENDING), (''COMPLETE'', COMPLETED), (''TRADED'', COMPLETED),
      (''PARTIAL'', PARTIALLY_FILLED), (''CANCELLED'', CANCELLED), (''REJECTED'', REJECTED), (''EXPIRED'', CANCELLED)]"

text \<open>The normalised detail: \<open>str(raw.get("orderId") or raw.get("OrderID") or order_id)\<close>, then the first-of
  lookups.  The transport makes it from the client's answer and the broker once more from the transport's.\<close>

definition detail_id :: "frame \<Rightarrow> string option \<Rightarrow> py_error + string" where
  "detail_id raw oid =
     bind_res (wire_true (field raw ''orderId'')) (\<lambda>a.
       if a then Inr (wire_text (field raw ''orderId''))
       else bind_res (wire_true (field raw ''OrderID'')) (\<lambda>b.
              Inr (if b then wire_text (field raw ''OrderID'') else id_text oid)))"

definition normal_detail :: "string option \<Rightarrow> frame \<Rightarrow> py_error + frame" where
  "normal_detail oid raw =
     bind_res (detail_id raw oid) (\<lambda>i.
     bind_res (first_str raw [''orderStatus'', ''OrderStatus'', ''status''] []) (\<lambda>st.
     bind_res (first_int raw [''filledQty'', ''filled_qty'', ''qty''] 0) (\<lambda>fq.
     bind_res (first_float raw [''avgPrice'', ''averagePrice'', ''avg_price''] (Fin 0)) (\<lambda>ap.
     bind_res (first_float raw [''price'', ''OrderPrice''] (Fin 0)) (\<lambda>p.
     bind_res (first_int raw [''quantity'', ''Qty''] 0) (\<lambda>q.
       Inr [(''order_id'', WText i), (''status'', WText st), (''filled_qty'', WInt fq), (''avg_price'', WFloat ap),
            (''price'', WFloat p), (''quantity'', WInt q)]))))))"

text \<open>The transport's \<open>get_order_detail\<close>: any failure but a rate limit is an empty answer.\<close>

definition transport_detail :: "'c dhan_env \<Rightarrow> string option \<Rightarrow> 'c transport \<Rightarrow> (py_error + frame) \<times> 'c transport" where
  "transport_detail env oid tr =
     (case invoke env ORDER (cl_detail (dn_client env) oid) tr of
        (Inl e, tr) \<Rightarrow> (if e = RateLimitedErr then Inl e else Inr [], tr)
      | (Inr raw, tr) \<Rightarrow> (normal_detail oid raw, tr))"

definition dhan_detail :: "'c dhan_env \<Rightarrow> string option \<Rightarrow> 'c transport \<Rightarrow> (py_error + frame) \<times> 'c transport" where
  "dhan_detail env oid tr =
     (case transport_detail env oid tr of
        (Inl e, tr) \<Rightarrow> (Inl (wrap_error (''Dhan order detail fetch failed for '' @ id_text oid @ '': '') e), tr)
      | (Inr raw, tr) \<Rightarrow> (normal_detail oid raw, tr))"

text \<open>\<open>int(detail.get("filled_qty", ...) or order.filled_qty)\<close> and the same for the average price, on a
  normalised detail.  Orders hold real prices: an infinite average, which the code would take over, keeps the order's.\<close>

definition take_detail :: "frame \<Rightarrow> order \<Rightarrow> order" where
  "take_detail d ord =
     (let fq = (case field d ''filled_qty'' of WInt q \<Rightarrow> q | _ \<Rightarrow> 0);
          ap = (case field d ''avg_price'' of WFloat x \<Rightarrow> real_or_zero x | _ \<Rightarrow> 0)
      in ord\<lparr>od_filled_qty := num_or fq (od_filled_qty ord), od_avg_price := num_or ap (od_avg_price ord)\<rparr>)"

definition dhan_status :: "'c dhan_env \<Rightarrow> order \<Rightarrow> 'c transport \<Rightarrow> py_error option \<times> order \<times> 'c transport" where
  "dhan_status env ord tr =
     (case invoke env ORDER (cl_status (dn_client env) (od_order_id ord)) tr of
        (Inl e, tr) \<Rightarrow>
          (Some (wrap_error (''Dhan order status refresh failed for '' @ id_text (od_order_id ord) @ '': '') e), ord, tr)
      | (Inr v, tr) \<Rightarrow>
          (let ord = ord\<lparr>od_status := get_default DHAN_STATUS (upper (wire_text v)) PENDING\<rparr>
           in case dhan_detail env (od_order_id ord) tr of
                (Inl e, tr) \<Rightarrow> (Some e, ord, tr)
              | (Inr d, tr) \<Rightarrow> (None, take_detail d ord, tr)))"

text \<open>\<open>get_executed_price\<close>: the transport gives 0 for a failure, so the broker's wrapping is only for the
  exceptions it lets through.\<close>

definition transport_executed_price :: "'c dhan_env \<Rightarrow> string option \<Rightarrow> 'c transport \<Rightarrow> (py_error + wnum) \<times> 'c transport" where
  "transport_executed_price env oid tr =
     (case invoke env ORDER (cl_executed_price (dn_client env) oid) tr of
        (Inl e, tr) \<Rightarrow> (if e = RateLimitedErr then Inl e else Inr (Fin 0), tr)
      | (Inr v, tr) \<Rightarrow> (Inr (case float_of_val v of Inl e \<Rightarrow> Fin 0 | Inr x \<Rightarrow> x), tr))"

definition dhan_executed_price :: "'c dhan_env \<Rightarrow> order \<Rightarrow> 'c transport \<Rightarrow> (py_error + wnum) \<times> 'c transport" where
  "dhan_executed_price env ord tr =
     (case transport_executed_price env (od_order_id ord) tr of
        (Inl e, tr) \<Rightarrow>
          (Inl (wrap_error (''Dhan executed price fetch failed for '' @ id_text (od_order_id ord) @ '': '') e), tr)
      | r \<Rightarrow> r)"

section \<open>Books and account\<close>

definition dhan_orderbook :: "'c dhan_env \<Rightarrow> 'c transport \<Rightarrow> (py_error + wire_entry list) \<times> 'c transport" where
  "dhan_orderbook env tr =
     (case invoke env NON_TRADING (cl_orderbook (dn_client env)) tr of
        (r, tr) \<Rightarrow> (map_sum (wrap_error ''Dhan orderbook fetch failed: '') id (bind_res r normalize_orderbook), tr))"

definition dhan_trade_book :: "'c dhan_env \<Rightarrow> 'c transport \<Rightarrow> (py_error + wire_trade list) \<times> 'c transport" where
  "dhan_trade_book env tr =
     (case invoke env NON_TRADING (cl_trade_book (dn_client env)) tr of
        (r, tr) \<Rightarrow> (map_sum (wrap_error ''Dhan trade book fetch failed: '') id (bind_res r normalize_tradebook), tr))"

definition dhan_positions :: "'c dhan_env \<Rightarrow> 'c transport \<Rightarrow> (py_error + wire_position list) \<times> 'c transport" where
  "dhan_positions env tr =
     (case ensure_tsl env tr of
        (Some e, tr) \<Rightarrow> (Inl e, tr)
      | (None, tr) \<Rightarrow>
          (case invoke env NON_TRADING (cl_positions (dn_client env)) tr of
             (r, tr) \<Rightarrow> (bind_res r positions_from_df, tr)))"

definition dhan_holdings :: "'c dhan_env \<Rightarrow> 'c transport \<Rightarrow> (py_error + wire_holding list) \<times> 'c transport" where
  "dhan_holdings env tr =
     (case invoke env NON_TRADING (cl_holdings (dn_client env)) tr of
        (r, tr) \<Rightarrow> (map_sum (wrap_error ''Dhan holdings fetch failed: '') id (bind_res r holdings_from_df), tr))"

definition dhan_balance :: "'c dhan_env \<Rightarrow> 'c transport \<Rightarrow> (py_error + wnum) \<times> 'c transport" where
  "dhan_balance env tr =
     (case ensure_tsl env tr of
        (Some e, tr) \<Rightarrow> (Inl e, tr)
      | (None, tr) \<Rightarrow>
          (case invoke env NON_TRADING (cl_balance (dn_client env)) tr of
             (r, tr) \<Rightarrow> (bind_res r float_of_val, tr)))"

text \<open>\<open>get_live_pnl\<close>: a failure of the call or of the conversion is 0.\<close>

definition dhan_live_pnl :: "'c dhan_env \<Rightarrow> 'c transport \<Rightarrow> (py_error + wnum) \<times> 'c transport" where
  "dhan_live_pnl env tr =
     (case invoke env NON_TRADING (cl_live_pnl (dn_client env)) tr of
        (Inl e, tr) \<Rightarrow> (if e = RateLimitedErr then Inl e else Inr (Fin 0), tr)
      | (Inr v, tr) \<Rightarrow> (Inr (case float_or_zero v of Inl e \<Rightarrow> Fin 0 | Inr x \<Rightarrow> x), tr))"

section \<open>The adapter\<close>

definition answer :: "py_error option \<times> order \<times> 'c transport \<Rightarrow> (py_error + order) \<times> 'c transport" where
  "answer r = (case r of (None, ord, tr) \<Rightarrow> (Inr ord, tr) | (Some e, ord, tr) \<Rightarrow> (Inl e, tr))"

definition dhan_adapter :: "'c dhan_env \<Rightarrow> 'c transport adapter" where
  "dhan_adapter env =
     \<lparr>ad_place = (\<lambda>ord tr. answer (dhan_place env ord tr)),
      ad_status = (\<lambda>ord tr. answer (dhan_status env ord tr)),
      ad_cancel = (\<lambda>ord tr. answer (dhan_cancel env ord tr)),
      ad_modify = (\<lambda>price quantity otype trigger ord tr. answer (dhan_modify env price quantity otype trigger ord tr)),
      ad_orderbook = (\<lambda>tr. case dhan_orderbook env tr of (r, tr) \<Rightarrow> (map_sum id (map as_entry) r, tr))\<rparr>"

section \<open>Last price\<close>

text \<open>One attempt of \<open>get_ltp\<close> on the answer of the client: a dictionary, or the text of something else.\<close>

definition read_ltp :: "(frame \<Rightarrow> string) \<Rightarrow> string \<Rightarrow> string + frame \<Rightarrow> py_error + wnum" where
  "read_ltp rep sy data =
     (case data of
        Inl other \<Rightarrow> Inl (ValueError (''LTP response missing symbol '' @ sy @ '': '' @ other))
      | Inr d \<Rightarrow>
          if lower (case map_of d ''status'' of None \<Rightarrow> [] | Some v \<Rightarrow> wire_text v) = ''failure''
          then Inl (ValueError (''LTP fetch failed: '' @ rep d))
          else (case map_of d sy of
                  None \<Rightarrow> Inl (ValueError (''LTP response missing symbol '' @ sy @ '': '' @ rep d))
                | Some v \<Rightarrow>
                    bind_res (float_or_zero v) (\<lambda>x. if num_pos x then Inr x else Inl (ValueError ''LTP is 0''))))"

definition try_ltp :: "'c dhan_env \<Rightarrow> string \<Rightarrow> 'c transport \<Rightarrow> (py_error + wnum) \<times> 'c transport" where
  "try_ltp env sy tr =
     (case invoke env QUOTE (cl_ltp (dn_client env) sy) tr of
        (r, tr) \<Rightarrow> (bind_res r (read_ltp (dn_repr env) sy), tr))"

definition get_ltp ::
  "(nat \<Rightarrow> real) \<Rightarrow> retry_policy \<Rightarrow> 'c dhan_env \<Rightarrow> string \<Rightarrow> 'c transport \<Rightarrow> (py_error + wnum) \<times> 'c transport \<times> real list" where
  "get_ltp rnd pol env sy tr =
     (case execute rnd pol None (try_ltp env sy) tr of
        (r, tr, sleeps) \<Rightarrow>
          (map_sum (wrap_error (''LTP fetch failed for '' @ sy @ '' after retries: '')) id r, tr, sleeps))"

section \<open>Instrument file, history and chains\<close>

record instrument_row =
  ir_trading :: string
  ir_custom :: string
  ir_exchange :: string
  ir_name :: string

definition DERIVATIVE_EXCHANGES :: "string list" where
  "DERIVATIVE_EXCHANGES = [''NFO'', ''BFO'', ''CUR'', ''MCX'']"

text \<open>\<open>blocks_day\<close>: the instrument file is missing (\<open>Inr None\<close>), its reading failed, or its rows.\<close>

definition blocks_day :: "py_error + instrument_row list option \<Rightarrow> string \<Rightarrow> string \<Rightarrow> py_error + bool" where
  "blocks_day idf sy exch =
     (case idf of
        Inl e \<Rightarrow> if e = RateLimitedErr then Inl e else Inr (exch \<in> set DERIVATIVE_EXCHANGES)
      | Inr None \<Rightarrow> Inr (exch \<in> set DERIVATIVE_EXCHANGES)
      | Inr (Some rows) \<Rightarrow>
          (let ex = get_default DAY_BLOCK_MAPPED_EXCHANGE exch exch;
               hits = filter (\<lambda>r. (ir_trading r = sy \<or> ir_custom r = sy) \<and> ir_exchange r = ex) rows
           in Inr (if hits = [] then exch \<in> set DERIVATIVE_EXCHANGES else occurs_in ''FUT'' (ir_name (List.last hits)))))"

text \<open>The dates \<open>get_daily_historical\<close> asks for: a text given by the caller, or a day.\<close>

datatype date_arg = DateText string | DateDay int

definition daily_range :: "int \<Rightarrow> int option \<Rightarrow> string option \<Rightarrow> string option \<Rightarrow> py_error + date_arg \<times> date_arg" where
  "daily_range today days start fin =
     (let to_date = (case fin of Some e \<Rightarrow> DateText e | None \<Rightarrow> DateDay today)
      in case start of
           Some s \<Rightarrow> Inr (DateText s, to_date)
         | None \<Rightarrow>
             (case to_date of
                DateDay d \<Rightarrow> Inr (DateDay (d - (case days of None \<Rightarrow> 365 | Some n \<Rightarrow> num_or n 365)), to_date)
              | DateText e \<Rightarrow> Inl (TypeErr ''unsupported operand types for -: str and datetime.timedelta'')))"

text \<open>\<open>get_depth\<close> of the transport: the snapshots in turn, a rate limit at once.\<close>

primrec depth_attempts :: "nat \<Rightarrow> ('s \<Rightarrow> (py_error + 'd option) \<times> 's) \<Rightarrow> 's \<Rightarrow> (py_error + 'd option) \<times> 's \<times> nat" where
  "depth_attempts 0 snap s = (Inr None, s, 0)"
| "depth_attempts (Suc n) snap s =
     (case snap s of
        (Inl e, s) \<Rightarrow> (Inl e, s, 1)
      | (Inr (Some d), s) \<Rightarrow> (Inr (Some d), s, 1)
      | (Inr None, s) \<Rightarrow> (case depth_attempts n snap s of (r, s, k) \<Rightarrow> (r, s, Suc k)))"

text \<open>
  \<open>get_option_chain\<close>: \<open>fetch k\<close> asks the client for the chain of the \<open>k\<close>-th expiry and \<open>dates\<close> for the list
  of expiries; building the chain from its frame is left out.  The answer is the index used, the chain, and
  its expiry with the list when there is one; the last component counts the chains asked for.
\<close>

datatype 'd chain_reply = NoChain | EmptyChain | Chain 'd

type_synonym 'd chain_answer = "nat \<times> 'd \<times> (date \<times> date list) option"

definition with_expiry :: "('s \<Rightarrow> (py_error + date list) \<times> 's) \<Rightarrow> nat \<Rightarrow> 'd \<Rightarrow> 's \<Rightarrow> (py_error + 'd chain_answer) \<times> 's" where
  "with_expiry dates k d s =
     (case dates s of
        (Inl e, s) \<Rightarrow> (if e = RateLimitedErr then Inl e else Inr (k, d, None), s)
      | (Inr ds, s) \<Rightarrow> (Inr (k, d, if ds = [] then None else Some (ds ! min k (length ds - 1), ds)), s))"

fun chain_attempts ::
  "string \<Rightarrow> (nat \<Rightarrow> 's \<Rightarrow> (py_error + 'd chain_reply) \<times> 's) \<Rightarrow> ('s \<Rightarrow> (py_error + date list) \<times> 's) \<Rightarrow> string \<Rightarrow>
   nat list \<Rightarrow> 's \<Rightarrow> (py_error + 'd chain_answer) \<times> 's \<times> nat" where
  "chain_attempts sy fetch dates err [] s =
     (Inl (RuntimeError (''Dhan option chain failed for '' @ sy @ '': '' @ err)), s, 0)"
| "chain_attempts sy fetch dates err (k # ks) s =
     (case fetch k s of
        (Inl e, s) \<Rightarrow>
          if e = RateLimitedErr then (Inl e, s, 1)
          else (case chain_attempts sy fetch dates (error_text e) ks s of (r, s, n) \<Rightarrow> (r, s, Suc n))
      | (Inr (Chain d), s) \<Rightarrow> (case with_expiry dates k d s of (r, s) \<Rightarrow> (r, s, 1))
      | (Inr none, s) \<Rightarrow>
          (case chain_attempts sy fetch dates
             (''Dhan returned '' @ (if none = NoChain then ''no'' else ''an empty'') @ '' option chain for '' @ sy @
              '' (expiry='' @ str_nat k @ '')'') ks s of (r, s, n) \<Rightarrow> (r, s, Suc n)))"

definition get_option_chain ::
  "string \<Rightarrow> (nat \<Rightarrow> 's \<Rightarrow> (py_error + 'd chain_reply) \<times> 's) \<Rightarrow> ('s \<Rightarrow> (py_error + date list) \<times> 's) \<Rightarrow> nat \<Rightarrow> 's \<Rightarrow>
   (py_error + 'd chain_answer) \<times> 's \<times> nat" where
  "get_option_chain sy fetch dates expiry s = chain_attempts sy fetch dates ''None'' [expiry, expiry + 1, expiry + 2] s"

section \<open>Lemmas\<close>


lemma invoke_no_gate:
  "tp_gate tr = None \<Longrightarrow> invoke env q call tr =
     ((case fst (call (tp_client tr)) of Inr x \<Rightarrow> Inr x | Inl e \<Rightarrow> Inl (if is_rate_limited e then RateLimitedErr else e)),
      tr\<lparr>tp_client := snd (call (tp_client tr))\<rparr>)"
  by (cases "call (tp_client tr)") (auto simp: invoke_def run_call_def split: sum.splits)


text \<open>A client that keeps the requests for placement it is sent.\<close>

definition logged :: "'c client \<Rightarrow> ('c \<times> frame list) client" where
  "logged cl =
     \<lparr>cl_refresh = (\<lambda>(c, l). case cl_refresh cl c of (r, c) \<Rightarrow> (r, (c, l))),
          cl_order = (\<lambda>k (c, l). case cl_order cl k c of (r, c) \<Rightarrow> (r, (c, l @ [k]))),
          cl_super = (\<lambda>k (c, l). case cl_super cl k c of (r, c) \<Rightarrow> (r, (c, l @ [k]))),
          cl_cancel = (\<lambda>i (c, l). case cl_cancel cl i c of (r, c) \<Rightarrow> (r, (c, l))),
          cl_modify = (\<lambda>i k (c, l). case cl_modify cl i k c of (r, c) \<Rightarrow> (r, (c, l))),
          cl_status = (\<lambda>i (c, l). case cl_status cl i c of (r, c) \<Rightarrow> (r, (c, l))),
          cl_detail = (\<lambda>i (c, l). case cl_detail cl i c of (r, c) \<Rightarrow> (r, (c, l))),
          cl_executed_price = (\<lambda>i (c, l). case cl_executed_price cl i c of (r, c) \<Rightarrow> (r, (c, l))),
          cl_ltp = (\<lambda>i (c, l). case cl_ltp cl i c of (r, c) \<Rightarrow> (r, (c, l))),
          cl_orderbook = (\<lambda>(c, l). case cl_orderbook cl c of (r, c) \<Rightarrow> (r, (c, l))),
          cl_trade_book = (\<lambda>(c, l). case cl_trade_book cl c of (r, c) \<Rightarrow> (r, (c, l))),
          cl_positions = (\<lambda>(c, l). case cl_positions cl c of (r, c) \<Rightarrow> (r, (c, l))),
          cl_holdings = (\<lambda>(c, l). case cl_holdings cl c of (r, c) \<Rightarrow> (r, (c, l))),
          cl_balance = (\<lambda>(c, l). case cl_balance cl c of (r, c) \<Rightarrow> (r, (c, l))),
          cl_live_pnl = (\<lambda>(c, l). case cl_live_pnl cl c of (r, c) \<Rightarrow> (r, (c, l)))\<rparr>"

definition requests :: "('c \<times> frame list) transport \<Rightarrow> frame list" where
  "requests tr = snd (tp_client tr)"

lemma logged_ops [simp]:
  "cl_order (logged cl) k cs = (fst (cl_order cl k (fst cs)), (snd (cl_order cl k (fst cs)), snd cs @ [k]))"
  "cl_super (logged cl) k cs = (fst (cl_super cl k (fst cs)), (snd (cl_super cl k (fst cs)), snd cs @ [k]))"
  "cl_refresh (logged cl) cs = (fst (cl_refresh cl (fst cs)), (snd (cl_refresh cl (fst cs)), snd cs))"
  by (cases cs; simp add: logged_def Let_def split: prod.splits)+





lemma normal_detail_empty:
  "normal_detail i [] = Inr [(''order_id'', WText (id_text i)), (''status'', WText []), (''filled_qty'', WInt 0),
     (''avg_price'', WFloat (Fin 0)), (''price'', WFloat (Fin 0)), (''quantity'', WInt 0)]"
  by (simp add: normal_detail_def detail_id_def field_def get_default_def bind_res_def first_str_def first_int_def first_float_def)

lemma take_nothing:
  "take_detail [(''order_id'', v), (''status'', w), (''filled_qty'', WInt 0), (''avg_price'', WFloat (Fin 0)), (''price'', x), (''quantity'', y)] ord = ord"
  by (simp add: take_detail_def field_def get_default_def num_or_def real_or_zero_def)

lemma normal_detail_again:
  "normal_detail i [(''order_id'', WText t), (''status'', WText []), (''filled_qty'', WInt 0),
     (''avg_price'', WFloat (Fin 0)), (''price'', WFloat (Fin 0)), (''quantity'', WInt 0)] = normal_detail i []"
  by (simp add: normal_detail_def detail_id_def field_def get_default_def bind_res_def first_str_def first_int_def first_float_def
      to_int_def to_float_def py_int_def)


section \<open>Properties of orders\<close>


text \<open>the grid of one decimal breaks the band of a cheap contract.  A sale whose shifted price is under five
  hundredths is offered at zero, and a purchase at five hundredths is bid at twice the last price.\<close>

theorem cheap_contract_leaves_band:
  assumes "0 \<le> ltp" and "\<bar>pct\<bar> \<le> 100" and "ltp * (1 - \<bar>pct\<bar> / 100) < 1 / 20"
  shows "band_price pct Side_SELL ltp = 0 \<and> band_price 2 Side_BUY (1 / 20) = 2 * (1 / 20)"
proof
  let ?x = "ltp * (1 - \<bar>pct\<bar> / 100)"
  have "0 \<le> ?x" using assms(1,2) by simp
  then have "\<lfloor>?x * 10\<rfloor> = 0" using assms(3) by (simp add: floor_eq_iff)
  then show "band_price pct Side_SELL ltp = 0"
    using assms(3) by (simp add: band_price_def py_round_def round_half_even_def Let_def)
  have "\<lfloor>51 / 100 :: real\<rfloor> = 0" by (simp add: floor_eq_iff)
  then show "band_price 2 Side_BUY (1 / 20) = 2 * (1 / 20)"
    by (simp add: band_price_def py_round_def round_half_even_def Let_def)
qed

text \<open>a refused conversion leaves a limit order behind.  When the conversion of a market order is refused,
  the order has become a limit order at its old price; placing it again, at whatever time and quote, sends
  that price without a band.\<close>

theorem refused_conversion_sent_unbanded:
  assumes "sebi_convert env ins ord = (Some e, o1)"
    and "dn_client env' = logged cl" and "dn_book env' (od_symbol ord) = (ct, ins')" and "tp_gate tr = None"
    and "fst (cl_refresh cl (fst (tp_client tr))) = Inr ()"
    and "dhan_place env' o1 tr = (r, o2, tr')"
  shows "od_price o1 = od_price ord \<and> od_order_type o1 = LIMIT \<and> requests tr' = requests tr @ [order_request ct ins' o1]"
proof -
  have o1: "o1 = ord\<lparr>od_order_type := LIMIT\<rparr>"
    using assms(1) by (auto simp: sebi_convert_def Let_def split: if_splits sum.splits option.splits)
  have "sebi_convert env' ins' o1 = (None, o1)" by (simp add: sebi_convert_def o1)
  moreover have "route_for_broker (order_type_value LIMIT) = Inr ''order_placement''" by code_simp
  ultimately show ?thesis
    using assms(2-6) o1
    by (auto simp: dhan_place_def ensure_tsl_def invoke_no_gate placed_def requests_def split: prod.splits sum.splits if_splits)
qed

text \<open>what placing does to the order.  Success leaves it pending with an id; a failure never changes its id,
  and marks it rejected unless it is a rate limit or came before the request.\<close>

theorem placement_outcomes:
  assumes "dhan_place env ord tr = (r, ord', tr')"
  shows "case r of
      None \<Rightarrow> od_status ord' = PENDING \<and> od_order_id ord' \<noteq> None
    | Some e \<Rightarrow> od_order_id ord' = od_order_id ord \<and>
        (od_status ord' = od_status ord \<or> od_status ord' = REJECTED \<and> e \<noteq> RateLimitedErr)"
proof -
  obtain ct ins where b: "dn_book env (od_symbol ord) = (ct, ins)" by fastforce
  have c: "od_order_id o2 = od_order_id ord \<and> od_status o2 = od_status ord" if "sebi_convert env ins ord = (x, o2)" for x o2
    using that by (auto simp: sebi_convert_def Let_def split: if_splits sum.splits option.splits)
  have p: "case r of
      None \<Rightarrow> od_status ord' = PENDING \<and> od_order_id ord' \<noteq> None
    | Some e \<Rightarrow> od_order_id ord' = od_order_id o2 \<and>
        (od_status ord' = od_status o2 \<or> od_status ord' = REJECTED \<and> e \<noteq> RateLimitedErr)"
    if "placed prefix o2 res = (r, ord', tr')" for prefix o2 res
    using that by (auto simp: placed_def wrap_error_def split: prod.splits sum.splits if_splits)
  show ?thesis
    using assms b c
    by (auto simp: dhan_place_def split: prod.splits option.splits sum.splits if_splits dest!: p)
qed

section \<open>Properties of failures\<close>

text \<open>a rate limit is typed and penalised.  Whatever the client's text for it, a rate-limit failure of a call
  leaves the choke point as such, and the gate grants nothing of that class for a second.\<close>

theorem rate_limit_typed_and_penalised:
  assumes "tp_gate tr = Some g" and "dn_acquire env q (tp_now tr) g = Inr (t, g')"
    and "call (tp_client tr) = (Inl e, c)" and "is_rate_limited e"
  shows "\<exists>g''. invoke env q call tr = (Inl RateLimitedErr, tr\<lparr>tp_now := t, tp_client := c, tp_gate := Some g''\<rparr>) \<and>
    (\<forall>now now2. now < t + 1 \<longrightarrow> fst (attempt now now2 q g'') \<noteq> Granted)"
proof -
  have "fst (attempt now now2 q (penalize t q 1 g')) \<noteq> Granted" if "now < t + 1" for now now2
    using that by (simp add: attempt_def compute_wait_def penalize_def Let_def max_def)
  then show ?thesis using assms by (auto simp: invoke_def run_call_def)
qed

text \<open>a rate limit is never masked.  When the client's calls answer with a rate limit, in whatever words,
  refreshing the status, the detail, the executed price and the order book all fail with the rate limit, and
  the order is as it was.\<close>

theorem rate_limit_surfaces:
  assumes "tp_gate tr = None" and "is_rate_limited e"
    and "fst (cl_status (dn_client env) (od_order_id ord) (tp_client tr)) = Inl e"
    and "fst (cl_detail (dn_client env) (od_order_id ord) (tp_client tr)) = Inl e"
    and "fst (cl_executed_price (dn_client env) (od_order_id ord) (tp_client tr)) = Inl e"
    and "fst (cl_orderbook (dn_client env) (tp_client tr)) = Inl e"
  shows "fst (dhan_status env ord tr) = Some RateLimitedErr \<and> fst (snd (dhan_status env ord tr)) = ord \<and>
    fst (dhan_detail env (od_order_id ord) tr) = Inl RateLimitedErr \<and>
    fst (dhan_executed_price env ord tr) = Inl RateLimitedErr \<and> fst (dhan_orderbook env tr) = Inl RateLimitedErr"
  using assms
  by (simp add: dhan_status_def dhan_detail_def transport_detail_def dhan_executed_price_def transport_executed_price_def
      dhan_orderbook_def wrap_error_def bind_res_def invoke_no_gate)

text \<open>a dead detail call is taken for an answer.  When the status call answers that the order was traded and
  the call for its detail fails, refreshing the order succeeds: it is completed with the filled quantity and
  the average price it had before.\<close>

lemma dead_detail_status:
  assumes "tp_gate tr = None" and "cl_status (dn_client env) (od_order_id ord) (tp_client tr) = (Inr (WText ''TRADED''), c)"
    and "cl_detail (dn_client env) (od_order_id ord) c = (Inl e, c')" and "\<not> is_rate_limited e"
  shows "dhan_status env ord tr = (None, ord\<lparr>od_status := COMPLETED\<rparr>, tr\<lparr>tp_client := c'\<rparr>)"
proof -
  have "e \<noteq> RateLimitedErr" using assms(4) by (auto simp: is_rate_limited_def)
  then have "dhan_detail env (od_order_id ord) (tr\<lparr>tp_client := c\<rparr>) =
      (normal_detail (od_order_id ord) [], tr\<lparr>tp_client := c'\<rparr>)"
    using assms by (simp add: dhan_detail_def transport_detail_def invoke_no_gate)
  moreover have "get_default DHAN_STATUS (upper ''TRADED'') PENDING = COMPLETED" by code_simp
  ultimately show ?thesis
    using assms by (simp add: dhan_status_def invoke_no_gate normal_detail_empty take_nothing)
qed

text \<open>a fill is lost behind a dead detail call.  When the broker has traded an order the executor tracks as
  unfilled beyond what it published, and the detail call fails, the next poll forgets the order and publishes
  no fill for it.\<close>

theorem dead_detail_loses_fill:
  assumes "map_of (bx_open s) oid = Some r" and "cb_state (bx_breaker s) \<noteq> Circuit_OPEN"
    and "od_filled_qty (oo_order r) = oo_filled r" and "tp_gate (bx_broker s) = None"
    and "cl_status (dn_client env) (od_order_id (oo_order r)) (tp_client (bx_broker s)) = (Inr (WText ''TRADED''), c)"
    and "cl_detail (dn_client env) (od_order_id (oo_order r)) c = (Inl e, c')" and "\<not> is_rate_limited e"
    and "poll_order (dhan_adapter env) cx oid s = (s', ms)"
  shows "map_of (bx_open s') oid = None \<and> fill_total oid ms = 0"
proof -
  let ?o = "oo_order r\<lparr>od_status := COMPLETED\<rparr>"
  let ?b = "bx_broker s\<lparr>tp_client := c'\<rparr>"
  let ?s = "update_open oid (\<lambda>r. r\<lparr>oo_order := ?o, oo_stale := 0\<rparr>)
        (s\<lparr>bx_broker := ?b, bx_breaker := on_success (bx_breaker s)\<rparr>)"
  have st: "ad_status (dhan_adapter env) (oo_order r) (bx_broker s) = (Inr ?o, ?b)"
    using dead_detail_status [OF assms(4-7)] by (simp add: dhan_adapter_def answer_def)
  have e: "lifecycle (dhan_adapter env) cx oid ?s = (s', ms)" using assms(8) poll_order_success [OF assms(1,2) st] by simp
  have m: "map_of (bx_open ?s) oid = Some (r\<lparr>oo_order := ?o, oo_stale := 0\<rparr>)" using assms(1) by simp
  show ?thesis
    using e m assms(3)
    by (auto simp: lifecycle_def timeout_step_def update_step_def fill_step_def finish_step_def emit_fill_def Let_def
        split: prod.splits if_splits)
qed

text \<open>a dead executed price is zero.  Any failure of the call for the executed price but a rate limit, and an
  answer that is no number, is returned as the price zero.\<close>

theorem dead_executed_price_is_zero:
  assumes "tp_gate tr = None" and "cl_executed_price (dn_client env) (od_order_id ord) (tp_client tr) = (Inl e, c)"
    and "\<not> is_rate_limited e"
  shows "dhan_executed_price env ord tr = (Inr (Fin 0), tr\<lparr>tp_client := c\<rparr>)"
proof -
  have "e \<noteq> RateLimitedErr" using assms(3) by (auto simp: is_rate_limited_def)
  then show ?thesis using assms by (simp add: dhan_executed_price_def transport_executed_price_def invoke_no_gate)
qed

lemma execute_from_result:
  "execute_from n rnd p no_retry fn k w = (Inr x, w', sl) \<Longrightarrow> \<exists>v. fst (fn v) = Inr x"
proof (induction n arbitrary: k w w' sl)
  case (Suc n)
  obtain y w1 where f: "fn w = (y, w1)" by fastforce
  show ?case
  proof (cases y)
    case (Inl e)
    with f Suc.prems obtain w2 sl2 where "execute_from n rnd p no_retry fn (Suc k) w1 = (Inr x, w2, sl2)"
      by (auto split: if_splits prod.splits)
    then show ?thesis by (rule Suc.IH)
  next
    case (Inr v)
    with f Suc.prems show ?thesis by (intro exI [of _ w]) simp
  qed
qed simp

lemma read_ltp_pos: "read_ltp rep sy d = Inr x \<Longrightarrow> num_pos x"
  by (auto simp: read_ltp_def bind_res_simps split: sum.splits if_splits option.splits)

text \<open>a last price is a positive number.  Whatever the client answers, over all retries, a price that
  \<open>get_ltp\<close> returns is greater than zero; in particular it is never a non-number.\<close>

theorem last_price_positive:
  assumes "get_ltp rnd pol env sy tr = (Inr x, tr', sleeps)"
  shows "num_pos x"
proof -
  obtain t1 sl where "execute rnd pol None (try_ltp env sy) tr = (Inr x, t1, sl)"
    using assms by (auto simp: get_ltp_def map_sum_def split: prod.splits sum.splits)
  then obtain v where "fst (try_ltp env sy v) = Inr x" unfolding execute_def by (metis execute_from_result)
  then show ?thesis by (auto simp: try_ltp_def bind_res_simps split: prod.splits dest: read_ltp_pos)
qed

text \<open>a rate limit inside a failure envelope is not typed.  The client reports a failed price as a dictionary;
  when that dictionary's text names the rate limit, the price is not retried, but the failure is the general
  one, and the gate is not told.\<close>

theorem enveloped_rate_limit_untyped:
  assumes "tp_gate tr = None" and "cl_ltp (dn_client env) sy (tp_client tr) = (Inr (Inr d), c)"
    and "map_of d ''status'' = Some (WText ''failure'')" and "is_rate_limited (ValueError (''LTP fetch failed: '' @ dn_repr env d))"
    and "0 < max_retries pol"
  shows "get_ltp rnd pol env sy tr =
    (Inl (RuntimeError (''LTP fetch failed for '' @ sy @ '' after retries: '' @ ''LTP fetch failed: '' @ dn_repr env d)),
     tr\<lparr>tp_client := c\<rparr>, [])"
proof -
  have f: "lower ''failure'' = ''failure''" by code_simp
  have "try_ltp env sy tr = (Inl (ValueError (''LTP fetch failed: '' @ dn_repr env d)), tr\<lparr>tp_client := c\<rparr>)"
    using assms(1-3) f by (simp add: try_ltp_def invoke_no_gate bind_res_def read_ltp_def)
  with assms(4,5) show ?thesis
    by (cases "max_retries pol") (simp_all add: get_ltp_def execute_def wrap_error_def)
qed

text \<open>the option chain falls back at most twice.  At most three expiries are asked for, the one asked for
  first; an answer names the expiry that gave it and how many were asked; a general failure comes only after
  all three; and a rate limit of the first ends the search.\<close>

theorem chain_falls_back:
  assumes "get_option_chain sy fetch dates k0 s = (r, s', n)"
  shows "n \<le> 3 \<and>
    (case r of
       Inr (k, d, x) \<Rightarrow> k + 1 = k0 + n
     | Inl e \<Rightarrow> e = RateLimitedErr \<or> n = 3) \<and>
    (fst (fetch k0 s) = Inl RateLimitedErr \<longrightarrow> r = Inl RateLimitedErr \<and> n = 1)"
proof -
  have w: "case fst (with_expiry dates k d t) of Inr (k', d', x) \<Rightarrow> k' = k | Inl e \<Rightarrow> e = RateLimitedErr" for k d t
    by (cases "dates t") (auto simp: with_expiry_def split: sum.splits)
  have gen: "n \<le> length ks \<and> (case r of Inr (k, d, x) \<Rightarrow> 0 < n \<and> k = ks ! (n - 1) | Inl e \<Rightarrow> e = RateLimitedErr \<or> n = length ks)"
    if "chain_attempts sy fetch dates err ks s = (r, s', n)" for err ks s r s' n
    using that
  proof (induction ks arbitrary: err s r s' n)
    case (Cons k ks)
    obtain y s1 where f: "fetch k s = (y, s1)" by fastforce
    have rest: ?case if "chain_attempts sy fetch dates err' ks s1 = (r, s', m)" "n = Suc m" for err' m
      using Cons.IH [OF that(1)] that(2) by (auto simp: nth_Cons' split: sum.splits)
    consider e where "y = Inl e" "e = RateLimitedErr" | e where "y = Inl e" "e \<noteq> RateLimitedErr" | d where "y = Inr (Chain d)"
      | "y = Inr NoChain" | "y = Inr EmptyChain"
      by (metis chain_reply.exhaust old.sum.exhaust)
    then show ?case
    proof cases
      case 1
      then show ?thesis using Cons.prems f by auto
    next
      case 2
      then obtain m where "chain_attempts sy fetch dates (error_text e) ks s1 = (r, s', m)" "n = Suc m"
        using Cons.prems f by (auto split: prod.splits)
      then show ?thesis by (rule rest)
    next
      case 3
      obtain a b where "with_expiry dates k d s1 = (a, b)" by fastforce
      then show ?thesis using Cons.prems f 3 w [of k d s1] by (auto split: sum.splits)
    next
      case 4
      then obtain err' m where "chain_attempts sy fetch dates err' ks s1 = (r, s', m)" "n = Suc m"
        using Cons.prems f by (auto split: prod.splits)
      then show ?thesis by (rule rest)
    next
      case 5
      then obtain err' m where "chain_attempts sy fetch dates err' ks s1 = (r, s', m)" "n = Suc m"
        using Cons.prems f by (auto split: prod.splits)
      then show ?thesis by (rule rest)
    qed
  qed simp
  have lim: "fst (fetch k0 s) = Inl RateLimitedErr \<longrightarrow> r = Inl RateLimitedErr \<and> n = 1"
    using assms by (cases "fetch k0 s") (auto simp: get_option_chain_def)
  note g = gen [OF assms [unfolded get_option_chain_def]]
  have "n \<in> {0, 1, 2, 3}" using g by auto
  then show ?thesis
    using g lim by (auto split: sum.splits)
qed

text \<open>an end without a start cannot be asked for.  Daily history with an end and no start, which the broker
  always passes as text, fails on the subtraction of the days, outside the handling of the call's failures.\<close>

theorem daily_end_without_start_fails:
  "(\<exists>e. daily_range today days start fin = Inl e) = (start = None \<and> fin \<noteq> None)"
  by (auto simp: daily_range_def Let_def split: option.splits)

text \<open>the depth snapshot is tried a bounded number of times, and stops at the first frame or error.\<close>

theorem depth_attempts_bounded:
  "case depth_attempts n snap s of (r, s', k) \<Rightarrow> k \<le> n \<and> (r = Inr None \<longrightarrow> k = n)"
proof (induction n arbitrary: s)
  case (Suc n)
  show ?case
  proof (cases "snap s")
    case (Pair r s1)
    then show ?thesis using Suc.IH [of s1] by (auto split: sum.splits option.splits prod.splits)
  qed
qed simp

section \<open>Witnesses\<close>

text \<open>A client whose status says traded and whose detail, executed price and placement fail, with the given
  error; prices come in a failure envelope.\<close>

definition demo_client :: "py_error \<Rightarrow> unit client" where
  "demo_client e =
     \<lparr>cl_refresh = (\<lambda>c. (Inr (), c)), cl_order = (\<lambda>k c. (Inr (WInt 7), c)), cl_super = (\<lambda>k c. (Inl e, c)),
      cl_cancel = (\<lambda>i c. (Inl e, c)), cl_modify = (\<lambda>i k c. (Inl e, c)), cl_status = (\<lambda>i c. (Inr (WText ''TRADED''), c)),
      cl_detail = (\<lambda>i c. (Inl e, c)), cl_executed_price = (\<lambda>i c. (Inl e, c)),
      cl_ltp = (\<lambda>sy c. (Inr (Inr [(''status'', WText ''failure'')]), c)), cl_orderbook = (\<lambda>c. (Inl e, c)),
      cl_trade_book = (\<lambda>c. (Inl e, c)), cl_positions = (\<lambda>c. (Inl e, c)), cl_holdings = (\<lambda>c. (Inl e, c)),
      cl_balance = (\<lambda>c. (Inl e, c)), cl_live_pnl = (\<lambda>c. (Inl e, c))\<rparr>"

definition demo_future :: "real \<Rightarrow> instrument" where
  "demo_future ltp = (new_instrument ''future'' ''NIFTY'' ''NFO'' True)\<lparr>i_quote := quote_empty\<lparr>q_ltp := ltp, q_timestamp := Some (naive 0)\<rparr>\<rparr>"

definition demo_env :: "'c client \<Rightarrow> datetime \<Rightarrow> 'c dhan_env" where
  "demo_env cl now =
     \<lparr>dn_client = cl, dn_acquire = (\<lambda>q t g. Inr (t, g)), dn_ts = now, dn_book = (\<lambda>sy. (PlainSymbol sy, demo_future 100)),
      dn_repr = (\<lambda>d. ''DH-904''), dn_max_age = 10, dn_band_pct = 2\<rparr>"

definition demo_order :: order where
  "demo_order =
     \<lparr>od_symbol = ''NIFTY'', od_kind = ''future'', od_side = Side_BUY, od_quantity = 50, od_order_type = OT_MARKET,
      od_trade_type = MIS, od_price = 0, od_reference_price = 0, od_trigger_price = 0, od_target_price = 0,
      od_stop_loss_price = 0, od_order_id = Some ''7'', od_status = PENDING, od_filled_qty = 0, od_avg_price = 0\<rparr>"

definition demo_line :: "'c \<Rightarrow> 'c transport" where
  "demo_line c = \<lparr>tp_client = c, tp_gate = None, tp_now = 0\<rparr>"

lemmas demo_defs = demo_client_def demo_env_def demo_order_def demo_line_def demo_future_def new_instrument_def

lemma demo_fields:
  "dn_client (demo_env cl now) = cl" "dn_book (demo_env cl now) sy = (PlainSymbol sy, demo_future 100)"
  "i_exchange (demo_future p) = ''NFO''" "q_ltp (i_quote (demo_future p)) = p" "tp_gate (demo_line c) = None"
  "tp_client (demo_line c) = c" "od_order_type demo_order = OT_MARKET" "od_order_id demo_order = Some ''7''"
  by (simp_all add: demo_defs)

lemma demo_client_ops:
  "cl_order (demo_client e) k c = (Inr (WInt 7), c)" "cl_refresh (demo_client e) c = (Inr (), c)"
  by (simp_all add: demo_client_def)

lemma demo_old_quote: "\<exists>e. sebi_convert (demo_env cl (naive 60)) (demo_future 100) demo_order = (Some e, demo_order\<lparr>od_order_type := LIMIT\<rparr>)"
  by (simp add: sebi_convert_def demo_fields SEBI_FNO_EXCHANGES_def quote_age_def)
     (simp add: demo_defs naive_def dt_abs_def)

lemma demo_fresh_quote:
  "\<exists>o'. sebi_convert (demo_env cl (naive 1)) (demo_future 100) demo_order = (None, o')"
  by (simp add: sebi_convert_def demo_fields SEBI_FNO_EXCHANGES_def quote_age_def)
     (simp add: demo_defs naive_def dt_abs_def)



theorem cheap_contract_leaves_band_witness: "band_price 2 Side_SELL (1 / 20) = 0"
  using cheap_contract_leaves_band [of "1 / 20" 2] by simp

theorem refused_conversion_sent_unbanded_witness:
  "\<exists>e o1 r o2 tr'. sebi_convert (demo_env (logged (demo_client (ValueError ''x''))) (naive 60)) (demo_future 100) demo_order = (Some e, o1) \<and>
     dhan_place (demo_env (logged (demo_client (ValueError ''x''))) (naive 90)) o1 (demo_line ((), [])) = (r, o2, tr') \<and>
     requests tr' = [order_request (PlainSymbol ''NIFTY'') (demo_future 100) o1] \<and> od_price o1 = 0"
proof -
  let ?cl = "logged (demo_client (ValueError ''x''))"
  obtain e where c: "sebi_convert (demo_env ?cl (naive 60)) (demo_future 100) demo_order = (Some e, demo_order\<lparr>od_order_type := LIMIT\<rparr>)"
    using demo_old_quote by blast
  obtain r o2 tr' where p: "dhan_place (demo_env ?cl (naive 90)) (demo_order\<lparr>od_order_type := LIMIT\<rparr>) (demo_line ((), [])) = (r, o2, tr')"
    by (metis prod_cases3)
  have f: "fst (cl_refresh (demo_client (ValueError ''x'')) (fst (tp_client (demo_line ((), []))))) = Inr ()" by (simp add: demo_client_def)
  have "od_symbol demo_order = ''NIFTY''" "od_price demo_order = 0" by (simp_all add: demo_order_def)
  with refused_conversion_sent_unbanded [OF c demo_fields(1,2) demo_fields(5) f p] c p show ?thesis
    by (auto simp: requests_def demo_fields)
qed

theorem placement_outcomes_witness:
  "\<exists>o' tr'. dhan_place (demo_env (demo_client (ValueError ''x'')) (naive 1)) demo_order (demo_line ()) = (None, o', tr') \<and>
     od_status o' = PENDING \<and> od_order_id o' \<noteq> None"
proof -
  let ?env = "demo_env (demo_client (ValueError ''x'')) (naive 1)"
  obtain o1 where c: "sebi_convert ?env (demo_future 100) demo_order = (None, o1)" using demo_fresh_quote by blast
  have "od_order_type o1 = LIMIT" using c by (auto simp: sebi_convert_def demo_fields Let_def SEBI_FNO_EXCHANGES_def split: if_splits sum.splits option.splits)
  moreover have "route_for_broker (order_type_value LIMIT) = Inr ''order_placement''" by code_simp
  ultimately have "\<exists>o' tr'. dhan_place ?env demo_order (demo_line ()) = (None, o', tr')"
    using c by (simp add: dhan_place_def demo_fields demo_client_ops ensure_tsl_def placed_def invoke_no_gate)
  then obtain o' tr' where p: "dhan_place ?env demo_order (demo_line ()) = (None, o', tr')" by blast
  with placement_outcomes [OF p] show ?thesis by simp
qed

lemma not_limited: "\<not> is_rate_limited (ValueError ''x'')"
  by code_simp

lemma limited_text: "is_rate_limited (ValueError ''DH-904'')"
  by code_simp

theorem rate_limit_typed_and_penalised_witness:
  "\<exists>g''. invoke (demo_env (demo_client (ValueError ''DH-904'')) (naive 1)) ORDER (\<lambda>c. (Inl (ValueError ''DH-904'') :: py_error + unit, c))
      \<lparr>tp_client = (), tp_gate = Some (new_gate (\<lambda>_. None)), tp_now = 5\<rparr> =
      (Inl RateLimitedErr, \<lparr>tp_client = (), tp_gate = Some g'', tp_now = 5\<rparr>)"
  using rate_limit_typed_and_penalised [of "\<lparr>tp_client = (), tp_gate = Some (new_gate (\<lambda>_. None)), tp_now = 5\<rparr>"
      "new_gate (\<lambda>_. None)" "demo_env (demo_client (ValueError ''DH-904'')) (naive 1)" ORDER 5 "new_gate (\<lambda>_. None)"
      "\<lambda>c. (Inl (ValueError ''DH-904'') :: py_error + unit, c)" "ValueError ''DH-904''" "()"] limited_text
  by (auto simp: demo_env_def)

definition limited_client :: "unit client" where
  "limited_client = (demo_client (ValueError ''DH-904''))\<lparr>cl_status := (\<lambda>i c. (Inl (ValueError ''DH-904''), c))\<rparr>"

theorem rate_limit_surfaces_witness:
  "fst (dhan_status (demo_env limited_client (naive 1)) demo_order (demo_line ())) = Some RateLimitedErr"
  using rate_limit_surfaces [OF demo_fields(5) limited_text, of "demo_env limited_client (naive 1)" demo_order "()"]
  by (simp add: demo_fields limited_client_def demo_client_def)

definition demo_tracked :: open_order where
  "demo_tracked =
     \<lparr>oo_intent = ex_intent, oo_order = demo_order, oo_filled = 0, oo_status = PENDING, oo_placed_at = naive 0, oo_stale = 0\<rparr>"

definition demo_exec :: "unit transport broker_exec" where
  "demo_exec = (new_broker_exec (demo_line ()) None NoStatutory 5 60 False)\<lparr>bx_open := [(''7'', demo_tracked)]\<rparr>"

theorem dead_detail_loses_fill_witness:
  "map_of (bx_open (fst (poll_order (dhan_adapter (demo_env (demo_client (ValueError ''x'')) (naive 1))) ex_ctx ''7'' demo_exec))) ''7'' = None"
proof -
  let ?env = "demo_env (demo_client (ValueError ''x'')) (naive 1)"
  obtain s' ms where p: "poll_order (dhan_adapter ?env) ex_ctx ''7'' demo_exec = (s', ms)" by fastforce
  have "map_of (bx_open s') ''7'' = None \<and> fill_total ''7'' ms = 0"
    by (rule dead_detail_loses_fill [OF _ _ _ _ _ _ not_limited p, of demo_tracked "()" "()"])
       (simp_all add: demo_exec_def new_broker_exec_def new_breaker_def demo_tracked_def demo_fields demo_client_def,
        simp_all add: demo_order_def demo_line_def)
  with p show ?thesis by simp
qed

theorem dead_executed_price_is_zero_witness:
  "fst (dhan_executed_price (demo_env (demo_client (ValueError ''x'')) (naive 1)) demo_order (demo_line ())) = Inr (Fin 0)"
  using dead_executed_price_is_zero [OF demo_fields(5) _ not_limited, of "demo_env (demo_client (ValueError ''x'')) (naive 1)" demo_order "()" "()"]
  by (simp add: demo_fields demo_client_def)

definition demo_policy :: retry_policy where
  "demo_policy = \<lparr>max_retries = 3, base_delay = 1/5, max_delay = 5, multiplier = 2, jitter = 0\<rparr>"

definition priced_client :: "unit client" where
  "priced_client = (demo_client (ValueError ''x''))\<lparr>cl_ltp := (\<lambda>sy c. (Inr (Inr [(sy, WInt 100)]), c))\<rparr>"

theorem last_price_positive_witness: "num_pos (Fin 100)"
proof -
  have "execute (\<lambda>_. 0) demo_policy None (try_ltp (demo_env priced_client (naive 1)) ''TCS'') (demo_line ()) = (Inr (Fin 100), demo_line (), [])"
  proof -
    have "lower [] \<noteq> ''failure''" by (simp add: lower_def)
    then have "try_ltp (demo_env priced_client (naive 1)) ''TCS'' (demo_line ()) = (Inr (Fin 100), demo_line ())"
      by (simp add: try_ltp_def demo_fields invoke_no_gate priced_client_def read_ltp_def bind_res_def float_or_zero_def float_of_val_def)
    then show ?thesis by (simp add: execute_def demo_policy_def eval_nat_numeral)
  qed
  then have "get_ltp (\<lambda>_. 0) demo_policy (demo_env priced_client (naive 1)) ''TCS'' (demo_line ()) = (Inr (Fin 100), demo_line (), [])"
    by (simp add: get_ltp_def)
  then show ?thesis by (rule last_price_positive)
qed

theorem enveloped_rate_limit_untyped_witness:
  "get_ltp (\<lambda>_. 0) demo_policy (demo_env (demo_client (ValueError ''x'')) (naive 1)) ''TCS'' (demo_line ()) =
     (Inl (RuntimeError (''LTP fetch failed for TCS after retries: LTP fetch failed: DH-904'')), demo_line (), [])"
proof -
  have t: "is_rate_limited (ValueError (''LTP fetch failed: '' @ ''DH-904''))" by code_simp
  show ?thesis
    using enveloped_rate_limit_untyped [OF demo_fields(5), of "demo_env (demo_client (ValueError ''x'')) (naive 1)" "''TCS''" "()"
        "[(''status'', WText ''failure'')]" "()" demo_policy "\<lambda>_. 0"] t
    by (simp add: demo_fields demo_client_def demo_env_def demo_policy_def demo_line_def)
qed

theorem chain_falls_back_witness:
  "\<exists>n. get_option_chain ''NIFTY'' (\<lambda>k s. (if k = 0 then Inr NoChain else Inr (Chain k), s)) (\<lambda>s. (Inr [], s)) 0 () =
     (Inr (1, 1, None), (), n) \<and> n \<le> 3"
proof -
  obtain n where c: "get_option_chain ''NIFTY'' (\<lambda>k s. (if k = 0 then Inr NoChain else Inr (Chain k), s)) (\<lambda>s. (Inr [], s)) 0 () =
     (Inr (1, 1, None), (), n)"
    by (simp add: get_option_chain_def with_expiry_def)
  from chain_falls_back [OF c] c show ?thesis by auto
qed

end
