(* ===== verification/Spec2Isabelle.thy ===== *)
theory Spec2Isabelle
  imports PaperBroker Candles RateGate EventStore Kernel PositionSync Runner LiveRunner
    Gate PaperTrader Options Pricing HalfTrend Indicators VolumeProfile OrbVwap SimFeed Backtest LivePump DhanFeed DhanBroker
begin

text \<open>
  nTrade: a verification of the trading framework's core.

  nTrade is an event-driven trading framework.  A \<open>TradingKernel\<close> wires engines to one synchronous
  event bus: market data updates the instruments and the candles, closed candles the indicators,
  strategies react with signals, the risk engine approves or rejects them, the order engine turns
  an approval into an order for the execution target, and fills update the portfolio.  The execution
  target is a simulator, the paper broker or a live broker; a live runner polls the broker, reconciles
  with it, watches the feed and trips the kill switch.

  \<^bold>\<open>Theories and sources\<close> (paths below \<open>src/ntrade\<close>)

  \<^item> \<open>Prelude\<close>: Python numbers, rounding, text, dictionaries (association lists in insertion order),
    \<open>datetime\<close>, errors as values, generic lemmas.
  \<^item> \<open>Events\<close>: \<open>events/\<close>, the event classes as records, their common type \<open>msg\<close> and its class order;
    \<open>run_steps\<close> composes operations that publish.
  \<^item> \<open>Timeframes\<close>: \<open>domain/timeframes.py\<close>, \<open>domain/session.py\<close>, \<open>domain/market_hours.py\<close>.
  \<^item> \<open>Market\<close>: \<open>domain/market/\<close>, \<open>domain/instruments/base.py\<close>, \<open>engines/market_engine.py\<close>.
  \<^item> \<open>Candles\<close>: \<open>engines/candle_engine.py\<close>.
  \<^item> \<open>Portfolio\<close>: \<open>domain/portfolio.py\<close>, \<open>engines/portfolio_engine.py\<close>; the locale \<open>netting\<close> is what
    every book of positions promises.
  \<^item> \<open>Costs\<close>, \<open>Orders\<close>, \<open>SimExec\<close>: \<open>execution/costs.py\<close>, \<open>domain/orders/\<close>, \<open>execution/order_types.py\<close>,
    \<open>execution/simulator.py\<close>, \<open>execution/router.py\<close>, \<open>engines/order_engine.py\<close>, \<open>backtest/fills.py\<close>.
  \<^item> \<open>Risk\<close>: \<open>engines/risk_engine.py\<close>.
  \<^item> \<open>EventBus\<close>: \<open>kernel/event_bus.py\<close>; the locales \<open>bus_handlers\<close>, \<open>engine_table\<close> and \<open>engine_safety\<close>
    are what handlers promise and what dispatch then guarantees.
  \<^item> \<open>Kernel\<close>: \<open>kernel/session.py\<close>, \<open>engines/indicator_engine.py\<close>, \<open>engines/strategy_engine.py\<close>; it
    interprets the locales of \<open>EventBus\<close> on the kernel's own handlers.
  \<^item> \<open>Runner\<close>: \<open>kernel/runner.py\<close>, several strategies with a risk engine each.
  \<^item> \<open>Guard\<close>, \<open>RateGate\<close>: \<open>execution/_guard.py\<close>, \<open>execution/rate_limit.py\<close>, \<open>execution/retry.py\<close>.
  \<^item> \<open>BrokerExec\<close>: \<open>execution/broker_executor.py\<close>, with the broker adapter as a parameter.
  \<^item> \<open>PaperBroker\<close>: \<open>brokers/paper.py\<close>, an implementation of that parameter.
  \<^item> \<open>PositionSync\<close>: \<open>engines/position_sync.py\<close>.
  \<^item> \<open>EventStore\<close>: \<open>storage/event_store.py\<close>.
  \<^item> \<open>LiveRunner\<close>: \<open>runner/live_runner.py\<close>, over \<open>Risk\<close>, \<open>BrokerExec\<close> and \<open>PositionSync\<close>.

  \<^item> \<open>SimFeed\<close>: \<open>sim/tick_simulator.py\<close>, \<open>sim/depth_simulator.py\<close>; the draws of the generator are a parameter.
  \<^item> \<open>Backtest\<close>: \<open>backtest/simulator.py\<close>, the bar loop over the kernel's bus; it interprets the locales of
    \<open>EventBus\<close> on the kernel's handlers with bar-aware execution.
  \<^item> \<open>Gate\<close>: \<open>runner/gate.py\<close>; \<open>PaperTrader\<close>: \<open>api/paper_trader.py\<close> (beside \<open>src/ntrade\<close>).
  \<^item> \<open>Options\<close>: \<open>domain/instruments/derivatives.py\<close>, \<open>expiry.py\<close>, \<open>chain.py\<close>; \<open>Pricing\<close>:
    \<open>domain/analytics/greeks.py\<close>.
  \<^item> \<open>HalfTrend\<close>, \<open>Indicators\<close>, \<open>VolumeProfile\<close>: \<open>domain/analytics/\<close>, the loops over frames whose pandas columns
    are given; \<open>HalfTrend\<close> and \<open>OrbVwap\<close> also model the strategies of \<open>engines/strategies.py\<close> and \<open>engines/orb_vwap.py\<close>.

  \<^item> \<open>ChartData\<close>: \<open>api/marketdata.py\<close>, candles, contracts, quotes and replay ticks behind the chart, from the broker, from
    stored rows or made up (over \<open>SimFeed\<close>); \<open>LivePump\<close>: \<open>api/live.py\<close>, live candles from the broker's ticks, the watch
    over silence and the connection of the feed (over \<open>ChartData\<close> and the reference grouping of \<open>Candles\<close>).
  \<^item> \<open>Wire\<close>: \<open>domain/coercion.py\<close>, the scalars of wire frames; \<open>DhanFeed\<close>: \<open>sources/dhan_feed.py\<close>, the live websocket
    source with the socket library as a parameter (over \<open>Wire\<close> and the pacer of \<open>RateGate\<close>).
  \<^item> \<open>DhanMapper\<close>: \<open>brokers/dhan_mapper.py\<close>; \<open>DhanBroker\<close>: \<open>brokers/dhan.py\<close> and \<open>brokers/dhan_transport.py\<close>, the live
    broker with its client library as a parameter, another implementation of the adapter of \<open>BrokerExec\<close>.

  \<^bold>\<open>How state and effects are modelled\<close>

  A class is a record of its attributes; an operation takes the record and returns it updated, with the
  events it published in order and, where it may raise, an error of \<open>py_error\<close> on the left of a sum.
  Objects shared by reference and mutated through several names (orders of the paper broker, strategy
  objects of the runner) are kept in explicit stores.  Python floats are real numbers; where the code
  rounds, \<open>py_round\<close> rounds to even on the decimal grid.  Publishing on the bus runs handlers which publish
  again: \<open>publish\<close> has the nesting depth as fuel.  If the strategies emit no signal when they are told of
  a fill, a position or a balance (\<open>account_silent\<close>), kernel events have ranks below 11 that decrease from an
  event to what its handlers publish, so a fuel of 13 (\<open>kernel_fuel\<close>) is enough, and dispatch is
  proved to return, not only to be right if it returns.  The safety properties of the kernel do not need
  that condition: every hook may emit signals.  The sleep loop of the rate gate is proved to
  end with a bound on its passes.

  \<^bold>\<open>What is shown\<close>

  \<^item> Accounting: fills net into positions and conserve value up to rounding; the broker execution
    publishes exactly what the broker reports as filled, over any polls, restarts and adoptions; the
    paper broker's book and the ledger agree; recovery rebuilds the inventory.
  \<^item> Safety: an approval implies every configured limit; a halted engine, kernel and runner do not trade; a halt
    reaches every broker and the execution; quotas and poll intervals are kept; order placement is
    idempotent per correlation id.
  \<^item> Dispatch: causality is stamped, and dispatch ends for strategies that are silent on account events.
  \<^item> Refinement: candles are the grouped ticks; reconciliation mirrors the broker and settles; a managed signal is
    screened exactly once.
  \<^item> Research: a backtest ends and reports every bar; the gate's equity path is the ledger's; synthetic ticks and books keep
    their bars and their lean; price, greeks and implied volatility fit together; chains select the nearest
    strikes and the least pay-out; the HalfTrend line ratchets; strategies keep their stops on the right side.
  \<^item> Chart: the live pump stores exactly the session's ticks grouped by bar, keeps at most 64 symbols and keeps
    reconnecting; daily bars are the grouping by day; windows hold the weekdays asked for; normalised series are strictly
    ordered; a loaded instrument master is ordered and yields the nearest expiry.
  \<^item> Live feed: the events of a payload are named and priced as mapped, repeated ticks are filtered, a deliberate stop
    is final, closed sockets are never reused and sockets open at a bounded rate.
  \<^item> Live broker: a banned market order is never sent and its replacement is priced in a band around a fresh price, a
    rate limit surfaces as such, a last price is positive, and the failures that are masked.
  \<^item> Flaws found while modelling are stated as theorems about the code as it is (release of several
    strategies, full tick buffers, partial fills on recovery, completed orders without a price, and the
    unnumbered ones in the component theories).

  \<^bold>\<open>Not modelled\<close>

  Rolling averages, ATR, RSI and other pandas expressions, resampling, scanners and the history pipeline, the Parquet
  store, the Dhan broker's authentication, the thread of its depth snapshot and its frames of options (third-party client, pandas), the HTTP routes,
  broadcasting to sockets, recording ticks to files, instrument capabilities, the JSON text of the event store's file, threads (the bus
  holds one reentrant lock during dispatch, so dispatches do not interleave), and scripts.
\<close>

end
